(* ===== verification/Errors.thy ===== *)
theory Errors
  imports Main
begin

text \<open>
  The error values of the program (\<open>errors.rs\<close>): the enumeration \<open>ErrorCode\<close> with its
  constructors in the order of the source, the failures an instruction can end with, and the
  result type every fallible operation returns.

  Three kinds of failure are kept apart.  \<open>Err\<close> is an \<open>ErrorCode\<close> returned by the program's
  own code, \<open>Constraint\<close> the rejection of an account by one of the \<open>#[account(..)]\<close> attributes
  of an instruction, \<open>ProgramErr\<close> an error a called program (the token program) reports or the
  code of the framework for an account that does not hold the expected data, \<open>Refused\<close> the refusal
  of the runtime itself (creating an account at an address in use, signing for an address without
  its seeds), and \<open>Panic\<close> an abort of the virtual machine: division by zero, an index out of range, an
  \<open>unwrap\<close> of an error.
\<close>

datatype (plugins only: code size) error_code =
    InvalidEnum
  | InvalidStartTick
  | TickArrayExistInPool
  | TickArrayIndexOutofBounds
  | InvalidTickSpacing
  | ClosePositionNotEmpty
  | DivideByZero
  | NumberCastError
  | NumberDownCastError
  | TickNotFound
  | InvalidTickIndex
  | SqrtPriceOutOfBounds
  | LiquidityZero
  | LiquidityTooHigh
  | LiquidityOverflow
  | LiquidityUnderflow
  | LiquidityNetError
  | TokenMaxExceeded
  | TokenMinSubceeded
  | MissingOrInvalidDelegate
  | InvalidPositionTokenAmount
  | InvalidTimestampConversion
  | InvalidTimestamp
  | InvalidTickArraySequence
  | InvalidTokenMintOrder
  | RewardNotInitialized
  | InvalidRewardIndex
  | RewardVaultAmountInsufficient
  | FeeRateMaxExceeded
  | ProtocolFeeRateMaxExceeded
  | MultiplicationShiftRightOverflow
  | MulDivOverflow
  | MulDivInvalidInput
  | MultiplicationOverflow
  | InvalidSqrtPriceLimitDirection
  | ZeroTradableAmount
  | AmountOutBelowMinimum
  | AmountInAboveMaximum
  | TickArraySequenceInvalidIndex
  | AmountCalcOverflow
  | AmountRemainingOverflow
  | PoolWasDisabled
  | InvalidIntermediaryMint
  | DuplicateTwoHopPool

text \<open>The account attributes an instruction can fail on, named as in the source.\<close>

datatype constraint_kind =
    ConstraintHasOne
  | ConstraintRaw
  | ConstraintAddress
  | ConstraintSeeds
  | ConstraintSigner
  | ConstraintClose

datatype abort =
    Err error_code
  | Constraint constraint_kind
  | ProgramErr nat
  | Refused
  | Panic

type_synonym 'a result = "abort + 'a"

text \<open>
  The question mark operator and \<open>Result::and_then\<close>: the first failure ends the computation.
\<close>

definition and_then :: "'e + 'a \<Rightarrow> ('a \<Rightarrow> 'e + 'b) \<Rightarrow> 'e + 'b" where
  "and_then m f = (case m of Inl e \<Rightarrow> Inl e | Inr x \<Rightarrow> f x)"

text \<open>\<open>Option::ok_or\<close>.\<close>

definition ok_or :: "'a option \<Rightarrow> error_code \<Rightarrow> 'a result" where
  "ok_or m e = (case m of None \<Rightarrow> Inl (Err e) | Some x \<Rightarrow> Inr x)"

text \<open>\<open>Result::unwrap\<close>: an error becomes a panic.\<close>

definition unwrap :: "'a result \<Rightarrow> 'a result" where
  "unwrap m = (case m of Inl e \<Rightarrow> Inl Panic | Inr x \<Rightarrow> Inr x)"

text \<open>
  \<open>Result::unwrap_or\<close>: an error value is replaced by the default, a panic is not a value
  and goes through.
\<close>

definition unwrap_or :: "'a result \<Rightarrow> 'a \<Rightarrow> 'a result" where
  "unwrap_or m d = (case m of Inl Panic \<Rightarrow> Inl Panic | Inl _ \<Rightarrow> Inr d | Inr x \<Rightarrow> Inr x)"

text \<open>A guard of the source: \<open>if b { return Err(e) }\<close>.\<close>

definition reject_if :: "bool \<Rightarrow> abort \<Rightarrow> unit result" where
  "reject_if b e = (if b then Inl e else Inr ())"

text \<open>Evaluation of the second action waits for the first.\<close>

declare and_then_def [code_unfold]

lemma and_then_simps [simp]:
  "and_then (Inl e) f = Inl e"
  "and_then (Inr x) f = f x"
  by (simp_all add: and_then_def)

lemma and_then_Inr_iff: "and_then m f = Inr y \<longleftrightarrow> (\<exists>x. m = Inr x \<and> f x = Inr y)"
  by (cases m) simp_all

lemma and_then_Inl_iff:
  "and_then m f = Inl e \<longleftrightarrow> m = Inl e \<or> (\<exists>x. m = Inr x \<and> f x = Inl e)"
  by (cases m) simp_all

lemma and_then_assoc: "and_then (and_then m f) g = and_then m (\<lambda>x. and_then (f x) g)"
  by (cases m) simp_all

lemma and_then_cong [fundef_cong]:
  assumes "m = m'" and "\<And>x. m' = Inr x \<Longrightarrow> f x = g x"
  shows "and_then m f = and_then m' g"
  using assms by (cases m') simp_all

lemma ok_or_simps [simp]:
  "ok_or None e = Inl (Err e)"
  "ok_or (Some x) e = Inr x"
  by (simp_all add: ok_or_def)

lemma ok_or_Inr_iff: "ok_or m e = Inr x \<longleftrightarrow> m = Some x"
  by (cases m) simp_all

lemma ok_or_Inl_iff: "ok_or m e = Inl f \<longleftrightarrow> m = None \<and> f = Err e"
  by (cases m) auto

lemma unwrap_simps [simp]:
  "unwrap (Inl e) = Inl Panic"
  "unwrap (Inr x) = Inr x"
  by (simp_all add: unwrap_def)

lemma unwrap_Inr_iff: "unwrap m = Inr x \<longleftrightarrow> m = Inr x"
  by (cases m) simp_all

lemma unwrap_or_simps [simp]:
  "unwrap_or (Inl Panic) d = Inl Panic"
  "unwrap_or (Inl (Err e)) d = Inr d"
  "unwrap_or (Inr x) d = Inr x"
  by (simp_all add: unwrap_or_def)

lemma unwrap_or_total: "m \<noteq> Inl Panic \<Longrightarrow> \<exists>x. unwrap_or m d = Inr x"
  by (auto simp: unwrap_or_def split: sum.split abort.split)

lemma reject_if_simps [simp]:
  "reject_if True e = Inl e"
  "reject_if False e = Inr ()"
  by (simp_all add: reject_if_def)

lemma reject_if_Inr_iff: "reject_if b e = Inr u \<longleftrightarrow> \<not> b"
  by (simp add: reject_if_def)

lemma reject_if_Inl_iff: "reject_if b e = Inl f \<longleftrightarrow> b \<and> f = e"
  by (auto simp: reject_if_def)

text \<open>
  Inversion of a computation that succeeded, and of one that failed.  The collections are the
  rules with which the theories of the operations take a result apart.
\<close>

lemmas ok_iffs = and_then_Inr_iff ok_or_Inr_iff unwrap_Inr_iff reject_if_Inr_iff
lemmas fail_iffs = and_then_Inl_iff ok_or_Inl_iff reject_if_Inl_iff

end
