(* ===== verification/Prelude.thy ===== *)
theory Prelude
  imports Errors "HOL-Library.Word"
begin

text \<open>
  Machine integers and fixed-size arrays shared by all components.

  Unsigned integers are words of their width, so that \<open>+\<close>, \<open>-\<close> and \<open>*\<close> wrap around as the
  unchecked operators of the deployed (release) build do; the checked operations of the source
  return an option.  Signed integers (\<open>i32\<close> for ticks, \<open>i128\<close> for liquidity deltas) are HOL
  integers with the two's complement wrap-around written out by \<open>to_i32\<close> and \<open>to_i128\<close> after
  every operation, which keeps comparisons and negative literals readable.
\<close>

unbundle bit_operations_syntax

type_synonym u8 = "8 word"
type_synonym u16 = "16 word"
type_synonym u64 = "64 word"
type_synonym u128 = "128 word"
type_synonym usize = nat
type_synonym isize = int
type_synonym i32 = int
type_synonym i64 = int
type_synonym i128 = int

abbreviation u64_MAX :: u64 where "u64_MAX \<equiv> 0xFFFFFFFFFFFFFFFF"
abbreviation u128_MAX :: u128 where "u128_MAX \<equiv> 0xFFFFFFFFFFFFFFFFFFFFFFFFFFFFFFFF"
abbreviation i128_MAX :: int where "i128_MAX \<equiv> 0x7FFFFFFFFFFFFFFFFFFFFFFFFFFFFFFF"

text \<open>Two's complement: the value of the low \<open>w\<close> bits, read as signed.\<close>

definition wrap_signed :: "nat \<Rightarrow> int \<Rightarrow> int" where
  "wrap_signed w x = (x + 2 ^ (w - 1)) mod 2 ^ w - 2 ^ (w - 1)"

abbreviation to_i32 :: "int \<Rightarrow> i32" where "to_i32 \<equiv> wrap_signed 32"
abbreviation to_i128 :: "int \<Rightarrow> i128" where "to_i128 \<equiv> wrap_signed 128"

definition in_i32 :: "int \<Rightarrow> bool" where
  "in_i32 x \<longleftrightarrow> - (2 ^ 31) \<le> x \<and> x < 2 ^ 31"

definition in_i128 :: "int \<Rightarrow> bool" where
  "in_i128 x \<longleftrightarrow> - (2 ^ 127) \<le> x \<and> x < 2 ^ 127"

lemma wrap_signed_id:
  "- (2 ^ (w - 1)) \<le> x \<Longrightarrow> x < 2 ^ (w - 1) \<Longrightarrow> 0 < w \<Longrightarrow> wrap_signed w x = x"
  unfolding wrap_signed_def by (cases w) (simp_all add: mod_pos_pos_trivial)

lemma to_i32_id: "- 2147483648 \<le> x \<Longrightarrow> x < 2147483648 \<Longrightarrow> to_i32 x = x"
  by (rule wrap_signed_id) simp_all

lemma to_i128_id: "in_i128 x \<Longrightarrow> to_i128 x = x"
  unfolding in_i128_def by (rule wrap_signed_id) simp_all

lemma wrap_signed_range:
  assumes "0 < w"
  shows "- (2 ^ (w - 1)) \<le> wrap_signed w x \<and> wrap_signed w x < 2 ^ (w - 1)"
proof -
  have p: "(2::int) ^ w = 2 * 2 ^ (w - 1)"
    using assms by (cases w) simp_all
  have "0 \<le> (x + 2 ^ (w - 1)) mod 2 ^ w" "(x + 2 ^ (w - 1)) mod 2 ^ w < 2 ^ w"
    by simp_all
  with p show ?thesis unfolding wrap_signed_def by linarith
qed

lemma in_i32_to_i32 [simp]: "in_i32 (to_i32 x)"
  using wrap_signed_range [of 32 x] by (simp add: in_i32_def)

lemma in_i128_to_i128 [simp]: "in_i128 (to_i128 x)"
  using wrap_signed_range [of 128 x] by (simp add: in_i128_def)

text \<open>Division and remainder of Rust truncate towards zero.\<close>

definition trunc_div :: "int \<Rightarrow> int \<Rightarrow> int" where
  "trunc_div a b = sgn a * sgn b * (\<bar>a\<bar> div \<bar>b\<bar>)"

definition trunc_rem :: "int \<Rightarrow> int \<Rightarrow> int" where
  "trunc_rem a b = a - b * trunc_div a b"

lemma trunc_div_pos_nonneg: "0 \<le> a \<Longrightarrow> 0 < b \<Longrightarrow> trunc_div a b = a div b"
  by (cases "a = 0") (simp_all add: trunc_div_def)

lemma trunc_div_pos_neg: "a < 0 \<Longrightarrow> 0 < b \<Longrightarrow> trunc_div a b = - ((- a) div b)"
  by (simp add: trunc_div_def)

lemma trunc_rem_pos_nonneg: "0 \<le> a \<Longrightarrow> 0 < b \<Longrightarrow> trunc_rem a b = a mod b"
  by (simp add: trunc_rem_def trunc_div_pos_nonneg minus_div_mult_eq_mod [symmetric] mult.commute)

lemma trunc_rem_pos_neg:
  assumes "a < 0" and "0 < b" shows "trunc_rem a b = - ((- a) mod b)"
proof -
  have "- a = b * (- a div b) + - a mod b" by (simp add: mult_div_mod_eq)
  then have "- (- a mod b) = a + b * (- a div b)" by linarith
  then show ?thesis using assms by (simp add: trunc_rem_def trunc_div_pos_neg)
qed

lemma trunc_rem_eq_0_iff: "0 < b \<Longrightarrow> trunc_rem a b = 0 \<longleftrightarrow> b dvd a"
  by (cases "a < 0")
    (auto simp: trunc_rem_pos_neg trunc_rem_pos_nonneg dvd_eq_mod_eq_0 [symmetric])

text \<open>The checked operations of the unsigned and signed integers.\<close>

definition checked_add :: "'a::len word \<Rightarrow> 'a word \<Rightarrow> 'a word option" where
  "checked_add a b = (if unat a + unat b < 2 ^ LENGTH('a) then Some (a + b) else None)"

definition checked_sub :: "'a::len word \<Rightarrow> 'a word \<Rightarrow> 'a word option" where
  "checked_sub a b = (if b \<le> a then Some (a - b) else None)"

definition checked_mul :: "'a::len word \<Rightarrow> 'a word \<Rightarrow> 'a word option" where
  "checked_mul a b = (if unat a * unat b < 2 ^ LENGTH('a) then Some (a * b) else None)"

definition i128_checked :: "int \<Rightarrow> i128 option" where
  "i128_checked x = (if in_i128 x then Some x else None)"

text \<open>Division of unsigned integers: a zero divisor panics.\<close>

definition udiv :: "'a::len word \<Rightarrow> 'a word \<Rightarrow> 'a word result" where
  "udiv a b = (if b = 0 then Inl Panic else Inr (a div b))"

text \<open>\<open>try_into\<close> from a \<open>u128\<close> to a \<open>u64\<close>: the conversion error of \<open>errors.rs\<close>.\<close>

definition try_into_u64 :: "u128 \<Rightarrow> u64 result" where
  "try_into_u64 x = (if x \<le> ucast u64_MAX then Inr (ucast x) else Inl (Err NumberCastError))"

lemma checked_add_Some_iff:
  "checked_add a b = Some c \<longleftrightarrow> unat c = unat a + unat b" for a :: "'a::len word"
proof
  assume "checked_add a b = Some c"
  then show "unat c = unat a + unat b"
    by (auto simp: checked_add_def unat_word_ariths split: if_splits)
next
  assume c: "unat c = unat a + unat b"
  then have lt: "unat a + unat b < 2 ^ LENGTH('a)"
    using unsigned_less [of c, where 'a = nat] by simp
  then have "unat (a + b) = unat c" using c by (simp add: unat_word_ariths)
  then show "checked_add a b = Some c" using lt by (simp add: checked_add_def word_unat_eq_iff)
qed

lemma checked_sub_Some_iff:
  "checked_sub a b = Some c \<longleftrightarrow> unat a = unat b + unat c" for a :: "'a::len word"
proof
  assume "checked_sub a b = Some c"
  then show "unat a = unat b + unat c"
    by (auto simp: checked_sub_def unat_sub word_le_nat_alt split: if_splits)
next
  assume c: "unat a = unat b + unat c"
  then have le: "b \<le> a" by (simp add: word_le_nat_alt)
  then have "unat (a - b) = unat c" using c by (simp add: unat_sub)
  then show "checked_sub a b = Some c" using le by (simp add: checked_sub_def word_unat_eq_iff)
qed

lemma checked_mul_Some_iff:
  "checked_mul a b = Some c \<longleftrightarrow> unat c = unat a * unat b" for a :: "'a::len word"
proof
  assume "checked_mul a b = Some c"
  then show "unat c = unat a * unat b"
    by (auto simp: checked_mul_def unat_word_ariths split: if_splits)
next
  assume c: "unat c = unat a * unat b"
  then have lt: "unat a * unat b < 2 ^ LENGTH('a)"
    using unsigned_less [of c, where 'a = nat] by simp
  then have "unat (a * b) = unat c" using c by (simp add: unat_word_ariths)
  then show "checked_mul a b = Some c" using lt by (simp add: checked_mul_def word_unat_eq_iff)
qed

lemma checked_add_None_iff:
  "checked_add a b = None \<longleftrightarrow> 2 ^ LENGTH('a) \<le> unat a + unat b" for a :: "'a::len word"
  by (simp add: checked_add_def)

lemma checked_sub_None_iff: "checked_sub a b = None \<longleftrightarrow> unat a < unat b"
  by (simp add: checked_sub_def word_le_nat_alt not_le)

lemma checked_mul_None_iff:
  "checked_mul a b = None \<longleftrightarrow> 2 ^ LENGTH('a) \<le> unat a * unat b" for a :: "'a::len word"
  by (simp add: checked_mul_def)

lemmas checked_iffs = checked_add_Some_iff checked_sub_Some_iff checked_mul_Some_iff
  checked_add_None_iff checked_sub_None_iff checked_mul_None_iff

text \<open>Evaluation compares integers, not unary numbers.\<close>

lemma checked_add_code [code]:
  "checked_add a b = (if uint a + uint b < 2 ^ LENGTH('a) then Some (a + b) else None)"
  for a :: "'a::len word"
proof -
  have "unat a + unat b < 2 ^ LENGTH('a) \<longleftrightarrow> int (unat a + unat b) < int (2 ^ LENGTH('a))"
    by (simp only: of_nat_less_iff)
  then show ?thesis by (simp add: checked_add_def)
qed

lemma checked_mul_code [code]:
  "checked_mul a b = (if uint a * uint b < 2 ^ LENGTH('a) then Some (a * b) else None)"
  for a :: "'a::len word"
proof -
  have "unat a * unat b < 2 ^ LENGTH('a) \<longleftrightarrow> int (unat a * unat b) < int (2 ^ LENGTH('a))"
    by (simp only: of_nat_less_iff)
  then show ?thesis by (simp add: checked_mul_def)
qed

lemma udiv_Inr_iff: "udiv a b = Inr c \<longleftrightarrow> b \<noteq> 0 \<and> c = a div b"
  by (auto simp: udiv_def)

subsection \<open>Values of words\<close>

lemma unat_u64_less: "unat (x :: u64) < 18446744073709551616"
  using unsigned_less [of x, where 'a = nat] by simp

lemma unat_u128_less: "unat (x :: u128) < 340282366920938463463374607431768211456"
  using unsigned_less [of x, where 'a = nat] by simp

lemma unat_u16_less: "unat (x :: u16) < 65536"
  using unsigned_less [of x, where 'a = nat] by simp

lemma unat_ucast_64_128 [simp]: "unat (ucast (x :: u64) :: u128) = unat x"
proof -
  have "unat x < 340282366920938463463374607431768211456" using unat_u64_less [of x] by linarith
  then show ?thesis by (simp add: unsigned_ucast_eq take_bit_nat_eq_self_iff)
qed

lemma unat_ucast_16_128 [simp]: "unat (ucast (x :: u16) :: u128) = unat x"
proof -
  have "unat x < 340282366920938463463374607431768211456" using unat_u16_less [of x] by linarith
  then show ?thesis by (simp add: unsigned_ucast_eq take_bit_nat_eq_self_iff)
qed

lemma unat_ucast_128_64: "unat (ucast (x :: u128) :: u64) = unat x mod 2 ^ 64"
  by (simp add: unsigned_ucast_eq take_bit_eq_mod)

lemma unat_ucast_128_64_id:
  "unat (x :: u128) < 2 ^ 64 \<Longrightarrow> unat (ucast x :: u64) = unat x"
  by (simp add: unat_ucast_128_64)

lemma unat_drop_bit: "unat (drop_bit n (x :: 'a::len word)) = unat x div 2 ^ n"
proof -
  have "take_bit LENGTH('a) (unat x) = unat x"
    using unsigned_less [of x, where 'a = nat] by (simp only: take_bit_nat_eq_self_iff)
  then show ?thesis by (simp only: unsigned_drop_bit_eq) (rule drop_bit_eq_div)
qed

lemma unat_push_bit:
  "unat (push_bit n (x :: 'a::len word)) = unat x * 2 ^ n mod 2 ^ LENGTH('a)"
  by (simp only: unsigned_push_bit_eq) (simp only: push_bit_eq_mult take_bit_eq_mod)

lemma unat_and_mask: "unat ((x :: 'a::len word) AND mask n) = unat x mod 2 ^ n"
  by (simp only: take_bit_eq_mask [symmetric] unsigned_take_bit_eq) (rule take_bit_eq_mod)

lemma unat_0_iff [simp]: "unat x = 0 \<longleftrightarrow> x = 0" for x :: "'a::len word"
  by (simp add: word_unat_eq_iff)

lemma ucast_64_128_eq_0 [simp]: "(ucast (x :: u64) :: u128) = 0 \<longleftrightarrow> x = 0"
  by (metis unat_0_iff unat_ucast_64_128)

lemma word_less_iff_unat: "a < b \<longleftrightarrow> unat a < unat b"
  by (rule word_less_nat_alt)

lemma word_eq_iff_unat: "a = b \<longleftrightarrow> unat a = unat b"
  by (rule word_unat_eq_iff)

lemma unat_add_nowrap:
  "unat a + unat b < 2 ^ LENGTH('a) \<Longrightarrow> unat (a + b) = unat a + unat b" for a :: "'a::len word"
  by (simp add: unat_word_ariths)

lemma unat_mult_nowrap:
  "unat a * unat b < 2 ^ LENGTH('a) \<Longrightarrow> unat (a * b) = unat a * unat b" for a :: "'a::len word"
  by (simp add: unat_word_ariths)

lemma unat_sub_nowrap: "unat b \<le> unat a \<Longrightarrow> unat (a - b) = unat a - unat b"
  by (simp add: unat_sub word_le_nat_alt)

lemma unat_sub_wrap:
  fixes a :: "'a::len word"
  assumes "unat a < unat b"
  shows "unat (a - b) = unat a + 2 ^ LENGTH('a) - unat b"
  using assms by (simp add: unat_sub_if_size word_size)

lemma try_into_u64_Inr_iff:
  "try_into_u64 x = Inr y \<longleftrightarrow> unat y = unat x"
proof
  assume "try_into_u64 x = Inr y"
  then have "unat x \<le> 18446744073709551615" and "y = ucast x"
    by (auto simp: try_into_u64_def word_le_nat_alt split: if_splits)
  then show "unat y = unat x" by (simp add: unat_ucast_128_64)
next
  assume a: "unat y = unat x"
  then have "unat x < 18446744073709551616" using unat_u64_less [of y] by simp
  then show "try_into_u64 x = Inr y" using a
    by (simp add: try_into_u64_def word_le_nat_alt word_unat_eq_iff unat_ucast_128_64)
qed

lemma try_into_u64_Inl_iff:
  "try_into_u64 x = Inl e \<longleftrightarrow> e = Err NumberCastError \<and> 2 ^ 64 \<le> unat x"
  by (auto simp: try_into_u64_def word_le_nat_alt)

subsection \<open>Ceiling division\<close>

text \<open>The rounding rules of the program are stated with floor and ceiling division on numbers.\<close>

definition ceil_div :: "nat \<Rightarrow> nat \<Rightarrow> nat" where
  "ceil_div n d = n div d + (if n mod d > 0 then 1 else 0)"

definition round_div :: "bool \<Rightarrow> nat \<Rightarrow> nat \<Rightarrow> nat" where
  "round_div up n d = (if up then ceil_div n d else n div d)"

lemma ceil_div_le_iff: "0 < d \<Longrightarrow> ceil_div n d \<le> k \<longleftrightarrow> n \<le> k * d"
proof -
  assume d: "0 < d"
  have eq: "n = n div d * d + n mod d" by simp
  show ?thesis
  proof (cases "n mod d = 0")
    case True
    then have "n = n div d * d" using eq by simp
    then show ?thesis using True d by (metis ceil_div_def add.right_neutral less_irrefl
          mult_le_cancel2 less_nat_zero_code neq0_conv)
  next
    case False
    then have "ceil_div n d \<le> k \<longleftrightarrow> n div d < k" by (auto simp: ceil_div_def)
    also have "\<dots> \<longleftrightarrow> n < k * d" using d by (simp add: div_less_iff_less_mult)
    also have "\<dots> \<longleftrightarrow> n \<le> k * d" using False by (metis le_neq_implies_less less_imp_le mod_mult_self2_is_0)
    finally show ?thesis .
  qed
qed

lemma le_ceil_div: "0 < d \<Longrightarrow> n \<le> ceil_div n d * d"
  using ceil_div_le_iff [of d n "ceil_div n d"] by simp

lemma div_le_ceil_div: "n div d \<le> ceil_div n d"
  by (simp add: ceil_div_def)

lemma ceil_div_le_Suc_div: "ceil_div n d \<le> n div d + 1"
  by (simp add: ceil_div_def)

lemma le_div_iff: "0 < d \<Longrightarrow> k \<le> n div d \<longleftrightarrow> k * d \<le> n" for k :: nat
  by (simp add: less_eq_div_iff_mult_less_eq)

lemma ceil_div_mono: "0 < d \<Longrightarrow> m \<le> n \<Longrightarrow> ceil_div m d \<le> ceil_div n d"
  by (simp add: ceil_div_le_iff order_trans [OF _ le_ceil_div])

lemma round_div_mono: "0 < d \<Longrightarrow> m \<le> n \<Longrightarrow> round_div up m d \<le> round_div up n d"
  by (simp add: round_div_def ceil_div_mono div_le_mono)

lemma round_div_0 [simp]: "round_div up 0 d = 0"
  by (simp add: round_div_def ceil_div_def)

subsection \<open>Arrays of three entries\<close>

text \<open>
  The arrays \<open>[T; NUM_REWARDS]\<close> of the program have three entries.  A loop over
  \<open>0..NUM_REWARDS\<close> whose rounds are independent is a map over the entries.
\<close>

datatype 'a arr3 = Arr3 'a 'a 'a

definition NUM_REWARDS :: usize where "NUM_REWARDS = 3"

fun arr3_get :: "'a arr3 \<Rightarrow> usize \<Rightarrow> 'a result" where
  "arr3_get (Arr3 a b c) i =
     (if i = 0 then Inr a else if i = 1 then Inr b else if i = 2 then Inr c else Inl Panic)"

fun arr3_set :: "'a arr3 \<Rightarrow> usize \<Rightarrow> 'a \<Rightarrow> 'a arr3 result" where
  "arr3_set (Arr3 a b c) i x =
     (if i = 0 then Inr (Arr3 x b c) else if i = 1 then Inr (Arr3 a x c)
      else if i = 2 then Inr (Arr3 a b x) else Inl Panic)"

fun arr3_map :: "('a \<Rightarrow> 'b) \<Rightarrow> 'a arr3 \<Rightarrow> 'b arr3" where
  "arr3_map f (Arr3 a b c) = Arr3 (f a) (f b) (f c)"

fun arr3_map2 :: "('a \<Rightarrow> 'b \<Rightarrow> 'c) \<Rightarrow> 'a arr3 \<Rightarrow> 'b arr3 \<Rightarrow> 'c arr3" where
  "arr3_map2 f (Arr3 a b c) (Arr3 x y z) = Arr3 (f a x) (f b y) (f c z)"

text \<open>The same with rounds that can fail: the first failure ends the loop.\<close>

fun arr3_try_map :: "('a \<Rightarrow> 'b result) \<Rightarrow> 'a arr3 \<Rightarrow> 'b arr3 result" where
  "arr3_try_map f (Arr3 a b c) =
     and_then (f a) (\<lambda>x. and_then (f b) (\<lambda>y. and_then (f c) (\<lambda>z. Inr (Arr3 x y z))))"

fun arr3_list :: "'a arr3 \<Rightarrow> 'a list" where
  "arr3_list (Arr3 a b c) = [a, b, c]"

abbreviation arr3_of :: "'a \<Rightarrow> 'a arr3" where "arr3_of x \<equiv> Arr3 x x x"

lemma arr3_get_Panic_iff: "arr3_get xs i = Inl e \<longleftrightarrow> e = Panic \<and> NUM_REWARDS \<le> i"
  by (cases xs) (auto simp: NUM_REWARDS_def)

lemma arr3_set_Panic_iff: "arr3_set xs i x = Inl e \<longleftrightarrow> e = Panic \<and> NUM_REWARDS \<le> i"
  by (cases xs) (auto simp: NUM_REWARDS_def)

lemma arr3_try_map_nth:
  "arr3_try_map f xs = Inr ys \<Longrightarrow> arr3_get xs i = Inr x \<Longrightarrow> \<exists>y. f x = Inr y \<and> arr3_get ys i = Inr y"
  by (cases xs) (auto simp: and_then_Inr_iff split: if_splits)

lemma arr3_try_map_total:
  "(\<And>x. \<exists>y. f x = Inr y) \<Longrightarrow> \<exists>ys. arr3_try_map f xs = Inr ys"
  by (cases xs) (metis and_then_simps(2) arr3_try_map.simps)

lemma arr3_get_map: "arr3_get (arr3_map f xs) i = and_then (arr3_get xs i) (\<lambda>x. Inr (f x))"
  by (cases xs) auto

lemma arr3_get_set:
  "arr3_set xs i x = Inr ys \<Longrightarrow> arr3_get ys j = (if j = i then Inr x else arr3_get xs j)"
  by (cases xs) (auto split: if_splits)

lemma arr3_eqI:
  "arr3_get xs 0 = arr3_get ys 0 \<Longrightarrow> arr3_get xs 1 = arr3_get ys 1 \<Longrightarrow>
   arr3_get xs 2 = arr3_get ys 2 \<Longrightarrow> xs = ys"
  by (cases xs; cases ys) simp

section \<open>Decimal numerals\<close>

function decimal :: "int \<Rightarrow> string" where
  "decimal n = (if n < 10 then [char_of (48 + nat n)]
                else decimal (n div 10) @ [char_of (48 + nat (n mod 10))])"
  by auto
termination by (relation "measure nat") auto

declare decimal.simps [simp del]

definition decimal_value :: "string \<Rightarrow> nat" where
  "decimal_value s = foldl (\<lambda>n c. 10 * n + (of_char c - 48)) 0 s"

lemma decimal_value_decimal: "0 \<le> n \<Longrightarrow> decimal_value (decimal n) = nat n"
proof (induction n rule: decimal.induct)
  case (1 n)
  have c: "of_char (char_of (48 + k) :: char) = 48 + k" if "k < 10" for k :: nat
    using that by (simp add: of_char_of)
  show ?case
  proof (cases "n < 10")
    case True
    then show ?thesis using 1(2) c [of "nat n"] by (simp add: decimal.simps [of n] decimal_value_def)
  next
    case False
    have m: "nat (n mod 10) < 10" by simp
    have "10 * nat (n div 10) + nat (n mod 10) = nat n" using 1(2) by (simp add: nat_div_distrib nat_mod_distrib)
    then show ?thesis using 1 False c [OF m]
      by (simp add: decimal.simps [of n] decimal_value_def)
  qed
qed

lemma decimal_inj: "0 \<le> m \<Longrightarrow> 0 \<le> n \<Longrightarrow> decimal m = decimal n \<longleftrightarrow> m = n"
  using decimal_value_decimal [of m] decimal_value_decimal [of n] by (auto dest: arg_cong [of _ _ decimal_value])

lemma decimal_digits: "0 \<le> n \<Longrightarrow> \<forall>c \<in> set (decimal n). (48 :: nat) \<le> of_char c"
proof (induction n rule: decimal.induct)
  case (1 n)
  have c: "(48 :: nat) \<le> of_char (char_of (48 + k) :: char)" if "k < 10" for k :: nat
    using that by (simp add: of_char_of)
  show ?case
    using 1 c [of "nat n"] c [of "nat (n mod 10)"] by (auto simp: decimal.simps [of n])
qed

end
