(* ===== verification/U256_Math.thy ===== *)
theory U256_Math
  imports Prelude
begin

text \<open>
  The 256-bit unsigned integer \<open>U256Muldiv\<close> of \<open>math/u256_math.rs\<close>: four 64-bit words, least
  significant first, with its shifts, comparisons, sum, difference and product, and the
  128-by-128-bit product \<open>mul_u256\<close>.  Each operation is shown to compute the operation on
  numbers that its value \<open>uval\<close> stands for.  Division is in the theory \<open>U256_Div\<close>.

  The array \<open>items: [u64; 4]\<close> is a constructor with four words; reading or writing a word at an
  index that is not below four is a panic, as for the array.
\<close>

definition NUM_WORDS :: usize where "NUM_WORDS = 4"

abbreviation (input) U64_RESOLUTION :: nat where "U64_RESOLUTION \<equiv> 64"

datatype U256Muldiv = U256Muldiv (w0: u64) (w1: u64) (w2: u64) (w3: u64)

subsection \<open>Halves of a 128-bit word\<close>

definition lo :: "u128 \<Rightarrow> u64" where
  "lo x = ucast (x AND 0xFFFFFFFFFFFFFFFF)"

definition lo_u128 :: "u128 \<Rightarrow> u128" where
  "lo_u128 x = x AND 0xFFFFFFFFFFFFFFFF"

definition hi :: "u128 \<Rightarrow> u64" where
  "hi x = ucast (drop_bit U64_RESOLUTION x)"

definition hi_u128 :: "u128 \<Rightarrow> u128" where
  "hi_u128 x = drop_bit U64_RESOLUTION x"

definition hi_lo :: "u64 \<Rightarrow> u64 \<Rightarrow> u128" where
  "hi_lo h l = push_bit U64_RESOLUTION (ucast h) OR ucast l"

text \<open>\<open>leading_zeros\<close> counts the zero bits from the top; \<open>clz_from i\<close> counts from below bit \<open>i\<close>.\<close>

fun clz_from :: "nat \<Rightarrow> 'a::len word \<Rightarrow> nat" where
  "clz_from 0 x = 0"
| "clz_from (Suc i) x = (if bit x i then 0 else Suc (clz_from i x))"

definition leading_zeros :: "'a::len word \<Rightarrow> nat" where
  "leading_zeros x = clz_from LENGTH('a) x"

subsection \<open>Construction and access\<close>

definition new :: "u128 \<Rightarrow> u128 \<Rightarrow> U256Muldiv" where
  "new h l = U256Muldiv (lo l) (hi l) (lo h) (hi h)"

definition items :: "U256Muldiv \<Rightarrow> u64 list" where
  "items x = [w0 x, w1 x, w2 x, w3 x]"

fun update_word :: "U256Muldiv \<Rightarrow> usize \<Rightarrow> u64 \<Rightarrow> U256Muldiv result" where
  "update_word (U256Muldiv a b c d) index value =
     (if index = 0 then Inr (U256Muldiv value b c d)
      else if index = 1 then Inr (U256Muldiv a value c d)
      else if index = 2 then Inr (U256Muldiv a b value d)
      else if index = 3 then Inr (U256Muldiv a b c value)
      else Inl Panic)"

fun get_word :: "U256Muldiv \<Rightarrow> usize \<Rightarrow> u64 result" where
  "get_word (U256Muldiv a b c d) index =
     (if index = 0 then Inr a else if index = 1 then Inr b else if index = 2 then Inr c
      else if index = 3 then Inr d else Inl Panic)"

definition get_word_u128 :: "U256Muldiv \<Rightarrow> usize \<Rightarrow> u128 result" where
  "get_word_u128 x index = and_then (get_word x index) (\<lambda>w. Inr (ucast w))"

fun num_words :: "U256Muldiv \<Rightarrow> usize" where
  "num_words (U256Muldiv a b c d) =
     (if d \<noteq> 0 then 4 else if c \<noteq> 0 then 3 else if b \<noteq> 0 then 2 else if a \<noteq> 0 then 1 else 0)"

subsection \<open>Shifts\<close>

fun shift_word_left :: "U256Muldiv \<Rightarrow> U256Muldiv" where
  "shift_word_left (U256Muldiv a b c d) = U256Muldiv 0 a b c"

definition checked_shift_word_left :: "U256Muldiv \<Rightarrow> U256Muldiv option" where
  "checked_shift_word_left x = (if w3 x > 0 then None else Some (shift_word_left x))"

fun shift_word_right :: "U256Muldiv \<Rightarrow> U256Muldiv" where
  "shift_word_right (U256Muldiv a b c d) = U256Muldiv b c d 0"

text \<open>
  The first loop of \<open>shift_left\<close> and \<open>shift_right\<close> moves whole words while the shift amount
  is at least one word; the result is the value and the remaining amount.
\<close>

fun shift_words :: "(U256Muldiv \<Rightarrow> U256Muldiv) \<Rightarrow> U256Muldiv \<Rightarrow> nat \<Rightarrow> U256Muldiv \<times> nat" where
  "shift_words f x s =
     (if s \<ge> U64_RESOLUTION then shift_words f (f x) (s - U64_RESOLUTION) else (x, s))"

declare shift_words.simps [simp del]

text \<open>
  The second loop of \<open>shift_left\<close> runs from the top word down, that of \<open>shift_right\<close> from the
  bottom word up, so each word is combined with its neighbour's value from before the loop.
\<close>

fun shift_bits_left :: "U256Muldiv \<Rightarrow> nat \<Rightarrow> U256Muldiv" where
  "shift_bits_left (U256Muldiv a b c d) s =
     U256Muldiv (push_bit s a)
       (push_bit s b OR drop_bit (U64_RESOLUTION - s) a)
       (push_bit s c OR drop_bit (U64_RESOLUTION - s) b)
       (push_bit s d OR drop_bit (U64_RESOLUTION - s) c)"

fun shift_bits_right :: "U256Muldiv \<Rightarrow> nat \<Rightarrow> U256Muldiv" where
  "shift_bits_right (U256Muldiv a b c d) s =
     U256Muldiv (drop_bit s a OR push_bit (U64_RESOLUTION - s) b)
       (drop_bit s b OR push_bit (U64_RESOLUTION - s) c)
       (drop_bit s c OR push_bit (U64_RESOLUTION - s) d)
       (drop_bit s d)"

definition shift_left :: "U256Muldiv \<Rightarrow> nat \<Rightarrow> U256Muldiv" where
  "shift_left x shift_amount =
     (if shift_amount \<ge> U64_RESOLUTION * NUM_WORDS then new 0 0
      else (let (r, s) = shift_words shift_word_left x shift_amount
            in if s = 0 then r else shift_bits_left r s))"

definition shift_right :: "U256Muldiv \<Rightarrow> nat \<Rightarrow> U256Muldiv" where
  "shift_right x shift_amount =
     (if shift_amount \<ge> U64_RESOLUTION * NUM_WORDS then new 0 0
      else (let (r, s) = shift_words shift_word_right x shift_amount
            in if s = 0 then r else shift_bits_right r s))"

subsection \<open>Comparisons\<close>

text \<open>
  The four order comparisons scan the words from the top and differ only in what they return
  at the first smaller word, at the first greater word and at the end.
\<close>

fun compare_words :: "bool \<Rightarrow> bool \<Rightarrow> bool \<Rightarrow> (u64 \<times> u64) list \<Rightarrow> bool" where
  "compare_words on_less on_greater on_equal [] = on_equal"
| "compare_words on_less on_greater on_equal ((x, y) # ps) =
     (if x < y then on_less else if x > y then on_greater else compare_words on_less on_greater on_equal ps)"

definition word_pairs :: "U256Muldiv \<Rightarrow> U256Muldiv \<Rightarrow> (u64 \<times> u64) list" where
  "word_pairs x y = zip (items x) (items y)"

definition u256_eq :: "U256Muldiv \<Rightarrow> U256Muldiv \<Rightarrow> bool" where
  "u256_eq x y = list_all (\<lambda>(a, b). a = b) (word_pairs x y)"

definition u256_lt :: "U256Muldiv \<Rightarrow> U256Muldiv \<Rightarrow> bool" where
  "u256_lt x y = compare_words True False False (rev (word_pairs x y))"

definition u256_gt :: "U256Muldiv \<Rightarrow> U256Muldiv \<Rightarrow> bool" where
  "u256_gt x y = compare_words False True False (rev (word_pairs x y))"

definition u256_lte :: "U256Muldiv \<Rightarrow> U256Muldiv \<Rightarrow> bool" where
  "u256_lte x y = compare_words True False True (rev (word_pairs x y))"

definition u256_gte :: "U256Muldiv \<Rightarrow> U256Muldiv \<Rightarrow> bool" where
  "u256_gte x y = compare_words False True True (rev (word_pairs x y))"

definition try_into_u128 :: "U256Muldiv \<Rightarrow> u128 result" where
  "try_into_u128 x =
     (if num_words x > 2 then Inl (Err NumberDownCastError)
      else Inr (push_bit U64_RESOLUTION (ucast (w1 x)) OR ucast (w0 x)))"

definition is_zero :: "U256Muldiv \<Rightarrow> bool" where
  "is_zero x = list_all (\<lambda>w. w = 0) (items x)"

subsection \<open>Sum, difference and product\<close>

fun of_items :: "u64 list \<Rightarrow> U256Muldiv" where
  "of_items [a, b, c, d] = U256Muldiv a b c d"
| "of_items _ = U256Muldiv 0 0 0 0"

fun add_words :: "u128 \<Rightarrow> (u64 \<times> u64) list \<Rightarrow> u64 list" where
  "add_words carry [] = []"
| "add_words carry ((x, y) # ps) =
     (let t = ucast x + ucast y + carry in lo t # add_words (hi_u128 t) ps)"

definition u256_add :: "U256Muldiv \<Rightarrow> U256Muldiv \<Rightarrow> U256Muldiv" where
  "u256_add x y = of_items (add_words 0 (word_pairs x y))"

text \<open>\<open>overflowing_sub\<close> returns the wrapped difference and whether it wrapped.\<close>

definition overflowing_sub :: "u64 \<Rightarrow> u64 \<Rightarrow> u64 \<times> bool" where
  "overflowing_sub x y = (x - y, x < y)"

fun sub_words :: "u64 \<Rightarrow> (u64 \<times> u64) list \<Rightarrow> u64 list" where
  "sub_words carry [] = []"
| "sub_words carry ((x, y) # ps) =
     (let (t0, overflowing0) = overflowing_sub x y;
          (t1, overflowing1) = overflowing_sub t0 carry
      in t1 # sub_words (if overflowing0 \<or> overflowing1 then 1 else 0) ps)"

definition u256_sub :: "U256Muldiv \<Rightarrow> U256Muldiv \<Rightarrow> U256Muldiv" where
  "u256_sub x y = of_items (sub_words 0 (word_pairs x y))"

definition get_add_inverse :: "U256Muldiv \<Rightarrow> U256Muldiv" where
  "get_add_inverse x =
     (if u256_eq x (new 0 0) then new 0 0
      else u256_add (u256_sub (new u128_MAX u128_MAX) x) (new 0 1))"

definition mul_u256 :: "u128 \<Rightarrow> u128 \<Rightarrow> U256Muldiv" where
  "mul_u256 v n =
     (let c0 = lo_u128 v * lo_u128 n;
          a1 = lo_u128 v * hi_u128 n;
          b0 = hi_u128 v * lo_u128 n;
          c1 = hi_u128 c0 + lo_u128 a1 + lo_u128 b0;
          c0 = hi_lo (lo c1) (lo c0);
          c1 = hi_u128 v * hi_u128 n + hi_u128 c1 + hi_u128 a1 + hi_u128 b0
      in new c1 c0)"

text \<open>
  The schoolbook product of \<open>U256Muldiv::mul\<close>: for each word \<open>j\<close> of the second factor, the
  inner loop runs over the words of the first and keeps the carry \<open>k\<close>; products that fall
  beyond the fourth word are dropped.
\<close>

fun mul_inner :: "U256Muldiv \<Rightarrow> U256Muldiv \<Rightarrow> usize \<Rightarrow> usize list \<Rightarrow> U256Muldiv \<Rightarrow> u128
    \<Rightarrow> (U256Muldiv \<times> u128) result" where
  "mul_inner x y j [] res k = Inr (res, k)"
| "mul_inner x y j (i # is) res k =
     and_then (get_word_u128 x i) (\<lambda>a.
     and_then (get_word_u128 y j) (\<lambda>b.
       if i + j < NUM_WORDS then
         and_then (get_word_u128 res (i + j)) (\<lambda>z.
           let t = a * b + z + k in
           and_then (update_word res (i + j) (lo t)) (\<lambda>res'.
             mul_inner x y j is res' (hi_u128 t)))
       else mul_inner x y j is res k))"

fun mul_outer :: "U256Muldiv \<Rightarrow> U256Muldiv \<Rightarrow> usize \<Rightarrow> usize list \<Rightarrow> U256Muldiv
    \<Rightarrow> U256Muldiv result" where
  "mul_outer x y m [] res = Inr res"
| "mul_outer x y m (j # js) res =
     and_then (mul_inner x y j [0..<m] res 0) (\<lambda>(res', k).
     and_then (if j + m < NUM_WORDS then update_word res' (j + m) (ucast k) else Inr res')
       (\<lambda>res''. mul_outer x y m js res''))"

definition u256_mul :: "U256Muldiv \<Rightarrow> U256Muldiv \<Rightarrow> U256Muldiv result" where
  "u256_mul x y = mul_outer x y (num_words x) [0..<num_words y] (new 0 0)"

subsection \<open>Words and their halves as numbers\<close>

lemma word_or_disjoint: 
  fixes x y :: "'a::len word"
  assumes "\<And>n. bit x n \<Longrightarrow> bit y n \<Longrightarrow> False"
  shows "x OR y = x + y"
  by (rule disjunctive_add [symmetric]) (use assms in blast)

lemma mask64: "(0xFFFFFFFFFFFFFFFF :: u128) = mask 64" by (simp add: mask_eq_exp_minus_1)

lemma unat_lo_u128: "unat (lo_u128 x) = unat x mod 18446744073709551616"
  unfolding lo_u128_def mask64 by (simp only: unat_and_mask) simp

lemma unat_lo: "unat (lo x) = unat x mod 18446744073709551616"
  using unat_lo_u128 [of x] by (simp add: lo_def lo_u128_def unat_ucast_128_64)

lemma unat_hi_u128: "unat (hi_u128 x) = unat x div 18446744073709551616"
  unfolding hi_u128_def by (simp only: unat_drop_bit) simp

lemma unat_hi: "unat (hi x) = unat x div 18446744073709551616"
  using unat_hi_u128 [of x] unat_u128_less [of x]
  by (simp add: hi_def hi_u128_def unat_ucast_128_64 mod_less div_less_iff_less_mult)

lemma unat_push_or_low:
  fixes h l :: u64 
  shows "unat (push_bit 64 (ucast h) OR ucast l :: u128) = unat h * 18446744073709551616 + unat l"
proof -
  have b: "bit l n \<Longrightarrow> n < 64" for n by (auto dest: bit_imp_le_length)
  have "push_bit 64 (ucast h) OR ucast l = push_bit 64 (ucast h) + (ucast l :: u128)"
    by (rule word_or_disjoint) (auto simp: bit_simps dest: b)
  moreover have "unat (push_bit 64 (ucast h) :: u128) = unat h * 18446744073709551616"
    using unat_u64_less [of h] by (simp only: unat_push_bit unat_ucast_64_128) simp
  ultimately show ?thesis using unat_u64_less [of h] unat_u64_less [of l]
    by (simp add: unat_add_nowrap)
qed

lemma unat_hi_lo: "unat (hi_lo h l) = unat h * 18446744073709551616 + unat l"
  unfolding hi_lo_def by (rule unat_push_or_low)

lemma lo_hi_lo [simp]: "lo (hi_lo h l) = l"
  using unat_u64_less [of l] by (simp add: word_eq_iff_unat unat_lo unat_hi_lo)
lemma hi_hi_lo [simp]: "hi (hi_lo h l) = h"
  using unat_u64_less [of l] by (simp add: word_eq_iff_unat unat_hi unat_hi_lo)
lemma hi_lo_hi_lo [simp]: "hi_lo (hi x) (lo x) = x"
  by (simp add: word_eq_iff_unat unat_hi unat_lo unat_hi_lo)

lemma bit_top_iff:
  fixes x :: "'a::len word"
  assumes "unat x < 2 ^ Suc i"
  shows "bit x i \<longleftrightarrow> 2 ^ i \<le> unat x"
proof -
  have "bit x i \<longleftrightarrow> odd (unat x div 2 ^ i)"
    by (simp add: bit_unsigned_iff flip: bit_iff_odd)
  moreover have "unat x div 2 ^ i < 2" using assms by (simp add: div_less_iff_less_mult)
  moreover have "unat x div 2 ^ i = 0 \<longleftrightarrow> unat x < 2 ^ i" by (simp add: div_eq_0_iff)
  ultimately show ?thesis by (metis One_nat_def even_zero less_2_cases not_less odd_one)
qed

lemma clz_from_bounds:
  fixes x :: "'a::len word"
  assumes "unat x < 2 ^ i" "x \<noteq> 0"
  shows "clz_from i x < i \<and> 2 ^ (i - 1 - clz_from i x) \<le> unat x \<and> unat x < 2 ^ (i - clz_from i x)"
  using assms
proof (induction i)
  case 0
  then show ?case by (simp add: unat_gt_0)
next
  case (Suc i)
  show ?case
  proof (cases "bit x i")
    case True
    then show ?thesis using Suc.prems bit_top_iff [of x i] by simp
  next
    case False
    then have "unat x < 2 ^ i" using Suc.prems bit_top_iff [of x i] by simp
    then show ?thesis using Suc False by simp
  qed
qed

lemma leading_zeros_bounds:
  fixes x :: "'a::len word"
  assumes "x \<noteq> 0"
  shows "leading_zeros x < LENGTH('a)"
    and "2 ^ (LENGTH('a) - 1 - leading_zeros x) \<le> unat x"
    and "unat x < 2 ^ (LENGTH('a) - leading_zeros x)"
  using clz_from_bounds [of x "LENGTH('a)"] unsigned_less [of x, where 'a = nat] assms
  by (simp_all add: leading_zeros_def)

subsection \<open>The value of a 256-bit integer\<close>

primrec words_val :: "u64 list \<Rightarrow> nat" where
  "words_val [] = 0"
| "words_val (w # ws) = unat w + 18446744073709551616 * words_val ws"

definition uval :: "U256Muldiv \<Rightarrow> nat" where
  "uval x = words_val (items x)"

lemma uval_simp: "uval (U256Muldiv a b c d) = unat a + 2^64 * unat b + 2^128 * unat c + 2^192 * unat d"
  by (simp add: uval_def items_def)

lemma words_val_less: "words_val ws < 2 ^ (64 * length ws)"
proof (induction ws)
  case (Cons w ws)
  have "unat w < 18446744073709551616" by (rule unat_u64_less)
  moreover have "Suc (words_val ws) \<le> 2 ^ (64 * length ws)" using Cons.IH by simp
  ultimately have "unat w + 18446744073709551616 * words_val ws < 18446744073709551616 * 2 ^ (64 * length ws)"
    by linarith
  then show ?case by (simp add: power_add)
qed simp

lemma uval_less: "uval x < 2 ^ 256"
  using words_val_less [of "items x"] by (simp add: uval_def items_def)

lemma words_val_inj: "length xs = length ys \<Longrightarrow> words_val xs = words_val ys \<Longrightarrow> xs = ys"
proof (induction xs ys rule: list_induct2)
  case (Cons x xs y ys)
  have "words_val (x # xs) mod 18446744073709551616 = unat x"
    "words_val (y # ys) mod 18446744073709551616 = unat y"
    "words_val (x # xs) div 18446744073709551616 = words_val xs"
    "words_val (y # ys) div 18446744073709551616 = words_val ys"
    using unat_u64_less [of x] unat_u64_less [of y] by simp_all
  then have "unat x = unat y" "words_val xs = words_val ys"
    using Cons.prems by metis+
  then show ?case using Cons.IH by (simp add: word_eq_iff_unat)
qed simp

lemma uval_inj: "uval x = uval y \<longleftrightarrow> x = y"
  using words_val_inj [of "items x" "items y"] by (cases x; cases y) (auto simp: uval_def items_def)

lemma uval_new: "uval (new h l) = unat h * 2 ^ 128 + unat l"
proof -
  define a b c d where d: "a = unat h mod 18446744073709551616" "b = unat h div 18446744073709551616"
    "c = unat l mod 18446744073709551616" "d = unat l div 18446744073709551616"
  have "unat h = a + 18446744073709551616 * b" "unat l = c + 18446744073709551616 * d"
    by (simp_all add: d)
  then show ?thesis unfolding new_def uval_simp unat_lo unat_hi d [symmetric] by simp
qed

lemma uval_0 [simp]: "uval (new 0 0) = 0" by (simp add: uval_new)

lemma uval_eq_0_iff: "uval x = 0 \<longleftrightarrow> x = new 0 0"
  using uval_inj [of x "new 0 0"] by simp

lemma num_words_le: "num_words x \<le> 4" by (cases x) simp

lemma num_words_less: "uval x < 2 ^ (64 * num_words x)"
proof (cases x)
  case (U256Muldiv a b c d)
  show ?thesis
    using unat_u64_less [of a] unat_u64_less [of b] unat_u64_less [of c] unat_u64_less [of d]
    by (simp add: uval_simp U256Muldiv)
qed

lemma num_words_ge:
  assumes "0 < num_words x" shows "2 ^ (64 * (num_words x - 1)) \<le> uval x"
proof (cases x)
  case (U256Muldiv a b c d)
  have "w \<noteq> 0 \<Longrightarrow> 1 \<le> unat w" for w :: u64 by (simp add: Suc_le_eq unat_gt_0)
  note this [of a] this [of b] this [of c] this [of d] 
  then show ?thesis using assms unfolding U256Muldiv by (auto simp: uval_simp split: if_splits)
qed

lemma num_words_0_iff: "num_words x = 0 \<longleftrightarrow> uval x = 0"
  by (cases x) (auto simp: uval_simp)

subsection \<open>Shifts multiply and divide by powers of two\<close>

lemma shift_word_left_val: "uval (shift_word_left x) = uval x * 2 ^ 64 mod 2 ^ 256"
proof (cases x)
  case (U256Muldiv a b c d)
  have "uval x * 2 ^ 64 = uval (shift_word_left x) + unat d * 2 ^ 256"
    by (simp add: uval_simp U256Muldiv)
  then show ?thesis using uval_less [of "shift_word_left x"] by simp
qed

lemma checked_shift_word_left_Some_iff:
  "checked_shift_word_left x = Some y \<longleftrightarrow> uval y = uval x * 2 ^ 64"
proof (cases x)
  case (U256Muldiv a b c d)
  have e: "uval x * 2 ^ 64 = uval (shift_word_left x) + unat d * 2 ^ 256"
    by (simp add: uval_simp U256Muldiv)
  show ?thesis
  proof (cases "d = 0")
    case True
    then show ?thesis using e uval_inj [of y "shift_word_left x"] U256Muldiv
      by (auto simp: checked_shift_word_left_def)
  next
    case False
    then have "1 \<le> unat d" by (simp add: Suc_le_eq unat_gt_0)
    then have "2 ^ 256 \<le> uval x * 2 ^ 64" unfolding e by simp
    then have "uval y \<noteq> uval x * 2 ^ 64" using uval_less [of y] by linarith
    then show ?thesis using False U256Muldiv
      by (auto simp: checked_shift_word_left_def word_neq_0_conv)
  qed
qed

lemma shift_word_right_val: "uval (shift_word_right x) = uval x div 2 ^ 64"
proof (cases x)
  case (U256Muldiv a b c d)
  have "uval x = uval (shift_word_right x) * 2 ^ 64 + unat a"
    by (simp add: uval_simp U256Muldiv)
  then show ?thesis using unat_u64_less [of a] by simp
qed

lemma shift_words_left_val:
  "shift_words shift_word_left x s = (y, t) \<Longrightarrow>
   t < 64 \<and> uval y * 2 ^ t mod 2 ^ 256 = uval x * 2 ^ s mod 2 ^ 256"
proof (induction "shift_word_left" x s arbitrary: y t rule: shift_words.induct)
  case (1 x s)
  show ?case
  proof (cases "64 \<le> s")
    case True
    then have r: "shift_words shift_word_left (shift_word_left x) (s - 64) = (y, t)"
      using "1.prems" by (simp add: shift_words.simps [of _ x s])
    have p: "(2::nat) ^ s = 2 ^ 64 * 2 ^ (s - 64)" using True by (simp only: power_add [symmetric] le_add_diff_inverse)
    have "uval (shift_word_left x) * 2 ^ (s - 64) mod 2 ^ 256 = uval x * 2 ^ s mod 2 ^ 256"
      unfolding shift_word_left_val p by (metis mod_mult_left_eq mult.assoc)
    then show ?thesis using "1.hyps" [OF True r] by simp
  next
    case False
    then show ?thesis using "1.prems" by (simp add: shift_words.simps [of _ x s])
  qed
qed

lemma shift_words_right_val:
  "shift_words shift_word_right x s = (y, t) \<Longrightarrow>
   t < 64 \<and> uval y div 2 ^ t = uval x div 2 ^ s"
proof (induction "shift_word_right" x s arbitrary: y t rule: shift_words.induct)
  case (1 x s)
  show ?case
  proof (cases "64 \<le> s")
    case True
    then have r: "shift_words shift_word_right (shift_word_right x) (s - 64) = (y, t)"
      using "1.prems" by (simp add: shift_words.simps [of _ x s])
    have p: "(2::nat) ^ s = 2 ^ 64 * 2 ^ (s - 64)" using True by (simp only: power_add [symmetric] le_add_diff_inverse)
    show ?thesis using "1.hyps" [OF True r]
      unfolding shift_word_right_val p by (simp only: div_mult2_eq)
  next
    case False
    then show ?thesis using "1.prems" by (simp add: shift_words.simps [of _ x s])
  qed
qed

lemma unat_shl_or:
  fixes a b :: u64
  assumes "0 < s" "s < 64"
  shows "unat (push_bit s b OR drop_bit (64 - s) a)
       = unat b * 2 ^ s mod 18446744073709551616 + unat a div 2 ^ (64 - s)"
proof -
  have n: "bit a k \<Longrightarrow> k < 64" for k by (auto dest: bit_imp_le_length)
  have "push_bit s b OR drop_bit (64 - s) a = push_bit s b + drop_bit (64 - s) a"
    by (rule word_or_disjoint) (use assms in \<open>auto simp: bit_simps dest!: n\<close>)
  moreover have "unat b * 2 ^ s mod 18446744073709551616 + unat a div 2 ^ (64 - s) < 18446744073709551616"
  proof -
    have p: "(18446744073709551616::nat) = 2 ^ (64 - s) * 2 ^ s" using assms by (simp add: power_add [symmetric])
    have "unat b * 2 ^ s mod 18446744073709551616 = (unat b mod 2 ^ (64 - s)) * 2 ^ s"
      unfolding p by (rule mod_mult_mult2)
    moreover have "unat a div 2 ^ (64 - s) < 2 ^ s"
      using unat_u64_less [of a] p by (simp add: div_less_iff_less_mult mult.commute)
    moreover have "Suc (unat b mod 2 ^ (64 - s)) * 2 ^ s \<le> 18446744073709551616"
      unfolding p by (intro mult_le_mono1) (simp add: Suc_le_eq)
    ultimately show ?thesis unfolding mult_Suc by linarith
  qed
  ultimately show ?thesis by (simp add: unat_add_nowrap unat_push_bit unat_drop_bit del: push_bit_eq_mult)
qed

lemma shift_bits_left_val:
  assumes "0 < s" "s < 64"
  shows "uval (shift_bits_left x s) = uval x * 2 ^ s mod 2 ^ 256"
proof (cases x)
  case (U256Muldiv a b c d)
  let ?B = "18446744073709551616 :: nat"
  have p: "?B = 2 ^ s * 2 ^ (64 - s)" using assms by (simp add: power_add [symmetric])
  define hi where "hi w = unat (w :: u64) div 2 ^ (64 - s)" for w
  define lw where "lw w = unat (w :: u64) * 2 ^ s mod ?B" for w
  have split: "unat w * 2 ^ s = lw w + ?B * hi w" for w
  proof -
    have "unat w * 2 ^ s div ?B = hi w" unfolding p hi_def by (simp add: mult.commute)
    then show ?thesis unfolding lw_def by (metis mod_mult_div_eq)
  qed
  have sv: "unat (push_bit s w) = lw w" for w :: u64 by (simp only: unat_push_bit lw_def) simp
  have or: "unat (push_bit s w OR drop_bit (64 - s) v) = lw w + hi v" for v w :: u64
    unfolding lw_def hi_def by (rule unat_shl_or [OF assms])
  have l: "uval (shift_bits_left x s) = lw a + 2^64 * (lw b + hi a) + 2^128 * (lw c + hi b) + 2^192 * (lw d + hi c)"
    unfolding U256Muldiv shift_bits_left.simps uval_simp or sv ..
  have "uval x * 2 ^ s = unat a * 2 ^ s + 2^64 * (unat b * 2 ^ s) + 2^128 * (unat c * 2 ^ s) + 2^192 * (unat d * 2 ^ s)"
    unfolding U256Muldiv uval_simp by (simp only: distrib_right mult.assoc)
  also have "\<dots> = uval (shift_bits_left x s) + 2 ^ 256 * hi d"
    unfolding l split by simp
  finally show ?thesis using uval_less [of "shift_bits_left x s"] by simp
qed

lemma shift_left_val: "uval (shift_left x s) = uval x * 2 ^ s mod 2 ^ 256"
proof (cases "256 \<le> s")
  case True
  then have "(2::nat) ^ s = 2 ^ 256 * 2 ^ (s - 256)" by (simp only: power_add [symmetric] le_add_diff_inverse)
  then have "uval x * 2 ^ s mod 2 ^ 256 = 0"
    by (metis dvd_triv_left dvd_mult mod_0_imp_dvd dvd_imp_mod_0)
  then show ?thesis using True by (simp add: shift_left_def NUM_WORDS_def)
next
  case False
  obtain r t where rt: "shift_words shift_word_left x s = (r, t)" by fastforce
  from shift_words_left_val [OF this] have t: "t < 64" "uval r * 2 ^ t mod 2 ^ 256 = uval x * 2 ^ s mod 2 ^ 256"
    by auto
  show ?thesis
  proof (cases "t = 0")
    case True
    then show ?thesis using False t rt uval_less [of r]
      by (simp add: shift_left_def NUM_WORDS_def)
  next
    case tn: False
    then show ?thesis using False t rt by (simp add: shift_left_def NUM_WORDS_def shift_bits_left_val)
  qed
qed

lemma unat_shr_or:
  fixes a b :: u64
  assumes "0 < s" "s < 64"
  shows "unat (drop_bit s a OR push_bit (64 - s) b)
       = unat a div 2 ^ s + unat b * 2 ^ (64 - s) mod 18446744073709551616"
  using unat_shl_or [of "64 - s" b a] assms by (simp add: or.commute add.commute)

lemma shift_bits_right_val:
  assumes "0 < s" "s < 64"
  shows "uval (shift_bits_right x s) = uval x div 2 ^ s"
proof (cases x)
  case (U256Muldiv a b c d)
  let ?B = "18446744073709551616 :: nat"
  have p: "?B = 2 ^ s * 2 ^ (64 - s)" using assms by (simp add: power_add [symmetric])
  define hi where "hi w = unat (w :: u64) div 2 ^ s" for w
  define lw where "lw w = unat (w :: u64) mod 2 ^ s" for w
  have split: "unat w = lw w + 2 ^ s * hi w" for w unfolding lw_def hi_def by simp
  have pv: "unat w * 2 ^ (64 - s) mod ?B = 2 ^ (64 - s) * lw w" for w
    unfolding p lw_def by (simp add: mod_mult_mult2 mult.commute)
  have sv: "unat (drop_bit s w) = hi w" for w :: u64 by (simp only: unat_drop_bit hi_def)
  have or: "unat (drop_bit s v OR push_bit (64 - s) w) = hi v + 2 ^ (64 - s) * lw w" for v w :: u64
    unfolding pv [symmetric] hi_def by (rule unat_shr_or [OF assms])
  have l: "uval (shift_bits_right x s) = (hi a + 2^(64-s) * lw b) + 2^64 * (hi b + 2^(64-s) * lw c)
      + 2^128 * (hi c + 2^(64-s) * lw d) + 2^192 * hi d"
    unfolding U256Muldiv shift_bits_right.simps uval_simp or sv ..
  have "uval x = lw a + 2 ^ s * uval (shift_bits_right x s)"
  proof -
    have e: "2 ^ (64 - s) * (2 ^ s * z) = ?B * z" for z unfolding p by (simp only: mult_ac)
    have "2 ^ s * uval (shift_bits_right x s) = 2 ^ s * hi a + ?B * lw b + 2^64 * (2 ^ s * hi b + ?B * lw c)
      + 2^128 * (2 ^ s * hi c + ?B * lw d) + 2^192 * (2 ^ s * hi d)"
      unfolding l by (simp only: distrib_left e mult.left_commute [of "2 ^ s"])
    then show ?thesis unfolding U256Muldiv uval_simp using split [of a] split [of b] split [of c] split [of d]
      by simp
  qed
  moreover have "lw a < 2 ^ s" by (simp add: lw_def)
  ultimately show ?thesis by simp
qed

lemma shift_right_val: "uval (shift_right x s) = uval x div 2 ^ s"
proof (cases "256 \<le> s")
  case True
  then have "(2::nat) ^ 256 \<le> 2 ^ s" by (rule power_increasing) simp
  then show ?thesis using True uval_less [of x] by (simp add: shift_right_def NUM_WORDS_def)
next
  case False
  obtain r t where rt: "shift_words shift_word_right x s = (r, t)" by fastforce
  from shift_words_right_val [OF this] have "t < 64" "uval r div 2 ^ t = uval x div 2 ^ s" by auto
  then show ?thesis using False rt
    by (cases "t = 0") (auto simp: shift_right_def NUM_WORDS_def shift_bits_right_val)
qed

subsection \<open>Comparisons and conversion\<close>

lemma words_val_snoc: "words_val (xs @ [x]) = words_val xs + 2 ^ (64 * length xs) * unat x"
  by (induction xs) (simp_all add: power_add distrib_left)

lemma words_val_snoc_less_iff:
  assumes "length xs = length ys"
  shows "words_val (xs @ [x]) < words_val (ys @ [y]) \<longleftrightarrow>
    unat x < unat y \<or> (unat x = unat y \<and> words_val xs < words_val ys)"
proof -
  let ?P = "2 ^ (64 * length ys) :: nat"
  have b: "words_val xs < ?P" "words_val ys < ?P"
    using words_val_less [of xs] words_val_less [of ys] assms by simp_all
  have m: "u < v \<Longrightarrow> p < ?P \<Longrightarrow> p + ?P * u < q + ?P * v" for u v p q :: nat
  proof -
    assume "u < v" "p < ?P"
    then have "?P * Suc u \<le> ?P * v" by (intro mult_le_mono2) simp
    then show "p + ?P * u < q + ?P * v" using \<open>p < ?P\<close> unfolding mult_Suc_right by linarith
  qed
  show ?thesis
    using m [of "unat x" "unat y" "words_val xs" "words_val ys"]
      m [of "unat y" "unat x" "words_val ys" "words_val xs"] b assms
    unfolding words_val_snoc by (cases "unat x" "unat y" rule: linorder_cases) auto
qed

lemma compare_words_val:
  "compare_words l g e (rev ps) =
    (if words_val (map fst ps) < words_val (map snd ps) then l
     else if words_val (map fst ps) > words_val (map snd ps) then g else e)"
proof (induction ps rule: rev_induct)
  case Nil
  then show ?case by simp
next
  case (snoc p ps)
  obtain x y where p: "p = (x, y)" by fastforce
  show ?case using snoc words_val_snoc_less_iff [of "map fst ps" "map snd ps" x y]
     words_val_snoc_less_iff [of "map snd ps" "map fst ps" y x]
    by (auto simp: p word_less_iff_unat)
qed

lemma word_pairs_vals [simp]:
  "words_val (map fst (word_pairs x y)) = uval x"
  "words_val (map snd (word_pairs x y)) = uval y"
  by (simp_all add: word_pairs_def uval_def items_def)

lemma u256_compare_val:
  "u256_lt x y \<longleftrightarrow> uval x < uval y" "u256_gt x y \<longleftrightarrow> uval x > uval y"
  "u256_lte x y \<longleftrightarrow> uval x \<le> uval y" "u256_gte x y \<longleftrightarrow> uval x \<ge> uval y"
  by (auto simp: u256_lt_def u256_gt_def u256_lte_def u256_gte_def compare_words_val)

lemma u256_eq_val: "u256_eq x y \<longleftrightarrow> uval x = uval y"
  unfolding uval_inj by (cases x; cases y) (auto simp: u256_eq_def word_pairs_def items_def)

lemma is_zero_val: "is_zero x \<longleftrightarrow> uval x = 0"
  by (cases x) (auto simp: is_zero_def items_def uval_simp)

lemma num_words_gt_2: "2 < num_words x \<longleftrightarrow> 2 ^ 128 \<le> uval x"
proof
  assume a: "2 < num_words x"
  then have "(2::nat) ^ 128 \<le> 2 ^ (64 * (num_words x - 1))" by (intro power_increasing) auto
  also have "\<dots> \<le> uval x" using a by (intro num_words_ge) simp
  finally show "2 ^ 128 \<le> uval x" .
next
  assume "2 ^ 128 \<le> uval x"
  then show "2 < num_words x"
    using num_words_less [of x] power_increasing [of "64 * num_words x" 128 "2::nat"] by linarith
qed

lemma try_into_u128_Inr_iff: "try_into_u128 x = Inr y \<longleftrightarrow> unat y = uval x"
proof (cases x)
  case (U256Muldiv a b c d)
  have v: "unat (push_bit 64 (ucast b) OR ucast a :: u128) = unat b * 18446744073709551616 + unat a"
    by (rule unat_push_or_low)
  show ?thesis
  proof (cases "num_words x > 2")
    case True
    then have "2 ^ 128 \<le> uval x" by (simp only: num_words_gt_2)
    then have "unat y \<noteq> uval x" using unat_u128_less [of y] by simp
    then show ?thesis using True by (simp add: try_into_u128_def)
  next
    case False
    then have "c = 0" "d = 0" using U256Muldiv by (auto split: if_splits)
    then have "unat (push_bit 64 (ucast b) OR ucast a :: u128) = uval x"
      unfolding v U256Muldiv uval_simp by simp
    then show ?thesis using False U256Muldiv
      by (auto simp: try_into_u128_def word_eq_iff_unat simp del: num_words.simps)
  qed
qed

lemma try_into_u128_Inl_iff:
  "try_into_u128 x = Inl e \<longleftrightarrow> e = Err NumberDownCastError \<and> 2 ^ 128 \<le> uval x"
  unfolding try_into_u128_def num_words_gt_2 by auto

subsection \<open>Sum and difference modulo \<open>2 ^ 256\<close>\<close>

lemma add_words_val:
  "unat c \<le> 1 \<Longrightarrow> words_val (add_words c ps)
    = (words_val (map fst ps) + words_val (map snd ps) + unat c) mod 2 ^ (64 * length ps)
   \<and> length (add_words c ps) = length ps"
proof (induction ps arbitrary: c)
  case Nil
  then show ?case by simp
next
  case (Cons p ps)
  obtain x y where p: "p = (x, y)" by fastforce
  let ?B = "18446744073709551616 :: nat"
  define s where "s = unat x + unat y + unat c"
  have sl: "s < 2 * ?B" using unat_u64_less [of x] unat_u64_less [of y] Cons.prems by (simp add: s_def)
  have t: "unat (ucast x + ucast y + c :: u128) = s"
    using sl by (simp add: s_def unat_word_ariths)
  have h: "unat (hi_u128 (ucast x + ucast y + c)) = s div ?B" unfolding unat_hi_u128 t ..
  have l: "unat (lo (ucast x + ucast y + c)) = s mod ?B" unfolding unat_lo t ..
  have s1: "unat (hi_u128 (ucast x + ucast y + c)) \<le> 1" unfolding h using sl by linarith
  define M where "M = words_val (map fst ps) + words_val (map snd ps)"
  have "words_val (add_words c (p # ps)) = s mod ?B + ?B * ((M + s div ?B) mod 2 ^ (64 * length ps))"
    using Cons.IH [OF s1] by (simp add: p Let_def l h M_def)
  also have "\<dots> = (s + ?B * M) mod (?B * 2 ^ (64 * length ps))"
    by (simp add: mod_mult2_eq)
  also have "s + ?B * M = words_val (map fst (p # ps)) + words_val (map snd (p # ps)) + unat c"
    by (simp add: p s_def M_def)
  also have "?B * 2 ^ (64 * length ps) = 2 ^ (64 * length (p # ps))" by (simp add: power_add)
  finally show ?case using Cons.IH [OF s1] by (simp add: p Let_def)
qed

lemma uval_of_items: "length ws = 4 \<Longrightarrow> uval (of_items ws) = words_val ws"
  by (cases ws rule: of_items.cases) (simp_all add: uval_def items_def)

lemma length_word_pairs [simp]: "length (word_pairs x y) = 4"
  by (simp add: word_pairs_def items_def)

lemma u256_add_val: "uval (u256_add x y) = (uval x + uval y) mod 2 ^ 256"
  using add_words_val [of 0 "word_pairs x y"] by (simp add: u256_add_def uval_of_items)

text \<open>One step of the subtraction: the wrapped word and the borrow it produces.\<close>

lemma sub_step:
  fixes x y c :: u64
  assumes "unat c \<le> 1"
  defines "c' \<equiv> if x < y \<or> x - y < c then 1 else 0 :: u64"
  shows "unat (x - y - c) + unat y + unat c = unat x + 18446744073709551616 * unat c'"
proof (cases "x < y")
  case True
  then have xy: "unat (x - y) = unat x + 18446744073709551616 - unat y"
    by (simp add: unat_sub_wrap word_less_iff_unat)
  then have "unat c \<le> unat (x - y)"
    using unat_u64_less [of y] True assms(1) by (simp add: word_less_iff_unat)
  then show ?thesis using xy True unat_u64_less [of y]
    by (simp add: unat_sub_nowrap c'_def word_less_iff_unat)
next
  case False
  then have xy: "unat (x - y) = unat x - unat y" "unat y \<le> unat x"
    by (simp_all add: unat_sub_nowrap word_less_iff_unat)
  show ?thesis
  proof (cases "x - y < c")
    case True
    then have "unat (x - y - c) = unat (x - y) + 18446744073709551616 - unat c"
      by (simp only: unat_sub_wrap word_less_iff_unat) simp
    then show ?thesis using xy True unat_u64_less [of c] by (simp add: c'_def)
  next
    case f: False
    then show ?thesis using xy False
      by (simp add: unat_sub_nowrap c'_def word_less_iff_unat)
  qed
qed

lemma sub_words_val:
  "unat c \<le> 1 \<Longrightarrow>
   (words_val (sub_words c ps) + words_val (map snd ps) + unat c) mod 2 ^ (64 * length ps)
     = words_val (map fst ps)
   \<and> length (sub_words c ps) = length ps"
proof (induction ps arbitrary: c)
  case Nil
  then show ?case by simp
next
  case (Cons p ps)
  obtain x y where p: "p = (x, y)" by fastforce
  let ?B = "18446744073709551616 :: nat"
  let ?c = "if x < y \<or> x - y < c then 1 else 0 :: u64"
  have c1: "unat ?c \<le> 1" by simp
  note IH = Cons.IH [OF c1]
  define R where "R = words_val (sub_words ?c ps) + words_val (map snd ps) + unat ?c"
  have u: "sub_words c (p # ps) = (x - y - c) # sub_words ?c ps"
    by (simp add: p overflowing_sub_def)
  have "words_val (sub_words c (p # ps)) + words_val (map snd (p # ps)) + unat c
      = (unat (x - y - c) + unat y + unat c) + ?B * (words_val (sub_words ?c ps) + words_val (map snd ps))"
    unfolding u by (simp add: p)
  also have "\<dots> = unat x + ?B * R"
    unfolding sub_step [OF Cons.prems] R_def by (simp add: distrib_left)
  finally have s: "words_val (sub_words c (p # ps)) + words_val (map snd (p # ps)) + unat c = unat x + ?B * R" .
  have "(unat x + ?B * R) mod (?B * 2 ^ (64 * length ps)) = ?B * (R mod 2 ^ (64 * length ps)) + unat x"
    using unat_u64_less [of x] by (simp add: mod_mult2_eq)
  also have "R mod 2 ^ (64 * length ps) = words_val (map fst ps)"
    using IH by (simp add: R_def)
  finally have "(unat x + ?B * R) mod (?B * 2 ^ (64 * length ps)) = words_val (map fst (p # ps))"
    by (simp add: p)
  moreover have "2 ^ (64 * length (p # ps)) = ?B * 2 ^ (64 * length ps)" by (simp add: power_add)
  moreover have "length (sub_words c (p # ps)) = length (p # ps)" using IH unfolding u by simp
  ultimately show ?case unfolding s by simp
qed

lemma u256_sub_val_mod: "(uval (u256_sub x y) + uval y) mod 2 ^ 256 = uval x"
  using sub_words_val [of 0 "word_pairs x y"] by (simp add: u256_sub_def uval_of_items)

lemma u256_sub_val:
  assumes "uval y \<le> uval x" shows "uval (u256_sub x y) = uval x - uval y"
proof -
  let ?d = "uval (u256_sub x y)"
  have "?d + uval y = (?d + uval y) mod 2 ^ 256 + 2 ^ 256 * ((?d + uval y) div 2 ^ 256)" by simp
  then obtain k where e: "?d + uval y = uval x + 2 ^ 256 * k"
    unfolding u256_sub_val_mod ..
  have "k = 0"
  proof (cases k)
    case (Suc j)
    then have "uval x + 2 ^ 256 \<le> ?d + uval y" unfolding e by simp
    then show ?thesis using uval_less [of "u256_sub x y"] assms by linarith
  qed
  then show ?thesis using e by simp
qed

lemma get_add_inverse_val: "(uval x + uval (get_add_inverse x)) mod 2 ^ 256 = 0"
proof (cases "uval x = 0")
  case True
  then show ?thesis by (simp add: get_add_inverse_def u256_eq_val)
next
  case False
  have m: "uval (new u128_MAX u128_MAX) = 2 ^ 256 - 1" by (simp add: uval_new)
  then have "uval (u256_sub (new u128_MAX u128_MAX) x) = 2 ^ 256 - 1 - uval x"
    using uval_less [of x] by (subst u256_sub_val) simp_all
  then have "uval (get_add_inverse x) = 2 ^ 256 - uval x"
    using False uval_less [of x] by (simp add: get_add_inverse_def u256_eq_val u256_add_val uval_new)
  then show ?thesis using uval_less [of x] by simp
qed

subsection \<open>The product of two 128-bit integers is exact\<close>

lemma mul_halves:
  fixes B vl vh nl nh :: nat
  assumes "vl * nl = B * q0 + r0" "vl * nh = B * qa + ra" "vh * nl = B * qb + rb"
    and "q0 + ra + rb = B * q1 + r1"
  shows "(vl + B * vh) * (nl + B * nh) = (vh * nh + q1 + qa + qb) * (B * B) + r1 * B + r0"
proof -
  have "(vl + B * vh) * (nl + B * nh) = vl * nl + B * (vl * nh + vh * nl) + B * B * (vh * nh)"
    by (simp add: algebra_simps)
  also have "\<dots> = r0 + B * (q0 + ra + rb) + B * B * (qa + qb + vh * nh)"
    unfolding assms(1-3) by (simp add: algebra_simps)
  also have "\<dots> = (vh * nh + q1 + qa + qb) * (B * B) + r1 * B + r0"
    unfolding assms(4) by (simp add: algebra_simps)
  finally show ?thesis .
qed

lemma u64_mult_less: "a < 2 ^ 64 \<Longrightarrow> b < 2 ^ 64 \<Longrightarrow> a * b < 2 ^ 128" for a b :: nat
  using mult_strict_mono [of a "2 ^ 64" b "2 ^ 64"] by simp

lemma mul_u256_val: "uval (mul_u256 v n) = unat v * unat n"
proof -
  let ?B = "18446744073709551616 :: nat"
  define vl vh nl nh where d: "vl = unat v mod ?B" "vh = unat v div ?B" "nl = unat n mod ?B" "nh = unat n div ?B"
  have r: "vl < 2^64" "vh < 2^64" "nl < 2^64" "nh < 2^64"
    using unat_u128_less [of v] unat_u128_less [of n] by (simp_all add: d div_less_iff_less_mult)
  define c0 a1 b0 where e: "c0 = vl * nl" "a1 = vl * nh" "b0 = vh * nl"
  define c1 where "c1 = c0 div ?B + a1 mod ?B + b0 mod ?B"
  define X where "X = vh * nh + c1 div ?B + a1 div ?B + b0 div ?B"
  have pr: "unat v * unat n = X * (?B * ?B) + (c1 mod ?B) * ?B + c0 mod ?B"
  proof -
    have "c0 div ?B + a1 mod ?B + b0 mod ?B = ?B * (c1 div ?B) + c1 mod ?B"
      by (simp add: c1_def)
    then have "(vl + ?B * vh) * (nl + ?B * nh) = X * (?B * ?B) + (c1 mod ?B) * ?B + c0 mod ?B"
      unfolding X_def by (intro mul_halves) (simp_all add: e)
    then show ?thesis by (simp add: d)
  qed
  have "unat v * unat n < 2 ^ 256"
    using mult_strict_mono [of "unat v" "2 ^ 128" "unat n" "2 ^ 128"] unat_u128_less [of v] unat_u128_less [of n] by simp
  then have "X * (?B * ?B) < 2 ^ 256" using pr by linarith
  then have X: "X < 2 ^ 128" by simp
  have b: "c0 < 2 ^ 128" "a1 < 2 ^ 128" "b0 < 2 ^ 128" "vh * nh < 2 ^ 128"
    unfolding e using r by (simp_all only: u64_mult_less)
  have c1: "c1 < 3 * ?B"
    using b(1) mod_less_divisor [of ?B a1] mod_less_divisor [of ?B b0]
    unfolding c1_def by (simp add: div_less_iff_less_mult)
  have lv: "unat (lo_u128 v) = vl" "unat (hi_u128 v) = vh" "unat (lo_u128 n) = nl" "unat (hi_u128 n) = nh"
    by (simp_all add: unat_lo_u128 unat_hi_u128 d)
  have w: "unat (lo_u128 v * lo_u128 n) = c0" "unat (lo_u128 v * hi_u128 n) = a1"
    "unat (hi_u128 v * lo_u128 n) = b0" "unat (hi_u128 v * hi_u128 n) = vh * nh"
    using b by (simp_all add: unat_mult_nowrap lv e)
  have wc1: "unat (hi_u128 (lo_u128 v * lo_u128 n) + lo_u128 (lo_u128 v * hi_u128 n)
      + lo_u128 (hi_u128 v * lo_u128 n)) = c1"
    using c1 by (simp add: unat_add_nowrap unat_hi_u128 unat_lo_u128 w c1_def)
  have wX: "unat (hi_u128 v * hi_u128 n + hi_u128 (hi_u128 (lo_u128 v * lo_u128 n)
      + lo_u128 (lo_u128 v * hi_u128 n) + lo_u128 (hi_u128 v * lo_u128 n))
      + hi_u128 (lo_u128 v * hi_u128 n) + hi_u128 (hi_u128 v * lo_u128 n)) = X"
    using X by (simp add: unat_add_nowrap unat_hi_u128 [of "_ + _"] unat_hi_u128 [of "_ * _"] w wc1 X_def)
  show ?thesis
    unfolding mul_u256_def Let_def uval_new unat_hi_lo unat_lo wX wc1 w pr by simp
qed

end
