(* ===== verification/U256_Div.thy ===== *)
theory U256_Div
  imports U256_Math
begin

text \<open>
  Division of 256-bit integers (\<open>U256Muldiv::div\<close> and \<open>div_loop\<close> of \<open>math/u256_math.rs\<close>):
  the special cases for small operands and the long division by words, whose quotient digit is
  estimated from the two top words of the divisor, corrected, multiplied back and, when the
  estimate was one too large, repaired by adding the divisor back.

  The lemmas show that whenever the division returns it returns the quotient and the remainder,
  that it returns whenever the divisor is not zero and has at most two words or the dividend at
  most three, and that the repair step of the first round of a four-word dividend reads a word
  beyond the array and panics.
\<close>

subsection \<open>One round of the long division\<close>

text \<open>
  The correction loop of the estimate.  The divisor's top word \<open>v1\<close> is not zero here, since
  the estimate divides by it; the guard states this for the termination proof.
\<close>

function qhat_loop :: "u64 \<Rightarrow> u128 \<Rightarrow> u128 \<Rightarrow> u128 \<Rightarrow> u128 \<Rightarrow> u128 \<Rightarrow> u128" where
  "qhat_loop v1 d1_2 qhat rhat cmp1 cmp2 =
     (if v1 \<noteq> 0 \<and> (hi qhat \<noteq> 0 \<or> cmp2 > cmp1) then
        (let qhat' = qhat - 1; rhat' = rhat + ucast v1
         in if hi rhat' \<noteq> 0 then qhat'
            else qhat_loop v1 d1_2 qhat' rhat' (hi_lo (lo rhat') (lo cmp1)) (cmp2 - d1_2))
      else qhat)"
  by pat_completeness auto

text \<open>
  The loop stops because \<open>rhat\<close> grows by the divisor's top word and the loop is left as soon as
  it no longer fits one word.
\<close>

lemma unat_add_u64_grows:
  fixes r :: u128 and v :: u64
  assumes "unat r < 18446744073709551616" "v \<noteq> 0"
  shows "unat r < unat (r + ucast v)"
proof -
  have "unat (r + ucast v) = unat r + unat v"
    using assms(1) unat_u64_less [of v] by (simp add: unat_add_nowrap)
  then show ?thesis using assms(2) by (simp add: unat_gt_0)
qed

lemma hi_eq_0_iff: "hi x = 0 \<longleftrightarrow> unat x < 18446744073709551616"
  by (simp add: word_eq_iff_unat unat_hi div_eq_0_iff)

termination qhat_loop
proof (relation "measure (\<lambda>(v1, d1_2, qhat, rhat, cmp1, cmp2).
    if hi rhat = 0 then 18446744073709551616 - unat rhat else 18446744073709551617)", goal_cases)
  case 1
  show ?case by simp
next
  case (2 v1 d1_2 qhat rhat cmp1 cmp2 qhat' rhat')
  then have z: "unat rhat' < 18446744073709551616" by (simp add: hi_eq_0_iff)
  show ?case
  proof (cases "hi rhat = 0")
    case True
    then have "unat rhat < unat rhat'"
      unfolding 2(3) using 2(1) by (intro unat_add_u64_grows) (simp_all add: hi_eq_0_iff)
    then show ?thesis using True z 2(4) by (simp add: hi_eq_0_iff)
  next
    case False
    then show ?thesis using 2(4) by simp
  qed
qed

declare qhat_loop.simps [simp del]

text \<open>
  The multiplication of the divisor by the digit and its subtraction from the dividend, word by
  word from the index on; \<open>k\<close> is the borrow.
\<close>

fun mul_sub_loop :: "usize \<Rightarrow> U256Muldiv \<Rightarrow> u128 \<Rightarrow> usize list \<Rightarrow> U256Muldiv \<Rightarrow> u128
    \<Rightarrow> (U256Muldiv \<times> u128) result" where
  "mul_sub_loop index divisor qhat [] dividend k = Inr (dividend, k)"
| "mul_sub_loop index divisor qhat (i # is) dividend k =
     and_then (get_word_u128 divisor i) (\<lambda>v.
     and_then (get_word_u128 dividend (index + i)) (\<lambda>u.
       let p = qhat * v;
           t = u - k - lo_u128 p
       in and_then (update_word dividend (index + i) (lo t)) (\<lambda>dividend'.
            mul_sub_loop index divisor qhat is dividend'
              (ucast ((ucast (drop_bit U64_RESOLUTION p) :: u64)
                    - (ucast (drop_bit U64_RESOLUTION t) :: u64))))))"

fun add_back_loop :: "usize \<Rightarrow> U256Muldiv \<Rightarrow> usize list \<Rightarrow> U256Muldiv \<Rightarrow> u128
    \<Rightarrow> (U256Muldiv \<times> u128) result" where
  "add_back_loop index divisor [] dividend k = Inr (dividend, k)"
| "add_back_loop index divisor (i # is) dividend k =
     and_then (get_word_u128 dividend (index + i)) (\<lambda>u.
     and_then (get_word_u128 divisor i) (\<lambda>v.
       let t = u + v + k
       in and_then (update_word dividend (index + i) (lo t)) (\<lambda>dividend'.
            add_back_loop index divisor is dividend' (drop_bit U64_RESOLUTION t))))"

text \<open>The estimate of the digit from the top words, corrected.\<close>

definition estimate_qhat :: "usize \<Rightarrow> usize \<Rightarrow> U256Muldiv \<Rightarrow> u64 \<Rightarrow> U256Muldiv \<Rightarrow> u128 result" where
  "estimate_qhat index num_divisor_words dividend dividend_carry_space divisor =
     (let use_carry = (index + num_divisor_words = NUM_WORDS) in
      and_then (if use_carry then Inr dividend_carry_space
                else get_word dividend (index + num_divisor_words)) (\<lambda>div_hi.
      and_then (get_word dividend (index + num_divisor_words - 1)) (\<lambda>u1.
      and_then (get_word divisor (num_divisor_words - 1)) (\<lambda>v1.
        let d0 = hi_lo div_hi u1; d1 = ucast v1 in
      and_then (udiv d0 d1) (\<lambda>qhat.
        let rhat = d0 - d1 * qhat in
      and_then (get_word dividend (index + num_divisor_words - 2)) (\<lambda>d0_2.
      and_then (get_word_u128 divisor (num_divisor_words - 2)) (\<lambda>d1_2.
        Inr (qhat_loop v1 d1_2 qhat rhat (hi_lo (lo rhat) d0_2) (qhat * d1_2)))))))))"

text \<open>
  The whole round: the new quotient, dividend and carry word.  The last reads
  (\<open>get_word_u128 dividend' (index + num_divisor_words)\<close> in the repair) are made whether or not
  the carry word is in use, as in the source.
\<close>

definition div_loop :: "usize \<Rightarrow> usize \<Rightarrow> U256Muldiv \<Rightarrow> u64 \<Rightarrow> U256Muldiv \<Rightarrow> U256Muldiv
    \<Rightarrow> (U256Muldiv \<times> U256Muldiv \<times> u64) result" where
  "div_loop index num_divisor_words dividend dividend_carry_space divisor quot =
     (let use_carry = (index + num_divisor_words = NUM_WORDS) in
      and_then (estimate_qhat index num_divisor_words dividend dividend_carry_space divisor) (\<lambda>qhat.
      and_then (mul_sub_loop index divisor qhat [0..<num_divisor_words] dividend 0) (\<lambda>(dividend, k).
      and_then (if use_carry then Inr (ucast dividend_carry_space)
                else get_word_u128 dividend (index + num_divisor_words)) (\<lambda>d_head.
        let t = d_head - k in
      and_then (if use_carry then Inr (dividend, lo t)
                else and_then (update_word dividend (index + num_divisor_words) (lo t))
                       (\<lambda>dividend. Inr (dividend, dividend_carry_space)))
        (\<lambda>(dividend, dividend_carry_space).
      and_then
        (if k > d_head then
           and_then (add_back_loop index divisor [0..<num_divisor_words] dividend 0)
             (\<lambda>(dividend, k).
           and_then (get_word_u128 dividend (index + num_divisor_words)) (\<lambda>head.
             let new_carry = lo (head + k) in
             if use_carry then Inr (qhat - 1, dividend, new_carry)
             else and_then (update_word dividend (index + num_divisor_words) new_carry)
                    (\<lambda>dividend. Inr (qhat - 1, dividend, dividend_carry_space))))
         else Inr (qhat, dividend, dividend_carry_space))
        (\<lambda>(qhat, dividend, dividend_carry_space).
      and_then (update_word quot index (lo qhat)) (\<lambda>quot.
        Inr (quot, dividend, dividend_carry_space))))))))"

subsection \<open>The division\<close>

text \<open>Case 3 of the source: a divisor of one word, divided digit by digit.\<close>

fun div_by_word :: "U256Muldiv \<Rightarrow> U256Muldiv \<Rightarrow> usize list \<Rightarrow> U256Muldiv \<Rightarrow> u128
    \<Rightarrow> (U256Muldiv \<times> u128) result" where
  "div_by_word dividend divisor [] quot k = Inr (quot, k)"
| "div_by_word dividend divisor (j # js) quot k =
     and_then (get_word dividend j) (\<lambda>u.
     and_then (get_word_u128 divisor 0) (\<lambda>d2.
       let d1 = hi_lo (lo k) u in
     and_then (udiv d1 d2) (\<lambda>q.
     and_then (update_word quot j (lo q)) (\<lambda>quot'.
       div_by_word dividend divisor js quot' (d1 - d2 * q)))))"

fun div_rounds :: "usize \<Rightarrow> U256Muldiv \<Rightarrow> usize list \<Rightarrow> U256Muldiv \<Rightarrow> u64 \<Rightarrow> U256Muldiv
    \<Rightarrow> (U256Muldiv \<times> U256Muldiv) result" where
  "div_rounds num_divisor_words divisor [] dividend carry quot = Inr (quot, dividend)"
| "div_rounds num_divisor_words divisor (j # js) dividend carry quot =
     and_then (div_loop j num_divisor_words dividend carry divisor quot)
       (\<lambda>(quot', dividend', carry').
         div_rounds num_divisor_words divisor js dividend' carry' quot')"

definition u256_div :: "U256Muldiv \<Rightarrow> U256Muldiv \<Rightarrow> bool \<Rightarrow> (U256Muldiv \<times> U256Muldiv) result" where
  "u256_div dividend divisor return_remainder =
     (let num_dividend_words = num_words dividend;
          num_divisor_words = num_words divisor
      in
      if num_divisor_words = 0 then Inl Panic
      else if num_dividend_words = 0 then Inr (new 0 0, new 0 0)
      else if num_dividend_words < num_divisor_words then
        Inr (new 0 0, if return_remainder then dividend else new 0 0)
      else if num_dividend_words < 3 then
        and_then (unwrap (try_into_u128 dividend)) (\<lambda>n.
        and_then (unwrap (try_into_u128 divisor)) (\<lambda>d.
        and_then (udiv n d) (\<lambda>q.
          Inr (new 0 q, if return_remainder then new 0 (n mod d) else new 0 0))))
      else if num_divisor_words = 1 then
        and_then (div_by_word dividend divisor (rev [0..<num_dividend_words]) (new 0 0) 0)
          (\<lambda>(quot, k). Inr (quot, if return_remainder then new 0 k else new 0 0))
      else
        and_then (get_word divisor (num_divisor_words - 1)) (\<lambda>divisor_top.
        and_then (get_word dividend (num_dividend_words - 1)) (\<lambda>dividend_top.
          let s = leading_zeros divisor_top;
              b = leading_zeros dividend_top;
              carry = (if num_dividend_words = NUM_WORDS \<and> b < s
                       then drop_bit (U64_RESOLUTION - s) dividend_top else 0)
          in
          and_then (div_rounds num_divisor_words (shift_left divisor s)
              (rev [0..<num_dividend_words - num_divisor_words + 1])
              (shift_left dividend s) carry (new 0 0))
            (\<lambda>(quot, remainder).
              Inr (quot, if return_remainder then shift_right remainder s else new 0 0)))))"

abbreviation (input) B64 :: nat where "B64 \<equiv> 18446744073709551616"

subsection \<open>The corrected estimate\<close>

text \<open>The arithmetic of one correction, on numbers.\<close>

lemma estimate_step_iff:
  fixes q v1 v2 r u2 B :: nat
  assumes "v2 < B" "0 < v1"
  shows "q * v2 \<le> r * B + u2 \<longleftrightarrow> q \<le> ((q * v1 + r) * B + u2) div (v1 * B + v2)"
proof -
  have "0 < v1 * B + v2" using assms by auto
  then have "q \<le> ((q * v1 + r) * B + u2) div (v1 * B + v2) \<longleftrightarrow> q * (v1 * B + v2) \<le> (q * v1 + r) * B + u2"
    by (rule le_div_iff)
  then show ?thesis by (simp add: algebra_simps)
qed

lemma qhat_loop_val:
  fixes v2 u2 :: u64 and D :: nat
  assumes "unat qhat * unat v1 + unat rhat = D" "D < (unat v1 + 1) * B64" "v1 \<noteq> 0"
    "unat rhat < B64" "unat cmp1 = unat rhat * B64 + unat u2" "unat cmp2 = unat qhat * unat v2"
    "unat qhat \<le> B64 + 1"
    "min ((D * B64 + unat u2) div (unat v1 * B64 + unat v2)) (B64 - 1) \<le> unat qhat" "d = ucast v2"
  shows "unat (qhat_loop v1 d qhat rhat cmp1 cmp2)
    = min ((D * B64 + unat u2) div (unat v1 * B64 + unat v2)) (B64 - 1)"
  using assms
proof (induction v1 d qhat rhat cmp1 cmp2 rule: qhat_loop.induct)
  case (1 v1 d qhat rhat cmp1 cmp2)
  let ?Q = "(D * B64 + unat u2) div (unat v1 * B64 + unat v2)"
  note P = "1.prems"
  have v: "0 < unat v1" "unat v1 < B64" "unat v2 < B64" using P(3) unat_u64_less [of v1] unat_u64_less [of v2]
    by (simp_all add: unat_gt_0)
  have test: "unat cmp2 \<le> unat cmp1 \<longleftrightarrow> unat qhat \<le> ?Q"
    unfolding P(5,6) P(1) [symmetric] by (rule estimate_step_iff [OF v(3,1)])
  show ?case
  proof (cases "hi qhat \<noteq> 0 \<or> cmp2 > cmp1")
    case False
    then have "unat qhat \<le> B64 - 1" "unat qhat \<le> ?Q"
      using test by (auto simp: hi_eq_0_iff word_less_iff_unat)
    then have "unat qhat = min ?Q (B64 - 1)" using P(8) by linarith
    then show ?thesis using False by (simp add: qhat_loop.simps [of v1 d qhat])
  next
    case True
    then have gt: "min ?Q (B64 - 1) < unat qhat"
      using test by (auto simp: hi_eq_0_iff word_less_iff_unat min_def)
    then have q': "unat (qhat - 1) = unat qhat - 1" by (subst unat_sub_nowrap) auto
    have r': "unat (rhat + ucast v1) = unat rhat + unat v1"
      using P(4) v by (simp add: unat_add_nowrap)
    have step: "unat (qhat - 1) * unat v1 + unat (rhat + ucast v1) = D"
      unfolding q' r' P(1) [symmetric] using gt by (cases "unat qhat") auto
    have le: "min ?Q (B64 - 1) \<le> unat (qhat - 1)" using gt q' by linarith
    show ?thesis
    proof (cases "hi (rhat + ucast v1) = 0")
      case False
      then have big: "B64 \<le> unat rhat + unat v1" using r' by (simp add: hi_eq_0_iff)
      have "unat qhat \<le> B64"
      proof (rule ccontr)
        assume "\<not> unat qhat \<le> B64"
        then have "unat qhat = B64 + 1" using P(7) by simp
        then show False using P(1,2) big by (simp add: algebra_simps)
      qed
      then have qb: "unat (qhat - 1) \<le> B64 - 1" using q' by simp
      have "unat (qhat - 1) * unat v2 \<le> (B64 - 1) * B64"
        using qb v by (intro mult_le_mono) auto
      also have "\<dots> \<le> unat (rhat + ucast v1) * B64 + unat u2"
        using big r' by (intro trans_le_add1 mult_le_mono1) simp
      finally have "unat (qhat - 1) \<le> ?Q"
        using estimate_step_iff [OF v(3,1), of "unat (qhat - 1)" "unat (rhat + ucast v1)" "unat u2"]
        unfolding step by simp
      then have "unat (qhat - 1) = min ?Q (B64 - 1)" using qb le by linarith
      then show ?thesis using True False P(3) by (simp add: qhat_loop.simps [of v1 d qhat] Let_def)
    next
      case hz: True
      have c2: "unat (cmp2 - d) = unat (qhat - 1) * unat v2"
      proof -
        have "unat d \<le> unat cmp2" using P(6,9) gt by (cases "unat qhat") auto
        then show ?thesis using P(6,9) gt unfolding q' by (simp add: unat_sub_nowrap diff_mult_distrib)
      qed
      have lr: "unat (lo (rhat + ucast v1)) = unat (rhat + ucast v1)"
        using hz by (simp add: unat_lo hi_eq_0_iff)
      have lc: "unat (lo cmp1) = unat u2" using P(5) unat_u64_less [of u2] by (simp add: unat_lo)
      have "unat (qhat_loop v1 d (qhat - 1) (rhat + ucast v1) (hi_lo (lo (rhat + ucast v1)) (lo cmp1)) (cmp2 - d))
         = min ?Q (B64 - 1)"
      proof (rule "1.IH")
        show "v1 \<noteq> 0 \<and> (hi qhat \<noteq> 0 \<or> cmp1 < cmp2)" using True P(3) by simp
        show "unat (hi_lo (lo (rhat + ucast v1)) (lo cmp1)) = unat (rhat + ucast v1) * B64 + unat u2"
          unfolding unat_hi_lo lr lc ..
        show "unat (qhat - 1) \<le> B64 + 1" using P(7) q' by simp
        show "unat (rhat + ucast v1) < B64" using hz by (simp add: hi_eq_0_iff)
      qed (use hz step P le c2 in auto)
      then show ?thesis using True hz P(3) by (simp add: qhat_loop.simps [of v1 d qhat] Let_def)
    qed
  qed
qed

text \<open>The corrected estimate is the quotient digit or one more (numbers).\<close>

lemma capped_estimate:
  fixes U V X Y P B :: nat
  assumes "U < B * V" and V: "Y * P \<le> V" "V < (Y + 1) * P"
    and U: "X * P \<le> U" "U < (X + 1) * P" and "B \<le> Y" "0 < B"
  shows "U div V \<le> min (X div Y) (B - 1)" "min (X div Y) (B - 1) \<le> U div V + 1"
proof -
  have Vp: "0 < V" "0 < Y" "0 < P" using assms by (auto intro: gr0I)
  have "U div V < B" using assms(1) Vp by (simp add: div_less_iff_less_mult)
  moreover have "U div V * Y \<le> X"
  proof -
    have "(U div V * Y) * P \<le> U div V * V" using V(1) by (simp add: mult.assoc)
    also have "\<dots> \<le> U" by simp
    also have "\<dots> < (X + 1) * P" by (rule U(2))
    finally have "U div V * Y < X + 1" by (metis mult_less_cancel2)
    then show ?thesis by simp
  qed
  ultimately show "U div V \<le> min (X div Y) (B - 1)"
    using Vp by (simp add: le_div_iff)
  show "min (X div Y) (B - 1) \<le> U div V + 1"
  proof (rule ccontr)
    assume "\<not> ?thesis"
    then have a: "U div V + 2 \<le> X div Y" "U div V + 2 \<le> B - 1" by simp_all
    let ?q = "U div V"
    have "(?q + 2) * Y \<le> X" using a(1) Vp by (simp add: le_div_iff)
    then have "(?q + 2) * Y * P \<le> X * P" by simp
    also have "\<dots> \<le> U" by (rule U(1))
    also have "\<dots> < (?q + 1) * V" using Vp by (simp add: dividend_less_div_times)
    also have "\<dots> \<le> (?q + 1) * ((Y + 1) * P)" using V(2) by (intro mult_le_mono2) simp
    finally have "(?q + 2) * Y * P < (?q + 1) * (Y + 1) * P" by (simp only: mult.assoc)
    then have "(?q + 2) * Y < (?q + 1) * (Y + 1)" using Vp by (metis mult_less_cancel2)
    then have "Y < ?q + 1" by (simp add: algebra_simps)
    then show False using a(2) assms(6) by linarith
  qed
qed

subsection \<open>Words of an array as numbers\<close>

definition word_at :: "U256Muldiv \<Rightarrow> nat \<Rightarrow> nat" where
  "word_at x i = unat (items x ! i)"

definition seg :: "U256Muldiv \<Rightarrow> nat \<Rightarrow> nat \<Rightarrow> nat" where
  "seg x i n = words_val (take n (drop i (items x)))"

lemma length_items [simp]: "length (items x) = 4"
  by (simp add: items_def)

lemma items_of_items: "length ws = 4 \<Longrightarrow> items (of_items ws) = ws"
  by (cases ws rule: of_items.cases) (simp_all add: items_def)

lemma less_4_cases: "i < 4 \<Longrightarrow> i = 0 \<or> i = 1 \<or> i = 2 \<or> i = (3::nat)"
  by linarith

lemma get_word_items: "get_word x i = (if i < 4 then Inr (items x ! i) else Inl Panic)"
  using less_4_cases [of i] by (cases x) (auto simp: items_def)

lemma get_word_u128_items:
  "get_word_u128 x i = (if i < 4 then Inr (ucast (items x ! i)) else Inl Panic)"
  by (simp add: get_word_u128_def get_word_items)

lemma update_word_items:
  "update_word x i v = (if i < 4 then Inr (of_items ((items x)[i := v])) else Inl Panic)"
proof (cases "i < 4")
  case True
  from less_4_cases [OF this] show ?thesis
    by (cases x) (elim disjE; simp add: items_def numeral_2_eq_2 numeral_3_eq_3)
next
  case False
  then show ?thesis by (cases x) simp
qed

lemma word_at_update:
  "i < 4 \<Longrightarrow> j < 4 \<Longrightarrow> word_at (of_items ((items x)[i := v])) j = (if j = i then unat v else word_at x j)"
  by (simp add: word_at_def items_of_items)

lemma word_at_less: "word_at x i < B64"
  unfolding word_at_def by (rule unat_u64_less)

lemma seg_0 [simp]: "seg x i 0 = 0"
  by (simp add: seg_def)

lemma seg_Suc: "i + Suc n \<le> 4 \<Longrightarrow> seg x i (Suc n) = word_at x i + B64 * seg x (Suc i) n"
  by (simp add: seg_def word_at_def Cons_nth_drop_Suc [symmetric])

lemma seg_add: "i + m + n \<le> 4 \<Longrightarrow> seg x i (m + n) = seg x i m + B64 ^ m * seg x (i + m) n"
proof (induction m arbitrary: i)
  case (Suc m)
  then show ?case using Suc.IH [of "Suc i"] by (simp add: seg_Suc algebra_simps)
qed simp

lemma seg_snoc: "i + Suc n \<le> 4 \<Longrightarrow> seg x i (Suc n) = seg x i n + B64 ^ n * word_at x (i + n)"
  using seg_add [of i n 1 x] seg_Suc [of "i + n" 0 x] by simp

lemma seg_less: "seg x i n < B64 ^ n"
proof -
  have "words_val (take n (drop i (items x))) < 2 ^ (64 * length (take n (drop i (items x))))"
    by (rule words_val_less)
  also have "\<dots> \<le> 2 ^ (64 * n)" by (intro power_increasing) simp_all
  finally show ?thesis by (simp add: seg_def power_mult)
qed

lemma seg_cong:
  "i + n \<le> 4 \<Longrightarrow> (\<And>j. i \<le> j \<Longrightarrow> j < i + n \<Longrightarrow> word_at x j = word_at y j) \<Longrightarrow> seg x i n = seg y i n"
proof (induction n arbitrary: i)
  case (Suc n)
  then show ?case using Suc.IH [of "Suc i"] by (simp add: seg_Suc)
qed simp

lemma uval_seg: "uval x = seg x 0 4"
  by (simp add: uval_def seg_def)

lemma uval_word_at: "uval x = word_at x 0 + B64 * word_at x 1 + B64^2 * word_at x 2 + B64^3 * word_at x 3"
  by (cases x) (simp add: uval_simp word_at_def items_def)

subsection \<open>Multiply and subtract\<close>

lemma mod_square_div: "0 < b \<Longrightarrow> z mod (b * b) div b = z div b mod b" for b z :: int
  by (simp add: zmod_zmult2_eq)

lemma mul_sub_step:
  fixes u k q v :: u128
  assumes u: "unat u < B64" and v: "unat v < B64" and q: "unat q < B64" and k: "unat k < B64"
  defines "t \<equiv> u - k - lo_u128 (q * v)"
  defines "k' \<equiv> ucast ((ucast (drop_bit 64 (q * v)) :: u64) - (ucast (drop_bit 64 t) :: u64)) :: u128"
  shows "unat u + B64 * unat k' = unat (lo t) + unat k + unat q * unat v \<and> unat k' < B64"
proof -
  let ?B = "18446744073709551616 :: int"
  define ph where "ph = unat q * unat v div B64"
  define pl where "pl = unat q * unat v mod B64"
  have p: "unat (q * v) = unat q * unat v"
    using u64_mult_less [of "unat q" "unat v"] q v by (simp add: unat_mult_nowrap)
  have plv: "unat (lo_u128 (q * v)) = pl" by (simp add: unat_lo_u128 p pl_def)
  have phv: "unat (hi (q * v)) = ph" by (simp add: unat_hi p ph_def)
  have pe: "unat q * unat v = B64 * ph + pl" by (simp add: ph_def pl_def)
  define z where "z = int (unat u) - int (unat k) - int pl"
  have tz: "int (unat t) = z mod (?B * ?B)"
  proof -
    have "int (unat t) = (int (unat u) - int (unat k) - int (unat (lo_u128 (q * v)))) mod 2 ^ 128"
      unfolding t_def by (simp add: uint_word_ariths mod_diff_left_eq mod_diff_right_eq)
    then show ?thesis by (simp add: plv z_def)
  qed
  have lt: "int (unat (lo t)) = z mod ?B"
    unfolding unat_lo zmod_int tz by (simp add: mod_mod_cancel)
  have ht: "int (unat (hi t)) = (z div ?B) mod ?B"
    unfolding unat_hi zdiv_int tz using mod_square_div [of ?B z] by simp
  have k'v: "int (unat k') = (int ph - z div ?B) mod ?B"
  proof -
    have "unat k' = unat (hi (q * v) - hi t)"
      unfolding k'_def by (simp add: hi_def)
    then have "int (unat k') = (int (unat (hi (q * v))) - int (unat (hi t))) mod 2 ^ 64"
      by (simp add: uint_word_ariths)
    then show ?thesis unfolding phv ht by (simp add: mod_diff_right_eq)
  qed
  have zz: "z = ?B * (z div ?B) + z mod ?B" by simp
  have K: "int (unat u) + ?B * (int ph - z div ?B) = z mod ?B + int (unat k) + int (unat q * unat v)"
    using zz unfolding pe z_def by (simp add: algebra_simps)
  have qv: "int (unat q * unat v) \<le> (?B - 1) * (?B - 1)"
  proof -
    have "unat q * unat v \<le> (B64 - 1) * (B64 - 1)" using q v by (intro mult_le_mono) simp_all
    then have "int (unat q * unat v) \<le> int ((B64 - 1) * (B64 - 1))" by (simp only: of_nat_le_iff)
    then show ?thesis by simp
  qed
  have m: "0 \<le> z mod ?B" "z mod ?B < ?B" by simp_all
  have ku: "int (unat k) < ?B" "int (unat u) < ?B" using k u by linarith+
  have nn: "0 \<le> int (unat u)" "0 \<le> int (unat k)" "0 \<le> int (unat q * unat v)" by (rule of_nat_0_le_iff)+
  define K' where "K' = int ph - z div ?B"
  have "u' + ?B * K' = m' + k'' + Q \<Longrightarrow> Q \<le> (?B - 1) * (?B - 1) \<Longrightarrow> 0 \<le> m' \<Longrightarrow> m' < ?B \<Longrightarrow>
    k'' < ?B \<Longrightarrow> u' < ?B \<Longrightarrow> 0 \<le> u' \<Longrightarrow> 0 \<le> k'' \<Longrightarrow> 0 \<le> Q \<Longrightarrow> 0 \<le> K' \<and> K' < ?B" for u' m' k'' Q
    by simp
  from this [OF K [folded K'_def] qv m ku nn]
  have r: "0 \<le> int ph - z div ?B" "int ph - z div ?B < ?B" unfolding K'_def by blast+
  then have kk: "int (unat k') = int ph - z div ?B" unfolding k'v by (simp add: mod_pos_pos_trivial)
  have "int (unat u + B64 * unat k') = int (unat (lo t) + unat k + unat q * unat v)"
    using K unfolding kk [symmetric] lt [symmetric] by simp
  then show ?thesis using r kk by (simp only: of_nat_eq_iff) linarith
qed


text \<open>
  The loop over the words \<open>j..n - 1\<close> subtracts the digit times the divisor from the window and
  leaves the borrow; the other words keep their values.
\<close>

lemma mul_sub_loop_val:
  assumes "j \<le> n" "index + n \<le> 4" "unat qhat < B64"
  shows "unat k < B64 \<Longrightarrow> \<exists>d' k'. mul_sub_loop index divisor qhat [j..<n] d k = Inr (d', k')
    \<and> unat k' < B64
    \<and> (\<forall>i < 4. i < index + j \<or> index + n \<le> i \<longrightarrow> word_at d' i = word_at d i)
    \<and> seg d (index + j) (n - j) + B64 ^ (n - j) * unat k'
      = seg d' (index + j) (n - j) + unat k + unat qhat * seg divisor j (n - j)"
  using assms
proof (induction "n - j" arbitrary: j d k)
  case 0
  then show ?case by simp
next
  case (Suc m)
  then have j: "j < n" and m: "m = n - Suc j" by simp_all
  let ?u = "ucast (items d ! (index + j)) :: u128"
  let ?v = "ucast (items divisor ! j) :: u128"
  define t where "t = ?u - k - lo_u128 (qhat * ?v)"
  define k1 where "k1 = (ucast ((ucast (drop_bit 64 (qhat * ?v)) :: u64) - (ucast (drop_bit 64 t) :: u64)) :: u128)"
  define d1 where "d1 = of_items ((items d)[index + j := lo t])"
  have st: "word_at d (index + j) + B64 * unat k1 = unat (lo t) + unat k + unat qhat * word_at divisor j"
    and k1: "unat k1 < B64"
    using mul_sub_step [of ?u ?v qhat k] Suc.prems unat_u64_less
    unfolding t_def k1_def word_at_def by simp_all
  have w1: "i < 4 \<Longrightarrow> word_at d1 i = (if i = index + j then unat (lo t) else word_at d i)" for i
    using j Suc.prems unfolding d1_def by (simp add: word_at_update)
  have run: "mul_sub_loop index divisor qhat [j..<n] d k = mul_sub_loop index divisor qhat [Suc j..<n] d1 k1"
    using j Suc.prems
    by (simp add: upt_conv_Cons get_word_u128_items update_word_items Let_def d1_def k1_def t_def)
  obtain d' k' where IH0:
    "mul_sub_loop index divisor qhat [Suc j..<n] d1 k1 = Inr (d', k')" "unat k' < B64"
    "\<forall>i < 4. i < index + Suc j \<or> index + n \<le> i \<longrightarrow> word_at d' i = word_at d1 i"
    "seg d1 (index + Suc j) (n - Suc j) + B64 ^ (n - Suc j) * unat k'
      = seg d' (index + Suc j) (n - Suc j) + unat k1 + unat qhat * seg divisor (Suc j) (n - Suc j)"
    using Suc.hyps(1) [OF m k1, of d1] Suc_leI [OF j] Suc.prems by blast
  note IH = IH0 [folded m]
  have nj: "n - j = Suc m" using Suc.hyps(2) by simp
  have s: "seg d (index + j) (Suc m) = word_at d (index + j) + B64 * seg d1 (index + Suc j) m"
    "seg d' (index + j) (Suc m) = unat (lo t) + B64 * seg d' (index + Suc j) m"
    "seg divisor j (Suc m) = word_at divisor j + B64 * seg divisor (Suc j) m"
    using j Suc.prems nj IH(3) w1 [of "index + j"]
    by (auto simp: seg_Suc w1 intro!: seg_cong)
  have "seg d (index + j) (Suc m) + B64 ^ Suc m * unat k'
      = word_at d (index + j) + B64 * (seg d1 (index + Suc j) m + B64 ^ m * unat k')"
    by (simp add: s algebra_simps)
  also have "\<dots> = (word_at d (index + j) + B64 * unat k1) + B64 * (seg d' (index + Suc j) m + unat qhat * seg divisor (Suc j) m)"
    unfolding IH(4) by (simp add: algebra_simps)
  also have "\<dots> = seg d' (index + j) (Suc m) + unat k + unat qhat * seg divisor j (Suc m)"
    unfolding st s by (simp add: algebra_simps)
  finally have eq: "seg d (index + j) (n - j) + B64 ^ (n - j) * unat k'
      = seg d' (index + j) (n - j) + unat k + unat qhat * seg divisor j (n - j)" unfolding nj .
  have "\<forall>i < 4. i < index + j \<or> index + n \<le> i \<longrightarrow> word_at d' i = word_at d i"
    using IH(3) w1 j by auto
  then show ?case using IH(1,2) eq unfolding run by blast
qed

lemma add_back_step:
  fixes u v k :: u128
  assumes "unat u < B64" "unat v < B64" "unat k \<le> 1"
  shows "unat u + unat v + unat k = unat (lo (u + v + k)) + B64 * unat (drop_bit 64 (u + v + k))
    \<and> unat (drop_bit 64 (u + v + k)) \<le> 1"
proof -
  have s: "unat (u + v + k) = unat u + unat v + unat k"
    using assms by (simp add: unat_add_nowrap)
  have "unat (drop_bit 64 (u + v + k)) = (unat u + unat v + unat k) div B64"
    unfolding s [symmetric] by (simp only: unat_drop_bit) simp
  then show ?thesis using assms by (simp add: unat_lo s)
qed

lemma add_back_loop_val:
  assumes "j \<le> n" "index + n \<le> 4"
  shows "unat k \<le> 1 \<Longrightarrow> \<exists>d' k'. add_back_loop index divisor [j..<n] d k = Inr (d', k')
    \<and> unat k' \<le> 1
    \<and> (\<forall>i < 4. i < index + j \<or> index + n \<le> i \<longrightarrow> word_at d' i = word_at d i)
    \<and> seg d (index + j) (n - j) + seg divisor j (n - j) + unat k
      = seg d' (index + j) (n - j) + B64 ^ (n - j) * unat k'"
  using assms
proof (induction "n - j" arbitrary: j d k)
  case 0
  then show ?case by simp
next
  case (Suc m)
  then have j: "j < n" and m: "m = n - Suc j" by simp_all
  let ?u = "ucast (items d ! (index + j)) :: u128"
  let ?v = "ucast (items divisor ! j) :: u128"
  define t where "t = ?u + ?v + k"
  define k1 where "k1 = drop_bit 64 t"
  define d1 where "d1 = of_items ((items d)[index + j := lo t])"
  have st: "word_at d (index + j) + word_at divisor j + unat k = unat (lo t) + B64 * unat k1"
    and k1: "unat k1 \<le> 1"
    using add_back_step [of ?u ?v k] Suc.prems unat_u64_less
    unfolding t_def k1_def word_at_def by simp_all
  have w1: "i < 4 \<Longrightarrow> word_at d1 i = (if i = index + j then unat (lo t) else word_at d i)" for i
    using j Suc.prems unfolding d1_def by (simp add: word_at_update)
  have run: "add_back_loop index divisor [j..<n] d k = add_back_loop index divisor [Suc j..<n] d1 k1"
    using j Suc.prems
    by (simp add: upt_conv_Cons get_word_u128_items update_word_items Let_def d1_def k1_def t_def)
  obtain d' k' where IH0:
    "add_back_loop index divisor [Suc j..<n] d1 k1 = Inr (d', k')" "unat k' \<le> 1"
    "\<forall>i < 4. i < index + Suc j \<or> index + n \<le> i \<longrightarrow> word_at d' i = word_at d1 i"
    "seg d1 (index + Suc j) (n - Suc j) + seg divisor (Suc j) (n - Suc j) + unat k1
      = seg d' (index + Suc j) (n - Suc j) + B64 ^ (n - Suc j) * unat k'"
    using Suc.hyps(1) [OF m k1, of d1] Suc_leI [OF j] Suc.prems by blast
  note IH = IH0 [folded m]
  have nj: "n - j = Suc m" using Suc.hyps(2) by simp
  have s: "seg d (index + j) (Suc m) = word_at d (index + j) + B64 * seg d1 (index + Suc j) m"
    "seg d' (index + j) (Suc m) = unat (lo t) + B64 * seg d' (index + Suc j) m"
    "seg divisor j (Suc m) = word_at divisor j + B64 * seg divisor (Suc j) m"
    using j Suc.prems nj IH(3) w1 [of "index + j"]
    by (auto simp: seg_Suc w1 intro!: seg_cong)
  have "seg d (index + j) (Suc m) + seg divisor j (Suc m) + unat k
      = unat (lo t) + B64 * (seg d1 (index + Suc j) m + seg divisor (Suc j) m + unat k1)"
    using st by (simp add: s algebra_simps)
  also have "\<dots> = seg d' (index + j) (Suc m) + B64 ^ Suc m * unat k'"
    unfolding IH(4) s by (simp add: algebra_simps)
  finally have eq: "seg d (index + j) (n - j) + seg divisor j (n - j) + unat k
      = seg d' (index + j) (n - j) + B64 ^ (n - j) * unat k'" unfolding nj .
  have "\<forall>i < 4. i < index + j \<or> index + n \<le> i \<longrightarrow> word_at d' i = word_at d i"
    using IH(3) w1 j by auto
  then show ?case using IH(1,2) eq unfolding run by blast
qed

definition window_head :: "usize \<Rightarrow> usize \<Rightarrow> U256Muldiv \<Rightarrow> u64 \<Rightarrow> nat" where
  "window_head index n dividend carry =
     (if index + n = 4 then unat carry else word_at dividend (index + n))"

definition window :: "usize \<Rightarrow> usize \<Rightarrow> U256Muldiv \<Rightarrow> u64 \<Rightarrow> nat" where
  "window index n dividend carry = seg dividend index n + B64 ^ n * window_head index n dividend carry"

lemma window_head_less: "window_head index n dividend carry < B64"
  by (simp add: window_head_def word_at_less unat_u64_less)

text \<open>The first estimate, before correction: it is large enough and the loop's products fit.\<close>

lemma first_estimate:
  fixes D v1 v2 u2 :: nat
  assumes D: "D < (v1 + 1) * B64" and v: "9223372036854775808 \<le> v1" "v2 < B64" "u2 < B64"
  shows "D div v1 \<le> B64 + 1" "(D * B64 + u2) div (v1 * B64 + v2) \<le> D div v1"
    "D div v1 * v2 < 340282366920938463463374607431768211456"
proof -
  have "(v1 + 1) * B64 \<le> v1 * (B64 + 2)" using v(1) by simp
  then have "D < v1 * (B64 + 2)" using D by linarith
  then have "D div v1 < B64 + 2" by (simp add: less_mult_imp_div_less mult.commute)
  then show q: "D div v1 \<le> B64 + 1" by simp
  have "D div v1 * v2 \<le> (B64 + 1) * (B64 - 1)"
    using q v(2) by (intro mult_le_mono) simp_all
  then show "D div v1 * v2 < 340282366920938463463374607431768211456" by simp
  define Q where "Q = (D * B64 + u2) div (v1 * B64 + v2)"
  have "Q * v1 * B64 \<le> Q * (v1 * B64 + v2)" by (simp add: algebra_simps)
  also have "\<dots> \<le> D * B64 + u2" unfolding Q_def by simp
  also have "\<dots> < (D + 1) * B64" using v(3) by simp
  finally have "Q * v1 < D + 1" by (metis mult_less_cancel2)
  then show "(D * B64 + u2) div (v1 * B64 + v2) \<le> D div v1"
    unfolding Q_def [symmetric] using v(1) by (simp add: le_div_iff)
qed

text \<open>
  The digit that the code estimates from the three leading words of the window and the two leading
  words of the divisor; it is the digit of the quotient or one too large.
\<close>

definition digit_estimate :: "nat \<Rightarrow> nat \<Rightarrow> nat \<Rightarrow> nat" where
  "digit_estimate n W V = min (W div B64 ^ (n - 2) div (V div B64 ^ (n - 2))) (B64 - 1)"

lemma digit_estimate_2: "W < B64 * V \<Longrightarrow> digit_estimate 2 W V = W div V"
  using less_mult_imp_div_less [of W B64 V] by (simp add: digit_estimate_def)

lemma estimate_qhat_val:
  assumes n: "2 \<le> n" "index + n \<le> 4" and top: "9223372036854775808 \<le> word_at divisor (n - 1)"
    and W: "W = window index n dividend carry" and V: "V = seg divisor 0 n" and lt: "W < B64 * V"
  shows "\<exists>q. estimate_qhat index n dividend carry divisor = Inr q \<and> unat q < B64
    \<and> W div V \<le> unat q \<and> unat q \<le> W div V + 1 \<and> unat q = digit_estimate n W V"
proof -
  obtain m where m: "n = m + 2" using n(1) by (metis le_add_diff_inverse2)
  let ?P = "B64 ^ m"
  define u1 where "u1 = items dividend ! (index + n - 1)"
  define u2 where "u2 = items dividend ! (index + n - 2)"
  define v1 where "v1 = items divisor ! (n - 1)"
  define v2 where "v2 = items divisor ! (n - 2)"
  define h where "h = (if index + n = 4 then carry else items dividend ! (index + n))"
  define D where "D = unat h * B64 + unat u1"
  define X where "X = D * B64 + unat u2"
  define Y where "Y = unat v1 * B64 + unat v2"
  have hv: "window_head index n dividend carry = unat h"
    by (simp add: window_head_def h_def word_at_def)
  have b: "unat u1 < B64" "unat u2 < B64" "unat v1 < B64" "unat v2 < B64" "unat h < B64"
    by (simp_all add: unat_u64_less)
  have tv: "9223372036854775808 \<le> unat v1" using top by (simp add: v1_def word_at_def)
  have We: "W = seg dividend index m + ?P * X"
    unfolding W window_def hv using n unfolding m
    by (simp add: seg_snoc X_def D_def u1_def u2_def m word_at_def algebra_simps)
  have Ve: "V = seg divisor 0 m + ?P * Y"
    unfolding V using n unfolding m
    by (simp add: seg_snoc Y_def v1_def v2_def m word_at_def algebra_simps)
  have WX: "X * ?P \<le> W" "W < (X + 1) * ?P" and VY: "Y * ?P \<le> V" "V < (Y + 1) * ?P"
    unfolding We Ve using seg_less [of dividend index m] seg_less [of divisor 0 m]
    by (simp_all add: algebra_simps)
  have YB: "B64 \<le> Y" using tv by (simp add: Y_def)
  have "X * ?P < (B64 * (Y + 1)) * ?P"
  proof -
    have "B64 * V < B64 * ((Y + 1) * ?P)" using VY(2) by simp
    then show ?thesis using WX(1) lt by (simp only: mult.assoc)
  qed
  then have X: "X < B64 * (Y + 1)" by (metis mult_less_cancel2)
  have "unat h * (B64 * B64) < B64 * (unat v1 * B64 + B64)"
    using X b(4) unfolding X_def D_def Y_def by (simp add: algebra_simps)
  then have "unat h < unat v1 + 1" by simp
  then have D: "D < (unat v1 + 1) * B64" unfolding D_def using b(1) by simp
  note fe = first_estimate [OF D tv b(4) b(2)]
  have v10: "v1 \<noteq> 0" using tv by auto
  let ?d0 = "hi_lo h u1"
  let ?q = "?d0 div ucast v1" and ?r = "?d0 - ucast v1 * (?d0 div ucast v1)"
  have d0: "unat ?d0 = D" by (simp add: unat_hi_lo D_def)
  have qv: "unat ?q = D div unat v1" by (simp add: unat_div_distrib d0)
  have rv: "unat ?r = D mod unat v1"
  proof -
    have "ucast v1 * ?q + ?d0 mod ucast v1 = ?d0" by (rule mult_div_mod_eq)
    then have "?r = ?d0 mod ucast v1" by (metis add_diff_cancel_left')
    then show ?thesis by (simp add: unat_mod_distrib d0)
  qed
  have rb: "unat ?r < B64" unfolding rv using b(3) v10
    by (meson less_trans mod_less_divisor unat_gt_0)
  define qh where "qh = qhat_loop v1 (ucast v2) ?q ?r (hi_lo (lo ?r) u2) (?q * ucast v2)"
  have "unat qh = min ((D * B64 + unat u2) div (unat v1 * B64 + unat v2)) (B64 - 1)"
    unfolding qh_def
  proof (rule qhat_loop_val)
    show "unat ?q * unat v1 + unat ?r = D" unfolding qv rv by simp
    show "unat (hi_lo (lo ?r) u2) = unat ?r * B64 + unat u2"
      using rb unfolding unat_hi_lo unat_lo by simp
    show "unat (?q * ucast v2) = unat ?q * unat v2"
      using fe(3) unfolding qv [symmetric] by (simp add: unat_mult_nowrap)
    show "unat ?q \<le> B64 + 1" using fe(1) unfolding qv .
    show "min ((D * B64 + unat u2) div (unat v1 * B64 + unat v2)) (B64 - 1) \<le> unat ?q"
      using fe(2) unfolding qv by linarith
  qed (use D v10 rb in auto)
  then have qh: "unat qh = min (X div Y) (B64 - 1)" by (simp add: X_def Y_def)
  have run: "estimate_qhat index n dividend carry divisor = Inr qh"
  proof -
    have "udiv ?d0 (ucast v1) = Inr ?q" using v10 by (simp add: udiv_def)
    moreover have "get_word dividend (index + n - 1) = Inr u1" "get_word divisor (n - 1) = Inr v1"
      "get_word dividend (index + n - 2) = Inr u2" "get_word_u128 divisor (n - 2) = Inr (ucast v2)"
      "(if index + n = NUM_WORDS then Inr carry else get_word dividend (index + n)) = Inr h"
      using n by (auto simp: get_word_items get_word_u128_items u1_def u2_def v1_def v2_def h_def NUM_WORDS_def)
    ultimately show ?thesis
      unfolding estimate_qhat_def Let_def qh_def by (simp only: and_then_simps)
  qed
  have ce: "W div V \<le> unat qh" "unat qh \<le> W div V + 1"
    unfolding qh using capped_estimate [OF lt VY WX YB] by simp_all
  have "W div ?P = X" "V div ?P = Y"
    unfolding We Ve using seg_less [of dividend index m] seg_less [of divisor 0 m] by simp_all
  then have "unat qh = digit_estimate n W V" unfolding qh digit_estimate_def m by simp
  moreover have "unat qh < B64" unfolding qh by simp
  ultimately show ?thesis using run ce by blast
qed

text \<open>Comparing a window before and after the subtraction of \<open>q\<close> times the divisor.\<close>

lemma exact_digit:
  fixes S r P k h :: nat
  assumes "r + P * k = S + P * h" "r < P" "S < P"
  shows "k = h \<and> S = r"
proof -
  have "(r + P * k) div P = k" "(S + P * h) div P = h" using assms(2,3) by simp_all
  then have "k = h" unfolding assms(1) by simp
  then show ?thesis using assms(1) by simp
qed

lemma digit_one_too_large:
  fixes S c P k h :: nat
  assumes "S + c + P * h = P * k" "0 < c" "c \<le> P" "S < P"
  shows "k = h + 1 \<and> S + c = P"
proof -
  have "P * h < P * k" using assms by linarith
  then have hk: "h < k" by simp
  have "P * k < P * (h + 2)" using assms by (simp add: algebra_simps)
  then have "k < h + 2" by (metis mult_less_cancel1)
  then have "k = h + 1" using hk by simp
  then show ?thesis using assms(1) by simp
qed

lemma div_loop_val:
  assumes n: "2 \<le> n" "index + n \<le> 4" and top: "9223372036854775808 \<le> word_at divisor (n - 1)"
    and W: "W = window index n dividend carry" and V: "V = seg divisor 0 n" and lt: "W < B64 * V"
  shows "(\<exists>quot' d' carry'. div_loop index n dividend carry divisor quot = Inr (quot', d', carry')
      \<and> (\<forall>i < 4. word_at quot' i = (if i = index then W div V else word_at quot i))
      \<and> seg d' index n = W mod V \<and> window_head index n d' carry' = 0
      \<and> (\<forall>i < 4. i < index \<or> index + n < i \<longrightarrow> word_at d' i = word_at dividend i)
      \<and> (index + n = 4 \<longrightarrow> digit_estimate n W V = W div V))
    \<or> (div_loop index n dividend carry divisor quot = Inl Panic \<and> index + n = 4 \<and> W div V < digit_estimate n W V)"
proof -
  let ?P = "B64 ^ n"
  define h where "h = window_head index n dividend carry"
  have V0: "0 < V" using lt by (cases V) auto
  have VP: "V < ?P" unfolding V by (rule seg_less)
  obtain q where q: "estimate_qhat index n dividend carry divisor = Inr q" "unat q < B64"
    "W div V \<le> unat q" "unat q \<le> W div V + 1" "unat q = digit_estimate n W V"
    using estimate_qhat_val [OF n top W V lt] by blast
  obtain d1 k where ms: "mul_sub_loop index divisor q [0..<n] dividend 0 = Inr (d1, k)" "unat k < B64"
    "\<forall>i < 4. i < index + 0 \<or> index + n \<le> i \<longrightarrow> word_at d1 i = word_at dividend i"
    "seg dividend (index + 0) (n - 0) + B64 ^ (n - 0) * unat k
      = seg d1 (index + 0) (n - 0) + unat 0 + unat q * seg divisor 0 (n - 0)"
    using mul_sub_loop_val [of 0 n index q 0 divisor dividend] n q(2) by auto
  have eq: "W + ?P * unat k = seg d1 index n + unat q * V + ?P * h"
    using ms(4) unfolding W window_def h_def V by (simp add: algebra_simps)
  have S: "seg d1 index n < ?P" by (rule seg_less)
  define head where "head = (if index + n = 4 then carry else items dividend ! (index + n))"
  have headh: "unat head = h" by (simp add: head_def h_def window_head_def word_at_def)
  have headr: "(if index + n = NUM_WORDS then Inr (ucast carry)
                else get_word_u128 d1 (index + n)) = Inr (ucast head :: u128)"
  proof (cases "index + n = 4")
    case False
    then have "word_at d1 (index + n) = word_at dividend (index + n)" using ms(3) n by auto
    then show ?thesis using False n
      by (simp add: NUM_WORDS_def get_word_u128_items head_def word_at_def word_eq_iff_unat [symmetric])
  qed (simp add: NUM_WORDS_def head_def)
  have ii: "index < 4" using n by simp
  consider (exact) "unat q = W div V" | (more) "unat q = W div V + 1" using q(3,4) by linarith
  then show ?thesis
  proof cases
    case exact
    have "W = unat q * V + W mod V" unfolding exact by simp
    then have e: "W mod V + ?P * unat k = seg d1 index n + ?P * h" using eq by linarith
    have kh: "unat k = h" "seg d1 index n = W mod V"
      using exact_digit [OF e _ S] V0 VP by (meson less_trans mod_less_divisor)+
    have k: "k = ucast head" using kh(1) headh by (simp add: word_eq_iff_unat)
    define d2 where "d2 = (if index + n = 4 then d1 else of_items ((items d1)[index + n := 0]))"
    define c2 where "c2 = (if index + n = 4 then 0 else carry)"
    define quot' where "quot' = of_items ((items quot)[index := lo q])"
    have lz: "lo 0 = 0" by (simp add: lo_def)
    have run: "div_loop index n dividend carry divisor quot = Inr (quot', d2, c2)"
    proof (cases "index + n = 4")
      case True
      then show ?thesis using headr ii
        by (simp add: div_loop_def q(1) ms(1) k lz d2_def c2_def quot'_def update_word_items NUM_WORDS_def)
    next
      case False
      then show ?thesis using headr ii n
        by (simp add: div_loop_def q(1) ms(1) k lz d2_def c2_def quot'_def update_word_items NUM_WORDS_def)
    qed
    have w2: "i < 4 \<Longrightarrow> word_at d2 i = (if i = index + n then 0 else word_at d1 i)" if "index + n \<noteq> 4" for i
      using that n by (simp add: d2_def word_at_update)
    have "seg d2 index n = W mod V"
    proof (cases "index + n = 4")
      case False
      then have "seg d2 index n = seg d1 index n" using n w2 by (intro seg_cong) auto
      then show ?thesis using kh by simp
    qed (simp add: d2_def kh)
    moreover have "window_head index n d2 c2 = 0"
      using w2 [of "index + n"] n by (auto simp: window_head_def c2_def)
    moreover have "\<forall>i < 4. i < index \<or> index + n < i \<longrightarrow> word_at d2 i = word_at dividend i"
      using ms(3) w2 by (cases "index + n = 4") (auto simp: d2_def)
    moreover have "\<forall>i < 4. word_at quot' i = (if i = index then W div V else word_at quot i)"
      using ii exact q(2) by (simp add: quot'_def word_at_update unat_lo)
    moreover have "digit_estimate n W V = W div V" using exact q(5) by simp
    ultimately show ?thesis using run by blast
  next
    case more
    have "W + V = unat q * V + W mod V" unfolding more by (simp add: algebra_simps)
    then have e: "seg d1 index n + (V - W mod V) + ?P * h = ?P * unat k"
      using eq mod_less_divisor [OF V0, of W] by linarith
    have kh: "unat k = h + 1" "seg d1 index n + (V - W mod V) = ?P"
      using digit_one_too_large [OF e _ _ S] mod_less_divisor [OF V0, of W] VP by simp_all
    have gt: "k > ucast head" using kh(1) headh by (simp add: word_less_iff_unat)
    show ?thesis
    proof (cases "index + n = 4")
      case True
      obtain d3 k3 where "add_back_loop index divisor [0..<n] d1 0 = Inr (d3, k3)"
        using add_back_loop_val [of 0 n index 0 divisor d1] n by auto
      then have "div_loop index n dividend carry divisor quot = Inl Panic"
        using True headr gt
        by (simp add: div_loop_def q(1) ms(1) NUM_WORDS_def get_word_u128_items)
      then show ?thesis using True q(5) more by auto
    next
      case False
      define d2 where "d2 = of_items ((items d1)[index + n := lo (ucast head - k)])"
      have w2: "i < 4 \<Longrightarrow> word_at d2 i = (if i = index + n then unat (lo (ucast head - k)) else word_at d1 i)" for i
        using False n by (simp add: d2_def word_at_update)
      have s2: "seg d2 index n = seg d1 index n" using n False w2 by (intro seg_cong) auto
      obtain d3 k3 where ab: "add_back_loop index divisor [0..<n] d2 0 = Inr (d3, k3)" "unat k3 \<le> 1"
        "\<forall>i < 4. i < index \<or> index + n \<le> i \<longrightarrow> word_at d3 i = word_at d2 i"
        "seg d2 index n + seg divisor 0 n = seg d3 index n + ?P * unat k3"
        using add_back_loop_val [of 0 n index 0 divisor d2] n by auto
      have "W mod V + ?P * 1 = seg d3 index n + ?P * unat k3"
        using ab(4) kh(2) mod_less_divisor [OF V0, of W] unfolding s2 V [symmetric] by linarith
      then have "unat 1 = unat k3 \<and> seg d3 index n = W mod V"
        using exact_digit [of "W mod V" ?P 1 "seg d3 index n" "unat k3"] seg_less [of d3 index n]
          mod_less_divisor [OF V0, of W] VP by auto
      then have k3: "k3 = 1" and s3: "seg d3 index n = W mod V"
        by (auto simp: word_eq_iff_unat)
      define d4 where "d4 = of_items ((items d3)[index + n := lo (ucast (items d3 ! (index + n)) + k3)])"
      have w3: "word_at d3 (index + n) = unat (lo (ucast head - k))"
        using ab(3) w2 [of "index + n"] n False by auto
      have m1: "ucast head - k = - 1"
      proof -
        have "k = ucast head + 1" using kh(1) headh window_head_less [of index n dividend carry]
          by (simp add: word_eq_iff_unat unat_add_nowrap h_def)
        then show ?thesis by simp
      qed
      have "items d3 ! (index + n) = lo (- 1)"
        using w3 unfolding m1 by (simp add: word_at_def word_eq_iff_unat)
      then have z: "lo (ucast (items d3 ! (index + n)) + k3) = 0"
        by (simp add: k3 lo_def)
      have w4: "i < 4 \<Longrightarrow> word_at d4 i = (if i = index + n then 0 else word_at d3 i)" for i
        using False n unfolding d4_def z by (simp add: word_at_update)
      define quot' where "quot' = of_items ((items quot)[index := lo (q - 1)])"
      have run: "div_loop index n dividend carry divisor quot = Inr (quot', d4, carry)"
        using False headr gt ii n
        by (simp add: div_loop_def q(1) ms(1) d2_def [symmetric] ab(1) NUM_WORDS_def
            get_word_u128_items update_word_items d4_def quot'_def Let_def)
      have "seg d4 index n = W mod V"
        unfolding s3 [symmetric] using n False w4 by (intro seg_cong) auto
      moreover have "window_head index n d4 carry = 0"
        using w4 [of "index + n"] n False by (simp add: window_head_def)
      moreover have "\<forall>i < 4. i < index \<or> index + n < i \<longrightarrow> word_at d4 i = word_at dividend i"
        using ms(3) w2 w4 ab(3) by auto
      moreover have "\<forall>i < 4. word_at quot' i = (if i = index then W div V else word_at quot i)"
      proof -
        have "unat (q - 1) = W div V" using more by (subst unat_sub_nowrap) simp_all
        then show ?thesis using ii q(2) more by (simp add: quot'_def word_at_update unat_lo)
      qed
      ultimately show ?thesis using run False by blast
    qed
  qed
qed

subsection \<open>All rounds\<close>

lemma seg_zeros:
  "n \<le> m \<Longrightarrow> m \<le> 4 \<Longrightarrow> (\<forall>i < 4. n \<le> i \<longrightarrow> word_at x i = 0) \<Longrightarrow> seg x 0 m = seg x 0 n"
proof (induction "m - n" arbitrary: m)
  case (Suc k)
  from Suc.hyps(2) obtain m' where m: "m = Suc m'" "n \<le> m'" by (cases m) auto
  then show ?case using Suc.hyps(1) [of m'] Suc.hyps(2) Suc.prems by (simp add: seg_snoc)
qed simp

lemma window_0_Suc:
  assumes "Suc m \<le> 4" shows "window 0 m d c = seg d 0 (Suc m)"
  using assms by (simp add: window_def window_head_def seg_snoc)

lemma div_rounds_val:
  assumes n: "2 \<le> n" "n \<le> 4" and top: "9223372036854775808 \<le> word_at divisor (n - 1)"
    and V: "V = seg divisor 0 n"
  shows "r + n \<le> 5 \<Longrightarrow> T = window 0 (r + n - 1) dividend carry \<Longrightarrow> T < B64 ^ r * V \<Longrightarrow>
    \<forall>i < 4. r + n \<le> i \<longrightarrow> word_at dividend i = 0 \<Longrightarrow>
    (\<exists>quot' d'. div_rounds n divisor (rev [0..<r]) dividend carry quot = Inr (quot', d')
      \<and> seg quot' 0 r = T div V \<and> (\<forall>i < 4. r \<le> i \<longrightarrow> word_at quot' i = word_at quot i)
      \<and> uval d' = T mod V
      \<and> (r + n = 5 \<longrightarrow> digit_estimate n (T div B64 ^ (r - 1)) V = T div B64 ^ (r - 1) div V))
    \<or> (div_rounds n divisor (rev [0..<r]) dividend carry quot = Inl Panic \<and> r + n = 5
      \<and> T div B64 ^ (r - 1) div V < digit_estimate n (T div B64 ^ (r - 1)) V)"
proof (induction r arbitrary: T dividend carry quot)
  case 0
  then have T: "T = seg dividend 0 n" using n window_0_Suc [of "n - 1" dividend carry] by simp
  have "uval dividend = T"
    unfolding uval_seg T using n 0 by (intro seg_zeros) simp_all
  then show ?case using 0 n by simp
next
  case (Suc r)
  have rn: "r + n \<le> 4" using Suc.prems by simp
  define W where "W = window r n dividend carry"
  have TW: "T = seg dividend 0 r + B64 ^ r * W"
    unfolding Suc.prems(2) W_def window_def window_head_def using seg_add [of 0 r n dividend] rn
    by (simp add: power_add algebra_simps)
  have TWd: "T div B64 ^ (Suc r - 1) = W" unfolding TW using seg_less [of dividend 0 r] by simp
  have V0: "0 < V" using Suc.prems(3) by (cases V) auto
  have "B64 ^ r * W \<le> T" unfolding TW by simp
  also have "T < B64 ^ r * (B64 * V)" using Suc.prems(3) by (simp only: power_Suc mult_ac)
  finally have "B64 ^ r * W < B64 ^ r * (B64 * V)" .
  then have W: "W < B64 * V" by (metis mult_less_cancel1)
  have rev: "rev [0..<Suc r] = r # rev [0..<r]" by simp
  from div_loop_val [OF n(1) rn top W_def V W, of quot]
  show ?case
  proof (elim disjE conjE exE)
    assume "div_loop r n dividend carry divisor quot = Inl Panic" "r + n = 4" "W div V < digit_estimate n W V"
    then show ?thesis unfolding rev using TWd by simp
  next
    fix quot' d' carry'
    assume run: "div_loop r n dividend carry divisor quot = Inr (quot', d', carry')"
      and qw: "\<forall>i < 4. word_at quot' i = (if i = r then W div V else word_at quot i)"
      and sm: "seg d' r n = W mod V" and hd: "window_head r n d' carry' = 0"
      and fr: "\<forall>i < 4. i < r \<or> r + n < i \<longrightarrow> word_at d' i = word_at dividend i"
      and de: "r + n = 4 \<longrightarrow> digit_estimate n W V = W div V"
    define T' where "T' = window 0 (r + n - 1) d' carry'"
    have "T' = seg d' 0 (r + n)" unfolding T'_def using n rn window_0_Suc [of "r + n - 1"] by simp
    also have "\<dots> = seg d' 0 r + B64 ^ r * seg d' r n" using seg_add [of 0 r n d'] rn by simp
    also have "seg d' 0 r = seg dividend 0 r" using fr rn by (intro seg_cong) auto
    finally have T': "T' = seg dividend 0 r + B64 ^ r * (W mod V)" unfolding sm .
    have "T' < B64 ^ r * V"
    proof -
      have "B64 ^ r * Suc (W mod V) \<le> B64 ^ r * V" using V0 by (intro mult_le_mono2) (simp add: Suc_le_eq)
      then show ?thesis unfolding T' using seg_less [of dividend 0 r] by simp
    qed
    moreover have "\<forall>i < 4. r + n \<le> i \<longrightarrow> word_at d' i = 0"
    proof (intro allI impI)
      fix i :: nat assume i: "i < 4" "r + n \<le> i"
      show "word_at d' i = 0"
        using hd fr Suc.prems(4) i by (cases "i = r + n") (auto simp: window_head_def)
    qed
    ultimately obtain quot'' d'' where IH: "div_rounds n divisor (rev [0..<r]) d' carry' quot' = Inr (quot'', d'')"
      "seg quot'' 0 r = T' div V" "\<forall>i < 4. r \<le> i \<longrightarrow> word_at quot'' i = word_at quot' i" "uval d'' = T' mod V"
      using Suc.IH [of T' d' carry' quot'] rn T'_def by auto
    have "W = W mod V + W div V * V" by simp
    then have "B64 ^ r * W = B64 ^ r * (W mod V) + (B64 ^ r * (W div V)) * V"
      by (simp only: mult.assoc distrib_left [symmetric])
    then have "T = T' + (B64 ^ r * (W div V)) * V" unfolding TW T' by linarith
    then have TT: "T div V = T' div V + B64 ^ r * (W div V)" "T mod V = T' mod V"
      using V0 by simp_all
    have "r < 4" using rn n by simp
    then have "seg quot'' 0 (Suc r) = T div V"
      using IH(2,3) qw unfolding TT by (simp add: seg_snoc)
    moreover have "\<forall>i < 4. Suc r \<le> i \<longrightarrow> word_at quot'' i = word_at quot i"
      using IH(3) qw by auto
    moreover have "Suc r + n = 5 \<longrightarrow>
      digit_estimate n (T div B64 ^ (Suc r - 1)) V = T div B64 ^ (Suc r - 1) div V"
      unfolding TWd using de by simp
    ultimately show ?thesis unfolding rev using run IH(1,4) TT(2) by auto
  qed
qed

lemma div_by_word_val:
  assumes d: "uval divisor = word_at divisor 0" "0 < uval divisor"
  shows "r \<le> 4 \<Longrightarrow> unat k < uval divisor \<Longrightarrow> T = seg dividend 0 r + B64 ^ r * unat k \<Longrightarrow>
    \<exists>quot' k'. div_by_word dividend divisor (rev [0..<r]) quot k = Inr (quot', k')
      \<and> seg quot' 0 r = T div uval divisor \<and> (\<forall>i < 4. r \<le> i \<longrightarrow> word_at quot' i = word_at quot i)
      \<and> unat k' = T mod uval divisor"
proof (induction r arbitrary: T k quot)
  case 0
  then show ?case by simp
next
  case (Suc r)
  let ?V = "uval divisor"
  define dw where "dw = items divisor ! 0"
  have dv: "unat dw = ?V" using d by (simp add: dw_def word_at_def)
  have dw0: "dw \<noteq> 0" using d dv by auto
  define d1 where "d1 = hi_lo (lo k) (items dividend ! r)"
  have kb: "unat k < B64" using Suc.prems(2) d(1) word_at_less [of divisor 0] by simp
  have d1v: "unat d1 = unat k * B64 + word_at dividend r"
    using kb by (simp add: d1_def unat_hi_lo unat_lo word_at_def)
  define q where "q = d1 div ucast dw"
  have qv: "unat q = unat d1 div ?V" by (simp add: q_def unat_div_distrib dv)
  have "unat d1 < ?V * B64"
  proof -
    have "Suc (unat k) * B64 \<le> ?V * B64" using Suc.prems(2) by (intro mult_le_mono1) simp
    then show ?thesis unfolding d1v using word_at_less [of dividend r] by simp
  qed
  then have qb: "unat q < B64" unfolding qv by (simp add: less_mult_imp_div_less mult.commute)
  define k1 where "k1 = d1 - ucast dw * q"
  have "k1 = d1 mod ucast dw" unfolding k1_def q_def by (metis add_diff_cancel_left' mult_div_mod_eq)
  then have k1v: "unat k1 = unat d1 mod ?V" by (simp add: unat_mod_distrib dv)
  define quot1 where "quot1 = of_items ((items quot)[r := lo q])"
  have r4: "r < 4" using Suc.prems by simp
  have q1: "i < 4 \<Longrightarrow> word_at quot1 i = (if i = r then unat q else word_at quot i)" for i
    using r4 qb by (simp add: quot1_def word_at_update unat_lo)
  have run: "div_by_word dividend divisor (rev [0..<Suc r]) quot k = div_by_word dividend divisor (rev [0..<r]) quot1 k1"
    using r4 dw0 by (simp add: get_word_items get_word_u128_items update_word_items udiv_def
        d1_def quot1_def k1_def q_def dw_def Let_def)
  define T' where "T' = seg dividend 0 r + B64 ^ r * unat k1"
  have "unat k1 < ?V" unfolding k1v using d(2) by simp
  then obtain quot' k' where IH: "div_by_word dividend divisor (rev [0..<r]) quot1 k1 = Inr (quot', k')"
    "seg quot' 0 r = T' div ?V" "\<forall>i < 4. r \<le> i \<longrightarrow> word_at quot' i = word_at quot1 i" "unat k' = T' mod ?V"
    using Suc.IH [of k1 T' quot1] r4 T'_def by auto
  have e: "unat d1 = unat k1 + unat q * ?V" unfolding k1v qv by simp
  have "T = seg dividend 0 r + B64 ^ r * unat d1"
    unfolding Suc.prems(3) d1v using r4 by (simp add: seg_snoc algebra_simps)
  also have "\<dots> = T' + (B64 ^ r * unat q) * ?V"
    unfolding T'_def e by (simp add: algebra_simps)
  finally have TT: "T div ?V = T' div ?V + B64 ^ r * unat q" "T mod ?V = T' mod ?V"
    using d(2) by simp_all
  have "seg quot' 0 (Suc r) = T div ?V"
    using IH(2,3) q1 r4 unfolding TT by (simp add: seg_snoc)
  moreover have "\<forall>i < 4. Suc r \<le> i \<longrightarrow> word_at quot' i = word_at quot i"
    using IH(3) q1 by auto
  ultimately show ?case unfolding run using IH(1,4) TT(2) by auto
qed

subsection \<open>The division is exact\<close>

lemma word_at_ge_num_words: "num_words x \<le> i \<Longrightarrow> i < 4 \<Longrightarrow> word_at x i = 0"
  using less_4_cases [of i] by (cases x) (auto simp: word_at_def items_def split: if_splits)

lemma uval_seg_num_words: "uval x = seg x 0 (num_words x)"
  unfolding uval_seg using word_at_ge_num_words num_words_le [of x] by (intro seg_zeros) auto

lemma top_word_nonzero: "0 < num_words x \<Longrightarrow> items x ! (num_words x - 1) \<noteq> 0"
  by (cases x) (auto simp: items_def)

text \<open>The divisor after normalisation: its value and its top word.\<close>

lemma normalised_divisor:
  assumes n: "0 < num_words d" and s: "s = leading_zeros (items d ! (num_words d - 1))"
  shows "s < 64" "uval (shift_left d s) = uval d * 2 ^ s"
    "seg (shift_left d s) 0 (num_words d) = uval d * 2 ^ s"
    "9223372036854775808 \<le> word_at (shift_left d s) (num_words d - 1)"
proof -
  let ?n = "num_words d" and ?x = "shift_left d s"
  obtain m where m: "?n = Suc m" using n by (cases ?n) auto
  have m4: "m < 4" using num_words_le [of d] m by simp
  define t where "t = items d ! m"
  have t: "t \<noteq> 0" using top_word_nonzero [OF n] by (simp add: t_def m)
  have st: "s = leading_zeros t" using s by (simp add: t_def m)
  note lz = leading_zeros_bounds [OF t]
  show s64: "s < 64" using lz(1) by (simp add: st)
  have p64: "(2::nat) ^ (64 - s) * 2 ^ s = B64" using s64 by (simp add: power_add [symmetric])
  have p63: "(2::nat) ^ (63 - s) * 2 ^ s = 9223372036854775808" using s64 by (simp add: power_add [symmetric])
  have dv: "uval d = seg d 0 m + B64 ^ m * unat t"
    using uval_seg_num_words [of d] m m4 by (simp add: seg_snoc word_at_def t_def)
  have "uval d < B64 ^ m * Suc (unat t)" unfolding dv using seg_less [of d 0 m] by simp
  also have "\<dots> \<le> B64 ^ m * 2 ^ (64 - s)" using lz(3) by (intro mult_le_mono2) (simp add: st)
  finally have "uval d * 2 ^ s < B64 ^ m * 2 ^ (64 - s) * 2 ^ s" by simp
  then have ub: "uval d * 2 ^ s < B64 ^ ?n" unfolding mult.assoc p64 m by (simp add: mult.commute)
  also have "\<dots> \<le> B64 ^ 4" using num_words_le [of d] by (intro power_increasing) simp_all
  finally have "uval d * 2 ^ s < 2 ^ 256" by simp
  then show uv: "uval ?x = uval d * 2 ^ s" by (simp add: shift_left_val)
  have sp: "uval ?x = seg ?x 0 ?n + B64 ^ ?n * seg ?x ?n (4 - ?n)"
    unfolding uval_seg using seg_add [of 0 ?n "4 - ?n" ?x] num_words_le [of d] by simp
  have "seg ?x ?n (4 - ?n) = 0"
  proof (rule ccontr)
    assume "seg ?x ?n (4 - ?n) \<noteq> 0"
    then have "B64 ^ ?n * 1 \<le> B64 ^ ?n * seg ?x ?n (4 - ?n)" by (intro mult_le_mono2) simp
    then show False using sp ub uv by linarith
  qed
  then show sv: "seg ?x 0 ?n = uval d * 2 ^ s" using sp uv by simp
  have "B64 ^ m * 2 ^ (63 - s) \<le> B64 ^ m * unat t" using lz(2) by (intro mult_le_mono2) (simp add: st)
  then have "B64 ^ m * 2 ^ (63 - s) \<le> uval d" unfolding dv by (rule trans_le_add2)
  then have "B64 ^ m * 2 ^ (63 - s) * 2 ^ s \<le> uval d * 2 ^ s" by (rule mult_le_mono1)
  then have "B64 ^ m * 9223372036854775808 \<le> seg ?x 0 m + B64 ^ m * word_at ?x m"
    unfolding mult.assoc p63 sv [symmetric] m using m4 by (simp add: seg_snoc)
  then have "B64 ^ m * 9223372036854775808 < B64 ^ m + B64 ^ m * word_at ?x m"
    using seg_less [of ?x 0 m] by linarith
  then have "B64 ^ m * 9223372036854775808 < B64 ^ m * Suc (word_at ?x m)"
    by (simp only: mult_Suc_right)
  then have "9223372036854775808 < Suc (word_at ?x m)" by (metis mult_less_cancel1)
  then show "9223372036854775808 \<le> word_at ?x (?n - 1)" by (simp add: m)
qed

text \<open>The dividend after normalisation, with the bits shifted out kept in the carry word.\<close>

lemma normalised_dividend:
  assumes m: "3 \<le> num_words x" and s: "s < 64"
  defines "carry \<equiv> (if num_words x = 4 \<and> leading_zeros (items x ! (num_words x - 1)) < s
                     then drop_bit (64 - s) (items x ! (num_words x - 1)) else 0)"
  shows "window 0 (num_words x) (shift_left x s) carry = uval x * 2 ^ s"
    "\<forall>i < 4. num_words x < i \<longrightarrow> word_at (shift_left x s) i = 0"
proof -
  let ?y = "shift_left x s"
  have yv: "uval ?y = uval x * 2 ^ s mod 2 ^ 256" by (rule shift_left_val)
  have m34: "num_words x = 3 \<or> num_words x = 4" using m num_words_le [of x] by linarith
  show "\<forall>i < 4. num_words x < i \<longrightarrow> word_at ?y i = 0" using m by auto
  show "window 0 (num_words x) ?y carry = uval x * 2 ^ s"
  proof (cases "num_words x = 4")
    case False
    then have m3: "num_words x = 3" using m34 by simp
    have "uval x * 2 ^ s < 2 ^ 192 * 2 ^ 64"
      using num_words_less [of x] m3 s
      by (intro mult_strict_mono power_strict_increasing) simp_all
    then have "uval ?y = uval x * 2 ^ s" unfolding yv by simp
    then show ?thesis unfolding m3 using window_0_Suc [of 3 ?y carry] by (simp add: uval_seg)
  next
    case True
    define t where "t = items x ! 3"
    have t: "t \<noteq> 0" using top_word_nonzero [of x] True by (simp add: t_def)
    note lz = leading_zeros_bounds [OF t]
    have ci: "carry = (if leading_zeros t < s then drop_bit (64 - s) t else 0)"
      using True by (simp add: carry_def t_def)
    have p: "(2::nat) ^ 256 = 2 ^ 192 * 2 ^ (64 - s) * 2 ^ s" using s by (simp add: power_add [symmetric])
    have cv: "unat carry = unat t div 2 ^ (64 - s)"
    proof (cases "leading_zeros t < s")
      case False
      have "unat t < 2 ^ (64 - leading_zeros t)" using lz(3) by simp
      also have "\<dots> \<le> 2 ^ (64 - s)" using False by (intro power_increasing) simp_all
      finally show ?thesis using False by (simp add: ci)
    qed (simp add: ci unat_drop_bit)
    have xv: "uval x = seg x 0 3 + 2 ^ 192 * unat t"
      unfolding uval_seg using seg_snoc [of 0 3 x] by (simp add: word_at_def t_def)
    have "uval x div (2 ^ 192 * 2 ^ (64 - s)) = unat t div 2 ^ (64 - s)"
      unfolding div_mult2_eq xv using seg_less [of x 0 3] by simp
    then have "uval x * 2 ^ s div 2 ^ 256 = unat carry" unfolding p cv by simp
    then have "uval x * 2 ^ s = uval ?y + 2 ^ 256 * unat carry"
      unfolding yv by (metis mod_mult_div_eq)
    then show ?thesis unfolding True by (simp add: window_def window_head_def uval_seg)
  qed
qed

text \<open>
  What a call of \<open>div\<close> can do on a divisor that is not zero: return the exact quotient and
  (if asked for) remainder, or panic, the latter exactly for a dividend of four words and a divisor
  of three or four when the estimate of the first digit of the quotient is too large: the
  numbers are shifted so that the top bit of the divisor is set, and the first digit is that of the
  top of the dividend.
\<close>

definition estimate_too_large :: "U256Muldiv \<Rightarrow> U256Muldiv \<Rightarrow> bool" where
  "estimate_too_large x d \<longleftrightarrow>
     (let n = num_words d; s = leading_zeros (items d ! (n - 1));
          W = uval x * 2 ^ s div B64 ^ (4 - n); V = uval d * 2 ^ s in
      num_words x = 4 \<and> 3 \<le> n \<and> W div V < digit_estimate n W V)"

lemma estimate_too_largeD: "estimate_too_large x d \<Longrightarrow> num_words x = 4 \<and> 3 \<le> num_words d"
  by (simp add: estimate_too_large_def Let_def)

lemma u256_div_cases:
  assumes d: "0 < uval d"
  shows "(\<exists>q r. u256_div x d rem = Inr (q, r) \<and> uval q = uval x div uval d
        \<and> uval r = (if rem then uval x mod uval d else 0) \<and> \<not> estimate_too_large x d)
    \<or> (u256_div x d rem = Inl Panic \<and> estimate_too_large x d)"
proof -
  let ?m = "num_words x" and ?n = "num_words d"
  have n0: "0 < ?n" using d num_words_0_iff [of d] by simp
  have eqs: "uval (new 0 0) = 0" by simp
  consider (zero) "?m = 0" | (small) "?m \<noteq> 0" "?m < ?n" | (u128) "?m \<noteq> 0" "?n \<le> ?m" "?m < 3"
    | (single) "3 \<le> ?m" "?n = 1" | (long) "3 \<le> ?m" "2 \<le> ?n" "?n \<le> ?m" using n0 by linarith
  then show ?thesis
  proof cases
    case zero
    then have "uval x = 0" using num_words_0_iff by simp
    then show ?thesis using zero n0 estimate_too_largeD [of x d] by (auto simp: u256_div_def Let_def)
  next
    case small
    have "uval x < 2 ^ (64 * ?m)" by (rule num_words_less)
    also have "\<dots> \<le> 2 ^ (64 * (?n - 1))" using small by (intro power_increasing) simp_all
    also have "\<dots> \<le> uval d" by (rule num_words_ge [OF n0])
    finally show ?thesis using small n0 num_words_le [of d] estimate_too_largeD [of x d]
      by (auto simp: u256_div_def Let_def)
  next
    case u128
    have s: "uval x < 2 ^ 128" "uval d < 2 ^ 128"
      using num_words_gt_2 [of x] num_words_gt_2 [of d] u128 by (simp_all add: not_less [symmetric])
    obtain a b where a: "try_into_u128 x = Inr a" "unat a = uval x"
      and b: "try_into_u128 d = Inr b" "unat b = uval d"
      using s try_into_u128_Inl_iff [of x] try_into_u128_Inl_iff [of d] try_into_u128_Inr_iff
      by (metis not_less sum.exhaust_sel sum.collapse(1) sum.collapse(2))
    have "b \<noteq> 0" using b d by auto
    then show ?thesis using u128 n0 a b estimate_too_largeD [of x d]
      by (auto simp: u256_div_def Let_def udiv_def uval_new unat_div_distrib unat_mod_distrib)
  next
    case single
    have dw: "uval d = word_at d 0" using uval_seg_num_words [of d] single by (simp add: seg_Suc)
    obtain q k where r: "div_by_word x d (rev [0..<?m]) (new 0 0) 0 = Inr (q, k)"
      "seg q 0 ?m = uval x div uval d" "\<forall>i < 4. ?m \<le> i \<longrightarrow> word_at q i = word_at (new 0 0) i"
      "unat k = uval x mod uval d"
      using div_by_word_val [OF dw d, of ?m 0 "uval x" x "new 0 0"] d num_words_le [of x]
        uval_seg_num_words [of x] by auto
    have "word_at (new 0 0) i = 0" if "i < 4" for i
      using less_4_cases [OF that] by (auto simp: word_at_def items_def new_def lo_def hi_def)
    then have "uval q = seg q 0 ?m"
      unfolding uval_seg using r(3) num_words_le [of x] by (intro seg_zeros) auto
    then show ?thesis using single r estimate_too_largeD [of x d] by (auto simp: u256_div_def Let_def uval_new)
  next
    case long
    define s where "s = leading_zeros (items d ! (?n - 1))"
    note nd = normalised_divisor [OF n0 s_def]
    define carry where "carry = (if ?m = 4 \<and> leading_zeros (items x ! (?m - 1)) < s
                     then drop_bit (64 - s) (items x ! (?m - 1)) else 0)"
    note nx = normalised_dividend [OF long(1) nd(1), folded carry_def]
    let ?T = "uval x * 2 ^ s" and ?V = "uval d * 2 ^ s" and ?r = "?m - ?n + 1"
    have m4: "?m \<le> 4" "?n \<le> 4" by (simp_all add: num_words_le)
    have rn: "?r + ?n - 1 = ?m" "?r + ?n \<le> 5" "?r + ?n = Suc ?m" using long m4 by simp_all
    have lt: "?T < B64 ^ ?r * ?V"
    proof -
      have "uval x < B64 ^ ?m" using num_words_less [of x] by (simp add: power_mult)
      also have "B64 ^ ?m = B64 ^ ?r * B64 ^ (?n - 1)"
      proof -
        have "?m = ?r + (?n - 1)" using long by simp
        then show ?thesis by (metis power_add)
      qed
      also have "\<dots> \<le> B64 ^ ?r * uval d" using num_words_ge [OF n0] by (simp add: power_mult)
      finally show ?thesis by simp
    qed
    have z: "\<forall>i < 4. ?r + ?n \<le> i \<longrightarrow> word_at (shift_left x s) i = 0" using nx(2) rn by auto
    have gw: "get_word d (?n - 1) = Inr (items d ! (?n - 1))" "get_word x (?m - 1) = Inr (items x ! (?m - 1))"
      using m4 long by (simp_all add: get_word_items)
    have run: "u256_div x d rem = and_then (div_rounds ?n (shift_left d s) (rev [0..<?r]) (shift_left x s) carry (new 0 0))
        (\<lambda>(quot, remainder). Inr (quot, if rem then shift_right remainder s else new 0 0))"
      unfolding u256_div_def Let_def gw and_then_simps s_def carry_def NUM_WORDS_def using long by simp
    have z0: "word_at (new 0 0) i = 0" if "i < 4" for i
      using less_4_cases [OF that] by (auto simp: word_at_def items_def new_def lo_def hi_def)
    have tw: "?T = window 0 (?r + ?n - 1) (shift_left x s) carry" unfolding rn(1) by (rule nx(1) [symmetric])
    have est: "estimate_too_large x d \<longleftrightarrow> ?r + ?n = 5 \<and> 3 \<le> ?n
      \<and> ?T div B64 ^ (?r - 1) div ?V < digit_estimate ?n (?T div B64 ^ (?r - 1)) ?V"
      using rn long by (auto simp: estimate_too_large_def Let_def s_def)
    from div_rounds_val [OF long(2) m4(2) nd(4) nd(3) [symmetric] rn(2) tw lt z, of "new 0 0"]
    show ?thesis
    proof (elim disjE conjE exE)
      fix quot' d'
      assume a: "div_rounds ?n (shift_left d s) (rev [0..<?r]) (shift_left x s) carry (new 0 0) = Inr (quot', d')"
        "seg quot' 0 ?r = ?T div ?V" "\<forall>i < 4. ?r \<le> i \<longrightarrow> word_at quot' i = word_at (new 0 0) i"
        "uval d' = ?T mod ?V"
        "?r + ?n = 5 \<longrightarrow> digit_estimate ?n (?T div B64 ^ (?r - 1)) ?V = ?T div B64 ^ (?r - 1) div ?V"
      have "uval quot' = seg quot' 0 ?r"
        unfolding uval_seg using a(3) z0 long m4 by (intro seg_zeros) auto
      then have q: "uval quot' = uval x div uval d" using a(2) by simp
      have r: "uval (shift_right d' s) = uval x mod uval d"
        unfolding shift_right_val a(4) by (simp add: mult_mod_left [symmetric])
      show ?thesis unfolding run a(1) and_then_simps prod.case using a(5) by (intro disjI1) (simp add: q r est)
    next
      assume a: "div_rounds ?n (shift_left d s) (rev [0..<?r]) (shift_left x s) carry (new 0 0) = Inl Panic"
        "?r + ?n = 5" "?T div B64 ^ (?r - 1) div ?V < digit_estimate ?n (?T div B64 ^ (?r - 1)) ?V"
      have "?n \<noteq> 2"
      proof
        assume n2: "?n = 2"
        have "?r - 1 = 2" "?r = 3" using a(2) n2 by simp_all
        then have "?T < B64 ^ 2 * (B64 * ?V)" using lt by (simp add: power3_eq_cube power2_eq_square)
        then have "?T div B64 ^ 2 < B64 * ?V" by (simp add: less_mult_imp_div_less mult.commute)
        from digit_estimate_2 [OF this] show False using a(3) n2 \<open>?r - 1 = 2\<close> by simp
      qed
      then show ?thesis unfolding run a(1) and_then_simps using a(2,3) long by (simp add: est)
    qed
  qed
qed

lemma u256_div_Inr:
  assumes "u256_div x d rem = Inr (q, r)"
  shows "0 < uval d" "uval q = uval x div uval d" "uval r = (if rem then uval x mod uval d else 0)"
proof -
  show d: "0 < uval d"
    using assms num_words_0_iff [of d] by (auto simp: u256_div_def Let_def split: if_splits intro: gr0I)
  show "uval q = uval x div uval d" "uval r = (if rem then uval x mod uval d else 0)"
    using u256_div_cases [OF d, of x rem] assms by auto
qed

lemma u256_div_total:
  assumes "0 < uval d" "num_words x < 4 \<or> num_words d < 3"
  shows "\<exists>q r. u256_div x d rem = Inr (q, r)"
  using u256_div_cases [OF assms(1), of x rem] assms(2) estimate_too_largeD [of x d] by auto

lemma u256_div_panics: "u256_div x d rem = Inl Panic \<longleftrightarrow> uval d = 0 \<or> estimate_too_large x d"
  using u256_div_cases [of d x rem] num_words_0_iff [of d]
  by (cases "uval d = 0") (auto simp: u256_div_def Let_def)

lemma u256_div_Inl: "u256_div x d rem = Inl e \<Longrightarrow> e = Panic"
  using u256_div_cases [of d x rem] num_words_0_iff [of d]
  by (cases "uval d = 0") (auto simp: u256_div_def Let_def)

subsection \<open>The contract of wide division\<close>

text \<open>
  The callers of the division (\<open>bit_math\<close>, \<open>token_math\<close>) rely on nothing but this contract: a
  call that returns has computed the floor of the quotient, and the remainder where it was asked
  for; a call that does not return panics.  What they make of it, the quotient rounded up or down
  and narrowed to 128 bits, is proved from the contract.
\<close>

locale wide_division =
  fixes wdiv :: "U256Muldiv \<Rightarrow> U256Muldiv \<Rightarrow> bool \<Rightarrow> (U256Muldiv \<times> U256Muldiv) result"
  assumes wdiv_divisor: "wdiv n d rem = Inr (q, r) \<Longrightarrow> 0 < uval d"
    and wdiv_quotient: "wdiv n d rem = Inr (q, r) \<Longrightarrow> uval q = uval n div uval d"
    and wdiv_remainder: "wdiv n d rem = Inr (q, r) \<Longrightarrow> uval r = (if rem then uval n mod uval d else 0)"
    and wdiv_error: "wdiv n d rem = Inl e \<Longrightarrow> e = Panic"
begin

definition rounded :: "bool \<Rightarrow> U256Muldiv \<Rightarrow> U256Muldiv \<Rightarrow> U256Muldiv" where
  "rounded up q r = (if up \<and> \<not> is_zero r then u256_add q (new 0 1) else q)"

lemma uval_rounded:
  assumes "wdiv n d up = Inr (q, r)"
  shows "uval (rounded up q r) = round_div up (uval n) (uval d)"
proof (cases "up \<and> \<not> is_zero r")
  case True
  note q = wdiv_quotient [OF assms] and r = wdiv_remainder [OF assms] and d = wdiv_divisor [OF assms]
  have "uval n mod uval d > 0" using True unfolding is_zero_val r by (auto split: if_splits)
  then have "2 \<le> uval d" using d by (cases "uval d = 1") auto
  then have "uval n div uval d \<le> uval n div 2" by (rule div_le_mono2 [rotated]) simp
  then have "uval q + 1 < 2 ^ 256" using q uval_less [of n] by simp
  then have "uval (u256_add q (new 0 1)) = uval q + 1" by (simp add: u256_add_val uval_new)
  then show ?thesis using True q r by (simp add: rounded_def round_div_def ceil_div_def is_zero_val)
next
  case False
  then show ?thesis using wdiv_quotient [OF assms] wdiv_remainder [OF assms]
    by (auto simp: rounded_def round_div_def ceil_div_def is_zero_val)
qed

lemma rounded_Inr_iff:
  assumes "wdiv n d up = Inr (q, r)"
  shows "try_into_u128 (rounded up q r) = Inr y \<longleftrightarrow> unat y = round_div up (uval n) (uval d)"
  by (simp add: try_into_u128_Inr_iff uval_rounded [OF assms])

lemma rounded_Inl_iff:
  assumes "wdiv n d up = Inr (q, r)"
  shows "try_into_u128 (rounded up q r) = Inl e
    \<longleftrightarrow> e = Err NumberDownCastError \<and> 2 ^ 128 \<le> round_div up (uval n) (uval d)"
  by (simp add: try_into_u128_Inl_iff uval_rounded [OF assms])

end

interpretation wide: wide_division u256_div
  by unfold_locales (use u256_div_Inr u256_div_Inl in blast)+

lemma wide_rounded_unfold:
  "(if up \<and> \<not> is_zero r then u256_add q (new 0 1) else q) = wide.rounded up q r"
  by (simp add: wide.rounded_def)

end
