(* ===== verification/Bit_Math.thy ===== *)
theory Bit_Math
  imports U256_Div
begin

text \<open>
  \<open>math/bit_math.rs\<close> and \<open>math/liquidity_math.rs\<close>: multiplication followed by a division or a
  shift with the rounding chosen by the caller, and the signed liquidity changes.  Each
  operation is characterised on both outcomes, by the exact rounded quotient of the numbers when
  it returns and by its error code when it does not.
\<close>

abbreviation Q64_RESOLUTION :: nat where "Q64_RESOLUTION \<equiv> 64"

definition TO_Q64 :: u128 where "TO_Q64 = push_bit Q64_RESOLUTION 1"

definition Q64_MASK :: u128 where "Q64_MASK = 0xFFFFFFFFFFFFFFFF"

definition checked_mul_div_round_up_if :: "u128 \<Rightarrow> u128 \<Rightarrow> u128 \<Rightarrow> bool \<Rightarrow> u128 result" where
  "checked_mul_div_round_up_if n0 n1 d round_up =
     (if d = 0 then Inl (Err DivideByZero)
      else and_then (ok_or (checked_mul n0 n1) MulDivOverflow) (\<lambda>p.
        let n = p div d in
        Inr (if round_up \<and> p mod d > 0 then n + 1 else n)))"

definition checked_mul_div :: "u128 \<Rightarrow> u128 \<Rightarrow> u128 \<Rightarrow> u128 result" where
  "checked_mul_div n0 n1 d = checked_mul_div_round_up_if n0 n1 d False"

definition checked_mul_div_round_up :: "u128 \<Rightarrow> u128 \<Rightarrow> u128 \<Rightarrow> u128 result" where
  "checked_mul_div_round_up n0 n1 d = checked_mul_div_round_up_if n0 n1 d True"

definition checked_mul_shift_right_round_up_if :: "u128 \<Rightarrow> u128 \<Rightarrow> bool \<Rightarrow> u64 result" where
  "checked_mul_shift_right_round_up_if n0 n1 round_up =
     (if n0 = 0 \<or> n1 = 0 then Inr 0
      else and_then (ok_or (checked_mul n0 n1) MultiplicationShiftRightOverflow) (\<lambda>p.
        let shifted = (ucast (drop_bit Q64_RESOLUTION p) :: u64);
            should_round = (round_up \<and> p AND Q64_MASK > 0) in
        if should_round \<and> shifted = u64_MAX then Inl (Err MultiplicationOverflow)
        else Inr (if should_round then shifted + 1 else shifted)))"

definition checked_mul_shift_right :: "u128 \<Rightarrow> u128 \<Rightarrow> u64 result" where
  "checked_mul_shift_right n0 n1 = checked_mul_shift_right_round_up_if n0 n1 False"

definition div_round_up_if :: "u128 \<Rightarrow> u128 \<Rightarrow> bool \<Rightarrow> u128 result" where
  "div_round_up_if n d round_up =
     (if d = 0 then Inl (Err DivideByZero)
      else let q = n div d in Inr (if round_up \<and> n mod d > 0 then q + 1 else q))"

definition div_round_up :: "u128 \<Rightarrow> u128 \<Rightarrow> u128 result" where
  "div_round_up n d = div_round_up_if n d True"

definition div_round_up_if_u256 :: "U256Muldiv \<Rightarrow> U256Muldiv \<Rightarrow> bool \<Rightarrow> u128 result" where
  "div_round_up_if_u256 n d round_up =
     and_then (u256_div n d round_up) (\<lambda>(quot, remainder).
       try_into_u128 (if round_up \<and> \<not> is_zero remainder then u256_add quot (new 0 1) else quot))"

subsection \<open>Signed liquidity changes\<close>

text \<open>
  The cast of a non-negative \<open>i128\<close> to \<open>u128\<close> keeps the number.  \<open>delta.abs()\<close> of \<open>i128::MIN\<close>
  wraps to \<open>i128::MIN\<close>, whose cast is \<open>2 ^ 127\<close>: \<open>of_int\<close> of the absolute value is the cast in
  that case as well.
\<close>

definition add_liquidity_delta :: "u128 \<Rightarrow> i128 \<Rightarrow> u128 result" where
  "add_liquidity_delta liquidity delta =
     (if delta = 0 then Inr liquidity
      else if delta > 0 then ok_or (checked_add liquidity (of_int delta)) LiquidityOverflow
      else ok_or (checked_sub liquidity (of_int (to_i128 \<bar>delta\<bar>))) LiquidityUnderflow)"

definition convert_to_liquidity_delta :: "u128 \<Rightarrow> bool \<Rightarrow> i128 result" where
  "convert_to_liquidity_delta liquidity_amount positive =
     (if liquidity_amount > word_of_int i128_MAX then Inl (Err LiquidityTooHigh)
      else Inr (if positive then uint liquidity_amount else - uint liquidity_amount))"

section \<open>Rounded quotients\<close>

lemma unat_round_up_if:
  fixes p d :: "'a::len word"
  assumes "d \<noteq> 0"
  shows "unat (if up \<and> p mod d > 0 then p div d + 1 else p div d) = round_div up (unat p) (unat d)"
proof (cases "up \<and> p mod d > 0")
  case True
  have d: "0 < unat d" using assms by (simp add: unat_gt_0)
  have m: "unat p mod unat d > 0" using True by (simp add: word_less_nat_alt unat_mod_distrib)
  then have "2 \<le> unat d" using d by (cases "unat d = 1") auto
  then have "unat p div unat d \<le> unat p div 2" by (rule div_le_mono2 [rotated]) simp
  moreover have "unat p < 2 ^ LENGTH('a)" by (rule unsigned_less)
  moreover have "0 < unat p" using m by (intro gr0I notI) (metis less_irrefl mod_0)
  ultimately have "unat p div unat d + 1 < 2 ^ LENGTH('a)" by linarith
  then have "unat (p div d) + unat (1 :: 'a word) < 2 ^ LENGTH('a)"
    by (simp add: unat_div_distrib)
  then have "unat (p div d + 1) = unat p div unat d + 1"
    by (simp add: unat_add_nowrap unat_div_distrib)
  then show ?thesis using True m by (simp add: round_div_def ceil_div_def)
next
  case False
  then show ?thesis
    by (auto simp: round_div_def ceil_div_def unat_div_distrib unat_mod_distrib word_less_nat_alt
        simp flip: unat_mod_distrib)
qed

lemma div_round_up_if_Inr_iff:
  "div_round_up_if n d up = Inr q \<longleftrightarrow> d \<noteq> 0 \<and> unat q = round_div up (unat n) (unat d)"
proof (cases "d = 0")
  case False
  then have "div_round_up_if n d up = Inr q \<longleftrightarrow> q = (if up \<and> n mod d > 0 then n div d + 1 else n div d)"
    unfolding div_round_up_if_def Let_def by auto
  then show ?thesis using False unfolding word_unat_eq_iff [of q] unat_round_up_if [OF False] by simp
qed (simp add: div_round_up_if_def)

lemma div_round_up_if_Inl_iff:
  "div_round_up_if n d up = Inl e \<longleftrightarrow> d = 0 \<and> e = Err DivideByZero"
  by (auto simp: div_round_up_if_def Let_def)

lemma checked_mul_div_Inr_iff:
  "checked_mul_div_round_up_if n0 n1 d up = Inr q \<longleftrightarrow>
     d \<noteq> 0 \<and> unat n0 * unat n1 < 2 ^ 128 \<and> unat q = round_div up (unat n0 * unat n1) (unat d)"
proof (cases "d \<noteq> 0 \<and> unat n0 * unat n1 < 2 ^ 128")
  case True
  then have p: "unat (n0 * n1) = unat n0 * unat n1" by (intro unat_mult_nowrap) simp
  have "checked_mul_div_round_up_if n0 n1 d up = Inr q \<longleftrightarrow>
      q = (if up \<and> n0 * n1 mod d > 0 then n0 * n1 div d + 1 else n0 * n1 div d)"
    using True unfolding checked_mul_div_round_up_if_def checked_mul_def Let_def by auto
  then show ?thesis
    using True unfolding word_unat_eq_iff [of q] unat_round_up_if [OF conjunct1 [OF True]] p by simp
qed (auto simp: checked_mul_div_round_up_if_def checked_mul_def)

lemma checked_mul_div_Inl_iff:
  "checked_mul_div_round_up_if n0 n1 d up = Inl e \<longleftrightarrow>
     (if d = 0 then e = Err DivideByZero
      else 2 ^ 128 \<le> unat n0 * unat n1 \<and> e = Err MulDivOverflow)"
  by (auto simp: checked_mul_div_round_up_if_def checked_mul_def Let_def)

lemma div_round_up_if_u256_Inr_iff:
  "div_round_up_if_u256 n d up = Inr y \<longleftrightarrow>
     (\<exists>q r. u256_div n d up = Inr (q, r)) \<and> unat y = round_div up (uval n) (uval d)"
  by (auto simp: div_round_up_if_u256_def wide_rounded_unfold and_then_Inr_iff
      dest: wide.rounded_Inr_iff [THEN iffD1, rotated] intro: wide.rounded_Inr_iff [THEN iffD2])

lemma div_round_up_if_u256_Inl:
  "div_round_up_if_u256 n d up = Inl e \<Longrightarrow>
     e = Panic \<or> (e = Err NumberDownCastError \<and> 2 ^ 128 \<le> round_div up (uval n) (uval d))"
  by (auto simp: div_round_up_if_u256_def wide_rounded_unfold and_then_Inl_iff
      dest: wide.wdiv_error wide.rounded_Inl_iff [THEN iffD1, rotated])

section \<open>Products of fixed-point numbers\<close>

lemma ceil_div_exp: "ceil_div p (2 ^ 64) = p div 2 ^ 64 + (if p mod 2 ^ 64 > 0 then 1 else 0)"
  by (simp add: ceil_div_def)

lemma checked_mul_shift_right_cases:
  fixes n0 n1 :: u128
  defines "p \<equiv> unat n0 * unat n1"
  shows "checked_mul_shift_right_round_up_if n0 n1 up =
     (if 2 ^ 128 \<le> p then Inl (Err MultiplicationShiftRightOverflow)
      else if round_div up p (2 ^ 64) = 2 ^ 64 then Inl (Err MultiplicationOverflow)
      else Inr (of_nat (round_div up p (2 ^ 64))))"
proof (cases "n0 = 0 \<or> n1 = 0")
  case True
  then have "p = 0" by (auto simp: p_def)
  then show ?thesis using True by (simp add: checked_mul_shift_right_round_up_if_def)
next
  case False
  show ?thesis
  proof (cases "2 ^ 128 \<le> p")
    case True
    then show ?thesis using False
      by (simp add: checked_mul_shift_right_round_up_if_def checked_mul_def p_def)
  next
    case lt: False
    define s :: u64 where "s = ucast (drop_bit 64 (n0 * n1))"
    have pv: "unat (n0 * n1) = p" unfolding p_def using lt by (intro unat_mult_nowrap) (simp add: p_def)
    have hs: "unat s = p div 2 ^ 64"
      unfolding s_def using lt by (simp add: unat_ucast_128_64 unat_drop_bit pv)
    have mv: "(n0 * n1) AND Q64_MASK > 0 \<longleftrightarrow> p mod 2 ^ 64 > 0"
      using unat_and_mask [of "n0 * n1" 64]
      by (simp add: Q64_MASK_def mask64 word_less_nat_alt pv)
    have sm: "s = u64_MAX \<longleftrightarrow> p div 2 ^ 64 = 2 ^ 64 - 1" by (simp add: word_unat_eq_iff hs)
    have s: "s = of_nat (p div 2 ^ 64)" unfolding hs [symmetric] by simp
    have run: "checked_mul_shift_right_round_up_if n0 n1 up =
        (if up \<and> p mod 2 ^ 64 > 0 \<and> p div 2 ^ 64 = 2 ^ 64 - 1 then Inl (Err MultiplicationOverflow)
         else Inr (if up \<and> p mod 2 ^ 64 > 0 then s + 1 else s))"
      using False lt by (simp add: checked_mul_shift_right_round_up_if_def checked_mul_def Let_def
          s_def [symmetric] mv sm p_def [symmetric])
    have "p div 2 ^ 64 < 2 ^ 64" using lt by (simp add: div_less_iff_less_mult)
    then show ?thesis unfolding run using lt
      by (auto simp: round_div_def ceil_div_def s)
  qed
qed

lemma checked_mul_shift_right_Inr_iff:
  "checked_mul_shift_right_round_up_if n0 n1 up = Inr q \<longleftrightarrow>
     unat n0 * unat n1 < 2 ^ 128 \<and> unat q = round_div up (unat n0 * unat n1) (2 ^ 64)"
proof -
  let ?p = "unat n0 * unat n1"
  have "round_div up ?p (2 ^ 64) \<le> 2 ^ 64" if "?p < 2 ^ 128"
    using that ceil_div_le_iff [of "2 ^ 64" ?p "2 ^ 64"] div_le_ceil_div [of ?p "2 ^ 64"]
    by (auto simp: round_div_def)
  then have "unat (of_nat (round_div up ?p (2 ^ 64)) :: u64) = round_div up ?p (2 ^ 64)"
    if "?p < 2 ^ 128" "round_div up ?p (2 ^ 64) \<noteq> 2 ^ 64"
    using that(1) that(2) \<open>?p < 2 ^ 128 \<Longrightarrow> round_div up ?p (2 ^ 64) \<le> 2 ^ 64\<close>
    by (simp add: unat_of_nat take_bit_nat_eq_self_iff [symmetric] take_bit_eq_mod)
  moreover have "unat q \<noteq> 2 ^ 64" using unat_u64_less [of q] by simp
  ultimately show ?thesis
    unfolding checked_mul_shift_right_cases by (auto simp: word_unat_eq_iff)
qed

lemma checked_mul_shift_right_Inl_iff:
  "checked_mul_shift_right_round_up_if n0 n1 up = Inl e \<longleftrightarrow>
     (if 2 ^ 128 \<le> unat n0 * unat n1 then e = Err MultiplicationShiftRightOverflow
      else round_div up (unat n0 * unat n1) (2 ^ 64) = 2 ^ 64 \<and> e = Err MultiplicationOverflow)"
  by (auto simp: checked_mul_shift_right_cases)

section \<open>Liquidity changes\<close>

lemma unat_of_int_u128: "0 \<le> x \<Longrightarrow> x < 2 ^ 128 \<Longrightarrow> unat (of_int x :: u128) = nat x"
  by (simp add: unat_eq_nat_uint uint_word_of_int_eq take_bit_int_eq_self)

lemma of_int_abs_i128:
  assumes "in_i128 d" "d < 0"
  shows "unat (of_int (to_i128 \<bar>d\<bar>) :: u128) = nat (- d)"
proof (cases "d = - (2 ^ 127)")
  case True
  then show ?thesis by (simp add: wrap_signed_def)
next
  case False
  then have "in_i128 \<bar>d\<bar>" using assms by (auto simp: in_i128_def)
  then have "to_i128 \<bar>d\<bar> = - d" using assms by (simp add: to_i128_id)
  then show ?thesis using assms unat_of_int_u128 [of "- d"] by (simp only:) (simp add: in_i128_def)
qed

lemma add_liquidity_delta_Inr_iff:
  assumes "in_i128 d"
  shows "add_liquidity_delta l d = Inr l' \<longleftrightarrow> uint l' = uint l + d"
proof -
  have u: "uint x = int (unat x)" for x :: u128 by simp
  consider "d = 0" | "0 < d" | "d < 0" by linarith
  then show ?thesis
  proof cases
    case 1
    then show ?thesis by (auto simp: add_liquidity_delta_def word_uint_eq_iff)
  next
    case 2
    then have "unat (of_int d :: u128) = nat d"
      using assms by (intro unat_of_int_u128) (simp_all add: in_i128_def)
    then have "add_liquidity_delta l d = Inr l' \<longleftrightarrow> unat l' = unat l + nat d"
      using 2 by (simp add: add_liquidity_delta_def ok_or_Inr_iff checked_add_Some_iff)
    then show ?thesis using 2 by (simp only: u) arith
  next
    case 3
    then have "add_liquidity_delta l d = Inr l' \<longleftrightarrow> unat l = nat (- d) + unat l'"
      using of_int_abs_i128 [OF assms 3]
      by (simp add: add_liquidity_delta_def ok_or_Inr_iff checked_sub_Some_iff)
    then show ?thesis using 3 by (simp only: u) arith
  qed
qed

lemma add_liquidity_delta_Inl_iff:
  assumes "in_i128 d"
  shows "add_liquidity_delta l d = Inl e \<longleftrightarrow>
    (2 ^ 128 \<le> uint l + d \<and> e = Err LiquidityOverflow) \<or> (uint l + d < 0 \<and> e = Err LiquidityUnderflow)"
proof -
  have u: "uint x = int (unat x)" for x :: u128 by simp
  have l: "unat l < 2 ^ 128" using unat_u128_less [of l] by simp
  consider "d = 0" | "0 < d" | "d < 0" by linarith
  then show ?thesis
  proof cases
    case 1
    then show ?thesis using uint_lt2p [of l] by (auto simp: add_liquidity_delta_def)
  next
    case 2
    then have "unat (of_int d :: u128) = nat d"
      using assms by (intro unat_of_int_u128) (simp_all add: in_i128_def)
    then have "add_liquidity_delta l d = Inl e \<longleftrightarrow> 2 ^ 128 \<le> unat l + nat d \<and> e = Err LiquidityOverflow"
      using 2 by (auto simp: add_liquidity_delta_def ok_or_Inl_iff checked_add_None_iff)
    moreover have "340282366920938463463374607431768211456 \<le> unat l + nat d
        \<longleftrightarrow> 340282366920938463463374607431768211456 \<le> uint l + d" "\<not> uint l + d < 0"
      using 2 by (simp_all only: u) arith+
    ultimately show ?thesis by simp
  next
    case 3
    then have "add_liquidity_delta l d = Inl e \<longleftrightarrow> unat l < nat (- d) \<and> e = Err LiquidityUnderflow"
      using of_int_abs_i128 [OF assms 3]
      by (auto simp: add_liquidity_delta_def ok_or_Inl_iff checked_sub_None_iff)
    moreover have "unat l < nat (- d) \<longleftrightarrow> uint l + d < 0"
      "\<not> 340282366920938463463374607431768211456 \<le> uint l + d"
      using 3 unat_u128_less [of l] by (simp_all only: u) arith+
    ultimately show ?thesis by simp
  qed
qed

lemma convert_to_liquidity_delta_Inr_iff:
  "convert_to_liquidity_delta a pos = Inr d \<longleftrightarrow>
     uint a < 2 ^ 127 \<and> d = (if pos then uint a else - uint a)"
  by (auto simp: convert_to_liquidity_delta_def word_less_def)

lemma convert_to_liquidity_delta_in_i128:
  "convert_to_liquidity_delta a pos = Inr d \<Longrightarrow> in_i128 d"
proof -
  assume a: "convert_to_liquidity_delta a pos = Inr d"
  have "0 \<le> uint a" "(0::int) < 2 ^ 127" by simp_all
  then show ?thesis using a unfolding convert_to_liquidity_delta_Inr_iff in_i128_def
    by (cases pos; simp only: if_True if_False; elim conjE; intro conjI; linarith)
qed

end
