(* ===== verification/Token_Math.thy ===== *)
theory Token_Math
  imports Bit_Math
begin

text \<open>
  \<open>math/token_math.rs\<close>: the amounts of the two tokens that a range of prices is worth, and the
  price that an amount of a token moves the pool to.  Prices are square roots in Q64.64 and
  liquidity is an integer, so the real quantities are the quotients \<open>amount_a\<close>, \<open>amount_b\<close>
  below, over the naturals, with the rounding made explicit; the operations on words are proved
  to compute exactly these or to fail.
\<close>

definition MAX_FEE_RATE :: u16 where "MAX_FEE_RATE = 10000"
definition FEE_RATE_MUL_VALUE :: u128 where "FEE_RATE_MUL_VALUE = 1000000"
definition MAX_PROTOCOL_FEE_RATE :: u16 where "MAX_PROTOCOL_FEE_RATE = 2500"
definition PROTOCOL_FEE_RATE_MUL_VALUE :: u128 where "PROTOCOL_FEE_RATE_MUL_VALUE = 10000"

text \<open>The bounds of the price, from \<open>math/tick_math.rs\<close>.\<close>

definition MAX_SQRT_PRICE_X64 :: u128 where "MAX_SQRT_PRICE_X64 = 79226673515401279992447579055"
definition MIN_SQRT_PRICE_X64 :: u128 where "MIN_SQRT_PRICE_X64 = 4295048016"

definition increasing_price_order :: "u128 \<Rightarrow> u128 \<Rightarrow> u128 \<times> u128" where
  "increasing_price_order sqrt_price_0 sqrt_price_1 =
     (if sqrt_price_0 > sqrt_price_1 then (sqrt_price_1, sqrt_price_0)
      else (sqrt_price_0, sqrt_price_1))"

definition get_amount_delta_a :: "u128 \<Rightarrow> u128 \<Rightarrow> u128 \<Rightarrow> bool \<Rightarrow> u64 result" where
  "get_amount_delta_a sqrt_price_0 sqrt_price_1 liquidity round_up =
     (let (sqrt_price_lower, sqrt_price_upper) = increasing_price_order sqrt_price_0 sqrt_price_1;
          sqrt_price_diff = sqrt_price_upper - sqrt_price_lower in
      and_then (ok_or (checked_shift_word_left (mul_u256 liquidity sqrt_price_diff)) MultiplicationOverflow)
        (\<lambda>numerator.
      let denominator = mul_u256 sqrt_price_upper sqrt_price_lower in
      and_then (u256_div numerator denominator round_up) (\<lambda>(quot, remainder).
      and_then (try_into_u128 (if round_up \<and> \<not> is_zero remainder then u256_add quot (new 0 1) else quot))
        (\<lambda>amount.
      if amount > ucast u64_MAX then Inl (Err TokenMaxExceeded) else Inr (ucast amount)))))"

definition get_amount_delta_b :: "u128 \<Rightarrow> u128 \<Rightarrow> u128 \<Rightarrow> bool \<Rightarrow> u64 result" where
  "get_amount_delta_b sqrt_price_0 sqrt_price_1 liquidity round_up =
     (let (price_lower, price_upper) = increasing_price_order sqrt_price_0 sqrt_price_1 in
      checked_mul_shift_right_round_up_if liquidity (price_upper - price_lower) round_up)"

definition get_next_sqrt_price_from_a_round_up :: "u128 \<Rightarrow> u128 \<Rightarrow> u64 \<Rightarrow> bool \<Rightarrow> u128 result" where
  "get_next_sqrt_price_from_a_round_up sqrt_price liquidity amount amount_specified_is_input =
     (if amount = 0 then Inr sqrt_price
      else let product = mul_u256 sqrt_price (ucast amount) in
      and_then (ok_or (checked_shift_word_left (mul_u256 liquidity sqrt_price)) MultiplicationOverflow)
        (\<lambda>numerator.
      let liquidity_shift_left = shift_word_left (new 0 liquidity) in
      if \<not> amount_specified_is_input \<and> u256_lte liquidity_shift_left product then Inl (Err DivideByZero)
      else
        let denominator = (if amount_specified_is_input then u256_add liquidity_shift_left product
                           else u256_sub liquidity_shift_left product) in
        and_then (div_round_up_if_u256 numerator denominator True) (\<lambda>price.
        if price < MIN_SQRT_PRICE_X64 then Inl (Err TokenMinSubceeded)
        else if price > MAX_SQRT_PRICE_X64 then Inl (Err TokenMaxExceeded)
        else Inr price)))"

definition get_next_sqrt_price_from_b_round_down :: "u128 \<Rightarrow> u128 \<Rightarrow> u64 \<Rightarrow> bool \<Rightarrow> u128 result" where
  "get_next_sqrt_price_from_b_round_down sqrt_price liquidity amount amount_specified_is_input =
     (let amount_x64 = push_bit Q64_RESOLUTION (ucast amount :: u128) in
      and_then (div_round_up_if amount_x64 liquidity (\<not> amount_specified_is_input)) (\<lambda>delta.
      if amount_specified_is_input then ok_or (checked_add sqrt_price delta) SqrtPriceOutOfBounds
      else ok_or (checked_sub sqrt_price delta) SqrtPriceOutOfBounds))"

definition get_next_sqrt_price :: "u128 \<Rightarrow> u128 \<Rightarrow> u64 \<Rightarrow> bool \<Rightarrow> bool \<Rightarrow> u128 result" where
  "get_next_sqrt_price sqrt_price liquidity amount amount_specified_is_input a_to_b =
     (if amount_specified_is_input = a_to_b
      then get_next_sqrt_price_from_a_round_up sqrt_price liquidity amount amount_specified_is_input
      else get_next_sqrt_price_from_b_round_down sqrt_price liquidity amount amount_specified_is_input)"

section \<open>The amounts of a price range\<close>

text \<open>The exact amounts: a range of prices \<open>p\<close>, \<open>q\<close> with liquidity \<open>l\<close>, rounded up or down.\<close>

definition amount_a :: "bool \<Rightarrow> nat \<Rightarrow> nat \<Rightarrow> nat \<Rightarrow> nat" where
  "amount_a up p q l = round_div up (l * (max p q - min p q) * 2 ^ 64) (p * q)"

definition amount_b :: "bool \<Rightarrow> nat \<Rightarrow> nat \<Rightarrow> nat \<Rightarrow> nat" where
  "amount_b up p q l = round_div up (l * (max p q - min p q)) (2 ^ 64)"

lemma increasing_price_order_vals:
  "unat (fst (increasing_price_order p q)) = min (unat p) (unat q)"
  "unat (snd (increasing_price_order p q)) = max (unat p) (unat q)"
  "unat (snd (increasing_price_order p q) - fst (increasing_price_order p q))
     = max (unat p) (unat q) - min (unat p) (unat q)"
  by (auto simp: increasing_price_order_def word_less_nat_alt unat_sub_nowrap)

lemma amount_commute:
  "amount_a up p q l = amount_a up q p l" "amount_b up p q l = amount_b up q p l"
  by (simp_all add: amount_a_def amount_b_def max.commute min.commute mult.commute)

lemma get_amount_delta_commute:
  "get_amount_delta_a p q l up = get_amount_delta_a q p l up"
  "get_amount_delta_b p q l up = get_amount_delta_b q p l up"
proof -
  have "increasing_price_order p q = increasing_price_order q p"
    by (auto simp: increasing_price_order_def)
  then show "get_amount_delta_a p q l up = get_amount_delta_a q p l up"
    "get_amount_delta_b p q l up = get_amount_delta_b q p l up"
    by (simp_all add: get_amount_delta_a_def get_amount_delta_b_def)
qed

lemma get_amount_delta_b_Inr_iff:
  "get_amount_delta_b p q l up = Inr r \<longleftrightarrow>
     unat l * (max (unat p) (unat q) - min (unat p) (unat q)) < 2 ^ 128
     \<and> unat r = amount_b up (unat p) (unat q) (unat l)"
  by (simp add: get_amount_delta_b_def case_prod_beta checked_mul_shift_right_Inr_iff
      increasing_price_order_vals amount_b_def)

lemma get_amount_delta_b_Inl_iff:
  "get_amount_delta_b p q l up = Inl e \<longleftrightarrow>
     (if 2 ^ 128 \<le> unat l * (max (unat p) (unat q) - min (unat p) (unat q))
      then e = Err MultiplicationShiftRightOverflow
      else amount_b up (unat p) (unat q) (unat l) = 2 ^ 64 \<and> e = Err MultiplicationOverflow)"
  by (simp add: get_amount_delta_b_def case_prod_beta checked_mul_shift_right_Inl_iff
      increasing_price_order_vals amount_b_def)

text \<open>The wide numerator and denominator of the amount of token a.\<close>

lemma delta_a_numerator:
  assumes "checked_shift_word_left (mul_u256 l (snd (increasing_price_order p q) - fst (increasing_price_order p q)))
     = Some n"
  shows "uval n = unat l * (max (unat p) (unat q) - min (unat p) (unat q)) * 2 ^ 64"
  using assms by (simp add: checked_shift_word_left_Some_iff mul_u256_val increasing_price_order_vals)

lemma delta_a_denominator:
  "uval (mul_u256 (snd (increasing_price_order p q)) (fst (increasing_price_order p q))) = unat p * unat q"
  by (simp add: mul_u256_val increasing_price_order_vals max_def min_def mult.commute)

lemma get_amount_delta_a_Inr:
  assumes "get_amount_delta_a p q l up = Inr r"
  shows "p \<noteq> 0" "q \<noteq> 0" "unat r = amount_a up (unat p) (unat q) (unat l)"
proof -
  let ?o = "increasing_price_order p q"
  obtain n quot m y where n: "checked_shift_word_left (mul_u256 l (snd ?o - fst ?o)) = Some n"
    and d: "u256_div n (mul_u256 (snd ?o) (fst ?o)) up = Inr (quot, m)"
    and y: "try_into_u128 (wide.rounded up quot m) = Inr y" "\<not> y > ucast u64_MAX" "r = ucast y"
    using assms
    by (auto simp: get_amount_delta_a_def case_prod_beta Let_def wide_rounded_unfold ok_iffs split: if_splits)
  have dp: "0 < unat p * unat q" using wide.wdiv_divisor [OF d] by (simp add: delta_a_denominator)
  then show "p \<noteq> 0" "q \<noteq> 0" by auto
  have "unat y = amount_a up (unat p) (unat q) (unat l)"
    using wide.rounded_Inr_iff [OF d, of y] y(1)
    by (simp add: delta_a_numerator [OF n] delta_a_denominator amount_a_def)
  moreover have "unat y < 2 ^ 64" using y(2) by (simp add: word_le_nat_alt not_less)
  ultimately show "unat r = amount_a up (unat p) (unat q) (unat l)"
    unfolding y(3) by (simp add: unat_ucast_128_64)
qed

text \<open>The division of the amount cannot panic when it has at most three words, or prices below 1.\<close>

lemma get_amount_delta_a_returns:
  assumes "p \<noteq> 0" "q \<noteq> 0"
    and "unat l * (max (unat p) (unat q) - min (unat p) (unat q)) < 2 ^ 128"
    and "amount_a up (unat p) (unat q) (unat l) < 2 ^ 64"
  shows "\<exists>r. get_amount_delta_a p q l up = Inr r"
proof -
  let ?o = "increasing_price_order p q"
  let ?m = "mul_u256 l (snd ?o - fst ?o)"
  have "uval ?m * 2 ^ 64 < 2 ^ 192"
    using assms(3) by (simp add: mul_u256_val increasing_price_order_vals)
  then obtain n where n: "checked_shift_word_left ?m = Some n"
    using checked_shift_word_left_Some_iff [of ?m "shift_word_left ?m"]
    by (auto simp: shift_word_left_val)
  have nv: "uval n < 2 ^ 192" using \<open>uval ?m * 2 ^ 64 < 2 ^ 192\<close> n
    by (simp add: checked_shift_word_left_Some_iff)
  have nw: "num_words n < 4"
  proof (rule ccontr)
    assume "\<not> num_words n < 4"
    then have "num_words n = 4" using num_words_le [of n] by simp
    then show False using num_words_ge [of n] nv by simp
  qed
  have dp: "0 < uval (mul_u256 (snd ?o) (fst ?o))"
    using assms(1,2) by (simp add: delta_a_denominator unat_gt_0)
  obtain quot m where d: "u256_div n (mul_u256 (snd ?o) (fst ?o)) up = Inr (quot, m)"
    using u256_div_total [OF dp] nw by blast
  have "round_div up (uval n) (uval (mul_u256 (snd ?o) (fst ?o))) < 2 ^ 64"
    using assms(4) by (simp add: delta_a_numerator [OF n] delta_a_denominator amount_a_def)
  then obtain y where y: "try_into_u128 (wide.rounded up quot m) = Inr y" "unat y < 2 ^ 64"
    using wide.rounded_Inl_iff [OF d] wide.rounded_Inr_iff [OF d, THEN iffD1]
    by (cases "try_into_u128 (wide.rounded up quot m)") fastforce+
  then show ?thesis using n d
    by (auto simp: get_amount_delta_a_def case_prod_beta Let_def wide_rounded_unfold word_le_nat_alt not_less)
qed

lemma get_amount_delta_a_Inl:
  assumes "get_amount_delta_a p q l up = Inl e"
  shows "e \<in> {Err MultiplicationOverflow, Err NumberDownCastError, Err TokenMaxExceeded, Panic}"
  using assms
  by (auto simp: get_amount_delta_a_def case_prod_beta Let_def wide_rounded_unfold fail_iffs
      try_into_u128_Inl_iff dest: wide.wdiv_error split: if_splits)

section \<open>The price that an amount moves the pool to\<close>

lemma liquidity_shift_left_val: "uval (shift_word_left (new 0 l)) = unat l * 2 ^ 64"
  using unat_u128_less [of l] by (simp add: shift_word_left_val uval_new)

lemma price_amount_product_less: "unat (p :: u128) * unat (a :: u64) < 2 ^ 192"
proof -
  have "unat p * unat a < 2 ^ 128 * 2 ^ 64"
    using unat_u128_less [of p] unat_u64_less [of a] by (intro mult_strict_mono) simp_all
  then show ?thesis by simp
qed

lemma next_price_denominator:
  fixes p l :: u128 and a :: u64
  shows "uval (u256_add (shift_word_left (new 0 l)) (mul_u256 p (ucast a))) = unat l * 2 ^ 64 + unat p * unat a"
    "\<not> u256_lte (shift_word_left (new 0 l)) (mul_u256 p (ucast a)) \<longleftrightarrow> unat p * unat a < unat l * 2 ^ 64"
    "unat p * unat a < unat l * 2 ^ 64 \<Longrightarrow>
       uval (u256_sub (shift_word_left (new 0 l)) (mul_u256 p (ucast a))) = unat l * 2 ^ 64 - unat p * unat a"
  using price_amount_product_less [of p a] unat_u128_less [of l]
  by (simp_all add: u256_add_val u256_sub_val u256_compare_val liquidity_shift_left_val mul_u256_val not_le)

lemma next_price_from_a_Inr:
  assumes "get_next_sqrt_price_from_a_round_up p l a inp = Inr p'" "a \<noteq> 0"
  shows "MIN_SQRT_PRICE_X64 \<le> p'" "p' \<le> MAX_SQRT_PRICE_X64"
    "inp \<Longrightarrow> unat p' = ceil_div (unat l * unat p * 2 ^ 64) (unat l * 2 ^ 64 + unat p * unat a)"
    "inp \<Longrightarrow> 0 < unat l * 2 ^ 64 + unat p * unat a"
    "\<not> inp \<Longrightarrow> unat p * unat a < unat l * 2 ^ 64"
    "\<not> inp \<Longrightarrow> unat p' = ceil_div (unat l * unat p * 2 ^ 64) (unat l * 2 ^ 64 - unat p * unat a)"
proof -
  define d where "d = (if inp then u256_add (shift_word_left (new 0 l)) (mul_u256 p (ucast a))
     else u256_sub (shift_word_left (new 0 l)) (mul_u256 p (ucast a)))"
  obtain n where n: "checked_shift_word_left (mul_u256 l p) = Some n"
    and lt: "inp \<or> \<not> u256_lte (shift_word_left (new 0 l)) (mul_u256 p (ucast a))"
    and r: "div_round_up_if_u256 n d True = Inr p'"
    and b: "\<not> p' < MIN_SQRT_PRICE_X64" "\<not> p' > MAX_SQRT_PRICE_X64"
    using assms
    by (auto simp: get_next_sqrt_price_from_a_round_up_def Let_def ok_iffs d_def split: if_splits)
  show "MIN_SQRT_PRICE_X64 \<le> p'" "p' \<le> MAX_SQRT_PRICE_X64" using b by simp_all
  have nv: "uval n = unat l * unat p * 2 ^ 64"
    using n by (simp add: checked_shift_word_left_Some_iff mul_u256_val)
  have dp: "0 < uval d" "unat p' = ceil_div (uval n) (uval d)"
    using r by (auto simp: div_round_up_if_u256_Inr_iff round_div_def dest: wide.wdiv_divisor)
  show "inp \<Longrightarrow> unat p' = ceil_div (unat l * unat p * 2 ^ 64) (unat l * 2 ^ 64 + unat p * unat a)"
    "inp \<Longrightarrow> 0 < unat l * 2 ^ 64 + unat p * unat a"
    using dp unfolding nv d_def by (simp_all add: next_price_denominator(1))
  show "\<not> inp \<Longrightarrow> unat p * unat a < unat l * 2 ^ 64"
    using lt next_price_denominator(2) by blast
  then show "\<not> inp \<Longrightarrow> unat p' = ceil_div (unat l * unat p * 2 ^ 64) (unat l * 2 ^ 64 - unat p * unat a)"
    using dp unfolding nv d_def by (simp add: next_price_denominator(3))
qed

lemma next_price_from_b_Inr:
  assumes "get_next_sqrt_price_from_b_round_down p l a inp = Inr p'"
  shows "l \<noteq> 0" "inp \<Longrightarrow> unat p' = unat p + unat a * 2 ^ 64 div unat l"
    "\<not> inp \<Longrightarrow> unat p = unat p' + ceil_div (unat a * 2 ^ 64) (unat l)"
proof -
  have "unat (push_bit 64 (ucast a :: u128)) = unat a * 2 ^ 64"
    using unat_u64_less [of a] by (simp add: unat_push_bit)
  then show "l \<noteq> 0" "inp \<Longrightarrow> unat p' = unat p + unat a * 2 ^ 64 div unat l"
    "\<not> inp \<Longrightarrow> unat p = unat p' + ceil_div (unat a * 2 ^ 64) (unat l)"
    using assms
    by (auto simp: get_next_sqrt_price_from_b_round_down_def Let_def ok_iffs div_round_up_if_Inr_iff
        checked_iffs round_div_def split: if_splits)
qed

text \<open>The price moves in the direction of the trade.\<close>

lemma next_price_direction:
  assumes "get_next_sqrt_price p l a inp a_to_b = Inr p'"
  shows "if a_to_b then p' \<le> p else p \<le> p'"
proof (cases "inp = a_to_b")
  case True
  then have r: "get_next_sqrt_price_from_a_round_up p l a inp = Inr p'"
    using assms by (simp add: get_next_sqrt_price_def)
  show ?thesis
  proof (cases "a = 0")
    case True
    then show ?thesis using r by (simp add: get_next_sqrt_price_from_a_round_up_def)
  next
    case False
    note n = next_price_from_a_Inr [OF r False]
    show ?thesis
    proof (cases inp)
      case inp: True
      have "unat l * unat p * 2 ^ 64 \<le> unat p * (unat l * 2 ^ 64 + unat p * unat a)"
        by (simp add: algebra_simps)
      then have "unat p' \<le> unat p" using n(3,4) inp by (simp add: ceil_div_le_iff)
      then show ?thesis using inp True by (simp add: word_le_nat_alt)
    next
      case inp: False
      let ?d = "unat l * 2 ^ 64 - unat p * unat a"
      have "0 < ?d" using n(5) [OF inp] by simp
      then have "unat l * unat p * 2 ^ 64 \<le> unat p' * ?d" using n(6) [OF inp] le_ceil_div by metis
      also have "\<dots> \<le> unat p' * (unat l * 2 ^ 64)" by simp
      finally have "(unat l * 2 ^ 64) * unat p \<le> (unat l * 2 ^ 64) * unat p'" by (simp add: ac_simps)
      moreover have "0 < unat l * 2 ^ 64" using n(5) [OF inp] by (rule le_less_trans [rotated]) simp
      ultimately have "unat p \<le> unat p'" by (metis nat_mult_le_cancel1)
      then show ?thesis using inp True by (simp add: word_le_nat_alt)
    qed
  qed
next
  case False
  then have r: "get_next_sqrt_price_from_b_round_down p l a inp = Inr p'"
    using assms by (simp add: get_next_sqrt_price_def)
  show ?thesis using next_price_from_b_Inr [OF r] False
    by (cases inp) (simp_all add: word_le_nat_alt)
qed

text \<open>
  The amount that the new price stands for: with the input fixed it takes at most the amount,
  rounded up, and with the output fixed it gives at least the amount, rounded down.
\<close>

lemma amount_a_next_price:
  assumes r: "get_next_sqrt_price_from_a_round_up p l a inp = Inr p'" and p: "p \<noteq> 0" "p' \<noteq> 0"
  shows "if inp then amount_a True (unat p) (unat p') (unat l) \<le> unat a
    else unat a \<le> amount_a False (unat p) (unat p') (unat l)"
proof (cases "a = 0")
  case True
  then have "p' = p" using r by (simp add: get_next_sqrt_price_from_a_round_up_def)
  then show ?thesis using True by (simp add: amount_a_def)
next
  case False
  note n = next_price_from_a_Inr [OF r False]
  let ?P = "unat p" and ?Q = "unat p'" and ?L = "unat l" and ?A = "unat a"
  have pq: "0 < ?P * ?Q" using p by (simp add: unat_gt_0)
  have ord: "if inp then ?Q \<le> ?P else ?P \<le> ?Q"
    using next_price_direction [of p l a inp inp p'] r
    unfolding get_next_sqrt_price_def word_le_nat_alt by (cases inp) simp_all
  show ?thesis
  proof (cases inp)
    case True
    have "?L * ?P * 2 ^ 64 \<le> ?Q * (?L * 2 ^ 64 + ?P * ?A)"
      using n(3,4) [OF True] le_ceil_div by metis
    then have "?L * (?P - ?Q) * 2 ^ 64 \<le> ?A * (?P * ?Q)" by (simp add: algebra_simps diff_mult_distrib2)
    then show ?thesis using True ord pq
      by (simp add: amount_a_def round_div_def ceil_div_le_iff max_absorb1 min_absorb2)
  next
    case inp: False
    have lt: "?P * ?A < ?L * 2 ^ 64" using n(5) [OF inp] .
    have "?L * ?P * 2 ^ 64 \<le> ?Q * (?L * 2 ^ 64 - ?P * ?A)"
      using n(5,6) [OF inp] le_ceil_div by (metis zero_less_diff)
    then have "?L * ?P * 2 ^ 64 \<le> ?Q * (?L * 2 ^ 64) - ?Q * (?P * ?A)" by (simp only: diff_mult_distrib2)
    moreover have "?Q * (?P * ?A) \<le> ?Q * (?L * 2 ^ 64)" by (intro mult_le_mono2 less_imp_le lt)
    ultimately have "?Q * (?P * ?A) \<le> ?Q * (?L * 2 ^ 64) - ?L * ?P * 2 ^ 64" by linarith
    then have "?A * (?P * ?Q) \<le> ?L * (?Q - ?P) * 2 ^ 64"
      by (simp add: diff_mult_distrib2 diff_mult_distrib ac_simps)
    then show ?thesis using inp ord pq
      by (simp add: amount_a_def round_div_def le_div_iff max_absorb2 min_absorb1)
  qed
qed

lemma amount_b_next_price:
  assumes r: "get_next_sqrt_price_from_b_round_down p l a inp = Inr p'"
  shows "if inp then amount_b True (unat p) (unat p') (unat l) \<le> unat a
    else unat a \<le> amount_b False (unat p) (unat p') (unat l)"
proof -
  note n = next_price_from_b_Inr [OF r]
  have l: "0 < unat l" using n(1) by (simp add: unat_gt_0)
  show ?thesis
  proof (cases inp)
    case True
    have "unat l * (unat a * 2 ^ 64 div unat l) \<le> unat a * 2 ^ 64"
      using mult_div_mod_eq [of "unat l" "unat a * 2 ^ 64"] by linarith
    then show ?thesis using True n(2)
      by (simp add: amount_b_def round_div_def ceil_div_le_iff max_absorb2 min_absorb1)
  next
    case False
    have "unat a * 2 ^ 64 \<le> unat l * ceil_div (unat a * 2 ^ 64) (unat l)"
      using le_ceil_div [OF l, of "unat a * 2 ^ 64"] by (simp add: mult.commute)
    then show ?thesis using False n(3)
      by (simp add: amount_b_def round_div_def le_div_iff max_absorb1 min_absorb2)
  qed
qed

end
