(* ===== verification/State_Config.thy ===== *)
theory State_Config
  imports Token_Math
begin

text \<open>
  Public keys, and the two configuration accounts: \<open>state/config.rs\<close> and \<open>state/fee_tier.rs\<close>.
  An operation on \<open>&mut self\<close> returns the updated record; one that fails returns its error alone,
  since the runtime discards the changes of a failed instruction.
\<close>

section \<open>Public keys\<close>

text \<open>The 32 bytes of a key, the first byte the most significant, so that the order is the program's.\<close>

datatype pubkey = Pubkey (key_bytes: "256 word")

instantiation pubkey :: linorder
begin

definition less_eq_pubkey :: "pubkey \<Rightarrow> pubkey \<Rightarrow> bool" where
  "less_eq_pubkey a b \<longleftrightarrow> key_bytes a \<le> key_bytes b"

definition less_pubkey :: "pubkey \<Rightarrow> pubkey \<Rightarrow> bool" where
  "less_pubkey a b \<longleftrightarrow> key_bytes a < key_bytes b"

instance
  by standard (auto simp: less_eq_pubkey_def less_pubkey_def intro: pubkey.expand)

end

definition default_pubkey :: pubkey where "default_pubkey = Pubkey 0"

section \<open>The configuration\<close>

record WhirlpoolsConfig =
  cfg_fee_authority :: pubkey
  cfg_collect_protocol_fees_authority :: pubkey
  cfg_reward_emissions_super_authority :: pubkey
  cfg_pool_creator_authority :: pubkey
  cfg_default_protocol_fee_rate :: u16

text \<open>The zeroed account that the runtime hands to an initializing instruction.\<close>

definition default_config :: WhirlpoolsConfig where
  "default_config = \<lparr>cfg_fee_authority = default_pubkey,
     cfg_collect_protocol_fees_authority = default_pubkey,
     cfg_reward_emissions_super_authority = default_pubkey,
     cfg_pool_creator_authority = default_pubkey, cfg_default_protocol_fee_rate = 0\<rparr>"

definition update_fee_authority :: "WhirlpoolsConfig \<Rightarrow> pubkey \<Rightarrow> WhirlpoolsConfig" where
  "update_fee_authority self fee_authority = self\<lparr>cfg_fee_authority := fee_authority\<rparr>"

definition update_collect_protocol_fees_authority :: "WhirlpoolsConfig \<Rightarrow> pubkey \<Rightarrow> WhirlpoolsConfig" where
  "update_collect_protocol_fees_authority self collect_protocol_fees_authority =
     self\<lparr>cfg_collect_protocol_fees_authority := collect_protocol_fees_authority\<rparr>"

definition update_pool_creator_authority :: "WhirlpoolsConfig \<Rightarrow> pubkey \<Rightarrow> WhirlpoolsConfig" where
  "update_pool_creator_authority self pool_creator_authority =
     self\<lparr>cfg_pool_creator_authority := pool_creator_authority\<rparr>"

definition update_reward_emissions_super_authority :: "WhirlpoolsConfig \<Rightarrow> pubkey \<Rightarrow> WhirlpoolsConfig" where
  "update_reward_emissions_super_authority self reward_emissions_super_authority =
     self\<lparr>cfg_reward_emissions_super_authority := reward_emissions_super_authority\<rparr>"

definition update_default_protocol_fee_rate :: "WhirlpoolsConfig \<Rightarrow> u16 \<Rightarrow> WhirlpoolsConfig result" where
  "update_default_protocol_fee_rate self default_protocol_fee_rate =
     (if default_protocol_fee_rate > MAX_PROTOCOL_FEE_RATE then Inl (Err ProtocolFeeRateMaxExceeded)
      else Inr (self\<lparr>cfg_default_protocol_fee_rate := default_protocol_fee_rate\<rparr>))"

definition config_initialize ::
  "WhirlpoolsConfig \<Rightarrow> pubkey \<Rightarrow> pubkey \<Rightarrow> pubkey \<Rightarrow> pubkey \<Rightarrow> u16 \<Rightarrow> WhirlpoolsConfig result" where
  "config_initialize self fee_authority collect_protocol_fees_authority
     reward_emissions_super_authority pool_creator_authority default_protocol_fee_rate =
     update_default_protocol_fee_rate
       (self\<lparr>cfg_fee_authority := fee_authority,
             cfg_collect_protocol_fees_authority := collect_protocol_fees_authority,
             cfg_reward_emissions_super_authority := reward_emissions_super_authority,
             cfg_pool_creator_authority := pool_creator_authority\<rparr>)
       default_protocol_fee_rate"

section \<open>Fee tiers\<close>

record FeeTier =
  ft_whirlpools_config :: pubkey
  ft_tick_spacing :: u16
  ft_default_fee_rate :: u16

definition default_fee_tier :: FeeTier where
  "default_fee_tier = \<lparr>ft_whirlpools_config = default_pubkey, ft_tick_spacing = 0, ft_default_fee_rate = 0\<rparr>"

definition update_default_fee_rate :: "FeeTier \<Rightarrow> u16 \<Rightarrow> FeeTier result" where
  "update_default_fee_rate self default_fee_rate =
     (if default_fee_rate > MAX_FEE_RATE then Inl (Err FeeRateMaxExceeded)
      else Inr (self\<lparr>ft_default_fee_rate := default_fee_rate\<rparr>))"

text \<open>The configuration account is passed by its key, the only part of it that is read.\<close>

definition fee_tier_initialize :: "FeeTier \<Rightarrow> pubkey \<Rightarrow> u16 \<Rightarrow> u16 \<Rightarrow> FeeTier result" where
  "fee_tier_initialize self whirlpools_config_key tick_spacing default_fee_rate =
     update_default_fee_rate
       (self\<lparr>ft_whirlpools_config := whirlpools_config_key, ft_tick_spacing := tick_spacing\<rparr>)
       default_fee_rate"

section \<open>The fee rates stay within their bounds\<close>

definition config_ok :: "WhirlpoolsConfig \<Rightarrow> bool" where
  "config_ok c \<longleftrightarrow> cfg_default_protocol_fee_rate c \<le> MAX_PROTOCOL_FEE_RATE"

definition fee_tier_ok :: "FeeTier \<Rightarrow> bool" where
  "fee_tier_ok t \<longleftrightarrow> ft_default_fee_rate t \<le> MAX_FEE_RATE"

lemma config_updates_ok:
  "config_ok c \<Longrightarrow> config_ok (update_fee_authority c k)"
  "config_ok c \<Longrightarrow> config_ok (update_collect_protocol_fees_authority c k)"
  "config_ok c \<Longrightarrow> config_ok (update_pool_creator_authority c k)"
  "config_ok c \<Longrightarrow> config_ok (update_reward_emissions_super_authority c k)"
  "update_default_protocol_fee_rate c r = Inr c' \<Longrightarrow> config_ok c'"
  "config_initialize c a b d e r = Inr c' \<Longrightarrow> config_ok c'"
  by (auto simp: config_ok_def update_fee_authority_def update_collect_protocol_fees_authority_def
      update_pool_creator_authority_def update_reward_emissions_super_authority_def
      update_default_protocol_fee_rate_def config_initialize_def split: if_splits)

lemma fee_tier_updates_ok:
  "update_default_fee_rate t r = Inr t' \<Longrightarrow> fee_tier_ok t'"
  "fee_tier_initialize t k s r = Inr t' \<Longrightarrow> fee_tier_ok t'"
  by (auto simp: fee_tier_ok_def update_default_fee_rate_def fee_tier_initialize_def split: if_splits)

end
