(* ===== verification/Tick_Math.thy ===== *)
theory Tick_Math
  imports Token_Math
begin

text \<open>
  \<open>math/tick_math.rs\<close>: the price of a tick, by repeated multiplication with precomputed powers of
  the square root of 1.0001, and the tick of a price, by an approximation of the logarithm.  The
  straight-line sequences of \<open>if tick & 2^k != 0\<close> are loops over the table of their constants.

  The price is shown to exist on the whole range of ticks, to increase strictly with the tick and
  to take the values \<open>MIN_SQRT_PRICE_X64\<close> and \<open>MAX_SQRT_PRICE_X64\<close> at the ends of the range.
\<close>

section \<open>The price of a tick\<close>

definition mul_shift_96 :: "u128 \<Rightarrow> u128 \<Rightarrow> u128 result" where
  "mul_shift_96 n0 n1 = unwrap (try_into_u128 (shift_right (mul_u256 n0 n1) 96))"

definition positive_tick_table :: "(i32 \<times> u128) list" where
  "positive_tick_table =
    [(2, 79236085330515764027303304731), (4, 79244008939048815603706035061),
     (8, 79259858533276714757314932305), (16, 79291567232598584799939703904),
     (32, 79355022692464371645785046466), (64, 79482085999252804386437311141),
     (128, 79736823300114093921829183326), (256, 80248749790819932309965073892),
     (512, 81282483887344747381513967011), (1024, 83390072131320151908154831281),
     (2048, 87770609709833776024991924138), (4096, 97234110755111693312479820773),
     (8192, 119332217159966728226237229890), (16384, 179736315981702064433883588727),
     (32768, 407748233172238350107850275304), (65536, 2098478828474011932436660412517),
     (131072, 55581415166113811149459800483533), (262144, 38992368544603139932233054999993551)]"

fun positive_tick_loop :: "i32 \<Rightarrow> (i32 \<times> u128) list \<Rightarrow> u128 \<Rightarrow> u128 result" where
  "positive_tick_loop tick [] ratio = Inr ratio"
| "positive_tick_loop tick ((b, c) # table) ratio =
     and_then (if tick AND b \<noteq> 0 then mul_shift_96 ratio c else Inr ratio) (\<lambda>ratio.
     positive_tick_loop tick table ratio)"

definition get_sqrt_price_positive_tick :: "i32 \<Rightarrow> u128 result" where
  "get_sqrt_price_positive_tick tick =
     (let ratio = (if tick AND 1 \<noteq> 0 then 79232123823359799118286999567
                   else 79228162514264337593543950336) in
      and_then (positive_tick_loop tick positive_tick_table ratio) (\<lambda>ratio.
      Inr (drop_bit 32 ratio)))"

definition negative_tick_table :: "(i32 \<times> u128) list" where
  "negative_tick_table =
    [(2, 18444899583751176498), (4, 18443055278223354162), (8, 18439367220385604838),
     (16, 18431993317065449817), (32, 18417254355718160513), (64, 18387811781193591352),
     (128, 18329067761203520168), (256, 18212142134806087854), (512, 17980523815641551639),
     (1024, 17526086738831147013), (2048, 16651378430235024244), (4096, 15030750278693429944),
     (8192, 12247334978882834399), (16384, 8131365268884726200), (32768, 3584323654723342297),
     (65536, 696457651847595233), (131072, 26294789957452057), (262144, 37481735321082)]"

fun negative_tick_loop :: "i32 \<Rightarrow> (i32 \<times> u128) list \<Rightarrow> u128 \<Rightarrow> u128" where
  "negative_tick_loop abs_tick [] ratio = ratio"
| "negative_tick_loop abs_tick ((b, c) # table) ratio =
     negative_tick_loop abs_tick table
       (if abs_tick AND b \<noteq> 0 then drop_bit 64 (ratio * c) else ratio)"

definition get_sqrt_price_negative_tick :: "i32 \<Rightarrow> u128" where
  "get_sqrt_price_negative_tick tick =
     (let abs_tick = to_i32 \<bar>tick\<bar>;
          ratio = (if abs_tick AND 1 \<noteq> 0 then 18445821805675392311 else 18446744073709551616) in
      negative_tick_loop abs_tick negative_tick_table ratio)"

definition sqrt_price_from_tick_index :: "i32 \<Rightarrow> u128 result" where
  "sqrt_price_from_tick_index tick =
     (if tick \<ge> 0 then get_sqrt_price_positive_tick tick
      else Inr (get_sqrt_price_negative_tick tick))"

section \<open>The tick of a price\<close>

definition LOG_B_2_X32 :: i128 where "LOG_B_2_X32 = 59543866431248"
definition BIT_PRECISION :: nat where "BIT_PRECISION = 14"
definition LOG_B_P_ERR_MARGIN_LOWER_X64 :: i128 where
  "LOG_B_P_ERR_MARGIN_LOWER_X64 = 184467440737095516"
definition LOG_B_P_ERR_MARGIN_UPPER_X64 :: i128 where
  "LOG_B_P_ERR_MARGIN_UPPER_X64 = 15793534762490258745"

text \<open>The loop that reads the bits of the fractional part of the logarithm.\<close>

function log2_fraction_loop :: "i128 \<Rightarrow> nat \<Rightarrow> i128 \<Rightarrow> u128 \<Rightarrow> i128" where
  "log2_fraction_loop bt precision log2p_fraction_x64 r =
     (if bt > 0 \<and> precision < BIT_PRECISION then
        let r = r * r;
            is_r_more_than_two = drop_bit 127 r;
            r = (if is_r_more_than_two = 0 then drop_bit 63 r else drop_bit 64 r);
            log2p_fraction_x64 =
              to_i128 (log2p_fraction_x64 + to_i128 (bt * (if is_r_more_than_two = 0 then 0 else 1))) in
        log2_fraction_loop (bt div 2) (precision + 1) log2p_fraction_x64 r
      else log2p_fraction_x64)"
  by pat_completeness auto
termination by (relation "measure (\<lambda>(_, precision, _, _). BIT_PRECISION - precision)") auto

definition try_into_i32_unwrap :: "i128 \<Rightarrow> i32 result" where
  "try_into_i32_unwrap x = (if in_i32 x then Inr x else Inl Panic)"

text \<open>
  The subtraction that computes \<open>msb\<close> wraps around (in \<open>u32\<close>) for the price 0, and a shift by
  more than 127 bits uses the low seven bits of the shift count, as the release build does.
\<close>

definition tick_index_from_sqrt_price :: "u128 \<Rightarrow> i32 result" where
  "tick_index_from_sqrt_price sqrt_price_x64 =
     (let msb = (128 - int (leading_zeros sqrt_price_x64) - 1) mod 2 ^ 32;
          log2p_integer_x32 = to_i128 ((msb - 64) * 2 ^ 32);
          r = (if msb \<ge> 64 then drop_bit (nat ((msb - 63) mod 128)) sqrt_price_x64
               else push_bit (nat ((63 - msb) mod 128)) sqrt_price_x64);
          log2p_fraction_x64 = log2_fraction_loop 0x8000000000000000 0 0 r;
          log2p_fraction_x32 = log2p_fraction_x64 div 2 ^ 32;
          log2p_x32 = to_i128 (log2p_integer_x32 + log2p_fraction_x32);
          logbp_x64 = to_i128 (log2p_x32 * LOG_B_2_X32) in
      and_then (try_into_i32_unwrap (to_i128 (logbp_x64 - LOG_B_P_ERR_MARGIN_LOWER_X64) div 2 ^ 64))
        (\<lambda>tick_low.
      and_then (try_into_i32_unwrap (to_i128 (logbp_x64 + LOG_B_P_ERR_MARGIN_UPPER_X64) div 2 ^ 64))
        (\<lambda>tick_high.
      if tick_low = tick_high then Inr tick_low
      else and_then (sqrt_price_from_tick_index tick_high) (\<lambda>actual_tick_high_sqrt_price_x64.
        Inr (if actual_tick_high_sqrt_price_x64 \<le> sqrt_price_x64 then tick_high else tick_low)))))"

section \<open>The sequences of multiplications on numbers\<close>

text \<open>
  Both sequences on natural numbers: \<open>m\<close> is the unit of the fixed-point format, and the factor at
  position \<open>k\<close> is applied when bit \<open>k\<close> of the tick is set.
\<close>

fun scale_run :: "nat \<Rightarrow> nat list \<Rightarrow> nat \<Rightarrow> nat \<Rightarrow> nat" where
  "scale_run m [] t x = x"
| "scale_run m (c # cs) t x = scale_run m cs (t div 2) (if odd t then x * c div m else x)"

text \<open>A distance between two ratios that survives whatever factors are applied.\<close>

fun shrink :: "nat \<Rightarrow> nat list \<Rightarrow> nat \<Rightarrow> nat" where
  "shrink m [] g = g"
| "shrink m (c # cs) g = shrink m cs (min g (g * c div m))"

lemma scale_gap: "x + g \<le> y \<Longrightarrow> x * c div m + g * c div m \<le> y * c div m" for x g y c m :: nat
proof (cases "m = 0")
  case False
  assume "x + g \<le> y"
  then have "(x + g) * c div m \<le> y * c div m" by (intro div_le_mono mult_le_mono1)
  moreover have "x * c div m + g * c div m \<le> (x + g) * c div m"
  proof -
    have "(x * c div m) * m + (g * c div m) * m \<le> x * c + g * c"
      by (intro add_mono) (metis div_times_less_eq_dividend)+
    then show ?thesis using False
      by (simp add: less_eq_div_iff_mult_less_eq add_mult_distrib)
  qed
  ultimately show ?thesis by simp
qed simp

lemma shrink_mono: "g \<le> h \<Longrightarrow> shrink m cs g \<le> shrink m cs h"
proof (induction cs arbitrary: g h)
  case (Cons c cs)
  have "g * c div m \<le> h * c div m" using Cons.prems by (intro div_le_mono mult_le_mono1)
  then show ?case using Cons.prems by (auto intro!: Cons.IH min.mono)
qed simp

lemma scale_run_gap: "x + g \<le> y \<Longrightarrow> scale_run m cs t x + shrink m cs g \<le> scale_run m cs t y"
proof (induction cs arbitrary: t x y g)
  case (Cons c cs)
  show ?case
  proof (cases "odd t")
    case True
    have "x * c div m + min g (g * c div m) \<le> y * c div m"
      using scale_gap [OF Cons.prems, of c m] by (simp add: min_def)
    then show ?thesis using True by (simp add: Cons.IH)
  next
    case False
    have "x + min g (g * c div m) \<le> y" using Cons.prems by (simp add: min_def)
    then show ?thesis using False by (simp add: Cons.IH)
  qed
qed simp

lemma shrink_ge: "\<forall>c \<in> set cs. m \<le> c \<Longrightarrow> 0 < m \<Longrightarrow> g \<le> shrink m cs g"
proof (induction cs arbitrary: g)
  case (Cons c cs)
  have "g * m \<le> g * c" using Cons.prems by simp
  then have "g \<le> g * c div m" using Cons.prems by (simp add: less_eq_div_iff_mult_less_eq)
  then show ?case using Cons by (simp add: min_absorb1)
qed simp

text \<open>
  From \<open>t\<close> to \<open>t + 1\<close> the low bits that are set are replaced by the next bit: \<open>x\<close> is the ratio of
  the low bits and \<open>c\<close> the factor of the next bit.  The checks state that the two differ enough,
  for each number of low bits that are set.
\<close>

fun increase_ok :: "nat \<Rightarrow> nat \<Rightarrow> nat list \<Rightarrow> nat \<Rightarrow> bool" where
  "increase_ok m g [] x = True"
| "increase_ok m g (c # cs) x \<longleftrightarrow>
     m \<le> c \<and> x + g \<le> c \<and> increase_ok m g cs (x * c div m)"

fun gap_kept :: "nat \<Rightarrow> nat \<Rightarrow> nat list \<Rightarrow> nat list \<Rightarrow> bool" where
  "gap_kept m g [] ks \<longleftrightarrow> 0 < g"
| "gap_kept m g (c # cs) [] = False"
| "gap_kept m g (c # cs) (k # ks) \<longleftrightarrow> k \<le> g \<and> k * m \<le> g * c \<and> gap_kept m k cs ks"

fun decrease_ok :: "nat \<Rightarrow> nat list \<Rightarrow> nat list \<Rightarrow> nat \<Rightarrow> bool" where
  "decrease_ok m [] gs x = True"
| "decrease_ok m (c # cs) [] x = False"
| "decrease_ok m (c # cs) (g # gs) x \<longleftrightarrow> c + g \<le> x \<and> decrease_ok m cs gs (x * c div m)"

lemma increase_ok_factors: "increase_ok m g cs x \<Longrightarrow> \<forall>c \<in> set cs. m \<le> c"
  by (induction cs arbitrary: x) auto

lemma scale_run_increases:
  assumes "0 < m"
  shows "increase_ok m g cs x \<Longrightarrow> t + 1 < 2 ^ length cs \<Longrightarrow>
    scale_run m cs t x + g \<le> scale_run m cs (t + 1) m"
proof (induction cs arbitrary: t x)
  case (Cons c cs)
  show ?case
  proof (cases "odd t")
    case True
    then have "(t + 1) div 2 = t div 2 + 1" "t div 2 + 1 < 2 ^ length cs"
      using Cons.prems(2) by (auto elim!: oddE)
    then show ?thesis using True Cons.IH [of "x * c div m" "t div 2"] Cons.prems by simp
  next
    case False
    then have "(t + 1) div 2 = t div 2" by (auto elim!: evenE)
    have "g \<le> shrink m cs g"
      using shrink_ge [of cs m g] increase_ok_factors [OF Cons.prems(1)] assms by simp
    moreover have "scale_run m cs (t div 2) x + shrink m cs g \<le> scale_run m cs (t div 2) c"
      using Cons.prems(1) by (intro scale_run_gap) simp
    ultimately show ?thesis using False assms \<open>(t + 1) div 2 = t div 2\<close> by simp
  qed
qed simp

lemma gap_kept_less:
  "0 < m \<Longrightarrow> gap_kept m g cs ks \<Longrightarrow> x + g \<le> y \<Longrightarrow> scale_run m cs t x < scale_run m cs t y"
proof (induction m g cs ks arbitrary: t x y rule: gap_kept.induct)
  case (3 m g c cs k ks)
  have "k \<le> g * c div m" using 3 by (simp add: less_eq_div_iff_mult_less_eq)
  then have "x * c div m + k \<le> y * c div m" using scale_gap [OF 3(4), of c m] by linarith
  moreover have "x + k \<le> y" using 3 by simp
  ultimately show ?case using 3 by simp
qed simp_all

lemma scale_run_decreases:
  assumes "0 < m"
  shows "decrease_ok m cs (g # gs) x \<Longrightarrow> gap_kept m g (tl cs) gs \<Longrightarrow> t + 1 < 2 ^ length cs \<Longrightarrow>
    scale_run m cs (t + 1) m < scale_run m cs t x"
proof (induction cs arbitrary: t x g gs)
  case (Cons c cs)
  show ?case
  proof (cases "odd t")
    case True
    then have h: "(t + 1) div 2 = t div 2 + 1" "t div 2 + 1 < 2 ^ length cs"
      using Cons.prems(3) by (auto elim!: oddE)
    then obtain d ds k ks where cs: "cs = d # ds" "gs = k # ks"
      using Cons.prems by (cases cs; cases gs) auto
    then show ?thesis using True h Cons.IH [of k ks "x * c div m" "t div 2"] Cons.prems by simp
  next
    case False
    then have "(t + 1) div 2 = t div 2" by (auto elim!: evenE)
    then show ?thesis
      using False Cons.prems assms gap_kept_less [of m g cs gs c x "t div 2"] by simp
  qed
qed simp

lemma scale_run_ge: "\<forall>c \<in> set cs. m \<le> c \<Longrightarrow> 0 < m \<Longrightarrow> x \<le> scale_run m cs t x"
proof (induction cs arbitrary: t x)
  case (Cons c cs)
  have "x * m \<le> x * c" using Cons.prems by simp
  then have "x \<le> x * c div m" using Cons.prems by (simp add: less_eq_div_iff_mult_less_eq)
  then show ?case using Cons.prems Cons.IH [of _ "t div 2"]
    by (auto intro: order_trans)
qed simp

section \<open>The operations compute these sequences\<close>

definition positive_factors :: "nat list" where
  "positive_factors = 79232123823359799118286999567 # map (\<lambda>p. unat (snd p)) positive_tick_table"

definition negative_factors :: "nat list" where
  "negative_factors = 18445821805675392311 # map (\<lambda>p. unat (snd p)) negative_tick_table"

definition positive_ratio :: "nat \<Rightarrow> nat" where
  "positive_ratio t = scale_run (2 ^ 96) positive_factors t (2 ^ 96)"

definition negative_ratio :: "nat \<Rightarrow> nat" where
  "negative_ratio t = scale_run (2 ^ 64) negative_factors t (2 ^ 64)"

definition masks :: "nat \<Rightarrow> (i32 \<times> u128) list \<Rightarrow> bool" where
  "masks k tbl \<longleftrightarrow> map fst tbl = map (\<lambda>i. 2 ^ i) [k..<k + length tbl]"

lemma masks_Cons: "masks k ((b, c) # tbl) \<longleftrightarrow> b = 2 ^ k \<and> masks (Suc k) tbl"
  by (simp add: masks_def upt_conv_Cons del: upt_Suc)

lemma mask_bit: "int t AND 2 ^ k \<noteq> 0 \<longleftrightarrow> odd (t div 2 ^ k)"
proof -
  have "int t div 2 ^ k = int (t div 2 ^ k)" by (simp add: zdiv_int)
  then show ?thesis by (simp only: and_exp_eq_0_iff_not_bit not_not bit_iff_odd even_of_nat)
qed

lemma half_power: "t div 2 ^ k div 2 = t div 2 ^ Suc k" for t :: nat
  by (simp add: div_mult2_eq [symmetric] mult.commute)

lemma negative_tick_loop_val:
  "masks k tbl \<Longrightarrow> unat r \<le> 2 ^ 64 \<Longrightarrow> \<forall>p \<in> set tbl. unat (snd p) < 2 ^ 64 \<Longrightarrow>
   unat (negative_tick_loop (int t) tbl r)
     = scale_run (2 ^ 64) (map (\<lambda>p. unat (snd p)) tbl) (t div 2 ^ k) (unat r)"
proof (induction tbl arbitrary: k r)
  case (Cons bc tbl)
  obtain b c where bc: "bc = (b, c)" by (cases bc)
  have b: "b = 2 ^ k" and ms: "masks (Suc k) tbl" using Cons.prems(1) by (simp_all add: bc masks_Cons)
  have c: "unat c < 2 ^ 64" using Cons.prems(3) by (simp add: bc)
  have "unat r * unat c \<le> 2 ^ 64 * unat c" using Cons.prems(2) by (rule mult_le_mono1)
  also have "\<dots> < 2 ^ 64 * 2 ^ 64" using c by simp
  finally have lt: "unat r * unat c < 2 ^ 128" by simp
  then have dv: "unat (drop_bit 64 (r * c)) = unat r * unat c div 2 ^ 64"
    by (simp add: unat_drop_bit unat_mult_nowrap)
  have "unat r * unat c div 2 ^ 64 \<le> 2 ^ 64" using lt by (simp add: less_imp_le div_less_iff_less_mult)
  then show ?case
    using Cons.IH [OF ms, of "drop_bit 64 (r * c)"] Cons.IH [OF ms, of r] Cons.prems(2,3)
    by (simp add: bc b mask_bit dv half_power del: power_Suc)
qed simp

text \<open>
  With factors of at least one the ratio only grows, so that a final ratio below \<open>2 ^ 128\<close> rules
  out a failing narrowing in between.
\<close>

lemma positive_tick_loop_val:
  "masks k tbl \<Longrightarrow> \<forall>p \<in> set tbl. 2 ^ 96 \<le> unat (snd p) \<Longrightarrow>
   scale_run (2 ^ 96) (map (\<lambda>p. unat (snd p)) tbl) (t div 2 ^ k) (unat r) < 2 ^ 128 \<Longrightarrow>
   \<exists>r'. positive_tick_loop (int t) tbl r = Inr r'
     \<and> unat r' = scale_run (2 ^ 96) (map (\<lambda>p. unat (snd p)) tbl) (t div 2 ^ k) (unat r)"
proof (induction tbl arbitrary: k r)
  case (Cons bc tbl)
  obtain b c where bc: "bc = (b, c)" by (cases bc)
  have b: "b = 2 ^ k" and ms: "masks (Suc k) tbl" using Cons.prems(1) by (simp_all add: bc masks_Cons)
  have la: "\<forall>p \<in> set tbl. 2 ^ 96 \<le> unat (snd p)" using Cons.prems(2) by simp
  then have la': "\<forall>c \<in> set (map (\<lambda>p. unat (snd p)) tbl). 2 ^ 96 \<le> c" by simp
  let ?x = "unat r * unat c div 2 ^ 96"
  show ?case
  proof (cases "odd (t div 2 ^ k)")
    case True
    then have lt: "scale_run (2 ^ 96) (map (\<lambda>p. unat (snd p)) tbl) (t div 2 ^ Suc k) ?x < 2 ^ 128"
      using Cons.prems(3) by (simp add: bc half_power del: power_Suc)
    then have "?x < 2 ^ 128" using scale_run_ge [OF la', of ?x "t div 2 ^ Suc k"] by simp
    then obtain y where y: "try_into_u128 (shift_right (mul_u256 r c) 96) = Inr y" "unat y = ?x"
      using try_into_u128_Inl_iff [of "shift_right (mul_u256 r c) 96"]
        try_into_u128_Inr_iff [of "shift_right (mul_u256 r c) 96"]
      by (cases "try_into_u128 (shift_right (mul_u256 r c) 96)")
        (auto simp: shift_right_val mul_u256_val)
    then show ?thesis using Cons.IH [OF ms la, of y] lt True
      by (simp add: bc b mask_bit mul_shift_96_def half_power del: power_Suc)
  next
    case False
    then show ?thesis using Cons.IH [OF ms la, of r] Cons.prems(3)
      by (simp add: bc b mask_bit half_power del: power_Suc)
  qed
qed simp

lemma masks_Nil: "masks k []"
  by (simp add: masks_def)

lemma positive_factors_table:
  "masks 1 positive_tick_table" "\<forall>p \<in> set positive_tick_table. 2 ^ 96 \<le> unat (snd p)"
  "length positive_factors = 19"
  by (simp_all add: masks_Cons masks_Nil positive_tick_table_def positive_factors_def)

lemma negative_factors_table:
  "masks 1 negative_tick_table" "\<forall>p \<in> set negative_tick_table. unat (snd p) < 2 ^ 64"
  "length negative_factors = 19"
  by (simp_all add: masks_Cons masks_Nil negative_tick_table_def negative_factors_def)

lemma positive_ratios_increase: "increase_ok (2 ^ 96) (2 ^ 32) positive_factors (2 ^ 96)"
  by (simp add: positive_factors_def positive_tick_table_def)

text \<open>
  How far two ratios must be apart before the factors after each position to stay apart; the
  numbers are computed backwards from 1, rounded up to three digits.
\<close>

definition negative_gaps :: "nat list" where
  "negative_gaps = [254000000000, 253000000000, 252000000000, 251000000000, 250000000000, 249000000000, 248000000000, 246000000000, 242000000000,
     235000000000, 223000000000, 201000000000, 163000000000, 108000000000, 47200000000, 9170000000, 346000000, 493000, 1]"

lemma negative_ratios_decrease:
  "decrease_ok (2 ^ 64) negative_factors negative_gaps (2 ^ 64)"
  "gap_kept (2 ^ 64) (hd negative_gaps) (tl negative_factors) (tl negative_gaps)"
  by (simp_all add: negative_factors_def negative_tick_table_def negative_gaps_def)

lemma ratio_ends:
  "positive_ratio 0 = 2 ^ 96" "positive_ratio 443636 div 2 ^ 32 = 79226673515401279992447579055"
  "negative_ratio 0 = 2 ^ 64" "negative_ratio 443636 = 4295048016"
  by (simp_all add: positive_ratio_def negative_ratio_def positive_factors_def positive_tick_table_def
      negative_factors_def negative_tick_table_def)

lemma positive_ratio_step: "t + 1 < 2 ^ 19 \<Longrightarrow> positive_ratio t + 2 ^ 32 \<le> positive_ratio (t + 1)"
  unfolding positive_ratio_def using positive_factors_table(3)
  by (intro scale_run_increases [OF _ positive_ratios_increase]) simp_all

lemma negative_ratio_step: "t + 1 < 2 ^ 19 \<Longrightarrow> negative_ratio (t + 1) < negative_ratio t"
  unfolding negative_ratio_def using negative_factors_table(3) negative_ratios_decrease
  by (intro scale_run_decreases [where g = "hd negative_gaps" and gs = "tl negative_gaps"])
    (simp_all add: negative_gaps_def)

lemma positive_ratio_mono: "s \<le> t \<Longrightarrow> t < 2 ^ 19 \<Longrightarrow> positive_ratio s \<le> positive_ratio t"
proof (induction t rule: dec_induct)
  case (step n)
  then show ?case using positive_ratio_step [of n] by simp
qed simp

text \<open>The price as a number, over the whole range of ticks.\<close>

definition MIN_TICK_INDEX :: i32 where "MIN_TICK_INDEX = -443636"
definition MAX_TICK_INDEX :: i32 where "MAX_TICK_INDEX = 443636"

definition price_val :: "i32 \<Rightarrow> nat" where
  "price_val tick = (if tick \<ge> 0 then positive_ratio (nat tick) div 2 ^ 32 else negative_ratio (nat (- tick)))"

definition tick_in_range :: "i32 \<Rightarrow> bool" where
  "tick_in_range tick \<longleftrightarrow> MIN_TICK_INDEX \<le> tick \<and> tick \<le> MAX_TICK_INDEX"

lemma positive_tick_val:
  assumes "t \<le> 443636"
  shows "\<exists>p. get_sqrt_price_positive_tick (int t) = Inr p \<and> unat p = positive_ratio t div 2 ^ 32"
proof -
  define r0 :: u128 where "r0 = (if int t AND 1 \<noteq> 0 then 79232123823359799118286999567
    else 79228162514264337593543950336)"
  have odd0: "int t AND 1 \<noteq> 0 \<longleftrightarrow> odd t" using mask_bit [of t 0] by simp
  have r0: "unat r0 = (if odd t then 2 ^ 96 * 79232123823359799118286999567 div 2 ^ 96 else 2 ^ 96)"
    unfolding r0_def odd0 by simp
  have run: "positive_ratio t
      = scale_run (2 ^ 96) (map (\<lambda>p. unat (snd p)) positive_tick_table) (t div 2 ^ 1) (unat r0)"
    unfolding positive_ratio_def positive_factors_def r0 by simp
  have "positive_ratio t \<le> positive_ratio 443636" using assms by (intro positive_ratio_mono) simp_all
  moreover have "positive_ratio 443636 < 2 ^ 128"
  proof -
    have "positive_ratio 443636 div 2 ^ 32 < 2 ^ 96" unfolding ratio_ends by simp
    then show ?thesis by (simp add: div_less_iff_less_mult)
  qed
  ultimately have lt: "positive_ratio t < 2 ^ 128" by (rule le_less_trans)
  obtain r where r: "positive_tick_loop (int t) positive_tick_table r0 = Inr r" "unat r = positive_ratio t"
    using positive_tick_loop_val [OF positive_factors_table(1,2) lt [unfolded run]] run by auto
  then show ?thesis
    unfolding get_sqrt_price_positive_tick_def Let_def r0_def [symmetric] r(1) and_then_simps
    by (simp add: unat_drop_bit)
qed

lemma negative_tick_val:
  assumes "t \<le> 443636"
  shows "unat (get_sqrt_price_negative_tick (- int t)) = negative_ratio t"
proof -
  define r0 :: u128 where "r0 = (if int t AND 1 \<noteq> 0 then 18445821805675392311 else 18446744073709551616)"
  have odd0: "int t AND 1 \<noteq> 0 \<longleftrightarrow> odd t" using mask_bit [of t 0] by simp
  have r0: "unat r0 = (if odd t then 2 ^ 64 * 18445821805675392311 div 2 ^ 64 else 2 ^ 64)"
    unfolding r0_def odd0 by simp
  have ab: "to_i32 \<bar>- int t\<bar> = int t" using assms by (subst to_i32_id) simp_all
  have "unat (negative_tick_loop (int t) negative_tick_table r0) = negative_ratio t"
    using negative_tick_loop_val [OF negative_factors_table(1) _ negative_factors_table(2), of r0 t]
    by (simp add: r0 negative_ratio_def negative_factors_def)
  then show ?thesis
    unfolding get_sqrt_price_negative_tick_def Let_def ab r0_def [symmetric] .
qed

lemma sqrt_price_val:
  assumes "tick_in_range tick"
  shows "\<exists>p. sqrt_price_from_tick_index tick = Inr p \<and> unat p = price_val tick"
proof (cases "tick \<ge> 0")
  case True
  then have "nat tick \<le> 443636" using assms by (simp add: nat_le_iff tick_in_range_def MAX_TICK_INDEX_def)
  then show ?thesis using True positive_tick_val [of "nat tick"]
    by (simp add: sqrt_price_from_tick_index_def price_val_def tick_in_range_def MAX_TICK_INDEX_def)
next
  case False
  then have "nat (- tick) \<le> 443636" using assms by (simp add: nat_le_iff tick_in_range_def MIN_TICK_INDEX_def)
  then show ?thesis using False negative_tick_val [of "nat (- tick)"]
    by (simp add: sqrt_price_from_tick_index_def price_val_def tick_in_range_def MIN_TICK_INDEX_def)
qed

lemma sqrt_price_Inr_val:
  "sqrt_price_from_tick_index tick = Inr p \<Longrightarrow> tick_in_range tick \<Longrightarrow> unat p = price_val tick"
  using sqrt_price_val [of tick] by auto

lemma price_val_step:
  assumes "MIN_TICK_INDEX \<le> tick" "tick < MAX_TICK_INDEX"
  shows "price_val tick < price_val (tick + 1)"
proof (cases "tick \<ge> 0")
  case True
  then have n: "nat (tick + 1) = nat tick + 1" by simp
  have "positive_ratio (nat tick) + 2 ^ 32 \<le> positive_ratio (nat tick + 1)"
    using assms True by (intro positive_ratio_step) (simp add: MAX_TICK_INDEX_def)
  then have "(positive_ratio (nat tick) + 2 ^ 32) div 2 ^ 32 \<le> positive_ratio (nat tick + 1) div 2 ^ 32"
    by (rule div_le_mono)
  then show ?thesis using True by (simp add: price_val_def n)
next
  case False
  show ?thesis
  proof (cases "tick = - 1")
    case True
    then show ?thesis using negative_ratio_step [of 0] ratio_ends(1,3) by (simp add: price_val_def)
  next
    case neg: False
    then have n: "nat (- tick) = nat (- tick - 1) + 1" using False by simp
    have "negative_ratio (nat (- tick - 1) + 1) < negative_ratio (nat (- tick - 1))"
      using assms False by (intro negative_ratio_step) (simp add: MIN_TICK_INDEX_def)
    then have "negative_ratio (nat (- tick)) < negative_ratio (nat (- tick - 1))" unfolding n .
    then show ?thesis using False neg by (simp add: price_val_def)
  qed
qed

lemma price_val_ends: "price_val MIN_TICK_INDEX = unat MIN_SQRT_PRICE_X64"
  "price_val MAX_TICK_INDEX = unat MAX_SQRT_PRICE_X64"
  using ratio_ends
  by (simp_all add: price_val_def MIN_TICK_INDEX_def MAX_TICK_INDEX_def MIN_SQRT_PRICE_X64_def
      MAX_SQRT_PRICE_X64_def)

section \<open>The price as a strictly increasing curve\<close>

text \<open>
  What the rest of the program relies on: a price for every tick of a range, and neighbouring ticks
  in the order of their prices.
\<close>

locale price_curve =
  fixes price :: "i32 \<Rightarrow> u128 result" and lowest highest :: i32
  assumes price_defined: "lowest \<le> t \<Longrightarrow> t \<le> highest \<Longrightarrow> \<exists>p. price t = Inr p"
    and price_increases: "lowest \<le> t \<Longrightarrow> t < highest \<Longrightarrow> price t = Inr p \<Longrightarrow> price (t + 1) = Inr q \<Longrightarrow> p < q"
begin

lemma price_less:
  assumes "lowest \<le> s" "s < t" "t \<le> highest" "price s = Inr p" "price t = Inr q"
  shows "p < q"
  using assms(2-5)
proof (induction t arbitrary: q rule: int_gr_induct)
  case base
  then show ?case using price_increases [OF assms(1)] by simp
next
  case (step i)
  have i: "lowest \<le> i" "i \<le> highest" "i < highest" using step assms(1) by simp_all
  obtain r where r: "price i = Inr r" using price_defined [OF i(1,2)] by blast
  have "p < r" using step i r by simp
  also have "r < q" using price_increases [OF i(1,3) r] step by simp
  finally show ?case .
qed

lemma price_less_iff:
  assumes "lowest \<le> s" "s \<le> highest" "lowest \<le> t" "t \<le> highest" "price s = Inr p" "price t = Inr q"
  shows "p < q \<longleftrightarrow> s < t"
proof (cases s t rule: linorder_cases)
  case less
  then show ?thesis using price_less [of s t p q] assms by simp
next
  case equal
  then show ?thesis using assms by simp
next
  case greater
  then show ?thesis using price_less [of t s q p] assms by simp
qed

lemma price_le_iff:
  assumes "lowest \<le> s" "s \<le> highest" "lowest \<le> t" "t \<le> highest" "price s = Inr p" "price t = Inr q"
  shows "p \<le> q \<longleftrightarrow> s \<le> t"
  using price_less_iff [of t s q p] assms by (simp add: not_less [symmetric])

lemma price_injective:
  assumes "lowest \<le> s" "s \<le> highest" "lowest \<le> t" "t \<le> highest" "price s = Inr p" "price t = Inr p"
  shows "s = t"
  using price_less_iff [of s t p p] price_less_iff [of t s p p] assms by simp

end

interpretation ticks: price_curve sqrt_price_from_tick_index MIN_TICK_INDEX MAX_TICK_INDEX
proof
  fix t assume "MIN_TICK_INDEX \<le> t" "t \<le> MAX_TICK_INDEX"
  then show "\<exists>p. sqrt_price_from_tick_index t = Inr p"
    using sqrt_price_val [of t] by (auto simp: tick_in_range_def)
next
  fix t p q
  assume a: "MIN_TICK_INDEX \<le> t" "t < MAX_TICK_INDEX" "sqrt_price_from_tick_index t = Inr p"
    "sqrt_price_from_tick_index (t + 1) = Inr q"
  then have "unat p = price_val t" "unat q = price_val (t + 1)"
    using sqrt_price_Inr_val by (simp_all add: tick_in_range_def)
  then show "p < q" using price_val_step [OF a(1,2)] by (simp add: word_less_nat_alt)
qed

lemma sqrt_price_bounds:
  assumes "tick_in_range t" "sqrt_price_from_tick_index t = Inr p"
  shows "MIN_SQRT_PRICE_X64 \<le> p" "p \<le> MAX_SQRT_PRICE_X64"
proof -
  have r: "MIN_TICK_INDEX \<le> t" "t \<le> MAX_TICK_INDEX" "MIN_TICK_INDEX \<le> MAX_TICK_INDEX"
    using assms by (auto simp: tick_in_range_def)
  obtain a b where a: "sqrt_price_from_tick_index MIN_TICK_INDEX = Inr a"
    and b: "sqrt_price_from_tick_index MAX_TICK_INDEX = Inr b"
    using ticks.price_defined r by blast
  have "a = MIN_SQRT_PRICE_X64" "b = MAX_SQRT_PRICE_X64"
    using sqrt_price_Inr_val [OF a] sqrt_price_Inr_val [OF b] r
    by (simp_all add: tick_in_range_def price_val_ends word_unat_eq_iff)
  then show "MIN_SQRT_PRICE_X64 \<le> p" "p \<le> MAX_SQRT_PRICE_X64"
    using ticks.price_le_iff [OF order_refl r(3) r(1,2) a assms(2)]
      ticks.price_le_iff [OF r(1,2) r(3) order_refl assms(2) b] r by simp_all
qed

end
