(* ===== verification/State_Tick.thy ===== *)
theory State_Tick
  imports State_Config Tick_Math
begin

text \<open>
  \<open>state/tick.rs\<close>: a tick, an array of 88 ticks of a pool, and the search for the next
  initialized tick in an array.
\<close>

definition TICK_ARRAY_SIZE :: i32 where "TICK_ARRAY_SIZE = 88"
definition TICK_ARRAY_SIZE_USIZE :: usize where "TICK_ARRAY_SIZE_USIZE = 88"

record Tick =
  tk_initialized :: bool
  tk_liquidity_net :: i128
  tk_liquidity_gross :: u128
  tk_fee_growth_outside_a :: u128
  tk_fee_growth_outside_b :: u128
  tk_reward_growths_outside :: "u128 arr3"

record TickUpdate =
  tu_initialized :: bool
  tu_liquidity_net :: i128
  tu_liquidity_gross :: u128
  tu_fee_growth_outside_a :: u128
  tu_fee_growth_outside_b :: u128
  tu_reward_growths_outside :: "u128 arr3"

definition default_tick :: Tick where
  "default_tick = \<lparr>tk_initialized = False, tk_liquidity_net = 0, tk_liquidity_gross = 0,
     tk_fee_growth_outside_a = 0, tk_fee_growth_outside_b = 0, tk_reward_growths_outside = arr3_of 0\<rparr>"

definition default_tick_update :: TickUpdate where
  "default_tick_update = \<lparr>tu_initialized = False, tu_liquidity_net = 0, tu_liquidity_gross = 0,
     tu_fee_growth_outside_a = 0, tu_fee_growth_outside_b = 0, tu_reward_growths_outside = arr3_of 0\<rparr>"

definition tick_update :: "Tick \<Rightarrow> TickUpdate \<Rightarrow> Tick" where
  "tick_update self update = self\<lparr>
     tk_initialized := tu_initialized update,
     tk_liquidity_net := tu_liquidity_net update,
     tk_liquidity_gross := tu_liquidity_gross update,
     tk_fee_growth_outside_a := tu_fee_growth_outside_a update,
     tk_fee_growth_outside_b := tu_fee_growth_outside_b update,
     tk_reward_growths_outside := tu_reward_growths_outside update\<rparr>"

definition tick_update_from :: "Tick \<Rightarrow> TickUpdate" where
  "tick_update_from tick = \<lparr>
     tu_initialized = tk_initialized tick,
     tu_liquidity_net = tk_liquidity_net tick,
     tu_liquidity_gross = tk_liquidity_gross tick,
     tu_fee_growth_outside_a = tk_fee_growth_outside_a tick,
     tu_fee_growth_outside_b = tk_fee_growth_outside_b tick,
     tu_reward_growths_outside = tk_reward_growths_outside tick\<rparr>"

section \<open>Tick indices\<close>

definition check_is_out_of_bounds :: "i32 \<Rightarrow> bool" where
  "check_is_out_of_bounds tick_index \<longleftrightarrow> tick_index > MAX_TICK_INDEX \<or> tick_index < MIN_TICK_INDEX"

text \<open>The remainder panics for a tick spacing of 0.\<close>

definition checked_rem :: "i32 \<Rightarrow> i32 \<Rightarrow> i32 result" where
  "checked_rem a b = (if b = 0 then Inl Panic else Inr (trunc_rem a b))"

definition check_is_valid_start_tick :: "i32 \<Rightarrow> u16 \<Rightarrow> bool result" where
  "check_is_valid_start_tick tick_index tick_spacing =
     (let ticks_in_array = TICK_ARRAY_SIZE * uint tick_spacing in
      if check_is_out_of_bounds tick_index then
        if tick_index > MIN_TICK_INDEX then Inr False
        else and_then (checked_rem MIN_TICK_INDEX ticks_in_array) (\<lambda>r.
          let min_array_start_index = MIN_TICK_INDEX - (r + ticks_in_array) in
          Inr (tick_index = min_array_start_index))
      else and_then (checked_rem tick_index ticks_in_array) (\<lambda>r. Inr (r = 0)))"

definition check_is_usable_tick :: "i32 \<Rightarrow> u16 \<Rightarrow> bool result" where
  "check_is_usable_tick tick_index tick_spacing =
     (if check_is_out_of_bounds tick_index then Inr False
      else and_then (checked_rem tick_index (uint tick_spacing)) (\<lambda>r. Inr (r = 0)))"

definition bound_tick_index :: "i32 \<Rightarrow> i32" where
  "bound_tick_index tick_index = min (max tick_index MIN_TICK_INDEX) MAX_TICK_INDEX"

section \<open>Tick arrays\<close>

record TickArray =
  ta_start_tick_index :: i32
  ta_ticks :: "Tick list"
  ta_whirlpool :: pubkey

definition default_tick_array :: TickArray where
  "default_tick_array = \<lparr>ta_start_tick_index = 0,
     ta_ticks = replicate TICK_ARRAY_SIZE_USIZE default_tick, ta_whirlpool = default_pubkey\<rparr>"

text \<open>Access to the fixed-size array: an index beyond it panics.\<close>

definition ticks_at :: "TickArray \<Rightarrow> isize \<Rightarrow> Tick result" where
  "ticks_at self offset =
     (if 0 \<le> offset \<and> nat offset < length (ta_ticks self) then Inr (ta_ticks self ! nat offset)
      else Inl Panic)"

definition get_offset :: "i32 \<Rightarrow> i32 \<Rightarrow> u16 \<Rightarrow> isize" where
  "get_offset tick_index start_tick_index tick_spacing =
     (let lhs = to_i32 (tick_index - start_tick_index);
          rhs = uint tick_spacing;
          d = trunc_div lhs rhs;
          r = trunc_rem lhs rhs in
      if (r > 0 \<and> rhs < 0) \<or> (r < 0 \<and> rhs > 0) then d - 1 else d)"

definition tick_offset :: "TickArray \<Rightarrow> i32 \<Rightarrow> u16 \<Rightarrow> isize result" where
  "tick_offset self tick_index tick_spacing =
     (if tick_spacing = 0 then Inl (Err InvalidTickSpacing)
      else Inr (get_offset tick_index (ta_start_tick_index self) tick_spacing))"

definition in_search_range :: "TickArray \<Rightarrow> i32 \<Rightarrow> u16 \<Rightarrow> bool \<Rightarrow> bool" where
  "in_search_range self tick_index tick_spacing shifted =
     (let lower = ta_start_tick_index self;
          upper = to_i32 (ta_start_tick_index self + TICK_ARRAY_SIZE * uint tick_spacing);
          lower = (if shifted then to_i32 (lower - uint tick_spacing) else lower);
          upper = (if shifted then to_i32 (upper - uint tick_spacing) else upper) in
      tick_index \<ge> lower \<and> tick_index < upper)"

definition check_in_array_bounds :: "TickArray \<Rightarrow> i32 \<Rightarrow> u16 \<Rightarrow> bool" where
  "check_in_array_bounds self tick_index tick_spacing = in_search_range self tick_index tick_spacing False"

definition is_min_tick_array :: "TickArray \<Rightarrow> bool" where
  "is_min_tick_array self \<longleftrightarrow> ta_start_tick_index self \<le> MIN_TICK_INDEX"

definition is_max_tick_array :: "TickArray \<Rightarrow> u16 \<Rightarrow> bool" where
  "is_max_tick_array self tick_spacing \<longleftrightarrow>
     to_i32 (ta_start_tick_index self + TICK_ARRAY_SIZE * uint tick_spacing) > MAX_TICK_INDEX"

text \<open>The loop of the search, which walks over the array to the left or to the right.\<close>

function search_loop :: "TickArray \<Rightarrow> u16 \<Rightarrow> bool \<Rightarrow> i32 \<Rightarrow> i32 option result" where
  "search_loop self tick_spacing a_to_b curr_offset =
     (if curr_offset \<ge> 0 \<and> curr_offset < TICK_ARRAY_SIZE then
        and_then (ticks_at self curr_offset) (\<lambda>curr_tick.
        if tk_initialized curr_tick
        then Inr (Some (to_i32 (to_i32 (curr_offset * uint tick_spacing) + ta_start_tick_index self)))
        else search_loop self tick_spacing a_to_b (if a_to_b then curr_offset - 1 else curr_offset + 1))
      else Inr None)"
  by pat_completeness auto
termination
  by (relation "measure (\<lambda>(_, _, a_to_b, curr_offset). nat (if a_to_b then curr_offset + 1 else TICK_ARRAY_SIZE - curr_offset))")
    auto

definition array_get_next_init_tick_index :: "TickArray \<Rightarrow> i32 \<Rightarrow> u16 \<Rightarrow> bool \<Rightarrow> i32 option result" where
  "array_get_next_init_tick_index self tick_index tick_spacing a_to_b =
     (if \<not> in_search_range self tick_index tick_spacing (\<not> a_to_b)
      then Inl (Err InvalidTickArraySequence)
      else and_then (tick_offset self tick_index tick_spacing) (\<lambda>offset.
        let curr_offset = to_i32 offset;
            curr_offset = (if \<not> a_to_b then to_i32 (curr_offset + 1) else curr_offset) in
        search_loop self tick_spacing a_to_b curr_offset))"

definition tick_array_initialize :: "TickArray \<Rightarrow> pubkey \<Rightarrow> u16 \<Rightarrow> i32 \<Rightarrow> TickArray result" where
  "tick_array_initialize self whirlpool_key tick_spacing start_tick_index =
     and_then (check_is_valid_start_tick start_tick_index tick_spacing) (\<lambda>valid.
     if \<not> valid then Inl (Err InvalidStartTick)
     else Inr (self\<lparr>ta_whirlpool := whirlpool_key, ta_start_tick_index := start_tick_index\<rparr>))"

text \<open>The checks in front of an access: bounds first, so that the tick is not examined outside them.\<close>

definition accessible_offset :: "TickArray \<Rightarrow> i32 \<Rightarrow> u16 \<Rightarrow> isize result" where
  "accessible_offset self tick_index tick_spacing =
     and_then (if \<not> check_in_array_bounds self tick_index tick_spacing then Inr False
               else check_is_usable_tick tick_index tick_spacing) (\<lambda>ok.
     if \<not> ok then Inl (Err TickNotFound)
     else and_then (tick_offset self tick_index tick_spacing) (\<lambda>offset.
       if offset < 0 then Inl (Err TickNotFound) else Inr offset))"

definition get_tick :: "TickArray \<Rightarrow> i32 \<Rightarrow> u16 \<Rightarrow> Tick result" where
  "get_tick self tick_index tick_spacing =
     and_then (accessible_offset self tick_index tick_spacing) (ticks_at self)"

definition update_tick :: "TickArray \<Rightarrow> i32 \<Rightarrow> u16 \<Rightarrow> TickUpdate \<Rightarrow> TickArray result" where
  "update_tick self tick_index tick_spacing update =
     and_then (accessible_offset self tick_index tick_spacing) (\<lambda>offset.
     and_then (ticks_at self offset) (\<lambda>tick.
     Inr (self\<lparr>ta_ticks := (ta_ticks self)[nat offset := tick_update tick update]\<rparr>)))"

section \<open>Tick indices of a spacing\<close>

lemma uint_u16_bounds: "0 \<le> uint (s :: u16)" "uint (s :: u16) < 65536"
  using uint_lt2p [of s] by simp_all

lemma uint_pos_iff: "0 < uint s \<longleftrightarrow> s \<noteq> 0" for s :: u16
proof -
  have "uint s = 0 \<longleftrightarrow> s = 0" by (simp add: word_uint_eq_iff)
  moreover have "0 \<le> uint s" by simp
  ultimately show ?thesis by linarith
qed

definition ticks_in_array :: "u16 \<Rightarrow> int" where
  "ticks_in_array s = TICK_ARRAY_SIZE * uint s"

lemma ticks_in_array_bounds: "s \<noteq> 0 \<Longrightarrow> 0 < ticks_in_array s" "ticks_in_array s \<le> 5767080"
  using uint_u16_bounds [of s] uint_pos_iff [of s] by (simp_all add: ticks_in_array_def TICK_ARRAY_SIZE_def)

lemma checked_rem_eq_0: "b > 0 \<Longrightarrow> and_then (checked_rem a b) (\<lambda>r. Inr (r = 0)) = Inr (b dvd a)"
  by (simp add: checked_rem_def trunc_rem_eq_0_iff)

lemma in_bounds_iff: "\<not> check_is_out_of_bounds t \<longleftrightarrow> tick_in_range t"
  by (auto simp: check_is_out_of_bounds_def tick_in_range_def)

lemma check_is_usable_tick_eq:
  "s \<noteq> 0 \<Longrightarrow> check_is_usable_tick t s = Inr (tick_in_range t \<and> uint s dvd t)"
  by (simp add: check_is_usable_tick_def checked_rem_eq_0 uint_pos_iff in_bounds_iff [symmetric])

lemma bound_tick_index_range: "tick_in_range (bound_tick_index t)"
  by (auto simp: bound_tick_index_def tick_in_range_def MIN_TICK_INDEX_def MAX_TICK_INDEX_def)

text \<open>
  The left-most array starts below the range: it is the one multiple of the array's width that is
  at most that width below the lowest tick.
\<close>

lemma left_edge_multiple:
  fixes n m t :: int
  assumes n: "0 < n" and m: "m < 0"
  shows "t = m - (trunc_rem m n + n) \<longleftrightarrow> n dvd t \<and> m - n \<le> t \<and> t < m"
proof -
  have tr: "trunc_rem m n = - ((- m) mod n)" using n m by (simp add: trunc_rem_pos_neg)
  have b: "0 \<le> (- m) mod n" "(- m) mod n < n" using n by simp_all
  have "m - trunc_rem m n = - (n * (- m div n))"
    using mult_div_mod_eq [of n "- m"] unfolding tr by linarith
  then have "m - (trunc_rem m n + n) = n * (- (- m div n) - 1)" by (simp add: algebra_simps)
  then have d: "n dvd m - (trunc_rem m n + n)" by (metis dvd_triv_left)
  have bd: "m - n \<le> m - (trunc_rem m n + n)" "m - (trunc_rem m n + n) < m" using b tr by linarith+
  show ?thesis
  proof
    assume "n dvd t \<and> m - n \<le> t \<and> t < m"
    then have "n dvd t - (m - (trunc_rem m n + n))" "\<bar>t - (m - (trunc_rem m n + n))\<bar> < n"
      using d bd by (auto intro: dvd_diff)
    then have "t - (m - (trunc_rem m n + n)) = 0"
      by (metis abs_of_pos dvd_imp_le_int n not_le)
    then show "t = m - (trunc_rem m n + n)" by simp
  qed (use d bd in auto)
qed

lemma check_is_valid_start_tick_eq:
  assumes "s \<noteq> 0"
  shows "check_is_valid_start_tick t s
    = Inr (ticks_in_array s dvd t \<and> MIN_TICK_INDEX - ticks_in_array s \<le> t \<and> t \<le> MAX_TICK_INDEX)"
proof -
  note n = ticks_in_array_bounds(1) [OF assms]
  have mm: "MIN_TICK_INDEX < 0" "MIN_TICK_INDEX \<le> MAX_TICK_INDEX"
    by (simp_all add: MIN_TICK_INDEX_def MAX_TICK_INDEX_def)
  show ?thesis
  proof (cases "check_is_out_of_bounds t")
    case False
    then show ?thesis using n checked_rem_eq_0 [OF n, of t] unfolding ticks_in_array_def
      by (auto simp: check_is_valid_start_tick_def check_is_out_of_bounds_def)
  next
    case True
    show ?thesis
    proof (cases "t > MIN_TICK_INDEX")
      case gt: True
      then show ?thesis using True mm
        by (auto simp: check_is_valid_start_tick_def check_is_out_of_bounds_def)
    next
      case le: False
      then have lt: "t < MIN_TICK_INDEX" using True mm by (auto simp: check_is_out_of_bounds_def)
      have "check_is_valid_start_tick t s
          = Inr (t = MIN_TICK_INDEX - (trunc_rem MIN_TICK_INDEX (ticks_in_array s) + ticks_in_array s))"
        using True le n unfolding check_is_valid_start_tick_def checked_rem_def Let_def
          ticks_in_array_def [symmetric] by simp
      also have "\<dots> = Inr (ticks_in_array s dvd t \<and> MIN_TICK_INDEX - ticks_in_array s \<le> t \<and> t \<le> MAX_TICK_INDEX)"
        using lt mm unfolding left_edge_multiple [OF n mm(1)] by auto
      finally show ?thesis .
    qed
  qed
qed

section \<open>Offsets\<close>

lemma get_offset_eq:
  assumes "s \<noteq> 0" "- 2147483648 \<le> t - start" "t - start < 2147483648"
  shows "get_offset t start s = (t - start) div uint s"
proof -
  have s: "0 < uint s" using assms(1) by (simp add: uint_pos_iff)
  have l: "to_i32 (t - start) = t - start" using assms by (intro to_i32_id) simp_all
  show ?thesis
  proof (cases "t - start < 0")
    case True
    let ?x = "- (t - start)"
    have fl: "(t - start) div uint s = (if ?x mod uint s = 0 then - (?x div uint s) else - (?x div uint s) - 1)"
      using zdiv_zminus1_eq_if [of "uint s" ?x] s by simp
    show ?thesis
      unfolding get_offset_def Let_def l fl
      using True s pos_mod_sign [OF s, of ?x]
      by (cases "?x mod uint s = 0") (simp_all add: trunc_div_pos_neg trunc_rem_pos_neg less_le)
  next
    case False
    then show ?thesis unfolding get_offset_def Let_def l
      using s pos_mod_sign [OF s, of "t - start"]
      by (simp add: trunc_div_pos_nonneg trunc_rem_pos_nonneg not_less del: pos_mod_sign)
  qed
qed

text \<open>
  An array of a pool with spacing \<open>s\<close>: 88 ticks, those initialized within the range of ticks,
  and a start that \<open>initialize\<close> accepts.
\<close>

definition tick_array_ok :: "u16 \<Rightarrow> TickArray \<Rightarrow> bool" where
  "tick_array_ok s ta \<longleftrightarrow> s \<noteq> 0 \<and> length (ta_ticks ta) = TICK_ARRAY_SIZE_USIZE
     \<and> (\<forall>j < TICK_ARRAY_SIZE_USIZE. tk_initialized (ta_ticks ta ! j)
          \<longrightarrow> tick_in_range (ta_start_tick_index ta + int j * uint s))
     \<and> ticks_in_array s dvd ta_start_tick_index ta
     \<and> MIN_TICK_INDEX - ticks_in_array s \<le> ta_start_tick_index ta
     \<and> ta_start_tick_index ta \<le> MAX_TICK_INDEX"

lemma tick_array_okD:
  assumes "tick_array_ok s ta"
  shows "s \<noteq> 0" "0 < uint s" "length (ta_ticks ta) = 88" "uint s dvd ta_start_tick_index ta"
    "- 6210716 \<le> ta_start_tick_index ta" "ta_start_tick_index ta \<le> 443636"
    "ticks_in_array s dvd ta_start_tick_index ta"
proof -
  show s: "s \<noteq> 0" "length (ta_ticks ta) = 88" "ticks_in_array s dvd ta_start_tick_index ta"
    "ta_start_tick_index ta \<le> 443636"
    using assms by (simp_all add: tick_array_ok_def TICK_ARRAY_SIZE_USIZE_def MAX_TICK_INDEX_def)
  then show "0 < uint s" by (simp add: uint_pos_iff)
  show "uint s dvd ta_start_tick_index ta"
    using s(3) unfolding ticks_in_array_def by (rule dvd_mult_right)
  show "- 6210716 \<le> ta_start_tick_index ta"
    using assms ticks_in_array_bounds(2) [of s] by (simp add: tick_array_ok_def MIN_TICK_INDEX_def)
qed

lemma in_search_range_eq:
  assumes "tick_array_ok s ta"
  shows "in_search_range ta t s shifted \<longleftrightarrow>
    ta_start_tick_index ta - (if shifted then uint s else 0) \<le> t
    \<and> t < ta_start_tick_index ta + ticks_in_array s - (if shifted then uint s else 0)"
proof -
  note d = tick_array_okD [OF assms] and n = ticks_in_array_bounds [of s] and u = uint_u16_bounds [of s]
  have "to_i32 (ta_start_tick_index ta + TICK_ARRAY_SIZE * uint s) = ta_start_tick_index ta + ticks_in_array s"
    unfolding ticks_in_array_def [symmetric] using d n by (intro to_i32_id) linarith+
  moreover have "to_i32 (ta_start_tick_index ta + ticks_in_array s - uint s)
      = ta_start_tick_index ta + ticks_in_array s - uint s"
    "to_i32 (ta_start_tick_index ta - uint s) = ta_start_tick_index ta - uint s"
    using d n u by (intro to_i32_id; linarith)+
  ultimately show ?thesis by (simp add: in_search_range_def Let_def)
qed

lemma div_multiple_bounds:
  fixes x s n :: int
  assumes s: "0 < s"
  shows "0 \<le> x div s \<longleftrightarrow> 0 \<le> x" "x div s < n \<longleftrightarrow> x < n * s"
proof -
  show "0 \<le> x div s \<longleftrightarrow> 0 \<le> x" using s by (rule pos_imp_zdiv_nonneg_iff)
  have e: "x = x div s * s + x mod s" "0 \<le> x mod s" "x mod s < s" using s by simp_all
  show "x div s < n \<longleftrightarrow> x < n * s"
  proof
    assume "x div s < n"
    then have "(x div s + 1) * s \<le> n * s" using s by (intro mult_right_mono) simp_all
    then have "x div s * s + s \<le> n * s" by (simp add: distrib_right)
    then show "x < n * s" using e by linarith
  next
    assume "x < n * s"
    then have "x div s * s < n * s" using e by linarith
    then show "x div s < n" using s by simp
  qed
qed

section \<open>Reading and writing a tick\<close>

text \<open>The tick indices an array holds, and the slot of each.\<close>

definition holds_tick :: "u16 \<Rightarrow> TickArray \<Rightarrow> i32 \<Rightarrow> bool" where
  "holds_tick s ta t \<longleftrightarrow> ta_start_tick_index ta \<le> t \<and> t < ta_start_tick_index ta + ticks_in_array s
     \<and> tick_in_range t \<and> uint s dvd t"

definition slot :: "u16 \<Rightarrow> TickArray \<Rightarrow> i32 \<Rightarrow> nat" where
  "slot s ta t = nat ((t - ta_start_tick_index ta) div uint s)"

lemma tick_in_rangeD: "tick_in_range t \<Longrightarrow> - 443636 \<le> t \<and> t \<le> 443636"
  by (simp add: tick_in_range_def MIN_TICK_INDEX_def MAX_TICK_INDEX_def)

lemma slot_bounds:
  assumes "tick_array_ok s ta" "holds_tick s ta t"
  shows "0 \<le> (t - ta_start_tick_index ta) div uint s" "slot s ta t < 88"
    "t = ta_start_tick_index ta + int (slot s ta t) * uint s"
proof -
  note d = tick_array_okD [OF assms(1)]
  have b: "0 \<le> t - ta_start_tick_index ta" "t - ta_start_tick_index ta < 88 * uint s"
    using assms(2) by (simp_all add: holds_tick_def ticks_in_array_def TICK_ARRAY_SIZE_def)
  then show z: "0 \<le> (t - ta_start_tick_index ta) div uint s" using d by (simp add: div_multiple_bounds)
  have "(t - ta_start_tick_index ta) div uint s < 88" using b d by (simp add: div_multiple_bounds)
  then show "slot s ta t < 88" by (simp add: slot_def)
  have "uint s dvd t - ta_start_tick_index ta" using assms(2) d(4) by (simp add: holds_tick_def)
  then have "t - ta_start_tick_index ta = (t - ta_start_tick_index ta) div uint s * uint s" by simp
  then show "t = ta_start_tick_index ta + int (slot s ta t) * uint s" using z by (simp add: slot_def)
qed

lemma accessible_offset_eq:
  assumes ok: "tick_array_ok s ta"
  shows "accessible_offset ta t s = (if holds_tick s ta t
     then Inr ((t - ta_start_tick_index ta) div uint s) else Inl (Err TickNotFound))"
proof (cases "holds_tick s ta t")
  case True
  note d = tick_array_okD [OF ok] and b = slot_bounds(1) [OF ok True]
  have r: "- 443636 \<le> t \<and> t \<le> 443636" using True tick_in_rangeD by (simp add: holds_tick_def)
  have "tick_offset ta t s = Inr ((t - ta_start_tick_index ta) div uint s)"
    unfolding tick_offset_def using d r by (simp add: get_offset_eq)
  then show ?thesis using True b d
    by (simp add: accessible_offset_def check_in_array_bounds_def in_search_range_eq [OF ok]
        check_is_usable_tick_eq holds_tick_def)
next
  case False
  then show ?thesis using tick_array_okD(1) [OF ok]
    by (auto simp: accessible_offset_def check_in_array_bounds_def in_search_range_eq [OF ok]
        check_is_usable_tick_eq holds_tick_def)
qed

lemma get_tick_eq:
  assumes ok: "tick_array_ok s ta"
  shows "get_tick ta t s = (if holds_tick s ta t then Inr (ta_ticks ta ! slot s ta t)
     else Inl (Err TickNotFound))"
  using slot_bounds [OF ok, of t] tick_array_okD [OF ok]
  by (auto simp: get_tick_def accessible_offset_eq [OF ok] ticks_at_def slot_def)

lemma tick_update_eq: "tick_update t u = tick_update t' u"
  by (simp add: tick_update_def)

lemma update_tick_eq:
  assumes ok: "tick_array_ok s ta"
  shows "update_tick ta t s u = (if holds_tick s ta t
     then Inr (ta\<lparr>ta_ticks := (ta_ticks ta)[slot s ta t := tick_update default_tick u]\<rparr>)
     else Inl (Err TickNotFound))"
  using slot_bounds [OF ok, of t] tick_array_okD [OF ok]
  by (auto simp: update_tick_def accessible_offset_eq [OF ok] ticks_at_def slot_def
      intro: arg_cong [where f = "\<lambda>x. ta\<lparr>ta_ticks := (ta_ticks ta)[_ := x]\<rparr>"] tick_update_eq)

lemma update_tick_holds:
  "holds_tick s (ta\<lparr>ta_ticks := xs\<rparr>) t = holds_tick s ta t" "slot s (ta\<lparr>ta_ticks := xs\<rparr>) t = slot s ta t"
  by (simp_all add: holds_tick_def slot_def)

lemma slot_inj:
  "tick_array_ok s ta \<Longrightarrow> holds_tick s ta t \<Longrightarrow> holds_tick s ta t' \<Longrightarrow> slot s ta t = slot s ta t' \<Longrightarrow> t = t'"
  using slot_bounds(3) [of s ta t] slot_bounds(3) [of s ta t'] by simp

lemma update_tick_ok:
  assumes ok: "tick_array_ok s ta" and u: "update_tick ta t s u = Inr ta'"
  shows "tick_array_ok s ta'" "ta_start_tick_index ta' = ta_start_tick_index ta"
    "ta_whirlpool ta' = ta_whirlpool ta"
proof -
  have h: "holds_tick s ta t" and ta': "ta' = ta\<lparr>ta_ticks := (ta_ticks ta)[slot s ta t := tick_update default_tick u]\<rparr>"
    using u by (auto simp: update_tick_eq [OF ok] split: if_splits)
  show "ta_start_tick_index ta' = ta_start_tick_index ta" "ta_whirlpool ta' = ta_whirlpool ta"
    by (simp_all add: ta')
  have "tick_in_range (ta_start_tick_index ta + int (slot s ta t) * uint s)"
    using h slot_bounds(3) [OF ok h] by (simp add: holds_tick_def)
  then have "tick_in_range (ta_start_tick_index ta + int j * uint s)"
    if "j < TICK_ARRAY_SIZE_USIZE" "tk_initialized (ta_ticks ta' ! j)" for j
    using ok that by (cases "j = slot s ta t") (auto simp: tick_array_ok_def ta')
  then show "tick_array_ok s ta'" using ok by (simp add: tick_array_ok_def ta')
qed

section \<open>The contract of a store of ticks\<close>

text \<open>
  What the managers rely on when they read and write ticks, of an array and of the sequence of
  arrays of a swap alike: writing replaces the tick at its index and no other.
\<close>

locale tick_store =
  fixes ok :: "'s \<Rightarrow> bool"
    and get :: "'s \<Rightarrow> 'k \<Rightarrow> Tick result"
    and put :: "'s \<Rightarrow> 'k \<Rightarrow> TickUpdate \<Rightarrow> 's result"
  assumes put_ok: "ok st \<Longrightarrow> put st k u = Inr st' \<Longrightarrow> ok st'"
    and put_defined: "ok st \<Longrightarrow> (\<exists>st'. put st k u = Inr st') \<longleftrightarrow> (\<exists>t. get st k = Inr t)"
    and get_put_same: "ok st \<Longrightarrow> put st k u = Inr st' \<Longrightarrow> get st' k = Inr (tick_update default_tick u)"
    and get_put_other: "ok st \<Longrightarrow> put st k u = Inr st' \<Longrightarrow> k' \<noteq> k \<Longrightarrow> get st' k' = get st k'"
begin

lemma get_put:
  assumes "ok st" "put st k u = Inr st'"
  shows "get st' k' = (if k' = k then Inr (tick_update default_tick u) else get st k')"
  using get_put_same [OF assms] get_put_other [OF assms] by auto

lemma put_restores:
  assumes "ok st" "get st k = Inr t" "put st k u = Inr st1" "put st1 k (tick_update_from t) = Inr st2"
  shows "get st2 k' = get st k'"
proof -
  have "tick_update default_tick (tick_update_from t) = t"
    by (simp add: tick_update_def tick_update_from_def)
  then show ?thesis
    using get_put [OF assms(1,3)] get_put [OF put_ok [OF assms(1,3)] assms(4)] assms(2) by simp
qed

lemma put_twice:
  assumes "ok st" "put st k u = Inr st1" "put st1 k v = Inr st2" "put st k v = Inr st'"
  shows "get st2 k' = get st' k'"
  using get_put [OF assms(1,2)] get_put [OF put_ok [OF assms(1,2)] assms(3)] get_put [OF assms(1,4)]
  by simp

lemma put_commutes:
  assumes "ok st" "k \<noteq> l" "put st k u = Inr a" "put a l v = Inr ab" "put st l v = Inr b" "put b k u = Inr ba"
  shows "get ab i = get ba i"
  using assms(2) get_put [OF assms(1,3)] get_put [OF put_ok [OF assms(1,3)] assms(4)]
    get_put [OF assms(1,5)] get_put [OF put_ok [OF assms(1,5)] assms(6)] by simp

end

interpretation array_store: tick_store "tick_array_ok s" "\<lambda>ta t. get_tick ta t s"
    "\<lambda>ta t u. update_tick ta t s u" for s
proof
  fix st st' k u
  assume ok: "tick_array_ok s st" and u: "update_tick st k s u = Inr st'"
  show ok': "tick_array_ok s st'" by (rule update_tick_ok [OF ok u])
  have h: "holds_tick s st k" and st': "st' = st\<lparr>ta_ticks := (ta_ticks st)[slot s st k := tick_update default_tick u]\<rparr>"
    using u by (auto simp: update_tick_eq [OF ok] split: if_splits)
  show "get_tick st' k s = Inr (tick_update default_tick u)"
    using h slot_bounds(2) [OF ok h] tick_array_okD(3) [OF ok]
    by (simp add: get_tick_eq [OF ok']) (simp add: st' update_tick_holds)
  fix k' assume "k' \<noteq> k"
  then have "holds_tick s st k' \<Longrightarrow> slot s st k \<noteq> slot s st k'" using slot_inj [OF ok _ h, of k'] by metis
  then show "get_tick st' k' s = get_tick st k' s"
    by (simp add: get_tick_eq [OF ok'] get_tick_eq [OF ok]) (simp add: st' update_tick_holds)
next
  fix st k u assume ok: "tick_array_ok s st"
  show "(\<exists>st'. update_tick st k s u = Inr st') \<longleftrightarrow> (\<exists>t. get_tick st k s = Inr t)"
    by (simp add: update_tick_eq [OF ok] get_tick_eq [OF ok])
qed

section \<open>The search for the next initialized tick\<close>

definition initialized_at :: "u16 \<Rightarrow> TickArray \<Rightarrow> i32 \<Rightarrow> bool" where
  "initialized_at s ta t \<longleftrightarrow>
     (\<exists>j < 88. t = ta_start_tick_index ta + int j * uint s \<and> tk_initialized (ta_ticks ta ! j))"

lemma initialized_at_holds:
  assumes ok: "tick_array_ok s ta" and i: "initialized_at s ta t"
  shows "holds_tick s ta t" "get_tick ta t s = Inr (ta_ticks ta ! slot s ta t)"
    "tk_initialized (ta_ticks ta ! slot s ta t)"
proof -
  note d = tick_array_okD [OF ok]
  obtain j where j: "j < 88" "t = ta_start_tick_index ta + int j * uint s" "tk_initialized (ta_ticks ta ! j)"
    using i by (auto simp: initialized_at_def)
  have "int j * uint s < 88 * uint s" using j(1) d(2) by simp
  moreover have "0 \<le> int j * uint s" using d(2) by simp
  moreover have "tick_in_range t" using ok j by (simp add: tick_array_ok_def TICK_ARRAY_SIZE_USIZE_def)
  ultimately show h: "holds_tick s ta t"
    using d(4) j(2) by (simp add: holds_tick_def ticks_in_array_def TICK_ARRAY_SIZE_def)
  have "slot s ta t = j" using j(2) d(2) by (simp add: slot_def)
  then show "tk_initialized (ta_ticks ta ! slot s ta t)" using j(3) by simp
  show "get_tick ta t s = Inr (ta_ticks ta ! slot s ta t)" using h by (simp add: get_tick_eq [OF ok])
qed

lemma slot_index_val:
  assumes "tick_array_ok s ta" "0 \<le> i" "i < 88"
  shows "to_i32 (to_i32 (i * uint s) + ta_start_tick_index ta) = ta_start_tick_index ta + i * uint s"
proof -
  note d = tick_array_okD [OF assms(1)] and u = uint_u16_bounds [of s]
  have "0 \<le> i * uint s" "i * uint s \<le> 88 * 65536"
    using assms u by (simp, intro mult_mono) simp_all
  then show ?thesis using d by (simp add: to_i32_id)
qed

declare search_loop.simps [simp del]

lemma search_loop_left:
  assumes ok: "tick_array_ok s ta"
  shows "i < 88 \<Longrightarrow> - 1 \<le> i \<Longrightarrow> search_loop ta s True i = Inr r \<Longrightarrow>
    (case r of
       Some x \<Rightarrow> \<exists>j. 0 \<le> j \<and> j \<le> i \<and> x = ta_start_tick_index ta + j * uint s
         \<and> tk_initialized (ta_ticks ta ! nat j) \<and> (\<forall>k. j < k \<and> k \<le> i \<longrightarrow> \<not> tk_initialized (ta_ticks ta ! nat k))
     | None \<Rightarrow> \<forall>k. 0 \<le> k \<and> k \<le> i \<longrightarrow> \<not> tk_initialized (ta_ticks ta ! nat k))"
proof (induction "nat (i + 1)" arbitrary: i)
  case 0
  then have i: "i = - 1" by simp
  have "r = None" using 0(4) unfolding i by (subst (asm) search_loop.simps) simp
  then show ?case using i by auto
next
  case (Suc n)
  have i: "0 \<le> i" "i < 88" using Suc by simp_all
  have t: "ticks_at ta i = Inr (ta_ticks ta ! nat i)"
    using i tick_array_okD(3) [OF ok] by (simp add: ticks_at_def)
  show ?case
  proof (cases "tk_initialized (ta_ticks ta ! nat i)")
    case True
    then have "r = Some (ta_start_tick_index ta + i * uint s)"
      using Suc.prems i t slot_index_val [OF ok i]
      by (simp add: search_loop.simps [of _ _ _ i] TICK_ARRAY_SIZE_def)
    then show ?thesis using True i by (auto intro!: exI [of _ i])
  next
    case False
    then have "search_loop ta s True (i - 1) = Inr r"
      using Suc.prems i t by (simp add: search_loop.simps [of _ _ _ i] TICK_ARRAY_SIZE_def)
    moreover have "n = nat (i - 1 + 1)" using Suc(2) by simp
    ultimately have IH: "case r of
       Some x \<Rightarrow> \<exists>j. 0 \<le> j \<and> j \<le> i - 1 \<and> x = ta_start_tick_index ta + j * uint s
         \<and> tk_initialized (ta_ticks ta ! nat j) \<and> (\<forall>k. j < k \<and> k \<le> i - 1 \<longrightarrow> \<not> tk_initialized (ta_ticks ta ! nat k))
     | None \<Rightarrow> \<forall>k. 0 \<le> k \<and> k \<le> i - 1 \<longrightarrow> \<not> tk_initialized (ta_ticks ta ! nat k)"
      using Suc(1) [of "i - 1"] i by simp
    have le: "k \<le> i \<longleftrightarrow> k = i \<or> k \<le> i - 1" for k by auto
    show ?thesis
    proof (cases r)
      case None
      then show ?thesis using IH False by (auto simp: le)
    next
      case (Some x)
      then obtain j where "0 \<le> j \<and> j \<le> i - 1 \<and> x = ta_start_tick_index ta + j * uint s
         \<and> tk_initialized (ta_ticks ta ! nat j) \<and> (\<forall>k. j < k \<and> k \<le> i - 1 \<longrightarrow> \<not> tk_initialized (ta_ticks ta ! nat k))"
        using IH by auto
      then show ?thesis using Some False by (auto simp: le intro!: exI [of _ j])
    qed
  qed
qed

lemma search_loop_right:
  assumes ok: "tick_array_ok s ta"
  shows "0 \<le> i \<Longrightarrow> i \<le> 88 \<Longrightarrow> search_loop ta s False i = Inr r \<Longrightarrow>
    (case r of
       Some x \<Rightarrow> \<exists>j. i \<le> j \<and> j < 88 \<and> x = ta_start_tick_index ta + j * uint s
         \<and> tk_initialized (ta_ticks ta ! nat j) \<and> (\<forall>k. i \<le> k \<and> k < j \<longrightarrow> \<not> tk_initialized (ta_ticks ta ! nat k))
     | None \<Rightarrow> \<forall>k. i \<le> k \<and> k < 88 \<longrightarrow> \<not> tk_initialized (ta_ticks ta ! nat k))"
proof (induction "nat (88 - i)" arbitrary: i)
  case 0
  then have i: "i = 88" by simp
  have "r = None" using 0(4) unfolding i by (subst (asm) search_loop.simps) (simp add: TICK_ARRAY_SIZE_def)
  then show ?case using i by auto
next
  case (Suc n)
  have i: "0 \<le> i" "i < 88" using Suc by simp_all
  have t: "ticks_at ta i = Inr (ta_ticks ta ! nat i)"
    using i tick_array_okD(3) [OF ok] by (simp add: ticks_at_def)
  show ?case
  proof (cases "tk_initialized (ta_ticks ta ! nat i)")
    case True
    then have "r = Some (ta_start_tick_index ta + i * uint s)"
      using Suc.prems i t slot_index_val [OF ok i]
      by (simp add: search_loop.simps [of _ _ _ i] TICK_ARRAY_SIZE_def)
    then show ?thesis using True i by (auto intro!: exI [of _ i])
  next
    case False
    then have "search_loop ta s False (i + 1) = Inr r"
      using Suc.prems i t by (simp add: search_loop.simps [of _ _ _ i] TICK_ARRAY_SIZE_def)
    moreover have "n = nat (88 - (i + 1))" using Suc(2) by simp
    ultimately have IH: "case r of
       Some x \<Rightarrow> \<exists>j. i + 1 \<le> j \<and> j < 88 \<and> x = ta_start_tick_index ta + j * uint s
         \<and> tk_initialized (ta_ticks ta ! nat j) \<and> (\<forall>k. i + 1 \<le> k \<and> k < j \<longrightarrow> \<not> tk_initialized (ta_ticks ta ! nat k))
     | None \<Rightarrow> \<forall>k. i + 1 \<le> k \<and> k < 88 \<longrightarrow> \<not> tk_initialized (ta_ticks ta ! nat k)"
      using Suc(1) [of "i + 1"] i by simp
    have le: "i \<le> k \<longleftrightarrow> k = i \<or> i + 1 \<le> k" for k by auto
    show ?thesis
    proof (cases r)
      case None
      then show ?thesis using IH False by (auto simp: le)
    next
      case (Some x)
      then obtain j where "i + 1 \<le> j \<and> j < 88 \<and> x = ta_start_tick_index ta + j * uint s
         \<and> tk_initialized (ta_ticks ta ! nat j) \<and> (\<forall>k. i + 1 \<le> k \<and> k < j \<longrightarrow> \<not> tk_initialized (ta_ticks ta ! nat k))"
        using IH by auto
      then show ?thesis using Some False by (auto simp: le intro!: exI [of _ j])
    qed
  qed
qed

text \<open>What the search promises, as a relation between the start of the search and its result.\<close>

definition next_initialized :: "(i32 \<Rightarrow> bool) \<Rightarrow> bool \<Rightarrow> i32 \<Rightarrow> i32 option \<Rightarrow> bool" where
  "next_initialized init a_to_b t r \<longleftrightarrow>
     (case r of
        Some x \<Rightarrow> init x \<and> (if a_to_b then x \<le> t \<and> (\<forall>y. x < y \<and> y \<le> t \<longrightarrow> \<not> init y)
                           else t < x \<and> (\<forall>y. t < y \<and> y < x \<longrightarrow> \<not> init y))
      | None \<Rightarrow> (if a_to_b then \<forall>y \<le> t. \<not> init y else \<forall>y > t. \<not> init y))"

lemma array_search_correct:
  assumes ok: "tick_array_ok s ta" and r: "array_get_next_init_tick_index ta t s a_to_b = Inr r"
  shows "next_initialized (initialized_at s ta) a_to_b t r"
proof -
  note d = tick_array_okD [OF ok] and n = ticks_in_array_bounds [of s] and u = uint_u16_bounds [of s]
  define o' where "o' = (t - ta_start_tick_index ta) div uint s"
  let ?S = "ta_start_tick_index ta"
  have rng: "in_search_range ta t s (\<not> a_to_b)" and
    off: "tick_offset ta t s = Inr (get_offset t ?S s)" and
    run: "search_loop ta s a_to_b (if \<not> a_to_b then to_i32 (to_i32 (get_offset t ?S s) + 1) else to_i32 (get_offset t ?S s)) = Inr r"
    using r d(1) by (auto simp: array_get_next_init_tick_index_def tick_offset_def Let_def split: if_splits)
  have tb: "?S - (if a_to_b then 0 else uint s) \<le> t" "t < ?S + 88 * uint s - (if a_to_b then 0 else uint s)"
    using rng by (simp_all add: in_search_range_eq [OF ok] ticks_in_array_def TICK_ARRAY_SIZE_def split: if_splits)
  have go: "get_offset t ?S s = o'"
    unfolding o'_def using d(1) tb u by (intro get_offset_eq) (auto split: if_splits)
  have lt: "o' < (if a_to_b then 88 else 87)"
    using tb(2) d(2) by (simp add: o'_def div_multiple_bounds left_diff_distrib split: if_splits)
  have ge: "(if a_to_b then 0 else - 1) \<le> o'"
  proof (cases a_to_b)
    case False
    have "0 \<le> (t - ?S + uint s) div uint s" using False tb(1) d(2) by (simp add: div_multiple_bounds)
    then show ?thesis using False d(2) div_add_self2 [of "uint s" "t - ?S"] by (simp add: o'_def)
  qed (use tb(1) d(2) in \<open>simp add: o'_def div_multiple_bounds\<close>)
  have w: "to_i32 o' = o'" "to_i32 (o' + 1) = o' + 1"
    using lt ge by (auto intro!: to_i32_id split: if_splits)
  have le_iff: "j \<le> o' \<longleftrightarrow> ?S + j * uint s \<le> t" for j
    using div_multiple_bounds(2) [OF d(2), of "t - ?S" j] by (auto simp: o'_def not_less [symmetric])
  show ?thesis
  proof (cases a_to_b)
    case True
    have i: "o' < 88" "- 1 \<le> o'" using lt ge True by simp_all
    have run': "search_loop ta s True o' = Inr r" using run True go w by simp
    note R = search_loop_left [OF ok i run']
    have init: "\<exists>k. 0 \<le> k \<and> k \<le> o' \<and> y = ?S + k * uint s \<and> tk_initialized (ta_ticks ta ! nat k)"
      if y: "initialized_at s ta y \<and> y \<le> t" for y
    proof -
      obtain j where "j < 88" "y = ?S + int j * uint s" "tk_initialized (ta_ticks ta ! j)"
        using y by (auto simp: initialized_at_def)
      then show ?thesis using y le_iff [of "int j"] by (intro exI [of _ "int j"]) simp
    qed
    show ?thesis
    proof (cases r)
      case None
      then show ?thesis using R init True by (fastforce simp: next_initialized_def)
    next
      case (Some x)
      then obtain j where j: "0 \<le> j" "j \<le> o'" "x = ?S + j * uint s" "tk_initialized (ta_ticks ta ! nat j)"
        "\<And>k. j < k \<Longrightarrow> k \<le> o' \<Longrightarrow> \<not> tk_initialized (ta_ticks ta ! nat k)"
        using R by auto
      have "initialized_at s ta x"
        unfolding initialized_at_def using j i(1) by (intro exI [of _ "nat j"]) simp
      moreover have "x \<le> t" using j le_iff by simp
      moreover have "\<not> initialized_at s ta y" if xy: "x < y" "y \<le> t" for y
      proof
        assume "initialized_at s ta y"
        then obtain k where k: "0 \<le> k" "k \<le> o'" "y = ?S + k * uint s" "tk_initialized (ta_ticks ta ! nat k)"
          using init [of y] xy by auto
        have "j * uint s < k * uint s" using xy(1) j(3) k(3) by simp
        then have "j < k" using d(2) by simp
        then show False using j(5) k by blast
      qed
      ultimately show ?thesis using Some True by (simp add: next_initialized_def)
    qed
  next
    case False
    have i: "0 \<le> o' + 1" "o' + 1 \<le> 88" using lt ge False by simp_all
    have run': "search_loop ta s False (o' + 1) = Inr r" using run False go w by simp
    note R = search_loop_right [OF ok i run']
    have gt_iff: "o' + 1 \<le> j \<longleftrightarrow> t < ?S + j * uint s" for j using le_iff [of j] by linarith
    have init: "\<exists>k. o' + 1 \<le> k \<and> k < 88 \<and> y = ?S + k * uint s \<and> tk_initialized (ta_ticks ta ! nat k)"
      if y: "initialized_at s ta y \<and> t < y" for y
    proof -
      obtain j where "j < 88" "y = ?S + int j * uint s" "tk_initialized (ta_ticks ta ! j)"
        using y by (auto simp: initialized_at_def)
      then show ?thesis using y gt_iff [of "int j"] by (intro exI [of _ "int j"]) simp
    qed
    show ?thesis
    proof (cases r)
      case None
      then show ?thesis using R init False by (fastforce simp: next_initialized_def)
    next
      case (Some x)
      then obtain j where j: "o' + 1 \<le> j" "j < 88" "x = ?S + j * uint s" "tk_initialized (ta_ticks ta ! nat j)"
        "\<And>k. o' + 1 \<le> k \<Longrightarrow> k < j \<Longrightarrow> \<not> tk_initialized (ta_ticks ta ! nat k)"
        using R by auto
      have "initialized_at s ta x"
        unfolding initialized_at_def using j i(1) by (intro exI [of _ "nat j"]) simp
      moreover have "t < x" using j gt_iff by simp
      moreover have "\<not> initialized_at s ta y" if xy: "t < y" "y < x" for y
      proof
        assume "initialized_at s ta y"
        then obtain k where k: "o' + 1 \<le> k" "y = ?S + k * uint s" "tk_initialized (ta_ticks ta ! nat k)"
          using init [of y] xy by auto
        have "k * uint s < j * uint s" using xy(2) j(3) k(2) by simp
        then have "k < j" using d(2) by simp
        then show False using j(5) k by blast
      qed
      ultimately show ?thesis using Some False by (simp add: next_initialized_def)
    qed
  qed
qed

text \<open>The search does not fail on an index of its range, and rejects every other.\<close>

lemma search_loop_returns:
  "length (ta_ticks ta) = 88 \<Longrightarrow> \<exists>r. search_loop ta s a_to_b i = Inr r"
proof (induction ta s a_to_b i rule: search_loop.induct)
  case (1 ta s a_to_b i)
  show ?case
  proof (cases "0 \<le> i \<and> i < TICK_ARRAY_SIZE")
    case False
    then show ?thesis by (subst search_loop.simps) auto
  next
    case True
    then have t: "ticks_at ta i = Inr (ta_ticks ta ! nat i)"
      using 1(2) by (auto simp: ticks_at_def TICK_ARRAY_SIZE_def)
    show ?thesis
    proof (cases "tk_initialized (ta_ticks ta ! nat i)")
      case True
      then show ?thesis using t by (subst search_loop.simps) simp
    next
      case False
      obtain r where "search_loop ta s a_to_b (if a_to_b then i - 1 else i + 1) = Inr r"
        using 1(1) [OF True t False 1(2)] by blast
      then show ?thesis using t False True by (subst search_loop.simps) simp
    qed
  qed
qed

lemma array_search_returns:
  assumes ok: "tick_array_ok s ta"
  shows "in_search_range ta t s (\<not> a_to_b) \<Longrightarrow> \<exists>r. array_get_next_init_tick_index ta t s a_to_b = Inr r"
    "\<not> in_search_range ta t s (\<not> a_to_b) \<Longrightarrow>
       array_get_next_init_tick_index ta t s a_to_b = Inl (Err InvalidTickArraySequence)"
  using search_loop_returns tick_array_okD [OF ok]
  by (auto simp: array_get_next_init_tick_index_def tick_offset_def Let_def)

lemma tick_array_initialize_ok:
  assumes "tick_array_initialize default_tick_array k s t = Inr ta" "s \<noteq> 0"
  shows "tick_array_ok s ta" "\<not> initialized_at s ta x"
  using assms
  by (auto simp: tick_array_initialize_def check_is_valid_start_tick_eq tick_array_ok_def
      default_tick_array_def default_tick_def TICK_ARRAY_SIZE_USIZE_def initialized_at_def split: if_splits)

end
