(* ===== verification/State_Whirlpool.thy ===== *)
theory State_Whirlpool
  imports State_Tick
begin

text \<open>
  \<open>state/whirlpool.rs\<close>: the account of a pool with its rewards, and its operations.  The invariant
  \<open>whirlpool_ok\<close> (rates within their maxima, a price within the range of prices, the two mints in
  order) is established by \<open>initialize\<close> and kept by every operation.
\<close>

record WhirlpoolRewardInfo =
  ri_mint :: pubkey
  ri_vault :: pubkey
  ri_authority :: pubkey
  ri_emissions_per_second_x64 :: u128
  ri_growth_global_x64 :: u128

record Whirlpool =
  wp_is_enabled :: bool
  wp_whirlpools_config :: pubkey
  wp_whirlpool_bump :: u8
  wp_tick_spacing :: u16
  wp_tick_spacing_seed :: "u8 \<times> u8"
  wp_fee_rate :: u16
  wp_protocol_fee_rate :: u16
  wp_liquidity :: u128
  wp_sqrt_price :: u128
  wp_tick_current_index :: i32
  wp_protocol_fee_owed_a :: u64
  wp_protocol_fee_owed_b :: u64
  wp_token_mint_a :: pubkey
  wp_token_vault_a :: pubkey
  wp_fee_growth_global_a :: u128
  wp_token_mint_b :: pubkey
  wp_token_vault_b :: pubkey
  wp_fee_growth_global_b :: u128
  wp_reward_last_updated_timestamp :: u64
  wp_reward_infos :: "WhirlpoolRewardInfo arr3"

section \<open>Rewards\<close>

definition reward_info_new :: "pubkey \<Rightarrow> WhirlpoolRewardInfo" where
  "reward_info_new authority = \<lparr>ri_mint = default_pubkey, ri_vault = default_pubkey,
     ri_authority = authority, ri_emissions_per_second_x64 = 0, ri_growth_global_x64 = 0\<rparr>"

definition reward_initialized :: "WhirlpoolRewardInfo \<Rightarrow> bool" where
  "reward_initialized self \<longleftrightarrow> ri_mint self \<noteq> default_pubkey"

definition to_reward_growths :: "WhirlpoolRewardInfo arr3 \<Rightarrow> u128 arr3" where
  "to_reward_growths reward_infos = arr3_map ri_growth_global_x64 reward_infos"

text \<open>\<open>reward_infos.iter().position(|r| !r.initialized())\<close>\<close>

fun position_from :: "('a \<Rightarrow> bool) \<Rightarrow> 'a list \<Rightarrow> usize \<Rightarrow> usize option" where
  "position_from P [] i = None"
| "position_from P (x # xs) i = (if P x then Some i else position_from P xs (i + 1))"

definition arr3_update :: "'a arr3 \<Rightarrow> usize \<Rightarrow> ('a \<Rightarrow> 'a) \<Rightarrow> 'a arr3 result" where
  "arr3_update xs i f = and_then (arr3_get xs i) (\<lambda>x. arr3_set xs i (f x))"

section \<open>The operations of a pool\<close>

definition default_whirlpool :: Whirlpool where
  "default_whirlpool = \<lparr>wp_is_enabled = False, wp_whirlpools_config = default_pubkey,
     wp_whirlpool_bump = 0, wp_tick_spacing = 0, wp_tick_spacing_seed = (0, 0), wp_fee_rate = 0,
     wp_protocol_fee_rate = 0, wp_liquidity = 0, wp_sqrt_price = 0, wp_tick_current_index = 0,
     wp_protocol_fee_owed_a = 0, wp_protocol_fee_owed_b = 0, wp_token_mint_a = default_pubkey,
     wp_token_vault_a = default_pubkey, wp_fee_growth_global_a = 0, wp_token_mint_b = default_pubkey,
     wp_token_vault_b = default_pubkey, wp_fee_growth_global_b = 0,
     wp_reward_last_updated_timestamp = 0, wp_reward_infos = arr3_of (reward_info_new default_pubkey)\<rparr>"

datatype seed = Seed_text string | Seed_key pubkey | Seed_bytes "u8 list"

definition whirlpool_seeds :: "Whirlpool \<Rightarrow> seed list" where
  "whirlpool_seeds self =
     [Seed_text ''whirlpool'', Seed_key (wp_whirlpools_config self), Seed_key (wp_token_mint_a self),
      Seed_key (wp_token_mint_b self),
      Seed_bytes [fst (wp_tick_spacing_seed self), snd (wp_tick_spacing_seed self)],
      Seed_bytes [wp_whirlpool_bump self]]"

definition to_le_bytes :: "u16 \<Rightarrow> u8 \<times> u8" where
  "to_le_bytes x = (ucast x, ucast (drop_bit 8 x))"

definition update_fee_rate :: "Whirlpool \<Rightarrow> u16 \<Rightarrow> Whirlpool result" where
  "update_fee_rate self fee_rate =
     (if fee_rate > MAX_FEE_RATE then Inl (Err FeeRateMaxExceeded)
      else Inr (self\<lparr>wp_fee_rate := fee_rate\<rparr>))"

definition update_protocol_fee_rate :: "Whirlpool \<Rightarrow> u16 \<Rightarrow> Whirlpool result" where
  "update_protocol_fee_rate self protocol_fee_rate =
     (if protocol_fee_rate > MAX_PROTOCOL_FEE_RATE then Inl (Err ProtocolFeeRateMaxExceeded)
      else Inr (self\<lparr>wp_protocol_fee_rate := protocol_fee_rate\<rparr>))"

text \<open>The configuration is passed with its key, as the account of the program is.\<close>

definition whirlpool_initialize ::
  "Whirlpool \<Rightarrow> pubkey \<times> WhirlpoolsConfig \<Rightarrow> u8 \<Rightarrow> u16 \<Rightarrow> u128 \<Rightarrow> u16 \<Rightarrow> pubkey \<Rightarrow> pubkey \<Rightarrow> pubkey \<Rightarrow> pubkey
   \<Rightarrow> Whirlpool result" where
  "whirlpool_initialize self whirlpools_config bump tick_spacing sqrt_price default_fee_rate
     token_mint_a token_vault_a token_mint_b token_vault_b =
     (if token_mint_a \<ge> token_mint_b then Inl (Err InvalidTokenMintOrder)
      else if sqrt_price < MIN_SQRT_PRICE_X64 \<or> sqrt_price > MAX_SQRT_PRICE_X64
      then Inl (Err SqrtPriceOutOfBounds)
      else
        let self = self\<lparr>wp_is_enabled := True, wp_whirlpools_config := fst whirlpools_config,
                        wp_whirlpool_bump := bump, wp_tick_spacing := tick_spacing,
                        wp_tick_spacing_seed := to_le_bytes tick_spacing\<rparr> in
        and_then (update_fee_rate self default_fee_rate) (\<lambda>self.
        and_then (update_protocol_fee_rate self (cfg_default_protocol_fee_rate (snd whirlpools_config)))
          (\<lambda>self.
        and_then (tick_index_from_sqrt_price sqrt_price) (\<lambda>tick_current_index.
        Inr (self\<lparr>
          wp_liquidity := 0,
          wp_sqrt_price := sqrt_price,
          wp_tick_current_index := tick_current_index,
          wp_protocol_fee_owed_a := 0,
          wp_protocol_fee_owed_b := 0,
          wp_token_mint_a := token_mint_a,
          wp_token_vault_a := token_vault_a,
          wp_fee_growth_global_a := 0,
          wp_token_mint_b := token_mint_b,
          wp_token_vault_b := token_vault_b,
          wp_fee_growth_global_b := 0,
          wp_reward_infos :=
            arr3_of (reward_info_new (cfg_reward_emissions_super_authority (snd whirlpools_config)))\<rparr>)))))"

definition require_enabled :: "Whirlpool \<Rightarrow> unit result" where
  "require_enabled self = reject_if (\<not> wp_is_enabled self) (Err PoolWasDisabled)"

definition whirlpool_set_enable_flag :: "Whirlpool \<Rightarrow> bool \<Rightarrow> Whirlpool" where
  "whirlpool_set_enable_flag self is_enabled = self\<lparr>wp_is_enabled := is_enabled\<rparr>"

definition update_rewards :: "Whirlpool \<Rightarrow> WhirlpoolRewardInfo arr3 \<Rightarrow> u64 \<Rightarrow> Whirlpool" where
  "update_rewards self reward_infos reward_last_updated_timestamp =
     self\<lparr>wp_reward_last_updated_timestamp := reward_last_updated_timestamp,
          wp_reward_infos := reward_infos\<rparr>"

definition update_rewards_and_liquidity ::
  "Whirlpool \<Rightarrow> WhirlpoolRewardInfo arr3 \<Rightarrow> u128 \<Rightarrow> u64 \<Rightarrow> Whirlpool" where
  "update_rewards_and_liquidity self reward_infos liquidity reward_last_updated_timestamp =
     (update_rewards self reward_infos reward_last_updated_timestamp)\<lparr>wp_liquidity := liquidity\<rparr>"

definition update_reward_authority :: "Whirlpool \<Rightarrow> usize \<Rightarrow> pubkey \<Rightarrow> Whirlpool result" where
  "update_reward_authority self index authority =
     (if index \<ge> NUM_REWARDS then Inl (Err InvalidRewardIndex)
      else and_then (arr3_update (wp_reward_infos self) index (\<lambda>r. r\<lparr>ri_authority := authority\<rparr>)) (\<lambda>infos.
        Inr (self\<lparr>wp_reward_infos := infos\<rparr>)))"

definition update_emissions ::
  "Whirlpool \<Rightarrow> usize \<Rightarrow> WhirlpoolRewardInfo arr3 \<Rightarrow> u64 \<Rightarrow> u128 \<Rightarrow> Whirlpool result" where
  "update_emissions self index reward_infos timestamp emissions_per_second_x64 =
     (if index \<ge> NUM_REWARDS then Inl (Err InvalidRewardIndex)
      else
        let self = update_rewards self reward_infos timestamp in
        and_then (arr3_update (wp_reward_infos self) index
                    (\<lambda>r. r\<lparr>ri_emissions_per_second_x64 := emissions_per_second_x64\<rparr>)) (\<lambda>infos.
        Inr (self\<lparr>wp_reward_infos := infos\<rparr>)))"

definition whirlpool_initialize_reward :: "Whirlpool \<Rightarrow> usize \<Rightarrow> pubkey \<Rightarrow> pubkey \<Rightarrow> Whirlpool result" where
  "whirlpool_initialize_reward self index mint vault =
     (if index \<ge> NUM_REWARDS then Inl (Err InvalidRewardIndex)
      else case position_from (\<lambda>r. \<not> reward_initialized r) (arr3_list (wp_reward_infos self)) 0 of
        None \<Rightarrow> Inl (Err InvalidRewardIndex)
      | Some lowest_index \<Rightarrow>
          if lowest_index \<noteq> index then Inl (Err InvalidRewardIndex)
          else and_then (arr3_update (wp_reward_infos self) index
                           (\<lambda>r. r\<lparr>ri_mint := mint, ri_vault := vault\<rparr>)) (\<lambda>infos.
            Inr (self\<lparr>wp_reward_infos := infos\<rparr>)))"

definition update_after_swap ::
  "Whirlpool \<Rightarrow> u128 \<Rightarrow> i32 \<Rightarrow> u128 \<Rightarrow> u128 \<Rightarrow> WhirlpoolRewardInfo arr3 \<Rightarrow> u64 \<Rightarrow> bool \<Rightarrow> u64 \<Rightarrow> Whirlpool" where
  "update_after_swap self liquidity tick_index sqrt_price fee_growth_global reward_infos protocol_fee
     is_token_fee_in_a reward_last_updated_timestamp =
     (let self = self\<lparr>
        wp_tick_current_index := tick_index,
        wp_sqrt_price := sqrt_price,
        wp_liquidity := liquidity,
        wp_reward_infos := reward_infos,
        wp_reward_last_updated_timestamp := reward_last_updated_timestamp\<rparr> in
      if is_token_fee_in_a then self\<lparr>
        wp_fee_growth_global_a := fee_growth_global,
        wp_protocol_fee_owed_a := wp_protocol_fee_owed_a self + protocol_fee\<rparr>
      else self\<lparr>
        wp_fee_growth_global_b := fee_growth_global,
        wp_protocol_fee_owed_b := wp_protocol_fee_owed_b self + protocol_fee\<rparr>)"

definition reset_protocol_fees_owed :: "Whirlpool \<Rightarrow> Whirlpool" where
  "reset_protocol_fees_owed self = self\<lparr>wp_protocol_fee_owed_a := 0, wp_protocol_fee_owed_b := 0\<rparr>"

section \<open>The invariant of a pool\<close>

definition price_in_range :: "u128 \<Rightarrow> bool" where
  "price_in_range p \<longleftrightarrow> MIN_SQRT_PRICE_X64 \<le> p \<and> p \<le> MAX_SQRT_PRICE_X64"

definition whirlpool_ok :: "Whirlpool \<Rightarrow> bool" where
  "whirlpool_ok w \<longleftrightarrow> wp_fee_rate w \<le> MAX_FEE_RATE \<and> wp_protocol_fee_rate w \<le> MAX_PROTOCOL_FEE_RATE
     \<and> price_in_range (wp_sqrt_price w) \<and> wp_token_mint_a w < wp_token_mint_b w"

named_theorems whirlpool_defs \<open>definitions of the operations of a pool\<close>

declare update_fee_rate_def [whirlpool_defs] update_protocol_fee_rate_def [whirlpool_defs]
  require_enabled_def [whirlpool_defs] whirlpool_set_enable_flag_def [whirlpool_defs]
  update_rewards_def [whirlpool_defs] update_rewards_and_liquidity_def [whirlpool_defs]
  update_reward_authority_def [whirlpool_defs] update_emissions_def [whirlpool_defs]
  whirlpool_initialize_reward_def [whirlpool_defs] update_after_swap_def [whirlpool_defs]
  reset_protocol_fees_owed_def [whirlpool_defs]

lemma whirlpool_initialize_ok:
  assumes "whirlpool_initialize w cfg bump ts p fee ma va mb vb = Inr w'"
  shows "whirlpool_ok w'" "wp_is_enabled w'" "wp_sqrt_price w' = p" "wp_liquidity w' = 0"
    "wp_tick_spacing w' = ts" "tick_index_from_sqrt_price p = Inr (wp_tick_current_index w')"
    "wp_token_mint_a w' = ma" "wp_token_mint_b w' = mb"
  using assms
  by (auto simp: whirlpool_initialize_def Let_def ok_iffs update_fee_rate_def update_protocol_fee_rate_def
      whirlpool_ok_def price_in_range_def split: if_splits)

lemma whirlpool_updates_ok:
  assumes "whirlpool_ok w"
  shows "update_fee_rate w r = Inr w' \<Longrightarrow> whirlpool_ok w'"
    "update_protocol_fee_rate w r = Inr w' \<Longrightarrow> whirlpool_ok w'"
    "whirlpool_ok (whirlpool_set_enable_flag w b)"
    "whirlpool_ok (update_rewards_and_liquidity w infos l ts)"
    "update_reward_authority w i k = Inr w' \<Longrightarrow> whirlpool_ok w'"
    "update_emissions w i infos ts e = Inr w' \<Longrightarrow> whirlpool_ok w'"
    "whirlpool_initialize_reward w i m v = Inr w' \<Longrightarrow> whirlpool_ok w'"
    "price_in_range p \<Longrightarrow> whirlpool_ok (update_after_swap w l t p g infos f a ts)"
    "whirlpool_ok (reset_protocol_fees_owed w)"
  using assms
  by (auto simp: whirlpool_ok_def whirlpool_defs Let_def and_then_Inr_iff split: if_splits option.splits)

section \<open>Rewards are initialized in order\<close>

text \<open>The initialized rewards are the first ones, and no operation uninitializes a reward.\<close>

fun rewards_prefix :: "WhirlpoolRewardInfo list \<Rightarrow> bool" where
  "rewards_prefix [] = True"
| "rewards_prefix (r # rs) \<longleftrightarrow> (if reward_initialized r then rewards_prefix rs
     else list_all (\<lambda>r. \<not> reward_initialized r) rs)"

definition rewards_ok :: "Whirlpool \<Rightarrow> bool" where
  "rewards_ok w \<longleftrightarrow> rewards_prefix (arr3_list (wp_reward_infos w))"

lemma arr3_update_Inr:
  "arr3_update xs i f = Inr ys \<Longrightarrow> arr3_get ys j = (if j = i then and_then (arr3_get xs i) (\<lambda>x. Inr (f x))
     else arr3_get xs j)"
  by (cases xs) (auto simp: arr3_update_def split: if_splits)

lemma whirlpool_initialize_reward_prefix:
  assumes "whirlpool_initialize_reward w i m v = Inr w'" "rewards_ok w" "m \<noteq> default_pubkey"
  shows "rewards_ok w'"
  using assms
  by (cases "wp_reward_infos w")
    (auto simp: whirlpool_initialize_reward_def rewards_ok_def arr3_update_def reward_initialized_def
      split: if_splits option.splits)

lemma whirlpool_initialize_reward_Inr:
  assumes "whirlpool_initialize_reward w i m v = Inr w'"
  shows "i < NUM_REWARDS" "\<exists>r. arr3_get (wp_reward_infos w) i = Inr r \<and> \<not> reward_initialized r
      \<and> arr3_get (wp_reward_infos w') i = Inr (r\<lparr>ri_mint := m, ri_vault := v\<rparr>)"
    "j \<noteq> i \<Longrightarrow> arr3_get (wp_reward_infos w') j = arr3_get (wp_reward_infos w) j"
    "j < i \<Longrightarrow> \<exists>r. arr3_get (wp_reward_infos w) j = Inr r \<and> reward_initialized r"
  using assms
  by (cases "wp_reward_infos w";
      auto simp: whirlpool_initialize_reward_def arr3_update_def NUM_REWARDS_def split: if_splits option.splits)+

end
