(* ===== verification/State_Position.thy ===== *)
theory State_Position
  imports State_Whirlpool
begin

text \<open>\<open>state/position.rs\<close>: the account of a position with what it is owed.\<close>

record OpenPositionBumps =
  position_bump :: u8

record OpenPositionWithMetadataBumps =
  with_metadata_position_bump :: u8
  metadata_bump :: u8

record PositionRewardInfo =
  pri_growth_inside_checkpoint :: u128
  pri_amount_owed :: u64

record Position =
  pos_whirlpool :: pubkey
  pos_position_mint :: pubkey
  pos_liquidity :: u128
  pos_tick_lower_index :: i32
  pos_tick_upper_index :: i32
  pos_fee_growth_checkpoint_a :: u128
  pos_fee_owed_a :: u64
  pos_fee_growth_checkpoint_b :: u128
  pos_fee_owed_b :: u64
  pos_reward_infos :: "PositionRewardInfo arr3"

record PositionUpdate =
  pu_liquidity :: u128
  pu_fee_growth_checkpoint_a :: u128
  pu_fee_owed_a :: u64
  pu_fee_growth_checkpoint_b :: u128
  pu_fee_owed_b :: u64
  pu_reward_infos :: "PositionRewardInfo arr3"

definition default_position_reward :: PositionRewardInfo where
  "default_position_reward = \<lparr>pri_growth_inside_checkpoint = 0, pri_amount_owed = 0\<rparr>"

definition default_position :: Position where
  "default_position = \<lparr>pos_whirlpool = default_pubkey, pos_position_mint = default_pubkey,
     pos_liquidity = 0, pos_tick_lower_index = 0, pos_tick_upper_index = 0,
     pos_fee_growth_checkpoint_a = 0, pos_fee_owed_a = 0, pos_fee_growth_checkpoint_b = 0,
     pos_fee_owed_b = 0, pos_reward_infos = arr3_of default_position_reward\<rparr>"

definition is_position_empty :: "Position \<Rightarrow> bool" where
  "is_position_empty position =
     (let fees_not_owed = (pos_fee_owed_a position = 0 \<and> pos_fee_owed_b position = 0);
          rewards_not_owed = foldl (\<lambda>acc r. acc \<and> pri_amount_owed r = 0) True
                               (arr3_list (pos_reward_infos position)) in
      pos_liquidity position = 0 \<and> fees_not_owed \<and> rewards_not_owed)"

definition position_update :: "Position \<Rightarrow> PositionUpdate \<Rightarrow> Position" where
  "position_update self update = self\<lparr>
     pos_liquidity := pu_liquidity update,
     pos_fee_growth_checkpoint_a := pu_fee_growth_checkpoint_a update,
     pos_fee_growth_checkpoint_b := pu_fee_growth_checkpoint_b update,
     pos_fee_owed_a := pu_fee_owed_a update,
     pos_fee_owed_b := pu_fee_owed_b update,
     pos_reward_infos := pu_reward_infos update\<rparr>"

text \<open>
  The pool is passed as its key and its tick spacing.  \<open>||\<close> evaluates from left to right, so that
  an earlier test hides a panic of a later one.
\<close>

definition position_open ::
  "Position \<Rightarrow> pubkey \<Rightarrow> u16 \<Rightarrow> pubkey \<Rightarrow> i32 \<Rightarrow> i32 \<Rightarrow> Position result" where
  "position_open self whirlpool_key tick_spacing position_mint tick_lower_index tick_upper_index =
     and_then (check_is_usable_tick tick_lower_index tick_spacing) (\<lambda>lower_usable.
     and_then (if lower_usable then check_is_usable_tick tick_upper_index tick_spacing else Inr False)
       (\<lambda>upper_usable.
     if \<not> lower_usable \<or> \<not> upper_usable \<or> tick_lower_index \<ge> tick_upper_index
     then Inl (Err InvalidTickIndex)
     else Inr (self\<lparr>pos_whirlpool := whirlpool_key, pos_position_mint := position_mint,
                    pos_tick_lower_index := tick_lower_index,
                    pos_tick_upper_index := tick_upper_index\<rparr>)))"

definition reset_fees_owed :: "Position \<Rightarrow> Position" where
  "reset_fees_owed self = self\<lparr>pos_fee_owed_a := 0, pos_fee_owed_b := 0\<rparr>"

definition update_reward_owed :: "Position \<Rightarrow> usize \<Rightarrow> u64 \<Rightarrow> Position result" where
  "update_reward_owed self index amount_owed =
     and_then (arr3_update (pos_reward_infos self) index (\<lambda>r. r\<lparr>pri_amount_owed := amount_owed\<rparr>)) (\<lambda>infos.
     Inr (self\<lparr>pos_reward_infos := infos\<rparr>))"

section \<open>Ranges of positions\<close>

text \<open>A position of a pool spans two usable ticks of the pool, the lower below the upper.\<close>

definition usable_tick :: "u16 \<Rightarrow> i32 \<Rightarrow> bool" where
  "usable_tick s t \<longleftrightarrow> tick_in_range t \<and> uint s dvd t"

definition position_ok :: "u16 \<Rightarrow> Position \<Rightarrow> bool" where
  "position_ok s p \<longleftrightarrow> usable_tick s (pos_tick_lower_index p) \<and> usable_tick s (pos_tick_upper_index p)
     \<and> pos_tick_lower_index p < pos_tick_upper_index p"

lemma position_open_eq:
  assumes "s \<noteq> 0"
  shows "position_open p k s m l u =
    (if usable_tick s l \<and> usable_tick s u \<and> l < u
     then Inr (p\<lparr>pos_whirlpool := k, pos_position_mint := m, pos_tick_lower_index := l,
                 pos_tick_upper_index := u\<rparr>)
     else Inl (Err InvalidTickIndex))"
  using assms by (auto simp: position_open_def check_is_usable_tick_eq usable_tick_def)

lemma position_open_ok:
  assumes "s \<noteq> 0" "position_open p k s m l u = Inr p'"
  shows "position_ok s p'" "pos_liquidity p' = pos_liquidity p"
  using assms by (auto simp: position_open_eq position_ok_def split: if_splits)

text \<open>Tick spacing 0 makes the usability test of a tick within the range panic.\<close>

lemma position_open_zero_spacing:
  "tick_in_range l \<Longrightarrow> position_open p k 0 m l u = Inl Panic"
  by (simp add: position_open_def check_is_usable_tick_def in_bounds_iff checked_rem_def)

lemma is_position_empty_iff:
  "is_position_empty p \<longleftrightarrow> pos_liquidity p = 0 \<and> pos_fee_owed_a p = 0 \<and> pos_fee_owed_b p = 0
     \<and> (\<forall>r \<in> set (arr3_list (pos_reward_infos p)). pri_amount_owed r = 0)"
  by (cases "pos_reward_infos p") (auto simp: is_position_empty_def)

lemma position_updates_ok:
  assumes "position_ok s p"
  shows "position_ok s (position_update p u)" "position_ok s (reset_fees_owed p)"
    "update_reward_owed p i a = Inr p' \<Longrightarrow> position_ok s p'"
  using assms by (auto simp: position_ok_def position_update_def reset_fees_owed_def
      update_reward_owed_def and_then_Inr_iff)

end
