(* ===== verification/Tick_Manager.thy ===== *)
theory Tick_Manager
  imports State_Position
begin

text \<open>
  \<open>manager/tick_manager.rs\<close>: what happens to a tick when the price crosses it and when liquidity is
  added to or removed from it, and the growth of fees and rewards between two ticks.  A tick stores
  the growth on the side of it away from the current price; the growth between two ticks is
  computed from the global growth and the two stored values, all modulo \<open>2 ^ 128\<close>.
\<close>

definition next_tick_cross_update ::
  "Tick \<Rightarrow> u128 \<Rightarrow> u128 \<Rightarrow> WhirlpoolRewardInfo arr3 \<Rightarrow> TickUpdate result" where
  "next_tick_cross_update tick fee_growth_global_a fee_growth_global_b reward_infos =
     Inr ((tick_update_from tick)\<lparr>
       tu_fee_growth_outside_a := fee_growth_global_a - tk_fee_growth_outside_a tick,
       tu_fee_growth_outside_b := fee_growth_global_b - tk_fee_growth_outside_b tick,
       tu_reward_growths_outside :=
         arr3_map2 (\<lambda>reward_info outside.
             if \<not> reward_initialized reward_info then outside
             else ri_growth_global_x64 reward_info - outside)
           reward_infos (tk_reward_growths_outside tick)\<rparr>)"

definition next_tick_modify_liquidity_update ::
  "Tick \<Rightarrow> i32 \<Rightarrow> i32 \<Rightarrow> u128 \<Rightarrow> u128 \<Rightarrow> WhirlpoolRewardInfo arr3 \<Rightarrow> i128 \<Rightarrow> bool \<Rightarrow> TickUpdate result" where
  "next_tick_modify_liquidity_update tick tick_index tick_current_index fee_growth_global_a
     fee_growth_global_b reward_infos liquidity_delta is_upper_tick =
     (if liquidity_delta = 0 then Inr (tick_update_from tick)
      else and_then (add_liquidity_delta (tk_liquidity_gross tick) liquidity_delta) (\<lambda>liquidity_gross.
        if liquidity_gross = 0 then Inr default_tick_update
        else
          let (fee_growth_outside_a, fee_growth_outside_b, reward_growths_outside) =
            (if tk_liquidity_gross tick = 0 then
               if tick_current_index \<ge> tick_index
               then (fee_growth_global_a, fee_growth_global_b, to_reward_growths reward_infos)
               else (0, 0, arr3_of 0)
             else (tk_fee_growth_outside_a tick, tk_fee_growth_outside_b tick,
                   tk_reward_growths_outside tick)) in
          and_then (if is_upper_tick
                    then ok_or (i128_checked (tk_liquidity_net tick - liquidity_delta)) LiquidityNetError
                    else ok_or (i128_checked (tk_liquidity_net tick + liquidity_delta)) LiquidityNetError)
            (\<lambda>liquidity_net.
          Inr \<lparr>tu_initialized = True,
               tu_liquidity_net = liquidity_net,
               tu_liquidity_gross = liquidity_gross,
               tu_fee_growth_outside_a = fee_growth_outside_a,
               tu_fee_growth_outside_b = fee_growth_outside_b,
               tu_reward_growths_outside = reward_growths_outside\<rparr>)))"

definition next_fee_growths_inside ::
  "i32 \<Rightarrow> Tick \<Rightarrow> i32 \<Rightarrow> Tick \<Rightarrow> i32 \<Rightarrow> u128 \<Rightarrow> u128 \<Rightarrow> u128 \<times> u128" where
  "next_fee_growths_inside tick_current_index tick_lower tick_lower_index tick_upper tick_upper_index
     fee_growth_global_a fee_growth_global_b =
     (let (fee_growth_below_a, fee_growth_below_b) =
            (if \<not> tk_initialized tick_lower then (fee_growth_global_a, fee_growth_global_b)
             else if tick_current_index < tick_lower_index
             then (fee_growth_global_a - tk_fee_growth_outside_a tick_lower,
                   fee_growth_global_b - tk_fee_growth_outside_b tick_lower)
             else (tk_fee_growth_outside_a tick_lower, tk_fee_growth_outside_b tick_lower));
          (fee_growth_above_a, fee_growth_above_b) =
            (if \<not> tk_initialized tick_upper then (0, 0)
             else if tick_current_index < tick_upper_index
             then (tk_fee_growth_outside_a tick_upper, tk_fee_growth_outside_b tick_upper)
             else (fee_growth_global_a - tk_fee_growth_outside_a tick_upper,
                   fee_growth_global_b - tk_fee_growth_outside_b tick_upper)) in
      (fee_growth_global_a - fee_growth_below_a - fee_growth_above_a,
       fee_growth_global_b - fee_growth_below_b - fee_growth_above_b))"

text \<open>One round of the loop over the rewards: the growth of a reward between two ticks.\<close>

definition reward_growth_inside ::
  "i32 \<Rightarrow> Tick \<Rightarrow> i32 \<Rightarrow> Tick \<Rightarrow> i32 \<Rightarrow> WhirlpoolRewardInfo \<Rightarrow> u128 \<Rightarrow> u128 \<Rightarrow> u128" where
  "reward_growth_inside tick_current_index tick_lower tick_lower_index tick_upper tick_upper_index
     reward_info outside_lower outside_upper =
     (if \<not> reward_initialized reward_info then 0
      else
        let reward_growths_below =
              (if \<not> tk_initialized tick_lower then ri_growth_global_x64 reward_info
               else if tick_current_index < tick_lower_index
               then ri_growth_global_x64 reward_info - outside_lower
               else outside_lower);
            reward_growths_above =
              (if \<not> tk_initialized tick_upper then 0
               else if tick_current_index < tick_upper_index then outside_upper
               else ri_growth_global_x64 reward_info - outside_upper) in
        ri_growth_global_x64 reward_info - reward_growths_below - reward_growths_above)"

definition next_reward_growths_inside ::
  "i32 \<Rightarrow> Tick \<Rightarrow> i32 \<Rightarrow> Tick \<Rightarrow> i32 \<Rightarrow> WhirlpoolRewardInfo arr3 \<Rightarrow> u128 arr3" where
  "next_reward_growths_inside tick_current_index tick_lower tick_lower_index tick_upper tick_upper_index
     reward_infos =
     arr3_map2 (\<lambda>reward_info (outside_lower, outside_upper).
         reward_growth_inside tick_current_index tick_lower tick_lower_index tick_upper tick_upper_index
           reward_info outside_lower outside_upper)
       reward_infos
       (arr3_map2 Pair (tk_reward_growths_outside tick_lower) (tk_reward_growths_outside tick_upper))"

section \<open>The growth between two ticks\<close>

text \<open>
  The contract shared by the fees of the two tokens and by each reward: the growth between two
  ticks is the global growth less the growth below the lower and above the upper tick.  From it
  follow the laws that make the accounting of the program right.
\<close>

locale growth_accumulator =
  fixes outside :: "Tick \<Rightarrow> u128"
    and inside :: "i32 \<Rightarrow> Tick \<Rightarrow> i32 \<Rightarrow> Tick \<Rightarrow> i32 \<Rightarrow> u128 \<Rightarrow> u128"
  assumes inside_eq: "inside cur tlow l tup u g =
    g - (if \<not> tk_initialized tlow then g else if cur < l then g - outside tlow else outside tlow)
      - (if \<not> tk_initialized tup then 0 else if cur < u then outside tup else g - outside tup)"
begin

text \<open>The growth of the pool counts for exactly the ranges that contain the current tick.\<close>

lemma inside_grows:
  assumes "tk_initialized tlow" "tk_initialized tup" "l < u"
  shows "inside cur tlow l tup u (g + d) = inside cur tlow l tup u g + (if l \<le> cur \<and> cur < u then d else 0)"
  using assms by (auto simp: inside_eq)

text \<open>Crossing a tick flips what it stores and moves the price to its other side.\<close>

lemma inside_cross_lower:
  assumes "tk_initialized tlow" "tk_initialized tlow'" "outside tlow' = g - outside tlow"
    and "cur < l \<longleftrightarrow> \<not> cur' < l" "cur < u \<longleftrightarrow> cur' < u"
  shows "inside cur' tlow' l tup u g = inside cur tlow l tup u g"
  using assms by (auto simp: inside_eq)

lemma inside_cross_upper:
  assumes "tk_initialized tup" "tk_initialized tup'" "outside tup' = g - outside tup"
    and "cur < l \<longleftrightarrow> cur' < l" "cur < u \<longleftrightarrow> \<not> cur' < u"
  shows "inside cur' tlow l tup' u g = inside cur tlow l tup u g"
  using assms by (auto simp: inside_eq)

text \<open>A tick is initialized with all growth so far below it, as an uninitialized tick counts.\<close>

lemma inside_initialize_lower:
  assumes "\<not> tk_initialized tlow" "tk_initialized tlow'" "outside tlow' = (if l \<le> cur then g else 0)"
  shows "inside cur tlow' l tup u g = inside cur tlow l tup u g"
  using assms by (auto simp: inside_eq)

lemma inside_initialize_upper:
  assumes "\<not> tk_initialized tup" "tk_initialized tup'" "outside tup' = (if u \<le> cur then g else 0)"
  shows "inside cur tlow l tup' u g = inside cur tlow l tup u g"
  using assms by (auto simp: inside_eq)

text \<open>Adjacent ranges add up.\<close>

lemma inside_split:
  assumes "tk_initialized tlow" "tk_initialized tmid" "tk_initialized tup" "l < m" "m < u"
  shows "inside cur tlow l tup u g = inside cur tlow l tmid m g + inside cur tmid m tup u g"
  using assms by (auto simp: inside_eq)

end

interpretation fee_a: growth_accumulator tk_fee_growth_outside_a
    "\<lambda>cur tlow l tup u g. fst (next_fee_growths_inside cur tlow l tup u g gb)" for gb
  by standard (simp add: next_fee_growths_inside_def case_prod_beta)

interpretation fee_b: growth_accumulator tk_fee_growth_outside_b
    "\<lambda>cur tlow l tup u g. snd (next_fee_growths_inside cur tlow l tup u ga g)" for ga
  by standard (simp add: next_fee_growths_inside_def case_prod_beta)

definition reward_outside :: "usize \<Rightarrow> Tick \<Rightarrow> u128" where
  "reward_outside i t = arr3_list (tk_reward_growths_outside t) ! i"

text \<open>The reward \<open>r\<close> at position \<open>i\<close>, with its global growth as the argument of the contract.\<close>

definition reward_inside :: "usize \<Rightarrow> WhirlpoolRewardInfo \<Rightarrow> i32 \<Rightarrow> Tick \<Rightarrow> i32 \<Rightarrow> Tick \<Rightarrow> i32 \<Rightarrow> u128 \<Rightarrow> u128" where
  "reward_inside i r cur tlow l tup u g =
     reward_growth_inside cur tlow l tup u (r\<lparr>ri_mint := Pubkey 1, ri_growth_global_x64 := g\<rparr>)
       (reward_outside i tlow) (reward_outside i tup)"

interpretation reward: growth_accumulator "reward_outside i" "reward_inside i r" for i r
  by standard (simp add: reward_inside_def reward_growth_inside_def reward_initialized_def default_pubkey_def)

lemma next_reward_growths_inside_nth:
  assumes "i < NUM_REWARDS" "arr3_get infos i = Inr r"
  shows "arr3_get (next_reward_growths_inside cur tlow l tup u infos) i =
    Inr (if reward_initialized r then reward_inside i r cur tlow l tup u (ri_growth_global_x64 r) else 0)"
  using assms
  by (cases infos; cases "tk_reward_growths_outside tlow"; cases "tk_reward_growths_outside tup")
    (auto simp: next_reward_growths_inside_def reward_inside_def reward_outside_def
      reward_growth_inside_def reward_initialized_def NUM_REWARDS_def default_pubkey_def split: if_splits)

section \<open>Crossing a tick\<close>

lemma cross_update_fields:
  assumes "next_tick_cross_update t ga gb infos = Inr u"
  shows "tu_initialized u = tk_initialized t" "tu_liquidity_net u = tk_liquidity_net t"
    "tu_liquidity_gross u = tk_liquidity_gross t"
    "tu_fee_growth_outside_a u = ga - tk_fee_growth_outside_a t"
    "tu_fee_growth_outside_b u = gb - tk_fee_growth_outside_b t"
  using assms by (auto simp: next_tick_cross_update_def tick_update_from_def)

lemma cross_update_defined: "\<exists>u. next_tick_cross_update t ga gb infos = Inr u"
  by (simp add: next_tick_cross_update_def)

text \<open>Crossing back at the same global growths restores the tick.\<close>

lemma cross_twice:
  assumes "next_tick_cross_update t ga gb infos = Inr u"
    and "next_tick_cross_update (tick_update t u) ga gb infos = Inr v"
  shows "tick_update (tick_update t u) v = t"
  using assms
  by (cases infos; cases "tk_reward_growths_outside t")
    (auto simp: next_tick_cross_update_def tick_update_def tick_update_from_def)

text \<open>
  The fee growth inside a position is not changed when the price crosses the position's lower or
  upper tick, for both tokens.
\<close>

lemma cross_keeps_growths_inside:
  assumes u: "next_tick_cross_update t ga gb infos = Inr v" and init: "tk_initialized t"
  shows "(cur < l \<longleftrightarrow> \<not> cur' < l) \<Longrightarrow> (cur < h \<longleftrightarrow> cur' < h) \<Longrightarrow>
      next_fee_growths_inside cur' (tick_update t v) l th h ga gb = next_fee_growths_inside cur t l th h ga gb"
    "(cur < l \<longleftrightarrow> cur' < l) \<Longrightarrow> (cur < h \<longleftrightarrow> \<not> cur' < h) \<Longrightarrow>
      next_fee_growths_inside cur' tlow l (tick_update t v) h ga gb = next_fee_growths_inside cur tlow l t h ga gb"
proof -
  note c = cross_update_fields [OF u]
  have f: "tk_initialized (tick_update t v)"
    "tk_fee_growth_outside_a (tick_update t v) = ga - tk_fee_growth_outside_a t"
    "tk_fee_growth_outside_b (tick_update t v) = gb - tk_fee_growth_outside_b t"
    using c init by (simp_all add: tick_update_def)
  show "next_fee_growths_inside cur' (tick_update t v) l th h ga gb = next_fee_growths_inside cur t l th h ga gb"
    if "cur < l \<longleftrightarrow> \<not> cur' < l" "cur < h \<longleftrightarrow> cur' < h"
    using fee_a.inside_cross_lower [OF init f(1,2) that] fee_b.inside_cross_lower [OF init f(1,3) that]
    by (intro prod_eqI)
  show "next_fee_growths_inside cur' tlow l (tick_update t v) h ga gb = next_fee_growths_inside cur tlow l t h ga gb"
    if "cur < l \<longleftrightarrow> cur' < l" "cur < h \<longleftrightarrow> \<not> cur' < h"
    using fee_a.inside_cross_upper [OF init f(1,2) that] fee_b.inside_cross_upper [OF init f(1,3) that]
    by (intro prod_eqI)
qed

section \<open>Changing the liquidity of a tick\<close>

text \<open>A tick is initialized exactly when some position refers to it.\<close>

definition tick_ok :: "Tick \<Rightarrow> bool" where
  "tick_ok t \<longleftrightarrow> (tk_initialized t \<longleftrightarrow> tk_liquidity_gross t \<noteq> 0) \<and> in_i128 (tk_liquidity_net t)
     \<and> (\<not> tk_initialized t \<longrightarrow> t = default_tick)"

lemma default_tick_ok: "tick_ok default_tick"
  by (simp add: tick_ok_def default_tick_def in_i128_def)

lemma tick_update_default: "tick_update t default_tick_update = default_tick"
  by (simp add: tick_update_def default_tick_update_def default_tick_def)

lemma tick_update_from [simp]: "tick_update t (tick_update_from t') = t'"
  by (simp add: tick_update_def tick_update_from_def)

lemma i128_checked_Some_iff: "i128_checked x = Some y \<longleftrightarrow> in_i128 x \<and> y = x"
  by (auto simp: i128_checked_def)

lemma modify_liquidity_update_cases:
  assumes "next_tick_modify_liquidity_update t i cur ga gb infos d upper = Inr u" "d \<noteq> 0"
  obtains g where "add_liquidity_delta (tk_liquidity_gross t) d = Inr g" "g = 0" "u = default_tick_update"
  | g n where "add_liquidity_delta (tk_liquidity_gross t) d = Inr g" "g \<noteq> 0"
    "in_i128 n" "n = (if upper then tk_liquidity_net t - d else tk_liquidity_net t + d)"
    "tu_initialized u" "tu_liquidity_net u = n" "tu_liquidity_gross u = g"
    "tk_liquidity_gross t \<noteq> 0 \<Longrightarrow> tu_fee_growth_outside_a u = tk_fee_growth_outside_a t
       \<and> tu_fee_growth_outside_b u = tk_fee_growth_outside_b t
       \<and> tu_reward_growths_outside u = tk_reward_growths_outside t"
    "tk_liquidity_gross t = 0 \<Longrightarrow> tu_fee_growth_outside_a u = (if i \<le> cur then ga else 0)
       \<and> tu_fee_growth_outside_b u = (if i \<le> cur then gb else 0)
       \<and> tu_reward_growths_outside u = (if i \<le> cur then to_reward_growths infos else arr3_of 0)"
proof -
  obtain g where g: "add_liquidity_delta (tk_liquidity_gross t) d = Inr g"
    using assms by (auto simp: next_tick_modify_liquidity_update_def and_then_Inr_iff)
  show thesis
  proof (cases "g = 0")
    case True
    then have "u = default_tick_update"
      using assms g by (simp add: next_tick_modify_liquidity_update_def)
    then show thesis using that(1) g True by blast
  next
    case False
    show thesis
      by (rule that(2) [OF g False _ refl])
        (use assms g False in \<open>auto simp: next_tick_modify_liquidity_update_def Let_def ok_iffs
           i128_checked_Some_iff split: if_splits\<close>)
  qed
qed

lemma modify_liquidity_update_ok:
  assumes ok: "tick_ok t" and u: "next_tick_modify_liquidity_update t i cur ga gb infos d upper = Inr u"
  shows "tick_ok (tick_update t u)"
proof (cases "d = 0")
  case True
  then show ?thesis using ok u by (auto simp: next_tick_modify_liquidity_update_def)
next
  case False
  show ?thesis using u False
  proof (cases rule: modify_liquidity_update_cases)
    case 1
    then show ?thesis by (simp add: tick_update_default default_tick_ok)
  next
    case (2 g n)
    then show ?thesis by (simp add: tick_ok_def tick_update_def)
  qed
qed

lemma cross_update_ok:
  assumes "tick_ok t" "tk_initialized t" "next_tick_cross_update t ga gb infos = Inr u"
  shows "tick_ok (tick_update t u)"
  using assms cross_update_fields [OF assms(3)] by (simp add: tick_ok_def tick_update_def)

text \<open>The liquidity of a tick changes by exactly the amount, the net liquidity with its sign.\<close>

lemma modify_liquidity_update_amounts:
  assumes u: "next_tick_modify_liquidity_update t i cur ga gb infos d upper = Inr u" and d: "in_i128 d"
  shows "uint (tu_liquidity_gross u) = uint (tk_liquidity_gross t) + d"
    "tu_liquidity_gross u \<noteq> 0 \<Longrightarrow>
       tu_liquidity_net u = (if upper then tk_liquidity_net t - d else tk_liquidity_net t + d)"
proof -
  have "uint (tu_liquidity_gross u) = uint (tk_liquidity_gross t) + d
    \<and> (tu_liquidity_gross u \<noteq> 0 \<longrightarrow>
       tu_liquidity_net u = (if upper then tk_liquidity_net t - d else tk_liquidity_net t + d))"
  proof (cases "d = 0")
    case True
    then show ?thesis using u by (auto simp: next_tick_modify_liquidity_update_def tick_update_from_def)
  next
    case False
    show ?thesis using u False
    proof (cases rule: modify_liquidity_update_cases)
      case (1 g)
      then show ?thesis using add_liquidity_delta_Inr_iff [OF d] by (simp add: default_tick_update_def)
    next
      case (2 g n)
      then show ?thesis using add_liquidity_delta_Inr_iff [OF d] by simp
    qed
  qed
  then show "uint (tu_liquidity_gross u) = uint (tk_liquidity_gross t) + d"
    "tu_liquidity_gross u \<noteq> 0 \<Longrightarrow>
       tu_liquidity_net u = (if upper then tk_liquidity_net t - d else tk_liquidity_net t + d)" by blast+
qed

text \<open>Removing what was added restores the tick, whatever happened to the pool in between.\<close>

lemma modify_liquidity_roundtrip:
  assumes ok: "tick_ok t" and d: "0 < d" "in_i128 d" "in_i128 (- d)"
    and u: "next_tick_modify_liquidity_update t i cur ga gb infos d upper = Inr u"
  shows "\<exists>v. next_tick_modify_liquidity_update (tick_update t u) i cur' ga' gb' infos' (- d) upper = Inr v
     \<and> tick_update (tick_update t u) v = t"
proof -
  have d0: "d \<noteq> 0" "- d \<noteq> 0" using d by simp_all
  show ?thesis using u d0(1)
  proof (cases rule: modify_liquidity_update_cases)
    case (1 g)
    then have "uint (tk_liquidity_gross t) + d = 0" using add_liquidity_delta_Inr_iff [OF d(2)] by simp
    then show ?thesis using d(1) uint_ge_0 [of "tk_liquidity_gross t"] by linarith
  next
    case (2 g n)
    have gd: "uint g = uint (tk_liquidity_gross t) + d" using 2 add_liquidity_delta_Inr_iff [OF d(2)] by simp
    then have undo: "add_liquidity_delta g (- d) = Inr (tk_liquidity_gross t)"
      by (simp add: add_liquidity_delta_Inr_iff [OF d(3)])
    have n: "in_i128 (tk_liquidity_net t)" "(if upper then n + d else n - d) = tk_liquidity_net t"
      using ok 2 by (auto simp: tick_ok_def)
    show ?thesis
    proof (cases "tk_liquidity_gross t = 0")
      case True
      then have "t = default_tick" using ok by (simp add: tick_ok_def)
      then show ?thesis using 2 undo True d0
        by (simp add: next_tick_modify_liquidity_update_def tick_update_def tick_update_default
            default_tick_update_def default_tick_def)
    next
      case False
      then show ?thesis using 2 undo n d0 ok
        by (simp add: next_tick_modify_liquidity_update_def tick_update_def i128_checked_def tick_ok_def)
    qed
  qed
qed

end
