(* ===== verification/Whirlpool_Manager.thy ===== *)
theory Whirlpool_Manager
  imports Tick_Manager
begin

text \<open>
  \<open>manager/whirlpool_manager.rs\<close> and \<open>manager/position_manager.rs\<close>: the growth of the rewards of a
  pool with time, its liquidity, and what a position is owed.
\<close>

section \<open>The pool\<close>

definition next_whirlpool_reward_infos :: "Whirlpool \<Rightarrow> u64 \<Rightarrow> WhirlpoolRewardInfo arr3 result" where
  "next_whirlpool_reward_infos whirlpool next_timestamp =
     (let curr_timestamp = wp_reward_last_updated_timestamp whirlpool in
      if next_timestamp < curr_timestamp then Inl (Err InvalidTimestamp)
      else if wp_liquidity whirlpool = 0 \<or> next_timestamp = curr_timestamp
      then Inr (wp_reward_infos whirlpool)
      else
        let time_delta = (ucast (next_timestamp - curr_timestamp) :: u128) in
        arr3_try_map (\<lambda>reward_info.
            if \<not> reward_initialized reward_info then Inr reward_info
            else and_then (unwrap_or (checked_mul_div time_delta (ri_emissions_per_second_x64 reward_info)
                                        (wp_liquidity whirlpool)) 0) (\<lambda>reward_growth_delta.
              let curr_growth_global = ri_growth_global_x64 reward_info in
              Inr (reward_info\<lparr>ri_growth_global_x64 := curr_growth_global + reward_growth_delta\<rparr>)))
          (wp_reward_infos whirlpool))"

definition next_whirlpool_liquidity :: "Whirlpool \<Rightarrow> i32 \<Rightarrow> i32 \<Rightarrow> i128 \<Rightarrow> u128 result" where
  "next_whirlpool_liquidity whirlpool tick_upper_index tick_lower_index liquidity_delta =
     (if wp_tick_current_index whirlpool < tick_upper_index
         \<and> wp_tick_current_index whirlpool \<ge> tick_lower_index
      then add_liquidity_delta (wp_liquidity whirlpool) liquidity_delta
      else Inr (wp_liquidity whirlpool))"

section \<open>The position\<close>

definition default_position_update :: PositionUpdate where
  "default_position_update = \<lparr>pu_liquidity = 0, pu_fee_growth_checkpoint_a = 0, pu_fee_owed_a = 0,
     pu_fee_growth_checkpoint_b = 0, pu_fee_owed_b = 0,
     pu_reward_infos = arr3_of default_position_reward\<rparr>"

definition next_position_modify_liquidity_update ::
  "Position \<Rightarrow> i128 \<Rightarrow> u128 \<Rightarrow> u128 \<Rightarrow> u128 arr3 \<Rightarrow> PositionUpdate result" where
  "next_position_modify_liquidity_update position liquidity_delta fee_growth_inside_a
     fee_growth_inside_b reward_growths_inside =
     (let growth_delta_a = fee_growth_inside_a - pos_fee_growth_checkpoint_a position in
      and_then (unwrap_or (checked_mul_shift_right (pos_liquidity position) growth_delta_a) 0) (\<lambda>fee_delta_a.
      let growth_delta_b = fee_growth_inside_b - pos_fee_growth_checkpoint_b position in
      and_then (unwrap_or (checked_mul_shift_right (pos_liquidity position) growth_delta_b) 0) (\<lambda>fee_delta_b.
      let update = default_position_update\<lparr>
            pu_fee_growth_checkpoint_a := fee_growth_inside_a,
            pu_fee_growth_checkpoint_b := fee_growth_inside_b,
            pu_fee_owed_a := pos_fee_owed_a position + fee_delta_a,
            pu_fee_owed_b := pos_fee_owed_b position + fee_delta_b\<rparr> in
      and_then (arr3_try_map (\<lambda>(reward_growth_inside, curr_reward_info).
          let reward_growth_delta = reward_growth_inside - pri_growth_inside_checkpoint curr_reward_info in
          and_then (unwrap_or (checked_mul_shift_right (pos_liquidity position) reward_growth_delta) 0)
            (\<lambda>amount_owed_delta.
          Inr \<lparr>pri_growth_inside_checkpoint = reward_growth_inside,
               pri_amount_owed = pri_amount_owed curr_reward_info + amount_owed_delta\<rparr>))
        (arr3_map2 Pair reward_growths_inside (pos_reward_infos position))) (\<lambda>reward_infos.
      and_then (add_liquidity_delta (pos_liquidity position) liquidity_delta) (\<lambda>liquidity.
      Inr (update\<lparr>pu_reward_infos := reward_infos, pu_liquidity := liquidity\<rparr>))))))"

section \<open>The growth of the rewards\<close>

text \<open>The growth of a reward over a time: the quotient, or nothing if its numerator overflows.\<close>

definition reward_growth_delta :: "nat \<Rightarrow> u128 \<Rightarrow> u128 \<Rightarrow> nat" where
  "reward_growth_delta time emissions liquidity =
     (if time * unat emissions < 2 ^ 128 then time * unat emissions div unat liquidity else 0)"

definition reward_after :: "nat \<Rightarrow> u128 \<Rightarrow> WhirlpoolRewardInfo \<Rightarrow> WhirlpoolRewardInfo" where
  "reward_after time liquidity r =
     (if reward_initialized r then r\<lparr>ri_growth_global_x64 := ri_growth_global_x64 r
         + of_nat (reward_growth_delta time (ri_emissions_per_second_x64 r) liquidity)\<rparr>
      else r)"

lemma mul_div_or_0:
  assumes "l \<noteq> 0"
  shows "unwrap_or (checked_mul_div t e l) 0 = Inr (of_nat (reward_growth_delta (unat t) e l))"
proof (cases "checked_mul_div t e l")
  case (Inl a)
  then have "a = Err MulDivOverflow" "\<not> unat t * unat e < 2 ^ 128"
    using assms by (simp_all add: checked_mul_div_def checked_mul_div_Inl_iff)
  then show ?thesis unfolding Inl by (simp add: reward_growth_delta_def)
next
  case (Inr q)
  then have "unat t * unat e < 2 ^ 128" "unat q = unat t * unat e div unat l"
    by (simp_all add: checked_mul_div_def checked_mul_div_Inr_iff round_div_def)
  then have "reward_growth_delta (unat t) e l = unat q" by (simp add: reward_growth_delta_def)
  then have "q = of_nat (reward_growth_delta (unat t) e l)" by simp
  then show ?thesis using Inr by simp
qed

lemma arr3_try_map_Inr: "(\<And>x. f x = Inr (g x)) \<Longrightarrow> arr3_try_map f xs = Inr (arr3_map g xs)"
  by (cases xs) simp

lemma next_whirlpool_reward_infos_eq:
  "next_whirlpool_reward_infos w t =
     (if t < wp_reward_last_updated_timestamp w then Inl (Err InvalidTimestamp)
      else if wp_liquidity w = 0 then Inr (wp_reward_infos w)
      else Inr (arr3_map (reward_after (unat t - unat (wp_reward_last_updated_timestamp w)) (wp_liquidity w))
                  (wp_reward_infos w)))"
proof -
  let ?t0 = "wp_reward_last_updated_timestamp w" and ?l = "wp_liquidity w"
  consider "t < ?t0" | "\<not> t < ?t0" "?l = 0" | "\<not> t < ?t0" "?l \<noteq> 0" "t = ?t0"
    | "\<not> t < ?t0" "?l \<noteq> 0" "t \<noteq> ?t0" by blast
  then show ?thesis
  proof cases
    case 3
    have "reward_after 0 ?l = id" by (rule ext) (simp add: reward_after_def reward_growth_delta_def)
    moreover have "arr3_map id xs = xs" for xs :: "WhirlpoolRewardInfo arr3" by (cases xs) simp
    ultimately show ?thesis using 3 by (simp add: next_whirlpool_reward_infos_def)
  next
    case 4
    then have "unat (t - ?t0) = unat t - unat ?t0" by (simp add: unat_sub not_less)
    then show ?thesis using 4
      by (simp add: next_whirlpool_reward_infos_def Let_def)
        (intro arr3_try_map_Inr, simp add: mul_div_or_0 reward_after_def)
  qed (simp_all add: next_whirlpool_reward_infos_def)
qed

lemma next_reward_infos_keep:
  assumes "next_whirlpool_reward_infos w t = Inr infos" "arr3_get (wp_reward_infos w) i = Inr r"
  shows "\<exists>r'. arr3_get infos i = Inr r' \<and> ri_mint r' = ri_mint r \<and> ri_vault r' = ri_vault r
    \<and> ri_authority r' = ri_authority r \<and> ri_emissions_per_second_x64 r' = ri_emissions_per_second_x64 r"
  using assms by (auto simp: next_whirlpool_reward_infos_eq arr3_get_map reward_after_def split: if_splits)

section \<open>What a position is owed\<close>

text \<open>The amount earned by a growth: rounded down, and nothing if it does not fit.\<close>

definition earned :: "u128 \<Rightarrow> u128 \<Rightarrow> nat" where
  "earned liquidity growth =
     (if unat liquidity * unat growth < 2 ^ 128 then unat liquidity * unat growth div 2 ^ 64 else 0)"

lemma mul_shift_or_0:
  "unwrap_or (checked_mul_shift_right l g) 0 = Inr (of_nat (earned l g))"
proof (cases "checked_mul_shift_right l g")
  case (Inl a)
  have "unat l * unat g div 2 ^ 64 \<noteq> 2 ^ 64" if "unat l * unat g < 2 ^ 128"
    using that by (simp add: div_less_iff_less_mult less_imp_neq)
  then have "\<exists>e. a = Err e" "\<not> unat l * unat g < 2 ^ 128"
    using Inl by (auto simp: checked_mul_shift_right_def checked_mul_shift_right_Inl_iff round_div_def
        split: if_splits)
  then show ?thesis unfolding Inl by (auto simp: earned_def)
next
  case (Inr q)
  then have "unat l * unat g < 2 ^ 128" "unat q = unat l * unat g div 2 ^ 64"
    by (simp_all add: checked_mul_shift_right_def checked_mul_shift_right_Inr_iff round_div_def)
  then have "earned l g = unat q" by (simp add: earned_def)
  then have "q = of_nat (earned l g)" by simp
  then show ?thesis using Inr by simp
qed

lemma earned_0 [simp]: "earned l 0 = 0" "earned 0 g = 0"
  by (simp_all add: earned_def)

text \<open>Settling a position: everything that its update contains, except for the change of liquidity.\<close>

definition settled_reward :: "u128 \<Rightarrow> u128 \<times> PositionRewardInfo \<Rightarrow> PositionRewardInfo" where
  "settled_reward liquidity gr = \<lparr>pri_growth_inside_checkpoint = fst gr,
     pri_amount_owed = pri_amount_owed (snd gr)
       + of_nat (earned liquidity (fst gr - pri_growth_inside_checkpoint (snd gr)))\<rparr>"

lemma next_position_update_Inr_iff:
  assumes "in_i128 d"
  shows "next_position_modify_liquidity_update p d ia ib rs = Inr u \<longleftrightarrow>
    uint (pu_liquidity u) = uint (pos_liquidity p) + d
    \<and> pu_fee_growth_checkpoint_a u = ia \<and> pu_fee_growth_checkpoint_b u = ib
    \<and> pu_fee_owed_a u = pos_fee_owed_a p + of_nat (earned (pos_liquidity p) (ia - pos_fee_growth_checkpoint_a p))
    \<and> pu_fee_owed_b u = pos_fee_owed_b p + of_nat (earned (pos_liquidity p) (ib - pos_fee_growth_checkpoint_b p))
    \<and> pu_reward_infos u = arr3_map (settled_reward (pos_liquidity p)) (arr3_map2 Pair rs (pos_reward_infos p))"
proof -
  let ?f = "\<lambda>(reward_growth_inside, curr_reward_info).
          let reward_growth_delta = reward_growth_inside - pri_growth_inside_checkpoint curr_reward_info in
          and_then (unwrap_or (checked_mul_shift_right (pos_liquidity p) reward_growth_delta) 0)
            (\<lambda>amount_owed_delta.
          Inr \<lparr>pri_growth_inside_checkpoint = reward_growth_inside,
               pri_amount_owed = pri_amount_owed curr_reward_info + amount_owed_delta\<rparr>)"
  have f: "arr3_try_map ?f xs = Inr (arr3_map (settled_reward (pos_liquidity p)) xs)" for xs
    by (rule arr3_try_map_Inr) (simp add: case_prod_beta mul_shift_or_0 settled_reward_def)
  show ?thesis
    unfolding next_position_modify_liquidity_update_def Let_def mul_shift_or_0 and_then_simps f [unfolded Let_def mul_shift_or_0 and_then_simps]
    by (auto simp: and_then_Inr_iff add_liquidity_delta_Inr_iff [OF assms] default_position_update_def)
qed

text \<open>Settling twice at the same growths earns nothing the second time.\<close>

lemma settle_idempotent:
  assumes d: "in_i128 d" and u: "next_position_modify_liquidity_update p d ia ib rs = Inr u"
  shows "next_position_modify_liquidity_update (position_update p u) 0 ia ib rs = Inr u"
proof -
  have z: "in_i128 0" by (simp add: in_i128_def)
  show ?thesis
    using u unfolding next_position_update_Inr_iff [OF d] next_position_update_Inr_iff [OF z]
    by (cases rs; cases "pos_reward_infos p") (simp add: position_update_def settled_reward_def)
qed

end
