(* ===== verification/Liquidity_Manager.thy ===== *)
theory Liquidity_Manager
  imports Whirlpool_Manager
begin

text \<open>
  \<open>manager/liquidity_manager.rs\<close>: the changes to a pool, a position and the two ticks of its range
  when liquidity is added, removed or merely settled, and the token amounts they are worth.

  Tick arrays are accounts: an instruction names the lower and the upper array by their keys, which
  may be the same.  The accounts are a map from keys to arrays, so that two names of one account
  denote one array.
\<close>

type_synonym tick_arrays = "pubkey \<Rightarrow> TickArray option"

text \<open>\<open>AccountLoader::load\<close>: error 3012 of the framework for an account without a tick array.\<close>

definition load_tick_array :: "tick_arrays \<Rightarrow> pubkey \<Rightarrow> TickArray result" where
  "load_tick_array arrays key =
     (case arrays key of None \<Rightarrow> Inl (ProgramErr 3012) | Some ta \<Rightarrow> Inr ta)"

record ModifyLiquidityUpdate =
  ml_whirlpool_liquidity :: u128
  ml_tick_lower_update :: TickUpdate
  ml_tick_upper_update :: TickUpdate
  ml_reward_infos :: "WhirlpoolRewardInfo arr3"
  ml_position_update :: PositionUpdate

text \<open>\<open>_calculate_modify_liquidity\<close>, on the two ticks.\<close>

definition calculate_modify_liquidity_of_ticks ::
  "Whirlpool \<Rightarrow> Position \<Rightarrow> Tick \<Rightarrow> Tick \<Rightarrow> i32 \<Rightarrow> i32 \<Rightarrow> i128 \<Rightarrow> u64 \<Rightarrow> ModifyLiquidityUpdate result" where
  "calculate_modify_liquidity_of_ticks whirlpool position tick_lower tick_upper tick_lower_index
     tick_upper_index liquidity_delta timestamp =
     (if liquidity_delta = 0 \<and> pos_liquidity position = 0 then Inl (Err LiquidityZero)
      else
        and_then (next_whirlpool_reward_infos whirlpool timestamp) (\<lambda>next_reward_infos.
        and_then (next_whirlpool_liquidity whirlpool (pos_tick_upper_index position)
                    (pos_tick_lower_index position) liquidity_delta) (\<lambda>next_global_liquidity.
        and_then (next_tick_modify_liquidity_update tick_lower tick_lower_index
                    (wp_tick_current_index whirlpool) (wp_fee_growth_global_a whirlpool)
                    (wp_fee_growth_global_b whirlpool) next_reward_infos liquidity_delta False)
          (\<lambda>tick_lower_update.
        and_then (next_tick_modify_liquidity_update tick_upper tick_upper_index
                    (wp_tick_current_index whirlpool) (wp_fee_growth_global_a whirlpool)
                    (wp_fee_growth_global_b whirlpool) next_reward_infos liquidity_delta True)
          (\<lambda>tick_upper_update.
        let (fee_growth_inside_a, fee_growth_inside_b) =
              next_fee_growths_inside (wp_tick_current_index whirlpool) tick_lower tick_lower_index
                tick_upper tick_upper_index (wp_fee_growth_global_a whirlpool)
                (wp_fee_growth_global_b whirlpool);
            reward_growths_inside =
              next_reward_growths_inside (wp_tick_current_index whirlpool) tick_lower tick_lower_index
                tick_upper tick_upper_index next_reward_infos in
        and_then (next_position_modify_liquidity_update position liquidity_delta fee_growth_inside_a
                    fee_growth_inside_b reward_growths_inside) (\<lambda>position_update.
        Inr \<lparr>ml_whirlpool_liquidity = next_global_liquidity,
             ml_tick_lower_update = tick_lower_update,
             ml_tick_upper_update = tick_upper_update,
             ml_reward_infos = next_reward_infos,
             ml_position_update = position_update\<rparr>))))))"

definition load_position_ticks :: "Whirlpool \<Rightarrow> Position \<Rightarrow> tick_arrays \<Rightarrow> pubkey \<Rightarrow> pubkey \<Rightarrow> (Tick \<times> Tick) result" where
  "load_position_ticks whirlpool position arrays tick_array_lower tick_array_upper =
     and_then (load_tick_array arrays tick_array_lower) (\<lambda>array_lower.
     and_then (get_tick array_lower (pos_tick_lower_index position) (wp_tick_spacing whirlpool)) (\<lambda>tick_lower.
     and_then (load_tick_array arrays tick_array_upper) (\<lambda>array_upper.
     and_then (get_tick array_upper (pos_tick_upper_index position) (wp_tick_spacing whirlpool)) (\<lambda>tick_upper.
     Inr (tick_lower, tick_upper)))))"

definition calculate_modify_liquidity ::
  "Whirlpool \<Rightarrow> Position \<Rightarrow> tick_arrays \<Rightarrow> pubkey \<Rightarrow> pubkey \<Rightarrow> i128 \<Rightarrow> u64 \<Rightarrow> ModifyLiquidityUpdate result" where
  "calculate_modify_liquidity whirlpool position arrays tick_array_lower tick_array_upper
     liquidity_delta timestamp =
     and_then (load_position_ticks whirlpool position arrays tick_array_lower tick_array_upper)
       (\<lambda>(tick_lower, tick_upper).
     calculate_modify_liquidity_of_ticks whirlpool position tick_lower tick_upper
       (pos_tick_lower_index position) (pos_tick_upper_index position) liquidity_delta timestamp)"

definition calculate_fee_and_reward_growths ::
  "Whirlpool \<Rightarrow> Position \<Rightarrow> tick_arrays \<Rightarrow> pubkey \<Rightarrow> pubkey \<Rightarrow> u64
   \<Rightarrow> (PositionUpdate \<times> WhirlpoolRewardInfo arr3) result" where
  "calculate_fee_and_reward_growths whirlpool position arrays tick_array_lower tick_array_upper timestamp =
     and_then (load_position_ticks whirlpool position arrays tick_array_lower tick_array_upper)
       (\<lambda>(tick_lower, tick_upper).
     and_then (calculate_modify_liquidity_of_ticks whirlpool position tick_lower tick_upper
                 (pos_tick_lower_index position) (pos_tick_upper_index position) 0 timestamp) (\<lambda>update.
     Inr (ml_position_update update, ml_reward_infos update)))"

definition calculate_liquidity_token_deltas ::
  "i32 \<Rightarrow> u128 \<Rightarrow> Position \<Rightarrow> i128 \<Rightarrow> (u64 \<times> u64) result" where
  "calculate_liquidity_token_deltas current_tick_index sqrt_price position liquidity_delta =
     (if liquidity_delta = 0 then Inl (Err LiquidityZero)
      else
        let liquidity = (of_int (to_i128 \<bar>liquidity_delta\<bar>) :: u128);
            round_up = liquidity_delta > 0 in
        and_then (sqrt_price_from_tick_index (pos_tick_lower_index position)) (\<lambda>lower_price.
        and_then (sqrt_price_from_tick_index (pos_tick_upper_index position)) (\<lambda>upper_price.
        if current_tick_index < pos_tick_lower_index position then
          and_then (get_amount_delta_a lower_price upper_price liquidity round_up) (\<lambda>delta_a.
          Inr (delta_a, 0))
        else if current_tick_index < pos_tick_upper_index position then
          and_then (get_amount_delta_a sqrt_price upper_price liquidity round_up) (\<lambda>delta_a.
          and_then (get_amount_delta_b lower_price sqrt_price liquidity round_up) (\<lambda>delta_b.
          Inr (delta_a, delta_b)))
        else
          and_then (get_amount_delta_b lower_price upper_price liquidity round_up) (\<lambda>delta_b.
          Inr (0, delta_b)))))"

text \<open>The two arrays are borrowed one after the other, also when they are the same account.\<close>

definition update_array_tick :: "tick_arrays \<Rightarrow> pubkey \<Rightarrow> i32 \<Rightarrow> u16 \<Rightarrow> TickUpdate \<Rightarrow> tick_arrays result" where
  "update_array_tick arrays key tick_index tick_spacing update =
     and_then (load_tick_array arrays key) (\<lambda>ta.
     and_then (update_tick ta tick_index tick_spacing update) (\<lambda>ta'.
     Inr (arrays(key \<mapsto> ta'))))"

definition sync_modify_liquidity_values ::
  "Whirlpool \<Rightarrow> Position \<Rightarrow> tick_arrays \<Rightarrow> pubkey \<Rightarrow> pubkey \<Rightarrow> ModifyLiquidityUpdate \<Rightarrow> u64
   \<Rightarrow> (Whirlpool \<times> Position \<times> tick_arrays) result" where
  "sync_modify_liquidity_values whirlpool position arrays tick_array_lower tick_array_upper
     modify_liquidity_update reward_last_updated_timestamp =
     (let position = position_update position (ml_position_update modify_liquidity_update) in
      and_then (update_array_tick arrays tick_array_lower (pos_tick_lower_index position)
                  (wp_tick_spacing whirlpool) (ml_tick_lower_update modify_liquidity_update)) (\<lambda>arrays.
      and_then (update_array_tick arrays tick_array_upper (pos_tick_upper_index position)
                  (wp_tick_spacing whirlpool) (ml_tick_upper_update modify_liquidity_update)) (\<lambda>arrays.
      Inr (update_rewards_and_liquidity whirlpool (ml_reward_infos modify_liquidity_update)
             (ml_whirlpool_liquidity modify_liquidity_update) reward_last_updated_timestamp,
           position, arrays))))"

section \<open>The accounts of tick arrays as a store of ticks\<close>

definition arrays_ok :: "u16 \<Rightarrow> tick_arrays \<Rightarrow> bool" where
  "arrays_ok s arrays \<longleftrightarrow> (\<forall>k ta. arrays k = Some ta \<longrightarrow> tick_array_ok s ta)"

definition read_array_tick :: "u16 \<Rightarrow> tick_arrays \<Rightarrow> pubkey \<times> i32 \<Rightarrow> Tick result" where
  "read_array_tick s arrays kt = and_then (load_tick_array arrays (fst kt)) (\<lambda>ta. get_tick ta (snd kt) s)"

lemma load_tick_array_Inr_iff: "load_tick_array arrays k = Inr ta \<longleftrightarrow> arrays k = Some ta"
  by (simp add: load_tick_array_def split: option.splits)

interpretation account_store: tick_store "arrays_ok s" "read_array_tick s"
    "\<lambda>arrays kt u. update_array_tick arrays (fst kt) (snd kt) s u" for s
proof
  fix st st' :: tick_arrays and k u
  assume ok: "arrays_ok s st" and u: "update_array_tick st (fst k) (snd k) s u = Inr st'"
  obtain ta ta' where ta: "st (fst k) = Some ta" and up: "update_tick ta (snd k) s u = Inr ta'"
    and st': "st' = st(fst k \<mapsto> ta')"
    using u by (auto simp: update_array_tick_def and_then_Inr_iff load_tick_array_Inr_iff)
  have tok: "tick_array_ok s ta" using ok ta by (simp add: arrays_ok_def)
  show "arrays_ok s st'"
    using ok array_store.put_ok [OF tok up] by (auto simp: arrays_ok_def st')
  show "read_array_tick s st' k = Inr (tick_update default_tick u)"
    using array_store.get_put_same [OF tok up] by (simp add: read_array_tick_def load_tick_array_def st')
  fix k' :: "pubkey \<times> i32" assume ne: "k' \<noteq> k"
  show "read_array_tick s st' k' = read_array_tick s st k'"
  proof (cases "fst k' = fst k")
    case True
    then have "snd k' \<noteq> snd k" using ne by (simp add: prod_eq_iff)
    then show ?thesis using True ta array_store.get_put_other [OF tok up]
      by (simp add: read_array_tick_def load_tick_array_def st')
  qed (simp add: read_array_tick_def load_tick_array_def st')
next
  fix st :: tick_arrays and k u
  assume ok: "arrays_ok s st"
  show "(\<exists>st'. update_array_tick st (fst k) (snd k) s u = Inr st') \<longleftrightarrow> (\<exists>t. read_array_tick s st k = Inr t)"
  proof (cases "st (fst k)")
    case None
    then show ?thesis by (simp add: update_array_tick_def read_array_tick_def load_tick_array_def)
  next
    case (Some ta)
    then have "tick_array_ok s ta" using ok by (simp add: arrays_ok_def)
    from array_store.put_defined [OF this] Some show ?thesis
      by (auto simp: update_array_tick_def read_array_tick_def load_tick_array_def and_then_Inr_iff)
  qed
qed

section \<open>What a change of liquidity does\<close>

lemma load_position_ticks_Inr_iff:
  "load_position_ticks w p arrays kl ku = Inr (a, b) \<longleftrightarrow>
     read_array_tick (wp_tick_spacing w) arrays (kl, pos_tick_lower_index p) = Inr a
     \<and> read_array_tick (wp_tick_spacing w) arrays (ku, pos_tick_upper_index p) = Inr b"
  by (auto simp: load_position_ticks_def read_array_tick_def and_then_Inr_iff)

lemma modify_liquidity_Inr:
  assumes "calculate_modify_liquidity w p arrays kl ku d t = Inr m"
  obtains a b where
    "read_array_tick (wp_tick_spacing w) arrays (kl, pos_tick_lower_index p) = Inr a"
    "read_array_tick (wp_tick_spacing w) arrays (ku, pos_tick_upper_index p) = Inr b"
    "d \<noteq> 0 \<or> pos_liquidity p \<noteq> 0"
    "next_whirlpool_reward_infos w t = Inr (ml_reward_infos m)"
    "next_whirlpool_liquidity w (pos_tick_upper_index p) (pos_tick_lower_index p) d = Inr (ml_whirlpool_liquidity m)"
    "next_tick_modify_liquidity_update a (pos_tick_lower_index p) (wp_tick_current_index w)
       (wp_fee_growth_global_a w) (wp_fee_growth_global_b w) (ml_reward_infos m) d False
       = Inr (ml_tick_lower_update m)"
    "next_tick_modify_liquidity_update b (pos_tick_upper_index p) (wp_tick_current_index w)
       (wp_fee_growth_global_a w) (wp_fee_growth_global_b w) (ml_reward_infos m) d True
       = Inr (ml_tick_upper_update m)"
    "\<And>ia ib. next_fee_growths_inside (wp_tick_current_index w) a (pos_tick_lower_index p) b
         (pos_tick_upper_index p) (wp_fee_growth_global_a w) (wp_fee_growth_global_b w) = (ia, ib) \<Longrightarrow>
       next_position_modify_liquidity_update p d ia ib
         (next_reward_growths_inside (wp_tick_current_index w) a (pos_tick_lower_index p) b
            (pos_tick_upper_index p) (ml_reward_infos m)) = Inr (ml_position_update m)"
proof -
  obtain a b where ab: "load_position_ticks w p arrays kl ku = Inr (a, b)"
    and run: "calculate_modify_liquidity_of_ticks w p a b (pos_tick_lower_index p) (pos_tick_upper_index p) d t = Inr m"
    using assms by (auto simp: calculate_modify_liquidity_def and_then_Inr_iff)
  show thesis
    by (rule that [of a b])
      (use ab run in \<open>auto simp: load_position_ticks_Inr_iff calculate_modify_liquidity_of_ticks_def
         and_then_Inr_iff case_prod_beta Let_def split: if_splits\<close>)
qed

text \<open>
  The amounts change together: the position and, on both ticks, the gross liquidity by the delta,
  and the liquidity of the pool by the delta exactly when the range contains the current tick.
\<close>

lemma next_whirlpool_liquidity_Inr_iff:
  assumes "in_i128 d"
  shows "next_whirlpool_liquidity w u l d = Inr x \<longleftrightarrow>
    uint x = uint (wp_liquidity w)
      + (if l \<le> wp_tick_current_index w \<and> wp_tick_current_index w < u then d else 0)"
  using add_liquidity_delta_Inr_iff [OF assms]
  by (auto simp: next_whirlpool_liquidity_def word_uint_eq_iff)

lemma modify_liquidity_amounts:
  assumes m: "calculate_modify_liquidity w p arrays kl ku d t = Inr m" and d: "in_i128 d"
  shows "uint (pu_liquidity (ml_position_update m)) = uint (pos_liquidity p) + d"
    "uint (ml_whirlpool_liquidity m) = uint (wp_liquidity w)
       + (if pos_tick_lower_index p \<le> wp_tick_current_index w
            \<and> wp_tick_current_index w < pos_tick_upper_index p then d else 0)"
    "\<exists>a. read_array_tick (wp_tick_spacing w) arrays (kl, pos_tick_lower_index p) = Inr a
       \<and> uint (tu_liquidity_gross (ml_tick_lower_update m)) = uint (tk_liquidity_gross a) + d"
    "\<exists>b. read_array_tick (wp_tick_spacing w) arrays (ku, pos_tick_upper_index p) = Inr b
       \<and> uint (tu_liquidity_gross (ml_tick_upper_update m)) = uint (tk_liquidity_gross b) + d"
proof -
  show "uint (pu_liquidity (ml_position_update m)) = uint (pos_liquidity p) + d"
    using m
  proof (cases rule: modify_liquidity_Inr)
    case (1 a b)
    show ?thesis using 1(8) [OF surjective_pairing] next_position_update_Inr_iff [OF d] by blast
  qed
  show "uint (ml_whirlpool_liquidity m) = uint (wp_liquidity w)
       + (if pos_tick_lower_index p \<le> wp_tick_current_index w
            \<and> wp_tick_current_index w < pos_tick_upper_index p then d else 0)"
    using m by (cases rule: modify_liquidity_Inr) (use next_whirlpool_liquidity_Inr_iff [OF d] in blast)
  show "\<exists>a. read_array_tick (wp_tick_spacing w) arrays (kl, pos_tick_lower_index p) = Inr a
       \<and> uint (tu_liquidity_gross (ml_tick_lower_update m)) = uint (tk_liquidity_gross a) + d"
    using m by (cases rule: modify_liquidity_Inr) (use modify_liquidity_update_amounts(1) [OF _ d] in blast)
  show "\<exists>b. read_array_tick (wp_tick_spacing w) arrays (ku, pos_tick_upper_index p) = Inr b
       \<and> uint (tu_liquidity_gross (ml_tick_upper_update m)) = uint (tk_liquidity_gross b) + d"
    using m by (cases rule: modify_liquidity_Inr) (use modify_liquidity_update_amounts(1) [OF _ d] in blast)
qed

section \<open>Writing the changes back\<close>

text \<open>
  Both ticks carry their updates afterwards, whether or not they are in one array, and no other
  tick has changed.
\<close>

lemma sync_modify_liquidity_ticks:
  assumes ok: "arrays_ok (wp_tick_spacing w) arrays" and lt: "pos_tick_lower_index p < pos_tick_upper_index p"
    and r: "sync_modify_liquidity_values w p arrays kl ku m t = Inr (w', p', arrays')"
  shows "arrays_ok (wp_tick_spacing w) arrays'"
    "read_array_tick (wp_tick_spacing w) arrays' (kl, pos_tick_lower_index p)
       = Inr (tick_update default_tick (ml_tick_lower_update m))"
    "read_array_tick (wp_tick_spacing w) arrays' (ku, pos_tick_upper_index p)
       = Inr (tick_update default_tick (ml_tick_upper_update m))"
    "kt \<noteq> (kl, pos_tick_lower_index p) \<Longrightarrow> kt \<noteq> (ku, pos_tick_upper_index p) \<Longrightarrow>
       read_array_tick (wp_tick_spacing w) arrays' kt = read_array_tick (wp_tick_spacing w) arrays kt"
proof -
  let ?s = "wp_tick_spacing w"
  obtain arrays1 where
    1: "update_array_tick arrays kl (pos_tick_lower_index p) ?s (ml_tick_lower_update m) = Inr arrays1" and
    2: "update_array_tick arrays1 ku (pos_tick_upper_index p) ?s (ml_tick_upper_update m) = Inr arrays'"
    using r by (auto simp: sync_modify_liquidity_values_def Let_def and_then_Inr_iff position_update_def)
  have ok1: "arrays_ok ?s arrays1"
    using account_store.put_ok [OF ok, of "(kl, pos_tick_lower_index p)"] 1 by simp
  show "arrays_ok ?s arrays'"
    using account_store.put_ok [OF ok1, of "(ku, pos_tick_upper_index p)"] 2 by simp
  have g1: "read_array_tick ?s arrays1 k = (if k = (kl, pos_tick_lower_index p)
      then Inr (tick_update default_tick (ml_tick_lower_update m)) else read_array_tick ?s arrays k)" for k
    using account_store.get_put [OF ok, of "(kl, pos_tick_lower_index p)"] 1 by simp
  have g2: "read_array_tick ?s arrays' k = (if k = (ku, pos_tick_upper_index p)
      then Inr (tick_update default_tick (ml_tick_upper_update m)) else read_array_tick ?s arrays1 k)" for k
    using account_store.get_put [OF ok1, of "(ku, pos_tick_upper_index p)"] 2 by simp
  show "read_array_tick ?s arrays' (kl, pos_tick_lower_index p) = Inr (tick_update default_tick (ml_tick_lower_update m))"
    "read_array_tick ?s arrays' (ku, pos_tick_upper_index p) = Inr (tick_update default_tick (ml_tick_upper_update m))"
    "kt \<noteq> (kl, pos_tick_lower_index p) \<Longrightarrow> kt \<noteq> (ku, pos_tick_upper_index p) \<Longrightarrow>
       read_array_tick ?s arrays' kt = read_array_tick ?s arrays kt"
    using lt by (simp_all add: g1 g2)
qed

text \<open>What was calculated from the accounts can always be written back to them.\<close>

lemma sync_modify_liquidity_defined:
  assumes ok: "arrays_ok (wp_tick_spacing w) arrays"
    and m: "calculate_modify_liquidity w p arrays kl ku d t = Inr m"
  shows "\<exists>w' p' arrays'. sync_modify_liquidity_values w p arrays kl ku m t = Inr (w', p', arrays')"
  using m
proof (cases rule: modify_liquidity_Inr)
  case (1 a b)
  let ?s = "wp_tick_spacing w"
  obtain arrays1 where
    p1: "update_array_tick arrays kl (pos_tick_lower_index p) ?s (ml_tick_lower_update m) = Inr arrays1"
    using account_store.put_defined [OF ok, of "(kl, pos_tick_lower_index p)" "ml_tick_lower_update m"] 1(1) by auto
  have ok1: "arrays_ok ?s arrays1"
    using account_store.put_ok [OF ok, of "(kl, pos_tick_lower_index p)"] p1 by simp
  have "\<exists>b'. read_array_tick ?s arrays1 (ku, pos_tick_upper_index p) = Inr b'"
    using account_store.get_put [OF ok, of "(kl, pos_tick_lower_index p)"] p1 1(2) by auto
  then obtain arrays2 where
    p2: "update_array_tick arrays1 ku (pos_tick_upper_index p) ?s (ml_tick_upper_update m) = Inr arrays2"
    using account_store.put_defined [OF ok1, of "(ku, pos_tick_upper_index p)" "ml_tick_upper_update m"] by auto
  show ?thesis
    using p1 p2 by (simp add: sync_modify_liquidity_values_def position_update_def)
qed

section \<open>The tokens that liquidity is worth\<close>

definition position_amounts :: "bool \<Rightarrow> i32 \<Rightarrow> nat \<Rightarrow> Position \<Rightarrow> nat \<Rightarrow> nat \<times> nat" where
  "position_amounts up cur price p l =
     (let pl = price_val (pos_tick_lower_index p); ph = price_val (pos_tick_upper_index p) in
      if cur < pos_tick_lower_index p then (amount_a up pl ph l, 0)
      else if cur < pos_tick_upper_index p then (amount_a up price ph l, amount_b up pl price l)
      else (0, amount_b up pl ph l))"

lemma liquidity_token_deltas_Inr:
  assumes p: "tick_in_range (pos_tick_lower_index p)" "tick_in_range (pos_tick_upper_index p)"
    and d: "in_i128 d" and r: "calculate_liquidity_token_deltas cur price p d = Inr (a, b)"
  shows "d \<noteq> 0" "(unat a, unat b) = position_amounts (d > 0) cur (unat price) p (nat \<bar>d\<bar>)"
proof -
  show d0: "d \<noteq> 0" using r by (auto simp: calculate_liquidity_token_deltas_def)
  have l: "unat (of_int (to_i128 \<bar>d\<bar>) :: u128) = nat \<bar>d\<bar>"
  proof (cases "d < 0")
    case True
    then show ?thesis using of_int_abs_i128 [OF d] by simp
  next
    case False
    then have "to_i128 \<bar>d\<bar> = d" using d by (simp add: to_i128_id)
    then show ?thesis using False d unat_of_int_u128 [of d] by (simp add: in_i128_def)
  qed
  obtain pl ph where ph: "sqrt_price_from_tick_index (pos_tick_lower_index p) = Inr pl"
    "sqrt_price_from_tick_index (pos_tick_upper_index p) = Inr ph"
    using sqrt_price_val p by metis
  then have v: "unat pl = price_val (pos_tick_lower_index p)" "unat ph = price_val (pos_tick_upper_index p)"
    using p sqrt_price_Inr_val by simp_all
  show "(unat a, unat b) = position_amounts (d > 0) cur (unat price) p (nat \<bar>d\<bar>)"
    using r d0 ph
    by (auto simp: calculate_liquidity_token_deltas_def position_amounts_def Let_def and_then_Inr_iff
        get_amount_delta_b_Inr_iff l v dest!: get_amount_delta_a_Inr(3) split: if_splits)
qed

lemma position_amounts_rounding:
  "fst (position_amounts False cur price p l) \<le> fst (position_amounts True cur price p l)"
  "snd (position_amounts False cur price p l) \<le> snd (position_amounts True cur price p l)"
  "fst (position_amounts True cur price p l) \<le> fst (position_amounts False cur price p l) + 1"
  "snd (position_amounts True cur price p l) \<le> snd (position_amounts False cur price p l) + 1"
  by (simp_all add: position_amounts_def Let_def amount_a_def amount_b_def round_div_def
      div_le_ceil_div ceil_div_le_Suc_div [unfolded Suc_eq_plus1 [symmetric]])

text \<open>Depositing liquidity and withdrawing it at the same price never gains, and loses at most one unit.\<close>

lemma deposit_covers_withdrawal:
  assumes p: "tick_in_range (pos_tick_lower_index p)" "tick_in_range (pos_tick_upper_index p)"
    and d: "0 < d" "in_i128 d" "in_i128 (- d)"
    and dep: "calculate_liquidity_token_deltas cur price p d = Inr (a, b)"
    and wit: "calculate_liquidity_token_deltas cur price p (- d) = Inr (a', b')"
  shows "a' \<le> a" "b' \<le> b" "unat a \<le> unat a' + 1" "unat b \<le> unat b' + 1"
proof -
  have "(unat a, unat b) = position_amounts True cur (unat price) p (nat d)"
    using liquidity_token_deltas_Inr(2) [OF p d(2) dep] d(1) by simp
  moreover have "(unat a', unat b') = position_amounts False cur (unat price) p (nat d)"
    using liquidity_token_deltas_Inr(2) [OF p d(3) wit] d(1) by simp
  ultimately show "a' \<le> a" "b' \<le> b" "unat a \<le> unat a' + 1" "unat b \<le> unat b' + 1"
    using position_amounts_rounding [of cur "unat price" p "nat d"]
    by (simp_all add: word_le_nat_alt) (metis fst_conv snd_conv)+
qed

end
