(* ===== verification/Swap_Tick_Sequence.thy ===== *)
theory Swap_Tick_Sequence
  imports State_Tick
begin

text \<open>
  \<open>util/swap_tick_sequence.rs\<close>: the one to three tick arrays a swap walks through, in the order of
  the trade, and the search for the next initialized tick across them.
\<close>

type_synonym SwapTickSequence = "TickArray list"

definition sequence_new :: "TickArray \<Rightarrow> TickArray option \<Rightarrow> TickArray option \<Rightarrow> SwapTickSequence" where
  "sequence_new ta0 ta1 ta2 =
     [ta0] @ (case ta1 of Some ta \<Rightarrow> [ta] | None \<Rightarrow> []) @ (case ta2 of Some ta \<Rightarrow> [ta] | None \<Rightarrow> [])"

text \<open>\<open>self.arrays.get(array_index)\<close>\<close>

definition arrays_get :: "SwapTickSequence \<Rightarrow> usize \<Rightarrow> TickArray option" where
  "arrays_get arrays array_index =
     (if array_index < length arrays then Some (arrays ! array_index) else None)"

definition sequence_get_tick :: "SwapTickSequence \<Rightarrow> usize \<Rightarrow> i32 \<Rightarrow> u16 \<Rightarrow> Tick result" where
  "sequence_get_tick self array_index tick_index tick_spacing =
     (case arrays_get self array_index of
        Some array \<Rightarrow> get_tick array tick_index tick_spacing
      | None \<Rightarrow> Inl (Err TickArrayIndexOutofBounds))"

definition sequence_update_tick ::
  "SwapTickSequence \<Rightarrow> usize \<Rightarrow> i32 \<Rightarrow> u16 \<Rightarrow> TickUpdate \<Rightarrow> SwapTickSequence result" where
  "sequence_update_tick self array_index tick_index tick_spacing update =
     (case arrays_get self array_index of
        Some array \<Rightarrow> and_then (update_tick array tick_index tick_spacing update) (\<lambda>array'.
          Inr (self[array_index := array']))
      | None \<Rightarrow> Inl (Err TickArrayIndexOutofBounds))"

definition get_tick_offset :: "SwapTickSequence \<Rightarrow> usize \<Rightarrow> i32 \<Rightarrow> u16 \<Rightarrow> isize result" where
  "get_tick_offset self array_index tick_index tick_spacing =
     (case arrays_get self array_index of
        Some array \<Rightarrow> tick_offset array tick_index tick_spacing
      | None \<Rightarrow> Inl (Err TickArrayIndexOutofBounds))"

function sequence_search_loop ::
  "SwapTickSequence \<Rightarrow> u16 \<Rightarrow> bool \<Rightarrow> i32 \<Rightarrow> usize \<Rightarrow> (usize \<times> i32) result" where
  "sequence_search_loop arrays tick_spacing a_to_b search_index array_index =
     (if array_index < length arrays then
        let next_array = arrays ! array_index;
            ticks_in_array = TICK_ARRAY_SIZE * uint tick_spacing in
        and_then (array_get_next_init_tick_index next_array search_index tick_spacing a_to_b) (\<lambda>next_index.
          case next_index of
            Some next_index \<Rightarrow> Inr (array_index, next_index)
          | None \<Rightarrow>
              if a_to_b \<and> is_min_tick_array next_array then Inr (array_index, MIN_TICK_INDEX)
              else if \<not> a_to_b \<and> is_max_tick_array next_array tick_spacing then Inr (array_index, MAX_TICK_INDEX)
              else if array_index + 1 = length arrays then
                if a_to_b then Inr (array_index, ta_start_tick_index next_array)
                else Inr (array_index, to_i32 (to_i32 (ta_start_tick_index next_array + ticks_in_array) - 1))
              else sequence_search_loop arrays tick_spacing a_to_b
                     (if a_to_b then to_i32 (ta_start_tick_index next_array - 1)
                      else to_i32 (to_i32 (ta_start_tick_index next_array + ticks_in_array) - 1))
                     (array_index + 1))
      else Inl (Err TickArraySequenceInvalidIndex))"
  by pat_completeness auto
termination by (relation "measure (\<lambda>(arrays, _, _, _, array_index). length arrays - array_index)") auto

declare sequence_search_loop.simps [simp del]

definition get_next_initialized_tick_index ::
  "SwapTickSequence \<Rightarrow> i32 \<Rightarrow> u16 \<Rightarrow> bool \<Rightarrow> usize \<Rightarrow> (usize \<times> i32) result" where
  "get_next_initialized_tick_index self tick_index tick_spacing a_to_b start_array_index =
     sequence_search_loop self tick_spacing a_to_b tick_index start_array_index"

section \<open>The sequence as a store of ticks\<close>

definition sequence_ok :: "u16 \<Rightarrow> SwapTickSequence \<Rightarrow> bool" where
  "sequence_ok s arrays \<longleftrightarrow> s \<noteq> 0 \<and> (\<forall>ta \<in> set arrays. tick_array_ok s ta)"

lemma sequence_ok_nth: "sequence_ok s arrays \<Longrightarrow> i < length arrays \<Longrightarrow> tick_array_ok s (arrays ! i)"
  by (simp add: sequence_ok_def)

interpretation sequence_store: tick_store "sequence_ok s"
    "\<lambda>arrays (i, t). sequence_get_tick arrays i t s"
    "\<lambda>arrays (i, t) u. sequence_update_tick arrays i t s u" for s
proof
  fix st st' :: SwapTickSequence and k u
  assume ok: "sequence_ok s st"
    and u: "(\<lambda>(i, t) u. sequence_update_tick st i t s u) k u = Inr st'"
  obtain i t where k: "k = (i, t)" by (cases k)
  obtain ta where i: "i < length st" and up: "update_tick (st ! i) t s u = Inr ta" and st': "st' = st[i := ta]"
    using u by (auto simp: k sequence_update_tick_def arrays_get_def and_then_Inr_iff split: if_splits)
  have tok: "tick_array_ok s (st ! i)" using ok i by (rule sequence_ok_nth)
  show "sequence_ok s st'"
    using ok array_store.put_ok [OF tok up] set_update_subset_insert [of st i ta] by (auto simp: sequence_ok_def st')
  show "(\<lambda>(i, t). sequence_get_tick st' i t s) k = Inr (tick_update default_tick u)"
    using array_store.get_put_same [OF tok up] i by (simp add: k sequence_get_tick_def arrays_get_def st')
  fix k' :: "nat \<times> int" assume ne: "k' \<noteq> k"
  obtain j t' where k': "k' = (j, t')" by (cases k')
  show "(\<lambda>(i, t). sequence_get_tick st' i t s) k' = (\<lambda>(i, t). sequence_get_tick st i t s) k'"
    using ne i array_store.get_put_other [OF tok up, of t']
    by (cases "j = i") (auto simp: k k' sequence_get_tick_def arrays_get_def st')
next
  fix st :: SwapTickSequence and k :: "usize \<times> i32" and u
  assume ok: "sequence_ok s st"
  obtain i t where k: "k = (i, t)" by (cases k)
  show "(\<exists>st'. (\<lambda>(i, t) u. sequence_update_tick st i t s u) k u = Inr st') \<longleftrightarrow>
      (\<exists>t. (\<lambda>(i, t). sequence_get_tick st i t s) k = Inr t)"
    using array_store.put_defined [OF sequence_ok_nth [OF ok], of i t u]
    by (auto simp: k sequence_update_tick_def sequence_get_tick_def arrays_get_def and_then_Inr_iff)
qed

section \<open>The search across the arrays\<close>

text \<open>Where a search ends: at an initialized tick, at an end of the range, or at the end of the last array.\<close>

definition search_stop :: "u16 \<Rightarrow> SwapTickSequence \<Rightarrow> bool \<Rightarrow> usize \<Rightarrow> i32 \<Rightarrow> bool" where
  "search_stop s arrays a_to_b i x \<longleftrightarrow>
     initialized_at s (arrays ! i) x
     \<or> (if a_to_b then is_min_tick_array (arrays ! i) \<and> x = MIN_TICK_INDEX
        else is_max_tick_array (arrays ! i) s \<and> x = MAX_TICK_INDEX)
     \<or> (i + 1 = length arrays \<and>
        (if a_to_b then \<not> is_min_tick_array (arrays ! i) \<and> x = ta_start_tick_index (arrays ! i)
         else \<not> is_max_tick_array (arrays ! i) s
           \<and> x = ta_start_tick_index (arrays ! i) + ticks_in_array s - 1))"

lemma array_end_val:
  assumes "tick_array_ok s ta"
  shows "to_i32 (ta_start_tick_index ta + ticks_in_array s) = ta_start_tick_index ta + ticks_in_array s"
    "to_i32 (ta_start_tick_index ta + ticks_in_array s - 1) = ta_start_tick_index ta + ticks_in_array s - 1"
    "to_i32 (ta_start_tick_index ta - 1) = ta_start_tick_index ta - 1"
    "is_max_tick_array ta s \<longleftrightarrow> ta_start_tick_index ta + ticks_in_array s > MAX_TICK_INDEX"
proof -
  note d = tick_array_okD [OF assms] and n = ticks_in_array_bounds [of s]
  show e: "to_i32 (ta_start_tick_index ta + ticks_in_array s) = ta_start_tick_index ta + ticks_in_array s"
    "to_i32 (ta_start_tick_index ta + ticks_in_array s - 1) = ta_start_tick_index ta + ticks_in_array s - 1"
    "to_i32 (ta_start_tick_index ta - 1) = ta_start_tick_index ta - 1"
    using d n by (intro to_i32_id; linarith)+
  show "is_max_tick_array ta s \<longleftrightarrow> ta_start_tick_index ta + ticks_in_array s > MAX_TICK_INDEX"
    using e(1) by (simp add: is_max_tick_array_def ticks_in_array_def)
qed

lemma array_search_range:
  assumes ok: "tick_array_ok s ta" and r: "array_get_next_init_tick_index ta t s a_to_b = Inr r"
  shows "in_search_range ta t s (\<not> a_to_b)"
proof (rule ccontr)
  assume "\<not> in_search_range ta t s (\<not> a_to_b)"
  from array_search_returns(2) [OF ok this] r show False by simp
qed

lemma array_search_bounds:
  assumes ok: "tick_array_ok s ta" and r: "array_get_next_init_tick_index ta t s a_to_b = Inr r"
  shows "a_to_b \<Longrightarrow> ta_start_tick_index ta \<le> t"
    "\<not> a_to_b \<Longrightarrow> t < ta_start_tick_index ta + ticks_in_array s - 1 + 1 - uint s"
proof -
  note array_search_range [OF ok r]
  then show "a_to_b \<Longrightarrow> ta_start_tick_index ta \<le> t"
    "\<not> a_to_b \<Longrightarrow> t < ta_start_tick_index ta + ticks_in_array s - 1 + 1 - uint s"
    by (auto simp: in_search_range_eq [OF ok])
qed

text \<open>
  One round of the search: it finds a tick of the array, or ends at an end of it, or goes on in the
  next one.
\<close>

lemma sequence_search_cases:
  assumes ok: "sequence_ok s arrays" and run: "sequence_search_loop arrays s a_to_b t i = Inr (j, x)"
  obtains (found) "i < length arrays" "array_get_next_init_tick_index (arrays ! i) t s a_to_b = Inr (Some x)" "j = i"
  | (stop) "i < length arrays" "array_get_next_init_tick_index (arrays ! i) t s a_to_b = Inr None" "j = i"
      "search_stop s arrays a_to_b i x"
      "x = (if a_to_b then max MIN_TICK_INDEX (ta_start_tick_index (arrays ! i))
            else min MAX_TICK_INDEX (ta_start_tick_index (arrays ! i) + ticks_in_array s - 1))"
  | (more) "i < length arrays" "array_get_next_init_tick_index (arrays ! i) t s a_to_b = Inr None"
      "sequence_search_loop arrays s a_to_b (if a_to_b then ta_start_tick_index (arrays ! i) - 1
         else ta_start_tick_index (arrays ! i) + ticks_in_array s - 1) (i + 1) = Inr (j, x)"
      "if a_to_b then \<not> is_min_tick_array (arrays ! i) else \<not> is_max_tick_array (arrays ! i) s"
proof -
  have i: "i < length arrays" using run unfolding sequence_search_loop.simps [of arrays s a_to_b t i]
    by (simp split: if_splits)
  let ?ta = "arrays ! i"
  have tok: "tick_array_ok s ?ta" using ok i by (rule sequence_ok_nth)
  note e = array_end_val [OF tok]
  obtain r where r: "array_get_next_init_tick_index ?ta t s a_to_b = Inr r" and
    run: "(case r of
            Some next_index \<Rightarrow> Inr (i, next_index)
          | None \<Rightarrow>
              if a_to_b \<and> is_min_tick_array ?ta then Inr (i, MIN_TICK_INDEX)
              else if \<not> a_to_b \<and> is_max_tick_array ?ta s then Inr (i, MAX_TICK_INDEX)
              else if i + 1 = length arrays then
                if a_to_b then Inr (i, ta_start_tick_index ?ta)
                else Inr (i, ta_start_tick_index ?ta + ticks_in_array s - 1)
              else sequence_search_loop arrays s a_to_b
                     (if a_to_b then ta_start_tick_index ?ta - 1
                      else ta_start_tick_index ?ta + ticks_in_array s - 1) (i + 1)) = Inr (j, x)"
    using run i
    unfolding sequence_search_loop.simps [of arrays s a_to_b t i] Let_def ticks_in_array_def [symmetric] e(1-3)
    by (auto simp: and_then_Inr_iff)
  show thesis
  proof (cases r)
    case (Some y)
    then have "y = x" "i = j" using run by simp_all
    with r i Some show thesis by (intro found) simp_all
  next
    case None
    consider (min) "a_to_b" "is_min_tick_array ?ta" | (max) "\<not> a_to_b" "is_max_tick_array ?ta s"
      | (last) "\<not> (a_to_b \<and> is_min_tick_array ?ta)" "\<not> (\<not> a_to_b \<and> is_max_tick_array ?ta s)" "i + 1 = length arrays"
      | (go) "\<not> (a_to_b \<and> is_min_tick_array ?ta)" "\<not> (\<not> a_to_b \<and> is_max_tick_array ?ta s)" "i + 1 \<noteq> length arrays"
      by blast
    then show thesis
    proof cases
      case min
      then have "x = MIN_TICK_INDEX" "i = j" using run None by simp_all
      with min r i None show thesis by (intro stop) (simp_all add: search_stop_def is_min_tick_array_def)
    next
      case max
      then have "x = MAX_TICK_INDEX" "i = j" using run None by simp_all
      with max r i None e(4) show thesis by (intro stop) (simp_all add: search_stop_def)
    next
      case last
      then have "i = j" "x = (if a_to_b then ta_start_tick_index ?ta else ta_start_tick_index ?ta + ticks_in_array s - 1)"
        using run None last by (auto split: if_splits)
      with last r i None e(4) show thesis
        by (cases a_to_b; intro stop) (auto simp: search_stop_def is_min_tick_array_def)
    next
      case go
      have "sequence_search_loop arrays s a_to_b (if a_to_b then ta_start_tick_index ?ta - 1
         else ta_start_tick_index ?ta + ticks_in_array s - 1) (i + 1) = Inr (j, x)"
        using run None go by (simp split: if_splits)
      then show thesis using r i None go by (intro more) (simp_all split: if_splits)
    qed
  qed
qed

text \<open>
  The search never goes back: it stops in the array it started from or in a later one, at a tick
  in the direction of the trade (except that it offers the ends of the range to a price already
  there).
\<close>

lemma sequence_search_correct:
  assumes ok: "sequence_ok s arrays"
  shows "sequence_search_loop arrays s a_to_b t i = Inr (j, x) \<Longrightarrow>
    i \<le> j \<and> j < length arrays \<and> search_stop s arrays a_to_b j x
    \<and> (if a_to_b then x \<le> max t MIN_TICK_INDEX else min t (MAX_TICK_INDEX - 1) < x)"
proof (induction "length arrays - i" arbitrary: i t rule: less_induct)
  case less
  show ?case using ok less.prems
  proof (cases rule: sequence_search_cases)
    case found
    note tok = sequence_ok_nth [OF ok found(1)]
    show ?thesis using array_search_correct [OF tok found(2)] found
      by (auto simp: next_initialized_def search_stop_def split: if_splits)
  next
    case stop
    note tok = sequence_ok_nth [OF ok stop(1)]
    show ?thesis using array_search_bounds [OF tok stop(2)] tick_array_okD(2) [OF tok] stop
      by (auto split: if_splits)
  next
    case more
    note tok = sequence_ok_nth [OF ok more(1)]
    have "length arrays - (i + 1) < length arrays - i" using more(1) by simp
    from less.hyps [OF this more(3)] show ?thesis using array_search_bounds [OF tok more(2)] tick_array_okD(2) [OF tok]
      by (auto split: if_splits)
  qed
qed

text \<open>
  No initialized tick of the arrays it passes is skipped: the arrays lie side by side (each search
  starts at the edge of the one before), so that what the earlier ones hold is not ahead.
\<close>

lemma initialized_at_bounds:
  assumes "tick_array_ok s ta" "initialized_at s ta y"
  shows "ta_start_tick_index ta \<le> y" "y < ta_start_tick_index ta + ticks_in_array s"
  using initialized_at_holds(1) [OF assms] by (auto simp: holds_tick_def)

lemma adjacent_multiples:
  fixes a b n d :: int
  assumes "n dvd a" "n dvd b" "a - n \<le> b + d" "b + d < a + n" "0 \<le> d" "d < n"
  shows "b = a - n \<or> b = a"
proof -
  obtain k where k: "a = n * k" using assms(1) by (rule dvdE)
  obtain l where l: "b = n * l" using assms(2) by (rule dvdE)
  have n: "0 < n" using assms by linarith
  have "n * (k - 2) < n * l" "n * l < n * (k + 1)" using assms by (simp_all add: k l algebra_simps)
  then have "l = k - 1 \<or> l = k" using n by auto
  then show ?thesis using k l by (auto simp: algebra_simps)
qed

lemma next_array_start:
  assumes ta: "tick_array_ok s ta" and tb: "tick_array_ok s tb"
    and r: "array_get_next_init_tick_index tb (if a_to_b then ta_start_tick_index ta - 1
         else ta_start_tick_index ta + ticks_in_array s - 1) s a_to_b = Inr r"
  shows "ta_start_tick_index tb = (if a_to_b then ta_start_tick_index ta - ticks_in_array s
    else ta_start_tick_index ta + ticks_in_array s)"
proof -
  let ?n = "ticks_in_array s"
  note d = tick_array_okD(7) [OF ta] tick_array_okD(7) [OF tb]
  have s: "0 < uint s" "uint s < ?n" using tick_array_okD(2) [OF ta] by (simp_all add: ticks_in_array_def TICK_ARRAY_SIZE_def)
  have "in_search_range tb (if a_to_b then ta_start_tick_index ta - 1
         else ta_start_tick_index ta + ?n - 1) s (\<not> a_to_b)"
    by (rule array_search_range [OF tb r])
  then show ?thesis
    using adjacent_multiples [of ?n "ta_start_tick_index ta" "ta_start_tick_index tb" 0]
      adjacent_multiples [of ?n "ta_start_tick_index tb" "ta_start_tick_index ta" "?n - 1"] d s
    by (auto simp: in_search_range_eq [OF tb] split: if_splits)
qed

definition ahead :: "bool \<Rightarrow> i32 \<Rightarrow> i32 \<Rightarrow> i32 \<Rightarrow> bool" where
  "ahead a_to_b t y x \<longleftrightarrow> (if a_to_b then x < y \<and> y \<le> t else t < y \<and> y < x)"

lemma sequence_search_skips:
  assumes ok: "sequence_ok s arrays"
  shows "sequence_search_loop arrays s a_to_b t i = Inr (j, x) \<Longrightarrow>
    (\<forall>k y. i \<le> k \<and> k \<le> j \<and> initialized_at s (arrays ! k) y \<longrightarrow> \<not> ahead a_to_b t y x
       \<and> (if a_to_b then y < ta_start_tick_index (arrays ! i) + ticks_in_array s
          else ta_start_tick_index (arrays ! i) \<le> y))"
proof (induction "length arrays - i" arbitrary: i t rule: less_induct)
  case less
  show ?case using ok less.prems
  proof (cases rule: sequence_search_cases)
    case found
    note tok = sequence_ok_nth [OF ok found(1)]
    show ?thesis using array_search_correct [OF tok found(2)] initialized_at_bounds [OF tok] found
      by (auto simp: next_initialized_def ahead_def split: if_splits)
  next
    case stop
    note tok = sequence_ok_nth [OF ok stop(1)]
    show ?thesis using array_search_correct [OF tok stop(2)] initialized_at_bounds [OF tok] stop
      by (auto simp: next_initialized_def ahead_def split: if_splits)
  next
    case more
    let ?t = "if a_to_b then ta_start_tick_index (arrays ! i) - 1 else ta_start_tick_index (arrays ! i) + ticks_in_array s - 1"
    note tok = sequence_ok_nth [OF ok more(1)]
    have j: "i + 1 < length arrays" using more(3) unfolding sequence_search_loop.simps [of _ _ _ _ "i + 1"]
      by (simp split: if_splits)
    note tok' = sequence_ok_nth [OF ok j]
    obtain r where "array_get_next_init_tick_index (arrays ! (i + 1)) ?t s a_to_b = Inr r"
      using ok more(3) by (cases rule: sequence_search_cases) auto
    note st = next_array_start [OF tok tok' this]
    have n: "0 < ticks_in_array s" using ticks_in_array_bounds(1) [OF tick_array_okD(1) [OF tok]] .
    have none: "initialized_at s (arrays ! i) y \<Longrightarrow> \<not> ahead a_to_b t y x" for y
      using array_search_correct [OF tok more(2)] by (auto simp: next_initialized_def ahead_def split: if_splits)
    have "length arrays - (i + 1) < length arrays - i" using more(1) by simp
    note IH = less.hyps [OF this more(3)]
    show ?thesis
    proof (intro allI impI)
      fix k y assume k: "i \<le> k \<and> k \<le> j \<and> initialized_at s (arrays ! k) y"
      show "\<not> ahead a_to_b t y x \<and> (if a_to_b then y < ta_start_tick_index (arrays ! i) + ticks_in_array s
          else ta_start_tick_index (arrays ! i) \<le> y)"
      proof (cases "k = i")
        case True
        then show ?thesis using none k initialized_at_bounds [OF tok] by auto
      next
        case False
        then have "i + 1 \<le> k \<and> k \<le> j \<and> initialized_at s (arrays ! k) y" using k by simp
        then have "\<not> ahead a_to_b ?t y x \<and> (if a_to_b then y < ta_start_tick_index (arrays ! (i + 1)) + ticks_in_array s
          else ta_start_tick_index (arrays ! (i + 1)) \<le> y)"
          by (rule IH [rule_format])
        then show ?thesis using st n by (auto simp: ahead_def split: if_splits)
      qed
    qed
  qed
qed

text \<open>Every stop is a tick with a price, up to one tick below the range for a misplaced array.\<close>

lemma search_stop_range:
  assumes ok: "sequence_ok s arrays" and j: "j < length arrays" and st: "search_stop s arrays a_to_b j x"
  shows "a_to_b \<Longrightarrow> tick_in_range x" "MIN_TICK_INDEX - 1 \<le> x" "x \<le> MAX_TICK_INDEX"
proof -
  let ?ta = "arrays ! j"
  have tok: "tick_array_ok s ?ta" using ok j by (rule sequence_ok_nth)
  have init: "initialized_at s ?ta x \<Longrightarrow> tick_in_range x"
    using initialized_at_holds(1) [OF tok] by (auto simp: holds_tick_def)
  have mm: "MIN_TICK_INDEX \<le> MAX_TICK_INDEX" by (simp add: MIN_TICK_INDEX_def MAX_TICK_INDEX_def)
  have lb: "MIN_TICK_INDEX - ticks_in_array s \<le> ta_start_tick_index ?ta" "ta_start_tick_index ?ta \<le> MAX_TICK_INDEX"
    using tok by (simp_all add: tick_array_ok_def)
  show "a_to_b \<Longrightarrow> tick_in_range x" "MIN_TICK_INDEX - 1 \<le> x" "x \<le> MAX_TICK_INDEX"
    using st init lb mm unfolding search_stop_def
    by (auto simp: tick_in_range_def is_min_tick_array_def array_end_val(4) [OF tok] split: if_splits)
qed

end
