(* ===== verification/Swap_Math.thy ===== *)
theory Swap_Math
  imports Token_Math
begin

text \<open>
  \<open>math/swap_math.rs\<close>: one step of a swap at constant liquidity, from the current price towards
  a target price, with the fee taken from the input.  The step is proved to stay between the two
  prices, to round both amounts in favour of the pool, never to take more than what remains of a
  fixed input or to give more than what remains of a fixed output, and to use up what remains when
  it stops short of the target.
\<close>

record SwapStepComputation =
  amount_in :: u64
  amount_out :: u64
  next_price :: u128
  fee_amount :: u64

definition get_amount_fixed_delta :: "u128 \<Rightarrow> u128 \<Rightarrow> u128 \<Rightarrow> bool \<Rightarrow> bool \<Rightarrow> u64 result" where
  "get_amount_fixed_delta sqrt_price_current sqrt_price_target liquidity amount_specified_is_input a_to_b =
     (if a_to_b = amount_specified_is_input
      then get_amount_delta_a sqrt_price_current sqrt_price_target liquidity amount_specified_is_input
      else get_amount_delta_b sqrt_price_current sqrt_price_target liquidity amount_specified_is_input)"

definition get_amount_unfixed_delta :: "u128 \<Rightarrow> u128 \<Rightarrow> u128 \<Rightarrow> bool \<Rightarrow> bool \<Rightarrow> u64 result" where
  "get_amount_unfixed_delta sqrt_price_current sqrt_price_target liquidity amount_specified_is_input a_to_b =
     (if a_to_b = amount_specified_is_input
      then get_amount_delta_b sqrt_price_current sqrt_price_target liquidity (\<not> amount_specified_is_input)
      else get_amount_delta_a sqrt_price_current sqrt_price_target liquidity (\<not> amount_specified_is_input))"

definition compute_swap ::
  "u64 \<Rightarrow> u16 \<Rightarrow> u128 \<Rightarrow> u128 \<Rightarrow> u128 \<Rightarrow> bool \<Rightarrow> bool \<Rightarrow> SwapStepComputation result" where
  "compute_swap amount_remaining fee_rate liquidity sqrt_price_current sqrt_price_target
     amount_specified_is_input a_to_b =
     and_then (get_amount_fixed_delta sqrt_price_current sqrt_price_target liquidity
                 amount_specified_is_input a_to_b) (\<lambda>target_fixed_delta.
     and_then (if amount_specified_is_input
               then and_then (checked_mul_div (ucast amount_remaining)
                       (FEE_RATE_MUL_VALUE - ucast fee_rate) FEE_RATE_MUL_VALUE) try_into_u64
               else Inr amount_remaining) (\<lambda>amount_calc.
     and_then (if amount_calc \<ge> target_fixed_delta then Inr sqrt_price_target
               else get_next_sqrt_price sqrt_price_current liquidity amount_calc
                      amount_specified_is_input a_to_b) (\<lambda>next_sqrt_price.
     let is_max_swap = (next_sqrt_price = sqrt_price_target) in
     and_then (get_amount_unfixed_delta sqrt_price_current next_sqrt_price liquidity
                 amount_specified_is_input a_to_b) (\<lambda>amount_unfixed_delta.
     and_then (if \<not> is_max_swap
               then get_amount_fixed_delta sqrt_price_current next_sqrt_price liquidity
                      amount_specified_is_input a_to_b
               else Inr target_fixed_delta) (\<lambda>amount_fixed_delta.
     let (a_in, a_out) = (if amount_specified_is_input then (amount_fixed_delta, amount_unfixed_delta)
                          else (amount_unfixed_delta, amount_fixed_delta));
         a_out = (if \<not> amount_specified_is_input \<and> a_out > amount_remaining
                  then amount_remaining else a_out) in
     and_then (if amount_specified_is_input \<and> \<not> is_max_swap then Inr (amount_remaining - a_in)
               else and_then (checked_mul_div_round_up (ucast a_in) (ucast fee_rate)
                       (FEE_RATE_MUL_VALUE - ucast fee_rate)) try_into_u64) (\<lambda>fee.
     Inr \<lparr>amount_in = a_in, amount_out = a_out, next_price = next_sqrt_price, fee_amount = fee\<rparr>))))))"

section \<open>The amounts of a step as numbers\<close>

definition fixed_amount :: "bool \<Rightarrow> bool \<Rightarrow> nat \<Rightarrow> nat \<Rightarrow> nat \<Rightarrow> nat" where
  "fixed_amount inp a_to_b p q l = (if a_to_b = inp then amount_a inp p q l else amount_b inp p q l)"

definition input_amount :: "bool \<Rightarrow> nat \<Rightarrow> nat \<Rightarrow> nat \<Rightarrow> nat" where
  "input_amount a_to_b p q l = (if a_to_b then amount_a True p q l else amount_b True p q l)"

definition output_amount :: "bool \<Rightarrow> nat \<Rightarrow> nat \<Rightarrow> nat \<Rightarrow> nat" where
  "output_amount a_to_b p q l = (if a_to_b then amount_b False p q l else amount_a False p q l)"

lemma fixed_amount_eq:
  "fixed_amount inp a_to_b p q l = (if inp then input_amount a_to_b p q l else output_amount a_to_b p q l)"
  by (auto simp: fixed_amount_def input_amount_def output_amount_def)

lemma get_amount_fixed_delta_Inr:
  "get_amount_fixed_delta p q l inp a_to_b = Inr r \<Longrightarrow>
     unat r = fixed_amount inp a_to_b (unat p) (unat q) (unat l)
     \<and> (a_to_b = inp \<longrightarrow> p \<noteq> 0 \<and> q \<noteq> 0)"
  by (auto simp: get_amount_fixed_delta_def fixed_amount_def get_amount_delta_b_Inr_iff
      dest: get_amount_delta_a_Inr split: if_splits)

lemma get_amount_unfixed_delta_Inr:
  "get_amount_unfixed_delta p q l inp a_to_b = Inr r \<Longrightarrow>
     unat r = (if inp then output_amount a_to_b (unat p) (unat q) (unat l)
               else input_amount a_to_b (unat p) (unat q) (unat l))"
  by (auto simp: get_amount_unfixed_delta_def input_amount_def output_amount_def
      get_amount_delta_b_Inr_iff dest: get_amount_delta_a_Inr split: if_splits)

section \<open>A step stays between the current and the target price\<close>

text \<open>\<open>q\<close> lies on the way from \<open>p\<close> to the target \<open>t\<close>; a price that falls short lies before it.\<close>

definition on_the_way :: "bool \<Rightarrow> u128 \<Rightarrow> u128 \<Rightarrow> u128 \<Rightarrow> bool" where
  "on_the_way a_to_b p q t \<longleftrightarrow> (if a_to_b then t \<le> q \<and> q \<le> p else p \<le> q \<and> q \<le> t)"

lemma next_price_within_a:
  assumes r: "get_next_sqrt_price_from_a_round_up p l a inp = Inr q"
    and lt: "unat a < amount_a inp (unat p) (unat t) (unat l)"
    and p: "p \<noteq> 0" "t \<noteq> 0" and dir: "if inp then t \<le> p else p \<le> t"
  shows "if inp then t < q else q \<le> t"
proof -
  let ?P = "unat p" and ?T = "unat t" and ?L = "unat l" and ?A = "unat a"
  have pt: "0 < ?P * ?T" using p by (simp add: unat_gt_0)
  show ?thesis
  proof (cases "a = 0")
    case True
    then have q: "q = p" using r by (simp add: get_next_sqrt_price_from_a_round_up_def)
    have "t \<noteq> p" using lt by (auto simp: amount_a_def)
    then show ?thesis using dir q by auto
  next
    case False
    note n = next_price_from_a_Inr [OF r False]
    show ?thesis
    proof (cases inp)
      case inp: True
      have "\<not> ?L * (?P - ?T) * 2 ^ 64 \<le> ?A * (?P * ?T)"
        using lt inp dir pt
        by (simp add: amount_a_def round_div_def ceil_div_le_iff [symmetric] word_le_nat_alt
            max_absorb1 min_absorb2 del: not_le)
      then have "\<not> ?L * ?P * 2 ^ 64 \<le> ?T * (?L * 2 ^ 64 + ?P * ?A)"
        by (simp add: algebra_simps diff_mult_distrib2)
      then have "\<not> unat q \<le> ?T" using n(3,4) [OF inp] by (simp add: ceil_div_le_iff)
      then show ?thesis using inp by (simp add: word_less_nat_alt)
    next
      case out: False
      have "(?A + 1) * (?P * ?T) \<le> ?L * (?T - ?P) * 2 ^ 64"
        using lt out dir pt
        by (simp add: amount_a_def round_div_def le_div_iff [symmetric] word_le_nat_alt
            max_absorb2 min_absorb1 Suc_le_eq del: mult_Suc)
      then have "?T * (?P * ?A) + ?L * ?P * 2 ^ 64 \<le> ?T * (?L * 2 ^ 64)"
      proof -
        have "?L * (?T - ?P) * 2 ^ 64 = ?T * (?L * 2 ^ 64) - ?L * ?P * 2 ^ 64"
          by (simp add: diff_mult_distrib2 diff_mult_distrib ac_simps)
        moreover have "?L * ?P * 2 ^ 64 \<le> ?T * (?L * 2 ^ 64)"
          using dir out by (simp add: word_le_nat_alt mult.left_commute)
        moreover have "?T * (?P * ?A) \<le> (?A + 1) * (?P * ?T)" by (simp add: ac_simps)
        ultimately show ?thesis
          using \<open>(?A + 1) * (?P * ?T) \<le> ?L * (?T - ?P) * 2 ^ 64\<close> by linarith
      qed
      then have "?L * ?P * 2 ^ 64 \<le> ?T * (?L * 2 ^ 64 - ?P * ?A)"
        unfolding diff_mult_distrib2 by linarith
      then have "unat q \<le> ?T" using n(5,6) [OF out] by (simp add: ceil_div_le_iff)
      then show ?thesis using out by (simp add: word_le_nat_alt)
    qed
  qed
qed

lemma next_price_within_b:
  assumes r: "get_next_sqrt_price_from_b_round_down p l a inp = Inr q"
    and lt: "unat a < amount_b inp (unat p) (unat t) (unat l)"
    and dir: "if inp then p \<le> t else t \<le> p"
  shows "if inp then q < t else t \<le> q"
proof -
  note n = next_price_from_b_Inr [OF r]
  let ?P = "unat p" and ?T = "unat t" and ?L = "unat l" and ?A = "unat a"
  have l: "0 < ?L" using n(1) by (simp add: unat_gt_0)
  show ?thesis
  proof (cases inp)
    case True
    have "\<not> ?L * (?T - ?P) \<le> ?A * 2 ^ 64"
      using lt True dir
      by (simp add: amount_b_def round_div_def ceil_div_le_iff [symmetric] word_le_nat_alt
          max_absorb2 min_absorb1 del: not_le)
    then have "\<not> ?T - ?P \<le> ?A * 2 ^ 64 div ?L" using l by (simp add: le_div_iff mult.commute)
    then show ?thesis using True n(2) by (simp add: word_less_nat_alt)
  next
    case False
    have "(?A + 1) * 2 ^ 64 \<le> ?L * (?P - ?T)"
      using lt False dir
      by (simp add: amount_b_def round_div_def le_div_iff [symmetric] word_le_nat_alt
          max_absorb1 min_absorb2 Suc_le_eq del: mult_Suc)
    then have "ceil_div (?A * 2 ^ 64) ?L \<le> ?P - ?T" using l by (simp add: ceil_div_le_iff mult.commute)
    then show ?thesis using False n(3) dir by (simp add: word_le_nat_alt)
  qed
qed

lemma next_price_within:
  assumes f: "get_amount_fixed_delta p t l inp a_to_b = Inr x" and lt: "a < x"
    and r: "get_next_sqrt_price p l a inp a_to_b = Inr q"
    and dir: "if a_to_b then t \<le> p else p \<le> t"
  shows "on_the_way a_to_b p q t" "inp \<Longrightarrow> q \<noteq> t"
proof -
  note x = get_amount_fixed_delta_Inr [OF f]
  have lt': "unat a < fixed_amount inp a_to_b (unat p) (unat t) (unat l)"
    using lt x by (simp add: word_less_nat_alt)
  have d: "if a_to_b then q \<le> p else p \<le> q" by (rule next_price_direction [OF r])
  have "(if a_to_b then t \<le> q else q \<le> t) \<and> (inp \<longrightarrow> q \<noteq> t)"
  proof (cases "inp = a_to_b")
    case True
    then have "get_next_sqrt_price_from_a_round_up p l a inp = Inr q"
      using r by (simp add: get_next_sqrt_price_def)
    then show ?thesis using next_price_within_a [of p l a inp q t] lt' x dir True
      by (cases inp) (auto simp: fixed_amount_def)
  next
    case False
    then have "get_next_sqrt_price_from_b_round_down p l a inp = Inr q"
      using r by (simp add: get_next_sqrt_price_def)
    then show ?thesis using next_price_within_b [of p l a inp q t] lt' dir False
      by (cases inp) (auto simp: fixed_amount_def)
  qed
  then show "on_the_way a_to_b p q t" "inp \<Longrightarrow> q \<noteq> t" using d by (auto simp: on_the_way_def)
qed

lemma next_price_amount:
  assumes r: "get_next_sqrt_price p l a inp a_to_b = Inr q"
    and f: "get_amount_fixed_delta p q l inp a_to_b = Inr y"
  shows "if inp then y \<le> a else a \<le> y"
proof (cases "inp = a_to_b")
  case True
  then show ?thesis
    using amount_a_next_price [of p l a inp q] r get_amount_fixed_delta_Inr [OF f]
    by (cases inp) (auto simp: get_next_sqrt_price_def fixed_amount_def word_le_nat_alt)
next
  case False
  then show ?thesis
    using amount_b_next_price [of p l a inp q] r get_amount_fixed_delta_Inr [OF f]
    by (cases inp) (auto simp: get_next_sqrt_price_def fixed_amount_def word_le_nat_alt)
qed

section \<open>The fee and the whole step\<close>

lemma fee_within:
  fixes i r f m :: nat
  assumes "f < m" and i: "i \<le> r * (m - f) div m"
  shows "i + ceil_div (i * f) (m - f) \<le> r"
proof -
  have "i * m \<le> r * (m - f)" using assms by (simp add: le_div_iff)
  also have "\<dots> \<le> r * m" by simp
  finally have ir: "i \<le> r" using assms(1) by simp
  have "i * f + i * (m - f) = i * m" using assms(1) by (simp flip: add_mult_distrib2)
  also have "\<dots> \<le> r * (m - f)" by fact
  also have "\<dots> = (r - i) * (m - f) + i * (m - f)" using ir by (simp flip: add_mult_distrib)
  finally have "i * f \<le> (r - i) * (m - f)" by simp
  then have "ceil_div (i * f) (m - f) \<le> r - i" using assms(1) by (simp add: ceil_div_le_iff)
  then show ?thesis using ir by simp
qed

lemma fee_rate_vals:
  "unat FEE_RATE_MUL_VALUE = 1000000"
  "unat (FEE_RATE_MUL_VALUE - ucast (f :: u16)) = 1000000 - unat f"
  using unat_u16_less [of f] by (simp_all add: FEE_RATE_MUL_VALUE_def unat_sub_nowrap)

text \<open>The fee that is charged on an input amount, rounded up.\<close>

definition fee_on :: "nat \<Rightarrow> u16 \<Rightarrow> nat" where
  "fee_on i f = ceil_div (i * unat f) (1000000 - unat f)"

lemma fee_rounded_up_Inr:
  assumes "and_then (checked_mul_div_round_up (ucast (i :: u64)) (ucast f) (FEE_RATE_MUL_VALUE - ucast f)) try_into_u64
     = Inr fee"
  shows "unat fee = fee_on (unat i) f"
  using assms
  by (auto simp: and_then_Inr_iff checked_mul_div_round_up_def checked_mul_div_Inr_iff try_into_u64_Inr_iff
      fee_rate_vals fee_on_def round_div_def)

lemma amount_calc_Inr:
  assumes "and_then (checked_mul_div (ucast (r :: u64)) (FEE_RATE_MUL_VALUE - ucast (f :: u16)) FEE_RATE_MUL_VALUE) try_into_u64
     = Inr c"
  shows "unat c = unat r * (1000000 - unat f) div 1000000"
  using assms
  by (auto simp: and_then_Inr_iff checked_mul_div_def checked_mul_div_Inr_iff try_into_u64_Inr_iff
      fee_rate_vals round_div_def)

text \<open>A step taken apart: the amounts it looked at, and where it went.\<close>

lemma compute_swap_cases:
  assumes run: "compute_swap r f l p t inp a_to_b = Inr s"
  obtains x c y u where
    "get_amount_fixed_delta p t l inp a_to_b = Inr x"
    "if inp then unat c = unat r * (1000000 - unat f) div 1000000 else c = r"
    "if x \<le> c then next_price s = t else get_next_sqrt_price p l c inp a_to_b = Inr (next_price s)"
    "get_amount_unfixed_delta p (next_price s) l inp a_to_b = Inr u"
    "if next_price s = t then y = x else get_amount_fixed_delta p (next_price s) l inp a_to_b = Inr y"
    "amount_in s = (if inp then y else u)"
    "amount_out s = (if inp then u else if y > r then r else y)"
    "if inp \<and> next_price s \<noteq> t then fee_amount s = r - y
     else unat (fee_amount s) = fee_on (unat (amount_in s)) f"
proof -
  obtain x c n u y fee where
    x: "get_amount_fixed_delta p t l inp a_to_b = Inr x" and
    c: "(if inp then and_then (checked_mul_div (ucast r) (FEE_RATE_MUL_VALUE - ucast f) FEE_RATE_MUL_VALUE)
           try_into_u64 else Inr r) = Inr c" and
    n: "(if x \<le> c then Inr t else get_next_sqrt_price p l c inp a_to_b) = Inr n" and
    u: "get_amount_unfixed_delta p n l inp a_to_b = Inr u" and
    y: "(if n \<noteq> t then get_amount_fixed_delta p n l inp a_to_b else Inr x) = Inr y" and
    fee: "(if inp \<and> n \<noteq> t then Inr (r - (if inp then y else u))
      else and_then (checked_mul_div_round_up (ucast (if inp then y else u)) (ucast f)
             (FEE_RATE_MUL_VALUE - ucast f)) try_into_u64) = Inr fee" and
    s: "s = \<lparr>amount_in = if inp then y else u, amount_out = if inp then u else if y > r then r else y,
      next_price = n, fee_amount = fee\<rparr>"
    using run unfolding compute_swap_def Let_def
    by (cases inp) (auto simp only: and_then_Inr_iff prod.case if_True if_False simp_thms sum.inject)
  show ?thesis
  proof (rule that [OF x _ _ _ _ _ _ _])
    show "if inp then unat c = unat r * (1000000 - unat f) div 1000000 else c = r"
      using c amount_calc_Inr by auto
    show "if x \<le> c then next_price s = t else get_next_sqrt_price p l c inp a_to_b = Inr (next_price s)"
      using n s by auto
    show "get_amount_unfixed_delta p (next_price s) l inp a_to_b = Inr u" using u s by simp
    show "if next_price s = t then y = x else get_amount_fixed_delta p (next_price s) l inp a_to_b = Inr y"
      using y s by auto
    show "amount_in s = (if inp then y else u)" "amount_out s = (if inp then u else if y > r then r else y)"
      by (simp_all add: s)
    show "if inp \<and> next_price s \<noteq> t then fee_amount s = r - y
       else unat (fee_amount s) = fee_on (unat (amount_in s)) f"
      using fee fee_rounded_up_Inr by (auto simp: s split: if_splits)
  qed
qed

lemma fixed_amount_within:
  assumes "if inp then unat c = unat r * (1000000 - unat f) div 1000000 else c = r" and inp: inp
    and "y \<le> c"
  shows "unat y + fee_on (unat y) f \<le> unat (r :: u64)"
  using assms unat_u16_less [of f] unfolding fee_on_def
  by (intro fee_within) (simp_all add: word_le_nat_alt)

lemma compute_swap_fixed:
  assumes run: "compute_swap r f l p t inp a_to_b = Inr s" and dir: "if a_to_b then t \<le> p else p \<le> t"
  shows "on_the_way a_to_b p (next_price s) t"
    "unat (amount_in s) = input_amount a_to_b (unat p) (unat (next_price s)) (unat l)"
    "unat (amount_out s) = (if inp then output_amount a_to_b (unat p) (unat (next_price s)) (unat l)
       else min (unat r) (output_amount a_to_b (unat p) (unat (next_price s)) (unat l)))"
    "inp \<Longrightarrow> unat (amount_in s) + unat (fee_amount s) \<le> unat r"
    "fee_on (unat (amount_in s)) f \<le> unat (fee_amount s)"
    "next_price s \<noteq> t \<Longrightarrow> (if inp then unat (amount_in s) + unat (fee_amount s) = unat r
       else amount_out s = r)"
    "inp \<and> next_price s \<noteq> t \<or> unat (fee_amount s) = fee_on (unat (amount_in s)) f"
proof -
  obtain x c y u where
    x: "get_amount_fixed_delta p t l inp a_to_b = Inr x" and
    c: "if inp then unat c = unat r * (1000000 - unat f) div 1000000 else c = r" and
    n: "if x \<le> c then next_price s = t else get_next_sqrt_price p l c inp a_to_b = Inr (next_price s)" and
    u: "get_amount_unfixed_delta p (next_price s) l inp a_to_b = Inr u" and
    y: "if next_price s = t then y = x else get_amount_fixed_delta p (next_price s) l inp a_to_b = Inr y" and
    s: "amount_in s = (if inp then y else u)" "amount_out s = (if inp then u else if y > r then r else y)" and
    fee: "if inp \<and> next_price s \<noteq> t then fee_amount s = r - y
       else unat (fee_amount s) = fee_on (unat (amount_in s)) f"
    by (rule compute_swap_cases [OF run], rule that)
  have f: "get_amount_fixed_delta p (next_price s) l inp a_to_b = Inr y"
    using x y by (cases "next_price s = t") simp_all
  note fv = get_amount_fixed_delta_Inr [OF f] and uv = get_amount_unfixed_delta_Inr [OF u]
  show "on_the_way a_to_b p (next_price s) t"
    using n next_price_within(1) [OF x _ _ dir, of c "next_price s"] dir
    by (cases "x \<le> c") (auto simp: on_the_way_def)
  show "unat (amount_in s) = input_amount a_to_b (unat p) (unat (next_price s)) (unat l)"
    using fv uv by (simp add: s fixed_amount_eq)
  show "unat (amount_out s) = (if inp then output_amount a_to_b (unat p) (unat (next_price s)) (unat l)
       else min (unat r) (output_amount a_to_b (unat p) (unat (next_price s)) (unat l)))"
    using fv uv by (auto simp: s fixed_amount_eq word_less_nat_alt min_def)
  have yc: "y \<le> c" if "inp"
  proof (cases "x \<le> c")
    case True
    then show ?thesis using n y by simp
  next
    case False
    then show ?thesis using n next_price_amount [of p l c inp a_to_b "next_price s" y] f that by simp
  qed
  then have within: "unat y + fee_on (unat y) f \<le> unat r" if "inp"
    using fixed_amount_within [OF c that] that by simp
  have partial: "unat (r - y) = unat r - unat y" if "inp"
    using within [OF that] by (simp add: unat_sub_nowrap)
  show "inp \<Longrightarrow> unat (amount_in s) + unat (fee_amount s) \<le> unat r"
    "fee_on (unat (amount_in s)) f \<le> unat (fee_amount s)"
    using within partial fee by (cases inp; cases "next_price s = t"; simp add: s)+
  show "inp \<and> next_price s \<noteq> t \<or> unat (fee_amount s) = fee_on (unat (amount_in s)) f"
    using fee by (auto split: if_splits)
  assume t: "next_price s \<noteq> t"
  then have "\<not> x \<le> c" "get_next_sqrt_price p l c inp a_to_b = Inr (next_price s)" using n by (auto split: if_splits)
  then have "\<not> inp \<Longrightarrow> r \<le> y"
    using next_price_amount [of p l c inp a_to_b "next_price s" y] f c by simp
  then show "if inp then unat (amount_in s) + unat (fee_amount s) = unat r else amount_out s = r"
    using within partial fee t by (cases inp) (auto simp: s)
qed

text \<open>With the input fixed, the target is reached exactly when the input suffices for it.\<close>

lemma compute_swap_reaches_target_iff:
  assumes run: "compute_swap r f l p t True a_to_b = Inr s" and dir: "if a_to_b then t \<le> p else p \<le> t"
  shows "next_price s = t \<longleftrightarrow>
    input_amount a_to_b (unat p) (unat t) (unat l) \<le> unat r * (1000000 - unat f) div 1000000"
proof -
  obtain x c where
    x: "get_amount_fixed_delta p t l True a_to_b = Inr x" and
    c: "unat c = unat r * (1000000 - unat f) div 1000000" and
    n: "if x \<le> c then next_price s = t else get_next_sqrt_price p l c True a_to_b = Inr (next_price s)"
    using compute_swap_cases [OF run] by (metis (full_types))
  have "next_price s = t \<longleftrightarrow> x \<le> c"
    using n next_price_within(2) [OF x _ _ dir, of c "next_price s"] by (cases "x \<le> c") auto
  then show ?thesis
    using get_amount_fixed_delta_Inr [OF x] c by (simp add: fixed_amount_eq word_le_nat_alt)
qed

end
