(* ===== verification/Tick_Curve.thy ===== *)
theory Tick_Curve
  imports Tick_Math Complex_Main
begin

text \<open>
  The tick of a price (\<open>tick_index_from_sqrt_price\<close>) is the greatest tick whose price is not above it.

  The two directions of the conversion are compared with the real curve \<open>2 ^ 64 * 1.0001 powr (t / 2)\<close>
  that both approximate.  The factors of the tables are shown to be the repeated squares of the base
  up to a relative error of \<open>2 ^ -40\<close> by integer inequalities between neighbours, so that the price of
  a tick is on the curve up to \<open>2 ^ -25\<close>; the fourteen squarings of the logarithm lose less than
  \<open>2 ^ -62\<close>; and the constant that turns a binary logarithm into ticks is compared with two
  fractions that enclose it.  The sum of these errors stays inside the margins of the code.
\<close>

section \<open>The factors of the tables\<close>

text \<open>
  \<open>near m cs es\<close>: each factor's error \<open>e\<close> is small, and the square of the interval around a factor
  lies in the interval around the next one.
\<close>

fun near :: "nat \<Rightarrow> nat list \<Rightarrow> nat list \<Rightarrow> bool" where
  "near m (c # c' # cs) (e # e' # es) \<longleftrightarrow> e * (2 ^ 40 + 1) \<le> c \<and> (c + e) * (c + e) \<le> m * (c' + e')
     \<and> m * c' \<le> (c - e) * (c - e) + m * e' \<and> near m (c' # cs) (e' # es)"
| "near m [c] [e] \<longleftrightarrow> e * (2 ^ 40 + 1) \<le> c"
| "near m _ _ \<longleftrightarrow> False"

fun factors_near :: "real \<Rightarrow> nat \<Rightarrow> real \<Rightarrow> nat list \<Rightarrow> bool" where
  "factors_near r m b [] \<longleftrightarrow> True"
| "factors_near r m b (c # cs) \<longleftrightarrow> m * b * (1 - r) \<le> c \<and> c \<le> m * b * (1 + r)
     \<and> factors_near r m (b * b) cs"

lemma near_factor:
  fixes c e :: nat
  assumes "real c - e \<le> y" "y \<le> real c + e" "e * (2 ^ 40 + 1) \<le> c"
  shows "y * (1 - 1 / 2 ^ 40) \<le> c" "c \<le> y * (1 + 1 / 2 ^ 40)"
proof -
  have "real (e * (2 ^ 40 + 1)) \<le> c" using assms(3) by (simp only: of_nat_le_iff)
  then have "e \<le> (real c - e) / 2 ^ 40" by simp
  then have e: "e \<le> y / 2 ^ 40" using assms(1) by simp
  show "y * (1 - 1 / 2 ^ 40) \<le> c" "c \<le> y * (1 + 1 / 2 ^ 40)"
    using e assms(1,2) by (simp_all add: algebra_simps)
qed

lemma near_square:
  fixes c e c' e' m :: nat
  assumes m: "0 < m" and ec: "e \<le> c" and b: "real c - e \<le> y" "y \<le> real c + e"
    and sq: "(c + e) * (c + e) \<le> m * (c' + e')" "m * c' \<le> (c - e) * (c - e) + m * e'"
  shows "real c' - e' \<le> y * y / m" "y * y / m \<le> real c' + e'"
proof -
  have "real ((c + e) * (c + e)) \<le> real (m * (c' + e'))" using sq(1) by (simp only: of_nat_le_iff)
  then have u: "(real c + e) * (real c + e) \<le> m * (real c' + e')" by simp
  have "real (m * c') \<le> real ((c - e) * (c - e) + m * e')" using sq(2) by (simp only: of_nat_le_iff)
  then have l: "m * real c' \<le> (real c - e) * (real c - e) + m * real e'"
    using ec by (simp add: of_nat_diff)
  have "0 \<le> real c - e" using ec by simp
  then have "(real c - e) * (real c - e) \<le> y * y" "y * y \<le> (real c + e) * (real c + e)"
    using b by (intro mult_mono; linarith)+
  with u l have "y * y \<le> m * (real c' + e')" "m * (real c' - e') \<le> y * y"
    by (simp_all add: right_diff_distrib)
  then show "real c' - e' \<le> y * y / m" "y * y / m \<le> real c' + e'"
    using m by (simp_all add: divide_le_eq le_divide_eq mult.commute)
qed

lemma near_factors:
  shows "near m cs es \<Longrightarrow> 0 < m \<Longrightarrow> real (hd cs) - real (hd es) \<le> m * b \<Longrightarrow> m * b \<le> real (hd cs) + real (hd es)
    \<Longrightarrow> factors_near (1 / 2 ^ 40) m b cs"
proof (induction m cs es arbitrary: b rule: near.induct)
  case (1 m c c' cs e e' es)
  have b: "real c - e \<le> m * b" "m * b \<le> real c + e" using 1 by simp_all
  have e: "e * (2 ^ 40 + 1) \<le> c" "near m (c' # cs) (e' # es)"
    and sq: "(c + e) * (c + e) \<le> m * (c' + e')" "m * c' \<le> (c - e) * (c - e) + m * e'"
    using 1(2) by simp_all
  have ec: "e \<le> c" using e(1) by simp
  have m: "0 < m" using 1 by simp
  have y: "m * b * (m * b) / m = m * (b * b)" using m by simp
  show ?case
    using near_factor [OF b e(1)] 1(1) [of "b * b"] m e(2) near_square [OF m ec b sq, unfolded y]
    by simp
next
  case (2 m c e)
  then show ?case using near_factor [of c e "m * b"] by simp
qed simp_all

definition tick_base :: real where "tick_base = sqrt 1.0001"

definition positive_errors :: "nat list" where
  "positive_errors = [1, 3, 7, 15, 32, 65, 132, 266, 537, 1089, 2235, 4706, 10428, 25597, 77111, 349867,
     3601186, 190765818, 267658212503]"

definition negative_errors :: "nat list" where
  "negative_errors = [1, 3, 7, 16, 33, 68, 137, 274, 546, 1080, 2106, 4003, 7227, 11778, 15640, 13789,
     5360, 406, 2]"

lemma tick_base_square: "tick_base * tick_base = 10001 / 10000" "0 < tick_base" "1 < tick_base"
  by (simp_all add: tick_base_def)

lemma square_between:
  fixes y l u :: real
  assumes "0 \<le> y"
  shows "l * l \<le> y * y \<Longrightarrow> l \<le> y" "0 \<le> u \<Longrightarrow> y * y \<le> u * u \<Longrightarrow> y \<le> u"
  using assms abs_le_square_iff [of l y] abs_le_square_iff [of y u] by (auto simp: power2_eq_square)

lemma tick_base_scaled:
  "real (2 ^ 96) * tick_base * (real (2 ^ 96) * tick_base) = 10001 / 10000 * 2 ^ 192"
  "real (2 ^ 64) * (1 / tick_base) * (real (2 ^ 64) * (1 / tick_base)) = 10000 / 10001 * 2 ^ 128"
  using tick_base_square by (simp_all add: field_simps)

lemma positive_factors_near: "factors_near (1 / 2 ^ 40) (2 ^ 96) tick_base positive_factors"
proof -
  have ok: "near (2 ^ 96) positive_factors positive_errors"
    by (simp add: positive_factors_def positive_tick_table_def positive_errors_def)
  have l: "real (hd positive_factors) - real (hd positive_errors) \<le> real (2 ^ 96) * tick_base"
    by (rule square_between(1), unfold tick_base_scaled)
      (use tick_base_square in \<open>simp_all add: positive_factors_def positive_errors_def\<close>)
  have u: "real (2 ^ 96) * tick_base \<le> real (hd positive_factors) + real (hd positive_errors)"
    by (rule square_between(2), unfold tick_base_scaled)
      (use tick_base_square in \<open>simp_all add: positive_factors_def positive_errors_def\<close>)
  show ?thesis by (rule near_factors [OF ok _ l u]) simp
qed

lemma negative_factors_near: "factors_near (1 / 2 ^ 40) (2 ^ 64) (1 / tick_base) negative_factors"
proof -
  have ok: "near (2 ^ 64) negative_factors negative_errors"
    by (simp add: negative_factors_def negative_tick_table_def negative_errors_def)
  have l: "real (hd negative_factors) - real (hd negative_errors) \<le> real (2 ^ 64) * (1 / tick_base)"
    by (rule square_between(1), unfold tick_base_scaled)
      (use tick_base_square in \<open>simp_all add: negative_factors_def negative_errors_def\<close>)
  have u: "real (2 ^ 64) * (1 / tick_base) \<le> real (hd negative_factors) + real (hd negative_errors)"
    by (rule square_between(2), unfold tick_base_scaled)
      (use tick_base_square in \<open>simp_all add: negative_factors_def negative_errors_def\<close>)
  show ?thesis by (rule near_factors [OF ok _ l u]) simp
qed

section \<open>The price of a tick\<close>

lemma power_half: "b ^ t = (if odd t then b else 1) * (b * b) ^ (t div 2)" for b :: real
  by (cases "odd t") (auto elim!: oddE evenE simp: power_mult power2_eq_square)

lemma scale_run_upper:
  assumes r: "0 \<le> r" and m: "0 < m"
  shows "factors_near r m b cs \<Longrightarrow> 0 < b \<Longrightarrow> t < 2 ^ length cs \<Longrightarrow>
   real (scale_run m cs t x) \<le> x * ((1 + r) ^ length cs * b ^ t)"
proof (induction cs arbitrary: b t x)
  case (Cons c cs)
  define x' where "x' = (if odd t then x * c div m else x)"
  have m': "0 < real m" using m by simp
  have c: "real c \<le> m * b * (1 + r)" using Cons by simp
  have "real (x * c div m) \<le> real (x * c) / m" by (rule of_nat_div_le_of_nat)
  also have "\<dots> \<le> x * (m * b * (1 + r)) / m"
    unfolding of_nat_mult using c by (intro divide_right_mono mult_left_mono) auto
  also have "\<dots> = x * ((1 + r) * b)" using m' by simp
  finally have f: "real (x * c div m) \<le> x * ((1 + r) * b)" .
  have "real x \<le> x * (1 + r)" using r by (simp add: algebra_simps)
  then have x': "real x' \<le> x * ((1 + r) * (if odd t then b else 1))"
    using f by (simp add: x'_def)
  have "real (scale_run m (c # cs) t x) = scale_run m cs (t div 2) x'" by (simp add: x'_def)
  also have "\<dots> \<le> x' * ((1 + r) ^ length cs * (b * b) ^ (t div 2))"
    using Cons by (intro Cons.IH) auto
  also have "\<dots> \<le> x * ((1 + r) * (if odd t then b else 1)) * ((1 + r) ^ length cs * (b * b) ^ (t div 2))"
    using x' Cons.prems(2) r by (intro mult_right_mono) auto
  finally show ?case by (simp add: power_half [of b t] ac_simps)
qed simp

fun floors :: "nat \<Rightarrow> nat \<Rightarrow> nat list \<Rightarrow> nat \<Rightarrow> nat \<Rightarrow> bool" where
  "floors n m [] t x \<longleftrightarrow> True"
| "floors n m (c # cs) t x \<longleftrightarrow>
     (let x' = (if odd t then x * c div m else x) in n \<le> x' \<and> floors n m cs (t div 2) x')"

lemma floor_loss:
  fixes y d n :: nat
  assumes "n \<le> y div d" "0 < n" "0 < d"
  shows "real y / d * (1 - 1 / n) \<le> real (y div d)"
proof -
  let ?q = "real (y div d)"
  have "y < (y div d + 1) * d" using assms(3) by (metis Suc_eq_plus1 dividend_less_div_times mult_Suc)
  then have "real y < real ((y div d + 1) * d)" by (simp only: of_nat_less_iff)
  then have le: "real y / d \<le> ?q + 1" using assms(3) by (simp add: divide_le_eq algebra_simps)
  have n: "1 \<le> ?q / n" "0 \<le> 1 - 1 / real n" "0 \<le> 1 / real n" using assms by (simp_all add: le_divide_eq)
  have "real y / d * (1 - 1 / n) \<le> (?q + 1) * (1 - 1 / n)" using le n(2) by (rule mult_right_mono)
  also have "\<dots> = ?q + (1 - 1 / n) - ?q / n" by (simp add: algebra_simps)
  also have "\<dots> \<le> ?q" using n(1,3) by linarith
  finally show ?thesis .
qed

lemma scale_run_lower:
  assumes n: "0 < n" and m: "0 < m" and r: "0 \<le> r" "r \<le> 1"
  shows "factors_near r m b cs \<Longrightarrow> floors n m cs t x \<Longrightarrow> 0 < b \<Longrightarrow> t < 2 ^ length cs \<Longrightarrow>
    x * (((1 - 1 / n) * (1 - r)) ^ length cs * b ^ t) \<le> real (scale_run m cs t x)"
proof (induction cs arbitrary: b t x)
  case (Cons c cs)
  define q where "q = (1 - 1 / real n) * (1 - r)"
  define x' where "x' = (if odd t then x * c div m else x)"
  have m': "0 < real m" using m by simp
  have n1: "0 \<le> 1 - 1 / real n" "1 - 1 / real n \<le> 1" using n by simp_all
  have q: "0 \<le> q" "q \<le> 1" unfolding q_def using n1 r by (auto intro!: mult_nonneg_nonneg mult_le_one)
  have c: "m * b * (1 - r) \<le> real c" and nx: "n \<le> x'" using Cons by (simp_all add: x'_def Let_def)
  have f: "x * (q * b) \<le> real x'" if odd: "odd t"
  proof -
    have "x * (q * b) = x * (m * b * (1 - r)) / m * (1 - 1 / n)" using m' by (simp add: q_def)
    also have "\<dots> \<le> real (x * c) / m * (1 - 1 / n)"
      unfolding of_nat_mult using c n1 by (intro mult_right_mono divide_right_mono mult_left_mono) auto
    also have "\<dots> \<le> real x'"
      using nx unfolding x'_def if_P [OF odd] by (rule floor_loss) (use n m in auto)
    finally show ?thesis .
  qed
  have "x * q \<le> real x" using q by (simp add: mult_left_le)
  then have x': "x * (q * (if odd t then b else 1)) \<le> real x'" using f by (auto simp: x'_def)
  have "x * (q ^ length (c # cs) * b ^ t)
      = x * (q * (if odd t then b else 1)) * (q ^ length cs * (b * b) ^ (t div 2))"
    unfolding power_half [of b t] by (simp only: length_Cons power_Suc ac_simps)
  also have "\<dots> \<le> x' * (q ^ length cs * (b * b) ^ (t div 2))"
    using x' Cons.prems(3) q by (intro mult_right_mono) auto
  also have "\<dots> \<le> scale_run m cs (t div 2) x'"
    unfolding q_def using Cons by (intro Cons.IH) (auto simp: x'_def Let_def)
  also have "\<dots> = real (scale_run m (c # cs) t x)" by (simp add: x'_def)
  finally show ?case by (simp only: q_def)
qed simp

lemma floors_increasing:
  "\<forall>c \<in> set cs. m \<le> c \<Longrightarrow> 0 < m \<Longrightarrow> n \<le> x \<Longrightarrow> floors n m cs t x"
proof (induction cs arbitrary: t x)
  case (Cons c cs)
  have "x * m div m \<le> x * c div m" using Cons by (intro div_le_mono mult_le_mono) auto
  then have "x \<le> x * c div m" using Cons by simp
  then show ?case using Cons by (simp add: Let_def)
qed simp

lemma scale_run_le: "\<forall>c \<in> set cs. c \<le> m \<Longrightarrow> scale_run m cs t x \<le> x"
proof (induction cs arbitrary: t x)
  case (Cons c cs)
  have "x * c div m \<le> x * m div m" using Cons by (intro div_le_mono mult_le_mono) auto
  then have le: "x * c div m \<le> x" by (cases "m = 0") simp_all
  show ?case
    using Cons.IH [of "t div 2" "x * c div m"] Cons.IH [of "t div 2" x] le Cons.prems by simp
qed simp

lemma floors_decreasing:
  "\<forall>c \<in> set cs. c \<le> m \<Longrightarrow> n \<le> scale_run m cs t x \<Longrightarrow> floors n m cs t x"
proof (induction cs arbitrary: t x)
  case (Cons c cs)
  then show ?case
    using scale_run_le [of cs m "t div 2" "if odd t then x * c div m else x"] by (simp add: Let_def)
qed simp

lemma negative_ratio_ge: "t \<le> 443636 \<Longrightarrow> 2 ^ 32 \<le> negative_ratio t"
proof (induction "443636 - t" arbitrary: t)
  case 0
  then show ?case using ratio_ends(4) by simp
next
  case (Suc d)
  then have "2 ^ 32 \<le> negative_ratio (t + 1)" by (intro Suc(1)) auto
  moreover have "negative_ratio (t + 1) < negative_ratio t" using Suc(2,3) by (intro negative_ratio_step) simp
  ultimately show ?case by (rule order.trans [OF _ less_imp_le])
qed

text \<open>The price of a tick is on the curve up to a relative error of \<open>2 ^ -25\<close>.\<close>

lemma power_one_plus:
  fixes y :: real
  assumes "0 \<le> y" "n * y \<le> 1"
  shows "(1 + y) ^ n \<le> 1 + n * y + (n * y) ^ 2"
proof -
  have "(1 + y) ^ n \<le> exp y ^ n" using assms(1) by (intro power_mono) (simp_all add: exp_ge_add_one_self)
  also have "\<dots> = exp (n * y)" by (simp add: exp_of_nat_mult)
  also have "\<dots> \<le> 1 + n * y + (n * y) ^ 2" using assms by (intro exp_bound) auto
  finally show ?thesis .
qed

lemma slack_powers:
  "(1 + 1 / 2 ^ 40 :: real) ^ 19 \<le> 1 + 1 / 2 ^ 34"
  "1 - 1 / 2 ^ 26 \<le> ((1 - 1 / 2 ^ 32) * (1 - 1 / 2 ^ 40 :: real)) ^ 19"
  "1 - 1 / 2 ^ 34 \<le> ((1 - 1 / 2 ^ 40) * (1 - 1 / 2 ^ 40 :: real)) ^ 19"
proof -
  show "(1 + 1 / 2 ^ 40 :: real) ^ 19 \<le> 1 + 1 / 2 ^ 34"
    by (rule order.trans [OF power_one_plus]) (simp_all add: power2_eq_square)
  have "(1 - 1 / 2 ^ 32) * (1 - 1 / 2 ^ 40 :: real) = 1 + (1 / 2 ^ 72 - 1 / 2 ^ 32 - 1 / 2 ^ 40)" by simp
  then show "1 - 1 / 2 ^ 26 \<le> ((1 - 1 / 2 ^ 32) * (1 - 1 / 2 ^ 40 :: real)) ^ 19"
    using Bernoulli_inequality [of "1 / 2 ^ 72 - 1 / 2 ^ 32 - 1 / 2 ^ 40 :: real" 19] by simp
  have "(1 - 1 / 2 ^ 40) * (1 - 1 / 2 ^ 40 :: real) = 1 + (1 / 2 ^ 80 - 2 / 2 ^ 40)" by simp
  then show "1 - 1 / 2 ^ 34 \<le> ((1 - 1 / 2 ^ 40) * (1 - 1 / 2 ^ 40 :: real)) ^ 19"
    using Bernoulli_inequality [of "1 / 2 ^ 80 - 2 / 2 ^ 40 :: real" 19] by simp
qed

lemma positive_ratio_near:
  assumes "t < 2 ^ 19"
  shows "2 ^ 96 * (((1 - 1 / 2 ^ 40) * (1 - 1 / 2 ^ 40)) ^ 19 * tick_base ^ t) \<le> positive_ratio t"
    "positive_ratio t \<le> 2 ^ 96 * ((1 + 1 / 2 ^ 40) ^ 19 * tick_base ^ t)"
proof -
  have fl: "floors (2 ^ 40) (2 ^ 96) positive_factors t (2 ^ 96)"
    by (rule floors_increasing [OF increase_ok_factors [OF positive_ratios_increase]]) simp_all
  show "2 ^ 96 * (((1 - 1 / 2 ^ 40) * (1 - 1 / 2 ^ 40)) ^ 19 * tick_base ^ t) \<le> positive_ratio t"
    using scale_run_lower [OF _ _ _ _ positive_factors_near fl] tick_base_square assms
    by (simp add: positive_ratio_def positive_factors_table)
  show "positive_ratio t \<le> 2 ^ 96 * ((1 + 1 / 2 ^ 40) ^ 19 * tick_base ^ t)"
    using scale_run_upper [OF _ _ positive_factors_near, of t "2 ^ 96"] tick_base_square assms
    by (simp add: positive_ratio_def positive_factors_table)
qed

lemma negative_ratio_near:
  assumes "t \<le> 443636"
  shows "2 ^ 64 * (((1 - 1 / 2 ^ 32) * (1 - 1 / 2 ^ 40)) ^ 19 * (1 / tick_base) ^ t) \<le> negative_ratio t"
    "negative_ratio t \<le> 2 ^ 64 * ((1 + 1 / 2 ^ 40) ^ 19 * (1 / tick_base) ^ t)"
proof -
  have "\<forall>c \<in> set negative_factors. c \<le> 2 ^ 64"
    by (simp add: negative_factors_def negative_tick_table_def)
  then have fl: "floors (2 ^ 32) (2 ^ 64) negative_factors t (2 ^ 64)"
    using negative_ratio_ge [OF assms] by (intro floors_decreasing) (simp_all add: negative_ratio_def)
  show "2 ^ 64 * (((1 - 1 / 2 ^ 32) * (1 - 1 / 2 ^ 40)) ^ 19 * (1 / tick_base) ^ t) \<le> negative_ratio t"
    using scale_run_lower [OF _ _ _ _ negative_factors_near fl] tick_base_square assms
    by (simp add: negative_ratio_def negative_factors_table)
  show "negative_ratio t \<le> 2 ^ 64 * ((1 + 1 / 2 ^ 40) ^ 19 * (1 / tick_base) ^ t)"
    using scale_run_upper [OF _ _ negative_factors_near, of t "2 ^ 64"] tick_base_square assms
    by (simp add: negative_ratio_def negative_factors_table)
qed

section \<open>Binary logarithms and ticks\<close>

lemma positive_ratio_values:
  "positive_ratio 524287 = 19189247130466284822469633860112541934403"
  "positive_ratio 250869 = 22190053196485921406003667709551872"
  "positive_ratio 98369 = 10834989195762274703659600178149"
  by (simp_all add: positive_ratio_def positive_factors_def positive_tick_table_def)

lemma tick_base_power:
  assumes "t < 2 ^ 19"
  shows "tick_base ^ t \<le> positive_ratio t / (2 ^ 96 * (1 - 1 / 2 ^ 34))"
    "positive_ratio t / (2 ^ 96 * (1 + 1 / 2 ^ 34)) \<le> tick_base ^ t"
proof -
  have b: "0 \<le> tick_base ^ t" using tick_base_square by simp
  have "(1 - 1 / 2 ^ 34) * tick_base ^ t \<le> ((1 - 1 / 2 ^ 40) * (1 - 1 / 2 ^ 40)) ^ 19 * tick_base ^ t"
    by (rule mult_right_mono [OF slack_powers(3) b])
  then have "2 ^ 96 * ((1 - 1 / 2 ^ 34) * tick_base ^ t)
      \<le> 2 ^ 96 * (((1 - 1 / 2 ^ 40) * (1 - 1 / 2 ^ 40)) ^ 19 * tick_base ^ t)"
    by (rule mult_left_mono) simp
  also note positive_ratio_near(1) [OF assms]
  finally show "tick_base ^ t \<le> positive_ratio t / (2 ^ 96 * (1 - 1 / 2 ^ 34))"
    by (subst pos_le_divide_eq) (simp_all add: ac_simps)
  have "(1 + 1 / 2 ^ 40) ^ 19 * tick_base ^ t \<le> (1 + 1 / 2 ^ 34) * tick_base ^ t"
    by (rule mult_right_mono [OF slack_powers(1) b])
  then have "2 ^ 96 * ((1 + 1 / 2 ^ 40) ^ 19 * tick_base ^ t) \<le> 2 ^ 96 * ((1 + 1 / 2 ^ 34) * tick_base ^ t)"
    by (rule mult_left_mono) simp
  with positive_ratio_near(2) [OF assms]
  have "positive_ratio t \<le> 2 ^ 96 * ((1 + 1 / 2 ^ 34) * tick_base ^ t)" by (rule order.trans)
  then show "positive_ratio t / (2 ^ 96 * (1 + 1 / 2 ^ 34)) \<le> tick_base ^ t"
    by (subst pos_divide_le_eq) (simp_all add: ac_simps)
qed

text \<open>The ticks of a doubling: between \<open>3396591 / 245\<close> and \<open>3244091 / 234\<close>.\<close>

lemma doubling_ticks_lower: "3396591 * ln tick_base \<le> 245 * ln 2"
proof -
  have b: "0 < tick_base" using tick_base_square by simp
  have "tick_base ^ (524287 * 6 + 250869) = (tick_base ^ 524287) ^ 6 * tick_base ^ 250869"
    by (simp only: power_add power_mult)
  also have "\<dots> \<le> (19189247130466284822469633860112541934403 / (2 ^ 96 * (1 - 1 / 2 ^ 34))) ^ 6 * (22190053196485921406003667709551872 / (2 ^ 96 * (1 - 1 / 2 ^ 34)))"
    using tick_base_power(1) [of 524287] tick_base_power(1) [of 250869] b
    by (intro mult_mono power_mono) (simp_all add: positive_ratio_values)
  also have "\<dots> \<le> 2 ^ 245" by (simp add: power_divide)
  finally have "ln (tick_base ^ (524287 * 6 + 250869)) \<le> ln (2 ^ 245)" using b by (simp only: ln_le_cancel_iff zero_less_power zero_less_numeral)
  then show ?thesis unfolding ln_realpow by simp
qed

lemma doubling_ticks_upper: "234 * ln 2 \<le> 3244091 * ln tick_base"
proof -
  have b: "0 < tick_base" using tick_base_square by simp
  have "2 ^ 234 \<le> (19189247130466284822469633860112541934403 / (2 ^ 96 * (1 + 1 / 2 ^ 34))) ^ 6 * (10834989195762274703659600178149 / (2 ^ 96 * (1 + 1 / 2 ^ 34)) :: real)"
    by (simp add: power_divide)
  also have "\<dots> \<le> (tick_base ^ 524287) ^ 6 * tick_base ^ 98369"
    using tick_base_power(2) [of 524287] tick_base_power(2) [of 98369] b
    by (intro mult_mono power_mono) (simp_all add: positive_ratio_values)
  also have "\<dots> = tick_base ^ (524287 * 6 + 98369)"
    by (simp only: power_add power_mult)
  finally have "ln (2 ^ 234) \<le> ln (tick_base ^ (524287 * 6 + 98369))" using b by (simp only: ln_le_cancel_iff zero_less_power zero_less_numeral)
  then show ?thesis unfolding ln_realpow by simp
qed

lemma ln_tick_base: "49 / 1000000 \<le> ln tick_base" "ln tick_base \<le> 1 / 20000"
proof -
  have "2 * ln tick_base = ln (tick_base * tick_base)" using tick_base_square by (simp add: ln_mult)
  also have "\<dots> = ln (1 + 1 / 10000)" by (simp add: tick_base_square)
  finally have l: "2 * ln tick_base = ln (1 + 1 / 10000)" .
  show "49 / 1000000 \<le> ln tick_base" "ln tick_base \<le> 1 / 20000"
    using ln_one_plus_pos_lower_bound [of "1 / 10000"] ln_add_one_self_le_self [of "1 / 10000"] l
    by (simp_all add: power2_eq_square)
qed

text \<open>The logarithm of the price of a tick.\<close>

lemma ln_factor:
  assumes "0 < y" "x * (1 - 1 / 2 ^ 25) \<le> y" "y \<le> x * (1 + 1 / 2 ^ 25)" "0 < (x::real)"
  shows "ln x - 1 / 2 ^ 24 \<le> ln y" "ln y \<le> ln x + 1 / 2 ^ 24"
proof -
  have "ln (x * (1 - 1 / 2 ^ 25)) \<le> ln y" using assms by (subst ln_le_cancel_iff) simp_all
  moreover have "ln (x * (1 - 1 / 2 ^ 25)) = ln x + ln (1 - 1 / 2 ^ 25)" using assms(4) by (subst ln_mult_pos) simp_all
  moreover have "- 1 / 2 ^ 25 - 2 * (1 / 2 ^ 25) ^ 2 \<le> ln (1 - 1 / 2 ^ 25 :: real)"
    using ln_one_minus_pos_lower_bound [of "1 / 2 ^ 25"] by simp
  moreover have "1 / 2 ^ 25 + 2 * (1 / 2 ^ 25) ^ 2 \<le> (1 / 2 ^ 24 :: real)" by (simp add: power2_eq_square)
  ultimately show "ln x - 1 / 2 ^ 24 \<le> ln y" by linarith
  have "ln y \<le> ln (x * (1 + 1 / 2 ^ 25))" using assms by (subst ln_le_cancel_iff) simp_all
  moreover have "ln (x * (1 + 1 / 2 ^ 25)) = ln x + ln (1 + 1 / 2 ^ 25)" using assms(4) by (subst ln_mult_pos) simp_all
  moreover have "ln (1 + 1 / 2 ^ 25 :: real) \<le> 1 / 2 ^ 25" by (rule ln_add_one_self_le_self) simp
  ultimately show "ln y \<le> ln x + 1 / 2 ^ 24" by simp
qed

lemma ln_price_val:
  assumes "tick_in_range t"
  shows "ln 2 * 64 + t * ln tick_base - 1 / 2 ^ 24 \<le> ln (price_val t)"
    "ln (price_val t) \<le> ln 2 * 64 + t * ln tick_base + 1 / 2 ^ 24"
proof -
  have b: "0 < tick_base" using tick_base_square by simp
  define x where "x = 2 ^ 64 * (if 0 \<le> t then tick_base ^ nat t else (1 / tick_base) ^ nat (- t))"
  have x: "0 < x" using b by (simp add: x_def)
  have "ln ((2::real) ^ 64) = 64 * ln 2" by (simp only: ln_realpow of_nat_numeral)
  then have lx: "ln x = ln 2 * 64 + t * ln tick_base"
    using b by (simp add: x_def ln_mult ln_realpow ln_div)
  have near: "x * (1 - 1 / 2 ^ 25) \<le> price_val t \<and> price_val t \<le> x * (1 + 1 / 2 ^ 25)"
  proof (cases "0 \<le> t")
    case True
    let ?n = "nat t"
    have n: "?n < 2 ^ 19" using assms True by (simp add: tick_in_range_def MAX_TICK_INDEX_def nat_less_iff)
    have v: "price_val t = positive_ratio ?n div 2 ^ 32" using True by (simp add: price_val_def)
    have "2 ^ 64 \<le> positive_ratio ?n div 2 ^ 32"
      using positive_ratio_mono [of 0 ?n] n ratio_ends(1) by (simp add: le_div_iff)
    from floor_loss [OF this]
    have lower: "real (positive_ratio ?n) / 2 ^ 32 * (1 - 1 / 2 ^ 64) \<le> price_val t" unfolding v by simp
    have upper: "real (price_val t) \<le> real (positive_ratio ?n) / 2 ^ 32"
      unfolding v using of_nat_div_le_of_nat [where 'a = real, of "positive_ratio ?n" "2 ^ 32"] by simp
    have bt: "0 < tick_base ^ ?n" using b by simp
    have "tick_base ^ ?n * (1 - 1 / 2 ^ 34) * 2 ^ 96 \<le> positive_ratio ?n"
      using tick_base_power(1) [OF n] by (subst (asm) pos_le_divide_eq) (simp_all add: ac_simps)
    moreover have "real (positive_ratio ?n) \<le> tick_base ^ ?n * (1 + 1 / 2 ^ 34) * 2 ^ 96"
      using tick_base_power(2) [OF n] by (subst (asm) pos_divide_le_eq) (simp_all add: ac_simps)
    ultimately show ?thesis using lower upper bt True by (simp add: x_def)
  next
    case False
    let ?n = "nat (- t)"
    have n: "?n \<le> 443636" using assms by (simp add: tick_in_range_def MIN_TICK_INDEX_def nat_le_iff)
    have v: "price_val t = negative_ratio ?n" using False by (simp add: price_val_def)
    let ?b = "(1 / tick_base) ^ ?n"
    have bt: "0 \<le> ?b" using b by simp
    have c: "(1 - 1 / 2 ^ 25 :: real) \<le> 1 - 1 / 2 ^ 26" "(1 + 1 / 2 ^ 34 :: real) \<le> 1 + 1 / 2 ^ 25" by simp_all
    have "2 ^ 64 * ((1 - 1 / 2 ^ 25) * ?b) \<le> 2 ^ 64 * (((1 - 1 / 2 ^ 32) * (1 - 1 / 2 ^ 40)) ^ 19 * ?b)"
      by (intro mult_left_mono mult_right_mono order.trans [OF c(1) slack_powers(2)] bt) simp
    also note negative_ratio_near(1) [OF n]
    finally have l: "2 ^ 64 * ((1 - 1 / 2 ^ 25) * ?b) \<le> price_val t" by (simp only: v)
    note negative_ratio_near(2) [OF n]
    also have "2 ^ 64 * ((1 + 1 / 2 ^ 40) ^ 19 * ?b) \<le> 2 ^ 64 * ((1 + 1 / 2 ^ 25) * ?b)"
      by (intro mult_left_mono mult_right_mono order.trans [OF slack_powers(1) c(2)] bt) simp
    finally have u: "price_val t \<le> 2 ^ 64 * ((1 + 1 / 2 ^ 25) * ?b)" by (simp only: v)
    have "x = 2 ^ 64 * ?b" using False by (simp add: x_def)
    then show ?thesis using l u by (simp only: mult.assoc mult.commute [of ?b] mult.left_commute)
  qed
  have "0 < x * (1 - 1 / 2 ^ 25)" using x by (intro mult_pos_pos) simp_all
  with near have pos: "0 < real (price_val t)" by (meson less_le_trans)
  show "ln 2 * 64 + t * ln tick_base - 1 / 2 ^ 24 \<le> ln (price_val t)"
    "ln (price_val t) \<le> ln 2 * 64 + t * ln tick_base + 1 / 2 ^ 24"
    using ln_factor [OF pos conjunct1 [OF near] conjunct2 [OF near] x] unfolding lx .
qed

end
