(* ===== verification/Tick_Index.thy ===== *)
theory Tick_Index
  imports Tick_Curve State_Whirlpool
begin

text \<open>
  The tick of a price: the loop of \<open>tick_index_from_sqrt_price\<close> computes fourteen bits of a binary
  logarithm, and the tick it chooses is the greatest one whose price is not above the given price.
\<close>

section \<open>The bits of the logarithm\<close>

lemma ln_floor:
  fixes y d :: nat
  assumes "0 < d" "2 ^ 63 \<le> y div d"
  shows "ln (y div d) \<le> ln (y / d)" "ln (y / d) \<le> ln (y div d) + 1 / 2 ^ 63"
proof -
  let ?q = "real (y div d)"
  have q: "0 < ?q" "2 ^ 63 \<le> ?q"
    using assms of_nat_mono [OF assms(2), where 'a = real] by (auto intro: gr0I)
  have le: "?q \<le> y / d" by (rule of_nat_div_le_of_nat)
  then show "ln ?q \<le> ln (y / d)" using q by (subst ln_le_cancel_iff) auto
  have "y < (y div d + 1) * d" using assms(1) by (metis Suc_eq_plus1 dividend_less_div_times mult_Suc)
  then have "real y < real ((y div d + 1) * d)" by (simp only: of_nat_less_iff)
  then have "y / d \<le> ?q * (1 + 1 / ?q)" using assms(1) q by (simp add: divide_le_eq algebra_simps)
  then have "ln (y / d) \<le> ln (?q * (1 + 1 / ?q))" using le q by (subst ln_le_cancel_iff) (auto intro!: mult_pos_pos add_pos_pos)
  also have "\<dots> = ln ?q + ln (1 + 1 / ?q)" using q by (subst ln_mult_pos) (auto intro!: add_pos_pos)
  also have "ln (1 + 1 / ?q) \<le> 1 / ?q" using q by (intro ln_add_one_self_le_self) simp
  also have "1 / ?q \<le> 1 / 2 ^ 63" using q by (intro divide_left_mono) auto
  finally show "ln (y / d) \<le> ln ?q + 1 / 2 ^ 63" by simp
qed

lemma log_step:
  fixes x :: nat
  assumes x: "2 ^ 63 \<le> x" and q: "2 ^ 63 \<le> x * x div 2 ^ k"
  shows "ln (x * x div 2 ^ k) + k * ln 2 \<le> 2 * ln x"
    "2 * ln x \<le> ln (x * x div 2 ^ k) + k * ln 2 + 1 / 2 ^ 63"
proof -
  have "0 < real x" using x by (auto intro: gr0I)
  then have "ln (real (x * x) / real (2 ^ k)) = 2 * ln x - k * ln 2"
    by (simp add: ln_div ln_mult_pos ln_realpow)
  then show "ln (x * x div 2 ^ k) + k * ln 2 \<le> 2 * ln x"
    "2 * ln x \<le> ln (x * x div 2 ^ k) + k * ln 2 + 1 / 2 ^ 63"
    using ln_floor [OF _ q] by (simp_all add: algebra_simps)
qed

text \<open>One round on words: the square does not overflow, and its top bit selects the shift.\<close>

lemma square_word:
  fixes r :: u128
  assumes "2 ^ 63 \<le> unat r" "unat r < 2 ^ 64"
  shows "unat (r * r) = unat r * unat r"
    "drop_bit 127 (r * r) = 0 \<longleftrightarrow> unat r * unat r < 2 ^ 127"
proof -
  have "unat r * unat r < 2 ^ 64 * 2 ^ 64" using assms(2) by (intro mult_strict_mono) auto
  then show u: "unat (r * r) = unat r * unat r" by (intro unat_mult_nowrap) simp
  have "drop_bit 127 (r * r) = 0 \<longleftrightarrow> unat (drop_bit 127 (r * r)) = 0" by (simp only: unat_0_iff)
  also have "\<dots> \<longleftrightarrow> unat r * unat r < 2 ^ 127" unfolding unat_drop_bit u by (simp add: div_eq_0_iff)
  finally show "drop_bit 127 (r * r) = 0 \<longleftrightarrow> unat r * unat r < 2 ^ 127" .
qed

lemma log2_fraction_loop_val:
  fixes r :: u128
  assumes "2 ^ 63 \<le> unat r" "unat r < 2 ^ 64" "n \<le> 14" "0 \<le> acc" "acc + 2 ^ 50 * 2 ^ n \<le> 2 ^ 64"
  shows "\<exists>g. log2_fraction_loop (2 ^ 50 * 2 ^ n div 2) (14 - n) acc r = acc + 2 ^ 50 * int g \<and> g < 2 ^ n
    \<and> g * ln 2 \<le> 2 ^ n * (ln (unat r) - 63 * ln 2)
    \<and> 2 ^ n * (ln (unat r) - 63 * ln 2) \<le> (g + 1) * ln 2 + (2 ^ n - 1) / 2 ^ 63"
  using assms
proof (induction n arbitrary: r acc)
  case 0
  have "real (unat r) \<le> 2 ^ 64" "2 ^ 63 \<le> real (unat r)"
    using of_nat_mono [OF less_imp_le [OF 0(2)], where 'a = real] of_nat_mono [OF 0(1), where 'a = real] by simp_all
  then have "ln (unat r) \<le> ln (2 ^ 64)" "ln (2 ^ 63) \<le> ln (unat r)"
    by (subst ln_le_cancel_iff; simp)+
  then have "ln (unat r) \<le> 64 * ln 2" "63 * ln 2 \<le> ln (unat r)" by (simp_all only: ln_realpow of_nat_numeral)
  then show ?case
    by (intro exI [of _ 0]) (simp add: log2_fraction_loop.simps BIT_PRECISION_def)
next
  case (Suc n)
  let ?x = "unat r"
  define bit :: nat where "bit = (if ?x * ?x < 2 ^ 127 then 0 else 1)"
  define r' where "r' = drop_bit (63 + bit) (r * r)"
  have r': "unat r' = ?x * ?x div 2 ^ (63 + bit)"
    by (simp only: r'_def unat_drop_bit square_word [OF Suc.prems(1,2)])
  have "2 ^ 63 * 2 ^ 63 \<le> ?x * ?x" using Suc.prems(1) by (intro mult_mono) auto
  then have lo: "2 ^ 63 \<le> unat r'" unfolding r' by (simp add: bit_def le_div_iff)
  have "?x * ?x < 2 ^ 64 * 2 ^ 64" using Suc.prems(2) by (intro mult_strict_mono) auto
  then have hi: "unat r' < 2 ^ 64" unfolding r' by (simp add: bit_def div_less_iff_less_mult)
  define acc' where "acc' = acc + 2 ^ 50 * 2 ^ n * int bit"
  have acc': "0 \<le> acc'" "acc' + 2 ^ 50 * 2 ^ n \<le> 2 ^ 64" using Suc.prems(4,5) by (auto simp: acc'_def bit_def intro: order.trans [rotated])
  obtain g where g: "log2_fraction_loop (2 ^ 50 * 2 ^ n div 2) (14 - n) acc' r' = acc' + 2 ^ 50 * int g" "g < 2 ^ n"
    "g * ln 2 \<le> 2 ^ n * (ln (unat r') - 63 * ln 2)"
    "2 ^ n * (ln (unat r') - 63 * ln 2) \<le> (g + 1) * ln 2 + (2 ^ n - 1) / 2 ^ 63"
    using Suc.IH [OF lo hi _ acc'] Suc.prems(3) by auto
  have st: "ln (unat r') - 63 * ln 2 + bit * ln 2 \<le> 2 * (ln ?x - 63 * ln 2)"
    "2 * (ln ?x - 63 * ln 2) \<le> ln (unat r') - 63 * ln 2 + bit * ln 2 + 1 / 2 ^ 63"
    using log_step [OF Suc.prems(1) lo [unfolded r']] unfolding r' by (simp_all add: algebra_simps)
  have run: "log2_fraction_loop (2 ^ 50 * 2 ^ Suc n div 2) (14 - Suc n) acc r
      = log2_fraction_loop (2 ^ 50 * 2 ^ n div 2) (14 - n) acc' r'"
  proof -
    define z :: int where "z = 2 ^ 50 * 2 ^ n * int bit"
    have z: "0 \<le> z" "z \<le> acc'" and p: "0 \<le> (2 ^ 50 * 2 ^ n :: int)"
      using Suc.prems(4) by (simp_all add: z_def acc'_def)
    have "(2 ^ 64 :: int) < 2 ^ 127" "- (2 ^ 127) \<le> (0 :: int)" by simp_all
    with z p acc' have "in_i128 z" "in_i128 acc'" unfolding in_i128_def by linarith+
    then have w: "to_i128 (2 ^ 50 * 2 ^ n * int bit) = 2 ^ 50 * 2 ^ n * int bit" "to_i128 acc' = acc'"
      by (simp_all add: to_i128_id z_def)
    have k: "(if drop_bit 127 (r * r) = 0 then drop_bit 63 (r * r) else drop_bit 64 (r * r)) = r'"
      "(if drop_bit 127 (r * r) = 0 then 0 else 1) = int bit"
      by (simp_all add: square_word(2) [OF Suc.prems(1,2)] r'_def bit_def)
    have e: "(2 ^ 50 * 2 ^ Suc n :: int) div 2 = 2 ^ 50 * 2 ^ n" "14 - Suc n + 1 = 14 - n"
      "0 < (2 ^ 50 * 2 ^ n :: int)" "14 - Suc n < BIT_PRECISION"
      using Suc.prems(3) by (simp_all add: BIT_PRECISION_def)
    show ?thesis
      unfolding e(1) log2_fraction_loop.simps [of "2 ^ 50 * 2 ^ n" "14 - Suc n"]
      using e(3,4) by (simp only: Let_def if_True simp_thms w k acc'_def [symmetric] e(2))
  qed
  show ?case
  proof (intro exI [of _ "bit * 2 ^ n + g"] conjI)
    show "log2_fraction_loop (2 ^ 50 * 2 ^ Suc n div 2) (14 - Suc n) acc r = acc + 2 ^ 50 * int (bit * 2 ^ n + g)"
      unfolding run g(1) by (simp add: acc'_def algebra_simps)
    show "bit * 2 ^ n + g < 2 ^ Suc n" using g(2) by (simp add: bit_def)
    have "2 ^ n * (ln (unat r') - 63 * ln 2 + bit * ln 2) \<le> 2 ^ n * (2 * (ln ?x - 63 * ln 2))"
      "2 ^ n * (2 * (ln ?x - 63 * ln 2)) \<le> 2 ^ n * (ln (unat r') - 63 * ln 2 + bit * ln 2 + 1 / 2 ^ 63)"
      using st by (auto intro!: mult_left_mono)
    with g(3,4) show "real (bit * 2 ^ n + g) * ln 2 \<le> 2 ^ Suc n * (ln ?x - 63 * ln 2)"
      "2 ^ Suc n * (ln ?x - 63 * ln 2) \<le> (real (bit * 2 ^ n + g) + 1) * ln 2 + (2 ^ Suc n - 1) / 2 ^ 63"
      by (simp_all add: algebra_simps add_divide_distrib diff_divide_distrib)
  qed
qed

text \<open>The mantissa: the price scaled so that its top bit is the bit 63.\<close>

lemma mantissa:
  fixes p :: u128
  assumes "2 ^ m \<le> unat p" "unat p < 2 ^ (m + 1)" "m < 128"
  defines "r \<equiv> (if 64 \<le> m then drop_bit (m - 63) p else push_bit (63 - m) p)"
  shows "2 ^ 63 \<le> unat r" "unat r < 2 ^ 64"
    "ln (unat r) + (real m - 63) * ln 2 \<le> ln (unat p)"
    "ln (unat p) \<le> ln (unat r) + (real m - 63) * ln 2 + 1 / 2 ^ 63"
proof -
  have "0 < (2::nat) ^ m" by simp
  then have "0 < unat p" using assms(1) by linarith
  then have p: "0 < real (unat p)" by (simp only: of_nat_0_less_iff)
  have "2 ^ 63 \<le> unat r \<and> unat r < 2 ^ 64 \<and> ln (unat r) + (real m - 63) * ln 2 \<le> ln (unat p)
      \<and> ln (unat p) \<le> ln (unat r) + (real m - 63) * ln 2 + 1 / 2 ^ 63"
  proof (cases "64 \<le> m")
    case True
    have u: "unat r = unat p div 2 ^ (m - 63)" using True by (simp add: r_def unat_drop_bit)
    have e: "(2::nat) ^ m = 2 ^ 63 * 2 ^ (m - 63)" "(2::nat) ^ (m + 1) = 2 ^ 64 * 2 ^ (m - 63)"
      using True by (simp_all only: power_add [symmetric]) (simp_all)
    have b: "2 ^ 63 \<le> unat r" "unat r < 2 ^ 64"
      using assms(1,2) unfolding u e by (simp_all only: less_eq_div_iff_mult_less_eq zero_less_power zero_less_numeral div_less_iff_less_mult)
    have "ln (real (unat p) / real (2 ^ (m - 63))) = ln (unat p) - (real m - 63) * ln 2"
      using True p by (simp add: ln_div ln_realpow of_nat_diff)
    then show ?thesis
      using ln_floor [of "2 ^ (m - 63)" "unat p"] b unfolding u by simp
  next
    case False
    have e: "2 ^ m * 2 ^ (63 - m) = (2::nat) ^ 63" "2 ^ (m + 1) * 2 ^ (63 - m) = (2::nat) ^ 64"
      using False by (simp_all only: power_add [symmetric]) (simp_all)
    have b: "2 ^ 63 \<le> unat p * 2 ^ (63 - m)" "unat p * 2 ^ (63 - m) < 2 ^ 64"
      using mult_le_mono1 [OF assms(1), of "2 ^ (63 - m)"] mult_less_mono1 [OF assms(2), of "2 ^ (63 - m)"]
      unfolding e by simp_all
    have "unat r = take_bit 128 (unat p * 2 ^ (63 - m))"
      using False by (simp only: r_def if_False unsigned_push_bit_eq) (simp add: push_bit_eq_mult)
    then have u: "unat r = unat p * 2 ^ (63 - m)"
      using b(2) by (simp add: take_bit_nat_eq_self_iff)
    have "ln (real (unat r)) = ln (unat p) + (63 - real m) * ln 2"
      using False p unfolding u by (simp add: ln_mult_pos ln_realpow of_nat_diff)
    then show ?thesis
      using b unfolding u by (simp add: algebra_simps)
  qed
  then show "2 ^ 63 \<le> unat r" "unat r < 2 ^ 64" "ln (unat r) + (real m - 63) * ln 2 \<le> ln (unat p)"
    "ln (unat p) \<le> ln (unat r) + (real m - 63) * ln 2 + 1 / 2 ^ 63" by blast+
qed

definition choose_tick :: "u128 \<Rightarrow> i128 \<Rightarrow> i32 result" where
  "choose_tick p logbp =
      and_then (try_into_i32_unwrap (to_i128 (logbp - LOG_B_P_ERR_MARGIN_LOWER_X64) div 2 ^ 64))
        (\<lambda>tick_low.
      and_then (try_into_i32_unwrap (to_i128 (logbp + LOG_B_P_ERR_MARGIN_UPPER_X64) div 2 ^ 64))
        (\<lambda>tick_high.
      if tick_low = tick_high then Inr tick_low
      else and_then (sqrt_price_from_tick_index tick_high) (\<lambda>q.
        Inr (if q \<le> p then tick_high else tick_low))))"

lemma price_in_range_val:
  assumes "price_in_range p"
  shows "2 ^ 32 \<le> unat p" "unat p < 2 ^ 96"
  using assms by (simp_all add: price_in_range_def word_le_nat_alt MIN_SQRT_PRICE_X64_def MAX_SQRT_PRICE_X64_def)

lemma binary_logarithm:
  assumes "price_in_range p"
  shows "\<exists>x::int. \<bar>x\<bar> \<le> 2 ^ 19 \<and> x * ln 2 \<le> 2 ^ 14 * (ln (unat p) - 64 * ln 2)
    \<and> 2 ^ 14 * (ln (unat p) - 64 * ln 2) \<le> real_of_int (x + 1) * ln 2 + 1 / 2 ^ 48
    \<and> tick_index_from_sqrt_price p = choose_tick p (x * 2 ^ 18 * LOG_B_2_X32)"
proof -
  note v = price_in_range_val [OF assms]
  have p0: "p \<noteq> 0" using v(1) by auto
  define m where "m = 127 - leading_zeros p"
  have lz: "leading_zeros p < 128" "2 ^ m \<le> unat p" "unat p < 2 ^ (m + 1)"
  proof -
    note z = leading_zeros_bounds [OF p0]
    show "leading_zeros p < 128" using z(1) by simp
    then have "m + 1 = 128 - leading_zeros p" by (simp add: m_def)
    then show "2 ^ m \<le> unat p" "unat p < 2 ^ (m + 1)" using z(2,3) by (simp_all add: m_def)
  qed
  have "(2::nat) ^ m < 2 ^ 96" "(2::nat) ^ 32 < 2 ^ (m + 1)" using lz v by linarith+
  then have m: "32 \<le> m" "m < 96" by (simp_all only: power_strict_increasing_iff one_less_numeral_iff semiring_norm)
  define r where "r = (if 64 \<le> m then drop_bit (m - 63) p else push_bit (63 - m) p)"
  note mant = mantissa [OF lz(2,3), folded r_def]
  have "m < 128" using m by simp
  note mant = mant [OF this]
  obtain g where g: "log2_fraction_loop (2 ^ 50 * 2 ^ 14 div 2) (14 - 14) 0 r = 0 + 2 ^ 50 * int g" "g < 2 ^ 14"
    "g * ln 2 \<le> 2 ^ 14 * (ln (unat r) - 63 * ln 2)"
    "2 ^ 14 * (ln (unat r) - 63 * ln 2) \<le> (g + 1) * ln 2 + (2 ^ 14 - 1) / 2 ^ 63"
    using log2_fraction_loop_val [OF mant(1,2), of 14 0] by auto
  define x where "x = (int m - 64) * 2 ^ 14 + int g"
  have mb: "(128 - int (leading_zeros p) - 1) mod 2 ^ 32 = int m" using lz(1) by (simp add: m_def)
  have "r = (if int m \<ge> 64 then drop_bit (nat ((int m - 63) mod 128)) p
      else push_bit (nat ((63 - int m) mod 128)) p)"
    using m by (simp add: r_def nat_diff_distrib')
  then have t: "tick_index_from_sqrt_price p = choose_tick p
      (to_i128 (to_i128 (to_i128 ((int m - 64) * 2 ^ 32) + log2_fraction_loop 0x8000000000000000 0 0 r div 2 ^ 32)
         * LOG_B_2_X32))"
    by (simp only: tick_index_from_sqrt_price_def mb Let_def choose_tick_def)
  have xb: "- (2 ^ 19) \<le> x" "x \<le> 2 ^ 19" using m g(2) by (simp_all add: x_def)
  have a: "to_i128 ((int m - 64) * 2 ^ 32) = (int m - 64) * 2 ^ 32"
    using m by (intro to_i128_id) (simp add: in_i128_def)
  have b: "log2_fraction_loop 0x8000000000000000 0 0 r div 2 ^ 32 = 2 ^ 18 * int g"
    using g(1) by simp
  have c: "(int m - 64) * 2 ^ 32 + 2 ^ 18 * int g = x * 2 ^ 18" by (simp add: x_def)
  have "to_i128 (x * 2 ^ 18) = x * 2 ^ 18" "to_i128 (x * 2 ^ 18 * LOG_B_2_X32) = x * 2 ^ 18 * LOG_B_2_X32"
    using xb by (auto intro!: to_i128_id simp: in_i128_def LOG_B_2_X32_def)
  then have "tick_index_from_sqrt_price p = choose_tick p (x * 2 ^ 18 * LOG_B_2_X32)"
    unfolding t a b c by simp
  moreover have "real_of_int x * ln 2 = g * ln 2 + 2 ^ 14 * (real m - 64) * ln 2"
    by (simp add: x_def algebra_simps)
  moreover have "(2 ^ 14 - 1) / 2 ^ 63 + 2 ^ 14 * (1 / 2 ^ 63) \<le> (1 / 2 ^ 48 :: real)" by simp
  ultimately show ?thesis
    using g(3,4) mant(3,4) xb by (intro exI [of _ x]) (auto simp: algebra_simps)
qed

section \<open>The choice between two ticks\<close>

text \<open>The estimate \<open>x * K\<close> of the tick, with \<open>K\<close> the constant of the code.\<close>

lemma doubling_ticks:
  "\<bar>ln 2 - 59543866431248 / 2 ^ 32 * ln tick_base\<bar> \<le> ln tick_base / 80000"
  "ln 2 \<le> 13864 * ln tick_base"
proof -
  have l: "3396591 / 245 * ln tick_base \<le> ln 2" and u: "ln 2 \<le> 3244091 / 234 * ln tick_base"
    using doubling_ticks_lower doubling_ticks_upper by (simp_all add: divide_simps mult.commute)
  have p: "0 \<le> ln tick_base" using ln_tick_base(1) by simp
  have "(59543866431248 / 2 ^ 32 - 1 / 80000) * ln tick_base \<le> 3396591 / 245 * ln tick_base"
    "3244091 / 234 * ln tick_base \<le> (59543866431248 / 2 ^ 32 + 1 / 80000) * ln tick_base"
    "3244091 / 234 * ln tick_base \<le> 13864 * ln tick_base"
    using p by (intro mult_right_mono; simp)+
  with l u have "(59543866431248 / 2 ^ 32 - 1 / 80000) * ln tick_base \<le> ln 2"
    "ln 2 \<le> (59543866431248 / 2 ^ 32 + 1 / 80000) * ln tick_base"
    and c: "ln 2 \<le> 13864 * ln tick_base" by linarith+
  then show "\<bar>ln 2 - 59543866431248 / 2 ^ 32 * ln tick_base\<bar> \<le> ln tick_base / 80000"
    unfolding abs_le_iff left_diff_distrib distrib_right by simp
  show "ln 2 \<le> 13864 * ln tick_base" by (rule c)
qed

lemma estimate_near:
  fixes l :: real and x :: int
  assumes "\<bar>x\<bar> \<le> 2 ^ 19" "x * ln 2 \<le> 2 ^ 14 * l" "2 ^ 14 * l \<le> (x + 1) * ln 2 + 1 / 2 ^ 48"
  defines "e \<equiv> x * (59543866431248 / 2 ^ 32) / 2 ^ 14"
  shows "(e - 1 / 1000) * ln tick_base \<le> l" "l \<le> (e + 8475 / 10000) * ln tick_base"
proof -
  let ?b = "ln tick_base"
  have b: "49 / 1000000 \<le> ?b" by (rule ln_tick_base(1))
  have "\<bar>x * (ln 2 - 59543866431248 / 2 ^ 32 * ?b)\<bar> \<le> 2 ^ 19 * (?b / 80000)"
  proof -
    have "real_of_int \<bar>x\<bar> \<le> real_of_int (2 ^ 19)" using assms(1) by (simp only: of_int_le_iff)
    then have "\<bar>real_of_int x\<bar> \<le> 2 ^ 19" by simp
    then show ?thesis unfolding abs_mult using doubling_ticks(1) by (intro mult_mono) auto
  qed
  moreover have "x * (ln 2 - 59543866431248 / 2 ^ 32 * ?b) = x * ln 2 - 2 ^ 14 * (e * ?b)"
    by (simp add: e_def right_diff_distrib)
  ultimately have "\<bar>x * ln 2 - 2 ^ 14 * (e * ?b)\<bar> \<le> 2 ^ 19 * (?b / 80000)" by (simp only:)
  then have "2 ^ 14 * (e * ?b) - 2 ^ 19 * (?b / 80000) \<le> x * ln 2"
    "x * ln 2 \<le> 2 ^ 14 * (e * ?b) + 2 ^ 19 * (?b / 80000)" unfolding abs_le_iff by simp_all
  then have "2 ^ 14 * (e * ?b) - 2 ^ 19 * (?b / 80000) \<le> 2 ^ 14 * l"
    "2 ^ 14 * l \<le> 2 ^ 14 * (e * ?b) + 2 ^ 19 * (?b / 80000) + 13864 * ?b + 1 / 2 ^ 48"
    using assms(2,3) doubling_ticks(2) by (simp_all add: distrib_right)
  then show "(e - 1 / 1000) * ?b \<le> l" "l \<le> (e + 8475 / 10000) * ?b"
    using b by (simp_all add: left_diff_distrib distrib_right)
qed

lemma floor_div_bounds:
  fixes n :: int
  shows "real_of_int (n div 2 ^ 64) \<le> n / 2 ^ 64" "n / 2 ^ 64 < real_of_int (n div 2 ^ 64) + 1"
proof -
  have "n div 2 ^ 64 * 2 ^ 64 \<le> n" "n < (n div 2 ^ 64 + 1) * 2 ^ 64"
    using pos_mod_bound [of "2 ^ 64" n] pos_mod_sign [of "2 ^ 64" n] div_mult_mod_eq [of n "2 ^ 64"]
    by (simp_all add: distrib_right)
  then have "real_of_int (n div 2 ^ 64 * 2 ^ 64) \<le> n" "real_of_int n < real_of_int ((n div 2 ^ 64 + 1) * 2 ^ 64)"
    by (simp_all only: of_int_le_iff of_int_less_iff)
  then show "real_of_int (n div 2 ^ 64) \<le> n / 2 ^ 64" "n / 2 ^ 64 < real_of_int (n div 2 ^ 64) + 1"
    by simp_all
qed

lemma ln_price_ticks:
  assumes "tick_in_range t"
  shows "(t - 1 / 700) * ln tick_base \<le> ln (price_val t) - 64 * ln 2"
    "ln (price_val t) - 64 * ln 2 \<le> (t + 1 / 700) * ln tick_base"
    "0 < price_val t"
proof -
  have "1 / 2 ^ 24 \<le> 1 / 700 * ln tick_base" using ln_tick_base(1) by simp
  then show "(t - 1 / 700) * ln tick_base \<le> ln (price_val t) - 64 * ln 2"
    "ln (price_val t) - 64 * ln 2 \<le> (t + 1 / 700) * ln tick_base"
    using ln_price_val [OF assms] by (simp_all only: left_diff_distrib distrib_right)
  obtain p where "sqrt_price_from_tick_index t = Inr p" "unat p = price_val t" using sqrt_price_val [OF assms] by blast
  then show "0 < price_val t" using sqrt_price_bounds(1) [OF assms, of p]
    by (simp add: word_le_nat_alt MIN_SQRT_PRICE_X64_def)
qed

lemma price_val_le_ln:
  assumes "0 < q" "tick_in_range t"
  shows "price_val t \<le> q \<longleftrightarrow> ln (price_val t) \<le> ln (real q)"
  using assms ln_price_ticks(3) [OF assms(2)] by (subst ln_le_cancel_iff) simp_all

text \<open>The tick of a price: the price lies in its interval, and the conversion does not fail.\<close>

lemma in_range_ends:
  assumes "price_in_range p"
  shows "price_val MIN_TICK_INDEX \<le> unat p" "unat p \<le> price_val MAX_TICK_INDEX"
  using assms by (simp_all add: price_in_range_def word_le_nat_alt price_val_ends)

lemma scaled_less:
  fixes a b c :: real
  assumes "0 < b" "a * b \<le> l" "l \<le> c * b"
  shows "a \<le> c"
  using assms by (metis order.trans mult_le_cancel_right_pos)

lemma choose_tick_correct:
  fixes x :: int
  assumes x: "\<bar>x\<bar> \<le> 2 ^ 19" and p: "price_in_range p"
    and l: "x * ln 2 \<le> 2 ^ 14 * (ln (unat p) - 64 * ln 2)"
      "2 ^ 14 * (ln (unat p) - 64 * ln 2) \<le> (x + 1) * ln 2 + 1 / 2 ^ 48"
  shows "\<exists>t. choose_tick p (x * 2 ^ 18 * LOG_B_2_X32) = Inr t \<and> tick_in_range t \<and> price_val t \<le> unat p
    \<and> (t < MAX_TICK_INDEX \<longrightarrow> unat p < price_val (t + 1))"
proof -
  let ?b = "ln tick_base"
  let ?l = "ln (unat p) - 64 * ln 2"
  define e where "e = x * (59543866431248 / 2 ^ 32) / 2 ^ 14"
  note est = estimate_near [OF x l, folded e_def]
  have b: "0 < ?b" using ln_tick_base(1) by simp
  have p0: "0 < unat p" using price_in_range_val(1) [OF p] by simp
  define n where "n = x * 2 ^ 18 * LOG_B_2_X32"
  define low high where "low = (n - LOG_B_P_ERR_MARGIN_LOWER_X64) div 2 ^ 64"
    and "high = (n + LOG_B_P_ERR_MARGIN_UPPER_X64) div 2 ^ 64"
  have "real_of_int n / 2 ^ 64 = e" by (simp add: n_def e_def LOG_B_2_X32_def)
  then have n: "(n - LOG_B_P_ERR_MARGIN_LOWER_X64) / 2 ^ 64 = e - 184467440737095516 / 2 ^ 64"
    "(n + LOG_B_P_ERR_MARGIN_UPPER_X64) / 2 ^ 64 = e + 15793534762490258745 / 2 ^ 64"
    by (simp_all add: diff_divide_distrib add_divide_distrib LOG_B_P_ERR_MARGIN_LOWER_X64_def
      LOG_B_P_ERR_MARGIN_UPPER_X64_def)
  have low: "low \<le> e - 99 / 10000" "e - 101 / 10000 < low + 1"
    and high: "high \<le> e + 857 / 1000" "e + 856 / 1000 < high + 1"
    using floor_div_bounds [of "n - LOG_B_P_ERR_MARGIN_LOWER_X64"]
      floor_div_bounds [of "n + LOG_B_P_ERR_MARGIN_UPPER_X64"]
    unfolding n low_def [symmetric] high_def [symmetric] by simp_all
  have le: "price_val t \<le> unat p" if "tick_in_range t" "t \<le> e - 99 / 10000" for t
  proof -
    have "(t + 1 / 700) * ?b \<le> (e - 1 / 1000) * ?b" using that(2) b by (intro mult_right_mono) simp_all
    then show ?thesis
      using ln_price_ticks(2) [OF that(1)] est(1) by (subst price_val_le_ln [OF p0 that(1)]) simp
  qed
  have less: "unat p < price_val t" if "tick_in_range t" "e + 856 / 1000 < t" for t
  proof (rule ccontr)
    assume "\<not> unat p < price_val t"
    then have "ln (price_val t) \<le> ln (real (unat p))" using price_val_le_ln [OF p0 that(1)] by simp
    then have "(t - 1 / 700) * ?b \<le> (e + 8475 / 10000) * ?b"
      using ln_price_ticks(1) [OF that(1)] est(2) by linarith
    then have "t - 1 / 700 \<le> e + 8475 / 10000" using b by simp
    then show False using that(2) by simp
  qed
  have ends: "tick_in_range MIN_TICK_INDEX" "tick_in_range MAX_TICK_INDEX"
    by (simp_all add: tick_in_range_def MIN_TICK_INDEX_def MAX_TICK_INDEX_def)
  have "real_of_int MIN_TICK_INDEX \<le> e + 856 / 1000"
    using less [OF ends(1)] in_range_ends(1) [OF p] by (meson not_less)
  then have "MIN_TICK_INDEX < high + 1" using high(2) by linarith
  then have hmin: "MIN_TICK_INDEX \<le> high" by simp
  have "ln (unat p) \<le> ln (price_val MAX_TICK_INDEX)"
    using in_range_ends(2) [OF p] p0 ln_price_ticks(3) [OF ends(2)]
    by (subst ln_le_cancel_iff) (simp_all only: of_nat_0_less_iff of_nat_le_iff)
  then have "(e - 1 / 1000) * ?b \<le> (MAX_TICK_INDEX + 1 / 700) * ?b"
    using est(1) ln_price_ticks(2) [OF ends(2)] by linarith
  then have "e - 1 / 1000 \<le> MAX_TICK_INDEX + 1 / 700" using b by simp
  then have "real_of_int high < MAX_TICK_INDEX + 1" using high(1) by simp
  then have hmax: "high \<le> MAX_TICK_INDEX" by linarith
  have step: "low \<le> high" "high \<le> low + 1" using low high by linarith+
  have "in_i128 (n - LOG_B_P_ERR_MARGIN_LOWER_X64)" "in_i128 (n + LOG_B_P_ERR_MARGIN_UPPER_X64)"
    using x by (simp_all add: in_i128_def n_def LOG_B_2_X32_def LOG_B_P_ERR_MARGIN_LOWER_X64_def
      LOG_B_P_ERR_MARGIN_UPPER_X64_def abs_le_iff)
  moreover have "in_i32 low" "in_i32 high"
    using hmin hmax step by (simp_all add: in_i32_def MIN_TICK_INDEX_def MAX_TICK_INDEX_def)
  ultimately have c: "choose_tick p n = (if low = high then Inr low else
      and_then (sqrt_price_from_tick_index high) (\<lambda>q. Inr (if q \<le> p then high else low)))"
    unfolding choose_tick_def by (simp only: to_i128_id low_def [symmetric] high_def [symmetric]
      try_into_i32_unwrap_def if_True and_then_simps)
  have hr: "tick_in_range high" using hmin hmax by (simp add: tick_in_range_def)
  obtain q where q: "sqrt_price_from_tick_index high = Inr q" "unat q = price_val high"
    using sqrt_price_val [OF hr] by blast
  have next_high: "unat p < price_val (high + 1)" if "high < MAX_TICK_INDEX"
    using that hmin high(2) by (intro less) (simp_all add: tick_in_range_def)
  show ?thesis
  proof (cases "low = high \<or> q \<le> p")
    case True
    then have "price_val high \<le> unat p" using le [OF hr] low(1) q(2) by (auto simp: word_le_nat_alt)
    then show ?thesis using True hr next_high c q(1) by (auto simp: n_def)
  next
    case False
    then have lh: "high = low + 1" and lt: "unat p < price_val high"
      using step q(2) by (auto simp: word_le_nat_alt)
    then have "high \<noteq> MIN_TICK_INDEX" using in_range_ends(1) [OF p] by auto
    then have lr: "tick_in_range low" using hmin hmax lh by (simp add: tick_in_range_def)
    then show ?thesis using False le [OF lr low(1)] lt c q(1) by (auto simp: n_def lh)
  qed
qed

lemma tick_of_price:
  assumes "price_in_range p"
  shows "\<exists>t. tick_index_from_sqrt_price p = Inr t \<and> tick_in_range t \<and> price_val t \<le> unat p
    \<and> (t < MAX_TICK_INDEX \<longrightarrow> unat p < price_val (t + 1))"
proof -
  obtain x :: int where x: "\<bar>x\<bar> \<le> 2 ^ 19" "x * ln 2 \<le> 2 ^ 14 * (ln (unat p) - 64 * ln 2)"
    "2 ^ 14 * (ln (unat p) - 64 * ln 2) \<le> real_of_int (x + 1) * ln 2 + 1 / 2 ^ 48"
    "tick_index_from_sqrt_price p = choose_tick p (x * 2 ^ 18 * LOG_B_2_X32)"
    using binary_logarithm [OF assms] by blast
  show ?thesis unfolding x(4) by (rule choose_tick_correct [OF x(1) assms x(2,3)])
qed

section \<open>Round trips\<close>

lemma price_val_less_iff:
  assumes "tick_in_range s" "tick_in_range t"
  shows "price_val s < price_val t \<longleftrightarrow> s < t"
proof -
  obtain p q where "sqrt_price_from_tick_index s = Inr p" "unat p = price_val s"
    "sqrt_price_from_tick_index t = Inr q" "unat q = price_val t"
    using sqrt_price_val assms by metis
  then show ?thesis
    using ticks.price_less_iff [of s t p q] assms by (simp add: tick_in_range_def word_less_nat_alt)
qed

lemma price_val_le_iff:
  "tick_in_range s \<Longrightarrow> tick_in_range t \<Longrightarrow> price_val s \<le> price_val t \<longleftrightarrow> s \<le> t"
  using price_val_less_iff [of t s] by (simp add: not_less [symmetric])

lemma tick_of_tick_price:
  assumes t: "tick_in_range t" and p: "sqrt_price_from_tick_index t = Inr p"
  shows "tick_index_from_sqrt_price p = Inr t"
proof -
  have "price_in_range p" using sqrt_price_bounds [OF t p] by (simp add: price_in_range_def)
  then obtain x where x: "tick_index_from_sqrt_price p = Inr x" "tick_in_range x" "price_val x \<le> unat p"
    "x < MAX_TICK_INDEX \<longrightarrow> unat p < price_val (x + 1)"
    using tick_of_price by blast
  have v: "unat p = price_val t" by (rule sqrt_price_Inr_val [OF p t])
  have "x \<le> t" using x(3) price_val_le_iff [OF x(2) t] v by simp
  moreover have "t \<le> x"
  proof (cases "x < MAX_TICK_INDEX")
    case True
    then have "tick_in_range (x + 1)" using x(2) by (simp add: tick_in_range_def)
    then show ?thesis using x(4) True price_val_less_iff [OF t] v by simp
  next
    case False
    then show ?thesis using t x(2) by (simp add: tick_in_range_def)
  qed
  ultimately show ?thesis using x(1) by simp
qed

end
