(* ===== verification/Swap_Manager.thy ===== *)
theory Swap_Manager
  imports Swap_Tick_Sequence Swap_Math Whirlpool_Manager Tick_Index
begin

text \<open>
  \<open>manager/swap_manager.rs\<close>: the swap as a loop over the ticks in the direction of the trade.  One
  round is \<open>swap_step\<close>; the loop is a partial function, so that not returning would be the value
  \<open>None\<close>, and is proved to return for every pool whose price and tick agree.
\<close>

record PostSwapUpdate =
  ps_amount_a :: u64
  ps_amount_b :: u64
  ps_next_liquidity :: u128
  ps_next_tick_index :: i32
  ps_next_sqrt_price :: u128
  ps_next_fee_growth_global :: u128
  ps_next_reward_infos :: "WhirlpoolRewardInfo arr3"
  ps_next_protocol_fee :: u64

definition calculate_protocol_fee :: "u64 \<Rightarrow> u16 \<Rightarrow> u64 result" where
  "calculate_protocol_fee global_fee protocol_fee_rate =
     unwrap (try_into_u64 (ucast global_fee * ucast protocol_fee_rate div PROTOCOL_FEE_RATE_MUL_VALUE))"

definition calculate_fees :: "u64 \<Rightarrow> u16 \<Rightarrow> u128 \<Rightarrow> u64 \<Rightarrow> u128 \<Rightarrow> (u64 \<times> u128) result" where
  "calculate_fees fee protocol_fee_rate curr_liquidity curr_protocol_fee curr_fee_growth_global_input =
     and_then (if protocol_fee_rate > 0
               then and_then (calculate_protocol_fee fee protocol_fee_rate) (\<lambda>delta.
                 Inr (fee - delta, curr_protocol_fee + delta))
               else Inr (fee, curr_protocol_fee)) (\<lambda>(global_fee, next_protocol_fee).
     Inr (next_protocol_fee,
       if curr_liquidity > 0
       then curr_fee_growth_global_input + push_bit Q64_RESOLUTION (ucast global_fee :: u128) div curr_liquidity
       else curr_fee_growth_global_input))"

definition calculate_update ::
  "Tick \<Rightarrow> bool \<Rightarrow> u128 \<Rightarrow> u128 \<Rightarrow> u128 \<Rightarrow> WhirlpoolRewardInfo arr3 \<Rightarrow> (TickUpdate \<times> u128) result" where
  "calculate_update tick a_to_b liquidity fee_growth_global_a fee_growth_global_b reward_infos =
     (let signed_liquidity_net = (if a_to_b then to_i128 (- tk_liquidity_net tick) else tk_liquidity_net tick) in
      and_then (next_tick_cross_update tick fee_growth_global_a fee_growth_global_b reward_infos) (\<lambda>update.
      and_then (add_liquidity_delta liquidity signed_liquidity_net) (\<lambda>next_liquidity.
      Inr (update, next_liquidity))))"

definition get_next_sqrt_prices :: "i32 \<Rightarrow> u128 \<Rightarrow> bool \<Rightarrow> (u128 \<times> u128) result" where
  "get_next_sqrt_prices next_tick_index sqrt_price_limit a_to_b =
     and_then (sqrt_price_from_tick_index next_tick_index) (\<lambda>next_tick_price.
     let next_sqrt_price_limit =
           (if a_to_b then max sqrt_price_limit next_tick_price else min sqrt_price_limit next_tick_price) in
     Inr (next_tick_price, next_sqrt_price_limit))"

text \<open>The mutable variables of the loop, with the tick arrays it writes to.\<close>

record SwapState =
  sw_amount_remaining :: u64
  sw_amount_calculated :: u64
  sw_sqrt_price :: u128
  sw_tick_index :: i32
  sw_liquidity :: u128
  sw_protocol_fee :: u64
  sw_array_index :: usize
  sw_fee_growth_global_input :: u128
  sw_sequence :: SwapTickSequence

text \<open>The amounts after a step: what remains of the fixed amount, and what was calculated of the other.\<close>

definition step_amounts :: "bool \<Rightarrow> SwapStepComputation \<Rightarrow> u64 \<Rightarrow> u64 \<Rightarrow> (u64 \<times> u64) result" where
  "step_amounts amount_specified_is_input swap_computation amount_remaining amount_calculated =
     (if amount_specified_is_input then
        and_then (ok_or (checked_sub amount_remaining (amount_in swap_computation)) AmountRemainingOverflow)
          (\<lambda>amount_remaining.
        and_then (ok_or (checked_sub amount_remaining (fee_amount swap_computation)) AmountRemainingOverflow)
          (\<lambda>amount_remaining.
        and_then (ok_or (checked_add amount_calculated (amount_out swap_computation)) AmountCalcOverflow)
          (\<lambda>amount_calculated.
        Inr (amount_remaining, amount_calculated))))
      else
        and_then (ok_or (checked_sub amount_remaining (amount_out swap_computation)) AmountRemainingOverflow)
          (\<lambda>amount_remaining.
        and_then (ok_or (checked_add amount_calculated (amount_in swap_computation)) AmountCalcOverflow)
          (\<lambda>amount_calculated.
        and_then (ok_or (checked_add amount_calculated (fee_amount swap_computation)) AmountCalcOverflow)
          (\<lambda>amount_calculated.
        Inr (amount_remaining, amount_calculated)))))"

text \<open>\<open>get_tick(..).map_or_else(|_| (None, false), ..)\<close>: an error means no tick.\<close>

definition tick_or_none :: "Tick result \<Rightarrow> Tick option result" where
  "tick_or_none r = (case r of Inl Panic \<Rightarrow> Inl Panic | Inl _ \<Rightarrow> Inr None | Inr tick \<Rightarrow> Inr (Some tick))"

text \<open>Arriving at the price of the next tick: cross it if it is initialized, and move past it.\<close>

definition cross_next_tick ::
  "Whirlpool \<Rightarrow> bool \<Rightarrow> WhirlpoolRewardInfo arr3 \<Rightarrow> usize \<Rightarrow> i32 \<Rightarrow> SwapState \<Rightarrow> SwapState result" where
  "cross_next_tick whirlpool a_to_b next_reward_infos next_array_index next_tick_index st =
     and_then (tick_or_none (sequence_get_tick (sw_sequence st) next_array_index next_tick_index
                               (wp_tick_spacing whirlpool))) (\<lambda>next_tick.
     and_then (case next_tick of
         None \<Rightarrow> Inr st
       | Some tick \<Rightarrow>
           if \<not> tk_initialized tick then Inr st
           else
             let (fee_growth_global_a, fee_growth_global_b) =
                   (if a_to_b then (sw_fee_growth_global_input st, wp_fee_growth_global_b whirlpool)
                    else (wp_fee_growth_global_a whirlpool, sw_fee_growth_global_input st)) in
             and_then (calculate_update tick a_to_b (sw_liquidity st) fee_growth_global_a
                         fee_growth_global_b next_reward_infos) (\<lambda>(update, next_liquidity).
             and_then (sequence_update_tick (sw_sequence st) next_array_index next_tick_index
                         (wp_tick_spacing whirlpool) update) (\<lambda>arrays.
             Inr (st\<lparr>sw_liquidity := next_liquidity, sw_sequence := arrays\<rparr>)))) (\<lambda>st.
     and_then (get_tick_offset (sw_sequence st) next_array_index next_tick_index
                 (wp_tick_spacing whirlpool)) (\<lambda>tick_offset.
     Inr (st\<lparr>
       sw_array_index :=
         (if (a_to_b \<and> tick_offset = 0) \<or> (\<not> a_to_b \<and> tick_offset = TICK_ARRAY_SIZE - 1)
          then next_array_index + 1 else next_array_index),
       sw_tick_index := (if a_to_b then to_i32 (next_tick_index - 1) else next_tick_index)\<rparr>))))"

definition swap_step ::
  "Whirlpool \<Rightarrow> u128 \<Rightarrow> bool \<Rightarrow> bool \<Rightarrow> WhirlpoolRewardInfo arr3 \<Rightarrow> SwapState \<Rightarrow> SwapState result" where
  "swap_step whirlpool sqrt_price_limit amount_specified_is_input a_to_b next_reward_infos st =
     and_then (get_next_initialized_tick_index (sw_sequence st) (sw_tick_index st)
                 (wp_tick_spacing whirlpool) a_to_b (sw_array_index st)) (\<lambda>(next_array_index, next_tick_index).
     and_then (get_next_sqrt_prices next_tick_index sqrt_price_limit a_to_b)
       (\<lambda>(next_tick_sqrt_price, sqrt_price_target).
     and_then (compute_swap (sw_amount_remaining st) (wp_fee_rate whirlpool) (sw_liquidity st)
                 (sw_sqrt_price st) sqrt_price_target amount_specified_is_input a_to_b) (\<lambda>swap_computation.
     and_then (step_amounts amount_specified_is_input swap_computation (sw_amount_remaining st)
                 (sw_amount_calculated st)) (\<lambda>(amount_remaining, amount_calculated).
     and_then (calculate_fees (fee_amount swap_computation) (wp_protocol_fee_rate whirlpool)
                 (sw_liquidity st) (sw_protocol_fee st) (sw_fee_growth_global_input st))
       (\<lambda>(next_protocol_fee, next_fee_growth_global_input).
     let st1 = st\<lparr>sw_amount_remaining := amount_remaining, sw_amount_calculated := amount_calculated,
                  sw_protocol_fee := next_protocol_fee,
                  sw_fee_growth_global_input := next_fee_growth_global_input\<rparr> in
     and_then (if next_price swap_computation = next_tick_sqrt_price
               then cross_next_tick whirlpool a_to_b next_reward_infos next_array_index next_tick_index st1
               else if next_price swap_computation \<noteq> sw_sqrt_price st
               then and_then (tick_index_from_sqrt_price (next_price swap_computation)) (\<lambda>tick_index.
                 Inr (st1\<lparr>sw_tick_index := tick_index\<rparr>))
               else Inr st1) (\<lambda>st2.
     Inr (st2\<lparr>sw_sqrt_price := next_price swap_computation\<rparr>)))))))"

partial_function (option) swap_loop ::
  "Whirlpool \<Rightarrow> u128 \<Rightarrow> bool \<Rightarrow> bool \<Rightarrow> WhirlpoolRewardInfo arr3 \<Rightarrow> SwapState \<Rightarrow> SwapState result option" where
  [code]: "swap_loop whirlpool sqrt_price_limit amount_specified_is_input a_to_b next_reward_infos st =
     (if sw_amount_remaining st > 0 \<and> sqrt_price_limit \<noteq> sw_sqrt_price st then
        case swap_step whirlpool sqrt_price_limit amount_specified_is_input a_to_b next_reward_infos st of
          Inl e \<Rightarrow> Some (Inl e)
        | Inr st' \<Rightarrow> swap_loop whirlpool sqrt_price_limit amount_specified_is_input a_to_b next_reward_infos st'
      else Some (Inr st))"

definition swap_checks :: "Whirlpool \<Rightarrow> u64 \<Rightarrow> u128 \<Rightarrow> bool \<Rightarrow> u64 \<Rightarrow> WhirlpoolRewardInfo arr3 result" where
  "swap_checks whirlpool amount sqrt_price_limit a_to_b timestamp =
     (if sqrt_price_limit < MIN_SQRT_PRICE_X64 \<or> sqrt_price_limit > MAX_SQRT_PRICE_X64
      then Inl (Err SqrtPriceOutOfBounds)
      else if (a_to_b \<and> sqrt_price_limit > wp_sqrt_price whirlpool)
              \<or> (\<not> a_to_b \<and> sqrt_price_limit < wp_sqrt_price whirlpool)
      then Inl (Err InvalidSqrtPriceLimitDirection)
      else if amount = 0 then Inl (Err ZeroTradableAmount)
      else next_whirlpool_reward_infos whirlpool timestamp)"

definition swap_start :: "Whirlpool \<Rightarrow> SwapTickSequence \<Rightarrow> u64 \<Rightarrow> bool \<Rightarrow> SwapState" where
  "swap_start whirlpool swap_tick_sequence amount a_to_b =
     \<lparr>sw_amount_remaining = amount, sw_amount_calculated = 0, sw_sqrt_price = wp_sqrt_price whirlpool,
      sw_tick_index = wp_tick_current_index whirlpool, sw_liquidity = wp_liquidity whirlpool,
      sw_protocol_fee = 0, sw_array_index = 0,
      sw_fee_growth_global_input = (if a_to_b then wp_fee_growth_global_a whirlpool
                                    else wp_fee_growth_global_b whirlpool),
      sw_sequence = swap_tick_sequence\<rparr>"

definition swap_finish ::
  "u64 \<Rightarrow> bool \<Rightarrow> bool \<Rightarrow> WhirlpoolRewardInfo arr3 \<Rightarrow> SwapState \<Rightarrow> PostSwapUpdate" where
  "swap_finish amount amount_specified_is_input a_to_b next_reward_infos st =
     (let (amount_a, amount_b) =
            (if a_to_b = amount_specified_is_input
             then (amount - sw_amount_remaining st, sw_amount_calculated st)
             else (sw_amount_calculated st, amount - sw_amount_remaining st)) in
      \<lparr>ps_amount_a = amount_a, ps_amount_b = amount_b,
       ps_next_liquidity = sw_liquidity st,
       ps_next_tick_index = sw_tick_index st,
       ps_next_sqrt_price = sw_sqrt_price st,
       ps_next_fee_growth_global = sw_fee_growth_global_input st,
       ps_next_reward_infos = next_reward_infos,
       ps_next_protocol_fee = sw_protocol_fee st\<rparr>)"

text \<open>The swap: its update and the tick arrays it leaves; \<open>None\<close> would be a loop that does not end.\<close>

definition swap ::
  "Whirlpool \<Rightarrow> SwapTickSequence \<Rightarrow> u64 \<Rightarrow> u128 \<Rightarrow> bool \<Rightarrow> bool \<Rightarrow> u64
   \<Rightarrow> (PostSwapUpdate \<times> SwapTickSequence) result option" where
  "swap whirlpool swap_tick_sequence amount sqrt_price_limit amount_specified_is_input a_to_b timestamp =
     (case swap_checks whirlpool amount sqrt_price_limit a_to_b timestamp of
        Inl e \<Rightarrow> Some (Inl e)
      | Inr next_reward_infos \<Rightarrow>
          (case swap_loop whirlpool sqrt_price_limit amount_specified_is_input a_to_b next_reward_infos
                  (swap_start whirlpool swap_tick_sequence amount a_to_b) of
             None \<Rightarrow> None
           | Some (Inl e) \<Rightarrow> Some (Inl e)
           | Some (Inr st) \<Rightarrow>
               Some (Inr (swap_finish amount amount_specified_is_input a_to_b next_reward_infos st,
                          sw_sequence st))))"

section \<open>The parts of a step\<close>

lemma step_amounts_Inr:
  "step_amounts inp c r m = Inr (r', m') \<longleftrightarrow>
     (if inp then unat r = unat r' + unat (amount_in c) + unat (fee_amount c)
                  \<and> unat m' = unat m + unat (amount_out c)
      else unat r = unat r' + unat (amount_out c)
                  \<and> unat m' = unat m + unat (amount_in c) + unat (fee_amount c))"
proof (cases inp)
  case True
  have "step_amounts inp c r m = Inr (r', m') \<longleftrightarrow>
      (\<exists>r1 :: u64. unat r = unat (amount_in c) + unat r1 \<and> unat r1 = unat (fee_amount c) + unat r'
         \<and> unat m' = unat m + unat (amount_out c))"
    using True by (simp add: step_amounts_def ok_iffs checked_iffs)
  also have "\<dots> \<longleftrightarrow> unat r = unat r' + unat (amount_in c) + unat (fee_amount c)
      \<and> unat m' = unat m + unat (amount_out c)"
  proof
    assume a: "unat r = unat r' + unat (amount_in c) + unat (fee_amount c) \<and> unat m' = unat m + unat (amount_out c)"
    then have "unat (r - amount_in c) = unat r - unat (amount_in c)" by (intro unat_sub_nowrap) simp
    then show "\<exists>r1 :: u64. unat r = unat (amount_in c) + unat r1 \<and> unat r1 = unat (fee_amount c) + unat r'
         \<and> unat m' = unat m + unat (amount_out c)"
      using a by (intro exI [of _ "r - amount_in c"]) simp
  qed auto
  finally show ?thesis using True by simp
next
  case False
  have "step_amounts inp c r m = Inr (r', m') \<longleftrightarrow>
      (\<exists>m1 :: u64. unat r = unat (amount_out c) + unat r' \<and> unat m1 = unat m + unat (amount_in c)
         \<and> unat m' = unat m1 + unat (fee_amount c))"
    using False by (auto simp: step_amounts_def ok_iffs checked_iffs)
  also have "\<dots> \<longleftrightarrow> unat r = unat r' + unat (amount_out c)
      \<and> unat m' = unat m + unat (amount_in c) + unat (fee_amount c)"
  proof
    assume a: "unat r = unat r' + unat (amount_out c) \<and> unat m' = unat m + unat (amount_in c) + unat (fee_amount c)"
    then have "unat m + unat (amount_in c) < 2 ^ 64" using unat_u64_less [of m'] by simp
    then have "unat (m + amount_in c) = unat m + unat (amount_in c)" by (intro unat_add_nowrap) simp
    then show "\<exists>m1 :: u64. unat r = unat (amount_out c) + unat r' \<and> unat m1 = unat m + unat (amount_in c)
         \<and> unat m' = unat m1 + unat (fee_amount c)"
      using a by (intro exI [of _ "m + amount_in c"]) simp
  qed auto
  finally show ?thesis using False by simp
qed

text \<open>The protocol's share of a fee, rounded down, and the growth of the fees of the liquidity.\<close>

definition protocol_share :: "nat \<Rightarrow> u16 \<Rightarrow> nat" where
  "protocol_share fee rate = fee * unat rate div 10000"

lemma calculate_protocol_fee_val:
  assumes "rate \<le> MAX_PROTOCOL_FEE_RATE"
  shows "\<exists>d. calculate_protocol_fee fee rate = Inr d \<and> unat d = protocol_share (unat fee) rate
    \<and> protocol_share (unat fee) rate \<le> unat fee"
proof -
  have r: "unat rate \<le> 2500" using assms by (simp add: MAX_PROTOCOL_FEE_RATE_def word_le_nat_alt)
  have "unat fee * unat rate \<le> 2 ^ 64 * 2500" using unat_u64_less [of fee] r by (intro mult_le_mono) simp_all
  then have m: "unat (ucast fee * ucast rate :: u128) = unat fee * unat rate"
    by (subst unat_mult_nowrap) simp_all
  have v: "unat ((ucast fee * ucast rate :: u128) div PROTOCOL_FEE_RATE_MUL_VALUE) = protocol_share (unat fee) rate"
    by (simp add: unat_div_distrib m PROTOCOL_FEE_RATE_MUL_VALUE_def protocol_share_def)
  have "unat fee * unat rate \<le> unat fee * 10000" using r by (intro mult_le_mono2) simp
  then have le: "protocol_share (unat fee) rate \<le> unat fee"
    unfolding protocol_share_def by (metis div_le_mono nonzero_mult_div_cancel_right zero_neq_numeral)
  then have "unat (of_nat (protocol_share (unat fee) rate) :: u64) = protocol_share (unat fee) rate"
    using unat_u64_less [of fee] by (simp add: unat_of_nat take_bit_nat_eq_self)
  then have "try_into_u64 ((ucast fee * ucast rate :: u128) div PROTOCOL_FEE_RATE_MUL_VALUE)
      = Inr (of_nat (protocol_share (unat fee) rate))"
    by (simp add: try_into_u64_Inr_iff v)
  then show ?thesis using le unat_of_nat [where 'a = 64]
    \<open>unat (of_nat (protocol_share (unat fee) rate) :: u64) = protocol_share (unat fee) rate\<close>
    by (simp add: calculate_protocol_fee_def)
qed

lemma calculate_fees_val:
  assumes "rate \<le> MAX_PROTOCOL_FEE_RATE"
  shows "calculate_fees fee rate l pf g =
    Inr (pf + of_nat (protocol_share (unat fee) rate),
         g + (if l = 0 then 0 else of_nat ((unat fee - protocol_share (unat fee) rate) * 2 ^ 64 div unat l)))"
proof -
  obtain d where d: "calculate_protocol_fee fee rate = Inr d" "unat d = protocol_share (unat fee) rate"
    "protocol_share (unat fee) rate \<le> unat fee"
    using calculate_protocol_fee_val [OF assms] by blast
  have dn: "d = of_nat (protocol_share (unat fee) rate)" by (simp flip: d(2))
  define f where "f = fee - d"
  have f: "unat f = unat fee - protocol_share (unat fee) rate"
    using d by (simp add: f_def unat_sub_nowrap)
  have z: "protocol_share (unat fee) 0 = 0" by (simp add: protocol_share_def)
  have run: "calculate_fees fee rate l pf g = Inr (pf + d, if l > 0 then g + push_bit 64 (ucast f :: u128) div l else g)"
  proof (cases "rate = 0")
    case True
    then have "d = 0" using d(2) z by simp
    then show ?thesis using True by (simp add: calculate_fees_def f_def)
  next
    case False
    then show ?thesis using d(1) by (simp add: calculate_fees_def f_def word_gt_0)
  qed
  have pb: "unat (push_bit 64 (ucast f) :: u128) = unat f * 2 ^ 64"
    using unat_u64_less [of f] by (simp add: unat_push_bit)
  have "push_bit 64 (ucast f :: u128) div l = of_nat (unat f * 2 ^ 64 div unat l)"
    unfolding pb [symmetric] unat_div_distrib [symmetric] by simp
  then show ?thesis unfolding run by (auto simp: dn f word_gt_0)
qed

lemma get_next_sqrt_prices_Inr:
  "get_next_sqrt_prices x limit a_to_b = Inr (p, t) \<longleftrightarrow>
     sqrt_price_from_tick_index x = Inr p \<and> t = (if a_to_b then max limit p else min limit p)"
  by (auto simp: get_next_sqrt_prices_def and_then_Inr_iff)

lemma swap_step_Inr:
  assumes "swap_step w limit inp a_to_b infos st = Inr st'"
  obtains j x p t c r m pf g st2 where
    "get_next_initialized_tick_index (sw_sequence st) (sw_tick_index st) (wp_tick_spacing w) a_to_b
       (sw_array_index st) = Inr (j, x)"
    "sqrt_price_from_tick_index x = Inr p" "t = (if a_to_b then max limit p else min limit p)"
    "compute_swap (sw_amount_remaining st) (wp_fee_rate w) (sw_liquidity st) (sw_sqrt_price st) t inp a_to_b = Inr c"
    "step_amounts inp c (sw_amount_remaining st) (sw_amount_calculated st) = Inr (r, m)"
    "calculate_fees (fee_amount c) (wp_protocol_fee_rate w) (sw_liquidity st) (sw_protocol_fee st)
       (sw_fee_growth_global_input st) = Inr (pf, g)"
    "(if next_price c = p then cross_next_tick w a_to_b infos j x
         (st\<lparr>sw_amount_remaining := r, sw_amount_calculated := m, sw_protocol_fee := pf,
             sw_fee_growth_global_input := g\<rparr>)
      else if next_price c \<noteq> sw_sqrt_price st
      then and_then (tick_index_from_sqrt_price (next_price c)) (\<lambda>i.
        Inr (st\<lparr>sw_amount_remaining := r, sw_amount_calculated := m, sw_protocol_fee := pf,
                sw_fee_growth_global_input := g, sw_tick_index := i\<rparr>))
      else Inr (st\<lparr>sw_amount_remaining := r, sw_amount_calculated := m, sw_protocol_fee := pf,
                   sw_fee_growth_global_input := g\<rparr>)) = Inr st2"
    "st' = st2\<lparr>sw_sqrt_price := next_price c\<rparr>"
proof -
  obtain j x where 1: "get_next_initialized_tick_index (sw_sequence st) (sw_tick_index st) (wp_tick_spacing w) a_to_b
       (sw_array_index st) = Inr (j, x)"
    and r1: "and_then (get_next_sqrt_prices x limit a_to_b)
       (\<lambda>(next_tick_sqrt_price, sqrt_price_target).
     and_then (compute_swap (sw_amount_remaining st) (wp_fee_rate w) (sw_liquidity st)
                 (sw_sqrt_price st) sqrt_price_target inp a_to_b) (\<lambda>swap_computation.
     and_then (step_amounts inp swap_computation (sw_amount_remaining st)
                 (sw_amount_calculated st)) (\<lambda>(amount_remaining, amount_calculated).
     and_then (calculate_fees (fee_amount swap_computation) (wp_protocol_fee_rate w)
                 (sw_liquidity st) (sw_protocol_fee st) (sw_fee_growth_global_input st))
       (\<lambda>(next_protocol_fee, next_fee_growth_global_input).
     and_then (if next_price swap_computation = next_tick_sqrt_price
               then cross_next_tick w a_to_b infos j x (st\<lparr>sw_amount_remaining := amount_remaining, sw_amount_calculated := amount_calculated,
                  sw_protocol_fee := next_protocol_fee,
                  sw_fee_growth_global_input := next_fee_growth_global_input\<rparr>)
               else if next_price swap_computation \<noteq> sw_sqrt_price st
               then and_then (tick_index_from_sqrt_price (next_price swap_computation)) (\<lambda>tick_index.
                 Inr (st\<lparr>sw_amount_remaining := amount_remaining, sw_amount_calculated := amount_calculated,
                  sw_protocol_fee := next_protocol_fee,
                  sw_fee_growth_global_input := next_fee_growth_global_input, sw_tick_index := tick_index\<rparr>))
               else Inr (st\<lparr>sw_amount_remaining := amount_remaining, sw_amount_calculated := amount_calculated,
                  sw_protocol_fee := next_protocol_fee,
                  sw_fee_growth_global_input := next_fee_growth_global_input\<rparr>)) (\<lambda>st2.
     Inr (st2\<lparr>sw_sqrt_price := next_price swap_computation\<rparr>)))))) = Inr st'"
    using assms unfolding swap_step_def Let_def by (auto simp: and_then_Inr_iff simp del: if_split)
  obtain p t where 2: "get_next_sqrt_prices x limit a_to_b = Inr (p, t)"
    using r1 by (auto simp: and_then_Inr_iff [of "get_next_sqrt_prices x limit a_to_b"])
  obtain c where 3: "compute_swap (sw_amount_remaining st) (wp_fee_rate w) (sw_liquidity st)
                 (sw_sqrt_price st) t inp a_to_b = Inr c"
    using r1 unfolding 2 and_then_simps prod.case by (rule and_then_Inr_iff [THEN iffD1, THEN exE]) blast
  obtain r m where 4: "step_amounts inp c (sw_amount_remaining st) (sw_amount_calculated st) = Inr (r, m)"
    using r1 unfolding 2 and_then_simps prod.case 3 by (rule and_then_Inr_iff [THEN iffD1, THEN exE]) auto
  obtain pf g where 5: "calculate_fees (fee_amount c) (wp_protocol_fee_rate w)
                 (sw_liquidity st) (sw_protocol_fee st) (sw_fee_growth_global_input st) = Inr (pf, g)"
    using r1 unfolding 2 and_then_simps prod.case 3 4 by (rule and_then_Inr_iff [THEN iffD1, THEN exE]) auto
  have t: "sqrt_price_from_tick_index x = Inr p" "t = (if a_to_b then max limit p else min limit p)"
    using 2 by (simp_all add: get_next_sqrt_prices_Inr)
  show thesis
    using r1 unfolding 2 and_then_simps prod.case 3 4 5 and_then_Inr_iff [where y = st']
    by (elim exE conjE) (rule that [OF 1 t 3 4 5], assumption, simp)
qed

lemma sequence_update_tick_ok:
  "sequence_ok s arrays \<Longrightarrow> sequence_update_tick arrays i t s u = Inr arrays' \<Longrightarrow> sequence_ok s arrays'"
  using sequence_store.put_ok [of s arrays "(i, t)" u arrays'] by simp

text \<open>What crossing does to the state of the swap, for a tick that is initialized.\<close>

definition crossed_state ::
  "Whirlpool \<Rightarrow> bool \<Rightarrow> WhirlpoolRewardInfo arr3 \<Rightarrow> usize \<Rightarrow> i32 \<Rightarrow> Tick \<Rightarrow> SwapState \<Rightarrow> SwapState \<Rightarrow> bool" where
  "crossed_state w a_to_b infos j x tick st st1 \<longleftrightarrow>
     (\<exists>u l arrays. next_tick_cross_update tick
          (if a_to_b then sw_fee_growth_global_input st else wp_fee_growth_global_a w)
          (if a_to_b then wp_fee_growth_global_b w else sw_fee_growth_global_input st) infos = Inr u
        \<and> add_liquidity_delta (sw_liquidity st)
            (if a_to_b then to_i128 (- tk_liquidity_net tick) else tk_liquidity_net tick) = Inr l
        \<and> sequence_update_tick (sw_sequence st) j x (wp_tick_spacing w) u = Inr arrays
        \<and> st1 = st\<lparr>sw_liquidity := l, sw_sequence := arrays\<rparr>)"

lemma cross_next_tick_Inr:
  assumes "cross_next_tick w a_to_b infos j x st = Inr st'"
  obtains (skip) off where
    "\<nexists>tick. sequence_get_tick (sw_sequence st) j x (wp_tick_spacing w) = Inr tick \<and> tk_initialized tick"
    "get_tick_offset (sw_sequence st) j x (wp_tick_spacing w) = Inr off"
    "st' = st\<lparr>sw_array_index := if (a_to_b \<and> off = 0) \<or> (\<not> a_to_b \<and> off = TICK_ARRAY_SIZE - 1) then j + 1 else j,
              sw_tick_index := if a_to_b then to_i32 (x - 1) else x\<rparr>"
  | (cross) tick st1 off where
    "sequence_get_tick (sw_sequence st) j x (wp_tick_spacing w) = Inr tick" "tk_initialized tick"
    "crossed_state w a_to_b infos j x tick st st1"
    "get_tick_offset (sw_sequence st1) j x (wp_tick_spacing w) = Inr off"
    "st' = st1\<lparr>sw_array_index := if (a_to_b \<and> off = 0) \<or> (\<not> a_to_b \<and> off = TICK_ARRAY_SIZE - 1) then j + 1 else j,
              sw_tick_index := if a_to_b then to_i32 (x - 1) else x\<rparr>"
proof -
  let ?get = "sequence_get_tick (sw_sequence st) j x (wp_tick_spacing w)"
  obtain nt st1 off where nt: "tick_or_none ?get = Inr nt" and
    st1: "(case nt of None \<Rightarrow> Inr st
       | Some tick \<Rightarrow>
           if \<not> tk_initialized tick then Inr st
           else
             let (fee_growth_global_a, fee_growth_global_b) =
                   (if a_to_b then (sw_fee_growth_global_input st, wp_fee_growth_global_b w)
                    else (wp_fee_growth_global_a w, sw_fee_growth_global_input st)) in
             and_then (calculate_update tick a_to_b (sw_liquidity st) fee_growth_global_a
                         fee_growth_global_b infos) (\<lambda>(update, next_liquidity).
             and_then (sequence_update_tick (sw_sequence st) j x (wp_tick_spacing w) update) (\<lambda>arrays.
             Inr (st\<lparr>sw_liquidity := next_liquidity, sw_sequence := arrays\<rparr>)))) = Inr st1" and
    off: "get_tick_offset (sw_sequence st1) j x (wp_tick_spacing w) = Inr off" and
    st': "st' = st1\<lparr>sw_array_index := if (a_to_b \<and> off = 0) \<or> (\<not> a_to_b \<and> off = TICK_ARRAY_SIZE - 1) then j + 1 else j,
              sw_tick_index := if a_to_b then to_i32 (x - 1) else x\<rparr>"
    using assms unfolding cross_next_tick_def and_then_Inr_iff by blast
  show thesis
  proof (cases nt)
    case None
    then have "st1 = st" "\<nexists>tick. ?get = Inr tick" using nt st1
      by (auto simp: tick_or_none_def split: sum.splits abort.splits)
    then show thesis using skip off st' by blast
  next
    case (Some tick)
    then have get: "?get = Inr tick" using nt by (auto simp: tick_or_none_def split: sum.splits abort.splits)
    show thesis
    proof (cases "tk_initialized tick")
      case False
      then have "st1 = st" using st1 Some by simp
      then show thesis using skip off st' get False by force
    next
      case True
      then have "crossed_state w a_to_b infos j x tick st st1"
        using st1 Some unfolding crossed_state_def
        by (cases a_to_b) (auto simp: calculate_update_def and_then_Inr_iff)
      then show thesis using cross get True off st' by blast
    qed
  qed
qed

lemma cross_next_tick_fields:
  assumes r: "cross_next_tick w a_to_b infos j x st = Inr st'" and ok: "sequence_ok (wp_tick_spacing w) (sw_sequence st)"
  shows "sequence_ok (wp_tick_spacing w) (sw_sequence st')"
    "sw_tick_index st' = (if a_to_b then to_i32 (x - 1) else x)"
    "sw_amount_remaining st' = sw_amount_remaining st" "sw_amount_calculated st' = sw_amount_calculated st"
    "sw_protocol_fee st' = sw_protocol_fee st" "sw_fee_growth_global_input st' = sw_fee_growth_global_input st"
proof -
  have "sequence_ok (wp_tick_spacing w) (sw_sequence st')
    \<and> sw_tick_index st' = (if a_to_b then to_i32 (x - 1) else x)
    \<and> sw_amount_remaining st' = sw_amount_remaining st \<and> sw_amount_calculated st' = sw_amount_calculated st
    \<and> sw_protocol_fee st' = sw_protocol_fee st \<and> sw_fee_growth_global_input st' = sw_fee_growth_global_input st"
    using r
  proof (cases rule: cross_next_tick_Inr)
    case (skip off)
    then show ?thesis using ok by simp
  next
    case (cross tick st1 off)
    then show ?thesis using sequence_update_tick_ok [OF ok] by (auto simp: crossed_state_def)
  qed
  then show "sequence_ok (wp_tick_spacing w) (sw_sequence st')"
    "sw_tick_index st' = (if a_to_b then to_i32 (x - 1) else x)"
    "sw_amount_remaining st' = sw_amount_remaining st" "sw_amount_calculated st' = sw_amount_calculated st"
    "sw_protocol_fee st' = sw_protocol_fee st" "sw_fee_growth_global_input st' = sw_fee_growth_global_input st"
    by simp_all
qed

section \<open>The invariant of the loop\<close>

text \<open>
  The tick of a state is the one whose interval of prices contains the price; a price on the border
  of two intervals may go with either tick, depending on the direction it was reached from.
\<close>

definition tick_price_ok :: "i32 \<Rightarrow> u128 \<Rightarrow> bool" where
  "tick_price_ok t p \<longleftrightarrow> MIN_TICK_INDEX - 1 \<le> t \<and> t \<le> MAX_TICK_INDEX
     \<and> (MIN_TICK_INDEX \<le> t \<longrightarrow> price_val t \<le> unat p) \<and> (t < MAX_TICK_INDEX \<longrightarrow> unat p \<le> price_val (t + 1))"

definition swap_inv :: "u16 \<Rightarrow> u128 \<Rightarrow> bool \<Rightarrow> SwapState \<Rightarrow> bool" where
  "swap_inv s limit a_to_b st \<longleftrightarrow> sequence_ok s (sw_sequence st) \<and> price_in_range (sw_sqrt_price st)
     \<and> (if a_to_b then limit \<le> sw_sqrt_price st else sw_sqrt_price st \<le> limit)
     \<and> tick_price_ok (sw_tick_index st) (sw_sqrt_price st)"

definition swap_running :: "u128 \<Rightarrow> SwapState \<Rightarrow> bool" where
  "swap_running limit st \<longleftrightarrow> sw_amount_remaining st > 0 \<and> limit \<noteq> sw_sqrt_price st"

text \<open>How many ticks are left in the direction of the trade.\<close>

definition ticks_left :: "bool \<Rightarrow> SwapState \<Rightarrow> nat" where
  "ticks_left a_to_b st = (if a_to_b then nat (sw_tick_index st - MIN_TICK_INDEX + 1)
     else nat (MAX_TICK_INDEX - sw_tick_index st))"

text \<open>The tick a running state finds next lies in the direction of the trade, and so does its price.\<close>

lemma next_tick_direction:
  assumes inv: "swap_inv s limit a_to_b st" and run: "swap_running limit st" and limit: "price_in_range limit"
    and nx: "get_next_initialized_tick_index (sw_sequence st) (sw_tick_index st) s a_to_b (sw_array_index st) = Inr (j, x)"
    and p: "sqrt_price_from_tick_index x = Inr p"
  shows "tick_in_range x" "if a_to_b then x \<le> sw_tick_index st else sw_tick_index st < x"
    "if a_to_b then p \<le> sw_sqrt_price st else sw_sqrt_price st \<le> p"
proof -
  let ?t = "sw_tick_index st" and ?p = "sw_sqrt_price st"
  have sq: "sequence_ok s (sw_sequence st)" and tp: "tick_price_ok ?t ?p"
    and pr: "price_in_range ?p" and lp: "if a_to_b then limit \<le> ?p else ?p \<le> limit"
    using inv run by (auto simp: swap_inv_def swap_running_def)
  note sc = sequence_search_correct [OF sq nx [unfolded get_next_initialized_tick_index_def]]
  have rg: "a_to_b \<Longrightarrow> tick_in_range x" "MIN_TICK_INDEX - 1 \<le> x" "x \<le> MAX_TICK_INDEX"
    using search_stop_range [OF sq, of j a_to_b x] sc by blast+
  have mm: "MIN_TICK_INDEX < MAX_TICK_INDEX" "tick_in_range MIN_TICK_INDEX" "tick_in_range MAX_TICK_INDEX"
    by (simp_all add: MIN_TICK_INDEX_def MAX_TICK_INDEX_def tick_in_range_def)
  have "tick_in_range x \<and> (if a_to_b then MIN_TICK_INDEX \<le> ?t \<and> x \<le> ?t else ?t < MAX_TICK_INDEX \<and> ?t < x)"
  proof (cases a_to_b)
    case True
    have "MIN_TICK_INDEX \<le> ?t"
    proof (rule ccontr)
      assume "\<not> MIN_TICK_INDEX \<le> ?t"
      then have "?t + 1 = MIN_TICK_INDEX" using tp by (simp add: tick_price_ok_def)
      then have "unat ?p \<le> unat MIN_SQRT_PRICE_X64" using tp mm price_val_ends(1)
        by (auto simp: tick_price_ok_def)
      then have "?p \<le> limit" using limit by (simp add: price_in_range_def word_le_nat_alt)
      then show False using lp run True by (auto simp: swap_running_def)
    qed
    then show ?thesis using sc rg(1) True by (auto simp: max_def split: if_splits)
  next
    case False
    have "?t < MAX_TICK_INDEX"
    proof (rule ccontr)
      assume "\<not> ?t < MAX_TICK_INDEX"
      then have "?t = MAX_TICK_INDEX" using tp by (simp add: tick_price_ok_def)
      then have "unat MAX_SQRT_PRICE_X64 \<le> unat ?p" using tp mm price_val_ends(2)
        by (auto simp: tick_price_ok_def)
      then have "limit \<le> ?p" using limit by (simp add: price_in_range_def word_le_nat_alt)
      then show False using lp run False by (auto simp: swap_running_def)
    qed
    moreover from this have "?t < x" using sc False by (auto simp: min_def split: if_splits)
    moreover have "MIN_TICK_INDEX \<le> x" using \<open>?t < x\<close> tp by (auto simp: tick_price_ok_def)
    ultimately show ?thesis using rg(3) False by (simp add: tick_in_range_def)
  qed
  then show x: "tick_in_range x" and d: "if a_to_b then x \<le> ?t else ?t < x" by (auto split: if_splits)
  have tr: "if a_to_b then tick_in_range ?t else tick_in_range (?t + 1)"
    using \<open>tick_in_range x \<and> _\<close> tp by (auto simp: tick_in_range_def tick_price_ok_def split: if_splits)
  have pv: "unat p = price_val x" using sqrt_price_Inr_val [OF p x] .
  show "if a_to_b then p \<le> ?p else ?p \<le> p"
  proof (cases a_to_b)
    case True
    then have "price_val x \<le> price_val ?t" using price_val_le_iff [OF x] tr d by simp
    then show ?thesis using True tp tr pv
      by (auto simp: tick_price_ok_def tick_in_range_def word_le_nat_alt)
  next
    case False
    then have "price_val (?t + 1) \<le> price_val x" using price_val_le_iff [OF _ x] tr d by simp
    then show ?thesis using False tp tr pv
      by (auto simp: tick_price_ok_def tick_in_range_def word_le_nat_alt)
  qed
qed

lemma tick_of_price_ok:
  assumes "tick_index_from_sqrt_price p = Inr t" "price_in_range p"
  shows "tick_price_ok t p"
  using tick_of_price [OF assms(2)] assms(1) by (auto simp: tick_price_ok_def tick_in_range_def)

text \<open>
  One round: the invariant is kept, what remains only shrinks, the price moves towards the limit,
  and unless the swap is over a tick has been passed.
\<close>

lemma swap_step_inv:
  assumes inv: "swap_inv (wp_tick_spacing w) limit a_to_b st" and run: "swap_running limit st"
    and limit: "price_in_range limit" and r: "swap_step w limit inp a_to_b infos st = Inr st'"
  shows "swap_inv (wp_tick_spacing w) limit a_to_b st'"
    "sw_amount_remaining st' \<le> sw_amount_remaining st"
    "if a_to_b then sw_sqrt_price st' \<le> sw_sqrt_price st else sw_sqrt_price st \<le> sw_sqrt_price st'"
    "swap_running limit st' \<Longrightarrow> ticks_left a_to_b st' < ticks_left a_to_b st"
proof -
  let ?s = "wp_tick_spacing w" and ?p = "sw_sqrt_price st"
  obtain j x p t c rem m pf g st2 where
    nx: "get_next_initialized_tick_index (sw_sequence st) (sw_tick_index st) ?s a_to_b (sw_array_index st) = Inr (j, x)"
    and p: "sqrt_price_from_tick_index x = Inr p" and t: "t = (if a_to_b then max limit p else min limit p)"
    and c: "compute_swap (sw_amount_remaining st) (wp_fee_rate w) (sw_liquidity st) ?p t inp a_to_b = Inr c"
    and am: "step_amounts inp c (sw_amount_remaining st) (sw_amount_calculated st) = Inr (rem, m)"
    and st2: "(if next_price c = p then cross_next_tick w a_to_b infos j x
         (st\<lparr>sw_amount_remaining := rem, sw_amount_calculated := m, sw_protocol_fee := pf,
             sw_fee_growth_global_input := g\<rparr>)
      else if next_price c \<noteq> ?p
      then and_then (tick_index_from_sqrt_price (next_price c)) (\<lambda>i.
        Inr (st\<lparr>sw_amount_remaining := rem, sw_amount_calculated := m, sw_protocol_fee := pf,
                sw_fee_growth_global_input := g, sw_tick_index := i\<rparr>))
      else Inr (st\<lparr>sw_amount_remaining := rem, sw_amount_calculated := m, sw_protocol_fee := pf,
                   sw_fee_growth_global_input := g\<rparr>)) = Inr st2"
    and st': "st' = st2\<lparr>sw_sqrt_price := next_price c\<rparr>"
    by (rule swap_step_Inr [OF r], rule that)
  have sq: "sequence_ok ?s (sw_sequence st)" and tp: "tick_price_ok (sw_tick_index st) ?p"
    and pr: "price_in_range ?p" and lp: "if a_to_b then limit \<le> ?p else ?p \<le> limit"
    using inv run by (auto simp: swap_inv_def swap_running_def)
  note nt = next_tick_direction [OF inv run limit nx p]
  have dir: "if a_to_b then t \<le> ?p else ?p \<le> t" using nt(3) lp by (auto simp: t split: if_splits)
  note cs = compute_swap_fixed [OF c dir]
  have way: "on_the_way a_to_b ?p (next_price c) t" by (rule cs(1))
  then have np: "if a_to_b then limit \<le> next_price c \<and> next_price c \<le> ?p else ?p \<le> next_price c \<and> next_price c \<le> limit"
    by (auto simp: on_the_way_def t)
  then have npr: "price_in_range (next_price c)"
    using limit pr by (auto simp: price_in_range_def split: if_splits)
  have keep: "sw_amount_remaining st2 = rem" "sequence_ok ?s (sw_sequence st2)"
    using st2 cross_next_tick_fields [of w a_to_b infos j x _ st2] sq
    by (auto simp: and_then_Inr_iff split: if_splits)
  show "sw_amount_remaining st' \<le> sw_amount_remaining st"
    using am keep by (auto simp: step_amounts_Inr st' word_le_nat_alt split: if_splits)
  show "if a_to_b then sw_sqrt_price st' \<le> ?p else ?p \<le> sw_sqrt_price st'"
    using np by (auto simp: st' split: if_splits)
  have over: "rem = 0" if "next_price c \<noteq> t"
  proof -
    have "unat rem = 0"
      using cs(6) [OF that] am by (auto simp: step_amounts_Inr split: if_splits)
    then show ?thesis by simp
  qed
  have crossed: "sw_tick_index st2 = (if a_to_b then x - 1 else x)" if "next_price c = p"
    using st2 that cross_next_tick_fields(2) [of w a_to_b infos j x _ st2] sq nt(1)
    by (auto simp: to_i32_id tick_in_range_def MIN_TICK_INDEX_def MAX_TICK_INDEX_def split: if_splits)
  have mm: "MIN_TICK_INDEX < MAX_TICK_INDEX" by (simp add: MIN_TICK_INDEX_def MAX_TICK_INDEX_def)
  have px: "unat p = price_val x" by (rule sqrt_price_Inr_val [OF p nt(1)])
  have border: "tick_price_ok (sw_tick_index st2) (next_price c)" if a: "next_price c = p"
  proof (cases a_to_b)
    case True
    have "MIN_TICK_INDEX \<le> x - 1 \<Longrightarrow> price_val (x - 1) < price_val x"
      using nt(1) price_val_less_iff [of "x - 1" x] by (simp add: tick_in_range_def)
    then show ?thesis using crossed [OF a] True nt(1) px a
      by (auto simp: tick_price_ok_def tick_in_range_def)
  next
    case False
    have "x < MAX_TICK_INDEX \<Longrightarrow> price_val x < price_val (x + 1)"
      using nt(1) price_val_less_iff [of x "x + 1"] by (simp add: tick_in_range_def)
    then show ?thesis using crossed [OF a] False nt(1) px a
      by (auto simp: tick_price_ok_def tick_in_range_def)
  qed
  have "tick_price_ok (sw_tick_index st2) (next_price c)"
  proof (cases "next_price c = p")
    case False
    then show ?thesis using st2 tp tick_of_price_ok [OF _ npr]
      by (cases "next_price c = ?p") (auto simp: and_then_Inr_iff)
  qed (rule border)
  then show "swap_inv ?s limit a_to_b st'"
    using keep npr np by (auto simp: swap_inv_def st' split: if_splits)
  assume "swap_running limit st'"
  then have "rem \<noteq> 0" "next_price c \<noteq> limit" using keep by (auto simp: swap_running_def st')
  then have "next_price c = p" using over t by (auto simp: max_def min_def split: if_splits)
  then show "ticks_left a_to_b st' < ticks_left a_to_b st"
    using crossed nt(1,2) tp by (auto simp: ticks_left_def st' tick_in_range_def)
qed

section \<open>The loop returns\<close>

lemma swap_loop_returns:
  assumes "price_in_range limit"
  shows "swap_inv (wp_tick_spacing w) limit a_to_b st \<Longrightarrow>
    \<exists>r. swap_loop w limit inp a_to_b infos st = Some r \<and>
      (\<forall>st'. r = Inr st' \<longrightarrow> swap_inv (wp_tick_spacing w) limit a_to_b st' \<and> \<not> swap_running limit st'
        \<and> sw_amount_remaining st' \<le> sw_amount_remaining st
        \<and> (if a_to_b then sw_sqrt_price st' \<le> sw_sqrt_price st else sw_sqrt_price st \<le> sw_sqrt_price st'))"
proof (induction "if swap_running limit st then Suc (ticks_left a_to_b st) else 0" arbitrary: st rule: less_induct)
  case less
  show ?case
  proof (cases "swap_running limit st")
    case False
    then show ?thesis using less.prems
      by (subst swap_loop.simps) (auto simp: swap_running_def)
  next
    case True
    show ?thesis
    proof (cases "swap_step w limit inp a_to_b infos st")
      case (Inl e)
      then show ?thesis using True by (subst swap_loop.simps) (simp add: swap_running_def)
    next
      case (Inr st1)
      note step = swap_step_inv [OF less.prems True assms Inr]
      have lt: "(if swap_running limit st1 then Suc (ticks_left a_to_b st1) else 0)
          < (if swap_running limit st then Suc (ticks_left a_to_b st) else 0)"
        using step(4) True by simp
      obtain r where r: "swap_loop w limit inp a_to_b infos st1 = Some r"
        "\<And>st'. r = Inr st' \<Longrightarrow> swap_inv (wp_tick_spacing w) limit a_to_b st' \<and> \<not> swap_running limit st'
          \<and> sw_amount_remaining st' \<le> sw_amount_remaining st1
          \<and> (if a_to_b then sw_sqrt_price st' \<le> sw_sqrt_price st1 else sw_sqrt_price st1 \<le> sw_sqrt_price st')"
        using less.hyps [OF lt step(1)] by blast
      have "swap_loop w limit inp a_to_b infos st = Some r"
        using True Inr r(1) by (subst swap_loop.simps) (simp add: swap_running_def)
      then show ?thesis using r(2) step(2,3) by (auto intro: order_trans split: if_splits)
    qed
  qed
qed

text \<open>A pool whose price is within the range of prices and belongs to its tick.\<close>

definition pool_ok :: "Whirlpool \<Rightarrow> bool" where
  "pool_ok w \<longleftrightarrow> price_in_range (wp_sqrt_price w) \<and> tick_price_ok (wp_tick_current_index w) (wp_sqrt_price w)"

lemma swap_start_inv:
  assumes "pool_ok w" "sequence_ok (wp_tick_spacing w) arrays"
    and "swap_checks w amount limit a_to_b ts = Inr infos"
  shows "swap_inv (wp_tick_spacing w) limit a_to_b (swap_start w arrays amount a_to_b)" "price_in_range limit"
  using assms
  by (auto simp: swap_inv_def swap_start_def pool_ok_def swap_checks_def price_in_range_def not_less split: if_splits)

lemma swap_returns:
  assumes "pool_ok w" "sequence_ok (wp_tick_spacing w) arrays"
  shows "\<exists>r. swap w arrays amount limit inp a_to_b ts = Some r"
proof (cases "swap_checks w amount limit a_to_b ts")
  case (Inl e)
  then show ?thesis by (simp add: swap_def)
next
  case (Inr infos)
  note i = swap_start_inv [OF assms Inr]
  obtain r where "swap_loop w limit inp a_to_b infos (swap_start w arrays amount a_to_b) = Some r"
    using swap_loop_returns [OF i(2,1)] by blast
  then show ?thesis using Inr by (cases r) (auto simp: swap_def)
qed

lemma swap_Inr:
  assumes "pool_ok w" "sequence_ok (wp_tick_spacing w) arrays"
    and "swap w arrays amount limit inp a_to_b ts = Some (Inr (u, arrays'))"
  obtains infos st where "swap_checks w amount limit a_to_b ts = Inr infos"
    "swap_loop w limit inp a_to_b infos (swap_start w arrays amount a_to_b) = Some (Inr st)"
    "u = swap_finish amount inp a_to_b infos st" "arrays' = sw_sequence st"
    "swap_inv (wp_tick_spacing w) limit a_to_b st" "\<not> swap_running limit st"
    "sw_amount_remaining st \<le> amount"
    "if a_to_b then sw_sqrt_price st \<le> wp_sqrt_price w else wp_sqrt_price w \<le> sw_sqrt_price st"
proof -
  obtain infos st where c: "swap_checks w amount limit a_to_b ts = Inr infos"
    and l: "swap_loop w limit inp a_to_b infos (swap_start w arrays amount a_to_b) = Some (Inr st)"
    and u: "u = swap_finish amount inp a_to_b infos st" "arrays' = sw_sequence st"
    using assms(3) by (auto simp: swap_def split: sum.splits option.splits)
  note i = swap_start_inv [OF assms(1,2) c]
  show thesis
    using swap_loop_returns [OF i(2,1), of inp infos] l
    by (intro that [OF c l u]) (auto simp: swap_start_def)
qed

text \<open>
  What a swap promises its caller: the price ends between the limit and where it started, the
  amount traded of the fixed token does not exceed the amount asked for, and falls short of it only
  when the price has reached the limit.
\<close>

definition fixed_traded :: "bool \<Rightarrow> bool \<Rightarrow> PostSwapUpdate \<Rightarrow> u64" where
  "fixed_traded inp a_to_b u = (if a_to_b = inp then ps_amount_a u else ps_amount_b u)"

lemma swap_respects_limits:
  assumes ok: "pool_ok w" "sequence_ok (wp_tick_spacing w) arrays"
    and r: "swap w arrays amount limit inp a_to_b ts = Some (Inr (u, arrays'))"
  shows "on_the_way a_to_b (wp_sqrt_price w) (ps_next_sqrt_price u) limit"
    "price_in_range (ps_next_sqrt_price u)"
    "fixed_traded inp a_to_b u \<le> amount"
    "fixed_traded inp a_to_b u = amount \<or> ps_next_sqrt_price u = limit"
    "tick_price_ok (ps_next_tick_index u) (ps_next_sqrt_price u)"
    "sequence_ok (wp_tick_spacing w) arrays'"
proof -
  obtain infos st where u: "u = swap_finish amount inp a_to_b infos st" "arrays' = sw_sequence st"
    and i: "swap_inv (wp_tick_spacing w) limit a_to_b st" "\<not> swap_running limit st"
    and a: "sw_amount_remaining st \<le> amount"
    and p: "if a_to_b then sw_sqrt_price st \<le> wp_sqrt_price w else wp_sqrt_price w \<le> sw_sqrt_price st"
    by (rule swap_Inr [OF assms], rule that)
  have f: "fixed_traded inp a_to_b u = amount - sw_amount_remaining st" "ps_next_sqrt_price u = sw_sqrt_price st"
    "ps_next_tick_index u = sw_tick_index st"
    by (simp_all add: u fixed_traded_def swap_finish_def case_prod_beta)
  show "on_the_way a_to_b (wp_sqrt_price w) (ps_next_sqrt_price u) limit"
    using i(1) p by (auto simp: f on_the_way_def swap_inv_def)
  show "price_in_range (ps_next_sqrt_price u)" "tick_price_ok (ps_next_tick_index u) (ps_next_sqrt_price u)"
    "sequence_ok (wp_tick_spacing w) arrays'"
    using i(1) f(2,3) u(2) by (simp_all add: swap_inv_def)
  have "unat (amount - sw_amount_remaining st) = unat amount - unat (sw_amount_remaining st)"
    using a by (simp add: unat_sub)
  then show "fixed_traded inp a_to_b u \<le> amount" by (simp add: f word_le_nat_alt)
  show "fixed_traded inp a_to_b u = amount \<or> ps_next_sqrt_price u = limit"
    using i(2) by (auto simp: f swap_running_def word_gt_0)
qed

text \<open>A swap changes ticks only: the arrays stay those of the same pool, at the same start ticks.\<close>

definition array_ids :: "SwapTickSequence \<Rightarrow> (pubkey \<times> i32) list" where
  "array_ids arrays = map (\<lambda>ta. (ta_whirlpool ta, ta_start_tick_index ta)) arrays"

lemma sequence_update_tick_ids:
  "sequence_update_tick arrays i t s u = Inr arrays' \<Longrightarrow> array_ids arrays' = array_ids arrays"
  by (auto simp: sequence_update_tick_def arrays_get_def update_tick_def array_ids_def map_update and_then_Inr_iff
    intro!: list_update_same_conv [THEN iffD2] split: if_splits)

lemma cross_next_tick_ids:
  "cross_next_tick w a_to_b infos j x st = Inr st' \<Longrightarrow>
    array_ids (sw_sequence st') = array_ids (sw_sequence st)"
  by (erule cross_next_tick_Inr) (auto simp: crossed_state_def dest: sequence_update_tick_ids)

lemma swap_step_ids:
  "swap_step w limit inp a_to_b infos st = Inr st' \<Longrightarrow>
    array_ids (sw_sequence st') = array_ids (sw_sequence st)"
  by (erule swap_step_Inr) (auto simp: and_then_Inr_iff split: if_splits dest!: cross_next_tick_ids)

text \<open>What every step keeps holds of the state that the loop returns.\<close>

lemma swap_loop_keeps:
  assumes "swap_loop w limit inp a_to_b infos st = Some r" and "P st" and "r = Inr st'"
    and step: "\<And>st st'. swap_running limit st \<Longrightarrow> P st \<Longrightarrow> swap_step w limit inp a_to_b infos st = Inr st' \<Longrightarrow> P st'"
  shows "P st'"
proof -
  have "(\<forall>st st'. swap_running limit st \<longrightarrow> P st \<longrightarrow> swap_step w limit inp a_to_b infos st = Inr st' \<longrightarrow> P st')
      \<longrightarrow> P st \<longrightarrow> r = Inr st' \<longrightarrow> P st'"
  proof (induction w limit inp a_to_b infos st r rule: swap_loop.raw_induct)
    case (1 loop w limit inp a_to_b infos st r)
    show ?case
    proof (intro impI)
      assume step: "\<forall>st st'. swap_running limit st \<longrightarrow> P st \<longrightarrow> swap_step w limit inp a_to_b infos st = Inr st' \<longrightarrow> P st'"
        and p: "P st" and r: "r = Inr st'"
      show "P st'"
      proof (cases "swap_running limit st")
        case False
        then show ?thesis using 1(2) p r by (auto simp: swap_running_def)
      next
        case True
        then obtain st1 where st1: "swap_step w limit inp a_to_b infos st = Inr st1"
          and l: "loop w limit inp a_to_b infos st1 = Some r"
          using 1(2) r by (auto simp: swap_running_def split: sum.splits)
        show ?thesis using 1(1) [OF l] step p r True st1 by blast
      qed
    qed
  qed (rule assms(1))
  then show ?thesis using assms(2,3) step by blast
qed

lemma swap_loop_ids:
  assumes "swap_loop w limit inp a_to_b infos st = Some (Inr st')"
  shows "array_ids (sw_sequence st') = array_ids (sw_sequence st)"
  by (rule swap_loop_keeps [OF assms, where P = "\<lambda>st'. array_ids (sw_sequence st') = array_ids (sw_sequence st)"])
    (auto dest: swap_step_ids)

lemma swap_ids:
  "swap w arrays amount limit inp a_to_b ts = Some (Inr (u, arrays')) \<Longrightarrow> array_ids arrays' = array_ids arrays"
  using swap_loop_ids by (fastforce simp: swap_def swap_start_def split: sum.splits option.splits)

section \<open>What a swap reads of the pool\<close>

definition swap_view ::
  "Whirlpool \<Rightarrow> (u16 \<times> u16 \<times> u16 \<times> u128 \<times> u128 \<times> i32) \<times> u128 \<times> u128 \<times> u64 \<times> WhirlpoolRewardInfo arr3" where
  "swap_view w = ((wp_tick_spacing w, wp_fee_rate w, wp_protocol_fee_rate w, wp_liquidity w, wp_sqrt_price w,
     wp_tick_current_index w), wp_fee_growth_global_a w, wp_fee_growth_global_b w,
     wp_reward_last_updated_timestamp w, wp_reward_infos w)"

lemma swap_view_eqs:
  assumes "swap_view w' = swap_view w"
  shows "wp_tick_spacing w' = wp_tick_spacing w" "wp_fee_rate w' = wp_fee_rate w"
    "wp_protocol_fee_rate w' = wp_protocol_fee_rate w" "wp_liquidity w' = wp_liquidity w"
    "wp_sqrt_price w' = wp_sqrt_price w" "wp_tick_current_index w' = wp_tick_current_index w"
    "wp_fee_growth_global_a w' = wp_fee_growth_global_a w" "wp_fee_growth_global_b w' = wp_fee_growth_global_b w"
    "wp_reward_last_updated_timestamp w' = wp_reward_last_updated_timestamp w"
    "wp_reward_infos w' = wp_reward_infos w"
  using assms by (simp_all add: swap_view_def)

lemma swap_step_view:
  assumes "swap_view w' = swap_view w"
  shows "swap_step w' limit inp a_to_b infos st = swap_step w limit inp a_to_b infos st"
  unfolding swap_step_def cross_next_tick_def swap_view_eqs [OF assms] ..

lemma swap_loop_view_Some:
  assumes "swap_loop w limit inp a_to_b infos st = Some r" "swap_view w' = swap_view w"
  shows "swap_loop w' limit inp a_to_b infos st = Some r"
proof -
  have "swap_view w' = swap_view w \<longrightarrow> swap_loop w' limit inp a_to_b infos st = Some r"
  proof (induction w limit inp a_to_b infos st r rule: swap_loop.raw_induct)
    case (1 loop w limit inp a_to_b infos st r)
    show ?case
    proof
      assume v: "swap_view w' = swap_view w"
      show "swap_loop w' limit inp a_to_b infos st = Some r"
        using 1 v by (subst swap_loop.simps) (auto simp: swap_step_view [OF v] split: if_splits sum.splits)
    qed
  qed (rule assms(1))
  then show ?thesis using assms(2) by blast
qed

lemma swap_loop_view:
  assumes "swap_view w' = swap_view w"
  shows "swap_loop w' limit inp a_to_b infos st = swap_loop w limit inp a_to_b infos st"
  using swap_loop_view_Some [OF _ assms] swap_loop_view_Some [OF _ assms [symmetric]]
  by (metis not_Some_eq)

lemma swap_reads_view:
  assumes v: "swap_view w' = swap_view w"
  shows "swap w' = swap w"
proof (intro ext)
  fix arrays amount limit inp a_to_b ts
  have c: "swap_checks w' amount limit a_to_b ts = swap_checks w amount limit a_to_b ts"
    unfolding swap_checks_def next_whirlpool_reward_infos_def swap_view_eqs [OF v] ..
  have s: "swap_start w' arrays amount a_to_b = swap_start w arrays amount a_to_b"
    unfolding swap_start_def swap_view_eqs [OF v] ..
  show "swap w' arrays amount limit inp a_to_b ts = swap w arrays amount limit inp a_to_b ts"
    unfolding swap_def c s swap_loop_view [OF v] ..
qed

end
