(* ===== verification/Samples.thy ===== *)
theory Samples
  imports Liquidity_Manager Swap_Manager
begin

text \<open>
  A concrete pool with its tick arrays and one position, on which the properties are exercised: the
  price is one (\<open>2 ^ 64\<close>, tick zero), the tick spacing 64, the fee rate 0.3 percent.
\<close>

definition sample_pool :: Whirlpool where
  "sample_pool = default_whirlpool\<lparr>wp_is_enabled := True, wp_tick_spacing := 64, wp_fee_rate := 3000,
     wp_protocol_fee_rate := 300, wp_liquidity := 1000000000000, wp_sqrt_price := 18446744073709551616,
     wp_tick_current_index := 0, wp_token_mint_a := Pubkey 1, wp_token_vault_a := Pubkey 2,
     wp_token_mint_b := Pubkey 3, wp_token_vault_b := Pubkey 4\<rparr>"

definition empty_array :: "i32 \<Rightarrow> TickArray" where
  "empty_array t = default_tick_array\<lparr>ta_whirlpool := Pubkey 9, ta_start_tick_index := t\<rparr>"

lemma empty_array_ok: "ticks_in_array 64 dvd t \<Longrightarrow> MIN_TICK_INDEX \<le> t \<Longrightarrow> t \<le> MAX_TICK_INDEX
    \<Longrightarrow> tick_array_ok 64 (empty_array t)"
  by (simp add: tick_array_ok_def empty_array_def default_tick_array_def default_tick_def
      TICK_ARRAY_SIZE_USIZE_def ticks_in_array_def TICK_ARRAY_SIZE_def)

lemma sample_sequence_ok: "sequence_ok 64 [empty_array 0, empty_array 5632]"
  by (simp add: sequence_ok_def empty_array_ok ticks_in_array_def TICK_ARRAY_SIZE_def MIN_TICK_INDEX_def
      MAX_TICK_INDEX_def)

lemma price_eq: "tick_in_range t \<Longrightarrow> price_val t = unat p \<Longrightarrow> sqrt_price_from_tick_index t = Inr p"
  using sqrt_price_val [of t] by (auto simp: word_eq_iff_unat)

lemma positive_prices [simp]:
  "price_val 0 = 18446744073709551616" "price_val 1 = 18447666387855959850"
  "price_val 11263 = 32395182592301051927"
  by (simp_all add: price_val_def positive_ratio_def positive_factors_def positive_tick_table_def)

lemma sample_pool_ok: "pool_ok sample_pool"
  by (simp add: pool_ok_def sample_pool_def tick_price_ok_def price_in_range_def tick_in_range_def
      MIN_TICK_INDEX_def MAX_TICK_INDEX_def MIN_SQRT_PRICE_X64_def MAX_SQRT_PRICE_X64_def)

lemma sample_pool_fields [simp]:
  "wp_tick_spacing sample_pool = 64" "wp_fee_rate sample_pool = 3000"
  "wp_protocol_fee_rate sample_pool = 300" "wp_liquidity sample_pool = 1000000000000"
  "wp_sqrt_price sample_pool = 18446744073709551616" "wp_tick_current_index sample_pool = 0"
  "wp_fee_growth_global_a sample_pool = 0" "wp_fee_growth_global_b sample_pool = 0"
  by (simp_all add: sample_pool_def default_whirlpool_def)

section \<open>One trade, step by step\<close>

abbreviation sample_arrays :: SwapTickSequence where
  "sample_arrays \<equiv> [empty_array 0, empty_array 5632]"

definition sample_update :: PostSwapUpdate where
  "sample_update = \<lparr>ps_amount_a = 996999, ps_amount_b = 1000000, ps_next_liquidity = 1000000000000,
     ps_next_tick_index = 0, ps_next_sqrt_price = 18446762465113393104,
     ps_next_fee_growth_global = 53680025254, ps_next_reward_infos = wp_reward_infos sample_pool,
     ps_next_protocol_fee = 90\<rparr>"

lemma empty_search:
  assumes "tick_array_ok 64 (empty_array t)" "in_search_range (empty_array t) x 64 (\<not> a_to_b)"
  shows "array_get_next_init_tick_index (empty_array t) x 64 a_to_b = Inr None"
proof -
  have none: "\<not> initialized_at 64 (empty_array t) y" for y
    by (auto simp: initialized_at_def empty_array_def default_tick_array_def default_tick_def
        TICK_ARRAY_SIZE_USIZE_def)
  obtain r where r: "array_get_next_init_tick_index (empty_array t) x 64 a_to_b = Inr r"
    using array_search_returns(1) [OF assms] by blast
  then show ?thesis
    using array_search_correct [OF assms(1) r] none by (cases r) (auto simp: next_initialized_def)
qed

lemma empty_array_start [simp]: "ta_start_tick_index (empty_array t) = t"
  by (simp add: empty_array_def)

lemma sample_search: "get_next_initialized_tick_index sample_arrays 0 64 False 0 = Inr (1, 11263)"
proof -
  have "array_get_next_init_tick_index (empty_array 0) 0 64 False = Inr None"
    "array_get_next_init_tick_index (empty_array 5632) 5631 64 False = Inr None"
    using sample_sequence_ok
    by (auto intro!: empty_search simp: sequence_ok_def in_search_range_eq ticks_in_array_def TICK_ARRAY_SIZE_def)
  then show ?thesis
    by (simp add: get_next_initialized_tick_index_def sequence_search_loop.simps is_max_tick_array_def
        to_i32_id TICK_ARRAY_SIZE_def MAX_TICK_INDEX_def Let_def)
qed

lemma sample_target: "sqrt_price_from_tick_index 11263 = Inr 32395182592301051927"
  by (rule price_eq) (simp_all add: tick_in_range_def MIN_TICK_INDEX_def MAX_TICK_INDEX_def)

lemma get_amount_delta_a_eq:
  assumes "p \<noteq> 0" "q \<noteq> 0" "unat l * (max (unat p) (unat q) - min (unat p) (unat q)) < 2 ^ 128"
    and "amount_a up (unat p) (unat q) (unat l) = unat r"
  shows "get_amount_delta_a p q l up = Inr r"
  using get_amount_delta_a_returns [OF assms(1-3), of up] get_amount_delta_a_Inr(3) [of p q l up]
    unat_u64_less [of r] assms(4) by (auto simp: word_eq_iff_unat)

lemma sample_amount_out:
  "get_amount_delta_a 18446744073709551616 18446762465113393104 1000000000000 False = Inr 996999"
  by (rule get_amount_delta_a_eq) (simp_all add: amount_a_def round_div_def)

lemma sample_amounts_in:
  "get_amount_delta_b 18446744073709551616 32395182592301051927 1000000000000 True = Inr 756146367232"
  "get_amount_delta_b 18446744073709551616 18446762465113393104 1000000000000 True = Inr 997000"
  "checked_mul_div 1000000 997000 1000000 = Inr 997000"
  by code_simp+

lemma sample_price:
  "get_next_sqrt_price 18446744073709551616 1000000000000 997000 True False = Inr 18446762465113393104"
  by code_simp

lemma sample_compute: "compute_swap 1000000 3000 1000000000000 18446744073709551616 32395182592301051927 True False
    = Inr \<lparr>amount_in = 997000, amount_out = 996999, next_price = 18446762465113393104, fee_amount = 3000\<rparr>"
  by (simp add: compute_swap_def get_amount_fixed_delta_def get_amount_unfixed_delta_def sample_amount_out
      sample_amounts_in sample_price FEE_RATE_MUL_VALUE_def try_into_u64_def)

lemma sample_fees: "calculate_fees 3000 300 1000000000000 0 0 = Inr (90, 53680025254)"
  by code_simp

lemma sample_index: "tick_index_from_sqrt_price 18446762465113393104 = Inr 0"
  by code_simp

lemma sample_checks:
  "swap_checks sample_pool 1000000 79226673515401279992447579055 False 0 = Inr (wp_reward_infos sample_pool)"
  by code_simp

lemma sample_swap:
  "swap sample_pool sample_arrays 1000000 79226673515401279992447579055 True False 0
     = Some (Inr (sample_update, sample_arrays))"
  by (simp add: swap_def sample_checks swap_loop.simps swap_step_def swap_start_def get_next_sqrt_prices_def
      sample_search sample_target sample_compute sample_fees
      sample_index step_amounts_def checked_sub_def checked_add_def swap_finish_def sample_update_def)

end
