(* ===== verification/Accounts.thy ===== *)
theory Accounts
  imports State_Position Liquidity_Manager
begin

text \<open>
  What an instruction runs on.  The accounts of the program are a \<open>ledger\<close>: one map per kind of
  account, from the key to the data (the \<open>#[account]\<close> structs of \<open>state/\<close>), and the state of the
  token program, which is opaque.  The runtime and the token program are not part of the
  repository: the operations the code calls are the fields of the record \<open>runtime\<close>, a parameter of
  every definition that uses one.  A transaction is the set of keys that signed it and the clock.

  The attributes of the \<open>#[derive(Accounts)]\<close> structs are the checks \<open>has_one\<close>, \<open>constraint\<close>,
  \<open>address\<close>, \<open>signer\<close> and \<open>pda\<close>; loading an account of the wrong kind fails with the code of the
  framework.  Also here: \<open>util/util.rs\<close> (the authority over a position, the clock) and the calls to
  the token program of \<open>util/token.rs\<close>.

  Rent, lamports and whether an account was passed as writable are not modelled, and the accounts
  of the system, token and metadata programs are not arguments: each is checked against a constant
  address that the model takes for granted.
\<close>

section \<open>The environment\<close>

record TokenAccount =
  tok_mint :: pubkey
  tok_owner :: pubkey
  tok_amount :: u64
  tok_delegate :: "pubkey option"
  tok_delegated_amount :: u64

record Mint =
  mint_decimals :: u8

record 't runtime =
  rt_token_account :: "'t \<Rightarrow> pubkey \<Rightarrow> TokenAccount option"
  rt_mint :: "'t \<Rightarrow> pubkey \<Rightarrow> Mint option"
  rt_transfer :: "'t \<Rightarrow> pubkey \<Rightarrow> pubkey \<Rightarrow> pubkey \<Rightarrow> u64 \<Rightarrow> 't result"
  rt_burn_checked :: "'t \<Rightarrow> pubkey \<Rightarrow> pubkey \<Rightarrow> pubkey \<Rightarrow> u64 \<Rightarrow> u8 \<Rightarrow> 't result"
  rt_close_account :: "'t \<Rightarrow> pubkey \<Rightarrow> pubkey \<Rightarrow> pubkey \<Rightarrow> 't result"
  rt_mint_to :: "'t \<Rightarrow> pubkey \<Rightarrow> pubkey \<Rightarrow> pubkey \<Rightarrow> u64 \<Rightarrow> 't result"
  rt_set_mint_authority :: "'t \<Rightarrow> pubkey \<Rightarrow> pubkey option \<Rightarrow> pubkey \<Rightarrow> 't result"
  rt_create_metadata :: "'t \<Rightarrow> pubkey \<Rightarrow> pubkey \<Rightarrow> pubkey \<Rightarrow> pubkey \<Rightarrow> pubkey \<Rightarrow> 't result"
  rt_init_mint :: "'t \<Rightarrow> pubkey \<Rightarrow> pubkey \<Rightarrow> u8 \<Rightarrow> 't result"
  rt_init_token_account :: "'t \<Rightarrow> pubkey \<Rightarrow> pubkey \<Rightarrow> pubkey \<Rightarrow> 't result"
  rt_init_associated_token :: "'t \<Rightarrow> pubkey \<Rightarrow> pubkey \<Rightarrow> pubkey \<Rightarrow> 't result"
  rt_find_address :: "seed list \<Rightarrow> pubkey \<times> u8"
  rt_create_address :: "seed list \<Rightarrow> pubkey option"

record tx =
  tx_signer :: "pubkey \<Rightarrow> bool"
  tx_unix_timestamp :: i64

record 't ledger =
  lg_configs :: "pubkey \<Rightarrow> WhirlpoolsConfig option"
  lg_fee_tiers :: "pubkey \<Rightarrow> FeeTier option"
  lg_pools :: "pubkey \<Rightarrow> Whirlpool option"
  lg_positions :: "pubkey \<Rightarrow> Position option"
  lg_arrays :: tick_arrays
  lg_tokens :: 't

section \<open>Loading, checking and storing accounts\<close>

definition account :: "(pubkey \<Rightarrow> 'a option) \<Rightarrow> pubkey \<Rightarrow> 'a result" where
  "account accounts key = (case accounts key of None \<Rightarrow> Inl (ProgramErr 3012) | Some a \<Rightarrow> Inr a)"

definition signer :: "tx \<Rightarrow> pubkey \<Rightarrow> unit result" where
  "signer tx key = reject_if (\<not> tx_signer tx key) (Constraint ConstraintSigner)"

definition has_one :: "pubkey \<Rightarrow> pubkey \<Rightarrow> unit result" where
  "has_one stored key = reject_if (stored \<noteq> key) (Constraint ConstraintHasOne)"

definition address :: "pubkey \<Rightarrow> pubkey \<Rightarrow> unit result" where
  "address key expected = reject_if (key \<noteq> expected) (Constraint ConstraintAddress)"

definition raw_constraint :: "bool \<Rightarrow> unit result" where
  "raw_constraint ok = reject_if (\<not> ok) (Constraint ConstraintRaw)"

text \<open>\<open>seeds = [..], bump\<close>: the canonical address; with \<open>bump = b\<close> on a new account, its bump too.\<close>

definition pda :: "'t runtime \<Rightarrow> seed list \<Rightarrow> pubkey \<Rightarrow> unit result" where
  "pda rt seeds key = reject_if (key \<noteq> fst (rt_find_address rt seeds)) (Constraint ConstraintSeeds)"

definition pda_with_bump :: "'t runtime \<Rightarrow> seed list \<Rightarrow> u8 \<Rightarrow> pubkey \<Rightarrow> unit result" where
  "pda_with_bump rt seeds bump key =
     reject_if ((key, bump) \<noteq> rt_find_address rt seeds) (Constraint ConstraintSeeds)"

text \<open>\<open>init\<close>: the runtime creates the account, which it refuses at an address that is in use.\<close>

definition unused :: "'t runtime \<Rightarrow> 't ledger \<Rightarrow> pubkey \<Rightarrow> bool" where
  "unused rt lg key \<longleftrightarrow> lg_configs lg key = None \<and> lg_fee_tiers lg key = None \<and> lg_pools lg key = None
     \<and> lg_positions lg key = None \<and> lg_arrays lg key = None
     \<and> rt_token_account rt (lg_tokens lg) key = None \<and> rt_mint rt (lg_tokens lg) key = None"

definition create :: "'t runtime \<Rightarrow> 't ledger \<Rightarrow> pubkey \<Rightarrow> unit result" where
  "create rt lg key = reject_if (\<not> unused rt lg key) Refused"

abbreviation token_account :: "'t runtime \<Rightarrow> 't ledger \<Rightarrow> pubkey \<Rightarrow> TokenAccount result" where
  "token_account rt lg key \<equiv> account (rt_token_account rt (lg_tokens lg)) key"

abbreviation mint_account :: "'t runtime \<Rightarrow> 't ledger \<Rightarrow> pubkey \<Rightarrow> Mint result" where
  "mint_account rt lg key \<equiv> account (rt_mint rt (lg_tokens lg)) key"

text \<open>\<open>start_tick_index.to_string()\<close>, a seed of the address of a tick array.\<close>

definition to_string :: "i32 \<Rightarrow> string" where
  "to_string x = (if x < 0 then CHR ''-'' # decimal (- x) else decimal x)"

text \<open>Different start ticks give different seeds.\<close>

lemma to_string_inj: "to_string x = to_string y \<longleftrightarrow> x = y"
proof -
  have "CHR ''-'' # s \<noteq> decimal n" if "0 \<le> n" for s n
  proof
    assume "CHR ''-'' # s = decimal n"
    then have "(48 :: nat) \<le> of_char CHR ''-''" using decimal_digits [OF that] by (metis list.set_intros(1))
    then show False by simp
  qed
  then show ?thesis by (auto simp: to_string_def decimal_inj dest: sym)
qed

section \<open>The authority over a position, and the clock\<close>

definition validate_owner :: "tx \<Rightarrow> pubkey \<Rightarrow> pubkey \<Rightarrow> unit result" where
  "validate_owner tx expected_owner owner_key =
     reject_if (expected_owner \<noteq> owner_key \<or> \<not> tx_signer tx owner_key) (Err MissingOrInvalidDelegate)"

definition verify_position_authority :: "tx \<Rightarrow> TokenAccount \<Rightarrow> pubkey \<Rightarrow> unit result" where
  "verify_position_authority tx position_token_account position_authority =
     (if tok_delegate position_token_account = Some position_authority then
        and_then (validate_owner tx position_authority position_authority) (\<lambda>_.
        reject_if (tok_delegated_amount position_token_account \<noteq> 1) (Err InvalidPositionTokenAmount))
      else validate_owner tx (tok_owner position_token_account) position_authority)"

definition to_timestamp_u64 :: "i64 \<Rightarrow> u64 result" where
  "to_timestamp_u64 t = (if t < 0 then Inl (Err InvalidTimestampConversion) else Inr (of_int t))"

section \<open>Calls to the token program\<close>

text \<open>\<open>invoke_signed\<close> with the seeds of a pool signs for the address that the seeds derive.\<close>

definition signed_by_pool :: "'t runtime \<Rightarrow> pubkey \<Rightarrow> Whirlpool \<Rightarrow> unit result" where
  "signed_by_pool rt key whirlpool =
     reject_if (rt_create_address rt (whirlpool_seeds whirlpool) \<noteq> Some key) Refused"

definition transfer_from_owner_to_vault ::
  "'t runtime \<Rightarrow> pubkey \<Rightarrow> pubkey \<Rightarrow> pubkey \<Rightarrow> u64 \<Rightarrow> 't \<Rightarrow> 't result" where
  "transfer_from_owner_to_vault rt position_authority token_owner_account token_vault amount tokens =
     rt_transfer rt tokens token_owner_account token_vault position_authority amount"

definition transfer_from_vault_to_owner ::
  "'t runtime \<Rightarrow> pubkey \<times> Whirlpool \<Rightarrow> pubkey \<Rightarrow> pubkey \<Rightarrow> u64 \<Rightarrow> 't \<Rightarrow> 't result" where
  "transfer_from_vault_to_owner rt whirlpool token_vault token_owner_account amount tokens =
     and_then (signed_by_pool rt (fst whirlpool) (snd whirlpool)) (\<lambda>_.
     rt_transfer rt tokens token_vault token_owner_account (fst whirlpool) amount)"

definition burn_and_close_user_position_token ::
  "'t runtime \<Rightarrow> pubkey \<Rightarrow> pubkey \<Rightarrow> pubkey \<times> Mint \<Rightarrow> pubkey \<Rightarrow> 't \<Rightarrow> 't result" where
  "burn_and_close_user_position_token rt token_authority receiver position_mint position_token_account tokens =
     and_then (rt_burn_checked rt tokens position_token_account (fst position_mint) token_authority 1
                 (mint_decimals (snd position_mint))) (\<lambda>tokens.
     rt_close_account rt tokens position_token_account receiver token_authority)"

definition mint_position_token ::
  "'t runtime \<Rightarrow> pubkey \<times> Whirlpool \<Rightarrow> pubkey \<Rightarrow> pubkey \<Rightarrow> 't \<Rightarrow> 't result" where
  "mint_position_token rt whirlpool position_mint position_token_account tokens =
     and_then (signed_by_pool rt (fst whirlpool) (snd whirlpool)) (\<lambda>_.
     rt_mint_to rt tokens position_mint position_token_account (fst whirlpool) 1)"

definition remove_position_token_mint_authority ::
  "'t runtime \<Rightarrow> pubkey \<times> Whirlpool \<Rightarrow> pubkey \<Rightarrow> 't \<Rightarrow> 't result" where
  "remove_position_token_mint_authority rt whirlpool position_mint tokens =
     and_then (signed_by_pool rt (fst whirlpool) (snd whirlpool)) (\<lambda>_.
     rt_set_mint_authority rt tokens position_mint None (fst whirlpool))"

definition mint_position_token_and_remove_authority ::
  "'t runtime \<Rightarrow> pubkey \<times> Whirlpool \<Rightarrow> pubkey \<Rightarrow> pubkey \<Rightarrow> 't \<Rightarrow> 't result" where
  "mint_position_token_and_remove_authority rt whirlpool position_mint position_token_account tokens =
     and_then (mint_position_token rt whirlpool position_mint position_token_account tokens) (\<lambda>tokens.
     remove_position_token_mint_authority rt whirlpool position_mint tokens)"

definition mint_position_token_with_metadata_and_remove_authority ::
  "'t runtime \<Rightarrow> pubkey \<times> Whirlpool \<Rightarrow> pubkey \<Rightarrow> pubkey \<Rightarrow> pubkey \<Rightarrow> pubkey \<Rightarrow> pubkey \<Rightarrow> 't \<Rightarrow> 't result" where
  "mint_position_token_with_metadata_and_remove_authority rt whirlpool position_mint
     position_token_account position_metadata_account metadata_update_auth funder tokens =
     and_then (mint_position_token rt whirlpool position_mint position_token_account tokens) (\<lambda>tokens.
     and_then (signed_by_pool rt (fst whirlpool) (snd whirlpool)) (\<lambda>_.
     and_then (rt_create_metadata rt tokens position_metadata_account position_mint (fst whirlpool)
                 funder metadata_update_auth) (\<lambda>tokens.
     remove_position_token_mint_authority rt whirlpool position_mint tokens)))"

section \<open>Inversion of the checks\<close>

text \<open>
  An instruction that succeeded passed every one of its checks.  With the rules for the sequencing of
  fallible computations these turn a handler's success into the conjunction of its checks.
\<close>

named_theorems handler_iffs \<open>when a check succeeds\<close>

lemmas [handler_iffs] = ok_iffs

lemma account_Inr_iff [handler_iffs]: "account m key = Inr a \<longleftrightarrow> m key = Some a"
  by (auto simp: account_def split: option.splits)

lemma key_checks_Inr_iff [handler_iffs]:
  "signer tx key = Inr u \<longleftrightarrow> tx_signer tx key"
  "has_one stored key = Inr u \<longleftrightarrow> stored = key"
  "address key expected = Inr u \<longleftrightarrow> key = expected"
  "raw_constraint ok = Inr u \<longleftrightarrow> ok"
  "pda rt seeds key = Inr u \<longleftrightarrow> key = fst (rt_find_address rt seeds)"
  "pda_with_bump rt seeds bump key = Inr u \<longleftrightarrow> (key, bump) = rt_find_address rt seeds"
  "create rt lg key = Inr u \<longleftrightarrow> unused rt lg key"
  "signed_by_pool rt key w = Inr u \<longleftrightarrow> rt_create_address rt (whirlpool_seeds w) = Some key"
  by (auto simp: signer_def has_one_def address_def raw_constraint_def pda_def pda_with_bump_def create_def
    signed_by_pool_def reject_if_Inr_iff)

definition position_authority_ok :: "tx \<Rightarrow> TokenAccount \<Rightarrow> pubkey \<Rightarrow> bool" where
  "position_authority_ok tx position_token_account authority \<longleftrightarrow> tx_signer tx authority \<and>
     (if tok_delegate position_token_account = Some authority then tok_delegated_amount position_token_account = 1
      else tok_owner position_token_account = authority)"

lemma verify_position_authority_Inr_iff [handler_iffs]:
  "verify_position_authority tx ta authority = Inr u \<longleftrightarrow> position_authority_ok tx ta authority"
  by (auto simp: verify_position_authority_def validate_owner_def position_authority_ok_def ok_iffs)

lemma to_timestamp_u64_Inr_iff [handler_iffs]:
  "to_timestamp_u64 t = Inr x \<longleftrightarrow> 0 \<le> t \<and> x = of_int t"
  by (auto simp: to_timestamp_u64_def)

end
