(* ===== verification/Instr_Config.thy ===== *)
theory Instr_Config
  imports Accounts
begin

text \<open>
  The instructions on configurations and fee tiers: \<open>initialize_config\<close>, \<open>initialize_fee_tier\<close> and
  the instructions that replace an authority or a default rate.  Each instruction has the record of
  the keys it is given (the \<open>Accounts\<close> struct) and one definition, which loads and checks the
  accounts in the order of the struct and then runs the handler.
\<close>

record InitializeConfig =
  ic_config :: pubkey
  ic_funder :: pubkey

definition initialize_config ::
  "'t runtime \<Rightarrow> tx \<Rightarrow> InitializeConfig \<Rightarrow> pubkey \<Rightarrow> pubkey \<Rightarrow> pubkey \<Rightarrow> pubkey \<Rightarrow> u16 \<Rightarrow> 't ledger
   \<Rightarrow> 't ledger result" where
  "initialize_config rt tx acc fee_authority collect_protocol_fees_authority
     reward_emissions_super_authority pool_creator_authority default_protocol_fee_rate lg =
     and_then (signer tx (ic_funder acc)) (\<lambda>_.
     and_then (signer tx (ic_config acc)) (\<lambda>_.
     and_then (create rt lg (ic_config acc)) (\<lambda>_.
     and_then (config_initialize default_config fee_authority collect_protocol_fees_authority
                 reward_emissions_super_authority pool_creator_authority default_protocol_fee_rate)
       (\<lambda>config.
     Inr (lg\<lparr>lg_configs := (lg_configs lg)(ic_config acc \<mapsto> config)\<rparr>)))))"

record InitializeFeeTier =
  ift_config :: pubkey
  ift_fee_tier :: pubkey
  ift_funder :: pubkey
  ift_fee_authority :: pubkey

definition u16_seed :: "u16 \<Rightarrow> seed" where
  "u16_seed x = Seed_bytes [fst (to_le_bytes x), snd (to_le_bytes x)]"

definition initialize_fee_tier ::
  "'t runtime \<Rightarrow> tx \<Rightarrow> InitializeFeeTier \<Rightarrow> u16 \<Rightarrow> u16 \<Rightarrow> 't ledger \<Rightarrow> 't ledger result" where
  "initialize_fee_tier rt tx acc tick_spacing default_fee_rate lg =
     and_then (account (lg_configs lg) (ift_config acc)) (\<lambda>config.
     and_then (signer tx (ift_funder acc)) (\<lambda>_.
     and_then (signer tx (ift_fee_authority acc)) (\<lambda>_.
     and_then (pda rt [Seed_text ''fee_tier'', Seed_key (ift_config acc), u16_seed tick_spacing]
                 (ift_fee_tier acc)) (\<lambda>_.
     and_then (create rt lg (ift_fee_tier acc)) (\<lambda>_.
     and_then (address (ift_fee_authority acc) (cfg_fee_authority config)) (\<lambda>_.
     and_then (fee_tier_initialize default_fee_tier (ift_config acc) tick_spacing default_fee_rate)
       (\<lambda>fee_tier.
     Inr (lg\<lparr>lg_fee_tiers := (lg_fee_tiers lg)(ift_fee_tier acc \<mapsto> fee_tier)\<rparr>))))))))"

section \<open>Replacing an authority\<close>

record SetFeeAuthority =
  sfa_whirlpools_config :: pubkey
  sfa_fee_authority :: pubkey
  sfa_new_fee_authority :: pubkey

definition set_fee_authority :: "tx \<Rightarrow> SetFeeAuthority \<Rightarrow> 't ledger \<Rightarrow> 't ledger result" where
  "set_fee_authority tx acc lg =
     and_then (account (lg_configs lg) (sfa_whirlpools_config acc)) (\<lambda>config.
     and_then (signer tx (sfa_fee_authority acc)) (\<lambda>_.
     and_then (address (sfa_fee_authority acc) (cfg_fee_authority config)) (\<lambda>_.
     Inr (lg\<lparr>lg_configs := (lg_configs lg)
       (sfa_whirlpools_config acc \<mapsto> update_fee_authority config (sfa_new_fee_authority acc))\<rparr>))))"

record SetCollectProtocolFeesAuthority =
  scpfa_whirlpools_config :: pubkey
  scpfa_collect_protocol_fees_authority :: pubkey
  scpfa_new_collect_protocol_fees_authority :: pubkey

definition set_collect_protocol_fees_authority ::
  "tx \<Rightarrow> SetCollectProtocolFeesAuthority \<Rightarrow> 't ledger \<Rightarrow> 't ledger result" where
  "set_collect_protocol_fees_authority tx acc lg =
     and_then (account (lg_configs lg) (scpfa_whirlpools_config acc)) (\<lambda>config.
     and_then (signer tx (scpfa_collect_protocol_fees_authority acc)) (\<lambda>_.
     and_then (address (scpfa_collect_protocol_fees_authority acc)
                 (cfg_collect_protocol_fees_authority config)) (\<lambda>_.
     Inr (lg\<lparr>lg_configs := (lg_configs lg)
       (scpfa_whirlpools_config acc \<mapsto> update_collect_protocol_fees_authority config
          (scpfa_new_collect_protocol_fees_authority acc))\<rparr>))))"

record SetPoolCreatorAuthority =
  spca_whirlpools_config :: pubkey
  spca_pool_creator_authority :: pubkey
  spca_new_pool_creator_authority :: pubkey

definition set_pool_creator_authority :: "tx \<Rightarrow> SetPoolCreatorAuthority \<Rightarrow> 't ledger \<Rightarrow> 't ledger result" where
  "set_pool_creator_authority tx acc lg =
     and_then (account (lg_configs lg) (spca_whirlpools_config acc)) (\<lambda>config.
     and_then (signer tx (spca_pool_creator_authority acc)) (\<lambda>_.
     and_then (address (spca_pool_creator_authority acc) (cfg_pool_creator_authority config)) (\<lambda>_.
     Inr (lg\<lparr>lg_configs := (lg_configs lg)
       (spca_whirlpools_config acc \<mapsto> update_pool_creator_authority config
          (spca_new_pool_creator_authority acc))\<rparr>))))"

record SetRewardEmissionsSuperAuthority =
  sresa_whirlpools_config :: pubkey
  sresa_reward_emissions_super_authority :: pubkey
  sresa_new_reward_emissions_super_authority :: pubkey

definition set_reward_emissions_super_authority ::
  "tx \<Rightarrow> SetRewardEmissionsSuperAuthority \<Rightarrow> 't ledger \<Rightarrow> 't ledger result" where
  "set_reward_emissions_super_authority tx acc lg =
     and_then (account (lg_configs lg) (sresa_whirlpools_config acc)) (\<lambda>config.
     and_then (signer tx (sresa_reward_emissions_super_authority acc)) (\<lambda>_.
     and_then (address (sresa_reward_emissions_super_authority acc)
                 (cfg_reward_emissions_super_authority config)) (\<lambda>_.
     Inr (lg\<lparr>lg_configs := (lg_configs lg)
       (sresa_whirlpools_config acc \<mapsto> update_reward_emissions_super_authority config
          (sresa_new_reward_emissions_super_authority acc))\<rparr>))))"

section \<open>Replacing a default rate\<close>

record SetDefaultFeeRate =
  sdfr_whirlpools_config :: pubkey
  sdfr_fee_tier :: pubkey
  sdfr_fee_authority :: pubkey

definition set_default_fee_rate :: "tx \<Rightarrow> SetDefaultFeeRate \<Rightarrow> u16 \<Rightarrow> 't ledger \<Rightarrow> 't ledger result" where
  "set_default_fee_rate tx acc default_fee_rate lg =
     and_then (account (lg_configs lg) (sdfr_whirlpools_config acc)) (\<lambda>config.
     and_then (account (lg_fee_tiers lg) (sdfr_fee_tier acc)) (\<lambda>fee_tier.
     and_then (signer tx (sdfr_fee_authority acc)) (\<lambda>_.
     and_then (has_one (ft_whirlpools_config fee_tier) (sdfr_whirlpools_config acc)) (\<lambda>_.
     and_then (address (sdfr_fee_authority acc) (cfg_fee_authority config)) (\<lambda>_.
     and_then (update_default_fee_rate fee_tier default_fee_rate) (\<lambda>fee_tier.
     Inr (lg\<lparr>lg_fee_tiers := (lg_fee_tiers lg)(sdfr_fee_tier acc \<mapsto> fee_tier)\<rparr>)))))))"

record SetDefaultProtocolFeeRate =
  sdpfr_whirlpools_config :: pubkey
  sdpfr_fee_authority :: pubkey

definition set_default_protocol_fee_rate ::
  "tx \<Rightarrow> SetDefaultProtocolFeeRate \<Rightarrow> u16 \<Rightarrow> 't ledger \<Rightarrow> 't ledger result" where
  "set_default_protocol_fee_rate tx acc default_protocol_fee_rate lg =
     and_then (account (lg_configs lg) (sdpfr_whirlpools_config acc)) (\<lambda>config.
     and_then (signer tx (sdpfr_fee_authority acc)) (\<lambda>_.
     and_then (address (sdpfr_fee_authority acc) (cfg_fee_authority config)) (\<lambda>_.
     and_then (update_default_protocol_fee_rate config default_protocol_fee_rate) (\<lambda>config.
     Inr (lg\<lparr>lg_configs := (lg_configs lg)(sdpfr_whirlpools_config acc \<mapsto> config)\<rparr>)))))"

end
