(* ===== verification/Instr_Pool.thy ===== *)
theory Instr_Pool
  imports Instr_Config
begin

text \<open>
  The instructions on a pool as a whole: creating it, its tick arrays and its rewards, its rates, its
  enable flag, the authorities and emissions of its rewards, and collecting the protocol's fees.
\<close>

section \<open>Creating a pool\<close>

record InitializePool =
  ip_whirlpools_config :: pubkey
  ip_token_mint_a :: pubkey
  ip_token_mint_b :: pubkey
  ip_funder :: pubkey
  ip_whirlpool :: pubkey
  ip_token_vault_a :: pubkey
  ip_token_vault_b :: pubkey
  ip_fee_tier :: pubkey

record WhirlpoolBumps =
  whirlpool_bump :: u8

text \<open>\<open>init, token::mint = mint, token::authority = authority\<close> on an account that signs for itself.\<close>

definition create_token_account ::
  "'t runtime \<Rightarrow> tx \<Rightarrow> 't ledger \<Rightarrow> pubkey \<Rightarrow> pubkey \<Rightarrow> pubkey \<Rightarrow> 't ledger result" where
  "create_token_account rt tx lg key mint authority =
     and_then (signer tx key) (\<lambda>_.
     and_then (create rt lg key) (\<lambda>_.
     and_then (rt_init_token_account rt (lg_tokens lg) key mint authority) (\<lambda>tokens.
     Inr (lg\<lparr>lg_tokens := tokens\<rparr>))))"

definition initialize_pool ::
  "'t runtime \<Rightarrow> tx \<Rightarrow> InitializePool \<Rightarrow> WhirlpoolBumps \<Rightarrow> u16 \<Rightarrow> u128 \<Rightarrow> 't ledger \<Rightarrow> 't ledger result" where
  "initialize_pool rt tx acc bumps tick_spacing initial_sqrt_price lg =
     and_then (account (lg_configs lg) (ip_whirlpools_config acc)) (\<lambda>whirlpools_config.
     and_then (mint_account rt lg (ip_token_mint_a acc)) (\<lambda>_.
     and_then (mint_account rt lg (ip_token_mint_b acc)) (\<lambda>_.
     and_then (signer tx (ip_funder acc)) (\<lambda>_.
     and_then (account (lg_fee_tiers lg) (ip_fee_tier acc)) (\<lambda>fee_tier.
     and_then (pda_with_bump rt [Seed_text ''whirlpool'', Seed_key (ip_whirlpools_config acc),
                 Seed_key (ip_token_mint_a acc), Seed_key (ip_token_mint_b acc), u16_seed tick_spacing]
                 (whirlpool_bump bumps) (ip_whirlpool acc)) (\<lambda>_.
     and_then (create rt lg (ip_whirlpool acc)) (\<lambda>_.
     let lg = lg\<lparr>lg_pools := (lg_pools lg)(ip_whirlpool acc \<mapsto> default_whirlpool)\<rparr> in
     and_then (create_token_account rt tx lg (ip_token_vault_a acc) (ip_token_mint_a acc) (ip_whirlpool acc))
       (\<lambda>lg.
     and_then (create_token_account rt tx lg (ip_token_vault_b acc) (ip_token_mint_b acc) (ip_whirlpool acc))
       (\<lambda>lg.
     and_then (has_one (ft_whirlpools_config fee_tier) (ip_whirlpools_config acc)) (\<lambda>_.
     let default_fee_rate = ft_default_fee_rate fee_tier in
     and_then (whirlpool_initialize default_whirlpool (ip_whirlpools_config acc, whirlpools_config)
                 (whirlpool_bump bumps) tick_spacing initial_sqrt_price default_fee_rate
                 (ip_token_mint_a acc) (ip_token_vault_a acc) (ip_token_mint_b acc) (ip_token_vault_b acc))
       (\<lambda>whirlpool.
     Inr (lg\<lparr>lg_pools := (lg_pools lg)(ip_whirlpool acc \<mapsto> whirlpool)\<rparr>))))))))))))"

record InitializeTickArray =
  ita_whirlpool :: pubkey
  ita_funder :: pubkey
  ita_tick_array :: pubkey

definition initialize_tick_array ::
  "'t runtime \<Rightarrow> tx \<Rightarrow> InitializeTickArray \<Rightarrow> i32 \<Rightarrow> 't ledger \<Rightarrow> 't ledger result" where
  "initialize_tick_array rt tx acc start_tick_index lg =
     and_then (account (lg_pools lg) (ita_whirlpool acc)) (\<lambda>whirlpool.
     and_then (signer tx (ita_funder acc)) (\<lambda>_.
     and_then (pda rt [Seed_text ''tick_array'', Seed_key (ita_whirlpool acc),
                 Seed_text (to_string start_tick_index)] (ita_tick_array acc)) (\<lambda>_.
     and_then (create rt lg (ita_tick_array acc)) (\<lambda>_.
     and_then (tick_array_initialize default_tick_array (ita_whirlpool acc) (wp_tick_spacing whirlpool)
                 start_tick_index) (\<lambda>tick_array.
     Inr (lg\<lparr>lg_arrays := (lg_arrays lg)(ita_tick_array acc \<mapsto> tick_array)\<rparr>))))))"

section \<open>Rates and the enable flag\<close>

record SetFeeRate =
  sfr_whirlpools_config :: pubkey
  sfr_whirlpool :: pubkey
  sfr_fee_authority :: pubkey

definition set_fee_rate :: "tx \<Rightarrow> SetFeeRate \<Rightarrow> u16 \<Rightarrow> 't ledger \<Rightarrow> 't ledger result" where
  "set_fee_rate tx acc fee_rate lg =
     and_then (account (lg_configs lg) (sfr_whirlpools_config acc)) (\<lambda>config.
     and_then (account (lg_pools lg) (sfr_whirlpool acc)) (\<lambda>whirlpool.
     and_then (signer tx (sfr_fee_authority acc)) (\<lambda>_.
     and_then (has_one (wp_whirlpools_config whirlpool) (sfr_whirlpools_config acc)) (\<lambda>_.
     and_then (address (sfr_fee_authority acc) (cfg_fee_authority config)) (\<lambda>_.
     and_then (update_fee_rate whirlpool fee_rate) (\<lambda>whirlpool.
     Inr (lg\<lparr>lg_pools := (lg_pools lg)(sfr_whirlpool acc \<mapsto> whirlpool)\<rparr>)))))))"

record SetProtocolFeeRate =
  spfr_whirlpools_config :: pubkey
  spfr_whirlpool :: pubkey
  spfr_fee_authority :: pubkey

definition set_protocol_fee_rate :: "tx \<Rightarrow> SetProtocolFeeRate \<Rightarrow> u16 \<Rightarrow> 't ledger \<Rightarrow> 't ledger result" where
  "set_protocol_fee_rate tx acc protocol_fee_rate lg =
     and_then (account (lg_configs lg) (spfr_whirlpools_config acc)) (\<lambda>config.
     and_then (account (lg_pools lg) (spfr_whirlpool acc)) (\<lambda>whirlpool.
     and_then (signer tx (spfr_fee_authority acc)) (\<lambda>_.
     and_then (has_one (wp_whirlpools_config whirlpool) (spfr_whirlpools_config acc)) (\<lambda>_.
     and_then (address (spfr_fee_authority acc) (cfg_fee_authority config)) (\<lambda>_.
     and_then (update_protocol_fee_rate whirlpool protocol_fee_rate) (\<lambda>whirlpool.
     Inr (lg\<lparr>lg_pools := (lg_pools lg)(spfr_whirlpool acc \<mapsto> whirlpool)\<rparr>)))))))"

record SetEnableFlag =
  sef_whirlpools_config :: pubkey
  sef_whirlpool :: pubkey
  sef_pool_creator_authority :: pubkey

definition set_enable_flag :: "tx \<Rightarrow> SetEnableFlag \<Rightarrow> bool \<Rightarrow> 't ledger \<Rightarrow> 't ledger result" where
  "set_enable_flag tx acc is_enabled lg =
     and_then (account (lg_configs lg) (sef_whirlpools_config acc)) (\<lambda>config.
     and_then (account (lg_pools lg) (sef_whirlpool acc)) (\<lambda>whirlpool.
     and_then (signer tx (sef_pool_creator_authority acc)) (\<lambda>_.
     and_then (has_one (wp_whirlpools_config whirlpool) (sef_whirlpools_config acc)) (\<lambda>_.
     and_then (address (sef_pool_creator_authority acc) (cfg_pool_creator_authority config)) (\<lambda>_.
     Inr (lg\<lparr>lg_pools := (lg_pools lg)
       (sef_whirlpool acc \<mapsto> whirlpool_set_enable_flag whirlpool is_enabled)\<rparr>))))))"

section \<open>Rewards\<close>

record InitializeReward =
  ir_reward_authority :: pubkey
  ir_funder :: pubkey
  ir_whirlpool :: pubkey
  ir_reward_mint :: pubkey
  ir_reward_vault :: pubkey

definition initialize_reward ::
  "'t runtime \<Rightarrow> tx \<Rightarrow> InitializeReward \<Rightarrow> u8 \<Rightarrow> 't ledger \<Rightarrow> 't ledger result" where
  "initialize_reward rt tx acc reward_index lg =
     and_then (signer tx (ir_reward_authority acc)) (\<lambda>_.
     and_then (signer tx (ir_funder acc)) (\<lambda>_.
     and_then (account (lg_pools lg) (ir_whirlpool acc)) (\<lambda>whirlpool.
     and_then (mint_account rt lg (ir_reward_mint acc)) (\<lambda>_.
     and_then (create_token_account rt tx lg (ir_reward_vault acc) (ir_reward_mint acc) (ir_whirlpool acc))
       (\<lambda>lg.
     and_then (arr3_get (wp_reward_infos whirlpool) (unat reward_index)) (\<lambda>reward_info.
     and_then (address (ir_reward_authority acc) (ri_authority reward_info)) (\<lambda>_.
     and_then (whirlpool_initialize_reward whirlpool (unat reward_index) (ir_reward_mint acc)
                 (ir_reward_vault acc)) (\<lambda>whirlpool.
     Inr (lg\<lparr>lg_pools := (lg_pools lg)(ir_whirlpool acc \<mapsto> whirlpool)\<rparr>)))))))))"

record SetRewardAuthority =
  sra_whirlpool :: pubkey
  sra_reward_authority :: pubkey
  sra_new_reward_authority :: pubkey

definition set_reward_authority :: "tx \<Rightarrow> SetRewardAuthority \<Rightarrow> u8 \<Rightarrow> 't ledger \<Rightarrow> 't ledger result" where
  "set_reward_authority tx acc reward_index lg =
     and_then (account (lg_pools lg) (sra_whirlpool acc)) (\<lambda>whirlpool.
     and_then (signer tx (sra_reward_authority acc)) (\<lambda>_.
     and_then (arr3_get (wp_reward_infos whirlpool) (unat reward_index)) (\<lambda>reward_info.
     and_then (address (sra_reward_authority acc) (ri_authority reward_info)) (\<lambda>_.
     and_then (update_reward_authority whirlpool (unat reward_index) (sra_new_reward_authority acc))
       (\<lambda>whirlpool.
     Inr (lg\<lparr>lg_pools := (lg_pools lg)(sra_whirlpool acc \<mapsto> whirlpool)\<rparr>))))))"

record SetRewardAuthorityBySuperAuthority =
  srasa_whirlpools_config :: pubkey
  srasa_whirlpool :: pubkey
  srasa_reward_emissions_super_authority :: pubkey
  srasa_new_reward_authority :: pubkey

definition set_reward_authority_by_super_authority ::
  "tx \<Rightarrow> SetRewardAuthorityBySuperAuthority \<Rightarrow> u8 \<Rightarrow> 't ledger \<Rightarrow> 't ledger result" where
  "set_reward_authority_by_super_authority tx acc reward_index lg =
     and_then (account (lg_configs lg) (srasa_whirlpools_config acc)) (\<lambda>config.
     and_then (account (lg_pools lg) (srasa_whirlpool acc)) (\<lambda>whirlpool.
     and_then (signer tx (srasa_reward_emissions_super_authority acc)) (\<lambda>_.
     and_then (has_one (wp_whirlpools_config whirlpool) (srasa_whirlpools_config acc)) (\<lambda>_.
     and_then (address (srasa_reward_emissions_super_authority acc)
                 (cfg_reward_emissions_super_authority config)) (\<lambda>_.
     and_then (update_reward_authority whirlpool (unat reward_index) (srasa_new_reward_authority acc))
       (\<lambda>whirlpool.
     Inr (lg\<lparr>lg_pools := (lg_pools lg)(srasa_whirlpool acc \<mapsto> whirlpool)\<rparr>)))))))"

definition DAY_IN_SECONDS :: u128 where "DAY_IN_SECONDS = 60 * 60 * 24"

record SetRewardEmissions =
  sre_whirlpool :: pubkey
  sre_reward_authority :: pubkey
  sre_reward_vault :: pubkey

definition set_reward_emissions ::
  "'t runtime \<Rightarrow> tx \<Rightarrow> SetRewardEmissions \<Rightarrow> u8 \<Rightarrow> u128 \<Rightarrow> 't ledger \<Rightarrow> 't ledger result" where
  "set_reward_emissions rt tx acc reward_index emissions_per_second_x64 lg =
     and_then (account (lg_pools lg) (sre_whirlpool acc)) (\<lambda>whirlpool.
     and_then (signer tx (sre_reward_authority acc)) (\<lambda>_.
     and_then (token_account rt lg (sre_reward_vault acc)) (\<lambda>reward_vault.
     and_then (arr3_get (wp_reward_infos whirlpool) (unat reward_index)) (\<lambda>reward_info.
     and_then (address (sre_reward_authority acc) (ri_authority reward_info)) (\<lambda>_.
     and_then (address (sre_reward_vault acc) (ri_vault reward_info)) (\<lambda>_.
     and_then (checked_mul_shift_right DAY_IN_SECONDS emissions_per_second_x64) (\<lambda>emissions_per_day.
     and_then (reject_if (tok_amount reward_vault < emissions_per_day) (Err RewardVaultAmountInsufficient)) (\<lambda>_.
     and_then (to_timestamp_u64 (tx_unix_timestamp tx)) (\<lambda>timestamp.
     and_then (next_whirlpool_reward_infos whirlpool timestamp) (\<lambda>next_reward_infos.
     and_then (update_emissions whirlpool (unat reward_index) next_reward_infos timestamp
                 emissions_per_second_x64) (\<lambda>whirlpool.
     Inr (lg\<lparr>lg_pools := (lg_pools lg)(sre_whirlpool acc \<mapsto> whirlpool)\<rparr>))))))))))))"

section \<open>Collecting the protocol's fees\<close>

record CollectProtocolFees =
  cpf_whirlpools_config :: pubkey
  cpf_whirlpool :: pubkey
  cpf_collect_protocol_fees_authority :: pubkey
  cpf_token_vault_a :: pubkey
  cpf_token_vault_b :: pubkey
  cpf_token_destination_a :: pubkey
  cpf_token_destination_b :: pubkey

definition collect_protocol_fees ::
  "'t runtime \<Rightarrow> tx \<Rightarrow> CollectProtocolFees \<Rightarrow> 't ledger \<Rightarrow> 't ledger result" where
  "collect_protocol_fees rt tx acc lg =
     and_then (account (lg_configs lg) (cpf_whirlpools_config acc)) (\<lambda>config.
     and_then (account (lg_pools lg) (cpf_whirlpool acc)) (\<lambda>whirlpool.
     and_then (signer tx (cpf_collect_protocol_fees_authority acc)) (\<lambda>_.
     and_then (token_account rt lg (cpf_token_vault_a acc)) (\<lambda>_.
     and_then (token_account rt lg (cpf_token_vault_b acc)) (\<lambda>_.
     and_then (token_account rt lg (cpf_token_destination_a acc)) (\<lambda>token_destination_a.
     and_then (token_account rt lg (cpf_token_destination_b acc)) (\<lambda>token_destination_b.
     and_then (has_one (wp_whirlpools_config whirlpool) (cpf_whirlpools_config acc)) (\<lambda>_.
     and_then (address (cpf_collect_protocol_fees_authority acc)
                 (cfg_collect_protocol_fees_authority config)) (\<lambda>_.
     and_then (address (cpf_token_vault_a acc) (wp_token_vault_a whirlpool)) (\<lambda>_.
     and_then (address (cpf_token_vault_b acc) (wp_token_vault_b whirlpool)) (\<lambda>_.
     and_then (raw_constraint (tok_mint token_destination_a = wp_token_mint_a whirlpool)) (\<lambda>_.
     and_then (raw_constraint (tok_mint token_destination_b = wp_token_mint_b whirlpool)) (\<lambda>_.
     and_then (transfer_from_vault_to_owner rt (cpf_whirlpool acc, whirlpool) (cpf_token_vault_a acc)
                 (cpf_token_destination_a acc) (wp_protocol_fee_owed_a whirlpool) (lg_tokens lg)) (\<lambda>tokens.
     and_then (transfer_from_vault_to_owner rt (cpf_whirlpool acc, whirlpool) (cpf_token_vault_b acc)
                 (cpf_token_destination_b acc) (wp_protocol_fee_owed_b whirlpool) tokens) (\<lambda>tokens.
     Inr (lg\<lparr>lg_pools := (lg_pools lg)(cpf_whirlpool acc \<mapsto> reset_protocol_fees_owed whirlpool),
             lg_tokens := tokens\<rparr>))))))))))))))))"

end
