(* ===== verification/Instr_Position.thy ===== *)
theory Instr_Position
  imports Instr_Pool
begin

text \<open>
  The instructions on a position: opening it (with and without metadata), closing it, depositing and
  withdrawing liquidity, settling and collecting its fees and rewards.
\<close>

section \<open>Opening and closing\<close>

record OpenPosition =
  op_funder :: pubkey
  op_owner :: pubkey
  op_position :: pubkey
  op_position_mint :: pubkey
  op_position_token_account :: pubkey
  op_whirlpool :: pubkey

text \<open>
  The accounts that both forms of the instruction create: the position, its mint with the pool as
  authority, and the owner's token account for it.
\<close>

definition create_position_accounts ::
  "'t runtime \<Rightarrow> tx \<Rightarrow> u8 \<Rightarrow> pubkey \<Rightarrow> pubkey \<Rightarrow> pubkey \<Rightarrow> pubkey \<Rightarrow> pubkey \<Rightarrow> 't ledger
   \<Rightarrow> 't ledger result" where
  "create_position_accounts rt tx bump position position_mint position_token_account owner whirlpool lg =
     and_then (pda_with_bump rt [Seed_text ''position'', Seed_key position_mint] bump position) (\<lambda>_.
     and_then (create rt lg position) (\<lambda>_.
     let lg = lg\<lparr>lg_positions := (lg_positions lg)(position \<mapsto> default_position)\<rparr> in
     and_then (signer tx position_mint) (\<lambda>_.
     and_then (create rt lg position_mint) (\<lambda>_.
     and_then (rt_init_mint rt (lg_tokens lg) position_mint whirlpool 0) (\<lambda>tokens.
     let lg = lg\<lparr>lg_tokens := tokens\<rparr> in
     and_then (create rt lg position_token_account) (\<lambda>_.
     and_then (rt_init_associated_token rt (lg_tokens lg) position_token_account position_mint owner)
       (\<lambda>tokens.
     Inr (lg\<lparr>lg_tokens := tokens\<rparr>))))))))"

definition open_position ::
  "'t runtime \<Rightarrow> tx \<Rightarrow> OpenPosition \<Rightarrow> OpenPositionBumps \<Rightarrow> i32 \<Rightarrow> i32 \<Rightarrow> 't ledger \<Rightarrow> 't ledger result" where
  "open_position rt tx acc bumps tick_lower_index tick_upper_index lg =
     and_then (signer tx (op_funder acc)) (\<lambda>_.
     and_then (account (lg_pools lg) (op_whirlpool acc)) (\<lambda>whirlpool.
     and_then (create_position_accounts rt tx (position_bump bumps) (op_position acc) (op_position_mint acc)
                 (op_position_token_account acc) (op_owner acc) (op_whirlpool acc) lg) (\<lambda>lg.
     and_then (require_enabled whirlpool) (\<lambda>_.
     and_then (position_open default_position (op_whirlpool acc) (wp_tick_spacing whirlpool)
                 (op_position_mint acc) tick_lower_index tick_upper_index) (\<lambda>position.
     and_then (mint_position_token_and_remove_authority rt (op_whirlpool acc, whirlpool)
                 (op_position_mint acc) (op_position_token_account acc) (lg_tokens lg)) (\<lambda>tokens.
     Inr (lg\<lparr>lg_positions := (lg_positions lg)(op_position acc \<mapsto> position), lg_tokens := tokens\<rparr>)))))))"

record OpenPositionWithMetadata =
  opm_funder :: pubkey
  opm_owner :: pubkey
  opm_position :: pubkey
  opm_position_mint :: pubkey
  opm_position_metadata_account :: pubkey
  opm_position_token_account :: pubkey
  opm_whirlpool :: pubkey
  opm_metadata_update_auth :: pubkey

text \<open>
  \<open>WP_NFT_UPDATE_AUTH\<close> is an address given in base 58, a parameter of the instruction; the check of
  the metadata program's address is taken for granted with the other programs.
\<close>

definition open_position_with_metadata ::
  "'t runtime \<Rightarrow> tx \<Rightarrow> pubkey \<Rightarrow> OpenPositionWithMetadata \<Rightarrow> OpenPositionWithMetadataBumps \<Rightarrow> i32 \<Rightarrow> i32
   \<Rightarrow> 't ledger \<Rightarrow> 't ledger result" where
  "open_position_with_metadata rt tx WP_NFT_UPDATE_AUTH acc bumps tick_lower_index tick_upper_index lg =
     and_then (signer tx (opm_funder acc)) (\<lambda>_.
     and_then (account (lg_pools lg) (opm_whirlpool acc)) (\<lambda>whirlpool.
     and_then (create_position_accounts rt tx (with_metadata_position_bump bumps) (opm_position acc)
                 (opm_position_mint acc) (opm_position_token_account acc) (opm_owner acc)
                 (opm_whirlpool acc) lg) (\<lambda>lg.
     and_then (address (opm_metadata_update_auth acc) WP_NFT_UPDATE_AUTH) (\<lambda>_.
     and_then (require_enabled whirlpool) (\<lambda>_.
     and_then (position_open default_position (opm_whirlpool acc) (wp_tick_spacing whirlpool)
                 (opm_position_mint acc) tick_lower_index tick_upper_index) (\<lambda>position.
     and_then (mint_position_token_with_metadata_and_remove_authority rt (opm_whirlpool acc, whirlpool)
                 (opm_position_mint acc) (opm_position_token_account acc)
                 (opm_position_metadata_account acc) (opm_metadata_update_auth acc) (opm_funder acc)
                 (lg_tokens lg)) (\<lambda>tokens.
     Inr (lg\<lparr>lg_positions := (lg_positions lg)(opm_position acc \<mapsto> position), lg_tokens := tokens\<rparr>))))))))"

record ClosePosition =
  cp_position_authority :: pubkey
  cp_receiver :: pubkey
  cp_position :: pubkey
  cp_position_mint :: pubkey
  cp_position_token_account :: pubkey
  cp_whirlpool :: pubkey

text \<open>\<open>close = receiver\<close> refuses the account itself as receiver and deletes the account at the end.\<close>

definition close_position :: "'t runtime \<Rightarrow> tx \<Rightarrow> ClosePosition \<Rightarrow> 't ledger \<Rightarrow> 't ledger result" where
  "close_position rt tx acc lg =
     and_then (signer tx (cp_position_authority acc)) (\<lambda>_.
     and_then (account (lg_positions lg) (cp_position acc)) (\<lambda>position.
     and_then (mint_account rt lg (cp_position_mint acc)) (\<lambda>position_mint.
     and_then (token_account rt lg (cp_position_token_account acc)) (\<lambda>position_token_account.
     and_then (account (lg_pools lg) (cp_whirlpool acc)) (\<lambda>whirlpool.
     and_then (reject_if (cp_position acc = cp_receiver acc) (Constraint ConstraintClose)) (\<lambda>_.
     and_then (address (cp_position_mint acc) (pos_position_mint position)) (\<lambda>_.
     and_then (raw_constraint (tok_amount position_token_account = 1)) (\<lambda>_.
     and_then (raw_constraint (tok_mint position_token_account = pos_position_mint position)) (\<lambda>_.
     and_then (address (cp_whirlpool acc) (pos_whirlpool position)) (\<lambda>_.
     and_then (verify_position_authority tx position_token_account (cp_position_authority acc)) (\<lambda>_.
     and_then (reject_if (\<not> is_position_empty position) (Err ClosePositionNotEmpty)) (\<lambda>_.
     and_then (require_enabled whirlpool) (\<lambda>_.
     and_then (burn_and_close_user_position_token rt (cp_position_authority acc) (cp_receiver acc)
                 (cp_position_mint acc, position_mint) (cp_position_token_account acc) (lg_tokens lg)) (\<lambda>tokens.
     Inr (lg\<lparr>lg_positions := (lg_positions lg)(cp_position acc := None), lg_tokens := tokens\<rparr>)))))))))))))))"

section \<open>Deposits and withdrawals\<close>

record ModifyLiquidity =
  mod_whirlpool :: pubkey
  mod_position_authority :: pubkey
  mod_position :: pubkey
  mod_position_token_account :: pubkey
  mod_token_owner_account_a :: pubkey
  mod_token_owner_account_b :: pubkey
  mod_token_vault_a :: pubkey
  mod_token_vault_b :: pubkey
  mod_tick_array_lower :: pubkey
  mod_tick_array_upper :: pubkey

text \<open>The checks of the accounts, shared by both instructions; the result is what the handlers read.\<close>

definition modify_liquidity_accounts ::
  "'t runtime \<Rightarrow> tx \<Rightarrow> ModifyLiquidity \<Rightarrow> 't ledger \<Rightarrow> (Whirlpool \<times> Position \<times> TokenAccount) result" where
  "modify_liquidity_accounts rt tx acc lg =
     and_then (account (lg_pools lg) (mod_whirlpool acc)) (\<lambda>whirlpool.
     and_then (signer tx (mod_position_authority acc)) (\<lambda>_.
     and_then (account (lg_positions lg) (mod_position acc)) (\<lambda>position.
     and_then (token_account rt lg (mod_position_token_account acc)) (\<lambda>position_token_account.
     and_then (token_account rt lg (mod_token_owner_account_a acc)) (\<lambda>token_owner_account_a.
     and_then (token_account rt lg (mod_token_owner_account_b acc)) (\<lambda>token_owner_account_b.
     and_then (token_account rt lg (mod_token_vault_a acc)) (\<lambda>_.
     and_then (token_account rt lg (mod_token_vault_b acc)) (\<lambda>_.
     and_then (account (lg_arrays lg) (mod_tick_array_lower acc)) (\<lambda>tick_array_lower.
     and_then (account (lg_arrays lg) (mod_tick_array_upper acc)) (\<lambda>tick_array_upper.
     and_then (has_one (pos_whirlpool position) (mod_whirlpool acc)) (\<lambda>_.
     and_then (raw_constraint (tok_mint position_token_account = pos_position_mint position)) (\<lambda>_.
     and_then (raw_constraint (tok_amount position_token_account = 1)) (\<lambda>_.
     and_then (raw_constraint (tok_mint token_owner_account_a = wp_token_mint_a whirlpool)) (\<lambda>_.
     and_then (raw_constraint (tok_mint token_owner_account_b = wp_token_mint_b whirlpool)) (\<lambda>_.
     and_then (raw_constraint (mod_token_vault_a acc = wp_token_vault_a whirlpool)) (\<lambda>_.
     and_then (raw_constraint (mod_token_vault_b acc = wp_token_vault_b whirlpool)) (\<lambda>_.
     and_then (has_one (ta_whirlpool tick_array_lower) (mod_whirlpool acc)) (\<lambda>_.
     and_then (has_one (ta_whirlpool tick_array_upper) (mod_whirlpool acc)) (\<lambda>_.
     Inr (whirlpool, position, position_token_account))))))))))))))))))))"

text \<open>
  The part that the two handlers have in common, from the check of the authority to the amounts of
  the two tokens; \<open>positive\<close> tells a deposit from a withdrawal.
\<close>

definition apply_liquidity_change ::
  "tx \<Rightarrow> ModifyLiquidity \<Rightarrow> bool \<Rightarrow> u128 \<Rightarrow> Whirlpool \<times> Position \<times> TokenAccount \<Rightarrow> 't ledger
   \<Rightarrow> ('t ledger \<times> Whirlpool \<times> u64 \<times> u64) result" where
  "apply_liquidity_change tx acc positive liquidity_amount loaded lg =
     (let (whirlpool, position, position_token_account) = loaded in
     and_then (verify_position_authority tx position_token_account (mod_position_authority acc)) (\<lambda>_.
     and_then (require_enabled whirlpool) (\<lambda>_.
     and_then (reject_if (liquidity_amount = 0) (Err LiquidityZero)) (\<lambda>_.
     and_then (convert_to_liquidity_delta liquidity_amount positive) (\<lambda>liquidity_delta.
     and_then (to_timestamp_u64 (tx_unix_timestamp tx)) (\<lambda>timestamp.
     and_then (calculate_modify_liquidity whirlpool position (lg_arrays lg) (mod_tick_array_lower acc)
                 (mod_tick_array_upper acc) liquidity_delta timestamp) (\<lambda>update.
     and_then (sync_modify_liquidity_values whirlpool position (lg_arrays lg) (mod_tick_array_lower acc)
                 (mod_tick_array_upper acc) update timestamp) (\<lambda>(whirlpool, position, arrays).
     and_then (calculate_liquidity_token_deltas (wp_tick_current_index whirlpool) (wp_sqrt_price whirlpool)
                 position liquidity_delta) (\<lambda>(delta_a, delta_b).
     Inr (lg\<lparr>lg_pools := (lg_pools lg)(mod_whirlpool acc \<mapsto> whirlpool),
             lg_positions := (lg_positions lg)(mod_position acc \<mapsto> position), lg_arrays := arrays\<rparr>,
          whirlpool, delta_a, delta_b))))))))))"

definition increase_liquidity ::
  "'t runtime \<Rightarrow> tx \<Rightarrow> ModifyLiquidity \<Rightarrow> u128 \<Rightarrow> u64 \<Rightarrow> u64 \<Rightarrow> 't ledger \<Rightarrow> 't ledger result" where
  "increase_liquidity rt tx acc liquidity_amount token_max_a token_max_b lg =
     and_then (modify_liquidity_accounts rt tx acc lg) (\<lambda>loaded.
     and_then (apply_liquidity_change tx acc True liquidity_amount loaded lg)
       (\<lambda>(lg, whirlpool, delta_a, delta_b).
     and_then (reject_if (delta_a > token_max_a) (Err TokenMaxExceeded)) (\<lambda>_.
     and_then (reject_if (delta_b > token_max_b) (Err TokenMaxExceeded)) (\<lambda>_.
     and_then (transfer_from_owner_to_vault rt (mod_position_authority acc) (mod_token_owner_account_a acc)
                 (mod_token_vault_a acc) delta_a (lg_tokens lg)) (\<lambda>tokens.
     and_then (transfer_from_owner_to_vault rt (mod_position_authority acc) (mod_token_owner_account_b acc)
                 (mod_token_vault_b acc) delta_b tokens) (\<lambda>tokens.
     Inr (lg\<lparr>lg_tokens := tokens\<rparr>)))))))"

definition decrease_liquidity ::
  "'t runtime \<Rightarrow> tx \<Rightarrow> ModifyLiquidity \<Rightarrow> u128 \<Rightarrow> u64 \<Rightarrow> u64 \<Rightarrow> 't ledger \<Rightarrow> 't ledger result" where
  "decrease_liquidity rt tx acc liquidity_amount token_min_a token_min_b lg =
     and_then (modify_liquidity_accounts rt tx acc lg) (\<lambda>loaded.
     and_then (apply_liquidity_change tx acc False liquidity_amount loaded lg)
       (\<lambda>(lg, whirlpool, delta_a, delta_b).
     and_then (reject_if (delta_a < token_min_a) (Err TokenMinSubceeded)) (\<lambda>_.
     and_then (reject_if (delta_b < token_min_b) (Err TokenMinSubceeded)) (\<lambda>_.
     and_then (transfer_from_vault_to_owner rt (mod_whirlpool acc, whirlpool) (mod_token_vault_a acc)
                 (mod_token_owner_account_a acc) delta_a (lg_tokens lg)) (\<lambda>tokens.
     and_then (transfer_from_vault_to_owner rt (mod_whirlpool acc, whirlpool) (mod_token_vault_b acc)
                 (mod_token_owner_account_b acc) delta_b tokens) (\<lambda>tokens.
     Inr (lg\<lparr>lg_tokens := tokens\<rparr>)))))))"

section \<open>Settling and collecting\<close>

record UpdateFeesAndRewards =
  ufr_whirlpool :: pubkey
  ufr_position :: pubkey
  ufr_tick_array_lower :: pubkey
  ufr_tick_array_upper :: pubkey

definition update_fees_and_rewards :: "tx \<Rightarrow> UpdateFeesAndRewards \<Rightarrow> 't ledger \<Rightarrow> 't ledger result" where
  "update_fees_and_rewards tx acc lg =
     and_then (account (lg_pools lg) (ufr_whirlpool acc)) (\<lambda>whirlpool.
     and_then (account (lg_positions lg) (ufr_position acc)) (\<lambda>position.
     and_then (account (lg_arrays lg) (ufr_tick_array_lower acc)) (\<lambda>tick_array_lower.
     and_then (account (lg_arrays lg) (ufr_tick_array_upper acc)) (\<lambda>tick_array_upper.
     and_then (has_one (pos_whirlpool position) (ufr_whirlpool acc)) (\<lambda>_.
     and_then (has_one (ta_whirlpool tick_array_lower) (ufr_whirlpool acc)) (\<lambda>_.
     and_then (has_one (ta_whirlpool tick_array_upper) (ufr_whirlpool acc)) (\<lambda>_.
     and_then (to_timestamp_u64 (tx_unix_timestamp tx)) (\<lambda>timestamp.
     and_then (calculate_fee_and_reward_growths whirlpool position (lg_arrays lg)
                 (ufr_tick_array_lower acc) (ufr_tick_array_upper acc) timestamp)
       (\<lambda>(update, reward_infos).
     Inr (lg\<lparr>lg_pools := (lg_pools lg)(ufr_whirlpool acc \<mapsto> update_rewards whirlpool reward_infos timestamp),
             lg_positions := (lg_positions lg)(ufr_position acc \<mapsto> position_update position update)\<rparr>))))))))))"

record CollectFees =
  cf_whirlpool :: pubkey
  cf_position_authority :: pubkey
  cf_position :: pubkey
  cf_position_token_account :: pubkey
  cf_token_owner_account_a :: pubkey
  cf_token_vault_a :: pubkey
  cf_token_owner_account_b :: pubkey
  cf_token_vault_b :: pubkey

definition collect_fees :: "'t runtime \<Rightarrow> tx \<Rightarrow> CollectFees \<Rightarrow> 't ledger \<Rightarrow> 't ledger result" where
  "collect_fees rt tx acc lg =
     and_then (account (lg_pools lg) (cf_whirlpool acc)) (\<lambda>whirlpool.
     and_then (signer tx (cf_position_authority acc)) (\<lambda>_.
     and_then (account (lg_positions lg) (cf_position acc)) (\<lambda>position.
     and_then (token_account rt lg (cf_position_token_account acc)) (\<lambda>position_token_account.
     and_then (token_account rt lg (cf_token_owner_account_a acc)) (\<lambda>token_owner_account_a.
     and_then (token_account rt lg (cf_token_vault_a acc)) (\<lambda>_.
     and_then (token_account rt lg (cf_token_owner_account_b acc)) (\<lambda>token_owner_account_b.
     and_then (token_account rt lg (cf_token_vault_b acc)) (\<lambda>_.
     and_then (has_one (pos_whirlpool position) (cf_whirlpool acc)) (\<lambda>_.
     and_then (raw_constraint (tok_mint position_token_account = pos_position_mint position)) (\<lambda>_.
     and_then (raw_constraint (tok_amount position_token_account = 1)) (\<lambda>_.
     and_then (raw_constraint (tok_mint token_owner_account_a = wp_token_mint_a whirlpool)) (\<lambda>_.
     and_then (address (cf_token_vault_a acc) (wp_token_vault_a whirlpool)) (\<lambda>_.
     and_then (raw_constraint (tok_mint token_owner_account_b = wp_token_mint_b whirlpool)) (\<lambda>_.
     and_then (address (cf_token_vault_b acc) (wp_token_vault_b whirlpool)) (\<lambda>_.
     and_then (verify_position_authority tx position_token_account (cf_position_authority acc)) (\<lambda>_.
     let fee_owed_a = pos_fee_owed_a position; fee_owed_b = pos_fee_owed_b position in
     and_then (transfer_from_vault_to_owner rt (cf_whirlpool acc, whirlpool) (cf_token_vault_a acc)
                 (cf_token_owner_account_a acc) fee_owed_a (lg_tokens lg)) (\<lambda>tokens.
     and_then (transfer_from_vault_to_owner rt (cf_whirlpool acc, whirlpool) (cf_token_vault_b acc)
                 (cf_token_owner_account_b acc) fee_owed_b tokens) (\<lambda>tokens.
     Inr (lg\<lparr>lg_positions := (lg_positions lg)(cf_position acc \<mapsto> reset_fees_owed position),
             lg_tokens := tokens\<rparr>)))))))))))))))))))"

record CollectReward =
  cr_whirlpool :: pubkey
  cr_position_authority :: pubkey
  cr_position :: pubkey
  cr_position_token_account :: pubkey
  cr_reward_owner_account :: pubkey
  cr_reward_vault :: pubkey

definition calculate_collect_reward :: "PositionRewardInfo \<Rightarrow> u64 \<Rightarrow> u64 \<times> u64" where
  "calculate_collect_reward position_reward vault_amount =
     (let amount_owed = pri_amount_owed position_reward in
      if amount_owed > vault_amount then (vault_amount, amount_owed - vault_amount)
      else (amount_owed, 0))"

definition collect_reward :: "'t runtime \<Rightarrow> tx \<Rightarrow> CollectReward \<Rightarrow> u8 \<Rightarrow> 't ledger \<Rightarrow> 't ledger result" where
  "collect_reward rt tx acc reward_index lg =
     and_then (account (lg_pools lg) (cr_whirlpool acc)) (\<lambda>whirlpool.
     and_then (signer tx (cr_position_authority acc)) (\<lambda>_.
     and_then (account (lg_positions lg) (cr_position acc)) (\<lambda>position.
     and_then (token_account rt lg (cr_position_token_account acc)) (\<lambda>position_token_account.
     and_then (token_account rt lg (cr_reward_owner_account acc)) (\<lambda>reward_owner_account.
     and_then (token_account rt lg (cr_reward_vault acc)) (\<lambda>reward_vault.
     and_then (has_one (pos_whirlpool position) (cr_whirlpool acc)) (\<lambda>_.
     and_then (raw_constraint (tok_mint position_token_account = pos_position_mint position)) (\<lambda>_.
     and_then (raw_constraint (tok_amount position_token_account = 1)) (\<lambda>_.
     and_then (arr3_get (wp_reward_infos whirlpool) (unat reward_index)) (\<lambda>reward_info.
     and_then (raw_constraint (tok_mint reward_owner_account = ri_mint reward_info)) (\<lambda>_.
     and_then (address (cr_reward_vault acc) (ri_vault reward_info)) (\<lambda>_.
     and_then (verify_position_authority tx position_token_account (cr_position_authority acc)) (\<lambda>_.
     let index = unat reward_index in
     and_then (arr3_get (pos_reward_infos position) index) (\<lambda>position_reward.
     let (transfer_amount, updated_amount_owed) =
           calculate_collect_reward position_reward (tok_amount reward_vault) in
     and_then (update_reward_owed position index updated_amount_owed) (\<lambda>position.
     and_then (transfer_from_vault_to_owner rt (cr_whirlpool acc, whirlpool) (cr_reward_vault acc)
                 (cr_reward_owner_account acc) transfer_amount (lg_tokens lg)) (\<lambda>tokens.
     Inr (lg\<lparr>lg_positions := (lg_positions lg)(cr_position acc \<mapsto> position),
             lg_tokens := tokens\<rparr>)))))))))))))))))"

end
