(* ===== verification/Instr_Swap.thy ===== *)
theory Instr_Swap
  imports Instr_Position Swap_Manager
begin

text \<open>
  The swap instructions: \<open>util/swap_utils.rs\<close> (storing the result of a swap and moving the tokens),
  \<open>swap\<close> and \<open>two_hop_swap\<close>.  A swap that does not return is \<open>None\<close>; that this does not happen is a
  theorem about the swap manager.
\<close>

section \<open>Storing the result of a swap and moving the tokens\<close>

definition perform_swap ::
  "'t runtime \<Rightarrow> pubkey \<times> Whirlpool \<Rightarrow> pubkey \<Rightarrow> pubkey \<Rightarrow> pubkey \<Rightarrow> pubkey \<Rightarrow> pubkey \<Rightarrow> u64 \<Rightarrow> u64 \<Rightarrow> bool
   \<Rightarrow> 't \<Rightarrow> 't result" where
  "perform_swap rt whirlpool token_authority token_owner_account_a token_owner_account_b token_vault_a
     token_vault_b pool_amount_a pool_amount_b a_to_b tokens =
     (let (deposit_account_user, deposit_account_pool, deposit_amount,
           withdrawal_account_user, withdrawal_account_pool, withdrawal_amount) =
            (if a_to_b
             then (token_owner_account_a, token_vault_a, pool_amount_a, token_owner_account_b, token_vault_b, pool_amount_b)
             else (token_owner_account_b, token_vault_b, pool_amount_b, token_owner_account_a, token_vault_a, pool_amount_a)) in
      and_then (transfer_from_owner_to_vault rt token_authority deposit_account_user deposit_account_pool
                  deposit_amount tokens) (\<lambda>tokens.
      transfer_from_vault_to_owner rt whirlpool withdrawal_account_pool withdrawal_account_user
        withdrawal_amount tokens))"

definition update_and_swap_whirlpool ::
  "'t runtime \<Rightarrow> pubkey \<times> Whirlpool \<Rightarrow> pubkey \<Rightarrow> pubkey \<Rightarrow> pubkey \<Rightarrow> pubkey \<Rightarrow> pubkey \<Rightarrow> PostSwapUpdate
   \<Rightarrow> bool \<Rightarrow> u64 \<Rightarrow> 't \<Rightarrow> (Whirlpool \<times> 't) result" where
  "update_and_swap_whirlpool rt whirlpool token_authority token_owner_account_a token_owner_account_b
     token_vault_a token_vault_b swap_update is_token_fee_in_a reward_last_updated_timestamp tokens =
     (let updated = update_after_swap (snd whirlpool) (ps_next_liquidity swap_update)
            (ps_next_tick_index swap_update) (ps_next_sqrt_price swap_update)
            (ps_next_fee_growth_global swap_update) (ps_next_reward_infos swap_update)
            (ps_next_protocol_fee swap_update) is_token_fee_in_a reward_last_updated_timestamp in
      and_then (perform_swap rt (fst whirlpool, updated) token_authority token_owner_account_a
                  token_owner_account_b token_vault_a token_vault_b (ps_amount_a swap_update)
                  (ps_amount_b swap_update) is_token_fee_in_a tokens) (\<lambda>tokens.
      Inr (updated, tokens)))"

section \<open>Borrowing tick arrays\<close>

text \<open>
  \<open>load_mut\<close> fails on an account that is borrowed already: the same account given twice counts once,
  and the first of a sequence must not be borrowed (\<open>unwrap\<close>).  The borrows last to the end of the
  handler, so that the arrays are stored after it.
\<close>

definition borrow_optional :: "pubkey list \<Rightarrow> pubkey \<Rightarrow> pubkey list" where
  "borrow_optional borrowed key = (if key \<in> set borrowed then [] else [key])"

definition borrow_sequence :: "pubkey list \<Rightarrow> pubkey \<Rightarrow> pubkey \<Rightarrow> pubkey \<Rightarrow> pubkey list result" where
  "borrow_sequence borrowed k0 k1 k2 =
     (if k0 \<in> set borrowed then Inl Panic
      else let keys = [k0];
               keys = keys @ borrow_optional (borrowed @ keys) k1;
               keys = keys @ borrow_optional (borrowed @ keys) k2 in Inr keys)"

definition arrays_of :: "tick_arrays \<Rightarrow> pubkey list \<Rightarrow> SwapTickSequence result" where
  "arrays_of arrays keys =
     (if list_all (\<lambda>k. arrays k \<noteq> None) keys then Inr (map (\<lambda>k. the (arrays k)) keys)
      else Inl (ProgramErr 3012))"

definition store_arrays :: "tick_arrays \<Rightarrow> pubkey list \<Rightarrow> SwapTickSequence \<Rightarrow> tick_arrays" where
  "store_arrays arrays keys sequence = foldl (\<lambda>m (k, ta). m(k \<mapsto> ta)) arrays (zip keys sequence)"

text \<open>A computation that may not return, followed by another.\<close>

definition run_then :: "'a result option \<Rightarrow> ('a \<Rightarrow> 'b result option) \<Rightarrow> 'b result option" where
  "run_then m f = (case m of None \<Rightarrow> None | Some (Inl e) \<Rightarrow> Some (Inl e) | Some (Inr x) \<Rightarrow> f x)"

abbreviation check_then :: "'a result \<Rightarrow> ('a \<Rightarrow> 'b result option) \<Rightarrow> 'b result option" where
  "check_then m f \<equiv> run_then (Some m) f"

section \<open>One pool\<close>

record SwapAccounts =
  sa_token_authority :: pubkey
  sa_whirlpool :: pubkey
  sa_token_owner_account_a :: pubkey
  sa_token_vault_a :: pubkey
  sa_token_owner_account_b :: pubkey
  sa_token_vault_b :: pubkey
  sa_tick_array_0 :: pubkey
  sa_tick_array_1 :: pubkey
  sa_tick_array_2 :: pubkey
  sa_oracle :: pubkey

definition swap_accounts :: "'t runtime \<Rightarrow> tx \<Rightarrow> SwapAccounts \<Rightarrow> 't ledger \<Rightarrow> Whirlpool result" where
  "swap_accounts rt tx acc lg =
     and_then (signer tx (sa_token_authority acc)) (\<lambda>_.
     and_then (account (lg_pools lg) (sa_whirlpool acc)) (\<lambda>whirlpool.
     and_then (token_account rt lg (sa_token_owner_account_a acc)) (\<lambda>token_owner_account_a.
     and_then (token_account rt lg (sa_token_vault_a acc)) (\<lambda>_.
     and_then (token_account rt lg (sa_token_owner_account_b acc)) (\<lambda>token_owner_account_b.
     and_then (token_account rt lg (sa_token_vault_b acc)) (\<lambda>_.
     and_then (account (lg_arrays lg) (sa_tick_array_0 acc)) (\<lambda>tick_array_0.
     and_then (account (lg_arrays lg) (sa_tick_array_1 acc)) (\<lambda>tick_array_1.
     and_then (account (lg_arrays lg) (sa_tick_array_2 acc)) (\<lambda>tick_array_2.
     and_then (raw_constraint (tok_mint token_owner_account_a = wp_token_mint_a whirlpool)) (\<lambda>_.
     and_then (address (sa_token_vault_a acc) (wp_token_vault_a whirlpool)) (\<lambda>_.
     and_then (raw_constraint (tok_mint token_owner_account_b = wp_token_mint_b whirlpool)) (\<lambda>_.
     and_then (address (sa_token_vault_b acc) (wp_token_vault_b whirlpool)) (\<lambda>_.
     and_then (has_one (ta_whirlpool tick_array_0) (sa_whirlpool acc)) (\<lambda>_.
     and_then (has_one (ta_whirlpool tick_array_1) (sa_whirlpool acc)) (\<lambda>_.
     and_then (has_one (ta_whirlpool tick_array_2) (sa_whirlpool acc)) (\<lambda>_.
     and_then (pda rt [Seed_text ''oracle'', Seed_key (sa_whirlpool acc)] (sa_oracle acc)) (\<lambda>_.
     Inr whirlpool)))))))))))))))))"

text \<open>The limit that the trader sets on the amount that is not specified.\<close>

definition check_threshold :: "bool \<Rightarrow> bool \<Rightarrow> u64 \<Rightarrow> PostSwapUpdate \<Rightarrow> unit result" where
  "check_threshold amount_specified_is_input a_to_b other_amount_threshold swap_update =
     (if amount_specified_is_input then
        if (a_to_b \<and> other_amount_threshold > ps_amount_b swap_update)
           \<or> (\<not> a_to_b \<and> other_amount_threshold > ps_amount_a swap_update)
        then Inl (Err AmountOutBelowMinimum) else Inr ()
      else
        if (a_to_b \<and> other_amount_threshold < ps_amount_a swap_update)
           \<or> (\<not> a_to_b \<and> other_amount_threshold < ps_amount_b swap_update)
        then Inl (Err AmountInAboveMaximum) else Inr ())"

definition swap_instruction ::
  "'t runtime \<Rightarrow> tx \<Rightarrow> SwapAccounts \<Rightarrow> u64 \<Rightarrow> u64 \<Rightarrow> u128 \<Rightarrow> bool \<Rightarrow> bool \<Rightarrow> 't ledger
   \<Rightarrow> 't ledger result option" where
  "swap_instruction rt tx acc amount other_amount_threshold sqrt_price_limit amount_specified_is_input
     a_to_b lg =
     check_then (swap_accounts rt tx acc lg) (\<lambda>whirlpool.
     check_then (require_enabled whirlpool) (\<lambda>_.
     check_then (to_timestamp_u64 (tx_unix_timestamp tx)) (\<lambda>timestamp.
     check_then (borrow_sequence [] (sa_tick_array_0 acc) (sa_tick_array_1 acc) (sa_tick_array_2 acc)) (\<lambda>keys.
     check_then (arrays_of (lg_arrays lg) keys) (\<lambda>swap_tick_sequence.
     run_then (swap whirlpool swap_tick_sequence amount sqrt_price_limit amount_specified_is_input
                 a_to_b timestamp) (\<lambda>(swap_update, swap_tick_sequence).
     check_then (check_threshold amount_specified_is_input a_to_b other_amount_threshold swap_update) (\<lambda>_.
     check_then (update_and_swap_whirlpool rt (sa_whirlpool acc, whirlpool) (sa_token_authority acc)
                   (sa_token_owner_account_a acc) (sa_token_owner_account_b acc) (sa_token_vault_a acc)
                   (sa_token_vault_b acc) swap_update a_to_b timestamp (lg_tokens lg))
       (\<lambda>(whirlpool, tokens).
     Some (Inr (lg\<lparr>lg_pools := (lg_pools lg)(sa_whirlpool acc \<mapsto> whirlpool),
                   lg_arrays := store_arrays (lg_arrays lg) keys swap_tick_sequence,
                   lg_tokens := tokens\<rparr>))))))))))"

section \<open>Two pools\<close>

record TwoHopSwap =
  th_token_authority :: pubkey
  th_whirlpool_one :: pubkey
  th_whirlpool_two :: pubkey
  th_token_owner_account_one_a :: pubkey
  th_token_vault_one_a :: pubkey
  th_token_owner_account_one_b :: pubkey
  th_token_vault_one_b :: pubkey
  th_token_owner_account_two_a :: pubkey
  th_token_vault_two_a :: pubkey
  th_token_owner_account_two_b :: pubkey
  th_token_vault_two_b :: pubkey
  th_tick_array_one_0 :: pubkey
  th_tick_array_one_1 :: pubkey
  th_tick_array_one_2 :: pubkey
  th_tick_array_two_0 :: pubkey
  th_tick_array_two_1 :: pubkey
  th_tick_array_two_2 :: pubkey
  th_oracle_one :: pubkey
  th_oracle_two :: pubkey

definition two_hop_swap_accounts ::
  "'t runtime \<Rightarrow> tx \<Rightarrow> TwoHopSwap \<Rightarrow> 't ledger \<Rightarrow> (Whirlpool \<times> Whirlpool) result" where
  "two_hop_swap_accounts rt tx acc lg =
     and_then (signer tx (th_token_authority acc)) (\<lambda>_.
     and_then (account (lg_pools lg) (th_whirlpool_one acc)) (\<lambda>whirlpool_one.
     and_then (account (lg_pools lg) (th_whirlpool_two acc)) (\<lambda>whirlpool_two.
     and_then (token_account rt lg (th_token_owner_account_one_a acc)) (\<lambda>token_owner_account_one_a.
     and_then (token_account rt lg (th_token_vault_one_a acc)) (\<lambda>_.
     and_then (token_account rt lg (th_token_owner_account_one_b acc)) (\<lambda>token_owner_account_one_b.
     and_then (token_account rt lg (th_token_vault_one_b acc)) (\<lambda>_.
     and_then (token_account rt lg (th_token_owner_account_two_a acc)) (\<lambda>token_owner_account_two_a.
     and_then (token_account rt lg (th_token_vault_two_a acc)) (\<lambda>_.
     and_then (token_account rt lg (th_token_owner_account_two_b acc)) (\<lambda>token_owner_account_two_b.
     and_then (token_account rt lg (th_token_vault_two_b acc)) (\<lambda>_.
     and_then (account (lg_arrays lg) (th_tick_array_one_0 acc)) (\<lambda>tick_array_one_0.
     and_then (account (lg_arrays lg) (th_tick_array_one_1 acc)) (\<lambda>tick_array_one_1.
     and_then (account (lg_arrays lg) (th_tick_array_one_2 acc)) (\<lambda>tick_array_one_2.
     and_then (account (lg_arrays lg) (th_tick_array_two_0 acc)) (\<lambda>tick_array_two_0.
     and_then (account (lg_arrays lg) (th_tick_array_two_1 acc)) (\<lambda>tick_array_two_1.
     and_then (account (lg_arrays lg) (th_tick_array_two_2 acc)) (\<lambda>tick_array_two_2.
     and_then (raw_constraint (tok_mint token_owner_account_one_a = wp_token_mint_a whirlpool_one)) (\<lambda>_.
     and_then (address (th_token_vault_one_a acc) (wp_token_vault_a whirlpool_one)) (\<lambda>_.
     and_then (raw_constraint (tok_mint token_owner_account_one_b = wp_token_mint_b whirlpool_one)) (\<lambda>_.
     and_then (address (th_token_vault_one_b acc) (wp_token_vault_b whirlpool_one)) (\<lambda>_.
     and_then (raw_constraint (tok_mint token_owner_account_two_a = wp_token_mint_a whirlpool_two)) (\<lambda>_.
     and_then (address (th_token_vault_two_a acc) (wp_token_vault_a whirlpool_two)) (\<lambda>_.
     and_then (raw_constraint (tok_mint token_owner_account_two_b = wp_token_mint_b whirlpool_two)) (\<lambda>_.
     and_then (address (th_token_vault_two_b acc) (wp_token_vault_b whirlpool_two)) (\<lambda>_.
     and_then (raw_constraint (ta_whirlpool tick_array_one_0 = th_whirlpool_one acc)) (\<lambda>_.
     and_then (raw_constraint (ta_whirlpool tick_array_one_1 = th_whirlpool_one acc)) (\<lambda>_.
     and_then (raw_constraint (ta_whirlpool tick_array_one_2 = th_whirlpool_one acc)) (\<lambda>_.
     and_then (raw_constraint (ta_whirlpool tick_array_two_0 = th_whirlpool_two acc)) (\<lambda>_.
     and_then (raw_constraint (ta_whirlpool tick_array_two_1 = th_whirlpool_two acc)) (\<lambda>_.
     and_then (raw_constraint (ta_whirlpool tick_array_two_2 = th_whirlpool_two acc)) (\<lambda>_.
     and_then (pda rt [Seed_text ''oracle'', Seed_key (th_whirlpool_one acc)] (th_oracle_one acc)) (\<lambda>_.
     and_then (pda rt [Seed_text ''oracle'', Seed_key (th_whirlpool_two acc)] (th_oracle_two acc)) (\<lambda>_.
     Inr (whirlpool_one, whirlpool_two))))))))))))))))))))))))))))))))))"

text \<open>What a swap takes from and gives to the trader.\<close>

definition swap_input :: "bool \<Rightarrow> PostSwapUpdate \<Rightarrow> u64" where
  "swap_input a_to_b u = (if a_to_b then ps_amount_a u else ps_amount_b u)"

definition swap_output :: "bool \<Rightarrow> PostSwapUpdate \<Rightarrow> u64" where
  "swap_output a_to_b u = (if a_to_b then ps_amount_b u else ps_amount_a u)"

text \<open>
  With the input specified the first swap is computed first and its output is the amount of the
  second; with the output specified it is the other way round.
\<close>

definition two_hop_updates ::
  "Whirlpool \<Rightarrow> Whirlpool \<Rightarrow> SwapTickSequence \<Rightarrow> SwapTickSequence \<Rightarrow> u64 \<Rightarrow> bool \<Rightarrow> bool \<Rightarrow> bool \<Rightarrow> u128 \<Rightarrow> u128
   \<Rightarrow> u64 \<Rightarrow> ((PostSwapUpdate \<times> SwapTickSequence) \<times> (PostSwapUpdate \<times> SwapTickSequence)) result option" where
  "two_hop_updates whirlpool_one whirlpool_two sequence_one sequence_two amount amount_specified_is_input
     a_to_b_one a_to_b_two sqrt_price_limit_one sqrt_price_limit_two timestamp =
     (if amount_specified_is_input then
        run_then (swap whirlpool_one sequence_one amount sqrt_price_limit_one amount_specified_is_input
                    a_to_b_one timestamp) (\<lambda>calc_one.
        run_then (swap whirlpool_two sequence_two (swap_output a_to_b_one (fst calc_one))
                    sqrt_price_limit_two amount_specified_is_input a_to_b_two timestamp) (\<lambda>calc_two.
        Some (Inr (calc_one, calc_two))))
      else
        run_then (swap whirlpool_two sequence_two amount sqrt_price_limit_two amount_specified_is_input
                    a_to_b_two timestamp) (\<lambda>calc_two.
        run_then (swap whirlpool_one sequence_one (swap_input a_to_b_two (fst calc_two))
                    sqrt_price_limit_one amount_specified_is_input a_to_b_one timestamp) (\<lambda>calc_one.
        Some (Inr (calc_one, calc_two)))))"

definition two_hop_swap ::
  "'t runtime \<Rightarrow> tx \<Rightarrow> TwoHopSwap \<Rightarrow> u64 \<Rightarrow> u64 \<Rightarrow> bool \<Rightarrow> bool \<Rightarrow> bool \<Rightarrow> u128 \<Rightarrow> u128 \<Rightarrow> 't ledger
   \<Rightarrow> 't ledger result option" where
  "two_hop_swap rt tx acc amount other_amount_threshold amount_specified_is_input a_to_b_one a_to_b_two
     sqrt_price_limit_one sqrt_price_limit_two lg =
     check_then (two_hop_swap_accounts rt tx acc lg) (\<lambda>(whirlpool_one, whirlpool_two).
     check_then (to_timestamp_u64 (tx_unix_timestamp tx)) (\<lambda>timestamp.
     check_then (reject_if (th_whirlpool_one acc = th_whirlpool_two acc) (Err DuplicateTwoHopPool)) (\<lambda>_.
     let swap_one_output_mint = (if a_to_b_one then wp_token_mint_b whirlpool_one
                                 else wp_token_mint_a whirlpool_one);
         swap_two_input_mint = (if a_to_b_two then wp_token_mint_a whirlpool_two
                                else wp_token_mint_b whirlpool_two) in
     check_then (reject_if (swap_one_output_mint \<noteq> swap_two_input_mint) (Err InvalidIntermediaryMint)) (\<lambda>_.
     check_then (borrow_sequence [] (th_tick_array_one_0 acc) (th_tick_array_one_1 acc)
                   (th_tick_array_one_2 acc)) (\<lambda>keys_one.
     check_then (arrays_of (lg_arrays lg) keys_one) (\<lambda>sequence_one.
     check_then (borrow_sequence keys_one (th_tick_array_two_0 acc) (th_tick_array_two_1 acc)
                   (th_tick_array_two_2 acc)) (\<lambda>keys_two.
     check_then (arrays_of (lg_arrays lg) keys_two) (\<lambda>sequence_two.
     run_then (two_hop_updates whirlpool_one whirlpool_two sequence_one sequence_two amount
                 amount_specified_is_input a_to_b_one a_to_b_two sqrt_price_limit_one sqrt_price_limit_two
                 timestamp) (\<lambda>((swap_update_one, sequence_one), (swap_update_two, sequence_two)).
     check_then
       (if amount_specified_is_input
        then reject_if (other_amount_threshold > swap_output a_to_b_two swap_update_two) (Err AmountOutBelowMinimum)
        else reject_if (other_amount_threshold < swap_input a_to_b_one swap_update_one) (Err AmountInAboveMaximum))
       (\<lambda>_.
     check_then (update_and_swap_whirlpool rt (th_whirlpool_one acc, whirlpool_one) (th_token_authority acc)
                   (th_token_owner_account_one_a acc) (th_token_owner_account_one_b acc)
                   (th_token_vault_one_a acc) (th_token_vault_one_b acc) swap_update_one a_to_b_one timestamp
                   (lg_tokens lg)) (\<lambda>(whirlpool_one, tokens).
     check_then (update_and_swap_whirlpool rt (th_whirlpool_two acc, whirlpool_two) (th_token_authority acc)
                   (th_token_owner_account_two_a acc) (th_token_owner_account_two_b acc)
                   (th_token_vault_two_a acc) (th_token_vault_two_b acc) swap_update_two a_to_b_two timestamp
                   tokens) (\<lambda>(whirlpool_two, tokens).
     Some (Inr (lg\<lparr>lg_pools := (lg_pools lg)(th_whirlpool_one acc \<mapsto> whirlpool_one,
                                             th_whirlpool_two acc \<mapsto> whirlpool_two),
                   lg_arrays := store_arrays (store_arrays (lg_arrays lg) keys_one sequence_one)
                                  keys_two sequence_two,
                   lg_tokens := tokens\<rparr>))))))))))))))"

end
