(* ===== verification/Program.thy ===== *)
theory Program
  imports Instr_Swap
begin

text \<open>
  \<open>lib.rs\<close>: the instructions of the program with their arguments, and their dispatch to the handlers.
  A transaction runs one instruction; if it fails, or panics, the ledger stays as it was.
\<close>

datatype instruction =
    Initialize_config InitializeConfig pubkey pubkey pubkey pubkey u16
  | Initialize_pool InitializePool WhirlpoolBumps u16 u128
  | Initialize_tick_array InitializeTickArray i32
  | Initialize_fee_tier InitializeFeeTier u16 u16
  | Initialize_reward InitializeReward u8
  | Set_reward_emissions SetRewardEmissions u8 u128
  | Open_position OpenPosition OpenPositionBumps i32 i32
  | Open_position_with_metadata OpenPositionWithMetadata OpenPositionWithMetadataBumps i32 i32
  | Increase_liquidity ModifyLiquidity u128 u64 u64
  | Decrease_liquidity ModifyLiquidity u128 u64 u64
  | Update_fees_and_rewards UpdateFeesAndRewards
  | Collect_fees CollectFees
  | Collect_reward CollectReward u8
  | Collect_protocol_fees CollectProtocolFees
  | Swap SwapAccounts u64 u64 u128 bool bool
  | Close_position ClosePosition
  | Set_default_fee_rate SetDefaultFeeRate u16
  | Set_default_protocol_fee_rate SetDefaultProtocolFeeRate u16
  | Set_fee_rate SetFeeRate u16
  | Set_protocol_fee_rate SetProtocolFeeRate u16
  | Set_fee_authority SetFeeAuthority
  | Set_collect_protocol_fees_authority SetCollectProtocolFeesAuthority
  | Set_reward_authority SetRewardAuthority u8
  | Set_pool_creator_authority SetPoolCreatorAuthority
  | Set_reward_authority_by_super_authority SetRewardAuthorityBySuperAuthority u8
  | Set_reward_emissions_super_authority SetRewardEmissionsSuperAuthority
  | Set_enable_flag SetEnableFlag bool
  | Two_hop_swap TwoHopSwap u64 u64 bool bool bool u128 u128

fun process ::
  "'t runtime \<Rightarrow> pubkey \<Rightarrow> tx \<Rightarrow> instruction \<Rightarrow> 't ledger \<Rightarrow> 't ledger result option" where
  "process rt nft tx (Initialize_config acc f c r p rate) lg = Some (initialize_config rt tx acc f c r p rate lg)"
| "process rt nft tx (Initialize_pool acc bumps s price) lg = Some (initialize_pool rt tx acc bumps s price lg)"
| "process rt nft tx (Initialize_tick_array acc t) lg = Some (initialize_tick_array rt tx acc t lg)"
| "process rt nft tx (Initialize_fee_tier acc s rate) lg = Some (initialize_fee_tier rt tx acc s rate lg)"
| "process rt nft tx (Initialize_reward acc i) lg = Some (initialize_reward rt tx acc i lg)"
| "process rt nft tx (Set_reward_emissions acc i e) lg = Some (set_reward_emissions rt tx acc i e lg)"
| "process rt nft tx (Open_position acc bumps l u) lg = Some (open_position rt tx acc bumps l u lg)"
| "process rt nft tx (Open_position_with_metadata acc bumps l u) lg =
     Some (open_position_with_metadata rt tx nft acc bumps l u lg)"
| "process rt nft tx (Increase_liquidity acc l a b) lg = Some (increase_liquidity rt tx acc l a b lg)"
| "process rt nft tx (Decrease_liquidity acc l a b) lg = Some (decrease_liquidity rt tx acc l a b lg)"
| "process rt nft tx (Update_fees_and_rewards acc) lg = Some (update_fees_and_rewards tx acc lg)"
| "process rt nft tx (Collect_fees acc) lg = Some (collect_fees rt tx acc lg)"
| "process rt nft tx (Collect_reward acc i) lg = Some (collect_reward rt tx acc i lg)"
| "process rt nft tx (Collect_protocol_fees acc) lg = Some (collect_protocol_fees rt tx acc lg)"
| "process rt nft tx (Swap acc amount other limit inp a_to_b) lg =
     swap_instruction rt tx acc amount other limit inp a_to_b lg"
| "process rt nft tx (Close_position acc) lg = Some (close_position rt tx acc lg)"
| "process rt nft tx (Set_default_fee_rate acc rate) lg = Some (set_default_fee_rate tx acc rate lg)"
| "process rt nft tx (Set_default_protocol_fee_rate acc rate) lg =
     Some (set_default_protocol_fee_rate tx acc rate lg)"
| "process rt nft tx (Set_fee_rate acc rate) lg = Some (set_fee_rate tx acc rate lg)"
| "process rt nft tx (Set_protocol_fee_rate acc rate) lg = Some (set_protocol_fee_rate tx acc rate lg)"
| "process rt nft tx (Set_fee_authority acc) lg = Some (set_fee_authority tx acc lg)"
| "process rt nft tx (Set_collect_protocol_fees_authority acc) lg =
     Some (set_collect_protocol_fees_authority tx acc lg)"
| "process rt nft tx (Set_reward_authority acc i) lg = Some (set_reward_authority tx acc i lg)"
| "process rt nft tx (Set_pool_creator_authority acc) lg = Some (set_pool_creator_authority tx acc lg)"
| "process rt nft tx (Set_reward_authority_by_super_authority acc i) lg =
     Some (set_reward_authority_by_super_authority tx acc i lg)"
| "process rt nft tx (Set_reward_emissions_super_authority acc) lg =
     Some (set_reward_emissions_super_authority tx acc lg)"
| "process rt nft tx (Set_enable_flag acc enabled) lg = Some (set_enable_flag tx acc enabled lg)"
| "process rt nft tx (Two_hop_swap acc amount other inp a_to_b_one a_to_b_two limit_one limit_two) lg =
     two_hop_swap rt tx acc amount other inp a_to_b_one a_to_b_two limit_one limit_two lg"

section \<open>The program as a state machine\<close>

text \<open>
  A step is a transaction that succeeds, or a change of the token program's state from outside: the
  program is not the only user of the token program.
\<close>

inductive step :: "'t runtime \<Rightarrow> pubkey \<Rightarrow> 't ledger \<Rightarrow> 't ledger \<Rightarrow> bool" for rt nft where
  transaction: "process rt nft tx ins lg = Some (Inr lg') \<Longrightarrow> step rt nft lg lg'"
| outside: "step rt nft lg (lg\<lparr>lg_tokens := tokens\<rparr>)"

inductive reachable :: "'t runtime \<Rightarrow> pubkey \<Rightarrow> 't ledger \<Rightarrow> bool" for rt nft where
  start: "lg_configs lg = Map.empty \<Longrightarrow> lg_fee_tiers lg = Map.empty \<Longrightarrow> lg_pools lg = Map.empty \<Longrightarrow>
     lg_positions lg = Map.empty \<Longrightarrow> lg_arrays lg = Map.empty \<Longrightarrow> reachable rt nft lg"
| later: "reachable rt nft lg \<Longrightarrow> step rt nft lg lg' \<Longrightarrow> reachable rt nft lg'"

end
