(* ===== verification/Ledger_Effect.thy ===== *)
theory Ledger_Effect
  imports Program
begin

text \<open>
  The abstract specification of an instruction: what one that succeeds may do to the ledger.  The
  relation \<open>effect\<close> lists the kinds of change.  Each kind names the accounts that change and what
  becomes of them, the signature or the role that the change needs, and the calls of the token
  program that it makes, with their amounts; everything else in the ledger stays.  That the handlers
  are all of this form is shown in \<open>Ledger\<close>, and the properties of runs of the program are shown on
  the kinds of change.
\<close>

section \<open>The identity of a pool\<close>

definition pool_id :: "Whirlpool \<Rightarrow> pubkey \<times> u8 \<times> u16 \<times> pubkey \<times> pubkey \<times> pubkey \<times> pubkey" where
  "pool_id w = (wp_whirlpools_config w, wp_whirlpool_bump w, wp_tick_spacing w, wp_token_mint_a w,
     wp_token_mint_b w, wp_token_vault_a w, wp_token_vault_b w)"

text \<open>A change that concerns neither the identity nor the price, and respects the limits of the rates.\<close>

definition pool_tuned :: "Whirlpool \<Rightarrow> Whirlpool \<Rightarrow> bool" where
  "pool_tuned w w' \<longleftrightarrow> pool_id w' = pool_id w \<and> wp_sqrt_price w' = wp_sqrt_price w
     \<and> wp_tick_current_index w' = wp_tick_current_index w \<and> (whirlpool_ok w \<longrightarrow> whirlpool_ok w')"

section \<open>Who may change what\<close>

text \<open>
  A role of a configuration signed the transaction; for a pool, the role is that of its configuration.
\<close>

definition signed_by :: "tx \<Rightarrow> 't ledger \<Rightarrow> pubkey \<Rightarrow> (WhirlpoolsConfig \<Rightarrow> pubkey) \<Rightarrow> bool" where
  "signed_by tx lg config role \<longleftrightarrow> (\<exists>c. lg_configs lg config = Some c \<and> tx_signer tx (role c))"

text \<open>Each authority of a configuration is replaced by itself only; the fee authority sets the default rate.\<close>

definition config_permitted :: "tx \<Rightarrow> WhirlpoolsConfig \<Rightarrow> WhirlpoolsConfig \<Rightarrow> bool" where
  "config_permitted tx c c' \<longleftrightarrow>
     (cfg_fee_authority c' \<noteq> cfg_fee_authority c \<longrightarrow> tx_signer tx (cfg_fee_authority c))
     \<and> (cfg_collect_protocol_fees_authority c' \<noteq> cfg_collect_protocol_fees_authority c \<longrightarrow>
          tx_signer tx (cfg_collect_protocol_fees_authority c))
     \<and> (cfg_reward_emissions_super_authority c' \<noteq> cfg_reward_emissions_super_authority c \<longrightarrow>
          tx_signer tx (cfg_reward_emissions_super_authority c))
     \<and> (cfg_pool_creator_authority c' \<noteq> cfg_pool_creator_authority c \<longrightarrow>
          tx_signer tx (cfg_pool_creator_authority c))
     \<and> (cfg_default_protocol_fee_rate c' \<noteq> cfg_default_protocol_fee_rate c \<longrightarrow>
          tx_signer tx (cfg_fee_authority c))"

text \<open>
  What is set by an authority in a pool: the rates by the fee authority, the enable flag by the pool
  creator, a reward by its authority or the super authority.
\<close>

definition reward_setting :: "WhirlpoolRewardInfo \<Rightarrow> pubkey \<times> pubkey \<times> pubkey \<times> u128" where
  "reward_setting r = (ri_mint r, ri_vault r, ri_authority r, ri_emissions_per_second_x64 r)"

definition rates :: "Whirlpool \<Rightarrow> u16 \<times> u16" where
  "rates w = (wp_fee_rate w, wp_protocol_fee_rate w)"

definition reward_permitted :: "tx \<Rightarrow> 't ledger \<Rightarrow> Whirlpool \<Rightarrow> WhirlpoolRewardInfo \<Rightarrow> bool" where
  "reward_permitted tx lg w r \<longleftrightarrow> tx_signer tx (ri_authority r)
     \<or> signed_by tx lg (wp_whirlpools_config w) cfg_reward_emissions_super_authority"

definition rewards_permitted :: "tx \<Rightarrow> 't ledger \<Rightarrow> Whirlpool \<Rightarrow> Whirlpool \<Rightarrow> bool" where
  "rewards_permitted tx lg w w' \<longleftrightarrow>
     list_all2 (\<lambda>r r'. reward_setting r' \<noteq> reward_setting r \<longrightarrow> reward_permitted tx lg w r)
       (arr3_list (wp_reward_infos w)) (arr3_list (wp_reward_infos w'))"

definition pool_permitted :: "tx \<Rightarrow> 't ledger \<Rightarrow> Whirlpool \<Rightarrow> Whirlpool \<Rightarrow> bool" where
  "pool_permitted tx lg w w' \<longleftrightarrow>
     (rates w' \<noteq> rates w \<longrightarrow> signed_by tx lg (wp_whirlpools_config w) cfg_fee_authority)
     \<and> (wp_is_enabled w' \<noteq> wp_is_enabled w \<longrightarrow>
          signed_by tx lg (wp_whirlpools_config w) cfg_pool_creator_authority)
     \<and> rewards_permitted tx lg w w'"

text \<open>A position belongs to whoever holds its token, or is its delegate, and signs.\<close>

definition position_permitted :: "'t runtime \<Rightarrow> tx \<Rightarrow> 't ledger \<Rightarrow> Position \<Rightarrow> bool" where
  "position_permitted rt tx lg p \<longleftrightarrow>
     (\<exists>key ta authority. rt_token_account rt (lg_tokens lg) key = Some ta \<and> tok_mint ta = pos_position_mint p
        \<and> tok_amount ta = 1 \<and> position_authority_ok tx ta authority)"

text \<open>A change of a position that leaves its pool, its mint and its range as they are.\<close>

definition position_kept :: "Position \<Rightarrow> Position \<Rightarrow> bool" where
  "position_kept p p' \<longleftrightarrow> pos_whirlpool p' = pos_whirlpool p \<and> pos_position_mint p' = pos_position_mint p
     \<and> pos_tick_lower_index p' = pos_tick_lower_index p \<and> pos_tick_upper_index p' = pos_tick_upper_index p"

text \<open>A swap on the pool \<open>k\<close> with the tick arrays at \<open>keys\<close>, which all belong to the pool.\<close>

definition pool_swap :: "'t ledger \<Rightarrow> pubkey \<Rightarrow> Whirlpool \<Rightarrow> pubkey list \<Rightarrow> SwapTickSequence \<Rightarrow> bool" where
  "pool_swap lg k w' keys arrays' \<longleftrightarrow>
     (\<exists>w arrays amount limit inp a_to_b ts u. lg_pools lg k = Some w \<and> arrays_of (lg_arrays lg) keys = Inr arrays
        \<and> keys \<noteq> [] \<and> distinct keys \<and> (\<forall>ta \<in> set arrays. ta_whirlpool ta = k)
        \<and> swap w arrays amount limit inp a_to_b ts = Some (Inr (u, arrays'))
        \<and> w' = update_after_swap w (ps_next_liquidity u) (ps_next_tick_index u) (ps_next_sqrt_price u)
                 (ps_next_fee_growth_global u) (ps_next_reward_infos u) (ps_next_protocol_fee u) a_to_b ts)"

definition after_swap :: "'t ledger \<Rightarrow> pubkey \<Rightarrow> Whirlpool \<Rightarrow> pubkey list \<Rightarrow> SwapTickSequence \<Rightarrow> 't \<Rightarrow> 't ledger" where
  "after_swap lg k w' keys arrays tokens = lg\<lparr>lg_pools := (lg_pools lg)(k \<mapsto> w'),
     lg_arrays := store_arrays (lg_arrays lg) keys arrays, lg_tokens := tokens\<rparr>"

section \<open>What moves the tokens\<close>

abbreviation clock :: "tx \<Rightarrow> u64" where
  "clock tx \<equiv> of_int (tx_unix_timestamp tx)"

definition mint_of :: "'t runtime \<Rightarrow> 't \<Rightarrow> pubkey \<Rightarrow> pubkey option" where
  "mint_of rt tokens key = map_option tok_mint (rt_token_account rt tokens key)"

text \<open>The pool \<open>k\<close> pays \<open>a\<close> and \<open>b\<close> out of its two vaults, or someone who signed pays them in.\<close>

definition pool_pays ::
  "'t runtime \<Rightarrow> pubkey \<Rightarrow> Whirlpool \<Rightarrow> u64 \<Rightarrow> u64 \<Rightarrow> 't \<Rightarrow> 't \<Rightarrow> bool" where
  "pool_pays rt k w a b tokens tokens' \<longleftrightarrow>
     (\<exists>to_a to_b between. mint_of rt tokens to_a = Some (wp_token_mint_a w) \<and> mint_of rt tokens to_b = Some (wp_token_mint_b w)
        \<and> rt_transfer rt tokens (wp_token_vault_a w) to_a k a = Inr between
        \<and> rt_transfer rt between (wp_token_vault_b w) to_b k b = Inr tokens')"

definition signer_pays ::
  "'t runtime \<Rightarrow> tx \<Rightarrow> Whirlpool \<Rightarrow> u64 \<Rightarrow> u64 \<Rightarrow> 't \<Rightarrow> 't \<Rightarrow> bool" where
  "signer_pays rt tx w a b tokens tokens' \<longleftrightarrow>
     (\<exists>from_a from_b authority between. tx_signer tx authority
        \<and> mint_of rt tokens from_a = Some (wp_token_mint_a w) \<and> mint_of rt tokens from_b = Some (wp_token_mint_b w)
        \<and> rt_transfer rt tokens from_a (wp_token_vault_a w) authority a = Inr between
        \<and> rt_transfer rt between from_b (wp_token_vault_b w) authority b = Inr tokens')"

text \<open>
  A deposit is paid in, a withdrawal out, for the liquidity \<open>d\<close> of the position \<open>p\<close> at the price of
  the pool.
\<close>

definition liquidity_paid ::
  "'t runtime \<Rightarrow> tx \<Rightarrow> pubkey \<Rightarrow> Whirlpool \<Rightarrow> Position \<Rightarrow> i128 \<Rightarrow> 't \<Rightarrow> 't \<Rightarrow> bool" where
  "liquidity_paid rt tx k w p d tokens tokens' \<longleftrightarrow>
     (\<exists>a b. calculate_liquidity_token_deltas (wp_tick_current_index w) (wp_sqrt_price w) p d = Inr (a, b)
        \<and> (if 0 < d then signer_pays rt tx w a b tokens tokens' else pool_pays rt k w a b tokens tokens'))"

text \<open>A trader who signed pays the input of a swap, and the pool \<open>k\<close> the output.\<close>

definition trade_paid ::
  "'t runtime \<Rightarrow> tx \<Rightarrow> pubkey \<Rightarrow> Whirlpool \<Rightarrow> bool \<Rightarrow> PostSwapUpdate \<Rightarrow> 't \<Rightarrow> 't \<Rightarrow> bool" where
  "trade_paid rt tx k w a_to_b u tokens tokens' \<longleftrightarrow>
     (\<exists>payer receiver authority between. tx_signer tx authority
        \<and> rt_transfer rt tokens payer (if a_to_b then wp_token_vault_a w else wp_token_vault_b w) authority
            (swap_input a_to_b u) = Inr between
        \<and> rt_transfer rt between (if a_to_b then wp_token_vault_b w else wp_token_vault_a w) receiver k
            (swap_output a_to_b u) = Inr tokens')"

text \<open>
  A swap at the time of the transaction, paid for: \<open>pool_swap\<close> with the tokens that it moves.
\<close>

definition pool_trade ::
  "'t runtime \<Rightarrow> tx \<Rightarrow> 't ledger \<Rightarrow> pubkey \<Rightarrow> Whirlpool \<Rightarrow> pubkey list \<Rightarrow> SwapTickSequence \<Rightarrow> 't \<Rightarrow> bool" where
  "pool_trade rt tx lg k w' keys arrays' tokens \<longleftrightarrow>
     (\<exists>w arrays amount limit inp a_to_b u. lg_pools lg k = Some w \<and> arrays_of (lg_arrays lg) keys = Inr arrays
        \<and> keys \<noteq> [] \<and> distinct keys \<and> (\<forall>ta \<in> set arrays. ta_whirlpool ta = k)
        \<and> swap w arrays amount limit inp a_to_b (clock tx) = Some (Inr (u, arrays'))
        \<and> w' = update_after_swap w (ps_next_liquidity u) (ps_next_tick_index u) (ps_next_sqrt_price u)
                 (ps_next_fee_growth_global u) (ps_next_reward_infos u) (ps_next_protocol_fee u) a_to_b (clock tx)
        \<and> trade_paid rt tx k w a_to_b u (lg_tokens lg) tokens)"

lemma pool_trade_swap: "pool_trade rt tx lg k w' keys arrays' tokens \<Longrightarrow> pool_swap lg k w' keys arrays'"
  unfolding pool_trade_def pool_swap_def by blast

text \<open>What a pool owes the protocol and has counted for its positions.\<close>

definition pool_money :: "Whirlpool \<Rightarrow> u64 \<times> u64 \<times> u128 \<times> u128" where
  "pool_money w = (wp_protocol_fee_owed_a w, wp_protocol_fee_owed_b w, wp_fee_growth_global_a w, wp_fee_growth_global_b w)"

text \<open>The growth of the rewards: left alone, or brought up to the time of the transaction.\<close>

definition rewards_timed :: "tx \<Rightarrow> Whirlpool \<Rightarrow> Whirlpool \<Rightarrow> bool" where
  "rewards_timed tx w w' \<longleftrightarrow>
     to_reward_growths (wp_reward_infos w') = to_reward_growths (wp_reward_infos w)
       \<and> wp_reward_last_updated_timestamp w' = wp_reward_last_updated_timestamp w
     \<or> (\<exists>infos. next_whirlpool_reward_infos w (clock tx) = Inr infos
          \<and> to_reward_growths (wp_reward_infos w') = to_reward_growths infos
          \<and> wp_reward_last_updated_timestamp w' = clock tx)"

text \<open>
  A change of a pool that is no trade: its settings change and nothing is moved or counted; or a
  reward gets a new vault, an account of the pool; or the protocol takes exactly the fees that it is
  owed, which its authority has to sign for.
\<close>

definition pool_tokens ::
  "'t runtime \<Rightarrow> tx \<Rightarrow> 't ledger \<Rightarrow> pubkey \<Rightarrow> Whirlpool \<Rightarrow> Whirlpool \<Rightarrow> 't \<Rightarrow> bool" where
  "pool_tokens rt tx lg k w w' tokens \<longleftrightarrow>
     pool_money w' = pool_money w \<and> rewards_timed tx w w' \<and> tokens = lg_tokens lg
     \<or> (\<exists>i mint vault. whirlpool_initialize_reward w i mint vault = Inr w' \<and> tx_signer tx vault
          \<and> rt_init_token_account rt (lg_tokens lg) vault mint k = Inr tokens)
     \<or> signed_by tx lg (wp_whirlpools_config w) cfg_collect_protocol_fees_authority
       \<and> w' = reset_protocol_fees_owed w
       \<and> pool_pays rt k w (wp_protocol_fee_owed_a w) (wp_protocol_fee_owed_b w) (lg_tokens lg) tokens"

text \<open>
  A pool is made at the address of its configuration, mints and tick spacing, with the fee rate of a
  fee tier of the configuration and two new vaults, accounts of the pool.
\<close>

definition pool_founded ::
  "'t runtime \<Rightarrow> tx \<Rightarrow> 't ledger \<Rightarrow> pubkey \<Rightarrow> pubkey \<times> WhirlpoolsConfig \<Rightarrow> u16 \<Rightarrow> u16 \<Rightarrow> pubkey \<Rightarrow> pubkey
   \<Rightarrow> pubkey \<Rightarrow> pubkey \<Rightarrow> 't \<Rightarrow> bool" where
  "pool_founded rt tx lg k cfg s fee ma va mb vb tokens \<longleftrightarrow>
     lg_configs lg (fst cfg) = Some (snd cfg)
     \<and> (\<exists>key t. lg_fee_tiers lg key = Some t \<and> ft_whirlpools_config t = fst cfg \<and> ft_default_fee_rate t = fee)
     \<and> k = fst (rt_find_address rt [Seed_text ''whirlpool'', Seed_key (fst cfg), Seed_key ma, Seed_key mb, u16_seed s])
     \<and> tx_signer tx va \<and> tx_signer tx vb
     \<and> (\<exists>between. rt_init_token_account rt (lg_tokens lg) va ma k = Inr between
          \<and> rt_init_token_account rt between vb mb k = Inr tokens)"

text \<open>
  The token of a new position: a new mint, one token of it for the owner, and no authority left that
  could mint another.
\<close>

definition position_minted ::
  "'t runtime \<Rightarrow> tx \<Rightarrow> 't \<Rightarrow> pubkey \<Rightarrow> pubkey \<Rightarrow> pubkey \<Rightarrow> 't \<Rightarrow> bool" where
  "position_minted rt tx tokens k q mint tokens' \<longleftrightarrow>
     q = fst (rt_find_address rt [Seed_text ''position'', Seed_key mint]) \<and> tx_signer tx mint
     \<and> (\<exists>holding owner t1 t2 t3 t4. rt_init_mint rt tokens mint k 0 = Inr t1
          \<and> rt_init_associated_token rt t1 holding mint owner = Inr t2
          \<and> rt_mint_to rt t2 mint holding k 1 = Inr t3
          \<and> (t4 = t3 \<or> (\<exists>metadata funder auth. tx_signer tx funder
                \<and> rt_create_metadata rt t3 metadata mint k funder auth = Inr t4))
          \<and> rt_set_mint_authority rt t4 mint None k = Inr tokens')"

text \<open>The holder of the token of a position, or its delegate, burns it and closes the account.\<close>

definition position_burnt :: "'t runtime \<Rightarrow> tx \<Rightarrow> 't \<Rightarrow> Position \<Rightarrow> 't \<Rightarrow> bool" where
  "position_burnt rt tx tokens p tokens' \<longleftrightarrow>
     (\<exists>holding ta authority receiver m between.
        rt_token_account rt tokens holding = Some ta \<and> tok_mint ta = pos_position_mint p \<and> tok_amount ta = 1
        \<and> position_authority_ok tx ta authority \<and> rt_mint rt tokens (pos_position_mint p) = Some m
        \<and> rt_burn_checked rt tokens holding (pos_position_mint p) authority 1 (mint_decimals m) = Inr between
        \<and> rt_close_account rt between holding receiver authority = Inr tokens')"

text \<open>
  A position is paid by its pool: exactly the fees it is owed, of which none stay owed, or of a reward
  what is owed as far as the vault of the reward goes, and the rest stays owed.
\<close>

definition position_paid :: "'t runtime \<Rightarrow> 't ledger \<Rightarrow> Position \<Rightarrow> Position \<Rightarrow> 't \<Rightarrow> bool" where
  "position_paid rt lg p p' tokens \<longleftrightarrow>
     (\<exists>w. lg_pools lg (pos_whirlpool p) = Some w
        \<and> (p' = reset_fees_owed p
             \<and> pool_pays rt (pos_whirlpool p) w (pos_fee_owed_a p) (pos_fee_owed_b p) (lg_tokens lg) tokens
           \<or> (\<exists>i r owed vault receiver paid. arr3_get (wp_reward_infos w) i = Inr r
                \<and> arr3_get (pos_reward_infos p) i = Inr owed
                \<and> rt_token_account rt (lg_tokens lg) (ri_vault r) = Some vault
                \<and> mint_of rt (lg_tokens lg) receiver = Some (ri_mint r)
                \<and> paid = min (pri_amount_owed owed) (tok_amount vault)
                \<and> update_reward_owed p i (pri_amount_owed owed - paid) = Inr p'
                \<and> rt_transfer rt (lg_tokens lg) (ri_vault r) receiver (pos_whirlpool p) paid = Inr tokens)))"

text \<open>The tick arrays that a change of a position reads belong to its pool.\<close>

definition array_of_pool :: "'t ledger \<Rightarrow> pubkey \<Rightarrow> pubkey \<Rightarrow> bool" where
  "array_of_pool lg k a \<longleftrightarrow> (\<exists>ta. lg_arrays lg a = Some ta \<and> ta_whirlpool ta = k)"

text \<open>A fee tier is new, or keeps its configuration and its tick spacing.\<close>

definition fee_tier_kept :: "'t ledger \<Rightarrow> pubkey \<Rightarrow> FeeTier \<Rightarrow> bool" where
  "fee_tier_kept lg key t \<longleftrightarrow> (\<forall>t0. lg_fee_tiers lg key = Some t0 \<longrightarrow>
     ft_whirlpools_config t0 = ft_whirlpools_config t \<and> ft_tick_spacing t0 = ft_tick_spacing t)"

section \<open>The kinds of change\<close>

inductive effect :: "'t runtime \<Rightarrow> tx \<Rightarrow> 't ledger \<Rightarrow> 't ledger \<Rightarrow> bool" for rt tx where
  config_created: "lg_configs lg k = None \<Longrightarrow> config_ok c \<Longrightarrow> tx_signer tx k \<Longrightarrow>
    effect rt tx lg (lg\<lparr>lg_configs := (lg_configs lg)(k \<mapsto> c)\<rparr>)"
| config_changed: "lg_configs lg k = Some c \<Longrightarrow> config_permitted tx c c' \<Longrightarrow> (config_ok c \<Longrightarrow> config_ok c') \<Longrightarrow>
    effect rt tx lg (lg\<lparr>lg_configs := (lg_configs lg)(k \<mapsto> c')\<rparr>)"
| fee_tier_stored: "fee_tier_ok t \<Longrightarrow> signed_by tx lg (ft_whirlpools_config t) cfg_fee_authority \<Longrightarrow>
    fee_tier_kept lg k t \<Longrightarrow>
    effect rt tx lg (lg\<lparr>lg_fee_tiers := (lg_fee_tiers lg)(k \<mapsto> t)\<rparr>)"
| pool_created: "lg_pools lg k = None \<Longrightarrow>
    whirlpool_initialize default_whirlpool cfg bump s price fee ma va mb vb = Inr w \<Longrightarrow>
    pool_founded rt tx lg k cfg s fee ma va mb vb tokens \<Longrightarrow>
    effect rt tx lg (lg\<lparr>lg_pools := (lg_pools lg)(k \<mapsto> w), lg_tokens := tokens\<rparr>)"
| pool_changed: "lg_pools lg k = Some w \<Longrightarrow> pool_tuned w w' \<Longrightarrow> pool_permitted tx lg w w' \<Longrightarrow>
    wp_liquidity w' = wp_liquidity w \<Longrightarrow> pool_tokens rt tx lg k w w' tokens \<Longrightarrow>
    effect rt tx lg (lg\<lparr>lg_pools := (lg_pools lg)(k \<mapsto> w'), lg_tokens := tokens\<rparr>)"
| array_created: "lg_pools lg k = Some w \<Longrightarrow> lg_arrays lg a = None \<Longrightarrow>
    a = fst (rt_find_address rt [Seed_text ''tick_array'', Seed_key k, Seed_text (to_string t)]) \<Longrightarrow>
    tick_array_initialize default_tick_array k (wp_tick_spacing w) t = Inr ta \<Longrightarrow>
    effect rt tx lg (lg\<lparr>lg_arrays := (lg_arrays lg)(a \<mapsto> ta)\<rparr>)"
| position_opened: "lg_pools lg k = Some w \<Longrightarrow> wp_is_enabled w \<Longrightarrow> lg_positions lg q = None \<Longrightarrow>
    position_open default_position k (wp_tick_spacing w) m l u = Inr p \<Longrightarrow>
    position_minted rt tx (lg_tokens lg) k q m tokens \<Longrightarrow>
    effect rt tx lg (lg\<lparr>lg_positions := (lg_positions lg)(q \<mapsto> p), lg_tokens := tokens\<rparr>)"
| position_closed: "lg_positions lg q = Some p \<Longrightarrow> is_position_empty p \<Longrightarrow> position_permitted rt tx lg p \<Longrightarrow>
    lg_pools lg (pos_whirlpool p) = Some w \<Longrightarrow> wp_is_enabled w \<Longrightarrow>
    position_burnt rt tx (lg_tokens lg) p tokens \<Longrightarrow>
    effect rt tx lg (lg\<lparr>lg_positions := (lg_positions lg)(q := None), lg_tokens := tokens\<rparr>)"
| position_changed: "lg_positions lg q = Some p \<Longrightarrow> position_kept p p' \<Longrightarrow>
    pos_liquidity p' = pos_liquidity p \<Longrightarrow> position_permitted rt tx lg p \<Longrightarrow>
    position_paid rt lg p p' tokens \<Longrightarrow>
    effect rt tx lg (lg\<lparr>lg_positions := (lg_positions lg)(q \<mapsto> p'), lg_tokens := tokens\<rparr>)"
| position_settled: "lg_pools lg k = Some w \<Longrightarrow> lg_positions lg q = Some p \<Longrightarrow> pos_whirlpool p = k \<Longrightarrow>
    calculate_fee_and_reward_growths w p (lg_arrays lg) al au ts = Inr (u, infos) \<Longrightarrow>
    array_of_pool lg k al \<and> array_of_pool lg k au \<and> ts = clock tx \<Longrightarrow>
    effect rt tx lg (lg\<lparr>lg_pools := (lg_pools lg)(k \<mapsto> update_rewards w infos ts),
      lg_positions := (lg_positions lg)(q \<mapsto> position_update p u)\<rparr>)"
| liquidity_changed: "lg_pools lg k = Some w \<Longrightarrow> lg_positions lg q = Some p \<Longrightarrow> pos_whirlpool p = k \<Longrightarrow>
    wp_is_enabled w \<Longrightarrow> position_permitted rt tx lg p \<Longrightarrow> d \<noteq> 0 \<Longrightarrow> in_i128 d \<Longrightarrow>
    lg_arrays lg al = Some tal \<Longrightarrow> ta_whirlpool tal = k \<Longrightarrow> lg_arrays lg au = Some tau \<Longrightarrow> ta_whirlpool tau = k \<Longrightarrow>
    calculate_modify_liquidity w p (lg_arrays lg) al au d ts = Inr m \<Longrightarrow>
    sync_modify_liquidity_values w p (lg_arrays lg) al au m ts = Inr (w', p', arrays) \<Longrightarrow>
    ts = clock tx \<and> liquidity_paid rt tx k w p d (lg_tokens lg) tokens \<Longrightarrow>
    effect rt tx lg (lg\<lparr>lg_pools := (lg_pools lg)(k \<mapsto> w'), lg_positions := (lg_positions lg)(q \<mapsto> p'),
      lg_arrays := arrays, lg_tokens := tokens\<rparr>)"
| swapped: "pool_trade rt tx lg k w' keys arrays tokens \<Longrightarrow> wp_is_enabled w' \<Longrightarrow>
    effect rt tx lg (after_swap lg k w' keys arrays tokens)"
| swapped_twice: "pool_trade rt tx lg k w' keys arrays tokens \<Longrightarrow> l \<noteq> k \<Longrightarrow>
    pool_trade rt tx (after_swap lg k w' keys arrays tokens) l x' keys' arrays' tokens' \<Longrightarrow>
    effect rt tx lg (after_swap (after_swap lg k w' keys arrays tokens) l x' keys' arrays' tokens')"

end
