(* ===== verification/Ledger.thy ===== *)
theory Ledger
  imports Ledger_Effect
begin

text \<open>
  The refinement: every handler that succeeds makes a change of one of the kinds of \<open>effect\<close>
  (\<open>process_effect\<close>).  For each handler its success is turned into the conjunction of its checks
  and its calls, which are the premises of one kind of change.
\<close>

section \<open>The handlers make changes of these kinds\<close>

lemma effect_settings:
  assumes "lg_pools lg k = Some w" "pool_tuned w w'" "pool_permitted tx lg w w'" "wp_liquidity w' = wp_liquidity w"
    and "pool_money w' = pool_money w" "rewards_timed tx w w'"
  shows "effect rt tx lg (lg\<lparr>lg_pools := (lg_pools lg)(k \<mapsto> w')\<rparr>)"
  using pool_changed [OF assms(1-4), where rt = rt and tokens = "lg_tokens lg"] assms(5,6)
  by (simp add: pool_tokens_def)

lemma pool_tuned_updates:
  "update_fee_rate w r = Inr w' \<Longrightarrow> pool_tuned w w'"
  "update_protocol_fee_rate w r = Inr w' \<Longrightarrow> pool_tuned w w'"
  "pool_tuned w (whirlpool_set_enable_flag w b)"
  "update_reward_authority w i k = Inr w' \<Longrightarrow> pool_tuned w w'"
  "update_emissions w i infos ts e = Inr w' \<Longrightarrow> pool_tuned w w'"
  "whirlpool_initialize_reward w i m v = Inr w' \<Longrightarrow> pool_tuned w w'"
  "pool_tuned w (update_rewards w infos ts)"
  "pool_tuned w (reset_protocol_fees_owed w)"
  by (auto simp: pool_tuned_def pool_id_def whirlpool_defs whirlpool_ok_def Let_def and_then_Inr_iff
    split: if_splits option.splits)

lemma liquidity_updates:
  "update_fee_rate w r = Inr w' \<Longrightarrow> wp_liquidity w' = wp_liquidity w"
  "update_protocol_fee_rate w r = Inr w' \<Longrightarrow> wp_liquidity w' = wp_liquidity w"
  "wp_liquidity (whirlpool_set_enable_flag w b) = wp_liquidity w"
  "update_reward_authority w i k = Inr w' \<Longrightarrow> wp_liquidity w' = wp_liquidity w"
  "update_emissions w i infos ts e = Inr w' \<Longrightarrow> wp_liquidity w' = wp_liquidity w"
  "whirlpool_initialize_reward w i m v = Inr w' \<Longrightarrow> wp_liquidity w' = wp_liquidity w"
  "wp_liquidity (update_rewards w infos ts) = wp_liquidity w"
  "wp_liquidity (reset_protocol_fees_owed w) = wp_liquidity w"
  by (auto simp: whirlpool_defs Let_def and_then_Inr_iff split: if_splits option.splits)

lemma money_updates:
  "update_fee_rate w r = Inr w' \<Longrightarrow> pool_money w' = pool_money w"
  "update_protocol_fee_rate w r = Inr w' \<Longrightarrow> pool_money w' = pool_money w"
  "pool_money (whirlpool_set_enable_flag w b) = pool_money w"
  "update_reward_authority w i k = Inr w' \<Longrightarrow> pool_money w' = pool_money w"
  "update_emissions w i infos ts e = Inr w' \<Longrightarrow> pool_money w' = pool_money w"
  by (auto simp: pool_money_def whirlpool_defs Let_def and_then_Inr_iff split: if_splits option.splits)

lemma arr3_update_growths:
  assumes "arr3_update infos i f = Inr infos'" "\<And>r. ri_growth_global_x64 (f r) = ri_growth_global_x64 r"
  shows "to_reward_growths infos' = to_reward_growths infos"
  using assms by (cases infos) (auto simp: arr3_update_def to_reward_growths_def split: if_splits)

lemma timed_updates:
  "update_fee_rate w r = Inr w' \<Longrightarrow> rewards_timed tx w w'"
  "update_protocol_fee_rate w r = Inr w' \<Longrightarrow> rewards_timed tx w w'"
  "rewards_timed tx w (whirlpool_set_enable_flag w b)"
  "update_reward_authority w i k = Inr w' \<Longrightarrow> rewards_timed tx w w'"
  "next_whirlpool_reward_infos w (clock tx) = Inr infos \<Longrightarrow> update_emissions w i infos (clock tx) e = Inr w' \<Longrightarrow>
    rewards_timed tx w w'"
  by (auto simp: rewards_timed_def whirlpool_defs Let_def and_then_Inr_iff split: if_splits
    dest: arr3_update_growths)

text \<open>The settings that an update leaves alone.\<close>

definition settings_kept :: "Whirlpool \<Rightarrow> Whirlpool \<Rightarrow> bool" where
  "settings_kept w w' \<longleftrightarrow> rates w' = rates w \<and> wp_is_enabled w' = wp_is_enabled w
     \<and> map reward_setting (arr3_list (wp_reward_infos w')) = map reward_setting (arr3_list (wp_reward_infos w))"

lemma rewards_permitted_same:
  "map reward_setting (arr3_list (wp_reward_infos w')) = map reward_setting (arr3_list (wp_reward_infos w)) \<Longrightarrow>
    rewards_permitted tx lg w w'"
  unfolding rewards_permitted_def by (auto simp: list_all2_conv_all_nth list_eq_iff_nth_eq)

lemma settings_kept_permitted: "settings_kept w w' \<Longrightarrow> pool_permitted tx lg w w'"
  by (simp add: settings_kept_def pool_permitted_def rewards_permitted_same)

lemma arr3_list_map: "arr3_list (arr3_map f xs) = map f (arr3_list xs)"
  by (cases xs) simp

lemma next_infos_settings:
  assumes "next_whirlpool_reward_infos w t = Inr infos"
  shows "map reward_setting (arr3_list infos) = map reward_setting (arr3_list (wp_reward_infos w))"
proof -
  have "reward_setting (reward_after d l r) = reward_setting r" for d l r
    by (simp add: reward_after_def reward_setting_def)
  then show ?thesis
    using assms by (auto simp: next_whirlpool_reward_infos_eq arr3_list_map split: if_splits)
qed

text \<open>An update of one reward, on top of rewards with the same settings.\<close>

lemma one_reward_permitted:
  assumes base: "map reward_setting (arr3_list infos) = map reward_setting (arr3_list (wp_reward_infos w))"
    and upd: "arr3_update infos i f = Inr (wp_reward_infos w')"
    and r: "arr3_get (wp_reward_infos w) i = Inr r" and ok: "reward_permitted tx lg w r"
  shows "rewards_permitted tx lg w w'"
  using assms unfolding rewards_permitted_def arr3_update_def
  by (cases infos; cases "wp_reward_infos w"; cases "wp_reward_infos w'") (auto simp: and_then_Inr_iff split: if_splits)

lemma reward_updates_permitted:
  assumes r: "arr3_get (wp_reward_infos w) i = Inr r" and ok: "reward_permitted tx lg w r"
  shows "update_reward_authority w i k = Inr w' \<Longrightarrow> pool_permitted tx lg w w'"
    "whirlpool_initialize_reward w i m v = Inr w' \<Longrightarrow> pool_permitted tx lg w w'"
    "next_whirlpool_reward_infos w ts = Inr infos \<Longrightarrow> update_emissions w i infos ts e = Inr w' \<Longrightarrow>
       pool_permitted tx lg w w'"
proof -
  assume "update_reward_authority w i k = Inr w'"
  then show "pool_permitted tx lg w w'"
    by (auto simp: update_reward_authority_def and_then_Inr_iff pool_permitted_def rates_def
      split: if_splits intro: one_reward_permitted [OF _ _ r ok])
next
  assume "whirlpool_initialize_reward w i m v = Inr w'"
  then show "pool_permitted tx lg w w'"
    by (auto simp: whirlpool_initialize_reward_def and_then_Inr_iff pool_permitted_def rates_def
      split: if_splits option.splits intro: one_reward_permitted [OF _ _ r ok])
next
  assume "next_whirlpool_reward_infos w ts = Inr infos" "update_emissions w i infos ts e = Inr w'"
  then show "pool_permitted tx lg w w'"
    by (auto simp: update_emissions_def update_rewards_def and_then_Inr_iff pool_permitted_def rates_def
      split: if_splits intro: one_reward_permitted [OF next_infos_settings _ r ok])
qed

lemma arr3_get_defined: "update_reward_authority w i k = Inr w' \<Longrightarrow> \<exists>r. arr3_get (wp_reward_infos w) i = Inr r"
  by (auto simp: update_reward_authority_def arr3_update_def and_then_Inr_iff split: if_splits)

lemma rate_updates_permitted:
  assumes "signed_by tx lg (wp_whirlpools_config w) cfg_fee_authority"
  shows "update_fee_rate w r = Inr w' \<Longrightarrow> pool_permitted tx lg w w'"
    "update_protocol_fee_rate w r = Inr w' \<Longrightarrow> pool_permitted tx lg w w'"
  using assms
  by (auto simp: update_fee_rate_def update_protocol_fee_rate_def pool_permitted_def split: if_splits
    intro: rewards_permitted_same)

lemma enable_permitted:
  "signed_by tx lg (wp_whirlpools_config w) cfg_pool_creator_authority \<Longrightarrow>
    pool_permitted tx lg w (whirlpool_set_enable_flag w b)"
  by (auto simp: whirlpool_set_enable_flag_def pool_permitted_def rates_def intro: rewards_permitted_same)

lemma reset_settings_kept: "settings_kept w (reset_protocol_fees_owed w)"
  by (simp add: settings_kept_def reset_protocol_fees_owed_def rates_def)

lemma config_handlers_effect:
  "initialize_config rt tx ic a b c d r lg = Inr lg' \<Longrightarrow> effect rt tx lg lg'"
  "initialize_fee_tier rt tx ift s r lg = Inr lg' \<Longrightarrow> effect rt tx lg lg'"
  by (auto simp: initialize_config_def initialize_fee_tier_def handler_iffs unused_def signed_by_def
    fee_tier_initialize_def update_default_fee_rate_def fee_tier_ok_def fee_tier_kept_def split: if_splits
    intro!: config_created fee_tier_stored intro: config_updates_ok)

lemma config_updates_effect:
  "set_fee_authority tx sfa lg = Inr lg' \<Longrightarrow> effect rt tx lg lg'"
  "set_collect_protocol_fees_authority tx scpfa lg = Inr lg' \<Longrightarrow> effect rt tx lg lg'"
  "set_pool_creator_authority tx spca lg = Inr lg' \<Longrightarrow> effect rt tx lg lg'"
  "set_reward_emissions_super_authority tx sresa lg = Inr lg' \<Longrightarrow> effect rt tx lg lg'"
  "set_default_protocol_fee_rate tx sdpfr r lg = Inr lg' \<Longrightarrow> effect rt tx lg lg'"
  by (auto simp: set_fee_authority_def set_collect_protocol_fees_authority_def set_pool_creator_authority_def
    set_reward_emissions_super_authority_def set_default_protocol_fee_rate_def handler_iffs
    config_permitted_def update_fee_authority_def update_collect_protocol_fees_authority_def
    update_pool_creator_authority_def update_reward_emissions_super_authority_def
    update_default_protocol_fee_rate_def config_ok_def split: if_splits intro!: config_changed)

lemma set_default_fee_rate_effect: "set_default_fee_rate tx sdfr r lg = Inr lg' \<Longrightarrow> effect rt tx lg lg'"
  by (auto simp: set_default_fee_rate_def handler_iffs update_default_fee_rate_def fee_tier_ok_def
    fee_tier_kept_def signed_by_def split: if_splits intro!: fee_tier_stored)

lemma create_token_account_Inr:
  "create_token_account rt tx lg key mint authority = Inr lg' \<Longrightarrow> tx_signer tx key
    \<and> (\<exists>tokens. rt_init_token_account rt (lg_tokens lg) key mint authority = Inr tokens \<and> lg' = lg\<lparr>lg_tokens := tokens\<rparr>)"
  by (auto simp: create_token_account_def handler_iffs)

lemma initialize_pool_effect:
  assumes "initialize_pool rt tx acc bumps s price lg = Inr lg'"
  shows "effect rt tx lg lg'"
proof -
  let ?k = "ip_whirlpool acc"
  obtain whirlpools_config and fee_tier :: FeeTier and lg1 lg2 w where
    c: "lg_configs lg (ip_whirlpools_config acc) = Some whirlpools_config"
    and f: "lg_fee_tiers lg (ip_fee_tier acc) = Some fee_tier" "ft_whirlpools_config fee_tier = ip_whirlpools_config acc"
    and a: "(?k, whirlpool_bump bumps) = rt_find_address rt [Seed_text ''whirlpool'',
      Seed_key (ip_whirlpools_config acc), Seed_key (ip_token_mint_a acc), Seed_key (ip_token_mint_b acc), u16_seed s]"
    and u: "unused rt lg ?k"
    and t1: "create_token_account rt tx (lg\<lparr>lg_pools := (lg_pools lg)(?k \<mapsto> default_whirlpool)\<rparr>)
      (ip_token_vault_a acc) (ip_token_mint_a acc) ?k = Inr lg1"
    and t2: "create_token_account rt tx lg1 (ip_token_vault_b acc) (ip_token_mint_b acc) ?k = Inr lg2"
    and w: "whirlpool_initialize default_whirlpool (ip_whirlpools_config acc, whirlpools_config)
      (whirlpool_bump bumps) s price (ft_default_fee_rate fee_tier)
      (ip_token_mint_a acc) (ip_token_vault_a acc) (ip_token_mint_b acc) (ip_token_vault_b acc) = Inr w"
    and lg': "lg2\<lparr>lg_pools := (lg_pools lg2)(?k \<mapsto> w)\<rparr> = lg'"
    using assms unfolding initialize_pool_def Let_def handler_iffs sum.inject by blast
  obtain between tokens where sg: "tx_signer tx (ip_token_vault_a acc)" "tx_signer tx (ip_token_vault_b acc)"
    and i: "rt_init_token_account rt (lg_tokens lg) (ip_token_vault_a acc) (ip_token_mint_a acc) ?k = Inr between"
      "rt_init_token_account rt between (ip_token_vault_b acc) (ip_token_mint_b acc) ?k = Inr tokens"
    and lg2: "lg2 = lg\<lparr>lg_pools := (lg_pools lg)(?k \<mapsto> default_whirlpool), lg_tokens := tokens\<rparr>"
    using create_token_account_Inr [OF t1] create_token_account_Inr [OF t2] by auto
  have "lg' = lg\<lparr>lg_pools := (lg_pools lg)(?k \<mapsto> w), lg_tokens := tokens\<rparr>"
    by (simp add: lg2 flip: lg')
  moreover have "lg_pools lg ?k = None" using u by (simp add: unused_def)
  moreover have "pool_founded rt tx lg ?k (ip_whirlpools_config acc, whirlpools_config) s (ft_default_fee_rate fee_tier)
    (ip_token_mint_a acc) (ip_token_vault_a acc) (ip_token_mint_b acc) (ip_token_vault_b acc) tokens"
    unfolding pool_founded_def using c f sg i by (auto simp flip: a)
  ultimately show ?thesis using pool_created [OF _ w] by simp
qed

lemma initialize_tick_array_effect:
  "initialize_tick_array rt tx acc t lg = Inr lg' \<Longrightarrow> effect rt tx lg lg'"
  by (auto simp: initialize_tick_array_def handler_iffs unused_def intro!: array_created)

lemma initialize_reward_effect:
  assumes "initialize_reward rt tx acc i lg = Inr lg'"
  shows "effect rt tx lg lg'"
proof -
  obtain w lg1 w' and r :: WhirlpoolRewardInfo where w: "lg_pools lg (ir_whirlpool acc) = Some w"
    and sg: "tx_signer tx (ir_reward_authority acc)" "arr3_get (wp_reward_infos w) (unat i) = Inr r"
      "ir_reward_authority acc = ri_authority r"
    and t: "create_token_account rt tx lg (ir_reward_vault acc) (ir_reward_mint acc) (ir_whirlpool acc) = Inr lg1"
    and w': "whirlpool_initialize_reward w (unat i) (ir_reward_mint acc) (ir_reward_vault acc) = Inr w'"
    and lg': "lg1\<lparr>lg_pools := (lg_pools lg1)(ir_whirlpool acc \<mapsto> w')\<rparr> = lg'"
    using assms unfolding initialize_reward_def handler_iffs sum.inject by blast
  obtain tokens where v: "tx_signer tx (ir_reward_vault acc)"
      "rt_init_token_account rt (lg_tokens lg) (ir_reward_vault acc) (ir_reward_mint acc) (ir_whirlpool acc) = Inr tokens"
    and "lg1 = lg\<lparr>lg_tokens := tokens\<rparr>" using create_token_account_Inr [OF t] by blast
  then have "lg' = lg\<lparr>lg_pools := (lg_pools lg)(ir_whirlpool acc \<mapsto> w'), lg_tokens := tokens\<rparr>"
    by (simp flip: lg')
  moreover have "pool_tokens rt tx lg (ir_whirlpool acc) w w' tokens" using w' v by (auto simp: pool_tokens_def)
  moreover have "reward_permitted tx lg w r" using sg by (simp add: reward_permitted_def)
  ultimately show ?thesis
    using pool_changed [OF w pool_tuned_updates(6) [OF w'] reward_updates_permitted(2) [OF sg(2) _ w']
      liquidity_updates(6) [OF w']] by simp
qed

lemma rate_handlers_effect:
  "set_fee_rate tx sfr r lg = Inr lg' \<Longrightarrow> effect rt tx lg lg'"
  "set_protocol_fee_rate tx spfr r lg = Inr lg' \<Longrightarrow> effect rt tx lg lg'"
  "set_enable_flag tx sef b lg = Inr lg' \<Longrightarrow> effect rt tx lg lg'"
  by (auto simp: set_fee_rate_def set_protocol_fee_rate_def set_enable_flag_def
    signed_by_def handler_iffs intro!: effect_settings intro: pool_tuned_updates liquidity_updates
    rate_updates_permitted enable_permitted money_updates timed_updates)

text \<open>Payments by a pool, out of its own vaults and into accounts of its mints.\<close>

lemma pool_pays_both:
  assumes "transfer_from_vault_to_owner rt (k, x) (wp_token_vault_a w) to_a a tokens = Inr between"
    and "transfer_from_vault_to_owner rt (k, y) (wp_token_vault_b w) to_b b between = Inr tokens'"
    and "rt_token_account rt tokens to_a = Some ta" "tok_mint ta = wp_token_mint_a w"
    and "rt_token_account rt tokens to_b = Some tb" "tok_mint tb = wp_token_mint_b w"
  shows "pool_pays rt k w a b tokens tokens'"
  using assms by (auto simp: pool_pays_def mint_of_def transfer_from_vault_to_owner_def handler_iffs)

lemma collect_protocol_fees_effect:
  assumes "collect_protocol_fees rt tx acc lg = Inr lg'"
  shows "effect rt tx lg lg'"
proof -
  let ?k = "cpf_whirlpool acc"
  obtain c w ta tb between tokens where c: "lg_configs lg (cpf_whirlpools_config acc) = Some c"
      "wp_whirlpools_config w = cpf_whirlpools_config acc" "tx_signer tx (cpf_collect_protocol_fees_authority acc)"
      "cpf_collect_protocol_fees_authority acc = cfg_collect_protocol_fees_authority c"
    and w: "lg_pools lg ?k = Some w" and v: "cpf_token_vault_a acc = wp_token_vault_a w" "cpf_token_vault_b acc = wp_token_vault_b w"
    and ta: "rt_token_account rt (lg_tokens lg) (cpf_token_destination_a acc) = Some ta" "tok_mint ta = wp_token_mint_a w"
    and tb: "rt_token_account rt (lg_tokens lg) (cpf_token_destination_b acc) = Some tb" "tok_mint tb = wp_token_mint_b w"
    and t1: "transfer_from_vault_to_owner rt (?k, w) (cpf_token_vault_a acc) (cpf_token_destination_a acc)
      (wp_protocol_fee_owed_a w) (lg_tokens lg) = Inr between"
    and t2: "transfer_from_vault_to_owner rt (?k, w) (cpf_token_vault_b acc) (cpf_token_destination_b acc)
      (wp_protocol_fee_owed_b w) between = Inr tokens"
    and lg': "lg\<lparr>lg_pools := (lg_pools lg)(?k \<mapsto> reset_protocol_fees_owed w), lg_tokens := tokens\<rparr> = lg'"
    using assms unfolding collect_protocol_fees_def handler_iffs sum.inject by blast
  have "signed_by tx lg (wp_whirlpools_config w) cfg_collect_protocol_fees_authority" using c by (auto simp: signed_by_def)
  then have "pool_tokens rt tx lg ?k w (reset_protocol_fees_owed w) tokens"
    unfolding pool_tokens_def using pool_pays_both [OF t1 [unfolded v] t2 [unfolded v] ta tb] by blast
  then show ?thesis
    unfolding lg' [symmetric] by (rule pool_changed [OF w pool_tuned_updates(8) settings_kept_permitted [OF reset_settings_kept]
      liquidity_updates(8)])
qed

lemma reward_handlers_effect:
  "set_reward_authority tx sra i lg = Inr lg' \<Longrightarrow> effect rt tx lg lg'"
  "set_reward_emissions rt tx sre i e lg = Inr lg' \<Longrightarrow> effect rt tx lg lg'"
  by (auto simp: set_reward_authority_def set_reward_emissions_def reward_permitted_def handler_iffs
    intro!: effect_settings intro: pool_tuned_updates liquidity_updates reward_updates_permitted
    money_updates timed_updates)

lemma set_reward_authority_by_super_authority_effect:
  assumes "set_reward_authority_by_super_authority tx acc i lg = Inr lg'"
  shows "effect rt tx lg lg'"
proof -
  obtain c w w' where w: "lg_pools lg (srasa_whirlpool acc) = Some w"
    and c: "lg_configs lg (wp_whirlpools_config w) = Some c"
      "tx_signer tx (cfg_reward_emissions_super_authority c)"
    and w': "update_reward_authority w (unat i) (srasa_new_reward_authority acc) = Inr w'"
    and lg': "lg' = lg\<lparr>lg_pools := (lg_pools lg)(srasa_whirlpool acc \<mapsto> w')\<rparr>"
    using assms by (auto simp: set_reward_authority_by_super_authority_def handler_iffs)
  obtain r where r: "arr3_get (wp_reward_infos w) (unat i) = Inr r" using arr3_get_defined [OF w'] by blast
  have "reward_permitted tx lg w r" using c by (simp add: reward_permitted_def signed_by_def)
  then show ?thesis
    unfolding lg' using effect_settings [OF w pool_tuned_updates(4) [OF w'] reward_updates_permitted(1) [OF r _ w']
      liquidity_updates(4) [OF w'] money_updates(4) [OF w'] timed_updates(4) [OF w']] by simp
qed

lemma position_permittedI:
  "rt_token_account rt (lg_tokens lg) key = Some ta \<Longrightarrow> tok_mint ta = pos_position_mint p \<Longrightarrow>
    tok_amount ta = 1 \<Longrightarrow> position_authority_ok tx ta authority \<Longrightarrow> position_permitted rt tx lg p"
  by (auto simp: position_permitted_def)

lemma position_kept_updates:
  "position_kept p (position_update p u)"
  "position_kept p (reset_fees_owed p)" "pos_liquidity (reset_fees_owed p) = pos_liquidity p"
  "update_reward_owed p i a = Inr p' \<Longrightarrow> position_kept p p'"
  "update_reward_owed p i a = Inr p' \<Longrightarrow> pos_liquidity p' = pos_liquidity p"
  by (auto simp: position_kept_def position_update_def reset_fees_owed_def update_reward_owed_def and_then_Inr_iff)

lemma collect_fees_effect:
  assumes "collect_fees rt tx acc lg = Inr lg'"
  shows "effect rt tx lg lg'"
proof -
  let ?k = "cf_whirlpool acc"
  obtain w p ta oa ob between tokens where p: "lg_positions lg (cf_position acc) = Some p" "pos_whirlpool p = ?k"
    and w: "lg_pools lg ?k = Some w" and v: "cf_token_vault_a acc = wp_token_vault_a w" "cf_token_vault_b acc = wp_token_vault_b w"
    and t: "rt_token_account rt (lg_tokens lg) (cf_position_token_account acc) = Some ta" "tok_mint ta = pos_position_mint p"
      "tok_amount ta = 1" "position_authority_ok tx ta (cf_position_authority acc)"
    and oa: "rt_token_account rt (lg_tokens lg) (cf_token_owner_account_a acc) = Some oa" "tok_mint oa = wp_token_mint_a w"
    and ob: "rt_token_account rt (lg_tokens lg) (cf_token_owner_account_b acc) = Some ob" "tok_mint ob = wp_token_mint_b w"
    and t1: "transfer_from_vault_to_owner rt (?k, w) (cf_token_vault_a acc) (cf_token_owner_account_a acc)
      (pos_fee_owed_a p) (lg_tokens lg) = Inr between"
    and t2: "transfer_from_vault_to_owner rt (?k, w) (cf_token_vault_b acc) (cf_token_owner_account_b acc)
      (pos_fee_owed_b p) between = Inr tokens"
    and lg': "lg\<lparr>lg_positions := (lg_positions lg)(cf_position acc \<mapsto> reset_fees_owed p), lg_tokens := tokens\<rparr> = lg'"
    using assms unfolding collect_fees_def Let_def handler_iffs sum.inject by blast
  have "position_paid rt lg p (reset_fees_owed p) tokens"
    unfolding position_paid_def p(2) using w pool_pays_both [OF t1 [unfolded v] t2 [unfolded v] oa ob] by blast
  then show ?thesis
    unfolding lg' [symmetric] by (rule position_changed [OF p(1) position_kept_updates(2,3) position_permittedI [OF t]])
qed

lemma collect_reward_effect:
  assumes "collect_reward rt tx acc i lg = Inr lg'"
  shows "effect rt tx lg lg'"
proof -
  let ?k = "cr_whirlpool acc" and ?i = "unat i"
  obtain w p ta to vault r owed p' tokens where p: "lg_positions lg (cr_position acc) = Some p" "pos_whirlpool p = ?k"
    and w: "lg_pools lg ?k = Some w" and r: "arr3_get (wp_reward_infos w) ?i = Inr r"
    and t: "rt_token_account rt (lg_tokens lg) (cr_position_token_account acc) = Some ta" "tok_mint ta = pos_position_mint p"
      "tok_amount ta = 1" "position_authority_ok tx ta (cr_position_authority acc)"
    and o: "rt_token_account rt (lg_tokens lg) (cr_reward_owner_account acc) = Some to" "tok_mint to = ri_mint r"
    and v: "rt_token_account rt (lg_tokens lg) (cr_reward_vault acc) = Some vault" "cr_reward_vault acc = ri_vault r"
    and owed: "arr3_get (pos_reward_infos p) ?i = Inr owed"
    and p': "update_reward_owed p ?i (snd (calculate_collect_reward owed (tok_amount vault))) = Inr p'"
    and pay: "transfer_from_vault_to_owner rt (?k, w) (cr_reward_vault acc) (cr_reward_owner_account acc)
      (fst (calculate_collect_reward owed (tok_amount vault))) (lg_tokens lg) = Inr tokens"
    and lg': "lg\<lparr>lg_positions := (lg_positions lg)(cr_position acc \<mapsto> p'), lg_tokens := tokens\<rparr> = lg'"
    using assms unfolding collect_reward_def Let_def case_prod_beta handler_iffs sum.inject by blast
  define paid where "paid = min (pri_amount_owed owed) (tok_amount vault)"
  have c: "calculate_collect_reward owed (tok_amount vault) = (paid, pri_amount_owed owed - paid)"
    by (auto simp: calculate_collect_reward_def paid_def Let_def min_def)
  have "mint_of rt (lg_tokens lg) (cr_reward_owner_account acc) = Some (ri_mint r)" using o by (simp add: mint_of_def)
  moreover have "rt_transfer rt (lg_tokens lg) (ri_vault r) (cr_reward_owner_account acc) ?k paid = Inr tokens"
    using pay by (simp add: c v(2) transfer_from_vault_to_owner_def handler_iffs)
  moreover have "update_reward_owed p ?i (pri_amount_owed owed - paid) = Inr p'" using p' by (simp add: c)
  ultimately have "position_paid rt lg p p' tokens"
    unfolding position_paid_def p(2) using w r owed v(1) [unfolded v(2)] paid_def by blast
  then show ?thesis
    unfolding lg' [symmetric] by (rule position_changed [OF p(1) position_kept_updates(4,5) [OF p'] position_permittedI [OF t]])
qed

lemma close_position_effect:
  assumes "close_position rt tx acc lg = Inr lg'"
  shows "effect rt tx lg lg'"
proof -
  obtain p m ta w tokens where p: "lg_positions lg (cp_position acc) = Some p" "is_position_empty p"
    and m: "rt_mint rt (lg_tokens lg) (cp_position_mint acc) = Some m" "cp_position_mint acc = pos_position_mint p"
    and w: "lg_pools lg (cp_whirlpool acc) = Some w" "cp_whirlpool acc = pos_whirlpool p" "wp_is_enabled w"
    and t: "rt_token_account rt (lg_tokens lg) (cp_position_token_account acc) = Some ta" "tok_mint ta = pos_position_mint p"
      "tok_amount ta = 1" "position_authority_ok tx ta (cp_position_authority acc)"
    and b: "burn_and_close_user_position_token rt (cp_position_authority acc) (cp_receiver acc)
      (cp_position_mint acc, m) (cp_position_token_account acc) (lg_tokens lg) = Inr tokens"
    and lg': "lg\<lparr>lg_positions := (lg_positions lg)(cp_position acc := None), lg_tokens := tokens\<rparr> = lg'"
    using assms unfolding close_position_def require_enabled_def handler_iffs not_not sum.inject by blast
  have "position_burnt rt tx (lg_tokens lg) p tokens"
    using t m(1) b unfolding position_burnt_def burn_and_close_user_position_token_def and_then_Inr_iff prod.sel m(2) by blast
  then show ?thesis
    unfolding lg' [symmetric] by (rule position_closed [OF p position_permittedI [OF t] w(1) [unfolded w(2)] w(3)])
qed

text \<open>Both forms of opening a position mint its token in the same way, one with metadata in between.\<close>

lemma create_position_accounts_Inr:
  assumes "create_position_accounts rt tx bump q m ta owner w lg = Inr lg'"
  obtains t1 t2 where "lg_positions lg q = None" "q = fst (rt_find_address rt [Seed_text ''position'', Seed_key m])"
    "tx_signer tx m" "rt_init_mint rt (lg_tokens lg) m w 0 = Inr t1" "rt_init_associated_token rt t1 ta m owner = Inr t2"
    "lg' = lg\<lparr>lg_positions := (lg_positions lg)(q \<mapsto> default_position), lg_tokens := t2\<rparr>"
proof -
  obtain t1 t2 where a: "(q, bump) = rt_find_address rt [Seed_text ''position'', Seed_key m]" and u: "unused rt lg q"
    and r: "tx_signer tx m" "rt_init_mint rt (lg_tokens lg) m w 0 = Inr t1" "rt_init_associated_token rt t1 ta m owner = Inr t2"
      "lg' = lg\<lparr>lg_positions := (lg_positions lg)(q \<mapsto> default_position), lg_tokens := t2\<rparr>"
    using assms by (auto simp: create_position_accounts_def Let_def handler_iffs)
  have "lg_positions lg q = None" "q = fst (rt_find_address rt [Seed_text ''position'', Seed_key m])"
    using u by (simp_all add: unused_def flip: a)
  then show thesis using r by (rule that)
qed

lemma open_position_effect:
  assumes "open_position rt tx acc bumps l u lg = Inr lg'"
  shows "effect rt tx lg lg'"
proof -
  let ?k = "op_whirlpool acc" and ?q = "op_position acc" and ?m = "op_position_mint acc"
  obtain w lg1 p tokens where w: "lg_pools lg ?k = Some w" "wp_is_enabled w"
    and c: "create_position_accounts rt tx (position_bump bumps) ?q ?m (op_position_token_account acc) (op_owner acc) ?k lg = Inr lg1"
    and p: "position_open default_position ?k (wp_tick_spacing w) ?m l u = Inr p"
    and t: "mint_position_token_and_remove_authority rt (?k, w) ?m (op_position_token_account acc) (lg_tokens lg1) = Inr tokens"
    and lg': "lg' = lg1\<lparr>lg_positions := (lg_positions lg1)(?q \<mapsto> p), lg_tokens := tokens\<rparr>"
    using assms by (auto simp: open_position_def require_enabled_def handler_iffs)
  obtain t1 t2 where q: "lg_positions lg ?q = None" "?q = fst (rt_find_address rt [Seed_text ''position'', Seed_key ?m])"
    and sg: "tx_signer tx ?m" and i: "rt_init_mint rt (lg_tokens lg) ?m ?k 0 = Inr t1"
      "rt_init_associated_token rt t1 (op_position_token_account acc) ?m (op_owner acc) = Inr t2"
    and lg1: "lg1 = lg\<lparr>lg_positions := (lg_positions lg)(?q \<mapsto> default_position), lg_tokens := t2\<rparr>"
    by (rule create_position_accounts_Inr [OF c])
  have "position_minted rt tx (lg_tokens lg) ?k ?q ?m tokens"
    unfolding position_minted_def using q(2) sg i t
    by (simp add: lg1 mint_position_token_and_remove_authority_def mint_position_token_def
      remove_position_token_mint_authority_def handler_iffs) (blast dest: sym)
  from position_opened [OF w q(1) p this] show ?thesis by (simp add: lg' lg1)
qed

lemma open_position_with_metadata_effect:
  assumes "open_position_with_metadata rt tx nft acc bumps l u lg = Inr lg'"
  shows "effect rt tx lg lg'"
proof -
  let ?k = "opm_whirlpool acc" and ?q = "opm_position acc" and ?m = "opm_position_mint acc"
  obtain w lg1 p tokens where w: "lg_pools lg ?k = Some w" "wp_is_enabled w" and f: "tx_signer tx (opm_funder acc)"
    and c: "create_position_accounts rt tx (with_metadata_position_bump bumps) ?q ?m (opm_position_token_account acc)
      (opm_owner acc) ?k lg = Inr lg1"
    and p: "position_open default_position ?k (wp_tick_spacing w) ?m l u = Inr p"
    and t: "mint_position_token_with_metadata_and_remove_authority rt (?k, w) ?m (opm_position_token_account acc)
      (opm_position_metadata_account acc) (opm_metadata_update_auth acc) (opm_funder acc) (lg_tokens lg1) = Inr tokens"
    and lg': "lg' = lg1\<lparr>lg_positions := (lg_positions lg1)(?q \<mapsto> p), lg_tokens := tokens\<rparr>"
    using assms by (auto simp: open_position_with_metadata_def require_enabled_def handler_iffs)
  obtain t1 t2 where q: "lg_positions lg ?q = None" "?q = fst (rt_find_address rt [Seed_text ''position'', Seed_key ?m])"
    and sg: "tx_signer tx ?m" and i: "rt_init_mint rt (lg_tokens lg) ?m ?k 0 = Inr t1"
      "rt_init_associated_token rt t1 (opm_position_token_account acc) ?m (opm_owner acc) = Inr t2"
    and lg1: "lg1 = lg\<lparr>lg_positions := (lg_positions lg)(?q \<mapsto> default_position), lg_tokens := t2\<rparr>"
    by (rule create_position_accounts_Inr [OF c])
  have "position_minted rt tx (lg_tokens lg) ?k ?q ?m tokens"
    unfolding position_minted_def using q(2) sg i t f
    by (simp add: lg1 mint_position_token_with_metadata_and_remove_authority_def mint_position_token_def
      remove_position_token_mint_authority_def handler_iffs) (blast dest: sym)
  from position_opened [OF w q(1) p this] show ?thesis by (simp add: lg' lg1)
qed

lemma calculate_growths_Inr:
  assumes "calculate_fee_and_reward_growths w p arrays kl ku t = Inr (u, infos)"
  shows "pu_liquidity u = pos_liquidity p"
proof -
  obtain a b m where
    m: "calculate_modify_liquidity_of_ticks w p a b (pos_tick_lower_index p) (pos_tick_upper_index p) 0 t = Inr m"
    and ab: "load_position_ticks w p arrays kl ku = Inr (a, b)" and u: "u = ml_position_update m"
    using assms by (auto simp: calculate_fee_and_reward_growths_def and_then_Inr_iff)
  have "calculate_modify_liquidity w p arrays kl ku 0 t = Inr m"
    using ab m by (simp add: calculate_modify_liquidity_def)
  from modify_liquidity_amounts(1) [OF this] show ?thesis by (simp add: u in_i128_def word_uint_eq_iff)
qed

lemma update_fees_and_rewards_effect:
  "update_fees_and_rewards tx acc lg = Inr lg' \<Longrightarrow> effect rt tx lg lg'"
  by (auto simp: update_fees_and_rewards_def array_of_pool_def handler_iffs intro!: position_settled)

text \<open>A deposit or a withdrawal: what is known of the accounts, and the change.\<close>

lemma convert_delta_nonzero:
  "convert_to_liquidity_delta a positive = Inr d \<Longrightarrow> a \<noteq> 0 \<Longrightarrow> d \<noteq> 0"
  by (auto simp: convert_to_liquidity_delta_Inr_iff uint_0_iff split: if_splits)

text \<open>The two vaults that the accounts name are those of the pool, the owner's two accounts are of its mints.\<close>

lemma modify_liquidity_vaults:
  assumes "modify_liquidity_accounts rt tx acc lg = Inr (w, p, ta)"
  shows "tx_signer tx (mod_position_authority acc)"
    "mod_token_vault_a acc = wp_token_vault_a w" "mod_token_vault_b acc = wp_token_vault_b w"
    "mint_of rt (lg_tokens lg) (mod_token_owner_account_a acc) = Some (wp_token_mint_a w)"
    "mint_of rt (lg_tokens lg) (mod_token_owner_account_b acc) = Some (wp_token_mint_b w)"
  using assms unfolding modify_liquidity_accounts_def handler_iffs by (auto simp: mint_of_def)

lemma sync_modify_liquidity_Inr:
  assumes "sync_modify_liquidity_values w p arrays al au m ts = Inr (w', p', arrays')"
  obtains arrays1 where
    "update_array_tick arrays al (pos_tick_lower_index p) (wp_tick_spacing w) (ml_tick_lower_update m) = Inr arrays1"
    "update_array_tick arrays1 au (pos_tick_upper_index p) (wp_tick_spacing w) (ml_tick_upper_update m) = Inr arrays'"
    "w' = update_rewards_and_liquidity w (ml_reward_infos m) (ml_whirlpool_liquidity m) ts"
    "p' = position_update p (ml_position_update m)"
  using assms by (auto simp: sync_modify_liquidity_values_def Let_def and_then_Inr_iff position_update_def)

lemma apply_liquidity_change_effect:
  assumes acc: "modify_liquidity_accounts rt tx acc lg = Inr (w, p, ta)"
    and ch: "apply_liquidity_change tx acc positive a (w, p, ta) lg = Inr (lg', w', da, db)"
    and paid: "if positive then signer_pays rt tx w da db (lg_tokens lg') tokens
      else pool_pays rt (mod_whirlpool acc) w da db (lg_tokens lg') tokens"
  shows "effect rt tx lg (lg'\<lparr>lg_tokens := tokens\<rparr>)"
proof -
  let ?k = "mod_whirlpool acc" and ?al = "mod_tick_array_lower acc" and ?au = "mod_tick_array_upper acc"
  obtain tal tau where
    ld: "lg_pools lg ?k = Some w" "lg_positions lg (mod_position acc) = Some p" "pos_whirlpool p = ?k"
    and tk: "rt_token_account rt (lg_tokens lg) (mod_position_token_account acc) = Some ta"
      "tok_mint ta = pos_position_mint p" "tok_amount ta = 1"
    and ar: "lg_arrays lg ?al = Some tal" "ta_whirlpool tal = ?k" "lg_arrays lg ?au = Some tau" "ta_whirlpool tau = ?k"
    using acc unfolding modify_liquidity_accounts_def handler_iffs by auto
  obtain d m p' arrays where
    d: "convert_to_liquidity_delta a positive = Inr d" "a \<noteq> 0" "wp_is_enabled w"
      "position_authority_ok tx ta (mod_position_authority acc)"
    and m: "calculate_modify_liquidity w p (lg_arrays lg) ?al ?au d (clock tx) = Inr m"
    and s: "sync_modify_liquidity_values w p (lg_arrays lg) ?al ?au m (clock tx) = Inr (w', p', arrays)"
    and t: "calculate_liquidity_token_deltas (wp_tick_current_index w') (wp_sqrt_price w') p' d = Inr (da, db)"
    and lg': "lg' = lg\<lparr>lg_pools := (lg_pools lg)(?k \<mapsto> w'),
       lg_positions := (lg_positions lg)(mod_position acc \<mapsto> p'), lg_arrays := arrays\<rparr>"
    using ch by (auto simp: apply_liquidity_change_def handler_iffs require_enabled_def)
  note nz = convert_delta_nonzero [OF d(1,2)]
  have "0 < d \<longleftrightarrow> positive" using d nz by (auto simp: convert_to_liquidity_delta_Inr_iff uint_0_iff order_less_le)
  moreover have same: "wp_tick_current_index w' = wp_tick_current_index w" "wp_sqrt_price w' = wp_sqrt_price w"
    "pos_tick_lower_index p' = pos_tick_lower_index p" "pos_tick_upper_index p' = pos_tick_upper_index p"
    by (rule sync_modify_liquidity_Inr [OF s];
      simp add: update_rewards_and_liquidity_def update_rewards_def position_update_def)+
  have "calculate_liquidity_token_deltas (wp_tick_current_index w) (wp_sqrt_price w) p d = Inr (da, db)"
    using t unfolding calculate_liquidity_token_deltas_def same .
  ultimately have "liquidity_paid rt tx ?k w p d (lg_tokens lg) tokens"
    using paid by (auto simp: liquidity_paid_def lg')
  from liquidity_changed [OF ld d(3) position_permittedI [OF tk d(4)] nz convert_to_liquidity_delta_in_i128 [OF d(1)]
      ar m s, OF conjI, OF refl this]
  show ?thesis unfolding lg' by simp
qed

lemma apply_liquidity_change_tokens:
  "apply_liquidity_change tx acc positive a loaded lg = Inr (lg', w', da, db) \<Longrightarrow> lg_tokens lg' = lg_tokens lg"
  by (cases loaded) (auto simp: apply_liquidity_change_def handler_iffs)

lemma liquidity_handlers_effect:
  "increase_liquidity rt tx acc l a b lg = Inr lg' \<Longrightarrow> effect rt tx lg lg'"
  "decrease_liquidity rt tx acc l a b lg = Inr lg' \<Longrightarrow> effect rt tx lg lg'"
proof -
  assume "increase_liquidity rt tx acc l a b lg = Inr lg'"
  then obtain w p ta lg1 w' x y between tokens where ma: "modify_liquidity_accounts rt tx acc lg = Inr (w, p, ta)"
    and ap: "apply_liquidity_change tx acc True l (w, p, ta) lg = Inr (lg1, w', x, y)"
    and t: "rt_transfer rt (lg_tokens lg1) (mod_token_owner_account_a acc) (mod_token_vault_a acc)
        (mod_position_authority acc) x = Inr between"
      "rt_transfer rt between (mod_token_owner_account_b acc) (mod_token_vault_b acc)
        (mod_position_authority acc) y = Inr tokens"
    and lg': "lg' = lg1\<lparr>lg_tokens := tokens\<rparr>"
    by (auto simp: increase_liquidity_def handler_iffs transfer_from_owner_to_vault_def)
  note v = modify_liquidity_vaults [OF ma]
  have "signer_pays rt tx w x y (lg_tokens lg1) tokens"
    using v(1,4,5) t unfolding signer_pays_def v(2,3) apply_liquidity_change_tokens [OF ap] by blast
  then show "effect rt tx lg lg'" unfolding lg' by (intro apply_liquidity_change_effect [OF ma ap]) simp
next
  assume "decrease_liquidity rt tx acc l a b lg = Inr lg'"
  then obtain w p ta lg1 w' x y between tokens where ma: "modify_liquidity_accounts rt tx acc lg = Inr (w, p, ta)"
    and ap: "apply_liquidity_change tx acc False l (w, p, ta) lg = Inr (lg1, w', x, y)"
    and t: "transfer_from_vault_to_owner rt (mod_whirlpool acc, w') (mod_token_vault_a acc)
        (mod_token_owner_account_a acc) x (lg_tokens lg1) = Inr between"
      "transfer_from_vault_to_owner rt (mod_whirlpool acc, w') (mod_token_vault_b acc)
        (mod_token_owner_account_b acc) y between = Inr tokens"
    and lg': "lg' = lg1\<lparr>lg_tokens := tokens\<rparr>"
    by (auto simp: decrease_liquidity_def handler_iffs)
  note v = modify_liquidity_vaults [OF ma]
  have "pool_pays rt (mod_whirlpool acc) w x y (lg_tokens lg1) tokens"
    using pool_pays_both [OF t [unfolded v(2,3)]] v(4,5) by (auto simp: mint_of_def apply_liquidity_change_tokens [OF ap])
  then show "effect rt tx lg lg'" unfolding lg' by (intro apply_liquidity_change_effect [OF ma ap]) simp
qed

section \<open>Swaps\<close>

text \<open>Inversion of a computation that may not return.\<close>

lemma run_then_Inr_iff: "run_then m f = Some (Inr y) \<longleftrightarrow> (\<exists>x. m = Some (Inr x) \<and> f x = Some (Inr y))"
  by (auto simp: run_then_def split: option.splits sum.splits)

lemma run_then_returns:
  "(\<exists>r. run_then m f = Some r) \<longleftrightarrow> (\<exists>r. m = Some r) \<and> (\<forall>x. m = Some (Inr x) \<longrightarrow> (\<exists>r. f x = Some r))"
  by (auto simp: run_then_def split: option.splits sum.splits)

lemma borrow_sequence_Inr:
  assumes "borrow_sequence borrowed k0 k1 k2 = Inr keys"
  shows "keys \<noteq> []" "distinct keys" "set keys \<subseteq> {k0, k1, k2}" "set keys \<inter> set borrowed = {}"
  using assms by (auto simp: borrow_sequence_def borrow_optional_def Let_def split: if_splits)

lemma arrays_of_Inr_iff:
  "arrays_of m keys = Inr arrays \<longleftrightarrow> map m keys = map Some arrays"
proof
  assume "arrays_of m keys = Inr arrays"
  then show "map m keys = map Some arrays"
    by (auto simp: arrays_of_def list_all_iff split: if_splits)
next
  assume eq: "map m keys = map Some arrays"
  then have "\<And>k. k \<in> set keys \<Longrightarrow> m k \<in> Some ` set arrays"
    by (metis image_eqI list.set_map)
  moreover have "arrays = map (\<lambda>k. the (m k)) keys"
    using arg_cong [OF eq, of "map the"] by (simp add: comp_def)
  ultimately show "arrays_of m keys = Inr arrays" by (auto simp: arrays_of_def list_all_iff)
qed

lemma arrays_of_owner:
  assumes "arrays_of m keys = Inr arrays" "ta \<in> set arrays"
  shows "\<exists>k \<in> set keys. m k = Some ta"
  using assms unfolding arrays_of_Inr_iff by (metis (no_types, lifting) image_iff list.set_map)

lemma store_arrays_other: "k \<notin> set keys \<Longrightarrow> store_arrays m keys arrays k = m k"
proof (induction keys arbitrary: m arrays)
  case (Cons k0 keys)
  then show ?case by (cases arrays) (simp_all add: store_arrays_def)
qed (simp add: store_arrays_def)

lemma store_arrays_nth:
  "distinct keys \<Longrightarrow> i < length keys \<Longrightarrow> i < length arrays \<Longrightarrow>
    store_arrays m keys arrays (keys ! i) = Some (arrays ! i)"
proof (induction keys arbitrary: m arrays i)
  case (Cons k0 keys)
  then obtain ta tas where a: "arrays = ta # tas" by (cases arrays) auto
  have st: "store_arrays m (k0 # keys) (ta # tas) = store_arrays (m(k0 \<mapsto> ta)) keys tas"
    by (simp add: store_arrays_def)
  show ?case
  proof (cases i)
    case 0
    then show ?thesis using Cons.prems store_arrays_other [of k0 keys "m(k0 \<mapsto> ta)" tas] by (simp add: a st)
  next
    case (Suc j)
    then show ?thesis using Cons by (simp add: a st)
  qed
qed simp

lemma arrays_of_store_other:
  assumes "set keys \<inter> set keys' = {}"
  shows "arrays_of (store_arrays m keys' arrays) keys = arrays_of m keys"
proof -
  have "\<forall>k \<in> set keys. store_arrays m keys' arrays k = m k" using assms by (auto intro: store_arrays_other)
  then show ?thesis by (auto simp: arrays_of_def list_all_iff)
qed

lemma update_and_swap_Inr:
  assumes "update_and_swap_whirlpool rt (k, w) ta oa ob va vb u a_to_b ts tokens = Inr (w', tokens')"
  shows "w' = update_after_swap w (ps_next_liquidity u) (ps_next_tick_index u) (ps_next_sqrt_price u)
     (ps_next_fee_growth_global u) (ps_next_reward_infos u) (ps_next_protocol_fee u) a_to_b ts"
  using assms by (auto simp: update_and_swap_whirlpool_def and_then_Inr_iff Let_def)

lemma swap_vaults:
  assumes "swap_accounts rt tx acc lg = Inr w"
  shows "tx_signer tx (sa_token_authority acc)" "sa_token_vault_a acc = wp_token_vault_a w" "sa_token_vault_b acc = wp_token_vault_b w"
  using assms unfolding swap_accounts_def handler_iffs by auto

lemma two_hop_vaults:
  assumes "two_hop_swap_accounts rt tx acc lg = Inr (one, two)"
  shows "tx_signer tx (th_token_authority acc)"
    "th_token_vault_one_a acc = wp_token_vault_a one" "th_token_vault_one_b acc = wp_token_vault_b one"
    "th_token_vault_two_a acc = wp_token_vault_a two" "th_token_vault_two_b acc = wp_token_vault_b two"
  using assms unfolding two_hop_swap_accounts_def handler_iffs by auto

lemma update_and_swap_transfers:
  assumes "update_and_swap_whirlpool rt (k, w) ta oa ob va vb u a_to_b ts tokens = Inr (w', tokens')"
  obtains tokens1 where
    "rt_transfer rt tokens (if a_to_b then oa else ob) (if a_to_b then va else vb) ta (swap_input a_to_b u) = Inr tokens1"
    "rt_transfer rt tokens1 (if a_to_b then vb else va) (if a_to_b then ob else oa) k (swap_output a_to_b u) = Inr tokens'"
  using assms
  by (cases a_to_b) (auto simp: update_and_swap_whirlpool_def perform_swap_def handler_iffs Let_def
    transfer_from_owner_to_vault_def transfer_from_vault_to_owner_def swap_input_def swap_output_def)

lemma update_and_swap_paid:
  assumes "update_and_swap_whirlpool rt (k, w) ta oa ob (wp_token_vault_a w) (wp_token_vault_b w) u a_to_b ts tokens = Inr (w', tokens')"
    and "tx_signer tx ta"
  shows "trade_paid rt tx k w a_to_b u tokens tokens'"
  unfolding trade_paid_def using assms(2) by (blast intro: update_and_swap_transfers [OF assms(1)])

lemma swap_accounts_Inr:
  assumes "swap_accounts rt tx acc lg = Inr w"
  shows "lg_pools lg (sa_whirlpool acc) = Some w"
    "k \<in> {sa_tick_array_0 acc, sa_tick_array_1 acc, sa_tick_array_2 acc} \<Longrightarrow>
       \<exists>ta. lg_arrays lg k = Some ta \<and> ta_whirlpool ta = sa_whirlpool acc"
  using assms unfolding swap_accounts_def handler_iffs by auto

lemma two_hop_swap_accounts_Inr:
  assumes "two_hop_swap_accounts rt tx acc lg = Inr (one, two)"
  shows "lg_pools lg (th_whirlpool_one acc) = Some one" "lg_pools lg (th_whirlpool_two acc) = Some two"
    "k \<in> {th_tick_array_one_0 acc, th_tick_array_one_1 acc, th_tick_array_one_2 acc} \<Longrightarrow>
       \<exists>ta. lg_arrays lg k = Some ta \<and> ta_whirlpool ta = th_whirlpool_one acc"
    "k \<in> {th_tick_array_two_0 acc, th_tick_array_two_1 acc, th_tick_array_two_2 acc} \<Longrightarrow>
       \<exists>ta. lg_arrays lg k = Some ta \<and> ta_whirlpool ta = th_whirlpool_two acc"
  using assms unfolding two_hop_swap_accounts_def handler_iffs by auto

text \<open>What the accounts and the borrows of a swap give: a sequence of arrays of one pool.\<close>

lemma borrowed_arrays:
  assumes keys: "borrow_sequence borrowed k0 k1 k2 = Inr keys" and arr: "arrays_of m keys = Inr arrays"
    and own: "\<And>key. key \<in> {k0, k1, k2} \<Longrightarrow> \<exists>ta. m key = Some ta \<and> ta_whirlpool ta = k"
  shows "keys \<noteq> []" "distinct keys" "\<forall>ta \<in> set arrays. ta_whirlpool ta = k"
proof -
  note b = borrow_sequence_Inr [OF keys]
  show "keys \<noteq> []" "distinct keys" by (rule b)+
  show "\<forall>ta \<in> set arrays. ta_whirlpool ta = k"
  proof
    fix ta assume "ta \<in> set arrays"
    then obtain key where "key \<in> set keys" "m key = Some ta" using arrays_of_owner [OF arr] by blast
    moreover from this have "key \<in> {k0, k1, k2}" using b(3) by blast
    ultimately show "ta_whirlpool ta = k" using own by fastforce
  qed
qed

lemma swap_instruction_Inr:
  assumes "swap_instruction rt tx acc amount other limit inp a_to_b lg = Some (Inr lg')"
  obtains w keys arrays u arrays' tokens where
    "swap_accounts rt tx acc lg = Inr w" "wp_is_enabled w" "0 \<le> tx_unix_timestamp tx"
    "borrow_sequence [] (sa_tick_array_0 acc) (sa_tick_array_1 acc) (sa_tick_array_2 acc) = Inr keys"
    "arrays_of (lg_arrays lg) keys = Inr arrays"
    "swap w arrays amount limit inp a_to_b (of_int (tx_unix_timestamp tx)) = Some (Inr (u, arrays'))"
    "check_threshold inp a_to_b other u = Inr ()"
    "update_and_swap_whirlpool rt (sa_whirlpool acc, w) (sa_token_authority acc)
       (sa_token_owner_account_a acc) (sa_token_owner_account_b acc) (sa_token_vault_a acc)
       (sa_token_vault_b acc) u a_to_b (of_int (tx_unix_timestamp tx)) (lg_tokens lg)
     = Inr (update_after_swap w (ps_next_liquidity u) (ps_next_tick_index u) (ps_next_sqrt_price u)
         (ps_next_fee_growth_global u) (ps_next_reward_infos u) (ps_next_protocol_fee u) a_to_b
         (of_int (tx_unix_timestamp tx)), tokens)"
    "lg' = lg\<lparr>lg_pools := (lg_pools lg)(sa_whirlpool acc \<mapsto> update_after_swap w (ps_next_liquidity u)
         (ps_next_tick_index u) (ps_next_sqrt_price u) (ps_next_fee_growth_global u)
         (ps_next_reward_infos u) (ps_next_protocol_fee u) a_to_b (of_int (tx_unix_timestamp tx))),
       lg_arrays := store_arrays (lg_arrays lg) keys arrays', lg_tokens := tokens\<rparr>"
proof -
  obtain w keys arrays u arrays' w' tokens where r:
    "swap_accounts rt tx acc lg = Inr w" "wp_is_enabled w" "0 \<le> tx_unix_timestamp tx"
    "borrow_sequence [] (sa_tick_array_0 acc) (sa_tick_array_1 acc) (sa_tick_array_2 acc) = Inr keys"
    "arrays_of (lg_arrays lg) keys = Inr arrays"
    "swap w arrays amount limit inp a_to_b (of_int (tx_unix_timestamp tx)) = Some (Inr (u, arrays'))"
    "check_threshold inp a_to_b other u = Inr ()"
    "update_and_swap_whirlpool rt (sa_whirlpool acc, w) (sa_token_authority acc)
       (sa_token_owner_account_a acc) (sa_token_owner_account_b acc) (sa_token_vault_a acc)
       (sa_token_vault_b acc) u a_to_b (of_int (tx_unix_timestamp tx)) (lg_tokens lg) = Inr (w', tokens)"
    "lg' = lg\<lparr>lg_pools := (lg_pools lg)(sa_whirlpool acc \<mapsto> w'),
       lg_arrays := store_arrays (lg_arrays lg) keys arrays', lg_tokens := tokens\<rparr>"
    using assms by (auto simp: swap_instruction_def run_then_Inr_iff require_enabled_def handler_iffs)
  note w' = update_and_swap_Inr [OF r(8)]
  show thesis by (rule that [OF r(1-7) r(8) [unfolded w'] r(9) [unfolded w']])
qed

lemma swap_instruction_effect:
  assumes "swap_instruction rt tx acc amount other limit inp a_to_b lg = Some (Inr lg')"
  shows "effect rt tx lg lg'"
proof (rule swap_instruction_Inr [OF assms])
  fix w :: Whirlpool and keys arrays and u :: PostSwapUpdate and arrays' tokens
  let ?w' = "update_after_swap w (ps_next_liquidity u) (ps_next_tick_index u) (ps_next_sqrt_price u)
    (ps_next_fee_growth_global u) (ps_next_reward_infos u) (ps_next_protocol_fee u) a_to_b
    (of_int (tx_unix_timestamp tx))"
  assume w: "swap_accounts rt tx acc lg = Inr w" and en: "wp_is_enabled w"
    and keys: "borrow_sequence [] (sa_tick_array_0 acc) (sa_tick_array_1 acc) (sa_tick_array_2 acc) = Inr keys"
    and arr: "arrays_of (lg_arrays lg) keys = Inr arrays"
    and s: "swap w arrays amount limit inp a_to_b (of_int (tx_unix_timestamp tx)) = Some (Inr (u, arrays'))"
    and t: "update_and_swap_whirlpool rt (sa_whirlpool acc, w) (sa_token_authority acc)
       (sa_token_owner_account_a acc) (sa_token_owner_account_b acc) (sa_token_vault_a acc)
       (sa_token_vault_b acc) u a_to_b (clock tx) (lg_tokens lg) = Inr (?w', tokens)"
    and lg': "lg' = lg\<lparr>lg_pools := (lg_pools lg)(sa_whirlpool acc \<mapsto> ?w'),
       lg_arrays := store_arrays (lg_arrays lg) keys arrays', lg_tokens := tokens\<rparr>"
  note v = swap_vaults [OF w] and b = borrowed_arrays [OF keys arr swap_accounts_Inr(2) [OF w]]
  have "pool_trade rt tx lg (sa_whirlpool acc) ?w' keys arrays' tokens"
    unfolding pool_trade_def
    using swap_accounts_Inr(1) [OF w] arr s b update_and_swap_paid [OF t [unfolded v(2,3)] v(1)] by blast
  moreover have "wp_is_enabled ?w'" using en by (simp add: update_after_swap_def Let_def)
  ultimately show ?thesis unfolding lg' after_swap_def [symmetric] by (rule swapped)
qed

text \<open>A swap over two pools is a swap on the first followed by one on the second.\<close>

lemma two_hop_updates_Inr:
  assumes "two_hop_updates one two s1 s2 amount inp d1 d2 l1 l2 ts = Some (Inr ((u1, s1'), (u2, s2')))"
  shows "swap one s1 (if inp then amount else swap_input d2 u2) l1 inp d1 ts = Some (Inr (u1, s1'))"
    "swap two s2 (if inp then swap_output d1 u1 else amount) l2 inp d2 ts = Some (Inr (u2, s2'))"
  using assms by (auto simp: two_hop_updates_def run_then_Inr_iff split: if_splits)

lemma two_hop_swap_Inr:
  assumes "two_hop_swap rt tx acc amount other inp d1 d2 l1 l2 lg = Some (Inr lg')"
  obtains one two k1 k2 s1 s2 u1 u2 s1' s2' one' two' tokens1 tokens where
    "two_hop_swap_accounts rt tx acc lg = Inr (one, two)" "th_whirlpool_one acc \<noteq> th_whirlpool_two acc"
    "(if d1 then wp_token_mint_b one else wp_token_mint_a one)
       = (if d2 then wp_token_mint_a two else wp_token_mint_b two)"
    "borrow_sequence [] (th_tick_array_one_0 acc) (th_tick_array_one_1 acc) (th_tick_array_one_2 acc) = Inr k1"
    "arrays_of (lg_arrays lg) k1 = Inr s1"
    "borrow_sequence k1 (th_tick_array_two_0 acc) (th_tick_array_two_1 acc) (th_tick_array_two_2 acc) = Inr k2"
    "arrays_of (lg_arrays lg) k2 = Inr s2"
    "two_hop_updates one two s1 s2 amount inp d1 d2 l1 l2 (of_int (tx_unix_timestamp tx))
       = Some (Inr ((u1, s1'), (u2, s2')))"
    "if inp then other \<le> swap_output d2 u2 else swap_input d1 u1 \<le> other"
    "update_and_swap_whirlpool rt (th_whirlpool_one acc, one) (th_token_authority acc)
       (th_token_owner_account_one_a acc) (th_token_owner_account_one_b acc) (th_token_vault_one_a acc)
       (th_token_vault_one_b acc) u1 d1 (of_int (tx_unix_timestamp tx)) (lg_tokens lg) = Inr (one', tokens1)"
    "update_and_swap_whirlpool rt (th_whirlpool_two acc, two) (th_token_authority acc)
       (th_token_owner_account_two_a acc) (th_token_owner_account_two_b acc) (th_token_vault_two_a acc)
       (th_token_vault_two_b acc) u2 d2 (of_int (tx_unix_timestamp tx)) tokens1 = Inr (two', tokens)"
    "lg\<lparr>lg_pools := (lg_pools lg)(th_whirlpool_one acc \<mapsto> one', th_whirlpool_two acc \<mapsto> two'),
        lg_arrays := store_arrays (store_arrays (lg_arrays lg) k1 s1') k2 s2', lg_tokens := tokens\<rparr> = lg'"
proof -
  have thr: "(if inp then reject_if (other > swap_output d2 u2) (Err AmountOutBelowMinimum)
      else reject_if (other < swap_input d1 u1) (Err AmountInAboveMaximum)) = Inr x
    \<longleftrightarrow> (if inp then other \<le> swap_output d2 u2 else swap_input d1 u1 \<le> other)"
    for u1 u2 :: PostSwapUpdate and x by (simp add: reject_if_Inr_iff not_less)
  show thesis
    using assms unfolding two_hop_swap_def Let_def run_then_Inr_iff case_prod_beta option.inject sum.inject handler_iffs thr not_not
    by (elim exE conjE) (rule that; (simp only: prod.collapse not_False_eq_True)?)
qed

lemma two_hop_swap_effect:
  assumes "two_hop_swap rt tx acc amount other inp d1 d2 l1 l2 lg = Some (Inr lg')"
  shows "effect rt tx lg lg'"
proof (rule two_hop_swap_Inr [OF assms])
  fix one two :: Whirlpool and k1 k2 s1 s2 and u1 u2 :: PostSwapUpdate and s1' s2' one' two' tokens1 tokens
  let ?ts = "of_int (tx_unix_timestamp tx) :: u64"
  let ?k = "th_whirlpool_one acc" and ?l = "th_whirlpool_two acc"
  assume p: "two_hop_swap_accounts rt tx acc lg = Inr (one, two)" "?k \<noteq> ?l"
    and k1: "borrow_sequence [] (th_tick_array_one_0 acc) (th_tick_array_one_1 acc) (th_tick_array_one_2 acc) = Inr k1"
    and s1: "arrays_of (lg_arrays lg) k1 = Inr s1"
    and k2: "borrow_sequence k1 (th_tick_array_two_0 acc) (th_tick_array_two_1 acc) (th_tick_array_two_2 acc) = Inr k2"
    and s2: "arrays_of (lg_arrays lg) k2 = Inr s2"
    and u: "two_hop_updates one two s1 s2 amount inp d1 d2 l1 l2 ?ts = Some (Inr ((u1, s1'), (u2, s2')))"
    and w1: "update_and_swap_whirlpool rt (?k, one) (th_token_authority acc)
       (th_token_owner_account_one_a acc) (th_token_owner_account_one_b acc) (th_token_vault_one_a acc)
       (th_token_vault_one_b acc) u1 d1 ?ts (lg_tokens lg) = Inr (one', tokens1)"
    and w2: "update_and_swap_whirlpool rt (?l, two) (th_token_authority acc)
       (th_token_owner_account_two_a acc) (th_token_owner_account_two_b acc) (th_token_vault_two_a acc)
       (th_token_vault_two_b acc) u2 d2 ?ts tokens1 = Inr (two', tokens)"
    and lg': "lg\<lparr>lg_pools := (lg_pools lg)(?k \<mapsto> one', ?l \<mapsto> two'),
        lg_arrays := store_arrays (store_arrays (lg_arrays lg) k1 s1') k2 s2', lg_tokens := tokens\<rparr> = lg'"
  note a = two_hop_swap_accounts_Inr [OF p(1)] and t = two_hop_updates_Inr [OF u] and v = two_hop_vaults [OF p(1)]
  define lg1 where "lg1 = after_swap lg ?k one' k1 s1' tokens1"
  have 1: "pool_trade rt tx lg ?k one' k1 s1' tokens1"
    unfolding pool_trade_def
    using a(1) s1 t(1) borrowed_arrays [OF k1 s1 a(3)] update_and_swap_Inr [OF w1]
      update_and_swap_paid [OF w1 [unfolded v(2,3)] v(1)] by blast
  have "set k2 \<inter> set k1 = {}" using borrow_sequence_Inr(4) [OF k2] .
  then have s2': "arrays_of (lg_arrays lg1) k2 = Inr s2"
    using s2 by (simp add: lg1_def after_swap_def arrays_of_store_other)
  have l2: "lg_pools lg1 ?l = Some two" using a(2) p(2) by (simp add: lg1_def after_swap_def)
  have tok: "lg_tokens lg1 = tokens1" by (simp add: lg1_def after_swap_def)
  have 2: "pool_trade rt tx lg1 ?l two' k2 s2' tokens"
    unfolding pool_trade_def tok
    using l2 s2' t(2) borrowed_arrays [OF k2 s2 a(4)] update_and_swap_Inr [OF w2]
      update_and_swap_paid [OF w2 [unfolded v(4,5)] v(1)] by blast
  have "lg' = after_swap lg1 ?l two' k2 s2' tokens" by (simp add: lg1_def after_swap_def flip: lg')
  then show ?thesis using swapped_twice [OF 1 _ 2 [unfolded lg1_def]] p(2) unfolding lg1_def by simp
qed

theorem process_effect:
  assumes "process rt nft tx ins lg = Some (Inr lg')"
  shows "effect rt tx lg lg'"
  using assms
  by (cases ins) (auto intro: config_handlers_effect config_updates_effect set_default_fee_rate_effect
    initialize_pool_effect initialize_tick_array_effect initialize_reward_effect rate_handlers_effect
    collect_protocol_fees_effect
    reward_handlers_effect set_reward_authority_by_super_authority_effect open_position_effect open_position_with_metadata_effect
    liquidity_handlers_effect update_fees_and_rewards_effect collect_fees_effect collect_reward_effect
    close_position_effect
    swap_instruction_effect two_hop_swap_effect)

end
