(* ===== verification/Ledger_Invariant.thy ===== *)
theory Ledger_Invariant
  imports Ledger
begin

text \<open>
  The invariant of the ledger and what follows from it for every run of the program: rates within
  their limits, every pool's price at its tick, every position and tick array tied to a pool, with a
  range and a layout that fit the pool's tick spacing; and swaps that return.
\<close>

section \<open>The invariant\<close>

definition pools_ok :: "(pubkey \<Rightarrow> Whirlpool option) \<Rightarrow> bool" where
  "pools_ok pools \<longleftrightarrow> (\<forall>k w. pools k = Some w \<longrightarrow> whirlpool_ok w \<and> pool_ok w)"

definition tied :: "(pubkey \<Rightarrow> Whirlpool option) \<Rightarrow> pubkey \<Rightarrow> (u16 \<Rightarrow> bool) \<Rightarrow> bool" where
  "tied pools k P \<longleftrightarrow> (case pools k of None \<Rightarrow> False | Some w \<Rightarrow> wp_tick_spacing w \<noteq> 0 \<and> P (wp_tick_spacing w))"

definition positions_ok :: "(pubkey \<Rightarrow> Whirlpool option) \<Rightarrow> (pubkey \<Rightarrow> Position option) \<Rightarrow> bool" where
  "positions_ok pools positions \<longleftrightarrow>
     (\<forall>q p. positions q = Some p \<longrightarrow> tied pools (pos_whirlpool p) (\<lambda>s. position_ok s p))"

definition tick_arrays_ok :: "(pubkey \<Rightarrow> Whirlpool option) \<Rightarrow> tick_arrays \<Rightarrow> bool" where
  "tick_arrays_ok pools arrays \<longleftrightarrow>
     (\<forall>a ta. arrays a = Some ta \<longrightarrow> tied pools (ta_whirlpool ta) (\<lambda>s. tick_array_ok s ta))"

definition ledger_ok :: "'t ledger \<Rightarrow> bool" where
  "ledger_ok lg \<longleftrightarrow> (\<forall>k c. lg_configs lg k = Some c \<longrightarrow> config_ok c)
     \<and> (\<forall>k t. lg_fee_tiers lg k = Some t \<longrightarrow> fee_tier_ok t)
     \<and> pools_ok (lg_pools lg) \<and> positions_ok (lg_pools lg) (lg_positions lg)
     \<and> tick_arrays_ok (lg_pools lg) (lg_arrays lg)"

lemma tied_SomeI: "pools k = Some w \<Longrightarrow> wp_tick_spacing w \<noteq> 0 \<Longrightarrow> P (wp_tick_spacing w) \<Longrightarrow> tied pools k P"
  by (simp add: tied_def)

lemma tied_Some: "pools k = Some w \<Longrightarrow> tied pools k P \<longleftrightarrow> wp_tick_spacing w \<noteq> 0 \<and> P (wp_tick_spacing w)"
  by (simp add: tied_def)

section \<open>Pools keep their identity\<close>

text \<open>Pools are never deleted, and their configuration, mints, vaults and tick spacing never change.\<close>

definition pools_kept :: "(pubkey \<Rightarrow> Whirlpool option) \<Rightarrow> (pubkey \<Rightarrow> Whirlpool option) \<Rightarrow> bool" where
  "pools_kept pools pools' \<longleftrightarrow>
     (\<forall>k w. pools k = Some w \<longrightarrow> (\<exists>w'. pools' k = Some w' \<and> pool_id w' = pool_id w))"

lemma pools_kept_refl [simp]: "pools_kept pools pools"
  by (simp add: pools_kept_def)

lemma pools_kept_trans: "pools_kept a b \<Longrightarrow> pools_kept b c \<Longrightarrow> pools_kept a c"
  unfolding pools_kept_def by metis

lemma pools_kept_upd:
  "pools k = None \<Longrightarrow> pools_kept pools (pools(k \<mapsto> w))"
  "pools k = Some w \<Longrightarrow> pool_id w' = pool_id w \<Longrightarrow> pools_kept pools (pools(k \<mapsto> w'))"
  by (auto simp: pools_kept_def)

lemma tied_kept: "pools_kept pools pools' \<Longrightarrow> tied pools k P \<Longrightarrow> tied pools' k P"
  unfolding pools_kept_def tied_def pool_id_def by (fastforce split: option.splits)

lemma ok_kept:
  assumes "pools_kept pools pools'"
  shows "positions_ok pools positions \<Longrightarrow> positions_ok pools' positions"
    "tick_arrays_ok pools arrays \<Longrightarrow> tick_arrays_ok pools' arrays"
  unfolding positions_ok_def tick_arrays_ok_def using tied_kept [OF assms] by blast+

lemma positions_ok_upd:
  "positions_ok pools positions \<Longrightarrow> tied pools (pos_whirlpool p) (\<lambda>s. position_ok s p) \<Longrightarrow>
    positions_ok pools (positions(q \<mapsto> p))"
  "positions_ok pools positions \<Longrightarrow> positions_ok pools (positions(q := None))"
  by (auto simp: positions_ok_def)

lemma tick_arrays_ok_upd:
  "tick_arrays_ok pools arrays \<Longrightarrow> tied pools (ta_whirlpool ta) (\<lambda>s. tick_array_ok s ta) \<Longrightarrow>
    tick_arrays_ok pools (arrays(a \<mapsto> ta))"
  by (auto simp: tick_arrays_ok_def)

lemma pools_ok_upd:
  "pools_ok pools \<Longrightarrow> whirlpool_ok w \<Longrightarrow> pool_ok w \<Longrightarrow> pools_ok (pools(k \<mapsto> w))"
  by (auto simp: pools_ok_def)

section \<open>What the changes keep\<close>

lemma initialized_pool_ok:
  assumes "whirlpool_initialize w cfg bump ts p fee ma va mb vb = Inr w'"
  shows "whirlpool_ok w'" "pool_ok w'"
proof -
  note i = whirlpool_initialize_ok [OF assms]
  have "price_in_range p" using i(1,3) by (simp add: whirlpool_ok_def)
  then show "whirlpool_ok w'" "pool_ok w'" using i tick_of_price_ok [OF i(6)] by (simp_all add: pool_ok_def)
qed

lemma pool_tuned_ok: "pool_tuned w w' \<Longrightarrow> whirlpool_ok w \<Longrightarrow> pool_ok w \<Longrightarrow> whirlpool_ok w' \<and> pool_ok w'"
  by (auto simp: pool_tuned_def pool_ok_def)

lemma position_kept_ok: "position_kept p p' \<Longrightarrow> position_ok s p \<Longrightarrow> position_ok s p'"
  by (simp add: position_kept_def position_ok_def)

lemma position_open_spacing: "position_open p k s m l u = Inr p' \<Longrightarrow> s \<noteq> 0"
  by (auto simp: position_open_def check_is_usable_tick_def checked_rem_def and_then_Inr_iff split: if_splits)

lemma tick_array_initialize_spacing: "tick_array_initialize ta k s t = Inr ta' \<Longrightarrow> s \<noteq> 0"
  by (auto simp: tick_array_initialize_def check_is_valid_start_tick_def checked_rem_def Let_def
    and_then_Inr_iff split: if_splits)

lemma opened_position_ok:
  assumes "position_open default_position k s m l u = Inr p"
  shows "s \<noteq> 0" "position_ok s p" "pos_whirlpool p = k" "pos_liquidity p = 0"
    "pos_tick_lower_index p = l" "pos_tick_upper_index p = u"
proof -
  show s: "s \<noteq> 0" by (rule position_open_spacing [OF assms])
  show "position_ok s p" "pos_whirlpool p = k" "pos_liquidity p = 0"
    "pos_tick_lower_index p = l" "pos_tick_upper_index p = u"
    using position_open_ok [OF s assms] assms
    by (auto simp: position_open_eq [OF s] default_position_def split: if_splits)
qed

lemma initialized_array_ok:
  assumes "tick_array_initialize default_tick_array k s t = Inr ta"
  shows "s \<noteq> 0" "tick_array_ok s ta" "ta_whirlpool ta = k"
proof -
  show s: "s \<noteq> 0" by (rule tick_array_initialize_spacing [OF assms])
  show "tick_array_ok s ta" by (rule tick_array_initialize_ok(1) [OF assms s])
  show "ta_whirlpool ta = k" using assms
    by (auto simp: tick_array_initialize_def and_then_Inr_iff split: if_splits)
qed

lemma update_array_tick_Inr:
  assumes "update_array_tick arrays a t s u = Inr arrays'"
  obtains ta ta' where "arrays a = Some ta" "update_tick ta t s u = Inr ta'" "arrays' = arrays(a \<mapsto> ta')"
  using assms by (auto simp: update_array_tick_def load_tick_array_Inr_iff and_then_Inr_iff)

lemma update_array_tick_ok:
  assumes ok: "tick_arrays_ok pools arrays" and u: "update_array_tick arrays a t s u = Inr arrays'"
    and own: "arrays a = Some ta" "pools (ta_whirlpool ta) = Some w" "wp_tick_spacing w = s"
  shows "tick_arrays_ok pools arrays'" "\<exists>ta'. arrays' a = Some ta' \<and> ta_whirlpool ta' = ta_whirlpool ta"
    "b \<noteq> a \<Longrightarrow> arrays' b = arrays b"
proof -
  obtain ta' where r: "update_tick ta t s u = Inr ta'" "arrays' = arrays(a \<mapsto> ta')"
    using update_array_tick_Inr [OF u] own(1) by (metis option.inject)
  have "tied pools (ta_whirlpool ta) (\<lambda>s. tick_array_ok s ta)" using ok own(1) by (auto simp: tick_arrays_ok_def)
  then have ta: "s \<noteq> 0" "tick_array_ok s ta" using own by (simp_all add: tied_Some)
  note k = update_tick_ok [OF ta(2) r(1)]
  show "tick_arrays_ok pools arrays'"
    unfolding r(2) by (rule tick_arrays_ok_upd [OF ok])
      (use own ta k in \<open>simp add: tied_Some\<close>)
  show "\<exists>ta'. arrays' a = Some ta' \<and> ta_whirlpool ta' = ta_whirlpool ta" "b \<noteq> a \<Longrightarrow> arrays' b = arrays b"
    using k r(2) by auto
qed

lemma pool_tuned_liquidity: "pool_tuned w (update_rewards_and_liquidity w infos l ts)"
  by (simp add: pool_tuned_def pool_id_def whirlpool_defs whirlpool_ok_def)

lemma pool_swap_ok:
  assumes ok: "ledger_ok lg" and s: "pool_swap lg k w' keys arrays'"
  obtains w where "lg_pools lg k = Some w" "pool_id w' = pool_id w" "whirlpool_ok w'" "pool_ok w'"
    "tick_arrays_ok (lg_pools lg) (store_arrays (lg_arrays lg) keys arrays')"
proof -
  obtain w arrays amount limit inp a_to_b ts u where w: "lg_pools lg k = Some w"
    and arr: "arrays_of (lg_arrays lg) keys = Inr arrays" and kd: "keys \<noteq> []" "distinct keys"
    and own: "\<forall>ta \<in> set arrays. ta_whirlpool ta = k"
    and r: "swap w arrays amount limit inp a_to_b ts = Some (Inr (u, arrays'))"
    and w': "w' = update_after_swap w (ps_next_liquidity u) (ps_next_tick_index u) (ps_next_sqrt_price u)
                 (ps_next_fee_growth_global u) (ps_next_reward_infos u) (ps_next_protocol_fee u) a_to_b ts"
    using s unfolding pool_swap_def by blast
  have wok: "whirlpool_ok w" "pool_ok w" using ok w by (auto simp: ledger_ok_def pools_ok_def)
  have sq: "wp_tick_spacing w \<noteq> 0 \<and> tick_array_ok (wp_tick_spacing w) ta" if ta: "ta \<in> set arrays" for ta
  proof -
    obtain a where "lg_arrays lg a = Some ta" using arrays_of_owner [OF arr ta] by blast
    then have "tied (lg_pools lg) (ta_whirlpool ta) (\<lambda>s. tick_array_ok s ta)"
      using ok by (auto simp: ledger_ok_def tick_arrays_ok_def)
    then show ?thesis using own ta w by (simp add: tied_Some)
  qed
  have "hd arrays \<in> set arrays" using arr kd(1) by (cases arrays) (auto simp: arrays_of_Inr_iff)
  then have sok: "sequence_ok (wp_tick_spacing w) arrays"
    using sq unfolding sequence_ok_def by blast
  note res = swap_respects_limits [OF wok(2) sok r]
  have ids: "array_ids arrays' = array_ids arrays" by (rule swap_ids [OF r])
  have len: "length arrays' = length keys"
    using arg_cong [OF ids, of length] arg_cong [OF arr [unfolded arrays_of_Inr_iff], of length]
    by (simp add: array_ids_def)
  have own': "ta_whirlpool ta = k" if "ta \<in> set arrays'" for ta
  proof -
    have "(ta_whirlpool ta, ta_start_tick_index ta) \<in> set (array_ids arrays)"
      using that unfolding ids [symmetric] by (auto simp: array_ids_def)
    then show ?thesis using own by (auto simp: array_ids_def)
  qed
  have "tick_arrays_ok (lg_pools lg) (store_arrays (lg_arrays lg) keys arrays')"
    unfolding tick_arrays_ok_def
  proof (intro allI impI)
    fix a ta assume a: "store_arrays (lg_arrays lg) keys arrays' a = Some ta"
    show "tied (lg_pools lg) (ta_whirlpool ta) (\<lambda>s. tick_array_ok s ta)"
    proof (cases "a \<in> set keys")
      case True
      then obtain i where i: "i < length keys" "keys ! i = a" by (auto simp: in_set_conv_nth)
      then have "ta = arrays' ! i" using a store_arrays_nth [OF kd(2) i(1), of arrays'] len by simp
      then have m: "ta \<in> set arrays'" using i(1) len by simp
      then show ?thesis using own' [OF m] w res(6) by (auto simp: tied_Some sequence_ok_def)
    next
      case False
      then have "lg_arrays lg a = Some ta" using a by (simp add: store_arrays_other)
      then show ?thesis using ok by (auto simp: ledger_ok_def tick_arrays_ok_def)
    qed
  qed
  moreover have "pool_id w' = pool_id w" "pool_ok w'" "whirlpool_ok w'"
    using res(2,5) wok(1)
    by (auto simp: w' pool_id_def pool_ok_def whirlpool_ok_def update_after_swap_def Let_def)
  ultimately show thesis using that [OF w] by simp
qed

text \<open>The invariant under a change of one account.\<close>

lemma ledger_ok_tokens [simp]: "ledger_ok (lg\<lparr>lg_tokens := t\<rparr>) = ledger_ok lg"
  by (simp add: ledger_ok_def)

lemma ledger_ok_new_pool:
  assumes "ledger_ok lg" "lg_pools lg k = None" "whirlpool_ok w" "pool_ok w"
  shows "ledger_ok (lg\<lparr>lg_pools := (lg_pools lg)(k \<mapsto> w)\<rparr>)"
  using assms ok_kept [OF pools_kept_upd(1) [where pools = "lg_pools lg", OF assms(2)]]
  by (simp add: ledger_ok_def pools_ok_upd)

lemma ledger_ok_pool:
  assumes "ledger_ok lg" "lg_pools lg k = Some w" "pool_id w' = pool_id w" "whirlpool_ok w'" "pool_ok w'"
  shows "ledger_ok (lg\<lparr>lg_pools := (lg_pools lg)(k \<mapsto> w')\<rparr>)"
  using assms ok_kept [OF pools_kept_upd(2) [where pools = "lg_pools lg", OF assms(2,3)]]
  by (simp add: ledger_ok_def pools_ok_upd)

lemma ledger_ok_pool_tuned:
  assumes "ledger_ok lg" "lg_pools lg k = Some w" "pool_tuned w w'"
  shows "ledger_ok (lg\<lparr>lg_pools := (lg_pools lg)(k \<mapsto> w')\<rparr>)"
proof (rule ledger_ok_pool [OF assms(1,2)])
  show "pool_id w' = pool_id w" using assms(3) by (simp add: pool_tuned_def)
  have "whirlpool_ok w" "pool_ok w" using assms(1,2) by (auto simp: ledger_ok_def pools_ok_def)
  then show "whirlpool_ok w'" "pool_ok w'" using pool_tuned_ok [OF assms(3)] by simp_all
qed

lemma ledger_ok_new_position:
  assumes "ledger_ok lg" "tied (lg_pools lg) (pos_whirlpool p) (\<lambda>s. position_ok s p)"
  shows "ledger_ok (lg\<lparr>lg_positions := (lg_positions lg)(q \<mapsto> p)\<rparr>)"
  using assms by (simp add: ledger_ok_def positions_ok_upd)

lemma ledger_ok_position:
  assumes ok: "ledger_ok lg" and p: "lg_positions lg q = Some p" and k: "position_kept p p'"
  shows "ledger_ok (lg\<lparr>lg_positions := (lg_positions lg)(q \<mapsto> p')\<rparr>)"
proof (rule ledger_ok_new_position [OF ok])
  have "tied (lg_pools lg) (pos_whirlpool p) (\<lambda>s. position_ok s p)"
    using ok p by (auto simp: ledger_ok_def positions_ok_def)
  then show "tied (lg_pools lg) (pos_whirlpool p') (\<lambda>s. position_ok s p')"
    using position_kept_ok [OF k] k by (auto simp: tied_def position_kept_def split: option.splits)
qed

lemma ledger_ok_arrays:
  "ledger_ok lg \<Longrightarrow> tick_arrays_ok (lg_pools lg) arrays \<Longrightarrow> ledger_ok (lg\<lparr>lg_arrays := arrays\<rparr>)"
  by (simp add: ledger_ok_def)

lemma liquidity_arrays_ok:
  assumes ok: "ledger_ok lg" and w: "lg_pools lg k = Some w"
    and a: "lg_arrays lg al = Some tal" "ta_whirlpool tal = k" "lg_arrays lg au = Some tau" "ta_whirlpool tau = k"
    and s: "sync_modify_liquidity_values w p (lg_arrays lg) al au m ts = Inr (w', p', arrays)"
  shows "tick_arrays_ok (lg_pools lg) arrays"
proof -
  obtain arrays1 where
    1: "update_array_tick (lg_arrays lg) al (pos_tick_lower_index p) (wp_tick_spacing w) (ml_tick_lower_update m) = Inr arrays1"
    and 2: "update_array_tick arrays1 au (pos_tick_upper_index p) (wp_tick_spacing w) (ml_tick_upper_update m) = Inr arrays"
    by (rule sync_modify_liquidity_Inr [OF s])
  have "tick_arrays_ok (lg_pools lg) (lg_arrays lg)" using ok by (simp add: ledger_ok_def)
  note u = update_array_tick_ok [OF this 1 a(1) _ refl]
  have u1: "tick_arrays_ok (lg_pools lg) arrays1" using u(1) a(2) w by simp
  have "\<exists>t. arrays1 au = Some t \<and> ta_whirlpool t = k"
    using u(2,3) a w by (cases "au = al") auto
  then show ?thesis using update_array_tick_ok(1) [OF u1 2 _ _ refl] w by blast
qed

lemma ledger_ok_after_swap:
  assumes ok: "ledger_ok lg" and sw: "pool_swap lg k w' keys arrays"
  shows "ledger_ok (after_swap lg k w' keys arrays tokens)"
proof -
  obtain w where w: "lg_pools lg k = Some w" "pool_id w' = pool_id w" "whirlpool_ok w'" "pool_ok w'"
    "tick_arrays_ok (lg_pools lg) (store_arrays (lg_arrays lg) keys arrays)"
    by (rule pool_swap_ok [OF ok sw])
  have "tick_arrays_ok ((lg_pools lg)(k \<mapsto> w')) (store_arrays (lg_arrays lg) keys arrays)"
    using ok_kept(2) [OF pools_kept_upd(2) [where pools = "lg_pools lg", OF w(1,2)] w(5)] .
  then show ?thesis
    using ledger_ok_arrays [OF ledger_ok_pool [OF ok w(1-4)]] by (simp add: after_swap_def)
qed

theorem effect_ledger_ok:
  assumes "effect rt tx lg lg'" "ledger_ok lg"
  shows "ledger_ok lg'"
  using assms
proof (induction rule: effect.induct)
  case (config_created lg k c)
  then show ?case by (auto simp: ledger_ok_def)
next
  case (config_changed lg k c c')
  then show ?case by (auto simp: ledger_ok_def)
next
  case (fee_tier_stored t lg k)
  then show ?case by (auto simp: ledger_ok_def)
next
  case (pool_created lg k cfg bump s price fee ma va mb vb w tokens)
  then show ?case by (simp add: ledger_ok_new_pool initialized_pool_ok)
next
  case (pool_changed lg k w w' tokens)
  then show ?case by (simp add: ledger_ok_pool_tuned)
next
  case (array_created lg k w a t ta)
  then show ?case using initialized_array_ok [OF array_created(4)]
    by (simp add: ledger_ok_def tick_arrays_ok_upd tied_Some)
next
  case (position_opened lg k w q m l u p tokens)
  then show ?case using opened_position_ok [OF position_opened(4)]
    by (simp add: ledger_ok_new_position tied_Some)
next
  case (position_closed lg q p w tokens)
  then show ?case by (simp add: ledger_ok_def positions_ok_upd)
next
  case (position_changed lg q p p' tokens)
  then show ?case by (simp add: ledger_ok_position)
next
  case (position_settled lg k w q p al au ts u infos)
  note ok = ledger_ok_pool_tuned [OF position_settled(6,1) pool_tuned_updates(7)]
  show ?case using ledger_ok_position [OF ok _ position_kept_updates(1)] position_settled(2) by simp
next
  case (liquidity_changed lg k w q p d al tal au tau ts m w' p' arrays tokens)
  have w': "pool_tuned w w'" and p': "position_kept p p'"
    using liquidity_changed(13)
    by (auto elim!: sync_modify_liquidity_Inr simp: pool_tuned_liquidity position_kept_updates)
  have ar: "tick_arrays_ok (lg_pools lg) arrays"
    by (rule liquidity_arrays_ok [OF liquidity_changed(15,1,8-11,13)])
  note ok = ledger_ok_pool_tuned [OF liquidity_changed(15,1) w']
  have "tick_arrays_ok ((lg_pools lg)(k \<mapsto> w')) arrays"
    using ok_kept(2) [OF pools_kept_upd(2) [where pools = "lg_pools lg", OF liquidity_changed(1)] ar] w'
    by (simp add: pool_tuned_def)
  then show ?case
    using ledger_ok_arrays [OF ledger_ok_position [OF ok _ p']] liquidity_changed(2) by simp
next
  case (swapped lg k w' keys arrays tokens)
  then show ?case by (simp add: ledger_ok_after_swap pool_trade_swap)
next
  case (swapped_twice lg k w' keys arrays tokens l x' keys' arrays' tokens')
  then show ?case by (simp add: ledger_ok_after_swap pool_trade_swap)
qed

lemma after_swap_pools_kept:
  assumes "pool_swap lg k w' keys arrays"
  shows "pools_kept (lg_pools lg) (lg_pools (after_swap lg k w' keys arrays tokens))"
proof -
  obtain w where w: "lg_pools lg k = Some w" "pool_id w' = pool_id w"
    using assms by (auto simp: pool_swap_def pool_id_def update_after_swap_def Let_def)
  show ?thesis
    using pools_kept_upd(2) [where pools = "lg_pools lg", OF w] by (simp add: after_swap_def fun_upd_def)
qed

theorem effect_pools_kept:
  assumes "effect rt tx lg lg'"
  shows "pools_kept (lg_pools lg) (lg_pools lg')"
  using assms
proof (induction rule: effect.induct)
  case (position_settled lg k w q p al au ts u infos)
  have "pool_id (update_rewards w infos ts) = pool_id w" by (simp add: pool_id_def update_rewards_def)
  then show ?case using pools_kept_upd(2) [where pools = "lg_pools lg", OF position_settled(1)]
    by (simp add: fun_upd_def)
next
  case (liquidity_changed lg k w q p d al tal au tau ts m w' p' arrays tokens)
  have "pool_id w' = pool_id w"
    using liquidity_changed(13)
    by (auto elim!: sync_modify_liquidity_Inr simp: pool_id_def whirlpool_defs)
  then show ?case using pools_kept_upd(2) [where pools = "lg_pools lg", OF liquidity_changed(1)]
    by (simp add: fun_upd_def)
next
  case (swapped lg k w' keys arrays tokens)
  then show ?case by (blast intro: after_swap_pools_kept pool_trade_swap)
next
  case (swapped_twice lg k w' keys arrays tokens l x' keys' arrays' tokens')
  then show ?case by (blast intro: after_swap_pools_kept pools_kept_trans pool_trade_swap)
qed (auto simp: pool_tuned_def fun_upd_def intro: pools_kept_upd [unfolded fun_upd_def])

section \<open>Every run of the program\<close>

inductive_cases stepE: "step rt nft lg lg'"

lemma step_ledger_ok: "step rt nft lg lg' \<Longrightarrow> ledger_ok lg \<Longrightarrow> ledger_ok lg'"
  by (erule stepE) (auto intro: effect_ledger_ok process_effect)

lemma step_pools_kept: "step rt nft lg lg' \<Longrightarrow> pools_kept (lg_pools lg) (lg_pools lg')"
  by (erule stepE) (auto intro: effect_pools_kept process_effect)

lemma reachable_ledger_ok: "reachable rt nft lg \<Longrightarrow> ledger_ok lg"
proof (induction rule: reachable.induct)
  case (start lg)
  then show ?case by (simp add: ledger_ok_def pools_ok_def positions_ok_def tick_arrays_ok_def)
next
  case (later lg lg')
  then show ?case by (auto intro: step_ledger_ok)
qed

section \<open>Swaps return\<close>

lemma ledger_sequence_ok:
  assumes ok: "ledger_ok lg" and w: "lg_pools lg k = Some w" and arr: "arrays_of (lg_arrays lg) keys = Inr arrays"
    and keys: "keys \<noteq> []" and own: "\<forall>ta \<in> set arrays. ta_whirlpool ta = k"
  shows "sequence_ok (wp_tick_spacing w) arrays"
proof -
  have "wp_tick_spacing w \<noteq> 0 \<and> tick_array_ok (wp_tick_spacing w) ta" if ta: "ta \<in> set arrays" for ta
  proof -
    obtain a where "lg_arrays lg a = Some ta" using arrays_of_owner [OF arr ta] by blast
    then have "tied (lg_pools lg) (ta_whirlpool ta) (\<lambda>s. tick_array_ok s ta)"
      using ok by (auto simp: ledger_ok_def tick_arrays_ok_def)
    then show ?thesis using own ta w by (simp add: tied_Some)
  qed
  moreover have "hd arrays \<in> set arrays" using arr keys by (cases arrays) (auto simp: arrays_of_Inr_iff)
  ultimately show ?thesis unfolding sequence_ok_def by blast
qed

lemma ledger_swap_returns:
  assumes ok: "ledger_ok lg" and w: "lg_pools lg k = Some w"
    and keys: "borrow_sequence borrowed k0 k1 k2 = Inr keys" and arr: "arrays_of (lg_arrays lg) keys = Inr arrays"
    and own: "\<And>key. key \<in> {k0, k1, k2} \<Longrightarrow> \<exists>ta. lg_arrays lg key = Some ta \<and> ta_whirlpool ta = k"
  shows "\<exists>r. swap w arrays amount limit inp a_to_b ts = Some r"
proof (rule swap_returns)
  show "pool_ok w" using ok w by (auto simp: ledger_ok_def pools_ok_def)
  note b = borrowed_arrays [OF keys arr own]
  show "sequence_ok (wp_tick_spacing w) arrays" by (rule ledger_sequence_ok [OF ok w arr b(1,3)])
qed

lemma swap_instruction_returns:
  assumes ok: "ledger_ok lg"
  shows "\<exists>r. swap_instruction rt tx acc amount other limit inp a_to_b lg = Some r"
proof -
  have "\<exists>r. swap w arrays amount limit inp a_to_b ts = Some r"
    if "swap_accounts rt tx acc lg = Inr w" "arrays_of (lg_arrays lg) keys = Inr arrays"
      "borrow_sequence [] (sa_tick_array_0 acc) (sa_tick_array_1 acc) (sa_tick_array_2 acc) = Inr keys"
    for w keys arrays ts
    using ledger_swap_returns [OF ok swap_accounts_Inr(1) [OF that(1)] that(3,2) swap_accounts_Inr(2) [OF that(1)]] .
  then show ?thesis
    unfolding swap_instruction_def run_then_returns by (auto simp: run_then_returns)
qed

lemma two_hop_updates_returns:
  assumes "\<And>amount limit. \<exists>r. swap one s1 amount limit inp d1 ts = Some r"
    and "\<And>amount limit. \<exists>r. swap two s2 amount limit inp d2 ts = Some r"
  shows "\<exists>r. two_hop_updates one two s1 s2 amount inp d1 d2 l1 l2 ts = Some r"
  using assms by (cases inp) (auto simp: two_hop_updates_def run_then_returns)

lemma two_hop_swap_returns:
  assumes ok: "ledger_ok lg"
  shows "\<exists>r. two_hop_swap rt tx acc amount other inp d1 d2 l1 l2 lg = Some r"
proof -
  have "\<exists>r. two_hop_updates one two s1 s2 amount inp d1 d2 l1 l2 ts = Some r"
    if a: "two_hop_swap_accounts rt tx acc lg = Inr (one, two)"
      and k1: "borrow_sequence [] (th_tick_array_one_0 acc) (th_tick_array_one_1 acc) (th_tick_array_one_2 acc) = Inr k1"
      and s1: "arrays_of (lg_arrays lg) k1 = Inr s1"
      and k2: "borrow_sequence k1 (th_tick_array_two_0 acc) (th_tick_array_two_1 acc) (th_tick_array_two_2 acc) = Inr k2"
      and s2: "arrays_of (lg_arrays lg) k2 = Inr s2"
    for one two k1 k2 s1 s2 ts
    using two_hop_swap_accounts_Inr [OF a]
    by (intro two_hop_updates_returns ledger_swap_returns [OF ok _ k1 s1] ledger_swap_returns [OF ok _ k2 s2])
  then show ?thesis
    unfolding two_hop_swap_def run_then_returns Let_def by (auto simp: run_then_returns case_prod_beta)
qed

lemma process_returns: "ledger_ok lg \<Longrightarrow> \<exists>r. process rt nft tx ins lg = Some r"
  by (cases ins) (auto simp: swap_instruction_returns two_hop_swap_returns)

end
