(* ===== verification/Sample_Ledger.thy ===== *)
theory Sample_Ledger
  imports Samples Ledger_Invariant
begin

text \<open>
  A concrete runtime and two concrete ledgers, on which the properties of the program are exercised:
  \<open>sample_run\<close>, reached from the empty ledger by three transactions, and \<open>sample_ledger\<close>, which holds
  the pool of the samples with its arrays, a position and the accounts of a trader.  The token
  program of the samples moves balances between accounts of one mint, on behalf of the owner.
\<close>

section \<open>A runtime\<close>

record sample_tokens =
  st_accounts :: "pubkey \<Rightarrow> TokenAccount option"
  st_mints :: "pubkey \<Rightarrow> Mint option"

definition sample_transfer ::
  "sample_tokens \<Rightarrow> pubkey \<Rightarrow> pubkey \<Rightarrow> pubkey \<Rightarrow> u64 \<Rightarrow> sample_tokens result" where
  "sample_transfer tokens src dst authority amount =
     (case (st_accounts tokens src, st_accounts tokens dst) of
        (Some a, Some b) \<Rightarrow>
          if tok_owner a \<noteq> authority \<or> tok_amount a < amount \<or> tok_mint a \<noteq> tok_mint b
             \<or> tok_amount b + amount < amount then Inl Refused
          else if src = dst then Inr tokens
          else Inr (tokens\<lparr>st_accounts := (st_accounts tokens)
                 (src \<mapsto> a\<lparr>tok_amount := tok_amount a - amount\<rparr>,
                  dst \<mapsto> b\<lparr>tok_amount := tok_amount b + amount\<rparr>)\<rparr>)
      | _ \<Rightarrow> Inl Refused)"

definition sample_open :: "sample_tokens \<Rightarrow> pubkey \<Rightarrow> pubkey \<Rightarrow> pubkey \<Rightarrow> sample_tokens result" where
  "sample_open tokens key mint authority = Inr (tokens\<lparr>st_accounts := (st_accounts tokens)
     (key \<mapsto> \<lparr>tok_mint = mint, tok_owner = authority, tok_amount = 0, tok_delegate = None,
              tok_delegated_amount = 0\<rparr>)\<rparr>)"

definition sample_mint_to ::
  "sample_tokens \<Rightarrow> pubkey \<Rightarrow> pubkey \<Rightarrow> pubkey \<Rightarrow> u64 \<Rightarrow> sample_tokens result" where
  "sample_mint_to tokens mint dst authority amount =
     (case st_accounts tokens dst of None \<Rightarrow> Inl Refused
      | Some a \<Rightarrow> Inr (tokens\<lparr>st_accounts := (st_accounts tokens)
          (dst \<mapsto> a\<lparr>tok_amount := tok_amount a + amount\<rparr>)\<rparr>))"

fun sample_address :: "seed list \<Rightarrow> pubkey \<times> u8" where
  "sample_address (Seed_text t # rest) =
     (if t = ''whirlpool'' then (Pubkey 9, 255)
      else if t = ''fee_tier'' then (Pubkey 30, 254)
      else if t = ''position'' then (Pubkey 50, 253)
      else if t = ''oracle'' then (Pubkey 60, 252)
      else if rest = [Seed_key (Pubkey 9), Seed_text ''0''] then (Pubkey 70, 251)
      else (Pubkey 71, 250))"
| "sample_address _ = (Pubkey 0, 0)"

definition sample_runtime :: "sample_tokens runtime" where
  "sample_runtime = \<lparr>rt_token_account = st_accounts, rt_mint = st_mints, rt_transfer = sample_transfer,
     rt_burn_checked = (\<lambda>tokens account mint authority amount decimals. case st_accounts tokens account of
       None \<Rightarrow> Inl Refused
     | Some a \<Rightarrow> if tok_owner a \<noteq> authority then Inl Refused
         else Inr (tokens\<lparr>st_accounts := (st_accounts tokens)(account := None)\<rparr>)),
     rt_close_account = (\<lambda>tokens account receiver authority. Inr tokens),
     rt_mint_to = sample_mint_to,
     rt_set_mint_authority = (\<lambda>tokens mint new_authority authority. Inr tokens),
     rt_create_metadata = (\<lambda>tokens metadata mint authority funder update_authority. Inr tokens),
     rt_init_mint = (\<lambda>tokens key authority decimals.
       Inr (tokens\<lparr>st_mints := (st_mints tokens)(key \<mapsto> \<lparr>mint_decimals = decimals\<rparr>)\<rparr>)),
     rt_init_token_account = sample_open, rt_init_associated_token = sample_open,
     rt_find_address = sample_address, rt_create_address = (\<lambda>seeds. Some (fst (sample_address seeds)))\<rparr>"

text \<open>A transaction signed by every key but the pool's and the default one.\<close>

definition sample_tx :: tx where
  "sample_tx = \<lparr>tx_signer = (\<lambda>k. k \<noteq> Pubkey 9 \<and> k \<noteq> default_pubkey), tx_unix_timestamp = 0\<rparr>"

lemma sample_tx_simps [simp]:
  "tx_signer sample_tx k \<longleftrightarrow> k \<noteq> Pubkey 9 \<and> k \<noteq> Pubkey 0" "tx_unix_timestamp sample_tx = 0"
  by (simp_all add: sample_tx_def default_pubkey_def)

section \<open>A run from the empty ledger\<close>

definition sample_start :: "sample_tokens ledger" where
  "sample_start = \<lparr>lg_configs = Map.empty, lg_fee_tiers = Map.empty, lg_pools = Map.empty,
     lg_positions = Map.empty, lg_arrays = Map.empty,
     lg_tokens = \<lparr>st_accounts = Map.empty,
       st_mints = [Pubkey 1 \<mapsto> \<lparr>mint_decimals = 6\<rparr>, Pubkey 3 \<mapsto> \<lparr>mint_decimals = 9\<rparr>]\<rparr>\<rparr>"

definition sample_config :: WhirlpoolsConfig where
  "sample_config = \<lparr>cfg_fee_authority = Pubkey 21, cfg_collect_protocol_fees_authority = Pubkey 22,
     cfg_reward_emissions_super_authority = Pubkey 23, cfg_pool_creator_authority = Pubkey 24,
     cfg_default_protocol_fee_rate = 300\<rparr>"

definition sample_fee_tier :: FeeTier where
  "sample_fee_tier = \<lparr>ft_whirlpools_config = Pubkey 20, ft_tick_spacing = 64, ft_default_fee_rate = 3000\<rparr>"

definition new_pool :: Whirlpool where
  "new_pool = default_whirlpool\<lparr>wp_is_enabled := True, wp_whirlpools_config := Pubkey 20,
     wp_whirlpool_bump := 255, wp_tick_spacing := 64, wp_tick_spacing_seed := (64, 0), wp_fee_rate := 3000,
     wp_protocol_fee_rate := 300, wp_sqrt_price := 18446744073709551616, wp_token_mint_a := Pubkey 1,
     wp_token_vault_a := Pubkey 2, wp_token_mint_b := Pubkey 3, wp_token_vault_b := Pubkey 4,
     wp_reward_infos := arr3_of (reward_info_new (Pubkey 23))\<rparr>"

definition sample_account :: "pubkey \<Rightarrow> pubkey \<Rightarrow> u64 \<Rightarrow> TokenAccount" where
  "sample_account mint authority amount = \<lparr>tok_mint = mint, tok_owner = authority, tok_amount = amount,
     tok_delegate = None, tok_delegated_amount = 0\<rparr>"

definition sample_run :: "sample_tokens ledger" where
  "sample_run = sample_start\<lparr>lg_configs := [Pubkey 20 \<mapsto> sample_config],
     lg_fee_tiers := [Pubkey 30 \<mapsto> sample_fee_tier], lg_pools := [Pubkey 9 \<mapsto> new_pool],
     lg_tokens := (lg_tokens sample_start)\<lparr>st_accounts :=
       [Pubkey 2 \<mapsto> sample_account (Pubkey 1) (Pubkey 9) 0, Pubkey 4 \<mapsto> sample_account (Pubkey 3) (Pubkey 9) 0]\<rparr>\<rparr>"

lemma sample_config_created:
  "process sample_runtime nft sample_tx
     (Initialize_config \<lparr>ic_config = Pubkey 20, ic_funder = Pubkey 99\<rparr> (Pubkey 21) (Pubkey 22) (Pubkey 23)
        (Pubkey 24) 300) sample_start = Some (Inr (sample_start\<lparr>lg_configs := [Pubkey 20 \<mapsto> sample_config]\<rparr>))"
  by (simp add: initialize_config_def signer_def create_def unused_def sample_start_def sample_runtime_def
    config_initialize_def update_default_protocol_fee_rate_def MAX_PROTOCOL_FEE_RATE_def default_config_def
    sample_config_def)

lemma sample_fee_tier_created:
  "process sample_runtime nft sample_tx
     (Initialize_fee_tier \<lparr>ift_config = Pubkey 20, ift_fee_tier = Pubkey 30, ift_funder = Pubkey 99,
        ift_fee_authority = Pubkey 21\<rparr> 64 3000) (sample_start\<lparr>lg_configs := [Pubkey 20 \<mapsto> sample_config]\<rparr>)
     = Some (Inr (sample_start\<lparr>lg_configs := [Pubkey 20 \<mapsto> sample_config],
         lg_fee_tiers := [Pubkey 30 \<mapsto> sample_fee_tier]\<rparr>))"
  by (simp add: initialize_fee_tier_def account_def signer_def pda_def create_def unused_def address_def
    sample_start_def sample_runtime_def fee_tier_initialize_def update_default_fee_rate_def MAX_FEE_RATE_def
    default_fee_tier_def sample_config_def sample_fee_tier_def)

lemma tick_of_one: "tick_index_from_sqrt_price 18446744073709551616 = Inr 0"
  by (rule tick_of_tick_price)
    (auto intro: price_eq simp: tick_in_range_def MIN_TICK_INDEX_def MAX_TICK_INDEX_def)

lemma sample_pool_created:
  "process sample_runtime nft sample_tx
     (Initialize_pool \<lparr>ip_whirlpools_config = Pubkey 20, ip_token_mint_a = Pubkey 1, ip_token_mint_b = Pubkey 3,
        ip_funder = Pubkey 99, ip_whirlpool = Pubkey 9, ip_token_vault_a = Pubkey 2, ip_token_vault_b = Pubkey 4,
        ip_fee_tier = Pubkey 30\<rparr> \<lparr>whirlpool_bump = 255\<rparr> 64 18446744073709551616)
     (sample_start\<lparr>lg_configs := [Pubkey 20 \<mapsto> sample_config], lg_fee_tiers := [Pubkey 30 \<mapsto> sample_fee_tier]\<rparr>)
     = Some (Inr sample_run)"
proof -
  have "whirlpool_initialize default_whirlpool (Pubkey 20, sample_config) 255 64 18446744073709551616 3000
    (Pubkey 1) (Pubkey 2) (Pubkey 3) (Pubkey 4) = Inr new_pool"
    by (simp add: whirlpool_initialize_def less_eq_pubkey_def word_le_nat_alt MIN_SQRT_PRICE_X64_def MAX_SQRT_PRICE_X64_def
      update_fee_rate_def update_protocol_fee_rate_def MAX_FEE_RATE_def MAX_PROTOCOL_FEE_RATE_def
      sample_config_def new_pool_def tick_of_one to_le_bytes_def default_whirlpool_def)
  then show ?thesis
    by (simp add: initialize_pool_def account_def signer_def pda_with_bump_def create_def unused_def has_one_def
      create_token_account_def sample_open_def sample_start_def sample_runtime_def sample_run_def
      sample_fee_tier_def sample_account_def fun_upd_twist)
qed

lemma sample_run_reachable: "reachable sample_runtime nft sample_run"
proof -
  have "reachable sample_runtime nft sample_start" by (rule reachable.start) (simp_all add: sample_start_def)
  then show ?thesis
    by (rule reachable.later [OF reachable.later [OF reachable.later [OF _ step.transaction [OF sample_config_created]]
      step.transaction [OF sample_fee_tier_created]] step.transaction [OF sample_pool_created]])
qed

text \<open>A fourth and a fifth transaction: a tick array, and a position over two of its ticks.\<close>

definition sample_run_array :: "sample_tokens ledger" where
  "sample_run_array = sample_run\<lparr>lg_arrays := [Pubkey 70 \<mapsto> empty_array 0]\<rparr>"

definition opened_position :: Position where
  "opened_position = default_position\<lparr>pos_whirlpool := Pubkey 9, pos_position_mint := Pubkey 51,
     pos_tick_lower_index := 0, pos_tick_upper_index := 128\<rparr>"

definition sample_run_position :: "sample_tokens ledger" where
  "sample_run_position = sample_run_array\<lparr>lg_positions := [Pubkey 50 \<mapsto> opened_position],
     lg_tokens := (lg_tokens sample_run)\<lparr>
       st_accounts := (st_accounts (lg_tokens sample_run))(Pubkey 82 \<mapsto> sample_account (Pubkey 51) (Pubkey 85) 1),
       st_mints := (st_mints (lg_tokens sample_run))(Pubkey 51 \<mapsto> \<lparr>mint_decimals = 0\<rparr>)\<rparr>\<rparr>"

lemma new_pool_fields [simp]:
  "wp_tick_spacing new_pool = 64" "wp_is_enabled new_pool" "wp_liquidity new_pool = 0"
  "wp_sqrt_price new_pool = 18446744073709551616" "wp_tick_current_index new_pool = 0"
  by (simp_all add: new_pool_def default_whirlpool_def)

lemma sample_array_created:
  "process sample_runtime nft sample_tx (Initialize_tick_array \<lparr>ita_whirlpool = Pubkey 9, ita_funder = Pubkey 99,
     ita_tick_array = Pubkey 70\<rparr> 0) sample_run = Some (Inr sample_run_array)"
proof -
  have "tick_array_initialize default_tick_array (Pubkey 9) 64 0 = Inr (empty_array 0)"
    by (simp add: tick_array_initialize_def check_is_valid_start_tick_eq MIN_TICK_INDEX_def MAX_TICK_INDEX_def
      ticks_in_array_def TICK_ARRAY_SIZE_def empty_array_def)
  moreover have "to_string 0 = ''0''" by (simp add: to_string_def decimal.simps) code_simp
  moreover have "unused sample_runtime sample_run (Pubkey 70)"
    by (simp add: unused_def sample_runtime_def sample_run_def sample_start_def)
  moreover have "lg_pools sample_run (Pubkey 9) = Some new_pool" "lg_arrays sample_run = Map.empty"
    by (simp_all add: sample_run_def sample_start_def)
  ultimately show ?thesis
    by (simp add: initialize_tick_array_def account_def signer_def pda_def create_def sample_run_array_def)
      (simp add: sample_runtime_def)
qed

lemma sample_position_opened:
  "process sample_runtime nft sample_tx (Open_position \<lparr>op_funder = Pubkey 99, op_owner = Pubkey 85,
     op_position = Pubkey 50, op_position_mint = Pubkey 51, op_position_token_account = Pubkey 82,
     op_whirlpool = Pubkey 9\<rparr> \<lparr>position_bump = 253\<rparr> 0 128) sample_run_array = Some (Inr sample_run_position)"
proof -
  have p: "position_open default_position (Pubkey 9) 64 (Pubkey 51) 0 128 = Inr opened_position"
    by (simp add: position_open_eq usable_tick_def tick_in_range_def MIN_TICK_INDEX_def MAX_TICK_INDEX_def
      opened_position_def)
  have w: "lg_pools sample_run_array (Pubkey 9) = Some new_pool"
    by (simp add: sample_run_array_def sample_run_def)
  show ?thesis
    unfolding process.simps open_position_def using p w
    by (simp add: account_def signer_def create_position_accounts_def require_enabled_def pda_with_bump_def
      create_def unused_def mint_position_token_and_remove_authority_def mint_position_token_def
      remove_position_token_mint_authority_def signed_by_pool_def whirlpool_seeds_def)
     (simp add: sample_runtime_def sample_run_array_def sample_run_def sample_start_def sample_run_position_def
      sample_open_def sample_mint_to_def sample_account_def fun_upd_twist)
qed

lemma sample_run_position_reachable: "reachable sample_runtime nft sample_run_position"
  by (rule reachable.later [OF reachable.later [OF sample_run_reachable step.transaction [OF sample_array_created]]
      step.transaction [OF sample_position_opened]])

section \<open>A ledger with a trader and a position\<close>

definition sample_position :: Position where
  "sample_position = default_position\<lparr>pos_whirlpool := Pubkey 9, pos_position_mint := Pubkey 51,
     pos_tick_lower_index := 0, pos_tick_upper_index := 64, pos_fee_owed_a := 7, pos_fee_owed_b := 5\<rparr>"

definition sample_ledger :: "sample_tokens ledger" where
  "sample_ledger = \<lparr>lg_configs = [default_pubkey \<mapsto> sample_config], lg_fee_tiers = Map.empty,
     lg_pools = [Pubkey 9 \<mapsto> sample_pool], lg_positions = [Pubkey 50 \<mapsto> sample_position],
     lg_arrays = [Pubkey 70 \<mapsto> empty_array 0, Pubkey 71 \<mapsto> empty_array 5632],
     lg_tokens = \<lparr>st_accounts =
         [Pubkey 2 \<mapsto> sample_account (Pubkey 1) (Pubkey 9) 5000000,
          Pubkey 4 \<mapsto> sample_account (Pubkey 3) (Pubkey 9) 5000000,
          Pubkey 80 \<mapsto> sample_account (Pubkey 1) (Pubkey 85) 0,
          Pubkey 81 \<mapsto> sample_account (Pubkey 3) (Pubkey 85) 2000000,
          Pubkey 82 \<mapsto> sample_account (Pubkey 51) (Pubkey 85) 1],
       st_mints = [Pubkey 1 \<mapsto> \<lparr>mint_decimals = 6\<rparr>, Pubkey 3 \<mapsto> \<lparr>mint_decimals = 9\<rparr>,
          Pubkey 51 \<mapsto> \<lparr>mint_decimals = 0\<rparr>]\<rparr>\<rparr>"

lemma sample_ledger_ok: "ledger_ok sample_ledger"
proof -
  have w: "whirlpool_ok sample_pool"
    by (simp add: whirlpool_ok_def sample_pool_def price_in_range_def MAX_FEE_RATE_def MAX_PROTOCOL_FEE_RATE_def
      MIN_SQRT_PRICE_X64_def MAX_SQRT_PRICE_X64_def less_pubkey_def word_less_nat_alt)
  have p: "position_ok 64 sample_position"
    by (simp add: position_ok_def usable_tick_def tick_in_range_def sample_position_def MIN_TICK_INDEX_def
      MAX_TICK_INDEX_def)
  have o: "ta_whirlpool (empty_array t) = Pubkey 9" for t by (simp add: empty_array_def)
  have a: "tick_array_ok 64 (empty_array 0)" "tick_array_ok 64 (empty_array 5632)"
    using sample_sequence_ok by (simp_all add: sequence_ok_def)
  show ?thesis
    using w p a sample_pool_ok
    by (simp add: ledger_ok_def sample_ledger_def config_ok_def sample_config_def MAX_PROTOCOL_FEE_RATE_def
      pools_ok_def positions_ok_def tick_arrays_ok_def tied_def o) (simp add: sample_position_def)
qed

definition sample_swap_accounts :: SwapAccounts where
  "sample_swap_accounts = \<lparr>sa_token_authority = Pubkey 85, sa_whirlpool = Pubkey 9,
     sa_token_owner_account_a = Pubkey 80, sa_token_vault_a = Pubkey 2,
     sa_token_owner_account_b = Pubkey 81, sa_token_vault_b = Pubkey 4,
     sa_tick_array_0 = Pubkey 70, sa_tick_array_1 = Pubkey 71, sa_tick_array_2 = Pubkey 71,
     sa_oracle = Pubkey 60\<rparr>"

definition swapped_pool :: Whirlpool where
  "swapped_pool = update_after_swap sample_pool 1000000000000 0 18446762465113393104 53680025254
     (wp_reward_infos sample_pool) 90 False 0"

definition sample_swapped :: "sample_tokens ledger" where
  "sample_swapped = sample_ledger\<lparr>lg_pools := [Pubkey 9 \<mapsto> swapped_pool],
     lg_tokens := (lg_tokens sample_ledger)\<lparr>st_accounts :=
         [Pubkey 2 \<mapsto> sample_account (Pubkey 1) (Pubkey 9) 4003001,
          Pubkey 4 \<mapsto> sample_account (Pubkey 3) (Pubkey 9) 6000000,
          Pubkey 80 \<mapsto> sample_account (Pubkey 1) (Pubkey 85) 996999,
          Pubkey 81 \<mapsto> sample_account (Pubkey 3) (Pubkey 85) 1000000,
          Pubkey 82 \<mapsto> sample_account (Pubkey 51) (Pubkey 85) 1]\<rparr>\<rparr>"

lemma sample_swap_accepted:
  "swap_accounts sample_runtime sample_tx sample_swap_accounts sample_ledger = Inr sample_pool"
  by (simp add: swap_accounts_def sample_swap_accounts_def signer_def account_def sample_ledger_def
    sample_runtime_def raw_constraint_def address_def has_one_def pda_def sample_account_def empty_array_def
    sample_pool_def)

lemma sample_transfers:
  "update_and_swap_whirlpool sample_runtime (Pubkey 9, sample_pool) (Pubkey 85) (Pubkey 80) (Pubkey 81)
     (Pubkey 2) (Pubkey 4) sample_update False 0 (lg_tokens sample_ledger)
   = Inr (swapped_pool, lg_tokens sample_swapped)"
  by (simp add: update_and_swap_whirlpool_def perform_swap_def transfer_from_owner_to_vault_def
    transfer_from_vault_to_owner_def signed_by_pool_def whirlpool_seeds_def sample_runtime_def
    sample_transfer_def sample_ledger_def sample_swapped_def sample_account_def sample_update_def
    swapped_pool_def fun_upd_twist)

lemma sample_swap_processed:
  "process sample_runtime nft sample_tx (Swap sample_swap_accounts 1000000 900000 79226673515401279992447579055
     True False) sample_ledger = Some (Inr sample_swapped)"
proof -
  have e: "require_enabled sample_pool = Inr ()" by (simp add: require_enabled_def sample_pool_def)
  have t: "to_timestamp_u64 0 = Inr 0" by (simp add: to_timestamp_u64_def)
  have k: "borrow_sequence [] (Pubkey 70) (Pubkey 71) (Pubkey 71) = Inr [Pubkey 70, Pubkey 71]"
    by (simp add: borrow_sequence_def borrow_optional_def)
  have a: "arrays_of (lg_arrays sample_ledger) [Pubkey 70, Pubkey 71] = Inr sample_arrays"
    by (simp add: arrays_of_def sample_ledger_def)
  have c: "check_threshold True False 900000 sample_update = Inr ()"
    by (simp add: check_threshold_def sample_update_def)
  have st: "store_arrays (lg_arrays sample_ledger) [Pubkey 70, Pubkey 71] sample_arrays = lg_arrays sample_ledger"
    by (auto simp: store_arrays_def sample_ledger_def)
  have p: "(lg_pools sample_ledger)(Pubkey 9 \<mapsto> swapped_pool) = [Pubkey 9 \<mapsto> swapped_pool]"
    by (simp add: sample_ledger_def)
  have l: "sample_ledger\<lparr>lg_pools := [Pubkey 9 \<mapsto> swapped_pool], lg_tokens := lg_tokens sample_swapped\<rparr> = sample_swapped"
    by (simp add: sample_ledger_def sample_swapped_def)
  show ?thesis
    unfolding process.simps swap_instruction_def sample_swap_accepted run_then_def
    by (simp add: e t k a c sample_swap sample_transfers st p l sample_swap_accounts_def)
qed

end
