(* ===== verification/Ledger_Access.thy ===== *)
theory Ledger_Access
  imports Ledger_Invariant
begin

text \<open>
  Who may change what: the permissions that every change of the ledger comes with, read off its kind.
  A pool's settings change only by the authorities of its configuration and of its rewards; a
  position is closed, or its liquidity changed, only by the holder of its token, and only while the
  pool is enabled; a configuration only by its own authorities.
\<close>

section \<open>Pools\<close>

lemma settings_kept_trans: "settings_kept a b \<Longrightarrow> settings_kept b c \<Longrightarrow> settings_kept a c"
  by (simp add: settings_kept_def)

lemma swap_settings_kept:
  assumes "swap w arrays amount limit inp a_to_b ts = Some (Inr (u, arrays'))"
  shows "settings_kept w (update_after_swap w (ps_next_liquidity u) (ps_next_tick_index u)
    (ps_next_sqrt_price u) (ps_next_fee_growth_global u) (ps_next_reward_infos u) (ps_next_protocol_fee u)
    a_to_b ts)"
proof -
  have "next_whirlpool_reward_infos w ts = Inr (ps_next_reward_infos u)"
    using assms by (auto simp: swap_def swap_checks_def swap_finish_def Let_def split: sum.splits option.splits if_splits)
  from next_infos_settings [OF this] show ?thesis
    by (simp add: settings_kept_def rates_def update_after_swap_def Let_def)
qed

lemma after_swap_pools:
  assumes "pool_swap lg k w' keys arrays"
  shows "\<exists>w. lg_pools lg k = Some w \<and> settings_kept w w' \<and> wp_whirlpools_config w' = wp_whirlpools_config w"
    "lg_pools (after_swap lg k w' keys arrays tokens) = (lg_pools lg)(k \<mapsto> w')"
    "lg_configs (after_swap lg k w' keys arrays tokens) = lg_configs lg"
    "lg_positions (after_swap lg k w' keys arrays tokens) = lg_positions lg"
    "lg_fee_tiers (after_swap lg k w' keys arrays tokens) = lg_fee_tiers lg"
  using assms by (auto simp: pool_swap_def after_swap_def update_after_swap_def Let_def
    intro: swap_settings_kept [unfolded update_after_swap_def Let_def])

lemma settings_kept_refl: "settings_kept w w"
  by (simp add: settings_kept_def)

lemma growths_settings:
  assumes "calculate_fee_and_reward_growths w p arrays al au ts = Inr (u, infos)"
  shows "settings_kept w (update_rewards w infos ts)"
proof -
  have "next_whirlpool_reward_infos w ts = Inr infos"
    using assms by (auto simp: calculate_fee_and_reward_growths_def calculate_modify_liquidity_of_ticks_def
      and_then_Inr_iff Let_def case_prod_beta split: if_splits)
  from next_infos_settings [OF this] show ?thesis
    by (simp add: settings_kept_def rates_def update_rewards_def)
qed

lemma liquidity_settings:
  assumes m: "calculate_modify_liquidity w p arrays al au d ts = Inr m"
    and s: "sync_modify_liquidity_values w p arrays al au m ts' = Inr (w', p', arrays')"
  shows "settings_kept w w'"
proof -
  have "next_whirlpool_reward_infos w ts = Inr (ml_reward_infos m)"
    by (rule modify_liquidity_Inr [OF m])
  from next_infos_settings [OF this] s show ?thesis
    by (auto elim!: sync_modify_liquidity_Inr
      simp: settings_kept_def rates_def update_rewards_and_liquidity_def update_rewards_def)
qed

lemma pool_permitted_same: "pool_permitted tx lg w w"
  by (rule settings_kept_permitted [OF settings_kept_refl])

lemma effect_pool_permitted:
  assumes "effect rt tx lg lg'" "lg_pools lg k = Some w"
  shows "\<exists>w'. lg_pools lg' k = Some w' \<and> pool_permitted tx lg w w'"
  using assms
proof (induction rule: effect.induct)
  case (pool_changed lg k' w1 w' tokens)
  then show ?case by (cases "k = k'") (auto intro: pool_permitted_same)
next
  case (position_settled lg k' w1 q p al au ts u infos)
  then show ?case
    by (cases "k = k'") (auto intro: pool_permitted_same settings_kept_permitted growths_settings)
next
  case (liquidity_changed lg k' w1 q p d al tal au tau ts m w' p' arrays tokens)
  then show ?case
    by (cases "k = k'") (auto intro: pool_permitted_same settings_kept_permitted liquidity_settings)
next
  case (swapped lg k' w' keys arrays tokens)
  then show ?case using after_swap_pools [OF pool_trade_swap [OF swapped(1)]]
    by (cases "k = k'") (auto intro: pool_permitted_same settings_kept_permitted)
next
  case (swapped_twice lg k' w' keys arrays tokens l x' keys' arrays' tokens')
  show ?case
    using swapped_twice(2,4) after_swap_pools [OF pool_trade_swap [OF swapped_twice(1)]]
      after_swap_pools [OF pool_trade_swap [OF swapped_twice(3)]]
    by (cases "k = k'"; cases "k = l") (auto intro: pool_permitted_same settings_kept_permitted)
qed (auto intro: pool_permitted_same)

section \<open>Positions\<close>

text \<open>
  What may happen to a position: it stays as it is or is settled; or its owner acts on it.  Closing
  needs it to be empty, closing and changing the liquidity need the pool to be enabled.
\<close>

definition position_change_ok ::
  "'t runtime \<Rightarrow> tx \<Rightarrow> 't ledger \<Rightarrow> Position \<Rightarrow> Position option \<Rightarrow> bool" where
  "position_change_ok rt tx lg p changed \<longleftrightarrow>
     (case changed of
        None \<Rightarrow> is_position_empty p
      | Some p' \<Rightarrow> position_kept p p')
     \<and> (map_option pos_liquidity changed \<noteq> Some (pos_liquidity p) \<longrightarrow>
          position_permitted rt tx lg p
          \<and> (\<exists>w. lg_pools lg (pos_whirlpool p) = Some w \<and> wp_is_enabled w))"

lemma position_kept_refl: "position_kept p p"
  by (simp add: position_kept_def)

lemma position_change_ok_same: "position_change_ok rt tx lg p (Some p)"
  by (simp add: position_change_ok_def position_kept_refl)

lemma effect_position_permitted:
  assumes "effect rt tx lg lg'" "lg_positions lg q = Some p"
  shows "position_change_ok rt tx lg p (lg_positions lg' q)"
  using assms
proof (induction rule: effect.induct)
  case (position_closed lg q' p1 w tokens)
  then show ?case by (cases "q = q'") (auto simp: position_change_ok_def position_kept_refl)
next
  case (position_changed lg q' p1 p' tokens)
  then show ?case by (cases "q = q'") (auto simp: position_change_ok_def position_kept_refl)
next
  case (position_settled lg k w q' p1 al au ts u infos)
  then show ?case using calculate_growths_Inr [OF position_settled(4)]
    by (cases "q = q'")
      (auto simp: position_change_ok_def position_kept_def position_update_def)
next
  case (liquidity_changed lg k w q' p1 d al tal au tau ts m w' p' arrays tokens)
  have "position_kept p1 p'"
    using liquidity_changed(13) by (auto elim!: sync_modify_liquidity_Inr simp: position_kept_updates)
  then show ?case using liquidity_changed
    by (cases "q = q'") (auto simp: position_change_ok_def position_kept_refl)
next
  case (swapped lg k' w' keys arrays tokens)
  then show ?case by (simp add: after_swap_def position_change_ok_same)
next
  case (swapped_twice lg k' w' keys arrays tokens l x' keys' arrays' tokens')
  then show ?case by (simp add: after_swap_def position_change_ok_same)
qed (auto simp: position_change_ok_same)

text \<open>A position is opened in an enabled pool only, without liquidity.\<close>

lemma effect_position_opened:
  assumes "effect rt tx lg lg'" "lg_positions lg q = None" "lg_positions lg' q = Some p"
  shows "pos_liquidity p = 0 \<and> (\<exists>w. lg_pools lg (pos_whirlpool p) = Some w \<and> wp_is_enabled w)"
  using assms
  by (induction rule: effect.induct)
    (auto simp: after_swap_def opened_position_ok split: if_splits)

section \<open>Configurations and fee tiers\<close>

lemma config_permitted_refl: "config_permitted tx c c"
  by (simp add: config_permitted_def)

lemma effect_config_permitted:
  assumes "effect rt tx lg lg'" "lg_configs lg k = Some c"
  shows "\<exists>c'. lg_configs lg' k = Some c' \<and> config_permitted tx c c'"
  using assms
proof (induction rule: effect.induct)
  case (config_changed lg k' c1 c')
  then show ?case by (cases "k = k'") (auto simp: config_permitted_refl)
qed (auto simp: config_permitted_refl after_swap_def)

lemma effect_fee_tier_permitted:
  assumes "effect rt tx lg lg'" "lg_fee_tiers lg' k = Some t" "lg_fee_tiers lg k \<noteq> Some t"
  shows "signed_by tx lg (ft_whirlpools_config t) cfg_fee_authority"
  using assms by (induction rule: effect.induct) (auto simp: after_swap_def split: if_splits)

end
