(* ===== verification/Sample_Hop.thy ===== *)
theory Sample_Hop
  imports Sample_Ledger Ledger_Access
begin

text \<open>
  A swap across two concrete pools.  The first pool is disabled; the second takes what the first
  gives out.
\<close>

definition hop_runtime :: "sample_tokens runtime" where
  "hop_runtime = sample_runtime\<lparr>rt_create_address := (\<lambda>seeds.
     Some (if Seed_key (Pubkey 1) \<in> set seeds then Pubkey 10 else Pubkey 9))\<rparr>"

definition hop_one :: Whirlpool where
  "hop_one = sample_pool\<lparr>wp_is_enabled := False, wp_token_mint_a := Pubkey 3, wp_token_mint_b := Pubkey 5\<rparr>"

definition hop_two :: Whirlpool where
  "hop_two = sample_pool\<lparr>wp_token_vault_a := Pubkey 12, wp_token_vault_b := Pubkey 14\<rparr>"

definition hop_array :: "i32 \<Rightarrow> TickArray" where
  "hop_array t = (empty_array t)\<lparr>ta_whirlpool := Pubkey 10\<rparr>"

definition hop_ledger :: "sample_tokens ledger" where
  "hop_ledger = \<lparr>lg_configs = Map.empty, lg_fee_tiers = Map.empty,
     lg_pools = [Pubkey 9 \<mapsto> hop_one, Pubkey 10 \<mapsto> hop_two], lg_positions = Map.empty,
     lg_arrays = [Pubkey 70 \<mapsto> empty_array 0, Pubkey 71 \<mapsto> empty_array 5632,
       Pubkey 72 \<mapsto> hop_array 0, Pubkey 73 \<mapsto> hop_array 5632],
     lg_tokens = \<lparr>st_accounts =
         [Pubkey 2 \<mapsto> sample_account (Pubkey 3) (Pubkey 9) 5000000,
          Pubkey 4 \<mapsto> sample_account (Pubkey 5) (Pubkey 9) 5000000,
          Pubkey 12 \<mapsto> sample_account (Pubkey 1) (Pubkey 10) 5000000,
          Pubkey 14 \<mapsto> sample_account (Pubkey 3) (Pubkey 10) 5000000,
          Pubkey 80 \<mapsto> sample_account (Pubkey 1) (Pubkey 85) 0,
          Pubkey 81 \<mapsto> sample_account (Pubkey 3) (Pubkey 85) 0,
          Pubkey 83 \<mapsto> sample_account (Pubkey 5) (Pubkey 85) 2000000],
       st_mints = Map.empty\<rparr>\<rparr>"

definition hop_accounts :: TwoHopSwap where
  "hop_accounts = \<lparr>th_token_authority = Pubkey 85, th_whirlpool_one = Pubkey 9, th_whirlpool_two = Pubkey 10,
     th_token_owner_account_one_a = Pubkey 81, th_token_vault_one_a = Pubkey 2,
     th_token_owner_account_one_b = Pubkey 83, th_token_vault_one_b = Pubkey 4,
     th_token_owner_account_two_a = Pubkey 80, th_token_vault_two_a = Pubkey 12,
     th_token_owner_account_two_b = Pubkey 81, th_token_vault_two_b = Pubkey 14,
     th_tick_array_one_0 = Pubkey 70, th_tick_array_one_1 = Pubkey 71, th_tick_array_one_2 = Pubkey 71,
     th_tick_array_two_0 = Pubkey 72, th_tick_array_two_1 = Pubkey 73, th_tick_array_two_2 = Pubkey 73,
     th_oracle_one = Pubkey 60, th_oracle_two = Pubkey 60\<rparr>"

definition hop_update :: PostSwapUpdate where
  "hop_update = \<lparr>ps_amount_a = 994007, ps_amount_b = 996999, ps_next_liquidity = 1000000000000,
     ps_next_tick_index = 0, ps_next_sqrt_price = 18446762409920734835,
     ps_next_fee_growth_global = 53532451301, ps_next_reward_infos = wp_reward_infos sample_pool,
     ps_next_protocol_fee = 89\<rparr>"

abbreviation hop_arrays :: SwapTickSequence where "hop_arrays \<equiv> [hop_array 0, hop_array 5632]"

section \<open>The two swaps\<close>

lemma hop_views: "swap_view hop_one = swap_view sample_pool" "swap_view hop_two = swap_view sample_pool"
  by (simp_all add: swap_view_def hop_one_def hop_two_def)

lemma hop_array_start [simp]: "ta_start_tick_index (hop_array t) = t"
  by (simp add: hop_array_def)

lemma hop_array_ok: "tick_array_ok 64 (empty_array t) \<Longrightarrow> tick_array_ok 64 (hop_array t)"
  by (simp add: tick_array_ok_def hop_array_def)

lemma hop_sequence_ok: "sequence_ok 64 hop_arrays"
  using sample_sequence_ok by (simp add: sequence_ok_def hop_array_ok)

lemma hop_array_search:
  assumes "tick_array_ok 64 (hop_array t)" "in_search_range (hop_array t) x 64 (\<not> a_to_b)"
  shows "array_get_next_init_tick_index (hop_array t) x 64 a_to_b = Inr None"
proof -
  have none: "\<not> initialized_at 64 (hop_array t) y" for y
    by (auto simp: initialized_at_def hop_array_def empty_array_def default_tick_array_def default_tick_def
        TICK_ARRAY_SIZE_USIZE_def)
  obtain r where r: "array_get_next_init_tick_index (hop_array t) x 64 a_to_b = Inr r"
    using array_search_returns(1) [OF assms] by blast
  then show ?thesis
    using array_search_correct [OF assms(1) r] none by (cases r) (auto simp: next_initialized_def)
qed

lemma hop_search: "get_next_initialized_tick_index hop_arrays 0 64 False 0 = Inr (1, 11263)"
proof -
  have "array_get_next_init_tick_index (hop_array 0) 0 64 False = Inr None"
    "array_get_next_init_tick_index (hop_array 5632) 5631 64 False = Inr None"
    using hop_sequence_ok
    by (auto intro!: hop_array_search simp: sequence_ok_def in_search_range_eq ticks_in_array_def TICK_ARRAY_SIZE_def)
  then show ?thesis
    by (simp add: get_next_initialized_tick_index_def sequence_search_loop.simps is_max_tick_array_def
        to_i32_id TICK_ARRAY_SIZE_def MAX_TICK_INDEX_def Let_def)
qed

lemma hop_amounts:
  "get_amount_delta_a 18446744073709551616 18446762409920734835 1000000000000 False = Inr 994007"
  "get_amount_delta_b 18446744073709551616 18446762409920734835 1000000000000 True = Inr 994008"
  "checked_mul_div 996999 997000 1000000 = Inr 994008"
  "get_next_sqrt_price 18446744073709551616 1000000000000 994008 True False = Inr 18446762409920734835"
  subgoal by (rule get_amount_delta_a_eq) (simp_all add: amount_a_def round_div_def)
  by code_simp+

lemma hop_compute: "compute_swap 996999 3000 1000000000000 18446744073709551616 32395182592301051927 True False
    = Inr \<lparr>amount_in = 994008, amount_out = 994007, next_price = 18446762409920734835, fee_amount = 2991\<rparr>"
  by (simp add: compute_swap_def get_amount_fixed_delta_def get_amount_unfixed_delta_def sample_amounts_in(1)
      hop_amounts FEE_RATE_MUL_VALUE_def try_into_u64_def)

lemma hop_steps:
  "calculate_fees 2991 300 1000000000000 0 0 = Inr (89, 53532451301)"
  "tick_index_from_sqrt_price 18446762409920734835 = Inr 0"
  "swap_checks sample_pool 996999 79226673515401279992447579055 False 0 = Inr (wp_reward_infos sample_pool)"
  by code_simp+

lemma hop_swap:
  "swap sample_pool hop_arrays 996999 79226673515401279992447579055 True False 0
     = Some (Inr (hop_update, hop_arrays))"
  by (simp add: swap_def hop_steps swap_loop.simps swap_step_def swap_start_def get_next_sqrt_prices_def
      hop_search sample_target hop_compute step_amounts_def checked_sub_def checked_add_def swap_finish_def
      hop_update_def)

lemma hop_updates:
  "two_hop_updates hop_one hop_two sample_arrays hop_arrays 1000000 True False False
     79226673515401279992447579055 79226673515401279992447579055 0
   = Some (Inr ((sample_update, sample_arrays), (hop_update, hop_arrays)))"
proof -
  have o: "swap_output False sample_update = 996999" by (simp add: swap_output_def sample_update_def)
  show ?thesis
    unfolding two_hop_updates_def swap_reads_view [OF hop_views(1)] swap_reads_view [OF hop_views(2)]
    by (simp add: run_then_def sample_swap o hop_swap)
qed

section \<open>The instruction\<close>

lemma hop_accepted:
  "two_hop_swap_accounts hop_runtime sample_tx hop_accounts hop_ledger = Inr (hop_one, hop_two)"
  by (simp add: two_hop_swap_accounts_def hop_accounts_def signer_def account_def hop_ledger_def hop_runtime_def
    sample_runtime_def raw_constraint_def address_def pda_def sample_account_def empty_array_def hop_array_def
    hop_one_def hop_two_def sample_pool_def)

lemma hop_transfers:
  "\<exists>tokens. update_and_swap_whirlpool hop_runtime (Pubkey 9, hop_one) (Pubkey 85) (Pubkey 81) (Pubkey 83)
     (Pubkey 2) (Pubkey 4) sample_update False 0 (lg_tokens hop_ledger)
   = Inr (update_after_swap hop_one 1000000000000 0 18446762465113393104 53680025254
       (wp_reward_infos sample_pool) 90 False 0, tokens)
   \<and> (\<exists>w t. update_and_swap_whirlpool hop_runtime (Pubkey 10, hop_two) (Pubkey 85) (Pubkey 80) (Pubkey 81)
     (Pubkey 12) (Pubkey 14) hop_update False 0 tokens = Inr (w, t))"
  by (simp add: update_and_swap_whirlpool_def perform_swap_def transfer_from_owner_to_vault_def
    transfer_from_vault_to_owner_def signed_by_pool_def whirlpool_seeds_def hop_runtime_def sample_runtime_def
    sample_transfer_def hop_ledger_def sample_account_def sample_update_def hop_update_def
    update_after_swap_def hop_one_def hop_two_def sample_pool_def default_whirlpool_def default_pubkey_def Let_def)

lemma hop_processed:
  "\<exists>lg'. process hop_runtime (Pubkey 90) sample_tx (Two_hop_swap hop_accounts 1000000 900000 True False False
     79226673515401279992447579055 79226673515401279992447579055) hop_ledger = Some (Inr lg')"
proof -
  have t: "to_timestamp_u64 0 = Inr 0" by (simp add: to_timestamp_u64_def)
  have k: "borrow_sequence [] (Pubkey 70) (Pubkey 71) (Pubkey 71) = Inr [Pubkey 70, Pubkey 71]"
    "borrow_sequence [Pubkey 70, Pubkey 71] (Pubkey 72) (Pubkey 73) (Pubkey 73) = Inr [Pubkey 72, Pubkey 73]"
    by (simp_all add: borrow_sequence_def borrow_optional_def)
  have a: "arrays_of (lg_arrays hop_ledger) [Pubkey 70, Pubkey 71] = Inr sample_arrays"
    "arrays_of (lg_arrays hop_ledger) [Pubkey 72, Pubkey 73] = Inr hop_arrays"
    by (simp_all add: arrays_of_def hop_ledger_def)
  have m: "wp_token_mint_a hop_one = Pubkey 3" "wp_token_mint_b hop_two = Pubkey 3"
    by (simp_all add: hop_one_def hop_two_def sample_pool_def)
  have o: "swap_output False hop_update = 994007" by (simp add: swap_output_def hop_update_def)
  show ?thesis
    using hop_transfers
    unfolding process.simps two_hop_swap_def hop_accepted run_then_def
    by (auto simp: t k a m o hop_updates hop_accounts_def reject_if_def)
qed

lemma hop_ledger_ok: "ledger_ok hop_ledger"
proof -
  have w: "whirlpool_ok hop_one" "whirlpool_ok hop_two"
    by (simp_all add: whirlpool_ok_def hop_one_def hop_two_def sample_pool_def price_in_range_def MAX_FEE_RATE_def
      MAX_PROTOCOL_FEE_RATE_def MIN_SQRT_PRICE_X64_def MAX_SQRT_PRICE_X64_def less_pubkey_def word_less_nat_alt)
  have p: "pool_ok hop_one" "pool_ok hop_two" "wp_tick_spacing hop_one = 64" "wp_tick_spacing hop_two = 64"
    using sample_pool_ok by (simp_all add: pool_ok_def hop_one_def hop_two_def)
  have o: "ta_whirlpool (empty_array t) = Pubkey 9" "ta_whirlpool (hop_array t) = Pubkey 10" for t
    by (simp_all add: empty_array_def hop_array_def)
  have a: "tick_array_ok 64 (empty_array 0)" "tick_array_ok 64 (empty_array 5632)"
    "tick_array_ok 64 (hop_array 0)" "tick_array_ok 64 (hop_array 5632)"
    using sample_sequence_ok hop_sequence_ok by (simp_all add: sequence_ok_def)
  show ?thesis
    using w p a by (simp add: ledger_ok_def hop_ledger_def pools_ok_def positions_ok_def tick_arrays_ok_def tied_def o)
qed

end
