(* ===== verification/Pool_Properties.thy ===== *)
theory Pool_Properties
  imports Samples Liquidity_Manager
begin

text \<open>
  What the parts of a pool promise: where tick arrays start and which ticks they hold, the search for
  the next initialized tick in one array and in the sequence of a swap, the growth of fees and
  rewards inside a range of ticks, and the changes of liquidity of ticks, pools and positions.
\<close>

definition sample_tick_update :: "u128 \<Rightarrow> TickUpdate" where
  "sample_tick_update gross = default_tick_update\<lparr>tu_initialized := True, tu_liquidity_net := 500,
     tu_liquidity_gross := gross, tu_fee_growth_outside_a := 70\<rparr>"

definition sample_tick :: Tick where
  "sample_tick = tick_update default_tick (sample_tick_update 500)"

definition sample_array :: TickArray where
  "sample_array = (empty_array 0)\<lparr>ta_ticks := (replicate 88 default_tick)[2 := sample_tick]\<rparr>"

lemma sample_tick_fields [simp]:
  "tk_initialized sample_tick" "tk_liquidity_net sample_tick = 500" "tk_liquidity_gross sample_tick = 500"
  "tk_fee_growth_outside_a sample_tick = 70" "tk_fee_growth_outside_b sample_tick = 0"
  by (simp_all add: sample_tick_def sample_tick_update_def tick_update_def default_tick_update_def)

lemma sample_array_updated: "update_tick (empty_array 0) 128 64 (sample_tick_update 500) = Inr sample_array"
proof -
  have ok: "tick_array_ok 64 (empty_array 0)" using sample_sequence_ok by (simp add: sequence_ok_def)
  have h: "holds_tick 64 (empty_array 0) 128"
    by (simp add: holds_tick_def empty_array_def ticks_in_array_def TICK_ARRAY_SIZE_def tick_in_range_def
      MIN_TICK_INDEX_def MAX_TICK_INDEX_def)
  have s: "slot 64 (empty_array 0) 128 = 2" by (simp add: slot_def)
  show ?thesis
    unfolding update_tick_eq [OF ok] using h s
    by (simp add: sample_array_def sample_tick_def) (simp add: empty_array_def default_tick_array_def TICK_ARRAY_SIZE_USIZE_def)
qed

lemma sample_array_ok: "tick_array_ok 64 sample_array"
proof -
  have ok: "tick_array_ok 64 (empty_array 0)" using sample_sequence_ok by (simp add: sequence_ok_def)
  show ?thesis by (rule update_tick_ok(1) [OF ok sample_array_updated])
qed

lemma sample_array_search: "array_get_next_init_tick_index sample_array 0 64 False = Inr (Some 128)"
  by code_simp

section \<open>Tick arrays\<close>

text \<open>
  Every tick of the range lies in exactly one valid tick array: there is exactly one valid
  start tick whose array covers it.
\<close>

theorem start_ticks_partition:
  assumes "s \<noteq> 0" "tick_in_range t"
  shows "\<exists>!start. check_is_valid_start_tick start s = Inr True \<and> start \<le> t \<and> t < start + ticks_in_array s"
proof
  let ?n = "ticks_in_array s"
  have n: "0 < ?n" using ticks_in_array_bounds(1) [OF assms(1)] .
  have b: "t div ?n * ?n \<le> t" "t < t div ?n * ?n + ?n"
    using n pos_mod_bound [OF n, of t] pos_mod_sign [OF n, of t] div_mult_mod_eq [of t ?n] by linarith+
  then show "check_is_valid_start_tick (t div ?n * ?n) s = Inr True \<and> t div ?n * ?n \<le> t \<and> t < t div ?n * ?n + ?n"
    using assms(2) by (simp add: check_is_valid_start_tick_eq [OF assms(1)] tick_in_range_def)
  fix start assume st: "check_is_valid_start_tick start s = Inr True \<and> start \<le> t \<and> t < start + ?n"
  then have "?n dvd start" by (simp add: check_is_valid_start_tick_eq [OF assms(1)])
  then obtain k where k: "start = ?n * k" by (rule dvdE)
  have "t div ?n = k" using st n unfolding k by (intro int_div_pos_eq [of _ _ _ "t - ?n * k"]) auto
  then show "start = t div ?n * ?n" by (simp add: k)
qed

theorem start_ticks_partition_witness:
  "\<exists>!start. check_is_valid_start_tick start 64 = Inr True \<and> start \<le> -443636 \<and> -443636 < start + ticks_in_array 64"
  by (rule start_ticks_partition) (simp_all add: tick_in_range_def MIN_TICK_INDEX_def MAX_TICK_INDEX_def)

text \<open>
  C27: The search for the next initialized tick in one tick array succeeds exactly when the
  starting tick is in its range, and gives the nearest initialized tick in the direction of the
  trade if there is one.
\<close>

theorem array_search_finds_next:
  assumes "tick_array_ok s ta"
  shows "if in_search_range ta t s (\<not> a_to_b)
    then \<exists>r. array_get_next_init_tick_index ta t s a_to_b = Inr r \<and> next_initialized (initialized_at s ta) a_to_b t r
    else array_get_next_init_tick_index ta t s a_to_b = Inl (Err InvalidTickArraySequence)"
  using array_search_returns [OF assms, of t a_to_b] array_search_correct [OF assms, of t a_to_b] by auto

theorem array_search_finds_next_witness: "next_initialized (initialized_at 64 sample_array) False 0 (Some 128)"
  using array_search_finds_next [OF sample_array_ok, of 0 False] sample_array_search by (simp split: if_splits)

text \<open>
  C26: The search for the next initialized tick over the tick arrays of a swap ends at an
  initialized tick, at an end of the range of ticks or at the edge of the last array, and passes
  no initialized tick of the arrays it walks through.
\<close>

theorem sequence_search_skips_no_tick:
  assumes "sequence_ok s arrays" "get_next_initialized_tick_index arrays t s a_to_b i = Inr (j, x)"
  shows "i \<le> j \<and> j < length arrays \<and> search_stop s arrays a_to_b j x
    \<and> (\<forall>k y. i \<le> k \<and> k \<le> j \<and> initialized_at s (arrays ! k) y \<longrightarrow> \<not> ahead a_to_b t y x)"
  using sequence_search_correct [OF assms(1)] sequence_search_skips [OF assms(1)] assms(2)
  unfolding get_next_initialized_tick_index_def by blast

theorem sequence_search_skips_no_tick_witness: "search_stop 64 sample_arrays False 1 11263"
  using sequence_search_skips_no_tick [OF sample_sequence_ok sample_search] by simp

section \<open>Growth inside a range\<close>

text \<open>
  C32: Crossing a tick keeps the growth of the fees inside every range that the tick bounds, and
  crossing it back restores the tick.
\<close>

theorem crossing_keeps_growth_inside:
  assumes "next_tick_cross_update t ga gb infos = Inr u" "tk_initialized t"
  shows "((cur < l \<longleftrightarrow> \<not> cur' < l) \<and> (cur < h \<longleftrightarrow> cur' < h) \<longrightarrow>
      next_fee_growths_inside cur' (tick_update t u) l other h ga gb = next_fee_growths_inside cur t l other h ga gb)
    \<and> ((cur < l \<longleftrightarrow> cur' < l) \<and> (cur < h \<longleftrightarrow> \<not> cur' < h) \<longrightarrow>
      next_fee_growths_inside cur' other l (tick_update t u) h ga gb = next_fee_growths_inside cur other l t h ga gb)
    \<and> (\<forall>v. next_tick_cross_update (tick_update t u) ga gb infos = Inr v \<longrightarrow> tick_update (tick_update t u) v = t)"
  using cross_keeps_growths_inside [OF assms] cross_twice [OF assms(1)] by blast

definition sample_crossed :: TickUpdate where
  "sample_crossed = (sample_tick_update 500)\<lparr>tu_fee_growth_outside_a := 930, tu_fee_growth_outside_b := 40\<rparr>"

lemma sample_crossing:
  "next_tick_cross_update sample_tick 1000 40 (arr3_of (reward_info_new default_pubkey)) = Inr sample_crossed"
  by code_simp

theorem crossing_keeps_growth_inside_witness:
  "next_fee_growths_inside 128 (tick_update sample_tick sample_crossed) 128 sample_tick 192 1000 40
     = next_fee_growths_inside 127 sample_tick 128 sample_tick 192 1000 40"
  using crossing_keeps_growth_inside [OF sample_crossing, of 127 128 128 192 sample_tick] by simp

text \<open>
  C33: Growth of the global fees goes to the ranges that hold the current tick and to no other,
  and the growth inside a range is the sum of those of the two parts it is split into.
\<close>

theorem growth_goes_to_the_range:
  assumes "tk_initialized tlow" "tk_initialized tmid" "tk_initialized tup" "l < m" "m < u"
  shows "next_fee_growths_inside cur tlow l tup u (ga + da) (gb + db)
      = (let (ia, ib) = next_fee_growths_inside cur tlow l tup u ga gb in
         if l \<le> cur \<and> cur < u then (ia + da, ib + db) else (ia, ib))
    \<and> fst (next_fee_growths_inside cur tlow l tup u ga gb)
      = fst (next_fee_growths_inside cur tlow l tmid m ga gb) + fst (next_fee_growths_inside cur tmid m tup u ga gb)
    \<and> snd (next_fee_growths_inside cur tlow l tup u ga gb)
      = snd (next_fee_growths_inside cur tlow l tmid m ga gb) + snd (next_fee_growths_inside cur tmid m tup u ga gb)"
proof -
  have lu: "l < u" using assms by simp
  have "fst (next_fee_growths_inside cur tlow l tup u (ga + da) (gb + db))
      = fst (next_fee_growths_inside cur tlow l tup u ga gb) + (if l \<le> cur \<and> cur < u then da else 0)"
    using fee_a.inside_grows [OF assms(1,3) lu] by (simp add: next_fee_growths_inside_def case_prod_unfold Let_def)
  moreover have "snd (next_fee_growths_inside cur tlow l tup u (ga + da) (gb + db))
      = snd (next_fee_growths_inside cur tlow l tup u ga gb) + (if l \<le> cur \<and> cur < u then db else 0)"
    using fee_b.inside_grows [OF assms(1,3) lu] by (simp add: next_fee_growths_inside_def case_prod_unfold Let_def)
  ultimately show ?thesis
    using fee_a.inside_split [OF assms] fee_b.inside_split [OF assms]
    by (simp add: case_prod_unfold Let_def prod_eq_iff)
qed

theorem growth_goes_to_the_range_witness:
  "fst (next_fee_growths_inside 100 sample_tick 64 sample_tick 192 (1000 + 5) 0)
     = fst (next_fee_growths_inside 100 sample_tick 64 sample_tick 192 1000 0) + 5"
  using growth_goes_to_the_range [of sample_tick sample_tick sample_tick 64 128 192 100 1000 5 0 0]
  by (simp add: case_prod_unfold Let_def)

section \<open>Rewards\<close>

text \<open>
  C34: Rewards grow by the emissions of the seconds passed per unit of liquidity, for
  initialized rewards, while there is liquidity; a timestamp of the past is an error, and an
  overflow gives no growth.
\<close>

theorem rewards_accrue:
  "next_whirlpool_reward_infos w t =
     (if t < wp_reward_last_updated_timestamp w then Inl (Err InvalidTimestamp)
      else if wp_liquidity w = 0 then Inr (wp_reward_infos w)
      else Inr (arr3_map (\<lambda>r. if \<not> reward_initialized r then r
        else let emitted = (unat t - unat (wp_reward_last_updated_timestamp w)) * unat (ri_emissions_per_second_x64 r) in
          if 2 ^ 128 \<le> emitted then r
          else r\<lparr>ri_growth_global_x64 := ri_growth_global_x64 r + of_nat (emitted div unat (wp_liquidity w))\<rparr>)
        (wp_reward_infos w)))"
proof -
  let ?e = "unat t - unat (wp_reward_last_updated_timestamp w)"
  have f: "reward_after ?e (wp_liquidity w) = (\<lambda>r. if \<not> reward_initialized r then r
        else let emitted = ?e * unat (ri_emissions_per_second_x64 r) in
          if 2 ^ 128 \<le> emitted then r
          else r\<lparr>ri_growth_global_x64 := ri_growth_global_x64 r + of_nat (emitted div unat (wp_liquidity w))\<rparr>)"
    by (rule ext) (simp add: reward_after_def reward_growth_delta_def Let_def)
  show ?thesis unfolding next_whirlpool_reward_infos_eq f ..
qed

text \<open>
  C35: A reward is initialized only after those before it, once, with the mint and vault given,
  and the others stay as they are.
\<close>

theorem rewards_start_in_order:
  assumes "whirlpool_initialize_reward w i m v = Inr w'" "rewards_ok w" "m \<noteq> default_pubkey"
  shows "rewards_ok w' \<and> i < NUM_REWARDS
    \<and> (\<exists>r. arr3_get (wp_reward_infos w) i = Inr r \<and> \<not> reward_initialized r
        \<and> arr3_get (wp_reward_infos w') i = Inr (r\<lparr>ri_mint := m, ri_vault := v\<rparr>))
    \<and> (\<forall>j. j \<noteq> i \<longrightarrow> arr3_get (wp_reward_infos w') j = arr3_get (wp_reward_infos w) j)"
  using whirlpool_initialize_reward_prefix [OF assms] whirlpool_initialize_reward_Inr [OF assms(1)] by blast

theorem rewards_start_in_order_witness:
  "whirlpool_initialize_reward sample_pool 0 (Pubkey 5) (Pubkey 6)
     = Inr (sample_pool\<lparr>wp_reward_infos := Arr3 ((reward_info_new default_pubkey)\<lparr>ri_mint := Pubkey 5, ri_vault := Pubkey 6\<rparr>)
         (reward_info_new default_pubkey) (reward_info_new default_pubkey)\<rparr>)
   \<and> rewards_ok (sample_pool\<lparr>wp_reward_infos := Arr3 ((reward_info_new default_pubkey)\<lparr>ri_mint := Pubkey 5, ri_vault := Pubkey 6\<rparr>)
         (reward_info_new default_pubkey) (reward_info_new default_pubkey)\<rparr>)"
proof -
  have i: "whirlpool_initialize_reward sample_pool 0 (Pubkey 5) (Pubkey 6)
     = Inr (sample_pool\<lparr>wp_reward_infos := Arr3 ((reward_info_new default_pubkey)\<lparr>ri_mint := Pubkey 5, ri_vault := Pubkey 6\<rparr>)
         (reward_info_new default_pubkey) (reward_info_new default_pubkey)\<rparr>)" by code_simp
  have "rewards_ok sample_pool" by code_simp
  from rewards_start_in_order [OF i this] i show ?thesis by (simp add: default_pubkey_def)
qed

section \<open>Liquidity of a tick\<close>

text \<open>
  C36: A change of liquidity keeps a tick well formed: it is initialized exactly when positions
  refer to it, an unused tick is all zero, its gross liquidity changes by the amount, and its
  net liquidity by the amount with the sign of the end of the range.
\<close>

theorem tick_liquidity_exact:
  assumes "tick_ok t" "in_i128 d" "next_tick_modify_liquidity_update t i cur ga gb infos d upper = Inr u"
  shows "tick_ok (tick_update t u) \<and> uint (tu_liquidity_gross u) = uint (tk_liquidity_gross t) + d
    \<and> (tu_initialized u \<longleftrightarrow> uint (tk_liquidity_gross t) + d \<noteq> 0)
    \<and> (tu_initialized u \<longrightarrow> tu_liquidity_net u = tk_liquidity_net t + (if upper then - d else d))"
proof -
  note ok = modify_liquidity_update_ok [OF assms(1,3)] and am = modify_liquidity_update_amounts [OF assms(3,2)]
  have g: "tu_initialized u \<longleftrightarrow> tu_liquidity_gross u \<noteq> 0"
    using ok by (simp add: tick_ok_def tick_update_def)
  have "tu_liquidity_gross u = 0 \<longleftrightarrow> uint (tu_liquidity_gross u) = 0" by (simp add: uint_0_iff)
  then show ?thesis using ok am g by auto
qed

theorem tick_liquidity_exact_witness:
  "tick_ok (tick_update default_tick (sample_tick_update 500)) \<and> uint (tu_liquidity_gross (sample_tick_update 500)) = 500"
proof -
  have "next_tick_modify_liquidity_update default_tick 128 200 70 0 (arr3_of (reward_info_new default_pubkey)) 500 False
    = Inr (sample_tick_update 500)" by code_simp
  from tick_liquidity_exact [OF default_tick_ok _ this] show ?thesis by (simp add: in_i128_def default_tick_def)
qed

text \<open>
  C37: Taking liquidity out of a tick again restores the tick, wherever the price and the
  growths have gone.
\<close>

theorem tick_liquidity_undone:
  assumes "tick_ok t" "0 < d" "in_i128 d"
    and "next_tick_modify_liquidity_update t i cur ga gb infos d upper = Inr u"
  shows "\<exists>v. next_tick_modify_liquidity_update (tick_update t u) i cur' ga' gb' infos' (- d) upper = Inr v
     \<and> tick_update (tick_update t u) v = t"
  using modify_liquidity_roundtrip [OF assms(1-3) _ assms(4)] assms(2,3) by (simp add: in_i128_def)

theorem tick_liquidity_undone_witness:
  "\<exists>v. next_tick_modify_liquidity_update (tick_update default_tick (sample_tick_update 500)) 128 (-5) 9 9
       (arr3_of (reward_info_new default_pubkey)) (- 500) False = Inr v
     \<and> tick_update (tick_update default_tick (sample_tick_update 500)) v = default_tick"
proof -
  have "next_tick_modify_liquidity_update default_tick 128 200 70 0 (arr3_of (reward_info_new default_pubkey)) 500 False
    = Inr (sample_tick_update 500)" by code_simp
  from tick_liquidity_undone [OF default_tick_ok _ _ this] show ?thesis by (simp add: in_i128_def)
qed

end
