(* ===== verification/Position_Properties.thy ===== *)
theory Position_Properties
  imports Pool_Properties
begin

text \<open>
  What opening a position checks, what settling its fees and rewards gives, how a change of its
  liquidity moves through position, pool and ticks, and what tokens the change is worth.
\<close>

section \<open>Opening and settling\<close>

text \<open>
  C39: A position opens exactly on usable ticks of its pool in increasing order; other ticks are
  an error, and a pool of tick spacing 0 makes the check panic.
\<close>

theorem position_open_exact:
  "position_open p k s m l u =
    (if \<not> tick_in_range l then Inl (Err InvalidTickIndex)
     else if s = 0 then Inl Panic
     else if usable_tick s l \<and> usable_tick s u \<and> l < u
     then Inr (p\<lparr>pos_whirlpool := k, pos_position_mint := m, pos_tick_lower_index := l, pos_tick_upper_index := u\<rparr>)
     else Inl (Err InvalidTickIndex))"
proof (cases "s = 0")
  case True
  then show ?thesis
    using position_open_zero_spacing [of l p k m u] in_bounds_iff [of l]
    by (simp add: position_open_def check_is_usable_tick_def)
next
  case False
  then show ?thesis by (simp add: position_open_eq usable_tick_def)
qed

definition settled :: Position where
  "settled = default_position\<lparr>pos_liquidity := 18446744073709551616, pos_fee_owed_a := 7\<rparr>"

definition settled_update :: PositionUpdate where
  "settled_update = default_position_update\<lparr>pu_liquidity := 18446744073709551617,
     pu_fee_growth_checkpoint_a := 30, pu_fee_growth_checkpoint_b := 20, pu_fee_owed_a := 37, pu_fee_owed_b := 20\<rparr>"

lemma settled_values: "earned 18446744073709551616 30 = 30" "earned 18446744073709551616 20 = 20"
  by (simp_all add: earned_def)

lemma settled_once: "next_position_modify_liquidity_update settled 1 30 20 (arr3_of 0) = Inr settled_update"
  by (subst next_position_update_Inr_iff)
    (simp_all add: in_i128_def settled_def settled_update_def default_position_update_def default_position_def
      settled_values settled_reward_def default_position_reward_def)

text \<open>
  Settling fees and rewards twice at the same growths pays once.
\<close>

theorem settlement_pays_once:
  assumes "in_i128 d" "next_position_modify_liquidity_update p d ia ib rs = Inr u"
  shows "next_position_modify_liquidity_update (position_update p u) 0 ia ib rs = Inr u"
  using assms by (rule settle_idempotent)

theorem settlement_pays_once_witness:
  "next_position_modify_liquidity_update (position_update settled settled_update) 0 30 20 (arr3_of 0) = Inr settled_update"
  by (rule settlement_pays_once [OF _ settled_once]) (simp add: in_i128_def)

section \<open>Changing liquidity\<close>

definition ranged_position :: Position where
  "ranged_position = default_position\<lparr>pos_tick_lower_index := 0, pos_tick_upper_index := 128\<rparr>"

definition ranged_arrays :: tick_arrays where
  "ranged_arrays = [Pubkey 70 \<mapsto> empty_array 0]"

definition ranged_update :: ModifyLiquidityUpdate where
  "ranged_update = \<lparr>ml_whirlpool_liquidity = 1000000000500,
     ml_tick_lower_update = default_tick_update\<lparr>tu_initialized := True, tu_liquidity_net := 500, tu_liquidity_gross := 500\<rparr>,
     ml_tick_upper_update = default_tick_update\<lparr>tu_initialized := True, tu_liquidity_net := - 500, tu_liquidity_gross := 500\<rparr>,
     ml_reward_infos = wp_reward_infos sample_pool,
     ml_position_update = default_position_update\<lparr>pu_liquidity := 500\<rparr>\<rparr>"

lemma ranged_change:
  "calculate_modify_liquidity sample_pool ranged_position ranged_arrays (Pubkey 70) (Pubkey 70) 500 0 = Inr ranged_update"
  by code_simp

lemma ranged_arrays_ok: "arrays_ok 64 ranged_arrays"
  using sample_sequence_ok by (simp add: arrays_ok_def ranged_arrays_def sequence_ok_def)

text \<open>
  C38: A computed change of liquidity can be stored: position, pool (if its tick is in the
  range) and the two ticks change by the amount, the two ticks are stored in their arrays, and
  every other tick reads as before.
\<close>

theorem liquidity_change_stored:
  assumes "arrays_ok (wp_tick_spacing w) arrays" "pos_tick_lower_index p < pos_tick_upper_index p" "in_i128 d"
    and m: "calculate_modify_liquidity w p arrays kl ku d t = Inr m"
  shows "\<exists>w' p' arrays'. sync_modify_liquidity_values w p arrays kl ku m t = Inr (w', p', arrays')
    \<and> arrays_ok (wp_tick_spacing w) arrays'
    \<and> (\<forall>kt. read_array_tick (wp_tick_spacing w) arrays' kt =
         (if kt = (kl, pos_tick_lower_index p) then Inr (tick_update default_tick (ml_tick_lower_update m))
          else if kt = (ku, pos_tick_upper_index p) then Inr (tick_update default_tick (ml_tick_upper_update m))
          else read_array_tick (wp_tick_spacing w) arrays kt))
    \<and> uint (pos_liquidity p') = uint (pos_liquidity p) + d
    \<and> uint (wp_liquidity w') = uint (wp_liquidity w)
       + (if pos_tick_lower_index p \<le> wp_tick_current_index w
            \<and> wp_tick_current_index w < pos_tick_upper_index p then d else 0)
    \<and> (\<exists>a b. read_array_tick (wp_tick_spacing w) arrays (kl, pos_tick_lower_index p) = Inr a
       \<and> uint (tu_liquidity_gross (ml_tick_lower_update m)) = uint (tk_liquidity_gross a) + d
       \<and> read_array_tick (wp_tick_spacing w) arrays (ku, pos_tick_upper_index p) = Inr b
       \<and> uint (tu_liquidity_gross (ml_tick_upper_update m)) = uint (tk_liquidity_gross b) + d)"
proof -
  obtain w' p' arrays' where r: "sync_modify_liquidity_values w p arrays kl ku m t = Inr (w', p', arrays')"
    using sync_modify_liquidity_defined [OF assms(1) m] by blast
  note s = sync_modify_liquidity_ticks [OF assms(1,2) r] and a = modify_liquidity_amounts [OF m assms(3)]
  have l: "pos_liquidity p' = pu_liquidity (ml_position_update m)" "wp_liquidity w' = ml_whirlpool_liquidity m"
    using r by (auto simp: sync_modify_liquidity_values_def and_then_Inr_iff Let_def position_update_def
        update_rewards_and_liquidity_def)
  obtain x y where "read_array_tick (wp_tick_spacing w) arrays (kl, pos_tick_lower_index p) = Inr x"
    "uint (tu_liquidity_gross (ml_tick_lower_update m)) = uint (tk_liquidity_gross x) + d"
    "read_array_tick (wp_tick_spacing w) arrays (ku, pos_tick_upper_index p) = Inr y"
    "uint (tu_liquidity_gross (ml_tick_upper_update m)) = uint (tk_liquidity_gross y) + d"
    using a(3,4) by blast
  then show ?thesis using r s a(1,2) [folded l] by auto
qed

theorem liquidity_change_stored_witness:
  "\<exists>w' p' arrays'. sync_modify_liquidity_values sample_pool ranged_position ranged_arrays (Pubkey 70) (Pubkey 70)
       ranged_update 0 = Inr (w', p', arrays')
     \<and> read_array_tick 64 arrays' (Pubkey 70, 128) = Inr (tick_update default_tick (ml_tick_upper_update ranged_update))
     \<and> uint (wp_liquidity w') = 1000000000000 + 500"
proof -
  have o: "arrays_ok (wp_tick_spacing sample_pool) ranged_arrays" using ranged_arrays_ok by simp
  have l: "pos_tick_lower_index ranged_position < pos_tick_upper_index ranged_position"
    by (simp add: ranged_position_def)
  show ?thesis using liquidity_change_stored [OF o l _ ranged_change] by (auto simp: ranged_position_def in_i128_def)
qed

section \<open>Tokens for liquidity\<close>

text \<open>
  The tokens for liquidity are the exact amounts between the prices of the range, rounded
  up when it is added and down when it is removed: what comes out is never more than what went
  in, and at most one unit of each token less.
\<close>

theorem deposit_covers_withdrawal_amounts:
  assumes "tick_in_range (pos_tick_lower_index p)" "tick_in_range (pos_tick_upper_index p)" "0 < d" "in_i128 d"
    and "calculate_liquidity_token_deltas cur price p d = Inr (a, b)"
    and "calculate_liquidity_token_deltas cur price p (- d) = Inr (a', b')"
  shows "(unat a, unat b) = position_amounts True cur (unat price) p (nat d)
    \<and> (unat a', unat b') = position_amounts False cur (unat price) p (nat d)
    \<and> a' \<le> a \<and> b' \<le> b \<and> unat a \<le> unat a' + 1 \<and> unat b \<le> unat b' + 1"
proof -
  have n: "in_i128 (- d)" using assms(3,4) by (simp add: in_i128_def)
  show ?thesis
    using deposit_covers_withdrawal [OF assms(1-4) n assms(5,6)] liquidity_token_deltas_Inr [OF assms(1,2,4,5)]
      liquidity_token_deltas_Inr [OF assms(1,2) n assms(6)] assms(3) by simp
qed

definition tight_position :: Position where
  "tight_position = default_position\<lparr>pos_tick_lower_index := 0, pos_tick_upper_index := 1\<rparr>"

lemma tight_prices: "sqrt_price_from_tick_index 0 = Inr 18446744073709551616"
    "sqrt_price_from_tick_index 1 = Inr 18447666387855959850"
  by (simp_all add: price_eq tick_in_range_def MIN_TICK_INDEX_def MAX_TICK_INDEX_def)

lemma tight_amounts:
  "get_amount_delta_b 18446744073709551616 18447666387855959850 1000000 True = Inr 50"
  "get_amount_delta_b 18446744073709551616 18447666387855959850 1000000 False = Inr 49"
  by (simp_all add: get_amount_delta_b_Inr_iff amount_b_def round_div_def ceil_div_def)

lemma tight_deltas:
  "calculate_liquidity_token_deltas 5 18448588748116922571 tight_position 1000000 = Inr (0, 50)"
  "calculate_liquidity_token_deltas 5 18448588748116922571 tight_position (- 1000000) = Inr (0, 49)"
  by (simp_all add: calculate_liquidity_token_deltas_def tight_position_def tight_prices tight_amounts to_i128_id in_i128_def)

theorem deposit_covers_withdrawal_amounts_witness:
  "(0, 50) = position_amounts True 5 18448588748116922571 tight_position 1000000
   \<and> (0, 49) = position_amounts False 5 18448588748116922571 tight_position 1000000"
  using deposit_covers_withdrawal_amounts [OF _ _ _ _ tight_deltas]
  by (simp add: tight_position_def tick_in_range_def MIN_TICK_INDEX_def MAX_TICK_INDEX_def in_i128_def)

end
