(* ===== verification/U256_Display.thy ===== *)
theory U256_Display
  imports U256_Div
begin

text \<open>
  The decimal form of a 256-bit integer (\<open>impl Display for U256Muldiv\<close> in \<open>math/u256_math.rs\<close>): the
  digits are divided off and written into a buffer of 80 bytes from its end.  The buffer is large
  enough, the division by ten never panics, and the string is the decimal numeral of the value.
\<close>

function fmt_loop :: "U256Muldiv \<Rightarrow> usize \<Rightarrow> u8 list \<Rightarrow> (u8 list \<times> usize) result" where
  "fmt_loop current i buf =
     and_then (u256_div current (new 0 10) True) (\<lambda>(quot, remainder).
     and_then (get_word remainder 0) (\<lambda>w.
     let digit = (ucast w :: u8);
         buf = buf[i := digit + 48] in
     if is_zero quot then Inr (buf, i)
     else if i = 0 then Inl Panic
     else fmt_loop quot (i - 1) buf))"
  by pat_completeness auto
termination by (relation "measure (\<lambda>(_, i, _). i)") auto

declare fmt_loop.simps [simp del]

definition u256_fmt :: "U256Muldiv \<Rightarrow> string result" where
  "u256_fmt x =
     and_then (fmt_loop x (NUM_WORDS * 20 - 1) (replicate (NUM_WORDS * 20) 0)) (\<lambda>(buf, i).
     Inr (map (\<lambda>b. char_of (unat b)) (drop i buf)))"

lemma div_by_ten:
  obtains q r where "u256_div x (new 0 10) True = Inr (q, r)" "uval q = uval x div 10"
    "get_word r 0 = Inr (w0 r)" "unat (w0 r) = uval x mod 10"
proof -
  have ten: "uval (new 0 10) = 10" by (simp add: uval_new)
  have "num_words (new 0 10) < 3" by code_simp
  then obtain q r where d: "u256_div x (new 0 10) True = Inr (q, r)"
    using u256_div_total [of "new 0 10" x True] ten by auto
  note v = u256_div_Inr(2,3) [OF d, unfolded ten]
  have r: "uval r < 10" using v(2) by simp
  obtain a b c e where x: "r = U256Muldiv a b c e" by (cases r)
  have "unat b = 0" "unat c = 0" "unat e = 0" using r unfolding x uval_simp by (cases "unat b"; cases "unat c"; cases "unat e"; simp)+
  then have "uval r = unat (w0 r)" by (simp add: x uval_simp)
  then show thesis using that d v x by simp
qed

lemma digit_char: "n < 10 \<Longrightarrow> unat w = n \<Longrightarrow> unat (ucast w + 48 :: u8) = 48 + n" for w :: u64
  by (simp add: unat_word_ariths unsigned_ucast_eq unsigned_take_bit_eq take_bit_eq_mod)

lemma fmt_loop_decimal:
  "uval x < 10 ^ (i + 1) \<Longrightarrow> i < length buf \<Longrightarrow> \<exists>buf' j. fmt_loop x i buf = Inr (buf', j)
     \<and> map (\<lambda>b. char_of (unat b)) (drop j buf') = decimal (int (uval x)) @ map (\<lambda>b. char_of (unat b)) (drop (i + 1) buf)"
proof (induction i arbitrary: x buf)
  case 0
  obtain q r where d: "u256_div x (new 0 10) True = Inr (q, r)" "uval q = uval x div 10"
    "get_word r 0 = Inr (w0 r)" "unat (w0 r) = uval x mod 10" by (rule div_by_ten)
  then show ?case using 0 digit_char [OF _ d(4)]
    by (cases buf) (simp_all add: fmt_loop.simps is_zero_val decimal.simps Let_def)
next
  case (Suc i)
  obtain q r where d: "u256_div x (new 0 10) True = Inr (q, r)" "uval q = uval x div 10"
    "get_word r 0 = Inr (w0 r)" "unat (w0 r) = uval x mod 10" by (rule div_by_ten)
  let ?b = "ucast (w0 r) + 48 :: u8"
  have c: "unat ?b = 48 + uval x mod 10" using digit_char [OF _ d(4)] by simp
  have dr: "drop (Suc i) (buf[Suc i := ?b]) = ?b # drop (Suc (Suc i)) buf"
    using Suc.prems(2) by (simp add: drop_update_swap Cons_nth_drop_Suc [symmetric] flip: Cons_nth_drop_Suc)
  show ?case
  proof (cases "uval q = 0")
    case True
    then show ?thesis using d c dr
      by (simp add: fmt_loop.simps [of x] is_zero_val decimal.simps [of "int (uval x)"] Let_def)
  next
    case False
    then have "10 \<le> uval x" using d(2) by (cases "uval x < 10") auto
    then have dec: "decimal (int (uval x)) = decimal (int (uval q)) @ [char_of (48 + uval x mod 10)]"
      using d(2) by (simp add: decimal.simps [of "int (uval x)"] zdiv_int nat_mod_distrib)
    have "uval q < 10 ^ (i + 1)" using Suc.prems(1) d(2) by simp
    from Suc.IH [OF this, of "buf[Suc i := ?b]"] Suc.prems(2) show ?thesis
      using False d c dr dec by (auto simp: fmt_loop.simps [of x] is_zero_val Let_def)
  qed
qed

lemma u256_fmt_decimal: "u256_fmt x = Inr (decimal (int (uval x)))"
proof -
  have "(2 :: nat) ^ 256 < 10 ^ (79 + 1)" by simp
  then have "uval x < 10 ^ (79 + 1)" using uval_less [of x] by linarith
  from fmt_loop_decimal [OF this, of "replicate 80 0"] show ?thesis
    by (auto simp: u256_fmt_def NUM_WORDS_def)
qed

end
