(* ===== verification/Math_Properties.thy ===== *)
theory Math_Properties
  imports Samples U256_Display
begin

text \<open>
  What the arithmetic of the pools computes, stated over the integers: 256-bit products, multiplied
  fractions, prices of ticks and ticks of prices, token amounts between two prices, the price after
  an amount, one step of a swap, the split of its fee, and liquidity changes. Each statement covers
  the errors of the operation as well as its results.
\<close>

section \<open>Wide arithmetic\<close>

text \<open>
  The decimal form of a 256-bit integer never panics and reads back as its value.
\<close>

theorem display_exact: "u256_fmt x = Inr (decimal (int (uval x))) \<and> decimal_value (decimal (int (uval x))) = uval x"
  by (simp add: u256_fmt_decimal decimal_value_decimal)

text \<open>
  The product of two 128-bit numbers divided by a third, rounded up or down, is exact; its only
  errors are the division by zero and a product of more than 128 bits.
\<close>

theorem mul_div_exact:
  "checked_mul_div_round_up_if n0 n1 d up =
     (if d = 0 then Inl (Err DivideByZero)
      else if 2 ^ 128 \<le> unat n0 * unat n1 then Inl (Err MulDivOverflow)
      else Inr (of_nat (round_div up (unat n0 * unat n1) (unat d))))"
proof (cases "d = 0 \<or> 2 ^ 128 \<le> unat n0 * unat n1")
  case True
  then show ?thesis by (auto simp: checked_mul_div_Inl_iff)
next
  case False
  then obtain q where q: "checked_mul_div_round_up_if n0 n1 d up = Inr q"
    using checked_mul_div_Inl_iff [of n0 n1 d up] by (cases "checked_mul_div_round_up_if n0 n1 d up") auto
  then have "unat q = round_div up (unat n0 * unat n1) (unat d)"
    unfolding checked_mul_div_Inr_iff by blast
  then have "q = of_nat (round_div up (unat n0 * unat n1) (unat d))" by (simp flip: \<open>unat q = _\<close>)
  then show ?thesis using False q by simp
qed

section \<open>Ticks and prices\<close>

text \<open>
  C22: For every price in the range the computation of its tick succeeds, and gives the greatest
  tick whose price does not exceed it.
\<close>

theorem tick_of_price_correct:
  assumes "price_in_range p"
  shows "\<exists>t q. tick_index_from_sqrt_price p = Inr t \<and> tick_in_range t
    \<and> sqrt_price_from_tick_index t = Inr q \<and> q \<le> p
    \<and> (t < MAX_TICK_INDEX \<longrightarrow> (\<exists>r. sqrt_price_from_tick_index (t + 1) = Inr r \<and> p < r))"
proof -
  obtain t where t: "tick_index_from_sqrt_price p = Inr t" "tick_in_range t" "price_val t \<le> unat p"
    "t < MAX_TICK_INDEX \<longrightarrow> unat p < price_val (t + 1)"
    using tick_of_price [OF assms] by blast
  have "t < MAX_TICK_INDEX \<Longrightarrow> tick_in_range (t + 1)" using t(2) by (simp add: tick_in_range_def)
  then show ?thesis
    using t sqrt_price_val [OF t(2)] sqrt_price_val [of "t + 1"] by (fastforce simp: word_le_nat_alt word_less_nat_alt)
qed

theorem tick_of_price_correct_witness:
  "\<exists>t q. tick_index_from_sqrt_price 18446762465113393104 = Inr t \<and> tick_in_range t
    \<and> sqrt_price_from_tick_index t = Inr q \<and> q \<le> 18446762465113393104
    \<and> (t < MAX_TICK_INDEX \<longrightarrow> (\<exists>r. sqrt_price_from_tick_index (t + 1) = Inr r \<and> 18446762465113393104 < r))"
  by (rule tick_of_price_correct) (simp add: price_in_range_def MIN_SQRT_PRICE_X64_def MAX_SQRT_PRICE_X64_def)

text \<open>
  C23: The tick computed from the price of a tick is the tick.
\<close>

theorem tick_price_roundtrip:
  assumes "tick_in_range t"
  shows "and_then (sqrt_price_from_tick_index t) tick_index_from_sqrt_price = Inr t"
  using sqrt_price_val [OF assms] tick_of_tick_price [OF assms] by (auto simp: and_then_def)

theorem tick_price_roundtrip_witness:
  "and_then (sqrt_price_from_tick_index (-443636)) tick_index_from_sqrt_price = Inr (-443636)"
  by (rule tick_price_roundtrip) (simp add: tick_in_range_def MIN_TICK_INDEX_def MAX_TICK_INDEX_def)

text \<open>
  C24: The price of a tick grows strictly with the tick, and runs from the least price of the
  program at the least tick to the greatest price at the greatest.
\<close>

theorem prices_increase:
  assumes "tick_in_range s" "tick_in_range t"
    and "sqrt_price_from_tick_index s = Inr p" "sqrt_price_from_tick_index t = Inr q"
  shows "(p < q \<longleftrightarrow> s < t) \<and> MIN_SQRT_PRICE_X64 \<le> p \<and> p \<le> MAX_SQRT_PRICE_X64
    \<and> (s = MIN_TICK_INDEX \<longrightarrow> p = MIN_SQRT_PRICE_X64) \<and> (s = MAX_TICK_INDEX \<longrightarrow> p = MAX_SQRT_PRICE_X64)"
  using assms ticks.price_less_iff [of s t p q] sqrt_price_bounds [OF assms(1,3)] price_val_ends
    sqrt_price_Inr_val [OF assms(3,1)] by (auto simp: tick_in_range_def word_unat_eq_iff)

theorem prices_increase_witness:
  "(18446744073709551616 :: u128) < 18447666387855959850 \<longleftrightarrow> (0 :: i32) < 1"
  using prices_increase [of 0 1 18446744073709551616 18447666387855959850]
  by (simp add: price_eq tick_in_range_def MIN_TICK_INDEX_def MAX_TICK_INDEX_def)

lemma real_log_quotient: "0 < n \<Longrightarrow> ln (real n / 2 ^ 64) = ln (real n) - ln (2 ^ 64)" for n :: nat
  by (simp add: ln_div)

text \<open>
  C25: The fixed point price of tick t is the square root of 1.0001 to the power t, with a
  relative error of at most 2^-24.
\<close>

theorem price_follows_curve:
  assumes "tick_in_range t" "sqrt_price_from_tick_index t = Inr p"
  shows "\<bar>ln (real (unat p) / 2 ^ 64) - t * ln (sqrt 1.0001)\<bar> \<le> 1 / 2 ^ 24"
proof -
  have v: "price_val t = unat p" using sqrt_price_Inr_val [OF assms(2,1)] by simp
  have pos: "0 < price_val t" using ln_price_ticks(3) [OF assms(1)] .
  have "ln (real (unat p) / 2 ^ 64) = ln (real (unat p)) - ln (2 ^ 64)"
    using real_log_quotient pos v by metis
  also have "ln ((2 :: real) ^ 64) = 64 * ln 2" using ln_realpow [of "2 :: real" 64] by simp
  finally have "ln (real (unat p) / 2 ^ 64) = ln (real (unat p)) - 64 * ln 2" .
  then have "ln (real (unat p) / 2 ^ 64) - t * ln tick_base = ln (real (price_val t)) - (ln 2 * 64 + t * ln tick_base)"
    by (simp add: v)
  then show ?thesis
    using ln_price_val [OF assms(1)] unfolding tick_base_def [symmetric] by linarith
qed

theorem price_follows_curve_witness:
  "\<bar>ln (real (unat (18447666387855959850 :: u128)) / 2 ^ 64) - 1 * ln (sqrt 1.0001)\<bar> \<le> 1 / 2 ^ 24"
  using price_follows_curve [of 1 18447666387855959850]
  by (simp add: price_eq tick_in_range_def MIN_TICK_INDEX_def MAX_TICK_INDEX_def)

section \<open>Token amounts\<close>

text \<open>
  C30: The amounts of token A and of token B between two prices are the exact quotients, rounded
  as asked; the computation of token A returns whenever no intermediate value is too large, that
  of token B fails exactly when the product or the amount is too large.
\<close>

theorem token_amounts_exact:
  fixes p q l :: u128
  assumes "p \<noteq> 0" "q \<noteq> 0"
  defines "n \<equiv> unat l * (max (unat p) (unat q) - min (unat p) (unat q))"
  shows "(\<forall>r. get_amount_delta_a p q l up = Inr r \<longrightarrow> unat r = round_div up (n * 2 ^ 64) (unat p * unat q))
    \<and> (n < 2 ^ 128 \<and> round_div up (n * 2 ^ 64) (unat p * unat q) < 2 ^ 64 \<longrightarrow> (\<exists>r. get_amount_delta_a p q l up = Inr r))
    \<and> get_amount_delta_b p q l up =
       (if 2 ^ 128 \<le> n then Inl (Err MultiplicationShiftRightOverflow)
        else if round_div up n (2 ^ 64) = 2 ^ 64 then Inl (Err MultiplicationOverflow)
        else Inr (of_nat (round_div up n (2 ^ 64))))"
proof (intro conjI)
  show "get_amount_delta_b p q l up =
       (if 2 ^ 128 \<le> n then Inl (Err MultiplicationShiftRightOverflow)
        else if round_div up n (2 ^ 64) = 2 ^ 64 then Inl (Err MultiplicationOverflow)
        else Inr (of_nat (round_div up n (2 ^ 64))))"
    by (simp add: get_amount_delta_b_def case_prod_unfold checked_mul_shift_right_cases
      increasing_price_order_vals n_def)
qed (use get_amount_delta_a_Inr [of p q l up] get_amount_delta_a_returns [OF assms(1,2), of l up]
    in \<open>auto simp: amount_a_def n_def\<close>)

theorem token_amounts_exact_witness:
  "unat (996999 :: u64) = round_div False (unat (1000000000000 :: u128) * (18446762465113393104 - 18446744073709551616) * 2 ^ 64)
     (18446744073709551616 * 18446762465113393104)"
  using token_amounts_exact [of 18446744073709551616 18446762465113393104 1000000000000 False] sample_amount_out
  by simp

text \<open>
  C29: The price after an amount lies in the direction of the trade; an input pays for the move
  of the price, and an output is not larger than the move gives.
\<close>

theorem next_price_covered:
  assumes r: "get_next_sqrt_price p l a inp a_to_b = Inr q" and p: "p \<noteq> 0" "q \<noteq> 0"
  shows "(if a_to_b then q \<le> p else p \<le> q)
    \<and> (if inp then input_amount a_to_b (unat p) (unat q) (unat l) \<le> unat a
       else unat a \<le> output_amount a_to_b (unat p) (unat q) (unat l))"
proof
  show "if a_to_b then q \<le> p else p \<le> q" by (rule next_price_direction [OF r])
  show "if inp then input_amount a_to_b (unat p) (unat q) (unat l) \<le> unat a
       else unat a \<le> output_amount a_to_b (unat p) (unat q) (unat l)"
    using amount_a_next_price [of p l a inp q] amount_b_next_price [of p l a inp q] r p
    by (cases inp; cases a_to_b) (auto simp: get_next_sqrt_price_def input_amount_def output_amount_def)
qed

theorem next_price_covered_witness:
  "input_amount False 18446744073709551616 18446762465113393104 1000000000000 \<le> 997000"
  using next_price_covered [OF sample_price] by simp

section \<open>A step of a swap\<close>

text \<open>
  C28: One step of a swap moves the price towards the target, and its input and output are the
  exact token amounts between the old and the new price, the input rounded up and the output
  down; fee and input use at most the amount; short of the target they use all of it; and with
  the input specified the target is reached exactly when the amount after fees pays for it.
\<close>

theorem swap_step_exact:
  assumes "compute_swap r f l p t inp a_to_b = Inr s" "if a_to_b then t \<le> p else p \<le> t"
  shows "on_the_way a_to_b p (next_price s) t
    \<and> unat (amount_in s) = input_amount a_to_b (unat p) (unat (next_price s)) (unat l)
    \<and> unat (amount_out s) = (let out = output_amount a_to_b (unat p) (unat (next_price s)) (unat l) in
         if inp then out else min (unat r) out)
    \<and> fee_on (unat (amount_in s)) f \<le> unat (fee_amount s)
    \<and> (if inp then unat (amount_in s) + unat (fee_amount s) \<le> unat r
       else unat (fee_amount s) = fee_on (unat (amount_in s)) f)
    \<and> (next_price s \<noteq> t \<longrightarrow> (if inp then unat (amount_in s) + unat (fee_amount s) = unat r else amount_out s = r))
    \<and> (inp \<longrightarrow> (next_price s = t \<longleftrightarrow>
          input_amount a_to_b (unat p) (unat t) (unat l) \<le> unat r * (1000000 - unat f) div 1000000))"
proof (cases inp)
  case True
  then show ?thesis using compute_swap_fixed [OF assms] compute_swap_reaches_target_iff [of r f l p t a_to_b s] assms
    by (simp add: Let_def)
next
  case False
  then show ?thesis using compute_swap_fixed [OF assms] by (simp add: Let_def)
qed

theorem swap_step_exact_witness:
  "on_the_way False 18446744073709551616 18446762465113393104 32395182592301051927
    \<and> unat (997000 :: u64) = input_amount False 18446744073709551616 18446762465113393104 1000000000000
    \<and> unat (996999 :: u64) = output_amount False 18446744073709551616 18446762465113393104 1000000000000"
  using swap_step_exact [OF sample_compute] by (simp add: Let_def)

text \<open>
  C31: The fee of a step is split between the protocol, which gets its share rounded down and at
  most a quarter, and the liquidity, whose growth is the rest per unit of liquidity.
\<close>

theorem fees_conserved:
  assumes "rate \<le> MAX_PROTOCOL_FEE_RATE"
  shows "\<exists>cut. cut = unat fee * unat rate div 10000 \<and> 4 * cut \<le> unat fee
    \<and> calculate_fees fee rate l owed growth = Inr (owed + of_nat cut,
        growth + (if l = 0 then 0 else of_nat ((unat fee - cut) * 2 ^ 64 div unat l)))"
proof -
  have "unat rate \<le> 2500" using assms by (simp add: word_le_nat_alt MAX_PROTOCOL_FEE_RATE_def)
  then have "unat fee * unat rate \<le> unat fee * 2500" by simp
  then have "4 * (unat fee * unat rate div 10000) \<le> unat fee" by linarith
  then show ?thesis using calculate_fees_val [OF assms] by (simp add: protocol_share_def)
qed

theorem fees_conserved_witness:
  "\<exists>cut. cut = unat (3000 :: u64) * unat (300 :: u16) div 10000 \<and> 4 * cut \<le> unat (3000 :: u64)
    \<and> calculate_fees 3000 300 1000000000000 0 0 = Inr (0 + of_nat cut,
        0 + (if (1000000000000 :: u128) = 0 then 0 else of_nat ((unat (3000 :: u64) - cut) * 2 ^ 64 div unat (1000000000000 :: u128))))"
  by (rule fees_conserved) (simp add: MAX_PROTOCOL_FEE_RATE_def)

end
