(* ===== verification/Enable_Flag.thy ===== *)
theory Enable_Flag
  imports Program
begin

text \<open>
  Whether the enable flags of the pools matter to an instruction.  The flag of every pool of a ledger
  is set at will (\<open>set_flags\<close>); a route over two pools reads none of them, neither in its account
  checks nor in its swaps nor in storing their results, so that it has the same outcome with any
  flags.
\<close>

definition set_flags :: "(pubkey \<Rightarrow> bool) \<Rightarrow> 't ledger \<Rightarrow> 't ledger" where
  "set_flags f lg = lg\<lparr>lg_pools := (\<lambda>k. map_option (\<lambda>w. whirlpool_set_enable_flag w (f k)) (lg_pools lg k))\<rparr>"

abbreviation flagged :: "bool \<Rightarrow> Whirlpool \<Rightarrow> Whirlpool" where
  "flagged b w \<equiv> whirlpool_set_enable_flag w b"

section \<open>Outcomes up to a change of the result\<close>

lemma map_sum_cases: "map_sum id g (Inr x :: 'e + 'a) = Inr (g x)" "map_sum id g (Inl e :: 'e + 'a) = Inl e"
  by simp_all

lemma and_then_mapped: "and_then (map_sum id g m) h = and_then m (\<lambda>x. h (g x))"
  by (cases m) simp_all

lemma mapped_and_then: "map_sum id g (and_then m h) = and_then m (\<lambda>x. map_sum id g (h x))"
  by (cases m) simp_all

lemma run_then_mapped: "run_then (Some (map_sum id g m)) h = run_then (Some m) (\<lambda>x. h (g x))"
  by (cases m) (simp_all add: run_then_def)

lemma mapped_run_then:
  "map_option (map_sum id g) (run_then m h) = run_then m (\<lambda>x. map_option (map_sum id g) (h x))"
  by (simp add: run_then_def split: option.split sum.split)

section \<open>Nothing of a route reads a flag\<close>

lemma flagged_fields [simp]:
  "wp_token_mint_a (flagged b w) = wp_token_mint_a w" "wp_token_mint_b (flagged b w) = wp_token_mint_b w"
  "wp_token_vault_a (flagged b w) = wp_token_vault_a w" "wp_token_vault_b (flagged b w) = wp_token_vault_b w"
  "whirlpool_seeds (flagged b w) = whirlpool_seeds w"
  by (simp_all add: whirlpool_set_enable_flag_def whirlpool_seeds_def)

lemma flagged_swap [simp]: "swap (flagged b w) = swap w"
  by (rule swap_reads_view) (simp add: swap_view_def whirlpool_set_enable_flag_def)

lemma flagged_after_swap:
  "update_after_swap (flagged b w) l t pr g infos fee d ts = flagged b (update_after_swap w l t pr g infos fee d ts)"
  by (simp add: update_after_swap_def whirlpool_set_enable_flag_def Let_def)

lemma set_flags_fields [simp]:
  "lg_arrays (set_flags f lg) = lg_arrays lg" "lg_tokens (set_flags f lg) = lg_tokens lg"
  by (simp_all add: set_flags_def)

lemma set_flags_pool:
  "account (lg_pools (set_flags f lg)) k = map_sum id (flagged (f k)) (account (lg_pools lg) k)"
  by (simp add: account_def set_flags_def split: option.split)

lemma two_hop_accounts_flags:
  "two_hop_swap_accounts rt tx acc (set_flags f lg)
   = map_sum id (map_prod (flagged (f (th_whirlpool_one acc))) (flagged (f (th_whirlpool_two acc))))
       (two_hop_swap_accounts rt tx acc lg)"
  unfolding two_hop_swap_accounts_def set_flags_pool set_flags_fields and_then_mapped mapped_and_then flagged_fields
    map_sum_cases map_prod_simp ..

lemma update_and_swap_flags:
  "update_and_swap_whirlpool rt (k, flagged b w) ta oa ob va vb u d ts tokens
   = map_sum id (map_prod (flagged b) id) (update_and_swap_whirlpool rt (k, w) ta oa ob va vb u d ts tokens)"
  unfolding update_and_swap_whirlpool_def perform_swap_def transfer_from_vault_to_owner_def signed_by_pool_def Let_def
    fst_conv snd_conv flagged_after_swap flagged_fields mapped_and_then map_sum_cases map_prod_simp id_apply ..

lemma set_flags_stored:
  "set_flags f (lg\<lparr>lg_pools := (lg_pools lg)(k \<mapsto> x, l \<mapsto> y), lg_arrays := arrays, lg_tokens := tokens\<rparr>)
   = (set_flags f lg)\<lparr>lg_pools := (lg_pools (set_flags f lg))(k \<mapsto> flagged (f k) x, l \<mapsto> flagged (f l) y),
       lg_arrays := arrays, lg_tokens := tokens\<rparr>"
  by (simp add: set_flags_def fun_eq_iff)

lemma two_hop_flags:
  "two_hop_swap rt tx acc amount other inp d1 d2 l1 l2 (set_flags f lg)
   = map_option (map_sum id (set_flags f)) (two_hop_swap rt tx acc amount other inp d1 d2 l1 l2 lg)"
  unfolding two_hop_swap_def two_hop_updates_def two_hop_accounts_flags run_then_mapped mapped_run_then
    case_prod_beta Let_def fst_map_prod snd_map_prod flagged_fields flagged_swap set_flags_fields
    update_and_swap_flags option.map map_sum_cases set_flags_stored id_apply
  ..

end
