(* ===== verification/Instruction_Properties.thy ===== *)
theory Instruction_Properties
  imports Sample_Hop Position_Properties Math_Properties Enable_Flag
begin

text \<open>
  What single instructions do to tokens and accounts: the fees and rewards that a position collects,
  the two swaps of a route, the access to fee tiers, and what a disabled pool still allows.
\<close>

section \<open>Collecting\<close>

text \<open>
  C19: Collecting fees transfers exactly the fees that the position is owed, token A and then
  token B, out of the vaults of its pool, and leaves the position with none owed and the rest of
  the ledger as it was; the holder or delegate of the position token signs.
\<close>

theorem collect_fees_pays_what_is_owed:
  assumes "process rt nft tx (Collect_fees acc) lg = Some (Inr lg')"
  shows "\<exists>w p tokens. lg_pools lg (cf_whirlpool acc) = Some w \<and> lg_positions lg (cf_position acc) = Some p
    \<and> pos_whirlpool p = cf_whirlpool acc \<and> position_permitted rt tx lg p
    \<and> rt_transfer rt (lg_tokens lg) (wp_token_vault_a w) (cf_token_owner_account_a acc) (cf_whirlpool acc)
         (pos_fee_owed_a p) = Inr tokens
    \<and> rt_transfer rt tokens (wp_token_vault_b w) (cf_token_owner_account_b acc) (cf_whirlpool acc)
         (pos_fee_owed_b p) = Inr (lg_tokens lg')
    \<and> lg' = lg\<lparr>lg_positions := (lg_positions lg)(cf_position acc \<mapsto> p\<lparr>pos_fee_owed_a := 0, pos_fee_owed_b := 0\<rparr>),
                lg_tokens := lg_tokens lg'\<rparr>"
proof -
  obtain w :: Whirlpool and p :: Position and ta :: TokenAccount and tokens tokens' where
    "lg_pools lg (cf_whirlpool acc) = Some w" "lg_positions lg (cf_position acc) = Some p"
    "rt_token_account rt (lg_tokens lg) (cf_position_token_account acc) = Some ta"
    "pos_whirlpool p = cf_whirlpool acc" "tok_mint ta = pos_position_mint p" "tok_amount ta = 1"
    "cf_token_vault_a acc = wp_token_vault_a w" "cf_token_vault_b acc = wp_token_vault_b w"
    "position_authority_ok tx ta (cf_position_authority acc)"
    "transfer_from_vault_to_owner rt (cf_whirlpool acc, w) (cf_token_vault_a acc)
       (cf_token_owner_account_a acc) (pos_fee_owed_a p) (lg_tokens lg) = Inr tokens"
    "transfer_from_vault_to_owner rt (cf_whirlpool acc, w) (cf_token_vault_b acc)
       (cf_token_owner_account_b acc) (pos_fee_owed_b p) tokens = Inr tokens'"
    "lg' = lg\<lparr>lg_positions := (lg_positions lg)(cf_position acc \<mapsto> reset_fees_owed p), lg_tokens := tokens'\<rparr>"
    using assms unfolding process.simps collect_fees_def Let_def handler_iffs option.inject sum.inject by blast
  then show ?thesis
    by (auto simp: transfer_from_vault_to_owner_def and_then_Inr_iff reset_fees_owed_def intro!: position_permittedI exI)
qed

definition collected_ledger :: "sample_tokens ledger" where
  "collected_ledger = sample_ledger\<lparr>
     lg_positions := [Pubkey 50 \<mapsto> sample_position\<lparr>pos_fee_owed_a := 0, pos_fee_owed_b := 0\<rparr>],
     lg_tokens := (lg_tokens sample_ledger)\<lparr>st_accounts := (st_accounts (lg_tokens sample_ledger))
       (Pubkey 2 \<mapsto> sample_account (Pubkey 1) (Pubkey 9) 4999993, Pubkey 80 \<mapsto> sample_account (Pubkey 1) (Pubkey 85) 7,
        Pubkey 4 \<mapsto> sample_account (Pubkey 3) (Pubkey 9) 4999995, Pubkey 81 \<mapsto> sample_account (Pubkey 3) (Pubkey 85) 2000005)\<rparr>\<rparr>"

lemma sample_fees_collected:
  "process sample_runtime (Pubkey 90) sample_tx (Collect_fees \<lparr>cf_whirlpool = Pubkey 9, cf_position_authority = Pubkey 85,
     cf_position = Pubkey 50, cf_position_token_account = Pubkey 82, cf_token_owner_account_a = Pubkey 80,
     cf_token_vault_a = Pubkey 2, cf_token_owner_account_b = Pubkey 81, cf_token_vault_b = Pubkey 4\<rparr>) sample_ledger
   = Some (Inr collected_ledger)"
  by (simp add: collect_fees_def account_def signer_def has_one_def raw_constraint_def address_def Let_def
    verify_position_authority_def validate_owner_def transfer_from_vault_to_owner_def signed_by_pool_def
    whirlpool_seeds_def reset_fees_owed_def sample_runtime_def sample_transfer_def sample_account_def
    sample_ledger_def sample_position_def sample_pool_def default_position_def collected_ledger_def)

theorem collect_fees_pays_what_is_owed_witness:
  "\<exists>tokens. rt_transfer sample_runtime (lg_tokens sample_ledger) (Pubkey 2) (Pubkey 80) (Pubkey 9) 7 = Inr tokens
    \<and> rt_transfer sample_runtime tokens (Pubkey 4) (Pubkey 81) (Pubkey 9) 5 = Inr (lg_tokens collected_ledger)"
  using collect_fees_pays_what_is_owed [OF sample_fees_collected]
  by (auto simp: sample_ledger_def sample_position_def sample_pool_def)

text \<open>
  C20: Collecting a reward pays the smaller of what the position is owed and what the vault
  holds; what is left stays owed, so that nothing is lost or paid twice.
\<close>

theorem collect_reward_pays_what_the_vault_holds:
  assumes "process rt nft tx (Collect_reward acc index) lg = Some (Inr lg')"
  shows "\<exists>w p r owed vault paid p'. lg_pools lg (cr_whirlpool acc) = Some w \<and> lg_positions lg (cr_position acc) = Some p
    \<and> position_permitted rt tx lg p
    \<and> arr3_get (wp_reward_infos w) (unat index) = Inr r \<and> arr3_get (pos_reward_infos p) (unat index) = Inr owed
    \<and> rt_token_account rt (lg_tokens lg) (ri_vault r) = Some vault
    \<and> paid = min (pri_amount_owed owed) (tok_amount vault)
    \<and> rt_transfer rt (lg_tokens lg) (ri_vault r) (cr_reward_owner_account acc) (cr_whirlpool acc) paid = Inr (lg_tokens lg')
    \<and> update_reward_owed p (unat index) (pri_amount_owed owed - paid) = Inr p'
    \<and> lg' = lg\<lparr>lg_positions := (lg_positions lg)(cr_position acc \<mapsto> p'), lg_tokens := lg_tokens lg'\<rparr>"
proof -
  obtain w :: Whirlpool and p :: Position and ta vault :: TokenAccount and r :: WhirlpoolRewardInfo
    and owed :: PositionRewardInfo and p' tokens where
    "lg_pools lg (cr_whirlpool acc) = Some w" "lg_positions lg (cr_position acc) = Some p"
    "rt_token_account rt (lg_tokens lg) (cr_position_token_account acc) = Some ta"
    "rt_token_account rt (lg_tokens lg) (cr_reward_vault acc) = Some vault"
    "tok_mint ta = pos_position_mint p" "tok_amount ta = 1"
    "arr3_get (wp_reward_infos w) (unat index) = Inr r" "cr_reward_vault acc = ri_vault r"
    "position_authority_ok tx ta (cr_position_authority acc)"
    "arr3_get (pos_reward_infos p) (unat index) = Inr owed"
    "update_reward_owed p (unat index) (snd (calculate_collect_reward owed (tok_amount vault))) = Inr p'"
    "transfer_from_vault_to_owner rt (cr_whirlpool acc, w) (cr_reward_vault acc)
       (cr_reward_owner_account acc) (fst (calculate_collect_reward owed (tok_amount vault))) (lg_tokens lg) = Inr tokens"
    "lg' = lg\<lparr>lg_positions := (lg_positions lg)(cr_position acc \<mapsto> p'), lg_tokens := tokens\<rparr>"
    using assms unfolding process.simps collect_reward_def Let_def case_prod_unfold handler_iffs option.inject sum.inject
    by blast
  moreover have "calculate_collect_reward owed (tok_amount vault) = (min (pri_amount_owed owed) (tok_amount vault),
      pri_amount_owed owed - min (pri_amount_owed owed) (tok_amount vault))"
    by (auto simp: calculate_collect_reward_def Let_def min_def)
  ultimately show ?thesis
    by (auto simp: transfer_from_vault_to_owner_def and_then_Inr_iff intro!: position_permittedI exI)
qed

definition rewarded_pool :: Whirlpool where
  "rewarded_pool = sample_pool\<lparr>wp_reward_infos := Arr3 ((reward_info_new default_pubkey)\<lparr>ri_mint := Pubkey 5,
     ri_vault := Pubkey 6\<rparr>) (reward_info_new default_pubkey) (reward_info_new default_pubkey)\<rparr>"

definition rewarded_position :: "u64 \<Rightarrow> Position" where
  "rewarded_position owed = sample_position\<lparr>pos_reward_infos := Arr3 \<lparr>pri_growth_inside_checkpoint = 0, pri_amount_owed = owed\<rparr>
     default_position_reward default_position_reward\<rparr>"

definition rewarded_ledger :: "u64 \<Rightarrow> u64 \<Rightarrow> u64 \<Rightarrow> sample_tokens ledger" where
  "rewarded_ledger owed vault received = sample_ledger\<lparr>lg_pools := [Pubkey 9 \<mapsto> rewarded_pool],
     lg_positions := [Pubkey 50 \<mapsto> rewarded_position owed],
     lg_tokens := (lg_tokens sample_ledger)\<lparr>st_accounts :=
       [Pubkey 6 \<mapsto> sample_account (Pubkey 5) (Pubkey 9) vault, Pubkey 82 \<mapsto> sample_account (Pubkey 51) (Pubkey 85) 1,
        Pubkey 86 \<mapsto> sample_account (Pubkey 5) (Pubkey 85) received]\<rparr>\<rparr>"

lemma sample_reward_collected:
  "process sample_runtime (Pubkey 90) sample_tx (Collect_reward \<lparr>cr_whirlpool = Pubkey 9, cr_position_authority = Pubkey 85,
     cr_position = Pubkey 50, cr_position_token_account = Pubkey 82, cr_reward_owner_account = Pubkey 86,
     cr_reward_vault = Pubkey 6\<rparr> 0) (rewarded_ledger 10 4 0) = Some (Inr (rewarded_ledger 6 0 4))"
  by (simp add: collect_reward_def account_def signer_def has_one_def raw_constraint_def address_def Let_def
    verify_position_authority_def validate_owner_def transfer_from_vault_to_owner_def signed_by_pool_def
    whirlpool_seeds_def sample_runtime_def sample_transfer_def sample_account_def calculate_collect_reward_def
    update_reward_owed_def arr3_update_def sample_ledger_def sample_position_def sample_pool_def
    default_position_def rewarded_ledger_def rewarded_pool_def rewarded_position_def fun_upd_twist)

theorem collect_reward_pays_what_the_vault_holds_witness:
  "rt_transfer sample_runtime (lg_tokens (rewarded_ledger 10 4 0)) (Pubkey 6) (Pubkey 86) (Pubkey 9) (min 10 4)
     = Inr (lg_tokens (rewarded_ledger 6 0 4))"
  using collect_reward_pays_what_the_vault_holds [OF sample_reward_collected]
  by (auto simp: rewarded_ledger_def rewarded_pool_def rewarded_position_def sample_runtime_def sample_account_def)

section \<open>Routes over two pools\<close>

text \<open>The two transfers of a swap, and the pool that it leaves.\<close>

definition exchanged ::
  "'t runtime \<Rightarrow> pubkey \<Rightarrow> pubkey \<times> Whirlpool \<Rightarrow> pubkey \<Rightarrow> pubkey \<Rightarrow> bool \<Rightarrow> PostSwapUpdate \<Rightarrow> 't \<Rightarrow> 't \<Rightarrow> bool" where
  "exchanged rt authority pool owner_a owner_b a_to_b u tokens tokens' \<longleftrightarrow>
     (\<exists>between. rt_transfer rt tokens (if a_to_b then owner_a else owner_b)
          (if a_to_b then wp_token_vault_a (snd pool) else wp_token_vault_b (snd pool)) authority (swap_input a_to_b u)
          = Inr between
        \<and> rt_transfer rt between (if a_to_b then wp_token_vault_b (snd pool) else wp_token_vault_a (snd pool))
          (if a_to_b then owner_b else owner_a) (fst pool) (swap_output a_to_b u) = Inr tokens')"

definition pool_after :: "Whirlpool \<Rightarrow> PostSwapUpdate \<Rightarrow> bool \<Rightarrow> u64 \<Rightarrow> Whirlpool" where
  "pool_after w u a_to_b ts = update_after_swap w (ps_next_liquidity u) (ps_next_tick_index u) (ps_next_sqrt_price u)
     (ps_next_fee_growth_global u) (ps_next_reward_infos u) (ps_next_protocol_fee u) a_to_b ts"

lemma update_and_swap_exchanged:
  assumes "update_and_swap_whirlpool rt (k, w) ta oa ob (wp_token_vault_a w) (wp_token_vault_b w) u a_to_b ts tokens = Inr (w', tokens')"
  shows "exchanged rt ta (k, w) oa ob a_to_b u tokens tokens'" "w' = pool_after w u a_to_b ts"
  unfolding exchanged_def pool_after_def fst_conv snd_conv
  by (rule update_and_swap_transfers [OF assms], blast) (rule update_and_swap_Inr [OF assms])

text \<open>
  Two swaps, the second for what the first gives or the first for what the second takes: what
  their limits make of the amounts.
\<close>

lemma two_swaps_chained:
  assumes ok: "ledger_ok lg"
    and one: "lg_pools lg k = Some one" "borrow_sequence [] x0 x1 x2 = Inr k1" "arrays_of (lg_arrays lg) k1 = Inr s1"
      "\<And>key. key \<in> {x0, x1, x2} \<Longrightarrow> \<exists>ta. lg_arrays lg key = Some ta \<and> ta_whirlpool ta = k"
    and two: "lg_pools lg l = Some two" "borrow_sequence k1 y0 y1 y2 = Inr k2" "arrays_of (lg_arrays lg) k2 = Inr s2"
      "\<And>key. key \<in> {y0, y1, y2} \<Longrightarrow> \<exists>ta. lg_arrays lg key = Some ta \<and> ta_whirlpool ta = l"
    and u1: "swap one s1 (if exact_input then amount else swap_input d2 u2) l1 exact_input d1 ts = Some (Inr (u1, s1'))"
    and u2: "swap two s2 (if exact_input then swap_output d1 u1 else amount) l2 exact_input d2 ts = Some (Inr (u2, s2'))"
    and th: "if exact_input then other \<le> swap_output d2 u2 else swap_input d1 u1 \<le> other"
  shows "if exact_input
       then swap_input d1 u1 \<le> amount \<and> swap_input d2 u2 \<le> swap_output d1 u1 \<and> other \<le> swap_output d2 u2
       else swap_output d2 u2 \<le> amount \<and> swap_output d1 u1 \<le> swap_input d2 u2 \<and> swap_input d1 u1 \<le> other"
    "swap_input d2 u2 = swap_output d1 u1
       \<or> (if exact_input then ps_next_sqrt_price u2 = l2 else ps_next_sqrt_price u1 = l1)"
proof -
  note b1 = borrowed_arrays [OF one(2,3,4)] and b2 = borrowed_arrays [OF two(2,3,4)]
  have p: "pool_ok one" "pool_ok two" using ok one(1) two(1) by (auto simp: ledger_ok_def pools_ok_def)
  have q: "sequence_ok (wp_tick_spacing one) s1" "sequence_ok (wp_tick_spacing two) s2"
    using ledger_sequence_ok [OF ok one(1,3) b1(1,3)] ledger_sequence_ok [OF ok two(1,3) b2(1,3)] by simp_all
  note r1 = swap_respects_limits(3,4) [OF p(1) q(1) u1] and r2 = swap_respects_limits(3,4) [OF p(2) q(2) u2]
  have f: "fixed_traded exact_input d1 u1 = (if exact_input then swap_input d1 u1 else swap_output d1 u1)"
    "fixed_traded exact_input d2 u2 = (if exact_input then swap_input d2 u2 else swap_output d2 u2)"
    by (simp_all add: fixed_traded_def swap_input_def swap_output_def)
  show "if exact_input
       then swap_input d1 u1 \<le> amount \<and> swap_input d2 u2 \<le> swap_output d1 u1 \<and> other \<le> swap_output d2 u2
       else swap_output d2 u2 \<le> amount \<and> swap_output d1 u1 \<le> swap_input d2 u2 \<and> swap_input d1 u1 \<le> other"
    using th r1(1) r2(1) unfolding f by (cases exact_input) simp_all
  show "swap_input d2 u2 = swap_output d1 u1
       \<or> (if exact_input then ps_next_sqrt_price u2 = l2 else ps_next_sqrt_price u1 = l1)"
    using r1(2) r2(2) unfolding f by (cases exact_input) auto
qed

text \<open>
  C21: A swap over two pools swaps on two different pools that share the token in between: each
  swap is the one that the code computes on its pool with its own tick arrays, and with the
  input specified the second swaps what the first gives out, with the output specified the first
  swaps for what the second takes in. The instruction moves exactly the inputs and the outputs
  of these two swaps, and stores exactly their two pools and tick arrays. With the input
  specified the second pool takes at most what the first gives, the trader pays at most the
  amount and gets at least the threshold, with the output specified the bounds are the other way
  round; the amounts in between agree unless a pool stopped at its price limit.
\<close>

theorem two_hop_chains_the_amounts:
  assumes ok: "ledger_ok lg"
    and r: "process rt nft tx (Two_hop_swap acc amount other exact_input d1 d2 l1 l2) lg = Some (Inr lg')"
  shows "\<exists>one two k1 k2 s1 s2 u1 u2 s1' s2' between.
    lg_pools lg (th_whirlpool_one acc) = Some one \<and> lg_pools lg (th_whirlpool_two acc) = Some two
    \<and> th_whirlpool_one acc \<noteq> th_whirlpool_two acc
    \<and> (if d1 then wp_token_mint_b one else wp_token_mint_a one) = (if d2 then wp_token_mint_a two else wp_token_mint_b two)
    \<and> borrow_sequence [] (th_tick_array_one_0 acc) (th_tick_array_one_1 acc) (th_tick_array_one_2 acc) = Inr k1
    \<and> borrow_sequence k1 (th_tick_array_two_0 acc) (th_tick_array_two_1 acc) (th_tick_array_two_2 acc) = Inr k2
    \<and> arrays_of (lg_arrays lg) k1 = Inr s1 \<and> arrays_of (lg_arrays lg) k2 = Inr s2
    \<and> swap one s1 (if exact_input then amount else swap_input d2 u2) l1 exact_input d1 (clock tx) = Some (Inr (u1, s1'))
    \<and> swap two s2 (if exact_input then swap_output d1 u1 else amount) l2 exact_input d2 (clock tx) = Some (Inr (u2, s2'))
    \<and> exchanged rt (th_token_authority acc) (th_whirlpool_one acc, one)
         (th_token_owner_account_one_a acc) (th_token_owner_account_one_b acc) d1 u1 (lg_tokens lg) between
    \<and> exchanged rt (th_token_authority acc) (th_whirlpool_two acc, two)
         (th_token_owner_account_two_a acc) (th_token_owner_account_two_b acc) d2 u2 between (lg_tokens lg')
    \<and> lg' = lg\<lparr>lg_pools := (lg_pools lg)(th_whirlpool_one acc \<mapsto> pool_after one u1 d1 (clock tx),
                                          th_whirlpool_two acc \<mapsto> pool_after two u2 d2 (clock tx)),
                lg_arrays := store_arrays (store_arrays (lg_arrays lg) k1 s1') k2 s2', lg_tokens := lg_tokens lg'\<rparr>
    \<and> (if exact_input
       then swap_input d1 u1 \<le> amount \<and> swap_input d2 u2 \<le> swap_output d1 u1 \<and> other \<le> swap_output d2 u2
       else swap_output d2 u2 \<le> amount \<and> swap_output d1 u1 \<le> swap_input d2 u2 \<and> swap_input d1 u1 \<le> other)
    \<and> (swap_input d2 u2 = swap_output d1 u1
       \<or> (if exact_input then ps_next_sqrt_price u2 = l2 else ps_next_sqrt_price u1 = l1))"
proof (rule two_hop_swap_Inr [OF r [unfolded process.simps]])
  fix one two :: Whirlpool and k1 k2 s1 s2 and u1 u2 :: PostSwapUpdate and s1' s2' one' two' tokens1 tokens
  assume a: "two_hop_swap_accounts rt tx acc lg = Inr (one, two)" "th_whirlpool_one acc \<noteq> th_whirlpool_two acc"
    "(if d1 then wp_token_mint_b one else wp_token_mint_a one) = (if d2 then wp_token_mint_a two else wp_token_mint_b two)"
    and k1: "borrow_sequence [] (th_tick_array_one_0 acc) (th_tick_array_one_1 acc) (th_tick_array_one_2 acc) = Inr k1"
    and a1: "arrays_of (lg_arrays lg) k1 = Inr s1"
    and k2: "borrow_sequence k1 (th_tick_array_two_0 acc) (th_tick_array_two_1 acc) (th_tick_array_two_2 acc) = Inr k2"
    and a2: "arrays_of (lg_arrays lg) k2 = Inr s2"
    and u: "two_hop_updates one two s1 s2 amount exact_input d1 d2 l1 l2 (clock tx) = Some (Inr ((u1, s1'), (u2, s2')))"
    and th: "if exact_input then other \<le> swap_output d2 u2 else swap_input d1 u1 \<le> other"
    and w1: "update_and_swap_whirlpool rt (th_whirlpool_one acc, one) (th_token_authority acc)
       (th_token_owner_account_one_a acc) (th_token_owner_account_one_b acc) (th_token_vault_one_a acc)
       (th_token_vault_one_b acc) u1 d1 (clock tx) (lg_tokens lg) = Inr (one', tokens1)"
    and w2: "update_and_swap_whirlpool rt (th_whirlpool_two acc, two) (th_token_authority acc)
       (th_token_owner_account_two_a acc) (th_token_owner_account_two_b acc) (th_token_vault_two_a acc)
       (th_token_vault_two_b acc) u2 d2 (clock tx) tokens1 = Inr (two', tokens)"
    and lg': "lg\<lparr>lg_pools := (lg_pools lg)(th_whirlpool_one acc \<mapsto> one', th_whirlpool_two acc \<mapsto> two'),
        lg_arrays := store_arrays (store_arrays (lg_arrays lg) k1 s1') k2 s2', lg_tokens := tokens\<rparr> = lg'"
  note ac = two_hop_swap_accounts_Inr [OF a(1)] and sw = two_hop_updates_Inr [OF u] and v = two_hop_vaults [OF a(1)]
  note e1 = update_and_swap_exchanged [OF w1 [unfolded v(2,3)]] and e2 = update_and_swap_exchanged [OF w2 [unfolded v(4,5)]]
  note c = two_swaps_chained [OF ok ac(1) k1 a1 ac(3) ac(2) k2 a2 ac(4) sw th]
  have t: "lg_tokens lg' = tokens" by (simp flip: lg')
  show ?thesis
    using ac(1,2) a(2,3) k1 k2 a1 a2 sw e1(1) e2(1) [folded t] lg' [symmetric, folded t, unfolded e1(2) e2(2)] c
    by (intro exI conjI) assumption+
qed

theorem two_hop_chains_the_amounts_witness:
  "\<exists>between tokens. exchanged hop_runtime (Pubkey 85) (Pubkey 9, hop_one) (Pubkey 81) (Pubkey 83) False sample_update
       (lg_tokens hop_ledger) between
     \<and> exchanged hop_runtime (Pubkey 85) (Pubkey 10, hop_two) (Pubkey 80) (Pubkey 81) False hop_update between tokens
     \<and> swap_input False sample_update = 1000000 \<and> swap_output False sample_update = 996999
     \<and> swap_input False hop_update = 996999 \<and> swap_output False hop_update = 994007"
proof -
  obtain lg' where p: "process hop_runtime (Pubkey 90) sample_tx (Two_hop_swap hop_accounts 1000000 900000 True False False
     79226673515401279992447579055 79226673515401279992447579055) hop_ledger = Some (Inr lg')"
    using hop_processed by blast
  have k: "borrow_sequence [] (Pubkey 70) (Pubkey 71) (Pubkey 71) = Inr [Pubkey 70, Pubkey 71]"
    "borrow_sequence [Pubkey 70, Pubkey 71] (Pubkey 72) (Pubkey 73) (Pubkey 73) = Inr [Pubkey 72, Pubkey 73]"
    by (simp_all add: borrow_sequence_def borrow_optional_def)
  have a: "arrays_of (lg_arrays hop_ledger) [Pubkey 70, Pubkey 71] = Inr sample_arrays"
    "arrays_of (lg_arrays hop_ledger) [Pubkey 72, Pubkey 73] = Inr hop_arrays"
    and w: "lg_pools hop_ledger (Pubkey 9) = Some hop_one" "lg_pools hop_ledger (Pubkey 10) = Some hop_two"
    by (simp_all add: arrays_of_def hop_ledger_def)
  have o: "swap_output False sample_update = 996999" "swap_input False sample_update = 1000000"
    "swap_output False hop_update = 994007" "swap_input False hop_update = 996999"
    by (simp_all add: swap_output_def swap_input_def sample_update_def hop_update_def)
  obtain u1 u2 s1' s2' between where
    s: "swap sample_pool sample_arrays 1000000 79226673515401279992447579055 True False 0 = Some (Inr (u1, s1'))"
      "swap sample_pool hop_arrays (swap_output False u1) 79226673515401279992447579055 True False 0 = Some (Inr (u2, s2'))"
    and e: "exchanged hop_runtime (Pubkey 85) (Pubkey 9, hop_one) (Pubkey 81) (Pubkey 83) False u1 (lg_tokens hop_ledger) between"
      "exchanged hop_runtime (Pubkey 85) (Pubkey 10, hop_two) (Pubkey 80) (Pubkey 81) False u2 between (lg_tokens lg')"
    using two_hop_chains_the_amounts [OF hop_ledger_ok p]
    by (auto simp: hop_accounts_def k a w swap_reads_view [OF hop_views(1)] swap_reads_view [OF hop_views(2)])
  have "u1 = sample_update" using s(1) sample_swap by simp
  moreover from this have "u2 = hop_update" using s(2) hop_swap by (simp add: o)
  ultimately show ?thesis using e o by blast
qed

text \<open>
  C40: A swap over two pools does not depend on the enable flags of the pools: whatever the
  flags of the pools of a ledger are set to, the instruction has the same outcome, the same
  error or the same new ledger with these flags. So it goes through on disabled pools.
\<close>

theorem two_hop_ignores_enable_flag:
  "process rt nft tx (Two_hop_swap acc amount other exact_input d1 d2 l1 l2) (set_flags f lg)
   = map_option (map_sum id (set_flags f))
       (process rt nft tx (Two_hop_swap acc amount other exact_input d1 d2 l1 l2) lg)"
  unfolding process.simps by (rule two_hop_flags)

theorem two_hop_ignores_enable_flag_witness:
  "\<exists>lg'. process hop_runtime (Pubkey 90) sample_tx (Two_hop_swap hop_accounts 1000000 900000 True False False
       79226673515401279992447579055 79226673515401279992447579055) (set_flags (\<lambda>_. False) hop_ledger) = Some (Inr lg')
     \<and> map_option wp_is_enabled (lg_pools (set_flags (\<lambda>_. False) hop_ledger) (Pubkey 9)) = Some False
     \<and> map_option wp_is_enabled (lg_pools (set_flags (\<lambda>_. False) hop_ledger) (Pubkey 10)) = Some False"
  unfolding two_hop_ignores_enable_flag using hop_processed
  by (auto simp: set_flags_def whirlpool_set_enable_flag_def hop_ledger_def)

end
