(* ===== verification/Liquidity_Profile.thy ===== *)
theory Liquidity_Profile
  imports Swap_Manager
begin

text \<open>
  The liquidity of a pool as a function of the tick: what it would be were the price there.  The net
  liquidity of an initialized tick is the step of this function at the tick, and between initialized
  ticks it is flat.  A swap whose tick arrays agree with the function takes the pool along it: the
  liquidity it ends with is the value of the function at the tick it ends at, whatever ticks it
  crossed on the way and wherever the tick arrays end.
\<close>

section \<open>Flat stretches\<close>

text \<open>A stretch of ticks at none of which anything happens; flat is the liquidity on such a stretch.\<close>

definition calm :: "(i32 \<Rightarrow> bool) \<Rightarrow> i32 \<Rightarrow> i32 \<Rightarrow> bool" where
  "calm Q a b \<longleftrightarrow> (\<forall>y. a < y \<and> y \<le> b \<longrightarrow> Q y)"

lemma calm_sub: "calm Q a b \<Longrightarrow> a \<le> a' \<Longrightarrow> b' \<le> b \<Longrightarrow> calm Q a' b'"
  by (auto simp: calm_def)

lemma calm_join: "calm Q a b \<Longrightarrow> calm Q b c \<Longrightarrow> calm Q a c"
  by (auto simp: calm_def) (metis not_le)

lemma calm_mono: "calm Q a b \<Longrightarrow> (\<And>y. Q y \<Longrightarrow> R y) \<Longrightarrow> calm R a b"
  by (auto simp: calm_def)

abbreviation flat :: "(i32 \<Rightarrow> int) \<Rightarrow> i32 \<Rightarrow> i32 \<Rightarrow> bool" where
  "flat L \<equiv> calm (\<lambda>y. L y = L (y - 1))"

lemma flat_eq: "flat L a b \<Longrightarrow> a \<le> b \<Longrightarrow> L b = L a"
proof (induction "nat (b - a)" arbitrary: b)
  case 0
  then show ?case by simp
next
  case (Suc n)
  then have "flat L a (b - 1)" "L b = L (b - 1)" by (auto simp: calm_def)
  then show ?case using Suc.hyps(1) [of "b - 1"] Suc.hyps(2) by simp
qed

lemma flat_sub: "flat L a b \<Longrightarrow> a \<le> a' \<Longrightarrow> b' \<le> b \<Longrightarrow> flat L a' b'"
  by (auto simp: calm_def)

section \<open>Tick arrays that agree with a function of the tick\<close>

definition net_at :: "u16 \<Rightarrow> TickArray \<Rightarrow> i32 \<Rightarrow> i128" where
  "net_at s ta y = (if initialized_at s ta y then tk_liquidity_net (ta_ticks ta ! slot s ta y) else 0)"

definition follows :: "(i32 \<Rightarrow> int) \<Rightarrow> u16 \<Rightarrow> TickArray \<Rightarrow> bool" where
  "follows L s ta \<longleftrightarrow> (\<forall>y. holds_tick s ta y \<longrightarrow> L y - L (y - 1) = net_at s ta y \<and> in_i128 (net_at s ta y)
     \<and> in_i128 (- net_at s ta y))"

definition flat_between :: "(i32 \<Rightarrow> int) \<Rightarrow> u16 \<Rightarrow> bool" where
  "flat_between L s \<longleftrightarrow> (\<forall>y. \<not> (tick_in_range y \<and> uint s dvd y) \<longrightarrow> L y = L (y - 1))"

definition profile :: "(i32 \<Rightarrow> int) \<Rightarrow> u16 \<Rightarrow> SwapTickSequence \<Rightarrow> bool" where
  "profile L s arrays \<longleftrightarrow> flat_between L s \<and> (\<forall>ta \<in> set arrays. follows L s ta)"

lemma uninitialized_flat:
  assumes "flat_between L s" "follows L s ta" "\<not> initialized_at s ta y"
    and "ta_start_tick_index ta \<le> y" "y < ta_start_tick_index ta + ticks_in_array s"
  shows "L y = L (y - 1)"
proof (cases "tick_in_range y \<and> uint s dvd y")
  case True
  then have "holds_tick s ta y" using assms(4,5) by (simp add: holds_tick_def)
  then show ?thesis using assms(2,3) by (fastforce simp: follows_def net_at_def)
next
  case False
  then show ?thesis using assms(1) by (simp add: flat_between_def)
qed

section \<open>The search walks a calm stretch\<close>

text \<open>Something may happen only at the initialized ticks of the arrays.\<close>

definition quiet :: "(i32 \<Rightarrow> bool) \<Rightarrow> u16 \<Rightarrow> TickArray \<Rightarrow> bool" where
  "quiet Q s ta \<longleftrightarrow> (\<forall>y. (\<not> (tick_in_range y \<and> uint s dvd y) \<longrightarrow> Q y)
     \<and> (ta_start_tick_index ta \<le> y \<longrightarrow> y < ta_start_tick_index ta + ticks_in_array s \<longrightarrow> \<not> initialized_at s ta y \<longrightarrow> Q y))"

lemma quietD:
  assumes "quiet Q s ta"
  shows "\<not> (tick_in_range y \<and> uint s dvd y) \<Longrightarrow> Q y"
    "\<not> initialized_at s ta y \<Longrightarrow> ta_start_tick_index ta \<le> y \<Longrightarrow> y < ta_start_tick_index ta + ticks_in_array s \<Longrightarrow> Q y"
  using assms by (simp_all add: quiet_def)

lemma array_search_calm:
  assumes tok: "tick_array_ok s ta" and p: "quiet Q s ta"
    and r: "array_get_next_init_tick_index ta t s a_to_b = Inr r"
  shows "a_to_b \<Longrightarrow> t < ta_start_tick_index ta + ticks_in_array s \<and>
      (case r of Some x \<Rightarrow> calm Q x t \<and> ta_start_tick_index ta \<le> x \<and> x \<le> t
       | None \<Rightarrow> calm Q (ta_start_tick_index ta - 1) t)"
    "\<not> a_to_b \<Longrightarrow>
      (case r of Some x \<Rightarrow> calm Q t (x - 1) \<and> t < x \<and> x < ta_start_tick_index ta + ticks_in_array s \<and> ta_start_tick_index ta \<le> x
       | None \<Rightarrow> calm Q t (ta_start_tick_index ta + ticks_in_array s - 1))"
proof -
  note sr = array_search_range [OF tok r, unfolded in_search_range_eq [OF tok]]
  note c = array_search_correct [OF tok r]
  note fl = quietD(2) [OF p]
  have s: "0 < uint s" "uint s dvd ta_start_tick_index ta" using tick_array_okD(2,4) [OF tok] by auto
  have ib: "initialized_at s ta y \<Longrightarrow> ta_start_tick_index ta \<le> y \<and> y < ta_start_tick_index ta + ticks_in_array s" for y
    using initialized_at_bounds [OF tok] by blast
  show "t < ta_start_tick_index ta + ticks_in_array s \<and>
      (case r of Some x \<Rightarrow> calm Q x t \<and> ta_start_tick_index ta \<le> x \<and> x \<le> t
       | None \<Rightarrow> calm Q (ta_start_tick_index ta - 1) t)" if a: a_to_b
  proof (cases r)
    case None
    then show ?thesis using sr c a fl by (auto simp: next_initialized_def calm_def)
  next
    case (Some x)
    then have x: "ta_start_tick_index ta \<le> x" "x \<le> t" "\<And>y. x < y \<Longrightarrow> y \<le> t \<Longrightarrow> \<not> initialized_at s ta y"
      using c a ib by (auto simp: next_initialized_def)
    have "Q y" if "x < y" "y \<le> t" for y
      by (rule fl [OF x(3) [OF that]]) (use x sr a that in auto)
    then show ?thesis using Some x sr a by (simp add: calm_def)
  qed
  assume b: "\<not> a_to_b"
  have before: "Q y" if "ta_start_tick_index ta - uint s < y" "y < ta_start_tick_index ta" for y
  proof -
    have "\<not> uint s dvd y"
    proof
      assume "uint s dvd y"
      then have "uint s dvd ta_start_tick_index ta - y" using s(2) by (rule dvd_diff [rotated])
      then show False using that zdvd_imp_le [of "uint s" "ta_start_tick_index ta - y"] by simp
    qed
    then show ?thesis using quietD(1) [OF p] by blast
  qed
  have y: "Q y" if "t < y" "\<not> initialized_at s ta y" "y < ta_start_tick_index ta + ticks_in_array s" for y
    using that sr b before [of y] fl [of y] by (cases "ta_start_tick_index ta \<le> y") auto
  show "case r of Some x \<Rightarrow> calm Q t (x - 1) \<and> t < x \<and> x < ta_start_tick_index ta + ticks_in_array s \<and> ta_start_tick_index ta \<le> x
       | None \<Rightarrow> calm Q t (ta_start_tick_index ta + ticks_in_array s - 1)"
  proof (cases r)
    case None
    then show ?thesis using c b y by (auto simp: next_initialized_def calm_def)
  next
    case (Some x)
    then have x: "ta_start_tick_index ta \<le> x" "t < x" "x < ta_start_tick_index ta + ticks_in_array s"
      "\<And>y. t < y \<Longrightarrow> y < x \<Longrightarrow> \<not> initialized_at s ta y"
      using c b ib by (auto simp: next_initialized_def)
    have "Q z" if "t < z" "z \<le> x - 1" for z
      by (rule y [OF that(1) x(4)]) (use x that in auto)
    then show ?thesis using Some x by (simp add: calm_def)
  qed
qed

lemma sequence_search_calm:
  assumes ok: "sequence_ok s arrays" and p: "\<And>ta. ta \<in> set arrays \<Longrightarrow> quiet Q s ta"
  shows "sequence_search_loop arrays s a_to_b t i = Inr (j, x) \<Longrightarrow> if a_to_b then x \<le> t else t < x \<Longrightarrow>
    j < length arrays \<and> ta_start_tick_index (arrays ! j) \<le> x
    \<and> x < ta_start_tick_index (arrays ! j) + ticks_in_array s
    \<and> (if a_to_b then calm Q x t else calm Q t (x - 1))"
proof (induction "length arrays - i" arbitrary: i t rule: less_induct)
  case less
  have fo: "i < length arrays \<Longrightarrow> quiet Q s (arrays ! i)" by (rule p) simp
  show ?case using ok less.prems(1)
  proof (cases rule: sequence_search_cases)
    case found
    note tok = sequence_ok_nth [OF ok found(1)]
    show ?thesis using array_search_calm [OF tok fo [OF found(1)] found(2)] found less.prems(2)
      by (cases a_to_b) auto
  next
    case stop
    note tok = sequence_ok_nth [OF ok stop(1)]
    have b: "MIN_TICK_INDEX - ticks_in_array s \<le> ta_start_tick_index (arrays ! i)"
      "ta_start_tick_index (arrays ! i) \<le> MAX_TICK_INDEX" "0 < ticks_in_array s"
      using tok ticks_in_array_bounds(1) [OF tick_array_okD(1) [OF tok]] by (auto simp: tick_array_ok_def)
    show ?thesis using array_search_calm [OF tok fo [OF stop(1)] stop(2)] stop(1,3,5) less.prems(2) b
      by (cases a_to_b) (auto elim!: calm_sub)
  next
    case more
    note tok = sequence_ok_nth [OF ok more(1)]
    let ?t = "if a_to_b then ta_start_tick_index (arrays ! i) - 1 else ta_start_tick_index (arrays ! i) + ticks_in_array s - 1"
    have "length arrays - (i + 1) < length arrays - i" using more(1) by simp
    note IH = less.hyps [OF this more(3)]
    have "if a_to_b then x \<le> ?t else ?t < x"
      using sequence_search_correct [OF ok more(3)] more(4) array_end_val(4) [OF tok]
      by (auto simp: is_min_tick_array_def split: if_splits)
    from IH [OF this] show ?thesis
      using array_search_calm [OF tok fo [OF more(1)] more(2)]
      by (cases a_to_b) (auto elim!: calm_join)
  qed
qed

lemma profile_quiet:
  assumes "profile L s arrays" "ta \<in> set arrays"
  shows "quiet (\<lambda>y. L y = L (y - 1)) s ta"
proof -
  have p: "flat_between L s" "follows L s ta" using assms by (simp_all add: profile_def)
  show ?thesis
    unfolding quiet_def using uninitialized_flat [OF p] p(1) unfolding flat_between_def by blast
qed

section \<open>Crossing a tick\<close>

lemma initialized_at_slot:
  assumes "tick_array_ok s ta" "holds_tick s ta y"
  shows "initialized_at s ta y \<longleftrightarrow> tk_initialized (ta_ticks ta ! slot s ta y)"
  using initialized_at_holds(3) [OF assms(1)] slot_bounds [OF assms] by (auto simp: initialized_at_def)

lemma follows_update:
  assumes tok: "tick_array_ok s ta" and f: "follows L s ta" and u: "update_tick ta x s u = Inr ta'"
    and same: "tu_initialized u = tk_initialized (ta_ticks ta ! slot s ta x)"
      "tu_liquidity_net u = tk_liquidity_net (ta_ticks ta ! slot s ta x)"
  shows "follows L s ta'"
proof -
  have h: "holds_tick s ta x" and ta': "ta' = ta\<lparr>ta_ticks := (ta_ticks ta)[slot s ta x := tick_update default_tick u]\<rparr>"
    using u by (auto simp: update_tick_eq [OF tok] split: if_splits)
  have tok': "tick_array_ok s ta'" by (rule update_tick_ok(1) [OF tok u])
  have len: "slot s ta x < length (ta_ticks ta)" using slot_bounds(2) [OF tok h] tick_array_okD(3) [OF tok] by simp
  have holds: "holds_tick s ta' y \<longleftrightarrow> holds_tick s ta y" and sl: "slot s ta' y = slot s ta y" for y
    unfolding ta' by (simp_all add: update_tick_holds)
  have "net_at s ta' y = net_at s ta y" if y: "holds_tick s ta y" for y
    unfolding net_at_def initialized_at_slot [OF tok y] initialized_at_slot [OF tok' iffD2 [OF holds y]] sl
    by (cases "slot s ta y = slot s ta x") (simp_all add: ta' len same tick_update_def)
  then show ?thesis using f holds by (simp add: follows_def)
qed

lemma crossed_state_profile:
  assumes ok: "sequence_ok s arrays" and p: "profile L s arrays"
    and g: "sequence_get_tick arrays j x s = Inr tick" and c: "next_tick_cross_update tick ga gb infos = Inr u"
    and u: "sequence_update_tick arrays j x s u = Inr arrays'"
  shows "profile L s arrays'"
proof -
  obtain ta' where j: "j < length arrays" and u': "update_tick (arrays ! j) x s u = Inr ta'"
    and arrays': "arrays' = arrays[j := ta']"
    using u by (auto simp: sequence_update_tick_def arrays_get_def and_then_Inr_iff split: if_splits)
  note tok = sequence_ok_nth [OF ok j]
  have "tick = ta_ticks (arrays ! j) ! slot s (arrays ! j) x"
    using g j by (auto simp: sequence_get_tick_def arrays_get_def get_tick_eq [OF tok] split: if_splits)
  then have "follows L s ta'"
    using follows_update [OF tok _ u'] cross_update_fields(1,2) [OF c] p j by (simp add: profile_def)
  then show ?thesis using p set_update_subset_insert [of arrays j ta'] by (auto simp: profile_def arrays')
qed

text \<open>What the profile says of the tick that a swap reaches.\<close>

lemma profile_step:
  assumes ok: "sequence_ok s arrays" and p: "profile L s arrays" and j: "j < length arrays"
    and x: "ta_start_tick_index (arrays ! j) \<le> x" "x < ta_start_tick_index (arrays ! j) + ticks_in_array s"
  shows "sequence_get_tick arrays j x s = Inr tick \<Longrightarrow> tk_initialized tick \<Longrightarrow>
      L x - L (x - 1) = tk_liquidity_net tick \<and> in_i128 (tk_liquidity_net tick) \<and> in_i128 (- tk_liquidity_net tick)"
    "\<nexists>tick. sequence_get_tick arrays j x s = Inr tick \<and> tk_initialized tick \<Longrightarrow> L x = L (x - 1)"
proof -
  note tok = sequence_ok_nth [OF ok j]
  have f: "follows L s (arrays ! j)" "flat_between L s" using p j by (auto simp: profile_def)
  have get: "sequence_get_tick arrays j x s = (if holds_tick s (arrays ! j) x
      then Inr (ta_ticks (arrays ! j) ! slot s (arrays ! j) x) else Inl (Err TickNotFound))"
    using j by (simp add: sequence_get_tick_def arrays_get_def get_tick_eq [OF tok])
  show "L x - L (x - 1) = tk_liquidity_net tick \<and> in_i128 (tk_liquidity_net tick) \<and> in_i128 (- tk_liquidity_net tick)"
    if "sequence_get_tick arrays j x s = Inr tick" "tk_initialized tick"
    using that f(1) initialized_at_slot [OF tok] unfolding get
    by (fastforce simp: follows_def net_at_def split: if_splits)
  show "L x = L (x - 1)" if "\<nexists>tick. sequence_get_tick arrays j x s = Inr tick \<and> tk_initialized tick"
  proof (rule uninitialized_flat [OF f(2,1) _ x])
    show "\<not> initialized_at s (arrays ! j) x"
      using that initialized_at_holds [OF tok, of x] unfolding get by auto
  qed
qed

lemma cross_next_tick_profile:
  assumes r: "cross_next_tick w a_to_b infos j x st = Inr st'" and ok: "sequence_ok (wp_tick_spacing w) (sw_sequence st)"
    and p: "profile L (wp_tick_spacing w) (sw_sequence st)" and j: "j < length (sw_sequence st)"
    and x: "ta_start_tick_index (sw_sequence st ! j) \<le> x"
      "x < ta_start_tick_index (sw_sequence st ! j) + ticks_in_array (wp_tick_spacing w)"
    and on: "uint (sw_liquidity st) = L (if a_to_b then x else x - 1)" and range: "tick_in_range x"
  shows "profile L (wp_tick_spacing w) (sw_sequence st')" "uint (sw_liquidity st') = L (sw_tick_index st')"
proof -
  let ?s = "wp_tick_spacing w"
  note st = profile_step [OF ok p j x]
  have x1: "to_i32 (x - 1) = x - 1" using range
    by (simp add: to_i32_id tick_in_range_def MIN_TICK_INDEX_def MAX_TICK_INDEX_def)
  have "profile L ?s (sw_sequence st') \<and> uint (sw_liquidity st') = L (sw_tick_index st')"
    using r
  proof (cases rule: cross_next_tick_Inr)
    case (skip off)
    then show ?thesis using p on st(2) by (simp add: x1 split: if_splits)
  next
    case (cross tick st1 off)
    obtain u l arrays where u: "next_tick_cross_update tick
          (if a_to_b then sw_fee_growth_global_input st else wp_fee_growth_global_a w)
          (if a_to_b then wp_fee_growth_global_b w else sw_fee_growth_global_input st) infos = Inr u"
      and l: "add_liquidity_delta (sw_liquidity st)
            (if a_to_b then to_i128 (- tk_liquidity_net tick) else tk_liquidity_net tick) = Inr l"
      and arr: "sequence_update_tick (sw_sequence st) j x ?s u = Inr arrays"
      and st1: "st1 = st\<lparr>sw_liquidity := l, sw_sequence := arrays\<rparr>"
      using cross(3) by (auto simp: crossed_state_def)
    note n = st(1) [OF cross(1,2)]
    have "uint l = uint (sw_liquidity st) + (if a_to_b then - tk_liquidity_net tick else tk_liquidity_net tick)"
      using l n by (cases a_to_b) (simp_all add: to_i128_id add_liquidity_delta_Inr_iff)
    then show ?thesis using crossed_state_profile [OF ok p cross(1) u arr] n on
      by (simp add: cross(5) st1 x1 split: if_splits)
  qed
  then show "profile L ?s (sw_sequence st')" "uint (sw_liquidity st') = L (sw_tick_index st')" by auto
qed

section \<open>A swap follows the profile\<close>

text \<open>The tick of the price of a step that stops between two initialized ticks is on the stretch between them.\<close>

lemma new_tick_between:
  assumes tp: "tick_price_ok t p" and pq: "if a_to_b then q \<le> p else p \<le> q" "q \<noteq> p" "price_in_range q"
    and r: "tick_index_from_sqrt_price q = Inr t'" and x: "tick_in_range x"
    and stop: "if a_to_b then price_val x \<le> unat q else unat q < price_val x"
  shows "if a_to_b then x \<le> t' \<and> t' \<le> t else t \<le> t' \<and> t' < x"
proof -
  have t': "tick_in_range t'" "price_val t' \<le> unat q" "t' < MAX_TICK_INDEX \<longrightarrow> unat q < price_val (t' + 1)"
    using tick_of_price [OF pq(3)] r by auto
  have t: "MIN_TICK_INDEX - 1 \<le> t" "t \<le> MAX_TICK_INDEX" "MIN_TICK_INDEX \<le> t \<longrightarrow> price_val t \<le> unat p"
    "t < MAX_TICK_INDEX \<longrightarrow> unat p \<le> price_val (t + 1)" using tp by (auto simp: tick_price_ok_def)
  have ne: "unat q \<noteq> unat p" using pq(2) by (simp add: word_unat_eq_iff)
  have greatest: "y \<le> t'" if "tick_in_range y" "price_val y \<le> unat q" for y
  proof (rule ccontr)
    assume "\<not> y \<le> t'"
    then have up: "tick_in_range (t' + 1)" "t' < MAX_TICK_INDEX" "t' + 1 \<le> y"
      using that(1) t'(1) by (auto simp: tick_in_range_def)
    then have "price_val (t' + 1) \<le> price_val y" using price_val_le_iff [OF up(1) that(1)] by simp
    then show False using t'(3) up(2) that(2) by simp
  qed
  show ?thesis
  proof (cases a_to_b)
    case True
    have "t' \<le> t"
    proof (rule ccontr)
      assume c: "\<not> t' \<le> t"
      then have up: "tick_in_range (t + 1)" "t < MAX_TICK_INDEX" "t + 1 \<le> t'"
        using t'(1) t(1) by (auto simp: tick_in_range_def)
      then have "price_val (t + 1) \<le> price_val t'" using price_val_le_iff [OF up(1) t'(1)] by simp
      moreover have "unat q \<le> unat p" using pq(1) True by (simp add: word_le_nat_alt)
      ultimately show False using t(4) up(2) t'(2) ne by simp
    qed
    then show ?thesis using greatest [OF x] stop True by simp
  next
    case False
    then have le: "unat p \<le> unat q" using pq(1) by (simp add: word_le_nat_alt)
    have "t \<le> t'"
    proof (cases "MIN_TICK_INDEX \<le> t")
      case True
      then show ?thesis using greatest [of t] t(2,3) le by (simp add: tick_in_range_def)
    next
      case False
      then show ?thesis using t'(1) by (simp add: tick_in_range_def)
    qed
    moreover have "t' < x"
      using price_val_less_iff [OF t'(1) x] t'(2) stop \<open>\<not> a_to_b\<close> by simp
    ultimately show ?thesis using False by simp
  qed
qed

text \<open>
  A step moves along a stretch of constant liquidity: from the current tick to the next initialized
  one, in the direction of the trade, and to a price that does not lie beyond that tick.
\<close>

lemma swap_step_stretch:
  assumes inv: "swap_inv (wp_tick_spacing w) limit a_to_b st" and run: "swap_running limit st"
    and limit: "price_in_range limit" and r: "swap_step w limit inp a_to_b infos st = Inr st'"
    and p: "\<And>ta. ta \<in> set (sw_sequence st) \<Longrightarrow> quiet Q (wp_tick_spacing w) ta"
  obtains j x q c rem m pf g st2 where
    "j < length (sw_sequence st)" "ta_start_tick_index (sw_sequence st ! j) \<le> x"
    "x < ta_start_tick_index (sw_sequence st ! j) + ticks_in_array (wp_tick_spacing w)"
    "tick_in_range x" "unat q = price_val x" "price_in_range (next_price c)"
    "if a_to_b then x \<le> sw_tick_index st \<and> calm Q x (sw_tick_index st)
       else sw_tick_index st < x \<and> calm Q (sw_tick_index st) (x - 1)"
    "if a_to_b then q \<le> next_price c \<and> next_price c \<le> sw_sqrt_price st
       else sw_sqrt_price st \<le> next_price c \<and> next_price c \<le> q"
    "unat (amount_in c) = input_amount a_to_b (unat (sw_sqrt_price st)) (unat (next_price c)) (unat (sw_liquidity st))"
    "unat (amount_out c) \<le> output_amount a_to_b (unat (sw_sqrt_price st)) (unat (next_price c)) (unat (sw_liquidity st))"
    "step_amounts inp c (sw_amount_remaining st) (sw_amount_calculated st) = Inr (rem, m)"
    "calculate_fees (fee_amount c) (wp_protocol_fee_rate w) (sw_liquidity st) (sw_protocol_fee st)
       (sw_fee_growth_global_input st) = Inr (pf, g)"
    "(if next_price c = q then cross_next_tick w a_to_b infos j x
         (st\<lparr>sw_amount_remaining := rem, sw_amount_calculated := m, sw_protocol_fee := pf,
             sw_fee_growth_global_input := g\<rparr>)
      else if next_price c \<noteq> sw_sqrt_price st
      then and_then (tick_index_from_sqrt_price (next_price c)) (\<lambda>i.
        Inr (st\<lparr>sw_amount_remaining := rem, sw_amount_calculated := m, sw_protocol_fee := pf,
                sw_fee_growth_global_input := g, sw_tick_index := i\<rparr>))
      else Inr (st\<lparr>sw_amount_remaining := rem, sw_amount_calculated := m, sw_protocol_fee := pf,
                   sw_fee_growth_global_input := g\<rparr>)) = Inr st2"
    "st' = st2\<lparr>sw_sqrt_price := next_price c\<rparr>"
proof -
  let ?s = "wp_tick_spacing w" and ?p = "sw_sqrt_price st" and ?t = "sw_tick_index st"
  obtain j x q t c rem m pf g st2 where
    nx: "get_next_initialized_tick_index (sw_sequence st) ?t ?s a_to_b (sw_array_index st) = Inr (j, x)"
    and q: "sqrt_price_from_tick_index x = Inr q" and t: "t = (if a_to_b then max limit q else min limit q)"
    and c: "compute_swap (sw_amount_remaining st) (wp_fee_rate w) (sw_liquidity st) ?p t inp a_to_b = Inr c"
    and am: "step_amounts inp c (sw_amount_remaining st) (sw_amount_calculated st) = Inr (rem, m)"
    and fees: "calculate_fees (fee_amount c) (wp_protocol_fee_rate w) (sw_liquidity st) (sw_protocol_fee st)
       (sw_fee_growth_global_input st) = Inr (pf, g)"
    and st2: "(if next_price c = q then cross_next_tick w a_to_b infos j x
         (st\<lparr>sw_amount_remaining := rem, sw_amount_calculated := m, sw_protocol_fee := pf,
             sw_fee_growth_global_input := g\<rparr>)
      else if next_price c \<noteq> ?p
      then and_then (tick_index_from_sqrt_price (next_price c)) (\<lambda>i.
        Inr (st\<lparr>sw_amount_remaining := rem, sw_amount_calculated := m, sw_protocol_fee := pf,
                sw_fee_growth_global_input := g, sw_tick_index := i\<rparr>))
      else Inr (st\<lparr>sw_amount_remaining := rem, sw_amount_calculated := m, sw_protocol_fee := pf,
                   sw_fee_growth_global_input := g\<rparr>)) = Inr st2"
    and st': "st' = st2\<lparr>sw_sqrt_price := next_price c\<rparr>"
    by (rule swap_step_Inr [OF r], rule that)
  have sq: "sequence_ok ?s (sw_sequence st)" and pr: "price_in_range ?p"
    and lp: "if a_to_b then limit \<le> ?p else ?p \<le> limit" using inv by (simp_all add: swap_inv_def)
  note nt = next_tick_direction [OF inv run limit nx q]
  note fl = sequence_search_calm [OF sq p nx [unfolded get_next_initialized_tick_index_def] nt(2)]
  have dir: "if a_to_b then t \<le> ?p else ?p \<le> t" using nt(3) lp by (auto simp: t split: if_splits)
  note cs = compute_swap_fixed [OF c dir]
  have np: "if a_to_b then limit \<le> next_price c \<and> q \<le> next_price c \<and> next_price c \<le> ?p
      else ?p \<le> next_price c \<and> next_price c \<le> limit \<and> next_price c \<le> q"
    using cs(1) by (auto simp: on_the_way_def t)
  have npr: "price_in_range (next_price c)"
    using np limit pr by (auto simp: price_in_range_def split: if_splits)
  have fin: "j < length (sw_sequence st)" "ta_start_tick_index (sw_sequence st ! j) \<le> x"
    "x < ta_start_tick_index (sw_sequence st ! j) + ticks_in_array ?s" using fl by simp_all
  have out: "unat (amount_out c) \<le> output_amount a_to_b (unat ?p) (unat (next_price c)) (unat (sw_liquidity st))"
    using cs(3) by (cases inp) simp_all
  have between: "if a_to_b then q \<le> next_price c \<and> next_price c \<le> ?p else ?p \<le> next_price c \<and> next_price c \<le> q"
    using np by simp
  have stretch: "if a_to_b then x \<le> ?t \<and> calm Q x ?t else ?t < x \<and> calm Q ?t (x - 1)" using fl nt(2) by simp
  show thesis
    by (rule that [OF fin nt(1) sqrt_price_Inr_val [OF q nt(1)] npr stretch between cs(2) out am fees st2 st'])
qed

lemma swap_step_profile:
  assumes inv: "swap_inv (wp_tick_spacing w) limit a_to_b st" and run: "swap_running limit st"
    and limit: "price_in_range limit" and r: "swap_step w limit inp a_to_b infos st = Inr st'"
    and p: "profile L (wp_tick_spacing w) (sw_sequence st)" and on: "uint (sw_liquidity st) = L (sw_tick_index st)"
  shows "profile L (wp_tick_spacing w) (sw_sequence st') \<and> uint (sw_liquidity st') = L (sw_tick_index st')"
proof (rule swap_step_stretch [OF inv run limit r profile_quiet [OF p]])
  let ?s = "wp_tick_spacing w" and ?p = "sw_sqrt_price st" and ?t = "sw_tick_index st"
  fix j x q c and rem m pf :: u64 and g :: u128 and st2 :: SwapState
  assume j: "j < length (sw_sequence st)" "ta_start_tick_index (sw_sequence st ! j) \<le> x"
      "x < ta_start_tick_index (sw_sequence st ! j) + ticks_in_array ?s"
    and x: "tick_in_range x" "unat q = price_val x" "price_in_range (next_price c)"
    and fl: "if a_to_b then x \<le> ?t \<and> flat L x ?t else ?t < x \<and> flat L ?t (x - 1)"
    and np: "if a_to_b then q \<le> next_price c \<and> next_price c \<le> ?p else ?p \<le> next_price c \<and> next_price c \<le> q"
    and st2: "(if next_price c = q then cross_next_tick w a_to_b infos j x
         (st\<lparr>sw_amount_remaining := rem, sw_amount_calculated := m, sw_protocol_fee := pf,
             sw_fee_growth_global_input := g\<rparr>)
      else if next_price c \<noteq> ?p
      then and_then (tick_index_from_sqrt_price (next_price c)) (\<lambda>i.
        Inr (st\<lparr>sw_amount_remaining := rem, sw_amount_calculated := m, sw_protocol_fee := pf,
                sw_fee_growth_global_input := g, sw_tick_index := i\<rparr>))
      else Inr (st\<lparr>sw_amount_remaining := rem, sw_amount_calculated := m, sw_protocol_fee := pf,
                   sw_fee_growth_global_input := g\<rparr>)) = Inr st2"
    and st': "st' = st2\<lparr>sw_sqrt_price := next_price c\<rparr>"
  have sq: "sequence_ok ?s (sw_sequence st)" and tp: "tick_price_ok ?t ?p" using inv by (simp_all add: swap_inv_def)
  have here: "uint (sw_liquidity st) = L (if a_to_b then x else x - 1)"
    using flat_eq [of L x ?t] flat_eq [of L ?t "x - 1"] fl on by (cases a_to_b) simp_all
  have "profile L ?s (sw_sequence st2) \<and> uint (sw_liquidity st2) = L (sw_tick_index st2)"
  proof (cases "next_price c = q")
    case True
    then show ?thesis
      using cross_next_tick_profile [of w a_to_b infos j x _ st2 L] st2 sq p j here x(1) by simp
  next
    case False
    show ?thesis
    proof (cases "next_price c = ?p")
      case True
      then show ?thesis using st2 False p on by auto
    next
      case moved: False
      obtain i where i: "tick_index_from_sqrt_price (next_price c) = Inr i"
        and st2: "sw_sequence st2 = sw_sequence st" "sw_liquidity st2 = sw_liquidity st" "sw_tick_index st2 = i"
        using st2 False moved by (auto simp: and_then_Inr_iff)
      have ne: "unat (next_price c) \<noteq> unat q" using False by (simp add: word_unat_eq_iff)
      have stop: "if a_to_b then price_val x \<le> unat (next_price c) else unat (next_price c) < price_val x"
        using np ne by (auto simp: word_le_nat_alt x(2) [symmetric] split: if_splits)
      have pq: "if a_to_b then next_price c \<le> ?p else ?p \<le> next_price c" using np by (simp split: if_splits)
      have btw: "if a_to_b then x \<le> i \<and> i \<le> ?t else ?t \<le> i \<and> i < x"
        by (rule new_tick_between [OF tp pq moved x(3) i x(1) stop])
      have "L i = L ?t"
        using btw fl flat_eq [of L i ?t] flat_eq [of L ?t i] flat_sub [of L x ?t i ?t] flat_sub [of L ?t "x - 1" ?t i]
        by (cases a_to_b) simp_all
      then show ?thesis using p on by (simp add: st2)
    qed
  qed
  then show ?thesis by (simp add: st')
qed

lemma swap_loop_profile:
  assumes r: "swap_loop w limit inp a_to_b infos st = Some (Inr st')" and limit: "price_in_range limit"
    and st: "swap_inv (wp_tick_spacing w) limit a_to_b st" "profile L (wp_tick_spacing w) (sw_sequence st)"
      "uint (sw_liquidity st) = L (sw_tick_index st)"
  shows "profile L (wp_tick_spacing w) (sw_sequence st') \<and> uint (sw_liquidity st') = L (sw_tick_index st')"
  using swap_loop_keeps [OF r, where P = "\<lambda>st. swap_inv (wp_tick_spacing w) limit a_to_b st
      \<and> profile L (wp_tick_spacing w) (sw_sequence st) \<and> uint (sw_liquidity st) = L (sw_tick_index st)"]
    st swap_step_inv(1) [OF _ _ limit] swap_step_profile [OF _ _ limit] by blast

lemma swap_profile:
  assumes "pool_ok w" "sequence_ok (wp_tick_spacing w) arrays"
    and r: "swap w arrays amount limit inp a_to_b ts = Some (Inr (u, arrays'))"
    and p: "profile L (wp_tick_spacing w) arrays" "uint (wp_liquidity w) = L (wp_tick_current_index w)"
  shows "profile L (wp_tick_spacing w) arrays'" "uint (ps_next_liquidity u) = L (ps_next_tick_index u)"
proof -
  obtain infos st where c: "swap_checks w amount limit a_to_b ts = Inr infos"
    and l: "swap_loop w limit inp a_to_b infos (swap_start w arrays amount a_to_b) = Some (Inr st)"
    and u: "u = swap_finish amount inp a_to_b infos st" "arrays' = sw_sequence st"
    by (rule swap_Inr [OF assms(1-3)], rule that)
  note i = swap_start_inv [OF assms(1,2) c]
  have "profile L (wp_tick_spacing w) (sw_sequence st) \<and> uint (sw_liquidity st) = L (sw_tick_index st)"
    using swap_loop_profile [OF l i(2,1), of L] p by (simp add: swap_start_def)
  then show "profile L (wp_tick_spacing w) arrays'" "uint (ps_next_liquidity u) = L (ps_next_tick_index u)"
    by (simp_all add: u swap_finish_def case_prod_beta)
qed

end
