(* ===== verification/Liquidity_Totals.thy ===== *)
theory Liquidity_Totals
  imports Ledger_Invariant Liquidity_Profile
begin

text \<open>
  The books of the liquidity.  The positions of a pool say what the liquidity in use at each tick
  ought to be (\<open>active\<close>), and what each tick ought to hold (\<open>net_total\<close>, \<open>gross_total\<close>).  The ledger
  is accounted for when the pools and the tick arrays hold just that.
\<close>

section \<open>Sums over the accounts\<close>

lemma finite_pubkeys [simp]: "finite (UNIV :: pubkey set)"
proof -
  have "(UNIV :: pubkey set) = Pubkey ` UNIV" by (auto intro: pubkey.exhaust simp: image_iff)
  then show ?thesis by (metis finite finite_imageI)
qed

definition total :: "('a \<Rightarrow> 'b :: comm_monoid_add) \<Rightarrow> (pubkey \<Rightarrow> 'a option) \<Rightarrow> 'b" where
  "total f m = (\<Sum>q \<in> UNIV. case m q of None \<Rightarrow> 0 | Some a \<Rightarrow> f a)"

lemma total_cong: "(\<And>q a. m q = Some a \<Longrightarrow> f a = g a) \<Longrightarrow> total f m = total g m"
  unfolding total_def by (rule sum.cong) (auto split: option.splits)

lemma total_0: "(\<And>q a. m q = Some a \<Longrightarrow> f a = 0) \<Longrightarrow> total f m = 0"
  unfolding total_def by (rule sum.neutral) (auto split: option.splits)

lemma total_upd:
  fixes f :: "'a \<Rightarrow> int"
  shows "total f (m(q := v)) = total f m - (case m q of None \<Rightarrow> 0 | Some a \<Rightarrow> f a) + (case v of None \<Rightarrow> 0 | Some a \<Rightarrow> f a)"
proof -
  let ?g = "\<lambda>m q. case m q of None \<Rightarrow> 0 | Some a \<Rightarrow> f a"
  have "total f m' = ?g m' q + (\<Sum>r \<in> UNIV - {q}. ?g m' r)" for m'
    unfolding total_def by (rule sum.remove) simp_all
  moreover have "(\<Sum>r \<in> UNIV - {q}. ?g (m(q := v)) r) = (\<Sum>r \<in> UNIV - {q}. ?g m r)" by (rule sum.cong) auto
  ultimately show ?thesis by simp
qed

lemma total_ge:
  fixes f :: "'a \<Rightarrow> int"
  assumes "m q = Some a" "\<And>q a. m q = Some a \<Longrightarrow> 0 \<le> f a"
  shows "f a \<le> total f m"
proof -
  have "(case m q of None \<Rightarrow> 0 | Some a \<Rightarrow> f a) \<le> total f m"
    unfolding total_def by (rule member_le_sum) (auto simp: assms(2) split: option.splits)
  then show ?thesis using assms(1) by simp
qed

lemma total_diff:
  fixes f g :: "'a \<Rightarrow> 'b :: ab_group_add"
  shows "total f m - total g m = total (\<lambda>a. f a - g a) m"
  unfolding total_def sum_subtractf [symmetric] by (rule sum.cong) (auto split: option.splits)

lemma total_mono:
  fixes f g :: "'a \<Rightarrow> 'b :: ordered_comm_monoid_add"
  shows "(\<And>q a. m q = Some a \<Longrightarrow> f a \<le> g a) \<Longrightarrow> total f m \<le> total g m"
  unfolding total_def by (rule sum_mono) (auto split: option.splits)

lemma total_real: "real_of_int (total f m) = total (\<lambda>a. real_of_int (f a)) m"
  unfolding total_def of_int_sum by (rule sum.cong) (auto split: option.splits)

lemma total_abs:
  fixes f g :: "'a \<Rightarrow> int"
  shows "(\<And>q a. m q = Some a \<Longrightarrow> \<bar>f a\<bar> \<le> g a) \<Longrightarrow> \<bar>total f m\<bar> \<le> total g m"
  unfolding total_def by (rule order_trans [OF sum_abs sum_mono]) (auto split: option.splits)

section \<open>What the positions of a pool add up to\<close>

type_synonym positions = "pubkey \<Rightarrow> Position option"

definition active_share :: "pubkey \<Rightarrow> i32 \<Rightarrow> Position \<Rightarrow> int" where
  "active_share k t p = (if pos_whirlpool p = k \<and> pos_tick_lower_index p \<le> t \<and> t < pos_tick_upper_index p
     then uint (pos_liquidity p) else 0)"

definition net_share :: "pubkey \<Rightarrow> i32 \<Rightarrow> Position \<Rightarrow> int" where
  "net_share k t p = (if pos_whirlpool p \<noteq> k then 0
     else if pos_tick_lower_index p = t then uint (pos_liquidity p)
     else if pos_tick_upper_index p = t then - uint (pos_liquidity p) else 0)"

definition gross_share :: "pubkey \<Rightarrow> i32 \<Rightarrow> Position \<Rightarrow> int" where
  "gross_share k t p = (if pos_whirlpool p = k \<and> (pos_tick_lower_index p = t \<or> pos_tick_upper_index p = t)
     then uint (pos_liquidity p) else 0)"

definition active :: "positions \<Rightarrow> pubkey \<Rightarrow> i32 \<Rightarrow> int" where
  "active positions k t = total (active_share k t) positions"

definition net_total :: "positions \<Rightarrow> pubkey \<Rightarrow> i32 \<Rightarrow> int" where
  "net_total positions k t = total (net_share k t) positions"

definition gross_total :: "positions \<Rightarrow> pubkey \<Rightarrow> i32 \<Rightarrow> int" where
  "gross_total positions k t = total (gross_share k t) positions"

lemmas share_defs = active_share_def net_share_def gross_share_def
lemmas total_defs = active_def net_total_def gross_total_def

text \<open>The liquidity in use changes at a tick by the net liquidity of the tick.\<close>

lemma active_diff:
  assumes "\<And>q p. positions q = Some p \<Longrightarrow> pos_tick_lower_index p < pos_tick_upper_index p"
  shows "active positions k t - active positions k (t - 1) = net_total positions k t"
  unfolding active_def net_total_def total_diff
  by (rule total_cong, drule assms) (auto simp: share_defs)

lemma net_le_gross: "\<bar>net_total positions k t\<bar> \<le> gross_total positions k t"
  unfolding net_total_def gross_total_def by (rule total_abs) (auto simp: share_defs)

lemma no_gross_no_net: "gross_total positions k t = 0 \<Longrightarrow> net_total positions k t = 0"
  using net_le_gross [of positions k t] by simp

text \<open>A position that changes in its liquidity only, or that has none, changes the totals by just that.\<close>

lemma share_liquidity:
  assumes "position_kept p p'" "uint (pos_liquidity p') = uint (pos_liquidity p) + d"
    and "pos_tick_lower_index p < pos_tick_upper_index p"
  shows "active_share k t p' = active_share k t p + (if pos_whirlpool p = k \<and> pos_tick_lower_index p \<le> t
      \<and> t < pos_tick_upper_index p then d else 0)"
    "net_share k t p' = net_share k t p + (if pos_whirlpool p \<noteq> k then 0 else if pos_tick_lower_index p = t then d
      else if pos_tick_upper_index p = t then - d else 0)"
    "gross_share k t p' = gross_share k t p + (if pos_whirlpool p = k \<and> (pos_tick_lower_index p = t
      \<or> pos_tick_upper_index p = t) then d else 0)"
  using assms by (auto simp: share_defs position_kept_def)

lemma share_same:
  assumes "position_kept p p'" "pos_liquidity p' = pos_liquidity p"
  shows "active_share k t p' = active_share k t p" "net_share k t p' = net_share k t p"
    "gross_share k t p' = gross_share k t p"
  using assms by (auto simp: share_defs position_kept_def)

lemma share_empty:
  assumes "pos_liquidity p = 0"
  shows "active_share k t p = 0" "net_share k t p = 0" "gross_share k t p = 0"
  using assms by (auto simp: share_defs)

lemma share_other:
  assumes "pos_whirlpool p \<noteq> k"
  shows "active_share k t p = 0" "net_share k t p = 0" "gross_share k t p = 0"
  using assms by (auto simp: share_defs)

definition same_totals :: "positions \<Rightarrow> positions \<Rightarrow> bool" where
  "same_totals positions positions' \<longleftrightarrow> active positions' = active positions
     \<and> net_total positions' = net_total positions \<and> gross_total positions' = gross_total positions"

lemma same_totals_upd:
  "positions q = Some p \<Longrightarrow> position_kept p p' \<Longrightarrow> pos_liquidity p' = pos_liquidity p \<Longrightarrow>
    same_totals positions (positions(q \<mapsto> p'))"
  "positions q = None \<Longrightarrow> pos_liquidity p' = 0 \<Longrightarrow> same_totals positions (positions(q \<mapsto> p'))"
  "positions q = Some p \<Longrightarrow> pos_liquidity p = 0 \<Longrightarrow> same_totals positions (positions(q := None))"
  by (simp_all add: same_totals_def fun_eq_iff total_defs total_upd share_same share_empty)

lemma same_totals_refl [simp]: "same_totals positions positions"
  by (simp add: same_totals_def)

section \<open>A ledger that is accounted for\<close>

definition tick_accounted :: "int \<Rightarrow> int \<Rightarrow> Tick \<Rightarrow> bool" where
  "tick_accounted net gross t \<longleftrightarrow> tick_ok t \<and> tk_liquidity_net t = net \<and> uint (tk_liquidity_gross t) = gross"

definition array_accounted :: "(i32 \<Rightarrow> int) \<Rightarrow> (i32 \<Rightarrow> int) \<Rightarrow> u16 \<Rightarrow> TickArray \<Rightarrow> bool" where
  "array_accounted net gross s ta \<longleftrightarrow>
     (\<forall>t. holds_tick s ta t \<longrightarrow> tick_accounted (net t) (gross t) (ta_ticks ta ! slot s ta t))"

definition array_address :: "'t runtime \<Rightarrow> pubkey \<Rightarrow> i32 \<Rightarrow> pubkey" where
  "array_address rt k t = fst (rt_find_address rt [Seed_text ''tick_array'', Seed_key k, Seed_text (to_string t)])"

definition arrays_accounted ::
  "'t runtime \<Rightarrow> (pubkey \<Rightarrow> Whirlpool option) \<Rightarrow> (pubkey \<Rightarrow> i32 \<Rightarrow> int) \<Rightarrow> (pubkey \<Rightarrow> i32 \<Rightarrow> int) \<Rightarrow> tick_arrays \<Rightarrow> bool" where
  "arrays_accounted rt pools net gross arrays \<longleftrightarrow> (\<forall>a ta. arrays a = Some ta \<longrightarrow>
     a = array_address rt (ta_whirlpool ta) (ta_start_tick_index ta)
     \<and> tied pools (ta_whirlpool ta) (\<lambda>s. array_accounted (net (ta_whirlpool ta)) (gross (ta_whirlpool ta)) s ta))"

text \<open>A position with liquidity has its two ticks in tick arrays of its pool.\<close>

definition tick_held :: "tick_arrays \<Rightarrow> pubkey \<Rightarrow> u16 \<Rightarrow> i32 \<Rightarrow> bool" where
  "tick_held arrays k s t \<longleftrightarrow> (\<exists>a ta. arrays a = Some ta \<and> ta_whirlpool ta = k \<and> holds_tick s ta t)"

definition ends_held :: "(pubkey \<Rightarrow> Whirlpool option) \<Rightarrow> tick_arrays \<Rightarrow> positions \<Rightarrow> bool" where
  "ends_held pools arrays positions \<longleftrightarrow> (\<forall>q p. positions q = Some p \<longrightarrow> pos_liquidity p \<noteq> 0 \<longrightarrow>
     tied pools (pos_whirlpool p) (\<lambda>s. tick_held arrays (pos_whirlpool p) s (pos_tick_lower_index p)
       \<and> tick_held arrays (pos_whirlpool p) s (pos_tick_upper_index p)))"

definition pools_accounted :: "(pubkey \<Rightarrow> Whirlpool option) \<Rightarrow> positions \<Rightarrow> bool" where
  "pools_accounted pools positions \<longleftrightarrow> (\<forall>k w. pools k = Some w \<longrightarrow>
     uint (wp_liquidity w) = active positions k (wp_tick_current_index w))"

definition accounted :: "'t runtime \<Rightarrow> 't ledger \<Rightarrow> bool" where
  "accounted rt lg \<longleftrightarrow> pools_accounted (lg_pools lg) (lg_positions lg)
     \<and> arrays_accounted rt (lg_pools lg) (net_total (lg_positions lg)) (gross_total (lg_positions lg)) (lg_arrays lg)
     \<and> ends_held (lg_pools lg) (lg_arrays lg) (lg_positions lg)"

section \<open>Changes that leave the totals alone\<close>

text \<open>A pool whose tick spacing, liquidity and current tick are unchanged.\<close>

definition pools_same :: "(pubkey \<Rightarrow> Whirlpool option) \<Rightarrow> (pubkey \<Rightarrow> Whirlpool option) \<Rightarrow> bool" where
  "pools_same pools pools' \<longleftrightarrow> map_option (\<lambda>w. (wp_tick_spacing w, wp_liquidity w, wp_tick_current_index w)) \<circ> pools'
     = map_option (\<lambda>w. (wp_tick_spacing w, wp_liquidity w, wp_tick_current_index w)) \<circ> pools"

lemma pools_same_refl [simp]: "pools_same pools pools"
  by (simp add: pools_same_def)

lemma pools_same_upd:
  assumes "pools k = Some w" "wp_tick_spacing w' = wp_tick_spacing w" "wp_liquidity w' = wp_liquidity w"
    "wp_tick_current_index w' = wp_tick_current_index w"
  shows "pools_same pools (pools(k \<mapsto> w'))"
  using assms by (auto simp: pools_same_def fun_eq_iff)

lemma pools_same_tied:
  assumes "pools_same pools pools'"
  shows "tied pools' k P \<longleftrightarrow> tied pools k P"
  using fun_cong [OF assms [unfolded pools_same_def], of k]
  by (auto simp: tied_def split: option.splits)

lemma pools_same_accounted:
  assumes "pools_same pools pools'" "pools_accounted pools positions"
  shows "pools_accounted pools' positions"
  unfolding pools_accounted_def
proof (intro allI impI)
  fix k w assume w: "pools' k = Some w"
  then obtain w0 where "pools k = Some w0" "wp_liquidity w0 = wp_liquidity w"
    "wp_tick_current_index w0 = wp_tick_current_index w"
    using fun_cong [OF assms(1) [unfolded pools_same_def], of k] by (cases "pools k") auto
  then show "uint (wp_liquidity w) = active positions k (wp_tick_current_index w)"
    using assms(2) unfolding pools_accounted_def by metis
qed

lemma same_accounted:
  assumes acc: "accounted rt lg" and pools: "pools_same (lg_pools lg) (lg_pools lg')"
    and pos: "same_totals (lg_positions lg) (lg_positions lg')" and arr: "lg_arrays lg' = lg_arrays lg"
    and ends: "ends_held (lg_pools lg) (lg_arrays lg) (lg_positions lg')"
  shows "accounted rt lg'"
proof -
  have "pools_accounted (lg_pools lg') (lg_positions lg')"
    using acc pools_same_accounted [OF pools, of "lg_positions lg"] pos
    by (simp add: accounted_def pools_accounted_def same_totals_def)
  then show ?thesis
    using acc pos arr ends
    by (simp add: accounted_def arrays_accounted_def ends_held_def pools_same_tied [OF pools] same_totals_def)
qed

lemma ends_held_upd:
  assumes "ends_held pools arrays positions"
  shows "positions q = Some p \<Longrightarrow> position_kept p p' \<Longrightarrow> pos_liquidity p' = pos_liquidity p \<Longrightarrow>
      ends_held pools arrays (positions(q \<mapsto> p'))"
    "pos_liquidity p' = 0 \<Longrightarrow> ends_held pools arrays (positions(q \<mapsto> p'))"
    "ends_held pools arrays (positions(q := None))"
  using assms by (auto simp: ends_held_def position_kept_def)

lemma pools_accounted_new:
  assumes ok: "positions_ok pools positions" and new: "pools k = None" and acc: "pools_accounted pools positions"
    and w: "wp_liquidity w = 0"
  shows "pools_accounted (pools(k \<mapsto> w)) positions"
proof -
  have "pos_whirlpool p \<noteq> k" if "positions q = Some p" for q p
  proof -
    have "tied pools (pos_whirlpool p) (\<lambda>s. position_ok s p)" using ok that by (auto simp: positions_ok_def)
    then show ?thesis using new by (auto simp: tied_def)
  qed
  then have "active positions k t = 0" for t
    unfolding active_def by (intro total_0 share_other) blast
  then show ?thesis using acc w by (simp add: pools_accounted_def)
qed

lemma accounted_kept_pools:
  assumes "pools_kept pools pools'"
  shows "arrays_accounted rt pools net gross arrays \<Longrightarrow> arrays_accounted rt pools' net gross arrays"
    "ends_held pools arrays positions \<Longrightarrow> ends_held pools' arrays positions"
  unfolding arrays_accounted_def ends_held_def using tied_kept [OF assms] by blast+

section \<open>Only one array holds a tick\<close>

lemma holds_tick_start:
  assumes ok: "tick_array_ok s ta" "tick_array_ok s tb" and t: "holds_tick s ta t" "holds_tick s tb t"
  shows "ta_start_tick_index ta = ta_start_tick_index tb"
proof -
  let ?n = "ticks_in_array s"
  obtain a b where ab: "ta_start_tick_index ta = ?n * a" "ta_start_tick_index tb = ?n * b"
    using tick_array_okD(7) [OF ok(1)] tick_array_okD(7) [OF ok(2)] by (auto elim!: dvdE)
  have n: "0 < ?n" by (rule ticks_in_array_bounds(1) [OF tick_array_okD(1) [OF ok(1)]])
  have "?n * a < ?n * (b + 1)" "?n * b < ?n * (a + 1)"
    using t ab by (simp_all add: holds_tick_def distrib_left)
  then have "a < b + 1" "b < a + 1" using n mult_less_cancel_left_pos by blast+
  then show ?thesis by (simp add: ab)
qed

lemma one_array:
  assumes acc: "arrays_accounted rt pools net gross arrays" and ok: "tick_arrays_ok pools arrays"
    and a: "arrays a = Some ta" "arrays b = Some tb" "ta_whirlpool tb = ta_whirlpool ta"
    and w: "pools (ta_whirlpool ta) = Some w"
    and t: "holds_tick (wp_tick_spacing w) ta t" "holds_tick (wp_tick_spacing w) tb t"
  shows "a = b"
proof -
  have "tick_array_ok (wp_tick_spacing w) ta" "tick_array_ok (wp_tick_spacing w) tb"
    using ok a w unfolding tick_arrays_ok_def by (metis tied_Some)+
  then have "ta_start_tick_index ta = ta_start_tick_index tb" by (rule holds_tick_start [OF _ _ t])
  then show ?thesis using acc a unfolding arrays_accounted_def by metis
qed

lemma tied_mono: "tied pools k P \<Longrightarrow> (\<And>s. P s \<Longrightarrow> Q s) \<Longrightarrow> tied pools k Q"
  by (auto simp: tied_def split: option.splits)

lemma ends_held_mono:
  assumes "ends_held pools arrays positions" "\<And>k s x. tick_held arrays k s x \<Longrightarrow> tick_held arrays' k s x"
  shows "ends_held pools arrays' positions"
  using assms(1) unfolding ends_held_def by (blast intro: tied_mono assms(2))

end
