(* ===== verification/Liquidity_Account.thy ===== *)
theory Liquidity_Account
  imports Liquidity_Totals
begin

text \<open>
  Every change of the ledger keeps the books of the liquidity (\<open>effect_accounted\<close>): a new tick array
  is empty because no liquidity ends in it, a deposit or withdrawal writes to its two ticks what the
  positions add up to afterwards, and a swap follows the profile that the positions give.  So do all
  runs of the program on which no net liquidity is -2^127, the one value whose negation wraps round.
\<close>

section \<open>A new tick array\<close>

lemma array_created_accounted:
  assumes acc: "accounted rt lg" and ok: "ledger_ok lg" and w: "lg_pools lg k = Some w"
    and a: "lg_arrays lg a = None" "a = array_address rt k t"
    and r: "tick_array_initialize default_tick_array k (wp_tick_spacing w) t = Inr ta"
  shows "accounted rt (lg\<lparr>lg_arrays := (lg_arrays lg)(a \<mapsto> ta)\<rparr>)"
proof -
  let ?s = "wp_tick_spacing w" and ?ps = "lg_positions lg"
  note new = initialized_array_ok [OF r]
  have fields: "ta_start_tick_index ta = t" "ta_ticks ta = replicate 88 default_tick"
    using r by (auto simp: tick_array_initialize_def default_tick_array_def TICK_ARRAY_SIZE_USIZE_def
      and_then_Inr_iff split: if_splits)
  have aa: "arrays_accounted rt (lg_pools lg) (net_total ?ps) (gross_total ?ps) (lg_arrays lg)"
    and eh: "ends_held (lg_pools lg) (lg_arrays lg) ?ps" and pa: "pools_accounted (lg_pools lg) ?ps"
    using acc by (simp_all add: accounted_def)
  have free: False if b: "lg_arrays lg b = Some tb" "ta_whirlpool tb = k" "holds_tick ?s tb x" "holds_tick ?s ta x" for b tb x
  proof -
    have "tied (lg_pools lg) (ta_whirlpool tb) (\<lambda>s. tick_array_ok s tb)"
      using ok b(1) by (auto simp: ledger_ok_def tick_arrays_ok_def)
    then have "tick_array_ok ?s tb" using b(2) w by (simp add: tied_Some)
    from holds_tick_start [OF this new(2) b(3,4)] have "ta_start_tick_index tb = t" by (simp add: fields)
    moreover have "b = array_address rt (ta_whirlpool tb) (ta_start_tick_index tb)"
      using aa b(1) by (auto simp: arrays_accounted_def)
    ultimately have "b = a" by (simp add: a(2) b(2))
    then show False using a(1) b(1) by simp
  qed
  have gross: "gross_total ?ps k x = 0" if x: "holds_tick ?s ta x" for x
    unfolding gross_total_def
  proof (rule total_0, rule ccontr)
    fix q and p :: Position assume p: "?ps q = Some p" and "gross_share k x p \<noteq> 0"
    then have g: "pos_whirlpool p = k" "pos_tick_lower_index p = x \<or> pos_tick_upper_index p = x" "pos_liquidity p \<noteq> 0"
      by (auto simp: gross_share_def split: if_splits)
    have "tied (lg_pools lg) k (\<lambda>s. tick_held (lg_arrays lg) k s (pos_tick_lower_index p)
        \<and> tick_held (lg_arrays lg) k s (pos_tick_upper_index p))"
      using eh p g(1,3) unfolding ends_held_def by blast
    then have "tick_held (lg_arrays lg) k ?s x" using g(2) by (auto simp: tied_Some [where pools = "lg_pools lg", OF w])
    then show False using free x by (auto simp: tick_held_def)
  qed
  have "array_accounted (net_total ?ps k) (gross_total ?ps k) ?s ta"
    using slot_bounds(2) [OF new(2)] gross no_gross_no_net [OF gross] default_tick_ok
    by (simp add: array_accounted_def tick_accounted_def fields default_tick_def)
  then have "arrays_accounted rt (lg_pools lg) (net_total ?ps) (gross_total ?ps) ((lg_arrays lg)(a \<mapsto> ta))"
    using aa new(1,3) w by (simp add: arrays_accounted_def a(2) fields tied_Some)
  moreover have "ends_held (lg_pools lg) ((lg_arrays lg)(a \<mapsto> ta)) ?ps"
  proof -
    have "tick_held ((lg_arrays lg)(a \<mapsto> ta)) k' s x" if "tick_held (lg_arrays lg) k' s x" for k' s x
      using that a(1) unfolding tick_held_def by (metis fun_upd_other option.distinct(1))
    then show ?thesis by (rule ends_held_mono [OF eh])
  qed
  ultimately show ?thesis using pa by (simp add: accounted_def)
qed

section \<open>One tick is written\<close>

lemma array_tick_written:
  assumes aa: "arrays_accounted rt pools net gross arrays" and ok: "tick_arrays_ok pools arrays"
    and a: "arrays a = Some ta" "ta_whirlpool ta = k" and w: "pools k = Some w"
    and u: "update_array_tick arrays a x (wp_tick_spacing w) u = Inr arrays'"
    and tick: "tick_accounted n g (tick_update default_tick u)"
  shows "arrays_accounted rt pools (\<lambda>k' t. if k' = k \<and> t = x then n else net k' t)
      (\<lambda>k' t. if k' = k \<and> t = x then g else gross k' t) arrays'" (is "arrays_accounted rt pools ?net ?gross arrays'")
    "tick_held arrays k (wp_tick_spacing w) x"
    "tick_held arrays' k' s t \<longleftrightarrow> tick_held arrays k' s t"
proof -
  let ?s = "wp_tick_spacing w"
  have tied: "tied pools k (\<lambda>s. tick_array_ok s ta)" using ok a by (auto simp: tick_arrays_ok_def)
  then have tok: "tick_array_ok ?s ta" and s: "?s \<noteq> 0" using w by (simp_all add: tied_Some)
  obtain ta' where up: "update_tick ta x ?s u = Inr ta'" and arrays': "arrays' = arrays(a \<mapsto> ta')"
    using update_array_tick_Inr [OF u] a(1) by (metis option.inject)
  then have hx: "holds_tick ?s ta x"
    and ta': "ta' = ta\<lparr>ta_ticks := (ta_ticks ta)[slot ?s ta x := tick_update default_tick u]\<rparr>"
    by (auto simp: update_tick_eq [OF tok] split: if_splits)
  show "tick_held arrays k ?s x" using a hx by (auto simp: tick_held_def)
  have holds: "holds_tick s' ta' t \<longleftrightarrow> holds_tick s' ta t" "slot s' ta' t = slot s' ta t" for s' t
    by (simp_all add: ta' update_tick_holds)
  have wp: "ta_whirlpool ta' = ta_whirlpool ta" by (simp add: ta')
  show "tick_held arrays' k' s t \<longleftrightarrow> tick_held arrays k' s t"
  proof
    assume "tick_held arrays' k' s t"
    then obtain b tb where b: "arrays' b = Some tb" "ta_whirlpool tb = k'" "holds_tick s tb t" by (auto simp: tick_held_def)
    show "tick_held arrays k' s t"
    proof (cases "b = a")
      case True
      then have "tb = ta'" using b(1) by (simp add: arrays')
      then show ?thesis using a(1) b(2,3) unfolding tick_held_def by (metis holds(1) wp)
    next
      case False
      then show ?thesis using b by (auto simp: tick_held_def arrays')
    qed
  next
    assume "tick_held arrays k' s t"
    then obtain b tb where b: "arrays b = Some tb" "ta_whirlpool tb = k'" "holds_tick s tb t" by (auto simp: tick_held_def)
    show "tick_held arrays' k' s t"
    proof (cases "b = a")
      case True
      then have "tb = ta" "arrays' a = Some ta'" using b(1) a(1) by (simp_all add: arrays')
      then show ?thesis using b(2,3) unfolding tick_held_def by (metis holds(1) wp)
    next
      case False
      then have "arrays' b = Some tb" using b(1) by (simp add: arrays')
      then show ?thesis using b(2,3) by (auto simp: tick_held_def)
    qed
  qed
  show "arrays_accounted rt pools ?net ?gross arrays'"
    unfolding arrays_accounted_def
  proof (intro allI impI)
    fix b tb assume b: "arrays' b = Some tb"
    show "b = array_address rt (ta_whirlpool tb) (ta_start_tick_index tb)
      \<and> tied pools (ta_whirlpool tb) (\<lambda>s. array_accounted (?net (ta_whirlpool tb)) (?gross (ta_whirlpool tb)) s tb)"
    proof (cases "b = a")
      case True
      have old: "a = array_address rt k (ta_start_tick_index ta)" "array_accounted (net k) (gross k) ?s ta"
        using aa a w unfolding arrays_accounted_def by (metis tied_Some)+
      have "array_accounted (?net k) (?gross k) ?s ta'"
        unfolding array_accounted_def
      proof (intro allI impI)
        fix t assume "holds_tick ?s ta' t"
        then have t: "holds_tick ?s ta t" by (simp add: holds)
        have len: "slot ?s ta x < length (ta_ticks ta)" using slot_bounds(2) [OF tok hx] tick_array_okD(3) [OF tok] by simp
        show "tick_accounted (?net k t) (?gross k t) (ta_ticks ta' ! slot ?s ta' t)"
        proof (cases "t = x")
          case True
          then show ?thesis using tick len unfolding holds(2) by (simp add: ta')
        next
          case False
          then have "slot ?s ta t \<noteq> slot ?s ta x" using slot_inj [OF tok t hx] by blast
          then show ?thesis using old(2) t False unfolding holds(2) by (simp add: array_accounted_def ta')
        qed
      qed
      moreover have tb: "tb = ta'" using b True by (simp add: arrays')
      moreover have own: "ta_whirlpool ta' = k" "ta_start_tick_index ta' = ta_start_tick_index ta"
        using a(2) by (simp_all add: ta')
      ultimately show ?thesis
        unfolding tb own using True old(1) s by (simp add: tied_Some [where pools = pools, OF w])
    next
      case False
      then have bb: "arrays b = Some tb" using b by (simp add: arrays')
      have old: "b = array_address rt (ta_whirlpool tb) (ta_start_tick_index tb)"
        "tied pools (ta_whirlpool tb) (\<lambda>s. array_accounted (net (ta_whirlpool tb)) (gross (ta_whirlpool tb)) s tb)"
        using aa bb unfolding arrays_accounted_def by blast+
      have "\<not> holds_tick ?s tb x" if "ta_whirlpool tb = k"
        using one_array [OF aa ok a(1) bb _ _ hx] that a(2) w False by auto
      then have "array_accounted (?net (ta_whirlpool tb)) (?gross (ta_whirlpool tb)) s' tb"
        if "pools (ta_whirlpool tb) = Some w'" "s' = wp_tick_spacing w'"
          "array_accounted (net (ta_whirlpool tb)) (gross (ta_whirlpool tb)) s' tb" for s' w'
        using that w by (auto simp: array_accounted_def)
      then show ?thesis using old by (auto simp: tied_def split: option.splits)
    qed
  qed
qed

section \<open>A change of liquidity\<close>

lemma array_tick_accounted:
  assumes aa: "arrays_accounted rt pools net gross arrays" and ok: "tick_arrays_ok pools arrays"
    and a: "arrays a = Some ta" "ta_whirlpool ta = k" and w: "pools k = Some w"
    and r: "read_array_tick (wp_tick_spacing w) arrays (a, x) = Inr t"
  shows "tick_accounted (net k x) (gross k x) t"
proof -
  let ?s = "wp_tick_spacing w"
  have "tied pools k (\<lambda>s. tick_array_ok s ta)" using ok a by (auto simp: tick_arrays_ok_def)
  then have tok: "tick_array_ok ?s ta" using w by (simp add: tied_Some)
  have "array_accounted (net k) (gross k) ?s ta"
    using aa a w unfolding arrays_accounted_def by (metis tied_Some)
  then show ?thesis using r a(1)
    by (auto simp: read_array_tick_def load_tick_array_def get_tick_eq [OF tok] array_accounted_def split: if_splits)
qed

text \<open>The new tick holds what the positions add up to after the change.\<close>

lemma modified_tick_accounted:
  assumes t: "tick_accounted net gross t" and d: "in_i128 d"
    and u: "next_tick_modify_liquidity_update t i cur ga gb infos d upper = Inr u"
    and tot: "net' = net + (if upper then - d else d)" "gross' = gross + d" "gross' = 0 \<Longrightarrow> net' = 0"
  shows "tick_accounted net' gross' (tick_update default_tick u)"
proof -
  note ok = modify_liquidity_update_ok [OF _ u] and am = modify_liquidity_update_amounts [OF u d]
  have k: "tick_ok (tick_update t u)" using t ok by (simp add: tick_accounted_def)
  have g: "uint (tu_liquidity_gross u) = gross'" using t am(1) tot(2) by (simp add: tick_accounted_def)
  have n: "tu_liquidity_net u = net'"
  proof (cases "tu_liquidity_gross u = 0")
    case True
    then have "\<not> tk_initialized (tick_update t u)" using k by (simp add: tick_ok_def tick_update_def default_tick_def)
    then have "tick_update t u = default_tick" using k by (simp add: tick_ok_def)
    from arg_cong [OF this, of tk_liquidity_net] have "tu_liquidity_net u = 0"
      by (simp add: tick_update_def default_tick_def)
    then show ?thesis using True g tot(3) by simp
  next
    case False
    then show ?thesis using am(2) t tot(1) by (simp add: tick_accounted_def split: if_splits)
  qed
  have f: "tk_liquidity_net (tick_update t u) = net'" "uint (tk_liquidity_gross (tick_update t u)) = gross'"
    using n g by (simp_all add: tick_update_def)
  show ?thesis unfolding tick_update_eq [of default_tick u t] using k f by (simp add: tick_accounted_def)
qed

lemma liquidity_changed_accounted:
  assumes acc: "accounted rt lg" and ok: "ledger_ok lg" and w: "lg_pools lg k = Some w"
    and p: "lg_positions lg q = Some p" "pos_whirlpool p = k" and d: "in_i128 d"
    and al: "lg_arrays lg al = Some tal" "ta_whirlpool tal = k" and au: "lg_arrays lg au = Some tau" "ta_whirlpool tau = k"
    and m: "calculate_modify_liquidity w p (lg_arrays lg) al au d ts = Inr m"
    and s: "sync_modify_liquidity_values w p (lg_arrays lg) al au m ts = Inr (w', p', arrays)"
  shows "accounted rt (lg\<lparr>lg_pools := (lg_pools lg)(k \<mapsto> w'), lg_positions := (lg_positions lg)(q \<mapsto> p'),
    lg_arrays := arrays, lg_tokens := tokens\<rparr>)"
proof -
  let ?s = "wp_tick_spacing w" and ?ps = "lg_positions lg" and ?ps' = "(lg_positions lg)(q \<mapsto> p')"
  let ?l = "pos_tick_lower_index p" and ?u = "pos_tick_upper_index p" and ?pools = "(lg_pools lg)(k \<mapsto> w')"
  have aa: "arrays_accounted rt (lg_pools lg) (net_total ?ps) (gross_total ?ps) (lg_arrays lg)"
    and eh: "ends_held (lg_pools lg) (lg_arrays lg) ?ps" and pa: "pools_accounted (lg_pools lg) ?ps"
    using acc by (simp_all add: accounted_def)
  have oka: "tick_arrays_ok (lg_pools lg) (lg_arrays lg)" using ok by (simp add: ledger_ok_def)
  have "tied (lg_pools lg) k (\<lambda>s. position_ok s p)" using ok p by (auto simp: ledger_ok_def positions_ok_def)
  then have s0: "?s \<noteq> 0" and lt: "?l < ?u" using w by (simp_all add: tied_Some position_ok_def)
  obtain arrays1 where
    w1: "update_array_tick (lg_arrays lg) al ?l ?s (ml_tick_lower_update m) = Inr arrays1" and
    w2: "update_array_tick arrays1 au ?u ?s (ml_tick_upper_update m) = Inr arrays" and
    w': "w' = update_rewards_and_liquidity w (ml_reward_infos m) (ml_whirlpool_liquidity m) ts" and
    p': "p' = position_update p (ml_position_update m)"
    by (rule sync_modify_liquidity_Inr [OF s])
  have kept: "position_kept p p'" by (simp add: p' position_kept_updates)
  have pl: "uint (pos_liquidity p') = uint (pos_liquidity p) + d"
    using modify_liquidity_amounts(1) [OF m d] by (simp add: p' position_update_def)
  note share = share_liquidity [OF kept pl lt]
  have tot: "active ?ps' k' t = active ?ps k' t + (if k = k' \<and> ?l \<le> t \<and> t < ?u then d else 0)"
    "net_total ?ps' k' t = net_total ?ps k' t + (if k \<noteq> k' then 0 else if ?l = t then d else if ?u = t then - d else 0)"
    "gross_total ?ps' k' t = gross_total ?ps k' t + (if k = k' \<and> (?l = t \<or> ?u = t) then d else 0)" for k' t
    using p by (simp_all add: total_defs total_upd share)
  obtain a b where
    ra: "read_array_tick ?s (lg_arrays lg) (al, ?l) = Inr a" and rb: "read_array_tick ?s (lg_arrays lg) (au, ?u) = Inr b" and
    ma: "next_tick_modify_liquidity_update a ?l (wp_tick_current_index w) (wp_fee_growth_global_a w)
      (wp_fee_growth_global_b w) (ml_reward_infos m) d False = Inr (ml_tick_lower_update m)" and
    mb: "next_tick_modify_liquidity_update b ?u (wp_tick_current_index w) (wp_fee_growth_global_a w)
      (wp_fee_growth_global_b w) (ml_reward_infos m) d True = Inr (ml_tick_upper_update m)"
    by (rule modify_liquidity_Inr [OF m])
  have ta: "tick_accounted (net_total ?ps' k ?l) (gross_total ?ps' k ?l) (tick_update default_tick (ml_tick_lower_update m))"
    by (rule modified_tick_accounted [OF array_tick_accounted [OF aa oka al w ra] d ma])
      (simp_all add: tot(2,3), use no_gross_no_net [of ?ps' k ?l] in \<open>simp add: tot(2,3)\<close>)
  have tb: "tick_accounted (net_total ?ps' k ?u) (gross_total ?ps' k ?u) (tick_update default_tick (ml_tick_upper_update m))"
    by (rule modified_tick_accounted [OF array_tick_accounted [OF aa oka au w rb] d mb])
      (use lt no_gross_no_net [of ?ps' k ?u] in \<open>simp_all add: tot(2,3)\<close>)
  note one = array_tick_written [OF aa oka al w w1 ta]
  have "lg_pools lg (ta_whirlpool tal) = Some w" using w al(2) by simp
  note wr = update_array_tick_ok [OF oka w1 al(1) this refl]
  have oka1: "tick_arrays_ok (lg_pools lg) arrays1" by (rule wr(1))
  have au1: "\<exists>t. arrays1 au = Some t \<and> ta_whirlpool t = k"
    using wr(2) wr(3) [of au] al(2) au by (cases "au = al") simp_all
  obtain tau1 where au1: "arrays1 au = Some tau1" "ta_whirlpool tau1 = k" using au1 by blast
  note two = array_tick_written [OF one(1) oka1 au1 w w2 tb]
  have nets: "(\<lambda>k' t. if k' = k \<and> t = ?u then net_total ?ps' k ?u
      else if k' = k \<and> t = ?l then net_total ?ps' k ?l else net_total ?ps k' t) = net_total ?ps'"
    "(\<lambda>k' t. if k' = k \<and> t = ?u then gross_total ?ps' k ?u
      else if k' = k \<and> t = ?l then gross_total ?ps' k ?l else gross_total ?ps k' t) = gross_total ?ps'"
    by (auto simp: fun_eq_iff tot)
  have kp: "pools_kept (lg_pools lg) ?pools"
    by (rule pools_kept_upd(2) [where pools = "lg_pools lg", OF w]) (simp add: w' pool_id_def whirlpool_defs)
  have arr: "arrays_accounted rt ?pools (net_total ?ps') (gross_total ?ps') arrays"
    using accounted_kept_pools(1) [OF kp two(1) [unfolded nets]] .
  have held: "tick_held arrays k' s t \<longleftrightarrow> tick_held (lg_arrays lg) k' s t" for k' s t
    using one(3) two(3) by simp
  have "ends_held (lg_pools lg) arrays ?ps" by (rule ends_held_mono [OF eh]) (simp add: held)
  moreover have "tied (lg_pools lg) k (\<lambda>s. tick_held arrays k s ?l \<and> tick_held arrays k s ?u)"
    using one(2) two(2) held one(3) s0 by (simp add: tied_Some [where pools = "lg_pools lg", OF w])
  moreover have "pos_whirlpool p' = k" "pos_tick_lower_index p' = ?l" "pos_tick_upper_index p' = ?u"
    using kept p(2) by (simp_all add: position_kept_def)
  ultimately have "ends_held (lg_pools lg) arrays ?ps'" by (simp add: ends_held_def)
  then have ends: "ends_held ?pools arrays ?ps'" by (rule accounted_kept_pools(2) [OF kp])
  have "uint (wp_liquidity w') = active ?ps' k (wp_tick_current_index w')"
    using modify_liquidity_amounts(2) [OF m d] pa w by (simp add: w' whirlpool_defs pools_accounted_def tot(1))
  moreover have "active ?ps' k' = active ?ps k'" if "k' \<noteq> k" for k' using that by (simp add: fun_eq_iff tot(1))
  ultimately have "pools_accounted ?pools ?ps'" using pa by (simp add: pools_accounted_def)
  then show ?thesis using arr ends by (simp add: accounted_def)
qed

section \<open>A swap leaves the liquidity of the ticks alone\<close>

definition tick_liquidity :: "Tick \<Rightarrow> bool \<times> i128 \<times> u128 \<times> bool" where
  "tick_liquidity t = (tk_initialized t, tk_liquidity_net t, tk_liquidity_gross t, t = default_tick)"

definition array_liquidity :: "TickArray \<Rightarrow> pubkey \<times> i32 \<times> (bool \<times> i128 \<times> u128 \<times> bool) list" where
  "array_liquidity ta = (ta_whirlpool ta, ta_start_tick_index ta, map tick_liquidity (ta_ticks ta))"

lemma tick_accounted_liquidity:
  "tick_liquidity t' = tick_liquidity t \<Longrightarrow> tick_accounted n g t' \<longleftrightarrow> tick_accounted n g t"
  by (auto simp: tick_liquidity_def tick_accounted_def tick_ok_def)

lemma crossed_liquidity:
  assumes c: "next_tick_cross_update tick ga gb infos = Inr u" and i: "tk_initialized tick"
  shows "tick_liquidity (tick_update t u) = tick_liquidity tick"
proof -
  have "tk_initialized (tick_update t u)" "\<not> tk_initialized default_tick"
    using cross_update_fields(1) [OF c] i by (simp_all add: tick_update_def default_tick_def)
  then have "tick_update t u \<noteq> default_tick" "tick \<noteq> default_tick" using i by metis+
  then show ?thesis
    using cross_update_fields(1-3) [OF c] by (simp add: tick_liquidity_def) (simp add: tick_update_def)
qed

lemma crossed_state_liquidity:
  assumes g: "sequence_get_tick arrays j x s = Inr tick" and i: "tk_initialized tick"
    and c: "next_tick_cross_update tick ga gb infos = Inr u" and u: "sequence_update_tick arrays j x s u = Inr arrays'"
  shows "map array_liquidity arrays' = map array_liquidity arrays"
proof -
  obtain ta off where j: "j < length arrays" "ta = arrays ! j" and off: "accessible_offset ta x s = Inr off"
    and t: "ticks_at ta off = Inr tick"
    using g by (auto simp: sequence_get_tick_def arrays_get_def get_tick_def and_then_Inr_iff split: if_splits)
  have arrays': "arrays' = arrays[j := ta\<lparr>ta_ticks := (ta_ticks ta)[nat off := tick_update tick u]\<rparr>]"
    using u j off t by (auto simp: sequence_update_tick_def arrays_get_def update_tick_def and_then_Inr_iff split: if_splits)
  have "map tick_liquidity ((ta_ticks ta)[nat off := tick_update tick u]) = map tick_liquidity (ta_ticks ta)"
    using t crossed_liquidity [OF c i] by (auto simp: map_update ticks_at_def split: if_splits intro!: list_update_same_conv [THEN iffD2])
  then show ?thesis using j
    by (auto simp: arrays' map_update array_liquidity_def intro!: list_update_same_conv [THEN iffD2])
qed

lemma cross_next_tick_liquidity:
  "cross_next_tick w a_to_b infos j x st = Inr st' \<Longrightarrow>
    map array_liquidity (sw_sequence st') = map array_liquidity (sw_sequence st)"
  by (erule cross_next_tick_Inr) (auto simp: crossed_state_def dest: crossed_state_liquidity)

lemma swap_step_liquidity:
  "swap_step w limit inp a_to_b infos st = Inr st' \<Longrightarrow>
    map array_liquidity (sw_sequence st') = map array_liquidity (sw_sequence st)"
  by (erule swap_step_Inr) (auto simp: and_then_Inr_iff split: if_splits dest!: cross_next_tick_liquidity)

lemma swap_loop_liquidity:
  assumes "swap_loop w limit inp a_to_b infos st = Some (Inr st')"
  shows "map array_liquidity (sw_sequence st') = map array_liquidity (sw_sequence st)"
  by (rule swap_loop_keeps [OF assms, where P = "\<lambda>st'. map array_liquidity (sw_sequence st') = map array_liquidity (sw_sequence st)"])
    (auto dest: swap_step_liquidity)

lemma swap_liquidity:
  "swap w arrays amount limit inp a_to_b ts = Some (Inr (u, arrays')) \<Longrightarrow>
    map array_liquidity arrays' = map array_liquidity arrays"
  using swap_loop_liquidity by (fastforce simp: swap_def swap_start_def split: sum.splits option.splits)

lemma array_liquidity_accounted:
  assumes l: "array_liquidity ta' = array_liquidity ta" and ok: "tick_array_ok s ta"
    and acc: "array_accounted net gross s ta"
  shows "array_accounted net gross s ta'"
  unfolding array_accounted_def
proof (intro allI impI)
  fix t assume h: "holds_tick s ta' t"
  have same: "ta_start_tick_index ta' = ta_start_tick_index ta" "map tick_liquidity (ta_ticks ta') = map tick_liquidity (ta_ticks ta)"
    using l by (simp_all add: array_liquidity_def)
  have t: "holds_tick s ta t" "slot s ta' t = slot s ta t"
    using h same(1) by (simp_all add: holds_tick_def slot_def)
  have "slot s ta t < length (ta_ticks ta)" "length (ta_ticks ta') = length (ta_ticks ta)"
    using slot_bounds(2) [OF ok t(1)] tick_array_okD(3) [OF ok] arg_cong [OF same(2), of length] by simp_all
  then have "tick_liquidity (ta_ticks ta' ! slot s ta t) = tick_liquidity (ta_ticks ta ! slot s ta t)"
    using same(2) by (metis nth_map)
  then show "tick_accounted (net t) (gross t) (ta_ticks ta' ! slot s ta' t)"
    using tick_accounted_liquidity acc t(1) unfolding t(2) array_accounted_def by blast
qed

text \<open>
  The negation of a net liquidity of -2^127 wraps round; the books of a swap need it not to occur.
\<close>

definition nets_negatable :: "positions \<Rightarrow> bool" where
  "nets_negatable positions \<longleftrightarrow> (\<forall>k t. - (2 ^ 127) < net_total positions k t)"

lemma accounted_profile:
  assumes acc: "accounted rt lg" and ok: "ledger_ok lg" and neg: "nets_negatable (lg_positions lg)"
    and w: "lg_pools lg k = Some w" and arr: "arrays_of (lg_arrays lg) keys = Inr arrays"
    and own: "\<forall>ta \<in> set arrays. ta_whirlpool ta = k"
  shows "profile (active (lg_positions lg) k) (wp_tick_spacing w) arrays"
proof -
  let ?s = "wp_tick_spacing w" and ?ps = "lg_positions lg"
  have pos: "tied (lg_pools lg) (pos_whirlpool p) (\<lambda>s. position_ok s p)" if "?ps q = Some p" for q p
    using ok that by (auto simp: ledger_ok_def positions_ok_def)
  have lt: "pos_tick_lower_index p < pos_tick_upper_index p" if "?ps q = Some p" for q p
    using pos [OF that] by (auto simp: tied_def position_ok_def split: option.splits)
  have diff: "active ?ps k t - active ?ps k (t - 1) = net_total ?ps k t" for t by (rule active_diff) (rule lt)
  have "flat_between (active ?ps k) ?s"
    unfolding flat_between_def
  proof (intro allI impI)
    fix t assume t: "\<not> (tick_in_range t \<and> uint ?s dvd t)"
    have "net_share k t p = 0" if p: "?ps q = Some p" for q p
    proof (cases "pos_whirlpool p = k")
      case True
      then have "position_ok ?s p" using pos [OF p] by (simp add: tied_Some [where pools = "lg_pools lg", OF w])
      then show ?thesis using t by (auto simp: net_share_def position_ok_def usable_tick_def)
    qed (simp add: net_share_def)
    then have "net_total ?ps k t = 0" unfolding net_total_def by (rule total_0)
    then show "active ?ps k t = active ?ps k (t - 1)" using diff [of t] by simp
  qed
  moreover have "follows (active ?ps k) ?s ta" if ta: "ta \<in> set arrays" for ta
    unfolding follows_def
  proof (intro allI impI)
    fix t assume h: "holds_tick ?s ta t"
    obtain a where a: "lg_arrays lg a = Some ta" using arrays_of_owner [OF arr ta] by blast
    have k: "ta_whirlpool ta = k" using own ta by simp
    have "tied (lg_pools lg) (ta_whirlpool ta) (\<lambda>s. tick_array_ok s ta)"
      "tied (lg_pools lg) (ta_whirlpool ta) (\<lambda>s. array_accounted (net_total ?ps (ta_whirlpool ta))
         (gross_total ?ps (ta_whirlpool ta)) s ta)"
      using ok acc a by (auto simp: ledger_ok_def tick_arrays_ok_def accounted_def arrays_accounted_def)
    then have tok: "tick_array_ok ?s ta" and ac: "array_accounted (net_total ?ps k) (gross_total ?ps k) ?s ta"
      unfolding k by (simp_all add: tied_Some [where pools = "lg_pools lg", OF w])
    have tick: "tick_accounted (net_total ?ps k t) (gross_total ?ps k t) (ta_ticks ta ! slot ?s ta t)"
      using ac h by (simp add: array_accounted_def)
    have "net_at ?s ta t = net_total ?ps k t"
    proof (cases "initialized_at ?s ta t")
      case True
      then show ?thesis using tick by (simp add: net_at_def tick_accounted_def)
    next
      case False
      then have "tk_liquidity_gross (ta_ticks ta ! slot ?s ta t) = 0"
        using tick initialized_at_slot [OF tok h] unfolding tick_accounted_def tick_ok_def by blast
      then have "gross_total ?ps k t = 0" using tick by (simp add: tick_accounted_def)
      then show ?thesis using False no_gross_no_net by (simp add: net_at_def)
    qed
    moreover have "in_i128 (net_total ?ps k t)" using tick by (auto simp: tick_accounted_def tick_ok_def)
    moreover have "- (2 ^ 127) < net_total ?ps k t" using neg by (simp add: nets_negatable_def)
    ultimately show "active ?ps k t - active ?ps k (t - 1) = net_at ?s ta t \<and> in_i128 (net_at ?s ta t)
        \<and> in_i128 (- net_at ?s ta t)"
      using diff [of t] by (simp add: in_i128_def)
  qed
  ultimately show ?thesis by (simp add: profile_def)
qed

text \<open>Arrays with the same liquidity at every tick are accounted for alike.\<close>

definition same_liquidity :: "tick_arrays \<Rightarrow> tick_arrays \<Rightarrow> bool" where
  "same_liquidity arrays arrays' \<longleftrightarrow> (\<forall>a. map_option array_liquidity (arrays' a) = map_option array_liquidity (arrays a))"

lemma same_liquidity_Some:
  assumes "same_liquidity arrays arrays'" "arrays' a = Some ta'"
  obtains ta where "arrays a = Some ta" "array_liquidity ta' = array_liquidity ta"
    "ta_whirlpool ta' = ta_whirlpool ta" "ta_start_tick_index ta' = ta_start_tick_index ta"
proof -
  have "map_option array_liquidity (arrays a) = Some (array_liquidity ta')"
    using assms unfolding same_liquidity_def by (metis option.map(2))
  then obtain ta where "arrays a = Some ta" "array_liquidity ta' = array_liquidity ta" by auto
  then show thesis by (auto intro: that simp: array_liquidity_def)
qed

lemma store_arrays_liquidity:
  assumes arr: "arrays_of m keys = Inr arrays" and keys: "distinct keys"
    and same: "map array_liquidity arrays' = map array_liquidity arrays"
  shows "same_liquidity m (store_arrays m keys arrays')"
  unfolding same_liquidity_def
proof
  fix a
  show "map_option array_liquidity (store_arrays m keys arrays' a) = map_option array_liquidity (m a)"
  proof (cases "a \<in> set keys")
    case True
    then obtain i where i: "i < length keys" "keys ! i = a" by (auto simp: in_set_conv_nth)
    have len: "length arrays' = length keys" "length arrays = length keys"
      using arg_cong [OF same, of length] arg_cong [OF arr [unfolded arrays_of_Inr_iff], of length] by simp_all
    have "store_arrays m keys arrays' a = Some (arrays' ! i)"
      using store_arrays_nth [OF keys i(1), of arrays'] len i by simp
    moreover have "array_liquidity (arrays' ! i) = array_liquidity (arrays ! i)"
      using same len i(1) by (metis nth_map)
    moreover have "m a = Some (arrays ! i)"
      using arr [unfolded arrays_of_Inr_iff] i len by (metis nth_map)
    ultimately show ?thesis by simp
  qed (simp add: store_arrays_other)
qed

lemma arrays_accounted_liquidity:
  assumes same: "same_liquidity arrays arrays'" and ok: "tick_arrays_ok pools arrays"
    and aa: "arrays_accounted rt pools net gross arrays"
  shows "arrays_accounted rt pools net gross arrays'"
  unfolding arrays_accounted_def
proof (intro allI impI)
  fix a ta' assume "arrays' a = Some ta'"
  then obtain ta where a: "arrays a = Some ta" and l: "array_liquidity ta' = array_liquidity ta"
    and f: "ta_whirlpool ta' = ta_whirlpool ta" "ta_start_tick_index ta' = ta_start_tick_index ta"
    by (rule same_liquidity_Some [OF same])
  have "tied pools (ta_whirlpool ta) (\<lambda>s. tick_array_ok s ta)" using ok a by (auto simp: tick_arrays_ok_def)
  then show "a = array_address rt (ta_whirlpool ta') (ta_start_tick_index ta')
      \<and> tied pools (ta_whirlpool ta') (\<lambda>s. array_accounted (net (ta_whirlpool ta')) (gross (ta_whirlpool ta')) s ta')"
    unfolding f using aa a array_liquidity_accounted [OF l]
    by (auto simp: arrays_accounted_def tied_def split: option.splits)
qed

lemma same_liquidity_sym: "same_liquidity arrays arrays' \<Longrightarrow> same_liquidity arrays' arrays"
  by (simp add: same_liquidity_def)

lemma tick_held_liquidity:
  assumes same: "same_liquidity arrays arrays'" and held: "tick_held arrays k s x"
  shows "tick_held arrays' k s x"
proof -
  obtain a ta where a: "arrays a = Some ta" "ta_whirlpool ta = k" "holds_tick s ta x"
    using held by (auto simp: tick_held_def)
  obtain ta' where "arrays' a = Some ta'" "ta_whirlpool ta = ta_whirlpool ta'"
    "ta_start_tick_index ta = ta_start_tick_index ta'"
    by (rule same_liquidity_Some [OF same_liquidity_sym [OF same] a(1)])
  then show ?thesis using a(2,3) by (auto simp: tick_held_def holds_tick_def)
qed

lemma pool_swap_accounted:
  assumes acc: "accounted rt lg" and ok: "ledger_ok lg" and neg: "nets_negatable (lg_positions lg)"
    and sw: "pool_swap lg k w' keys arrays'"
  shows "accounted rt (after_swap lg k w' keys arrays' tokens)"
proof -
  let ?ps = "lg_positions lg" and ?new = "store_arrays (lg_arrays lg) keys arrays'"
  obtain w arrays amount limit inp a_to_b ts u where w: "lg_pools lg k = Some w"
    and arr: "arrays_of (lg_arrays lg) keys = Inr arrays" and kd: "keys \<noteq> []" "distinct keys"
    and own: "\<forall>ta \<in> set arrays. ta_whirlpool ta = k"
    and r: "swap w arrays amount limit inp a_to_b ts = Some (Inr (u, arrays'))"
    and w': "w' = update_after_swap w (ps_next_liquidity u) (ps_next_tick_index u) (ps_next_sqrt_price u)
                 (ps_next_fee_growth_global u) (ps_next_reward_infos u) (ps_next_protocol_fee u) a_to_b ts"
    using sw unfolding pool_swap_def by blast
  have aa: "arrays_accounted rt (lg_pools lg) (net_total ?ps) (gross_total ?ps) (lg_arrays lg)"
    and eh: "ends_held (lg_pools lg) (lg_arrays lg) ?ps" and pa: "pools_accounted (lg_pools lg) ?ps"
    using acc by (simp_all add: accounted_def)
  have wok: "pool_ok w" and oka: "tick_arrays_ok (lg_pools lg) (lg_arrays lg)"
    using ok w by (auto simp: ledger_ok_def pools_ok_def)
  have prof: "profile (active ?ps k) (wp_tick_spacing w) arrays" by (rule accounted_profile [OF acc ok neg w arr own])
  have liq: "uint (wp_liquidity w) = active ?ps k (wp_tick_current_index w)"
    using pa w by (simp add: pools_accounted_def)
  have "uint (ps_next_liquidity u) = active ?ps k (ps_next_tick_index u)"
    by (rule swap_profile(2) [OF wok ledger_sequence_ok [OF ok w arr kd(1) own] r prof liq])
  then have "uint (wp_liquidity w') = active ?ps k (wp_tick_current_index w')"
    by (simp add: w' update_after_swap_def Let_def)
  then have pools: "pools_accounted ((lg_pools lg)(k \<mapsto> w')) ?ps" using pa by (simp add: pools_accounted_def)
  have kp: "pools_kept (lg_pools lg) ((lg_pools lg)(k \<mapsto> w'))"
    by (rule pools_kept_upd(2) [where pools = "lg_pools lg", OF w]) (simp add: w' pool_id_def update_after_swap_def Let_def)
  have same: "same_liquidity (lg_arrays lg) ?new" by (rule store_arrays_liquidity [OF arr kd(2) swap_liquidity [OF r]])
  have "arrays_accounted rt (lg_pools lg) (net_total ?ps) (gross_total ?ps) ?new"
    by (rule arrays_accounted_liquidity [OF same oka aa])
  moreover have "ends_held (lg_pools lg) ?new ?ps" by (rule ends_held_mono [OF eh tick_held_liquidity [OF same]])
  ultimately show ?thesis
    using pools accounted_kept_pools [OF kp] by (simp add: accounted_def after_swap_def)
qed

section \<open>Every change keeps the books\<close>

lemma share_position: "is_position_empty p \<Longrightarrow> pos_liquidity p = 0"
  by (simp add: is_position_empty_def)

lemma accounted_pool:
  assumes "accounted rt lg" "lg_pools lg k = Some w" "wp_tick_spacing w' = wp_tick_spacing w"
    "wp_liquidity w' = wp_liquidity w" "wp_tick_current_index w' = wp_tick_current_index w"
  shows "accounted rt (lg\<lparr>lg_pools := (lg_pools lg)(k \<mapsto> w'), lg_tokens := tokens\<rparr>)"
  by (rule same_accounted [OF assms(1)])
    (use assms(1) in \<open>simp_all add: accounted_def pools_same_upd [where pools = "lg_pools lg", OF assms(2-5)]\<close>)

lemma accounted_position:
  assumes acc: "accounted rt lg"
  shows "lg_positions lg q = Some p \<Longrightarrow> position_kept p p' \<Longrightarrow> pos_liquidity p' = pos_liquidity p \<Longrightarrow>
      accounted rt (lg\<lparr>lg_positions := (lg_positions lg)(q \<mapsto> p'), lg_tokens := tokens\<rparr>)"
    "lg_positions lg q = None \<Longrightarrow> pos_liquidity p' = 0 \<Longrightarrow>
      accounted rt (lg\<lparr>lg_positions := (lg_positions lg)(q \<mapsto> p'), lg_tokens := tokens\<rparr>)"
    "lg_positions lg q = Some p \<Longrightarrow> pos_liquidity p = 0 \<Longrightarrow>
      accounted rt (lg\<lparr>lg_positions := (lg_positions lg)(q := None), lg_tokens := tokens\<rparr>)"
proof -
  have eh: "ends_held (lg_pools lg) (lg_arrays lg) (lg_positions lg)" using acc by (simp add: accounted_def)
  note st = same_accounted [OF acc] same_totals_upd [where positions = "lg_positions lg"] ends_held_upd [OF eh]
  show "accounted rt (lg\<lparr>lg_positions := (lg_positions lg)(q \<mapsto> p'), lg_tokens := tokens\<rparr>)"
    if "lg_positions lg q = Some p" "position_kept p p'" "pos_liquidity p' = pos_liquidity p"
    by (rule st(1)) (use that st(2,5) in simp_all)
  show "accounted rt (lg\<lparr>lg_positions := (lg_positions lg)(q \<mapsto> p'), lg_tokens := tokens\<rparr>)"
    if "lg_positions lg q = None" "pos_liquidity p' = 0"
    by (rule st(1)) (use that st(3,6) in simp_all)
  show "accounted rt (lg\<lparr>lg_positions := (lg_positions lg)(q := None), lg_tokens := tokens\<rparr>)"
    if "lg_positions lg q = Some p" "pos_liquidity p = 0"
    by (rule st(1)) (use that st(4,7) in simp_all)
qed

lemma accounted_other:
  assumes "accounted rt lg" "lg_pools lg' = lg_pools lg" "lg_positions lg' = lg_positions lg" "lg_arrays lg' = lg_arrays lg"
  shows "accounted rt lg'"
  using assms by (simp add: accounted_def)

lemma pool_created_accounted:
  assumes acc: "accounted rt lg" and ok: "ledger_ok lg" and new: "lg_pools lg k = None"
    and w: "whirlpool_initialize default_whirlpool cfg bump s price fee ma va mb vb = Inr w"
  shows "accounted rt (lg\<lparr>lg_pools := (lg_pools lg)(k \<mapsto> w), lg_tokens := tokens\<rparr>)"
proof -
  have "wp_liquidity w = 0"
    using w by (auto simp: whirlpool_initialize_def and_then_Inr_iff whirlpool_defs default_whirlpool_def split: if_splits)
  moreover have "positions_ok (lg_pools lg) (lg_positions lg)" using ok by (simp add: ledger_ok_def)
  ultimately have "pools_accounted ((lg_pools lg)(k \<mapsto> w)) (lg_positions lg)"
    using acc pools_accounted_new [where pools = "lg_pools lg", OF _ new] by (simp add: accounted_def)
  moreover note kept = accounted_kept_pools [OF pools_kept_upd(1) [where pools = "lg_pools lg", OF new]]
  have "arrays_accounted rt ((lg_pools lg)(k \<mapsto> w)) (net_total (lg_positions lg)) (gross_total (lg_positions lg)) (lg_arrays lg)"
    by (rule kept(1)) (use acc in \<open>simp add: accounted_def\<close>)
  moreover have "ends_held ((lg_pools lg)(k \<mapsto> w)) (lg_arrays lg) (lg_positions lg)"
    by (rule kept(2)) (use acc in \<open>simp add: accounted_def\<close>)
  ultimately show ?thesis by (simp add: accounted_def)
qed

theorem effect_accounted:
  assumes "effect rt tx lg lg'" "ledger_ok lg" "accounted rt lg" "nets_negatable (lg_positions lg)"
  shows "accounted rt lg'"
  using assms
proof (induction rule: effect.induct)
  case (pool_created lg k cfg bump s price fee ma va mb vb w tokens)
  then show ?case by (blast intro: pool_created_accounted)
next
  case (pool_changed lg k w w' tokens)
  then show ?case by (intro accounted_pool) (auto simp: pool_tuned_def pool_id_def)
next
  case (array_created lg k w a t ta)
  then show ?case by (intro array_created_accounted) (simp_all add: array_address_def)
next
  case (position_opened lg k w q m l u p tokens)
  then show ?case using opened_position_ok(4) [OF position_opened(4)] by (intro accounted_position(2)) simp_all
next
  case (position_closed lg q p w tokens)
  then show ?case by (intro accounted_position(3)) (auto intro: share_position)
next
  case (position_changed lg q p p' tokens)
  then show ?case by (intro accounted_position(1)) simp_all
next
  case (position_settled lg k w q p al au ts u infos)
  note a = accounted_pool [OF position_settled(7,1), of "update_rewards w infos ts" "lg_tokens lg"]
  have "pos_liquidity (position_update p u) = pos_liquidity p"
    using calculate_growths_Inr [OF position_settled(4)] by (simp add: position_update_def)
  from accounted_position(1) [OF a _ position_kept_updates(1) this, of q "lg_tokens lg"] position_settled(2)
  show ?case by (simp add: update_rewards_def)
next
  case (liquidity_changed lg k w q p d al tal au tau ts m w' p' arrays tokens)
  show ?case by (rule liquidity_changed_accounted [OF liquidity_changed(16,15,1,2,3,7-13)])
next
  case (swapped lg k w' keys arrays tokens)
  then show ?case by (intro pool_swap_accounted pool_trade_swap)
next
  case (swapped_twice lg k w' keys arrays tokens l x' keys' arrays' tokens')
  show ?case
    by (rule pool_swap_accounted [OF pool_swap_accounted [OF swapped_twice(5,4,6) pool_trade_swap [OF swapped_twice(1)]]
        ledger_ok_after_swap [OF swapped_twice(4) pool_trade_swap [OF swapped_twice(1)]] _
        pool_trade_swap [OF swapped_twice(3)]])
      (use swapped_twice(6) in \<open>simp add: after_swap_def\<close>)
qed (auto elim: accounted_other)

section \<open>Every run keeps the books\<close>

text \<open>The runs on which no net liquidity sinks to -2^127, which is far below what tokens can pay for.\<close>

inductive tame :: "'t runtime \<Rightarrow> pubkey \<Rightarrow> 't ledger \<Rightarrow> bool" for rt nft where
  start: "lg_configs lg = Map.empty \<Longrightarrow> lg_fee_tiers lg = Map.empty \<Longrightarrow> lg_pools lg = Map.empty \<Longrightarrow>
     lg_positions lg = Map.empty \<Longrightarrow> lg_arrays lg = Map.empty \<Longrightarrow> tame rt nft lg"
| later: "tame rt nft lg \<Longrightarrow> nets_negatable (lg_positions lg) \<Longrightarrow> step rt nft lg lg' \<Longrightarrow> tame rt nft lg'"

lemma tame_reachable: "tame rt nft lg \<Longrightarrow> reachable rt nft lg"
  by (induction rule: tame.induct) (auto intro: reachable.intros)

lemma step_accounted:
  "step rt nft lg lg' \<Longrightarrow> ledger_ok lg \<Longrightarrow> accounted rt lg \<Longrightarrow> nets_negatable (lg_positions lg) \<Longrightarrow> accounted rt lg'"
  by (erule stepE) (blast intro: effect_accounted process_effect, simp add: accounted_def)

lemma tame_accounted: "tame rt nft lg \<Longrightarrow> accounted rt lg"
proof (induction rule: tame.induct)
  case (start lg)
  then show ?case
    by (simp add: accounted_def pools_accounted_def arrays_accounted_def ends_held_def)
next
  case (later lg lg')
  show ?case by (rule step_accounted [OF later(3) reachable_ledger_ok [OF tame_reachable [OF later(1)]] later(4,2)])
qed

end
