(* ===== verification/Pool_Worth.thy ===== *)
theory Pool_Worth
  imports Liquidity_Profile
begin

text \<open>
  The tokens that the liquidity of a pool stands for at a price, as real numbers: the sum over the
  ticks of the liquidity in use there times the part of the tick's interval of prices that lies below
  the price (token B) or above it (token A, in inverse prices).  This is a potential of the swap: a
  step at constant liquidity changes it by the exact amounts of the step, so that what a swap takes
  in covers what the potential of the input token gains, and what it gives out is at most what that
  of the output token loses, however many ticks it crosses.
\<close>

section \<open>Sums over the ticks between two prices\<close>

definition clamp :: "nat \<Rightarrow> nat \<Rightarrow> nat \<Rightarrow> nat" where
  "clamp x y p = max x (min y p)"

lemma clamp_simps:
  "p \<le> x \<Longrightarrow> clamp x y p = x" "x \<le> p \<Longrightarrow> p \<le> y \<Longrightarrow> clamp x y p = p"
  "x \<le> y \<Longrightarrow> y \<le> p \<Longrightarrow> clamp x y p = y"
  by (auto simp: clamp_def)

abbreviation tick_clamp :: "i32 \<Rightarrow> nat \<Rightarrow> nat" where
  "tick_clamp t p \<equiv> clamp (price_val t) (price_val (t + 1)) p"

lemma price_step: "MIN_TICK_INDEX \<le> t \<Longrightarrow> t < MAX_TICK_INDEX \<Longrightarrow> price_val t < price_val (t + 1)"
  by (simp add: price_val_less_iff tick_in_range_def)

text \<open>The intervals of consecutive ticks add up to one interval.\<close>

lemma tick_intervals:
  assumes "MIN_TICK_INDEX \<le> a" "a \<le> b" "b \<le> MAX_TICK_INDEX"
  shows "(\<Sum>t \<in> {a..<b}. f (tick_clamp t q) - f (tick_clamp t p)) =
    f (clamp (price_val a) (price_val b) q) - (f (clamp (price_val a) (price_val b) p) :: real)"
  using assms(2,3)
proof (induction "nat (b - a)" arbitrary: b)
  case 0
  then show ?case by (simp add: clamp_def)
next
  case (Suc n)
  have le: "price_val a \<le> price_val (b - 1)" "price_val (b - 1) < price_val b"
    using Suc.hyps(2) Suc.prems assms(1) price_step [of "b - 1"] price_val_le_iff [of a "b - 1"]
    by (auto simp: tick_in_range_def)
  have split: "f (clamp (price_val (b - 1)) (price_val b) x) + f (clamp (price_val a) (price_val (b - 1)) x)
      = f (price_val (b - 1)) + f (clamp (price_val a) (price_val b) x)" for x
    using le by (cases "x \<le> price_val (b - 1)") (auto simp: clamp_def)
  have "{a..<b} = insert (b - 1) {a..<b - 1}" using Suc.hyps(2) by auto
  then have "(\<Sum>t \<in> {a..<b}. f (tick_clamp t q) - f (tick_clamp t p))
      = f (clamp (price_val (b - 1)) (price_val b) q) - f (clamp (price_val (b - 1)) (price_val b) p)
        + (f (clamp (price_val a) (price_val (b - 1)) q) - f (clamp (price_val a) (price_val (b - 1)) p))"
    using Suc.hyps(1) [of "b - 1"] Suc.hyps(2) Suc.prems by simp
  then show ?case using split [of q] split [of p] by linarith
qed

definition all_ticks :: "i32 set" where
  "all_ticks = {MIN_TICK_INDEX..<MAX_TICK_INDEX}"

definition gain :: "(nat \<Rightarrow> real) \<Rightarrow> (i32 \<Rightarrow> int) \<Rightarrow> nat \<Rightarrow> nat \<Rightarrow> real" where
  "gain f L p q = (\<Sum>t \<in> all_ticks. of_int (L t) * (f (tick_clamp t q) - f (tick_clamp t p)))"

text \<open>Between two prices of a stretch of ticks with the same liquidity, only these ticks matter.\<close>

lemma gain_flat:
  assumes ab: "MIN_TICK_INDEX \<le> a" "a \<le> b" "b \<le> MAX_TICK_INDEX"
    and L: "\<And>t. a \<le> t \<Longrightarrow> t < b \<Longrightarrow> L t = l"
    and p: "price_val a \<le> p" "p \<le> price_val b" and q: "price_val a \<le> q" "q \<le> price_val b"
  shows "gain f L p q = of_int l * (f q - f p)"
proof -
  have outside: "tick_clamp t p = tick_clamp t q" if "t \<in> all_ticks - {a..<b}" for t
  proof (cases "t < a")
    case True
    then have "price_val t \<le> price_val (t + 1)" "price_val (t + 1) \<le> price_val a"
      using that ab price_step [of t] price_val_le_iff [of "t + 1" a] by (auto simp: all_ticks_def tick_in_range_def)
    then show ?thesis using p q by (auto simp: clamp_def)
  next
    case False
    then have "price_val b \<le> price_val t"
      using that ab price_val_le_iff [of b t] by (auto simp: all_ticks_def tick_in_range_def)
    then show ?thesis using p q by (auto simp: clamp_def)
  qed
  have "gain f L p q = (\<Sum>t \<in> {a..<b}. of_int (L t) * (f (tick_clamp t q) - f (tick_clamp t p)))"
    unfolding gain_def
    by (rule sum.mono_neutral_right) (use ab outside in \<open>auto simp: all_ticks_def\<close>)
  also have "\<dots> = (\<Sum>t \<in> {a..<b}. of_int l * (f (tick_clamp t q) - f (tick_clamp t p)))"
    by (rule sum.cong) (use L in auto)
  also have "\<dots> = of_int l * (f q - f p)"
    using tick_intervals [OF ab, of f q p] p q
    by (simp add: sum_distrib_left [symmetric] clamp_simps)
  finally show ?thesis .
qed

lemma gain_trans: "gain f L p q + gain f L q r = gain f L p r"
  unfolding gain_def sum.distrib [symmetric] by (rule sum.cong) (simp_all add: algebra_simps)

lemma gain_refl [simp]: "gain f L p p = 0"
  by (simp add: gain_def)

section \<open>The tokens of a price\<close>

text \<open>
  Token B counts the prices below, in units of \<open>2^-64\<close>; token A counts the inverse prices, which fall.
\<close>

definition token_measure :: "bool \<Rightarrow> nat \<Rightarrow> real" where
  "token_measure a p = (if a then 2 ^ 64 / real p else real p / 2 ^ 64)"

lemma ceil_div_real: "0 < d \<Longrightarrow> real n / real d \<le> real (ceil_div n d)"
proof -
  assume d: "0 < d"
  have "n \<le> ceil_div n d * d" using ceil_div_le_iff [OF d] by blast
  then have "real n \<le> real (ceil_div n d) * real d" unfolding of_nat_mult [symmetric] of_nat_le_iff .
  then show ?thesis using d by (simp add: divide_le_eq)
qed

lemma div_real: "real (n div d) \<le> real n / real d"
proof (cases "d = 0")
  case False
  have "real (n div d) * real d \<le> real n" unfolding of_nat_mult [symmetric] of_nat_le_iff by simp
  then show ?thesis using False by (simp add: le_divide_eq)
qed simp

text \<open>The amounts between two prices are the change of the measure, rounded.\<close>

definition measured :: "bool \<Rightarrow> nat \<Rightarrow> nat \<Rightarrow> nat \<Rightarrow> real" where
  "measured a p q l = real l * \<bar>token_measure a q - token_measure a p\<bar>"

lemma measured_eq:
  assumes "0 < p" "0 < q"
  shows "measured True p q l = real (l * (max p q - min p q) * 2 ^ 64) / real (p * q)"
    "measured False p q l = real (l * (max p q - min p q)) / real (2 ^ 64)"
proof -
  have d: "\<bar>1 / real q - 1 / real p\<bar> = (real (max p q) - real (min p q)) / (real p * real q)"
  proof (cases "p \<le> q")
    case True
    then have "1 / real q - 1 / real p \<le> 0" using assms by (simp add: field_simps)
    then show ?thesis using True assms by (simp add: field_simps max_def min_def)
  next
    case False
    then have "0 \<le> 1 / real q - 1 / real p" using assms by (simp add: field_simps)
    then show ?thesis using False assms by (simp add: field_simps max_def min_def)
  qed
  have "token_measure True q - token_measure True p = 2 ^ 64 * (1 / real q - 1 / real p)"
    by (simp add: token_measure_def right_diff_distrib)
  then have "measured True p q l = real l * (2 ^ 64 * ((real (max p q) - real (min p q)) / (real p * real q)))"
    unfolding measured_def by (simp only: abs_mult d) simp
  then show "measured True p q l = real (l * (max p q - min p q) * 2 ^ 64) / real (p * q)"
    by (simp add: of_nat_diff)
  show "measured False p q l = real (l * (max p q - min p q)) / real (2 ^ 64)"
    by (simp add: measured_def token_measure_def of_nat_diff flip: diff_divide_distrib) (auto simp: max_def min_def)
qed

lemma amounts_measured:
  assumes "0 < p" "0 < q"
  shows "real (amount_a False p q l) \<le> measured True p q l" "measured True p q l \<le> real (amount_a True p q l)"
    "real (amount_b False p q l) \<le> measured False p q l" "measured False p q l \<le> real (amount_b True p q l)"
  unfolding measured_eq [OF assms] amount_a_def amount_b_def round_div_def
  by (simp_all only: if_True if_False div_real) (rule ceil_div_real, use assms in simp)+

text \<open>Tokens gained by the pool when the price moves from \<open>p\<close> to \<open>q\<close>; negative for tokens that it loses.\<close>

definition pool_gain :: "bool \<Rightarrow> (i32 \<Rightarrow> int) \<Rightarrow> nat \<Rightarrow> nat \<Rightarrow> real" where
  "pool_gain a L p q = gain (token_measure a) L p q"

section \<open>A step of the swap\<close>

lemma step_gain:
  assumes inv: "swap_inv s limit a_to_b st" and t: "tick_in_range x"
    and dir: "if a_to_b then x \<le> sw_tick_index st else sw_tick_index st < x"
    and fl: "if a_to_b then flat L x (sw_tick_index st) else flat L (sw_tick_index st) (x - 1)"
    and on: "uint (sw_liquidity st) = L (sw_tick_index st)"
    and q: "if a_to_b then price_val x \<le> unat q \<and> q \<le> sw_sqrt_price st
       else sw_sqrt_price st \<le> q \<and> unat q \<le> price_val x"
  shows "pool_gain a L (unat (sw_sqrt_price st)) (unat q) =
    real (unat (sw_liquidity st)) * (token_measure a (unat q) - token_measure a (unat (sw_sqrt_price st)))"
proof -
  let ?t = "sw_tick_index st" and ?p = "sw_sqrt_price st"
  have tp: "tick_price_ok ?t ?p" and pr: "price_in_range ?p" using inv by (simp_all add: swap_inv_def)
  have ends: "price_val MIN_TICK_INDEX \<le> unat ?p" "unat ?p \<le> price_val MAX_TICK_INDEX"
    using pr by (simp_all add: price_in_range_def word_le_nat_alt price_val_ends)
  have l: "real (unat (sw_liquidity st)) = of_int (uint (sw_liquidity st))" by simp
  show ?thesis
  proof (cases a_to_b)
    case True
    have Lt: "L y = uint (sw_liquidity st)" if "x \<le> y" "y \<le> ?t" for y
      using flat_eq [of L y ?t] flat_sub [of L x ?t y ?t] fl that True on by simp
    show ?thesis
      unfolding pool_gain_def l
      by (rule gain_flat [of x "min (?t + 1) MAX_TICK_INDEX"])
        (use Lt t dir q True tp ends in \<open>auto simp: tick_in_range_def tick_price_ok_def word_le_nat_alt min_def split: if_splits\<close>)
  next
    case False
    have Lt: "L y = uint (sw_liquidity st)" if "?t \<le> y" "y < x" for y
      using flat_eq [of L ?t y] flat_sub [of L ?t "x - 1" ?t y] fl that False on by simp
    show ?thesis
      unfolding pool_gain_def l
      by (rule gain_flat [of "max ?t MIN_TICK_INDEX" x])
        (use Lt t dir q False tp ends in \<open>auto simp: tick_in_range_def tick_price_ok_def word_le_nat_alt max_def split: if_splits\<close>)
  qed
qed

lemma token_measure_mono:
  "0 < q \<Longrightarrow> q \<le> p \<Longrightarrow> token_measure False q \<le> token_measure False p"
  "0 < p \<Longrightarrow> p \<le> q \<Longrightarrow> token_measure True q \<le> token_measure True p"
  by (simp_all add: token_measure_def frac_le divide_right_mono)

text \<open>The input of a step covers what the pool gains, and its output is at most what the pool loses.\<close>

lemma amounts_gain:
  assumes p: "0 < p" and q: "0 < q" and dir: "if a_to_b then q \<le> p else p \<le> q"
    and g: "\<And>a. pool_gain a L p q = real l * (token_measure a q - token_measure a p)"
  shows "pool_gain a_to_b L p q \<le> real (input_amount a_to_b p q l)"
    "real (output_amount a_to_b p q l) \<le> - pool_gain (\<not> a_to_b) L p q"
proof -
  note m = amounts_measured [OF p q, of l]
  have "real l * (token_measure a q - token_measure a p) \<le> measured a p q l" for a
    unfolding measured_def by (rule mult_left_mono) simp_all
  from this [of a_to_b] show "pool_gain a_to_b L p q \<le> real (input_amount a_to_b p q l)"
    using m(2,4) unfolding g input_amount_def by (cases a_to_b) simp_all
  have "token_measure (\<not> a_to_b) q \<le> token_measure (\<not> a_to_b) p"
    using token_measure_mono(1) [OF q, of p] token_measure_mono(2) [OF p, of q] dir by (cases a_to_b) simp_all
  then have "measured (\<not> a_to_b) p q l = - pool_gain (\<not> a_to_b) L p q"
    unfolding g measured_def by (simp add: algebra_simps)
  then show "real (output_amount a_to_b p q l) \<le> - pool_gain (\<not> a_to_b) L p q"
    using m(1,3) unfolding output_amount_def by (cases a_to_b) simp_all
qed

section \<open>A swap\<close>

text \<open>What the trader has paid and received so far.\<close>

definition paid :: "bool \<Rightarrow> u64 \<Rightarrow> SwapState \<Rightarrow> nat" where
  "paid inp amount st = (if inp then unat amount - unat (sw_amount_remaining st) else unat (sw_amount_calculated st))"

definition received :: "bool \<Rightarrow> u64 \<Rightarrow> SwapState \<Rightarrow> nat" where
  "received inp amount st = (if inp then unat (sw_amount_calculated st) else unat amount - unat (sw_amount_remaining st))"

lemma step_paid:
  assumes am: "step_amounts inp c (sw_amount_remaining st) (sw_amount_calculated st) = Inr (rem, m)"
    and le: "sw_amount_remaining st \<le> amount"
    and st': "sw_amount_remaining st' = rem" "sw_amount_calculated st' = m"
  shows "paid inp amount st' = paid inp amount st + unat (amount_in c) + unat (fee_amount c)"
    "received inp amount st' = received inp amount st + unat (amount_out c)"
    "sw_amount_remaining st' \<le> amount"
  using assms by (cases inp; auto simp: step_amounts_Inr paid_def received_def word_le_nat_alt)+

text \<open>
  The trade so far covers what the pool gains, with the protocol's share of the fees and the fees
  promised to the liquidity.
\<close>

definition covered :: "(i32 \<Rightarrow> int) \<Rightarrow> real \<Rightarrow> nat \<Rightarrow> bool \<Rightarrow> bool \<Rightarrow> u64 \<Rightarrow> SwapState \<Rightarrow> bool" where
  "covered L f p0 a_to_b inp amount st \<longleftrightarrow> sw_amount_remaining st \<le> amount
     \<and> pool_gain a_to_b L p0 (unat (sw_sqrt_price st)) + real (unat (sw_protocol_fee st)) + f \<le> real (paid inp amount st)
     \<and> real (received inp amount st) \<le> - pool_gain (\<not> a_to_b) L p0 (unat (sw_sqrt_price st))"

lemma pool_gain_trans: "pool_gain a L p q + pool_gain a L q r = pool_gain a L p r"
  by (simp add: pool_gain_def gain_trans)

lemma price_positive: "price_in_range p \<Longrightarrow> 0 < unat p"
  by (simp add: price_in_range_def word_le_nat_alt MIN_SQRT_PRICE_X64_def)

lemma unat_add_of_nat_le: "unat (a + of_nat n :: u64) \<le> unat a + n"
proof -
  have "unat (a + of_nat n) \<le> unat a + unat (of_nat n :: u64)" by (simp add: unat_word_ariths(1))
  moreover have "unat (of_nat n :: u64) \<le> n" by (simp add: unat_of_nat)
  ultimately show ?thesis by simp
qed

text \<open>The growth of the fees promises the liquidity no more than its part of the fee.\<close>

definition promised :: "u128 \<Rightarrow> u128 \<Rightarrow> real" where
  "promised d l = real (unat d) * real (unat l) / 2 ^ 64"

lemma promised_nonneg: "0 \<le> promised d l"
  unfolding promised_def by (intro divide_nonneg_nonneg mult_nonneg_nonneg of_nat_0_le_iff) simp

lemma fees_covered:
  assumes fees: "calculate_fees fee rate l pf g = Inr (pf', g')" and rate: "rate \<le> MAX_PROTOCOL_FEE_RATE"
  shows "real (unat pf') + promised (g' - g) l \<le> real (unat pf) + real (unat fee)"
proof -
  let ?share = "protocol_share (unat fee) rate" and ?n = "(unat fee - protocol_share (unat fee) rate) * 2 ^ 64 div unat l"
  have le: "?share \<le> unat fee" using calculate_protocol_fee_val [OF rate] by blast
  have pf': "pf' = pf + of_nat ?share" and g': "g' - g = (if l = 0 then 0 else of_nat ?n)"
    using fees by (auto simp: calculate_fees_val [OF rate])
  have "unat (g' - g) \<le> ?n" unfolding g' by (simp add: unat_of_nat)
  then have "unat (g' - g) * unat l \<le> ?n * unat l" by (rule mult_le_mono1)
  also have "\<dots> \<le> (unat fee - ?share) * 2 ^ 64" by simp
  finally have "real (unat (g' - g) * unat l) \<le> real ((unat fee - ?share) * 2 ^ 64)" by (simp only: of_nat_le_iff)
  then have "promised (g' - g) l \<le> real (unat fee - ?share)"
    unfolding promised_def of_nat_mult by (simp add: divide_le_eq del: of_nat_unat)
  moreover have "unat pf' \<le> unat pf + ?share" unfolding pf' by (rule unat_add_of_nat_le)
  then have "real (unat pf') \<le> real (unat pf) + real ?share" unfolding of_nat_add [symmetric] of_nat_le_iff .
  ultimately show ?thesis using of_nat_diff [OF le, where 'a = real] by linarith
qed

lemma swap_step_covered:
  assumes inv: "swap_inv (wp_tick_spacing w) limit a_to_b st" and run: "swap_running limit st"
    and limit: "price_in_range limit" and r: "swap_step w limit inp a_to_b infos st = Inr st'"
    and p: "profile L (wp_tick_spacing w) (sw_sequence st)" and on: "uint (sw_liquidity st) = L (sw_tick_index st)"
    and rate: "wp_protocol_fee_rate w \<le> MAX_PROTOCOL_FEE_RATE"
    and cov: "covered L f p0 a_to_b inp amount st"
  shows "covered L (f + promised (sw_fee_growth_global_input st' - sw_fee_growth_global_input st) (sw_liquidity st))
    p0 a_to_b inp amount st'"
proof (rule swap_step_stretch [OF inv run limit r profile_quiet [OF p]])
  let ?p = "sw_sqrt_price st" and ?t = "sw_tick_index st"
  fix j x q and c :: SwapStepComputation and rem m pf :: u64 and g :: u128 and st2 :: SwapState
  let ?q = "next_price c" and ?l = "unat (sw_liquidity st)"
  let ?st1 = "st\<lparr>sw_amount_remaining := rem, sw_amount_calculated := m, sw_protocol_fee := pf,
             sw_fee_growth_global_input := g\<rparr>"
  assume x: "tick_in_range x" "unat q = price_val x" "price_in_range ?q"
    and fl: "if a_to_b then x \<le> ?t \<and> flat L x ?t else ?t < x \<and> flat L ?t (x - 1)"
    and np: "if a_to_b then q \<le> ?q \<and> ?q \<le> ?p else ?p \<le> ?q \<and> ?q \<le> q"
    and c: "unat (amount_in c) = input_amount a_to_b (unat ?p) (unat ?q) ?l"
      "unat (amount_out c) \<le> output_amount a_to_b (unat ?p) (unat ?q) ?l"
    and am: "step_amounts inp c (sw_amount_remaining st) (sw_amount_calculated st) = Inr (rem, m)"
    and fees: "calculate_fees (fee_amount c) (wp_protocol_fee_rate w) (sw_liquidity st) (sw_protocol_fee st)
       (sw_fee_growth_global_input st) = Inr (pf, g)"
    and st2: "(if ?q = q then cross_next_tick w a_to_b infos j x ?st1
      else if ?q \<noteq> ?p then and_then (tick_index_from_sqrt_price ?q) (\<lambda>i. Inr (?st1\<lparr>sw_tick_index := i\<rparr>))
      else Inr ?st1) = Inr st2"
    and st': "st' = st2\<lparr>sw_sqrt_price := ?q\<rparr>"
  have sq: "sequence_ok (wp_tick_spacing w) (sw_sequence st)" and pr: "price_in_range ?p"
    using inv by (simp_all add: swap_inv_def)
  have keep: "sw_amount_remaining st' = rem" "sw_amount_calculated st' = m" "sw_protocol_fee st' = pf"
    "sw_fee_growth_global_input st' = g"
    using st2 cross_next_tick_fields [of w a_to_b infos j x ?st1 st2] sq
    by (auto simp: st' and_then_Inr_iff split: if_splits)
  have le: "sw_amount_remaining st \<le> amount" using cov by (simp add: covered_def)
  note paid = step_paid [OF am le keep(1,2)]
  have "pool_gain a L (unat ?p) (unat ?q) = real ?l * (token_measure a (unat ?q) - token_measure a (unat ?p))" for a
    by (rule step_gain [OF inv x(1)]) (use fl np on x(2) in \<open>auto simp: word_le_nat_alt split: if_splits\<close>)
  note gain = amounts_gain [OF price_positive [OF pr] price_positive [OF x(3)] _ this, of a_to_b]
  have dir: "if a_to_b then unat ?q \<le> unat ?p else unat ?p \<le> unat ?q"
    using np by (auto simp: word_le_nat_alt split: if_splits)
  note fee = fees_covered [OF fees rate]
  have out: "real (unat (amount_out c)) \<le> real (output_amount a_to_b (unat ?p) (unat ?q) ?l)"
    using c(2) unfolding of_nat_le_iff .
  have pay: "real (paid inp amount st') = real (paid inp amount st)
      + real (input_amount a_to_b (unat ?p) (unat ?q) ?l) + real (unat (fee_amount c))"
    "real (received inp amount st') = real (received inp amount st) + real (unat (amount_out c))"
    by (simp_all only: paid c(1) of_nat_add)
  have old: "pool_gain a_to_b L p0 (unat ?p) + real (unat (sw_protocol_fee st)) + f \<le> real (paid inp amount st)"
    "real (received inp amount st) \<le> - pool_gain (\<not> a_to_b) L p0 (unat ?p)"
    using cov unfolding covered_def by blast+
  have price: "sw_sqrt_price st' = ?q" by (simp add: st')
  show "covered L (f + promised (sw_fee_growth_global_input st' - sw_fee_growth_global_input st) (sw_liquidity st))
      p0 a_to_b inp amount st'"
    unfolding covered_def price keep(3,4) pay
    using paid(3) old gain [OF dir] fee out pool_gain_trans [of a_to_b L p0 "unat ?p" "unat ?q"]
      pool_gain_trans [of "\<not> a_to_b" L p0 "unat ?p" "unat ?q"]
    by linarith
qed

text \<open>The whole swap.\<close>

lemma covered_finish:
  assumes cov: "covered L f p0 a_to_b inp amount st" and u: "u = swap_finish amount inp a_to_b infos st"
  shows "pool_gain a_to_b L p0 (unat (ps_next_sqrt_price u)) + real (unat (ps_next_protocol_fee u)) + f
      \<le> real (unat (if a_to_b then ps_amount_a u else ps_amount_b u))"
    "real (unat (if a_to_b then ps_amount_b u else ps_amount_a u))
      \<le> - pool_gain (\<not> a_to_b) L p0 (unat (ps_next_sqrt_price u))"
proof -
  have am: "(if a_to_b then ps_amount_a u else ps_amount_b u) = (if inp then amount - sw_amount_remaining st else sw_amount_calculated st)"
    "(if a_to_b then ps_amount_b u else ps_amount_a u) = (if inp then sw_amount_calculated st else amount - sw_amount_remaining st)"
    by (simp_all add: u swap_finish_def case_prod_beta)
  have "sw_amount_remaining st \<le> amount" using cov by (simp add: covered_def)
  then have "unat (amount - sw_amount_remaining st) = unat amount - unat (sw_amount_remaining st)" by (rule unat_sub)
  then have nat: "unat (if a_to_b then ps_amount_a u else ps_amount_b u) = paid inp amount st"
    "unat (if a_to_b then ps_amount_b u else ps_amount_a u) = received inp amount st"
    unfolding am by (simp_all add: paid_def received_def)
  have fin: "ps_next_sqrt_price u = sw_sqrt_price st" "ps_next_protocol_fee u = sw_protocol_fee st"
    by (simp_all add: u swap_finish_def case_prod_beta)
  show "pool_gain a_to_b L p0 (unat (ps_next_sqrt_price u)) + real (unat (ps_next_protocol_fee u)) + f
      \<le> real (unat (if a_to_b then ps_amount_a u else ps_amount_b u))"
    "real (unat (if a_to_b then ps_amount_b u else ps_amount_a u))
      \<le> - pool_gain (\<not> a_to_b) L p0 (unat (ps_next_sqrt_price u))"
    using cov unfolding nat fin covered_def by blast+
qed

lemma covered_start:
  "covered L 0 (unat (wp_sqrt_price w)) a_to_b inp amount (swap_start w arrays amount a_to_b)"
  unfolding covered_def paid_def received_def swap_start_def by (simp add: pool_gain_def)

lemma swap_start_fields:
  "sw_tick_index (swap_start w arrays amount a_to_b) = wp_tick_current_index w"
  "sw_liquidity (swap_start w arrays amount a_to_b) = wp_liquidity w"
  "sw_sequence (swap_start w arrays amount a_to_b) = arrays"
  by (simp_all add: swap_start_def)

lemma swap_covered:
  assumes ok: "pool_ok w" "sequence_ok (wp_tick_spacing w) arrays" and rate: "wp_protocol_fee_rate w \<le> MAX_PROTOCOL_FEE_RATE"
    and r: "swap w arrays amount limit inp a_to_b ts = Some (Inr (u, arrays'))"
    and p: "profile L (wp_tick_spacing w) arrays" "uint (wp_liquidity w) = L (wp_tick_current_index w)"
  shows "pool_gain a_to_b L (unat (wp_sqrt_price w)) (unat (ps_next_sqrt_price u)) + real (unat (ps_next_protocol_fee u))
      \<le> real (unat (if a_to_b then ps_amount_a u else ps_amount_b u))"
    "real (unat (if a_to_b then ps_amount_b u else ps_amount_a u))
      \<le> - pool_gain (\<not> a_to_b) L (unat (wp_sqrt_price w)) (unat (ps_next_sqrt_price u))"
proof -
  let ?p0 = "unat (wp_sqrt_price w)" and ?s = "wp_tick_spacing w"
  obtain infos st where c: "swap_checks w amount limit a_to_b ts = Inr infos"
    and l: "swap_loop w limit inp a_to_b infos (swap_start w arrays amount a_to_b) = Some (Inr st)"
    and u: "u = swap_finish amount inp a_to_b infos st"
    by (rule swap_Inr [OF ok r], rule that)
  note i = swap_start_inv [OF ok c]
  let ?I = "\<lambda>st. swap_inv ?s limit a_to_b st \<and> profile L ?s (sw_sequence st) \<and> uint (sw_liquidity st) = L (sw_tick_index st)"
    and ?C = "\<lambda>st. \<exists>f \<ge> 0. covered L f ?p0 a_to_b inp amount st"
  have "?I (swap_start w arrays amount a_to_b) \<and> ?C (swap_start w arrays amount a_to_b)"
    unfolding swap_start_fields using i(1) p covered_start [of L w a_to_b inp amount arrays] by blast
  then have "?I st \<and> ?C st"
  proof (rule swap_loop_keeps [OF l, where P = "\<lambda>st. ?I st \<and> ?C st"])
    fix s s' assume run: "swap_running limit s" and step: "swap_step w limit inp a_to_b infos s = Inr s'" and P: "?I s \<and> ?C s"
    then obtain f where f: "0 \<le> f" "covered L f ?p0 a_to_b inp amount s" by blast
    have I: "swap_inv ?s limit a_to_b s" "profile L ?s (sw_sequence s)" "uint (sw_liquidity s) = L (sw_tick_index s)"
      using P by blast+
    have "0 \<le> f + promised d l" for d l using f(1) promised_nonneg [of d l] by linarith
    then show "?I s' \<and> ?C s'"
      using swap_step_inv(1) [OF I(1) run i(2) step] swap_step_profile [OF I(1) run i(2) step I(2,3)]
        swap_step_covered [OF I(1) run i(2) step I(2,3) rate f(2)] by blast
  qed simp
  then obtain f where f: "0 \<le> f" "covered L f ?p0 a_to_b inp amount st" by blast
  note fin = covered_finish [OF f(2) u]
  show "pool_gain a_to_b L ?p0 (unat (ps_next_sqrt_price u)) + real (unat (ps_next_protocol_fee u))
      \<le> real (unat (if a_to_b then ps_amount_a u else ps_amount_b u))"
    using fin(1) f(1) by linarith
  show "real (unat (if a_to_b then ps_amount_b u else ps_amount_a u))
      \<le> - pool_gain (\<not> a_to_b) L ?p0 (unat (ps_next_sqrt_price u))" by (rule fin(2))
qed

end
