(* ===== verification/Liquidity_Payout.thy ===== *)
theory Liquidity_Payout
  imports Liquidity_Account Pool_Worth
begin

text \<open>
  A swap and the positions of its pool.  What all positions together are worth changes by the
  potential of the pool's liquidity, so that the program's own amounts compare: what the positions
  could take out after the swap, and what the trader has received, is no more than what they would
  have had to put in before and what the trader has paid.
\<close>

section \<open>What a position is worth\<close>

definition position_worth :: "bool \<Rightarrow> nat \<Rightarrow> Position \<Rightarrow> real" where
  "position_worth a price p =
     (let pl = price_val (pos_tick_lower_index p); ph = price_val (pos_tick_upper_index p) in
      real (unat (pos_liquidity p)) * (token_measure a (clamp pl ph price) - token_measure a (if a then ph else pl)))"

definition side :: "bool \<Rightarrow> 'a \<times> 'a \<Rightarrow> 'a" where
  "side a = (if a then fst else snd)"

text \<open>The amounts of the program are this worth, rounded up or down.\<close>

lemma position_amounts_worth:
  assumes r: "tick_in_range (pos_tick_lower_index p)" "tick_in_range (pos_tick_upper_index p)"
      "pos_tick_lower_index p < pos_tick_upper_index p"
    and cur: "tick_price_ok cur price" and price: "price_in_range price"
  shows "real (side a (position_amounts False cur (unat price) p (unat (pos_liquidity p)))) \<le> position_worth a (unat price) p"
    "position_worth a (unat price) p \<le> real (side a (position_amounts True cur (unat price) p (unat (pos_liquidity p))))"
proof -
  let ?l = "pos_tick_lower_index p" and ?u = "pos_tick_upper_index p" and ?P = "unat price" and ?n = "unat (pos_liquidity p)"
  let ?pl = "price_val ?l" and ?ph = "price_val ?u"
  have lt: "?pl < ?ph" using price_val_less_iff [OF r(1,2)] r(3) by simp
  have pos: "0 < ?pl" "0 < ?ph" "0 < ?P"
    using price_val_le_iff [of MIN_TICK_INDEX ?l] r(1) price_val_ends(1) lt price_positive [OF price]
    by (auto simp: tick_in_range_def MIN_SQRT_PRICE_X64_def MIN_TICK_INDEX_def MAX_TICK_INDEX_def)
  have tp: "MIN_TICK_INDEX - 1 \<le> cur" "cur \<le> MAX_TICK_INDEX" "MIN_TICK_INDEX \<le> cur \<Longrightarrow> price_val cur \<le> ?P"
    "cur < MAX_TICK_INDEX \<Longrightarrow> ?P \<le> price_val (cur + 1)" using cur by (auto simp: tick_price_ok_def)
  have below: "?P \<le> price_val y" if "cur < y" "tick_in_range y" for y
    using tp(1,4) that price_val_le_iff [of "cur + 1" y] by (fastforce simp: tick_in_range_def)
  have above: "price_val y \<le> ?P" if "y \<le> cur" "tick_in_range y" for y
    using tp(2,3) that price_val_le_iff [of y cur] by (fastforce simp: tick_in_range_def)
  have m: "measured True x y n = real n * (token_measure True x - token_measure True y)"
    "measured False x y n = real n * (token_measure False y - token_measure False x)" if "0 < x" "x \<le> y" for x y n
    using token_measure_mono [of x y] token_measure_mono [of y x] that by (simp_all add: measured_def)
  note am = amounts_measured
  consider "cur < ?l" | "?l \<le> cur" "cur < ?u" | "?u \<le> cur" by linarith
  then have "real (side a (position_amounts False cur ?P p ?n)) \<le> position_worth a ?P p
    \<and> position_worth a ?P p \<le> real (side a (position_amounts True cur ?P p ?n))"
  proof cases
    case 1
    then have "clamp ?pl ?ph ?P = ?pl" using below r(1) by (simp add: clamp_simps)
    then show ?thesis
      using 1 am(1,2) [OF pos(1,2)] m [OF pos(1) less_imp_le [OF lt]]
      by (cases a) (simp_all del: of_nat_unat add: side_def position_amounts_def position_worth_def Let_def)
  next
    case 2
    then have b: "?pl \<le> ?P" "?P \<le> ?ph" using above [of ?l] below [of ?u] r by simp_all
    then have "clamp ?pl ?ph ?P = ?P" by (simp add: clamp_simps)
    then show ?thesis
      using 2 am(1,2) [OF pos(3,2)] am(3,4) [OF pos(1,3)] m(1) [OF pos(3) b(2)] m(2) [OF pos(1) b(1)]
      by (cases a) (simp_all del: of_nat_unat add: side_def position_amounts_def position_worth_def Let_def)
  next
    case 3
    then have "clamp ?pl ?ph ?P = ?ph" using above [of ?u] r lt by (simp add: clamp_simps)
    then show ?thesis
      using 3 r(3) am(3,4) [OF pos(1,2)] m [OF pos(1) less_imp_le [OF lt]]
      by (cases a) (simp_all del: of_nat_unat add: side_def position_amounts_def position_worth_def Let_def)
  qed
  then show "real (side a (position_amounts False cur ?P p ?n)) \<le> position_worth a ?P p"
    "position_worth a ?P p \<le> real (side a (position_amounts True cur ?P p ?n))" by blast+
qed

section \<open>What all positions are worth\<close>

lemma gain_total:
  "gain f (\<lambda>t. total (g t) m) x y = total (\<lambda>p. gain f (\<lambda>t. g t p) x y) m"
proof -
  have "gain f (\<lambda>t. total (g t) m) x y
      = (\<Sum>t \<in> all_ticks. \<Sum>q \<in> UNIV. (case m q of None \<Rightarrow> 0 | Some p \<Rightarrow> of_int (g t p) * (f (tick_clamp t y) - f (tick_clamp t x))))"
    unfolding gain_def total_def of_int_sum sum_distrib_right by (intro sum.cong refl) (simp split: option.splits)
  also have "\<dots> = (\<Sum>q \<in> UNIV. \<Sum>t \<in> all_ticks. (case m q of None \<Rightarrow> 0 | Some p \<Rightarrow> of_int (g t p) * (f (tick_clamp t y) - f (tick_clamp t x))))"
    by (rule sum.swap)
  also have "\<dots> = total (\<lambda>p. gain f (\<lambda>t. g t p) x y) m"
    unfolding gain_def total_def by (rule sum.cong) (auto split: option.splits)
  finally show ?thesis .
qed

lemma position_gain:
  assumes r: "tick_in_range (pos_tick_lower_index p)" "tick_in_range (pos_tick_upper_index p)"
      "pos_tick_lower_index p < pos_tick_upper_index p"
  shows "gain (token_measure a) (\<lambda>t. active_share k t p) x y
    = (if pos_whirlpool p = k then position_worth a y p - position_worth a x p else 0)"
proof (cases "pos_whirlpool p = k")
  case False
  then show ?thesis by (simp add: gain_def active_share_def)
next
  case True
  let ?l = "pos_tick_lower_index p" and ?u = "pos_tick_upper_index p" and ?m = "token_measure a"
  have "gain ?m (\<lambda>t. active_share k t p) x y
      = (\<Sum>t \<in> {?l..<?u}. of_int (uint (pos_liquidity p)) * (?m (tick_clamp t y) - ?m (tick_clamp t x)))"
    unfolding gain_def
    by (rule sum.mono_neutral_cong_right) (use r True in \<open>auto simp: all_ticks_def tick_in_range_def active_share_def\<close>)
  also have "\<dots> = real (unat (pos_liquidity p)) * (?m (clamp (price_val ?l) (price_val ?u) y) - ?m (clamp (price_val ?l) (price_val ?u) x))"
    using tick_intervals [of ?l ?u ?m y x] r by (simp add: sum_distrib_left [symmetric] tick_in_range_def)
  finally show ?thesis using True by (simp add: position_worth_def Let_def algebra_simps)
qed

text \<open>What the program would pay out for all positions of a pool, or charge for them, at its price.\<close>

definition claim :: "bool \<Rightarrow> bool \<Rightarrow> pubkey \<Rightarrow> Whirlpool \<Rightarrow> Position \<Rightarrow> int" where
  "claim up a k w p = (if pos_whirlpool p = k
     then int (side a (position_amounts up (wp_tick_current_index w) (unat (wp_sqrt_price w)) p (unat (pos_liquidity p))))
     else 0)"

definition claims :: "bool \<Rightarrow> bool \<Rightarrow> pubkey \<Rightarrow> Whirlpool \<Rightarrow> positions \<Rightarrow> int" where
  "claims up a k w positions = total (claim up a k w) positions"

text \<open>
  These are the amounts of the code: what \<open>calculate_liquidity_token_deltas\<close> gives for the whole
  liquidity of a position, added or taken out, whenever it returns.
\<close>

lemma claim_computed:
  assumes "tick_in_range (pos_tick_lower_index p)" "tick_in_range (pos_tick_upper_index p)"
    and "uint (pos_liquidity p) < 2 ^ 127"
    and "calculate_liquidity_token_deltas (wp_tick_current_index w) (wp_sqrt_price w) p
       (if up then uint (pos_liquidity p) else - uint (pos_liquidity p)) = Inr (x, y)"
  shows "claim up True (pos_whirlpool p) w p = uint x" "claim up False (pos_whirlpool p) w p = uint y"
proof -
  let ?d = "if up then uint (pos_liquidity p) else - uint (pos_liquidity p)"
  have in_range: "in_i128 (if up then m else - m)" if "0 \<le> m" "m < 2 ^ 127" for m
    using that by (simp add: in_i128_def)
  have sign: "(0 < (if up then m else - m)) = up" "nat \<bar>if up then m else - m\<bar> = nat m"
    if "0 \<le> m" "(if up then m else - m) \<noteq> 0" for m :: int
    using that by (auto split: if_splits)
  have l: "0 \<le> uint (pos_liquidity p)" by simp
  note d = liquidity_token_deltas_Inr [OF assms(1,2) in_range [OF l assms(3)] assms(4)]
  have "(0 < ?d) = up" "nat \<bar>?d\<bar> = unat (pos_liquidity p)"
    using sign [OF l d(1)] unfolding unat_eq_nat_uint by (simp_all only:)
  then have "position_amounts up (wp_tick_current_index w) (unat (wp_sqrt_price w)) p (unat (pos_liquidity p))
      = (unat x, unat y)"
    using d(2) by (simp only:)
  then show "claim up True (pos_whirlpool p) w p = uint x" "claim up False (pos_whirlpool p) w p = uint y"
    unfolding claim_def side_def by (simp_all only: if_True if_False refl fst_conv snd_conv uint_nat)
qed

lemma claims_gain:
  assumes pos: "\<And>q p. positions q = Some p \<Longrightarrow> pos_whirlpool p = k \<Longrightarrow> tick_in_range (pos_tick_lower_index p)
      \<and> tick_in_range (pos_tick_upper_index p) \<and> pos_tick_lower_index p < pos_tick_upper_index p"
    and w: "pool_ok w" "pool_ok w'"
  shows "real_of_int (claims False a k w' positions)
    \<le> real_of_int (claims True a k w positions) + pool_gain a (active positions k) (unat (wp_sqrt_price w)) (unat (wp_sqrt_price w'))"
proof -
  let ?x = "unat (wp_sqrt_price w)" and ?y = "unat (wp_sqrt_price w')"
  let ?g = "\<lambda>p. gain (token_measure a) (\<lambda>t. active_share k t p) ?x ?y"
  have "real_of_int (claim False a k w' p) - real_of_int (claim True a k w p) \<le> ?g p" if q: "positions q = Some p" for q p
  proof (cases "pos_whirlpool p = k")
    case True
    then have r: "tick_in_range (pos_tick_lower_index p)" "tick_in_range (pos_tick_upper_index p)"
      "pos_tick_lower_index p < pos_tick_upper_index p" using pos [OF q] by simp_all
    show ?thesis
      using position_amounts_worth(1) [OF r, of "wp_tick_current_index w'" "wp_sqrt_price w'" a]
        position_amounts_worth(2) [OF r, of "wp_tick_current_index w" "wp_sqrt_price w" a] w True
      unfolding position_gain [OF r] claim_def by (simp add: pool_ok_def)
  next
    case False
    then show ?thesis by (simp add: claim_def gain_def active_share_def)
  qed
  then have "total (\<lambda>p. real_of_int (claim False a k w' p) - real_of_int (claim True a k w p)) positions \<le> total ?g positions"
    by (rule total_mono)
  then show ?thesis
    unfolding claims_def total_real pool_gain_def active_def gain_total total_diff [symmetric] by simp
qed

section \<open>A swap leaves the positions payable\<close>

lemma swap_claims:
  assumes acc: "accounted rt lg" and ok: "ledger_ok lg" and neg: "nets_negatable (lg_positions lg)"
    and w: "lg_pools lg k = Some w" and arr: "arrays_of (lg_arrays lg) keys = Inr arrays" and keys: "keys \<noteq> []"
    and own: "\<forall>ta \<in> set arrays. ta_whirlpool ta = k"
    and r: "swap w arrays amount limit inp a_to_b ts = Some (Inr (u, arrays'))"
    and w': "wp_sqrt_price w' = ps_next_sqrt_price u" "wp_tick_current_index w' = ps_next_tick_index u"
  shows "claims False a_to_b k w' (lg_positions lg) + uint (ps_next_protocol_fee u)
      \<le> claims True a_to_b k w (lg_positions lg) + uint (swap_input a_to_b u)"
    "claims False (\<not> a_to_b) k w' (lg_positions lg) + uint (swap_output a_to_b u)
      \<le> claims True (\<not> a_to_b) k w (lg_positions lg)"
proof -
  let ?ps = "lg_positions lg"
  have wok: "pool_ok w" "whirlpool_ok w" using ok w by (auto simp: ledger_ok_def pools_ok_def)
  have sq: "sequence_ok (wp_tick_spacing w) arrays" by (rule ledger_sequence_ok [OF ok w arr keys own])
  have w'ok: "pool_ok w'" using swap_respects_limits(2,5) [OF wok(1) sq r] by (simp add: pool_ok_def w')
  have rate: "wp_protocol_fee_rate w \<le> MAX_PROTOCOL_FEE_RATE" using wok(2) by (simp add: whirlpool_ok_def)
  have prof: "profile (active ?ps k) (wp_tick_spacing w) arrays" by (rule accounted_profile [OF acc ok neg w arr own])
  have liq: "uint (wp_liquidity w) = active ?ps k (wp_tick_current_index w)"
    using acc w by (simp add: accounted_def pools_accounted_def)
  note cov = swap_covered [OF wok(1) sq rate r prof liq]
  have pos: "tick_in_range (pos_tick_lower_index p) \<and> tick_in_range (pos_tick_upper_index p)
      \<and> pos_tick_lower_index p < pos_tick_upper_index p" if "?ps q = Some p" for q p
  proof -
    have "tied (lg_pools lg) (pos_whirlpool p) (\<lambda>s. position_ok s p)"
      using ok that by (auto simp: ledger_ok_def positions_ok_def)
    then show ?thesis by (auto simp: tied_def position_ok_def usable_tick_def split: option.splits)
  qed
  have gain: "real_of_int (claims False a k w' ?ps)
      \<le> real_of_int (claims True a k w ?ps) + pool_gain a (active ?ps k) (unat (wp_sqrt_price w)) (unat (ps_next_sqrt_price u))" for a
    using claims_gain [OF _ wok(1) w'ok, of ?ps k a] pos by (simp add: w'(1))
  have word: "real (unat x) = real_of_int (uint x)" for x :: u64 by simp
  have "real_of_int (claims False a_to_b k w' ?ps) + real_of_int (uint (ps_next_protocol_fee u))
      \<le> real_of_int (claims True a_to_b k w ?ps) + real_of_int (uint (swap_input a_to_b u))"
    using gain [of a_to_b] cov(1) unfolding word swap_input_def by linarith
  then show "claims False a_to_b k w' ?ps + uint (ps_next_protocol_fee u)
      \<le> claims True a_to_b k w ?ps + uint (swap_input a_to_b u)"
    unfolding of_int_add [symmetric] of_int_le_iff .
  have "real_of_int (claims False (\<not> a_to_b) k w' ?ps) + real_of_int (uint (swap_output a_to_b u))
      \<le> real_of_int (claims True (\<not> a_to_b) k w ?ps)"
    using gain [of "\<not> a_to_b"] cov(2) unfolding word swap_output_def by linarith
  then show "claims False (\<not> a_to_b) k w' ?ps + uint (swap_output a_to_b u) \<le> claims True (\<not> a_to_b) k w ?ps"
    unfolding of_int_add [symmetric] of_int_le_iff .
qed

text \<open>What a pool owes the protocol, and what a swap makes of it.\<close>

definition protocol_owed :: "bool \<Rightarrow> Whirlpool \<Rightarrow> u64" where
  "protocol_owed a w = (if a then wp_protocol_fee_owed_a w else wp_protocol_fee_owed_b w)"

lemma after_swap_owed:
  assumes "w' = update_after_swap w l t pr g infos f a_to_b ts"
  shows "protocol_owed a_to_b w' = protocol_owed a_to_b w + f" "protocol_owed (\<not> a_to_b) w' = protocol_owed (\<not> a_to_b) w"
  by (simp_all add: assms update_after_swap_def Let_def protocol_owed_def)

text \<open>
  The same of the instruction: the swap that it computes, what it makes of the pool and what it
  transfers.
\<close>

lemma swap_instruction_claims:
  assumes acc: "accounted rt lg" and ok: "ledger_ok lg" and neg: "nets_negatable (lg_positions lg)"
    and r: "swap_instruction rt tx sa amount other limit inp a_to_b lg = Some (Inr lg')"
  shows "\<exists>w w' u keys arrays arrays' tokens. lg_pools lg (sa_whirlpool sa) = Some w
    \<and> lg_pools lg' (sa_whirlpool sa) = Some w' \<and> lg_positions lg' = lg_positions lg
    \<and> borrow_sequence [] (sa_tick_array_0 sa) (sa_tick_array_1 sa) (sa_tick_array_2 sa) = Inr keys
    \<and> arrays_of (lg_arrays lg) keys = Inr arrays
    \<and> swap w arrays amount limit inp a_to_b (clock tx) = Some (Inr (u, arrays'))
    \<and> wp_sqrt_price w' = ps_next_sqrt_price u \<and> wp_tick_current_index w' = ps_next_tick_index u
    \<and> protocol_owed a_to_b w' = protocol_owed a_to_b w + ps_next_protocol_fee u
    \<and> protocol_owed (\<not> a_to_b) w' = protocol_owed (\<not> a_to_b) w
    \<and> rt_transfer rt (lg_tokens lg)
         (if a_to_b then sa_token_owner_account_a sa else sa_token_owner_account_b sa)
         (if a_to_b then wp_token_vault_a w else wp_token_vault_b w)
         (sa_token_authority sa) (swap_input a_to_b u) = Inr tokens
    \<and> rt_transfer rt tokens
         (if a_to_b then wp_token_vault_b w else wp_token_vault_a w)
         (if a_to_b then sa_token_owner_account_b sa else sa_token_owner_account_a sa)
         (sa_whirlpool sa) (swap_output a_to_b u) = Inr (lg_tokens lg')
    \<and> claims False a_to_b (sa_whirlpool sa) w' (lg_positions lg) + uint (ps_next_protocol_fee u)
        \<le> claims True a_to_b (sa_whirlpool sa) w (lg_positions lg) + uint (swap_input a_to_b u)
    \<and> claims False (\<not> a_to_b) (sa_whirlpool sa) w' (lg_positions lg) + uint (swap_output a_to_b u)
        \<le> claims True (\<not> a_to_b) (sa_whirlpool sa) w (lg_positions lg)"
proof (rule swap_instruction_Inr [OF r])
  fix w :: Whirlpool and keys arrays and u :: PostSwapUpdate and arrays' tokens
  let ?w' = "update_after_swap w (ps_next_liquidity u) (ps_next_tick_index u) (ps_next_sqrt_price u)
    (ps_next_fee_growth_global u) (ps_next_reward_infos u) (ps_next_protocol_fee u) a_to_b (clock tx)"
  assume w: "swap_accounts rt tx sa lg = Inr w"
    and keys: "borrow_sequence [] (sa_tick_array_0 sa) (sa_tick_array_1 sa) (sa_tick_array_2 sa) = Inr keys"
    and arr: "arrays_of (lg_arrays lg) keys = Inr arrays"
    and s: "swap w arrays amount limit inp a_to_b (clock tx) = Some (Inr (u, arrays'))"
    and t: "update_and_swap_whirlpool rt (sa_whirlpool sa, w) (sa_token_authority sa)
       (sa_token_owner_account_a sa) (sa_token_owner_account_b sa) (sa_token_vault_a sa)
       (sa_token_vault_b sa) u a_to_b (clock tx) (lg_tokens lg) = Inr (?w', tokens)"
    and lg': "lg' = lg\<lparr>lg_pools := (lg_pools lg)(sa_whirlpool sa \<mapsto> ?w'),
       lg_arrays := store_arrays (lg_arrays lg) keys arrays', lg_tokens := tokens\<rparr>"
  note a = swap_accounts_Inr [OF w] and v = swap_vaults [OF w]
  note b = borrowed_arrays [OF keys arr a(2)]
  have w': "wp_sqrt_price ?w' = ps_next_sqrt_price u" "wp_tick_current_index ?w' = ps_next_tick_index u"
    by (simp_all add: update_after_swap_def Let_def)
  note claims = swap_claims [OF acc ok neg a(1) arr b(1,3) s w']
  obtain tokens1 where tokens:
    "rt_transfer rt (lg_tokens lg) (if a_to_b then sa_token_owner_account_a sa else sa_token_owner_account_b sa)
       (if a_to_b then wp_token_vault_a w else wp_token_vault_b w) (sa_token_authority sa) (swap_input a_to_b u) = Inr tokens1"
    "rt_transfer rt tokens1 (if a_to_b then wp_token_vault_b w else wp_token_vault_a w)
       (if a_to_b then sa_token_owner_account_b sa else sa_token_owner_account_a sa) (sa_whirlpool sa)
       (swap_output a_to_b u) = Inr tokens"
    by (rule update_and_swap_transfers [OF t [unfolded v(2,3)]])
  have lg'f: "lg_pools lg' (sa_whirlpool sa) = Some ?w'" "lg_positions lg' = lg_positions lg" "lg_tokens lg' = tokens"
    by (simp_all add: lg')
  show ?thesis
  proof (intro exI conjI)
    show "claims False (\<not> a_to_b) (sa_whirlpool sa) ?w' (lg_positions lg) + uint (swap_output a_to_b u)
      \<le> claims True (\<not> a_to_b) (sa_whirlpool sa) w (lg_positions lg)" by (rule claims(2))
  qed (rule a(1) lg'f(1,2) keys arr s w' after_swap_owed [OF refl]
      tokens(1) tokens(2) [folded lg'f(3)] claims(1))+
qed

end
