(* ===== verification/Fee_Growth.thy ===== *)
theory Fee_Growth
  imports Pool_Worth
begin

text \<open>
  The growth of the fees as a function of the tick: what has grown while the price was below a tick.
  An initialized tick stores this, or what is left to the global growth, on the side away from the
  current tick.  A swap adds to the growth at the ticks it trades at and flips the ticks it crosses,
  so that what its ticks store still agrees with the function, and the fees so promised to all
  ranges are covered by what the trader paid.
\<close>

section \<open>What the ticks store\<close>

abbreviation tick_in :: "u16 \<Rightarrow> TickArray \<Rightarrow> i32 \<Rightarrow> Tick" where
  "tick_in s ta y \<equiv> ta_ticks ta ! slot s ta y"

definition fee_outside :: "bool \<Rightarrow> Tick \<Rightarrow> u128" where
  "fee_outside a t = (if a then tk_fee_growth_outside_a t else tk_fee_growth_outside_b t)"

definition stored :: "(i32 \<Rightarrow> u128) \<Rightarrow> u128 \<Rightarrow> i32 \<Rightarrow> i32 \<Rightarrow> u128" where
  "stored B g cur y = (if y \<le> cur then B y else g - B y)"

definition recorded :: "u16 \<Rightarrow> bool \<Rightarrow> (i32 \<Rightarrow> u128) \<Rightarrow> u128 \<Rightarrow> i32 \<Rightarrow> TickArray \<Rightarrow> bool" where
  "recorded s a B g cur ta \<longleftrightarrow> (\<forall>y. holds_tick s ta y \<longrightarrow> tk_initialized (tick_in s ta y) \<longrightarrow>
     fee_outside a (tick_in s ta y) = stored B g cur y)"

text \<open>Growth at the current tick.\<close>

lemma stored_grows: "stored (\<lambda>y. B y + (if cur < y then d else 0)) (g + d) cur y = stored B g cur y"
  by (simp add: stored_def)

lemma recorded_grows:
  assumes "recorded s a B g cur ta"
  shows "recorded s a (\<lambda>y. B y + (if cur < y then d else 0)) (g + d) cur ta"
  using assms by (simp add: recorded_def stored_grows)

text \<open>Two current ticks with no initialized tick between them.\<close>

definition undivided :: "u16 \<Rightarrow> i32 \<Rightarrow> i32 \<Rightarrow> TickArray \<Rightarrow> bool" where
  "undivided s cur cur' ta \<longleftrightarrow> (\<forall>y. holds_tick s ta y \<longrightarrow> tk_initialized (tick_in s ta y) \<longrightarrow> (y \<le> cur \<longleftrightarrow> y \<le> cur'))"

lemma recorded_moves:
  assumes "recorded s a B g cur ta" "undivided s cur cur' ta"
  shows "recorded s a B g cur' ta"
  using assms by (auto simp: recorded_def undivided_def stored_def)

text \<open>Crossing a tick.\<close>

lemma recorded_crosses:
  assumes tok: "tick_array_ok s ta" and rec: "recorded s a B g cur ta" and u: "update_tick ta x s u = Inr ta'"
    and init: "tk_initialized (tick_in s ta x)"
    and flip: "fee_outside a (tick_update default_tick u) = g - fee_outside a (tick_in s ta x)" "x \<le> cur \<longleftrightarrow> \<not> x \<le> cur'"
    and rest: "\<And>y. holds_tick s ta y \<Longrightarrow> tk_initialized (tick_in s ta y) \<Longrightarrow> y \<noteq> x \<Longrightarrow> y \<le> cur \<longleftrightarrow> y \<le> cur'"
  shows "recorded s a B g cur' ta'"
  unfolding recorded_def
proof (intro allI impI)
  fix y assume y': "holds_tick s ta' y" "tk_initialized (tick_in s ta' y)"
  have hx: "holds_tick s ta x"
    and ta': "ta' = ta\<lparr>ta_ticks := (ta_ticks ta)[slot s ta x := tick_update default_tick u]\<rparr>"
    using u by (auto simp: update_tick_eq [OF tok] split: if_splits)
  have len: "slot s ta x < length (ta_ticks ta)" using slot_bounds(2) [OF tok hx] tick_array_okD(3) [OF tok] by simp
  have y: "holds_tick s ta y" and sl: "slot s ta' y = slot s ta y"
    using y'(1) unfolding ta' by (simp_all add: update_tick_holds)
  show "fee_outside a (tick_in s ta' y) = stored B g cur' y"
  proof (cases "y = x")
    case True
    have "tick_in s ta' x = tick_update default_tick u" using sl len unfolding True ta' by simp
    moreover have "fee_outside a (tick_in s ta x) = stored B g cur x" using rec hx init by (simp add: recorded_def)
    ultimately show ?thesis using True flip by (simp add: stored_def)
  next
    case False
    then have "slot s ta y \<noteq> slot s ta x" using slot_inj [OF tok y hx] by blast
    then have same: "tick_in s ta' y = tick_in s ta y" using sl unfolding ta' by simp
    then show ?thesis
      using rec rest [OF y _ False] y y'(2) unfolding same by (auto simp: recorded_def stored_def)
  qed
qed

section \<open>Tick arrays that do not overlap\<close>

definition apart :: "u16 \<Rightarrow> SwapTickSequence \<Rightarrow> bool" where
  "apart s arrays \<longleftrightarrow> (\<forall>i < length arrays. \<forall>j < length arrays. \<forall>y.
     holds_tick s (arrays ! i) y \<longrightarrow> holds_tick s (arrays ! j) y \<longrightarrow> i = j)"

lemma apart_update:
  assumes "apart s arrays" "j < length arrays" "\<And>y. holds_tick s ta' y \<longleftrightarrow> holds_tick s (arrays ! j) y"
  shows "apart s (arrays[j := ta'])"
proof -
  have "holds_tick s (arrays[j := ta'] ! i) y \<longleftrightarrow> holds_tick s (arrays ! i) y" if "i < length arrays" for i y
    using that assms(2,3) by (cases "i = j") simp_all
  then show ?thesis using assms(1) by (simp add: apart_def)
qed

text \<open>A tick that the arrays hold, but none as initialized, or that no array could hold.\<close>

definition at_rest :: "u16 \<Rightarrow> SwapTickSequence \<Rightarrow> i32 \<Rightarrow> bool" where
  "at_rest s arrays y \<longleftrightarrow> (\<forall>ta \<in> set arrays. holds_tick s ta y \<longrightarrow> \<not> tk_initialized (tick_in s ta y))
     \<and> (tick_in_range y \<and> uint s dvd y \<longrightarrow> (\<exists>ta \<in> set arrays. holds_tick s ta y))"

lemma quiet_at_rest:
  assumes ok: "sequence_ok s arrays" and ap: "apart s arrays" and ta: "ta \<in> set arrays"
  shows "quiet (at_rest s arrays) s ta"
  unfolding quiet_def
proof (intro allI conjI impI)
  fix y
  show "at_rest s arrays y" if "\<not> (tick_in_range y \<and> uint s dvd y)"
    using that by (auto simp: at_rest_def holds_tick_def)
  assume y: "ta_start_tick_index ta \<le> y" "y < ta_start_tick_index ta + ticks_in_array s" "\<not> initialized_at s ta y"
  show "at_rest s arrays y"
    unfolding at_rest_def
  proof (intro conjI ballI impI)
    fix tb assume tb: "tb \<in> set arrays" "holds_tick s tb y"
    then have h: "holds_tick s ta y" using y(1,2) by (simp add: holds_tick_def)
    obtain i j where "i < length arrays" "arrays ! i = ta" "j < length arrays" "arrays ! j = tb"
      using ta tb(1) by (auto simp: in_set_conv_nth)
    then have "tb = ta" using ap h tb(2) by (auto simp: apart_def)
    then show "\<not> tk_initialized (tick_in s tb y)"
      using y(3) h initialized_at_slot [of s ta y] ok ta by (simp add: sequence_ok_def)
  next
    assume "tick_in_range y \<and> uint s dvd y"
    then show "\<exists>ta \<in> set arrays. holds_tick s ta y" using ta y(1,2) by (auto simp: holds_tick_def)
  qed
qed

text \<open>All ticks between two current ticks are held by the arrays.\<close>

definition between :: "i32 \<Rightarrow> i32 \<Rightarrow> i32 \<Rightarrow> bool" where
  "between a b y \<longleftrightarrow> min a b < y \<and> y \<le> max a b"

definition spanned :: "u16 \<Rightarrow> SwapTickSequence \<Rightarrow> i32 \<Rightarrow> i32 \<Rightarrow> bool" where
  "spanned s arrays a b \<longleftrightarrow> (\<forall>y. between a b y \<longrightarrow> tick_in_range y \<longrightarrow> uint s dvd y \<longrightarrow> (\<exists>ta \<in> set arrays. holds_tick s ta y))"

lemma spanned_refl [simp]: "spanned s arrays a a"
  by (auto simp: spanned_def between_def)

lemma between_split: "between a c y \<Longrightarrow> between a b y \<or> between b c y"
  by (auto simp: between_def min_def max_def split: if_splits)

lemma spanned_trans: "spanned s arrays a b \<Longrightarrow> spanned s arrays b c \<Longrightarrow> spanned s arrays a c"
  unfolding spanned_def using between_split by blast

lemma calm_moves:
  assumes "calm (at_rest s arrays) a b" "a \<le> b"
  shows "ta \<in> set arrays \<Longrightarrow> undivided s a b ta" "ta \<in> set arrays \<Longrightarrow> undivided s b a ta"
    "spanned s arrays a b" "spanned s arrays b a"
  using assms by (auto simp: calm_def at_rest_def undivided_def spanned_def between_def) (metis not_le order_trans)+

text \<open>A tick of the pool that the arrays do not hold.\<close>

definition elsewhere :: "u16 \<Rightarrow> SwapTickSequence \<Rightarrow> i32 \<Rightarrow> bool" where
  "elsewhere s arrays y \<longleftrightarrow> tick_in_range y \<and> uint s dvd y \<and> (\<forall>ta \<in> set arrays. \<not> holds_tick s ta y)"

lemma spanned_elsewhere: "spanned s arrays a b \<Longrightarrow> elsewhere s arrays y \<Longrightarrow> y \<le> a \<longleftrightarrow> y \<le> b"
proof -
  assume "spanned s arrays a b" "elsewhere s arrays y"
  then have "\<not> between a b y" unfolding spanned_def elsewhere_def by blast
  then show ?thesis by (auto simp: between_def min_def max_def split: if_splits)
qed

section \<open>A step of the swap\<close>

definition other_growth :: "Whirlpool \<Rightarrow> bool \<Rightarrow> u128" where
  "other_growth w a_to_b = (if a_to_b then wp_fee_growth_global_b w else wp_fee_growth_global_a w)"

definition all_recorded :: "u16 \<Rightarrow> bool \<Rightarrow> (i32 \<Rightarrow> u128) \<Rightarrow> u128 \<Rightarrow> i32 \<Rightarrow> SwapTickSequence \<Rightarrow> bool" where
  "all_recorded s a B g cur arrays \<longleftrightarrow> (\<forall>ta \<in> set arrays. recorded s a B g cur ta)"

lemma all_recorded_moves:
  "all_recorded s a B g cur arrays \<Longrightarrow> (\<And>ta. ta \<in> set arrays \<Longrightarrow> undivided s cur cur' ta) \<Longrightarrow> all_recorded s a B g cur' arrays"
  unfolding all_recorded_def using recorded_moves by blast

definition same_holds :: "u16 \<Rightarrow> SwapTickSequence \<Rightarrow> SwapTickSequence \<Rightarrow> bool" where
  "same_holds s arrays arrays' \<longleftrightarrow> (\<forall>y. (\<exists>ta \<in> set arrays'. holds_tick s ta y) \<longleftrightarrow> (\<exists>ta \<in> set arrays. holds_tick s ta y))"

lemma same_holds_spanned: "same_holds s arrays arrays' \<Longrightarrow> spanned s arrays' a b \<longleftrightarrow> spanned s arrays a b"
  by (simp add: same_holds_def spanned_def)

lemma same_holds_update:
  assumes j: "j < length arrays" and h: "\<And>y. holds_tick s ta' y \<longleftrightarrow> holds_tick s (arrays ! j) y"
  shows "same_holds s arrays (arrays[j := ta'])"
proof -
  have "holds_tick s (arrays[j := ta'] ! i) y \<longleftrightarrow> holds_tick s (arrays ! i) y" if "i < length arrays" for i y
    using that h by (cases "i = j") simp_all
  then have "(\<exists>i < length arrays. holds_tick s (arrays[j := ta'] ! i) y) \<longleftrightarrow> (\<exists>i < length arrays. holds_tick s (arrays ! i) y)" for y
    by blast
  then show ?thesis unfolding same_holds_def by (metis in_set_conv_nth length_list_update)
qed

text \<open>A tick that only one array holds lies between the two current ticks, and no other tick does.\<close>

lemma undivided_but:
  assumes "\<forall>y. y \<noteq> x \<longrightarrow> (y \<le> cur \<longleftrightarrow> y \<le> cur')" "holds_tick s ta x \<Longrightarrow> \<not> tk_initialized (tick_in s ta x)"
  shows "undivided s cur cur' ta"
  using assms unfolding undivided_def by metis

lemma all_recorded_crosses:
  assumes ok: "sequence_ok s arrays" and j: "j < length arrays" and u: "update_tick (arrays ! j) x s u = Inr ta'"
    and only: "\<forall>i < length arrays. holds_tick s (arrays ! i) x \<longrightarrow> i = j"
    and init: "tk_initialized (tick_in s (arrays ! j) x)"
    and old: "all_recorded s a D g cur arrays" and flip: "fee_outside a (tick_update default_tick u) = g - fee_outside a (tick_in s (arrays ! j) x)"
    and side: "x \<le> cur \<longleftrightarrow> \<not> x \<le> cur'" "\<forall>y. y \<noteq> x \<longrightarrow> (y \<le> cur \<longleftrightarrow> y \<le> cur')"
  shows "all_recorded s a D g cur' (arrays[j := ta'])"
  unfolding all_recorded_def
proof
  fix tb assume "tb \<in> set (arrays[j := ta'])"
  then obtain i where i: "i < length arrays" "arrays[j := ta'] ! i = tb" by (auto simp: in_set_conv_nth)
  have rec: "recorded s a D g cur (arrays ! i)" using old i(1) by (simp add: all_recorded_def)
  show "recorded s a D g cur' tb"
  proof (cases "i = j")
    case True
    then have tb: "tb = ta'" using i by simp
    show ?thesis
      unfolding tb by (rule recorded_crosses [OF sequence_ok_nth [OF ok j] rec [unfolded True] u init flip side(1)]) (use side(2) in blast)
  next
    case False
    then have "arrays ! i = tb" using i(2) by simp
    moreover have "\<not> holds_tick s (arrays ! i) x" using only i(1) False by blast
    ultimately show ?thesis using recorded_moves [OF rec undivided_but [OF side(2)]] by blast
  qed
qed

lemma crossed_growth:
  assumes r: "cross_next_tick w a_to_b infos j x st = Inr st'" and ok: "sequence_ok (wp_tick_spacing w) (sw_sequence st)"
    and ap: "apart (wp_tick_spacing w) (sw_sequence st)" and j: "j < length (sw_sequence st)"
    and x: "ta_start_tick_index (sw_sequence st ! j) \<le> x"
      "x < ta_start_tick_index (sw_sequence st ! j) + ticks_in_array (wp_tick_spacing w)" "tick_in_range x"
    and ri: "all_recorded (wp_tick_spacing w) a_to_b B (sw_fee_growth_global_input st) (if a_to_b then x else x - 1) (sw_sequence st)"
    and ro: "all_recorded (wp_tick_spacing w) (\<not> a_to_b) C (other_growth w a_to_b) (if a_to_b then x else x - 1) (sw_sequence st)"
  shows "apart (wp_tick_spacing w) (sw_sequence st') \<and> same_holds (wp_tick_spacing w) (sw_sequence st) (sw_sequence st')
    \<and> all_recorded (wp_tick_spacing w) a_to_b B (sw_fee_growth_global_input st) (sw_tick_index st') (sw_sequence st')
    \<and> all_recorded (wp_tick_spacing w) (\<not> a_to_b) C (other_growth w a_to_b) (sw_tick_index st') (sw_sequence st')
    \<and> sw_tick_index st' = (if a_to_b then x - 1 else x)
    \<and> spanned (wp_tick_spacing w) (sw_sequence st) (if a_to_b then x else x - 1) (sw_tick_index st')"
proof -
  let ?s = "wp_tick_spacing w" and ?arrays = "sw_sequence st" and ?ta = "sw_sequence st ! j" and ?g = "sw_fee_growth_global_input st"
  let ?mid = "if a_to_b then x else x - 1" and ?till = "if a_to_b then x - 1 else x"
  note tok = sequence_ok_nth [OF ok j]
  have x1: "to_i32 (x - 1) = x - 1" using x(3)
    by (simp add: to_i32_id tick_in_range_def MIN_TICK_INDEX_def MAX_TICK_INDEX_def)
  have only: "\<forall>i < length ?arrays. holds_tick ?s (?arrays ! i) x \<longrightarrow> i = j"
  proof (intro allI impI)
    fix i assume i: "i < length ?arrays" "holds_tick ?s (?arrays ! i) x"
    then have "holds_tick ?s ?ta x" using x by (simp add: holds_tick_def)
    then show "i = j" using ap i j by (auto simp: apart_def)
  qed
  have sp: "spanned ?s ?arrays ?mid ?till"
    unfolding spanned_def
  proof (intro allI impI)
    fix y assume "between ?mid ?till y" "tick_in_range y" "uint ?s dvd y"
    then have "holds_tick ?s ?ta y" using x by (auto simp: between_def holds_tick_def split: if_splits)
    then show "\<exists>ta \<in> set ?arrays. holds_tick ?s ta y" using j by auto
  qed
  have get: "sequence_get_tick ?arrays j x ?s = (if holds_tick ?s ?ta x then Inr (tick_in ?s ?ta x) else Inl (Err TickNotFound))"
    using j by (simp add: sequence_get_tick_def arrays_get_def get_tick_eq [OF tok])
  have other: "\<forall>y. y \<noteq> x \<longrightarrow> (y \<le> ?mid \<longleftrightarrow> y \<le> ?till)" by auto
  show ?thesis using r
  proof (cases rule: cross_next_tick_Inr)
    case (skip off)
    have fin: "sw_sequence st' = ?arrays" "sw_tick_index st' = ?till" by (simp_all add: skip(3) x1)
    have ud: "undivided ?s ?mid ?till ta" if ta: "ta \<in> set ?arrays" for ta
    proof (rule undivided_but [OF other])
      assume h: "holds_tick ?s ta x"
      obtain i where i: "i < length ?arrays" "?arrays ! i = ta" using ta by (auto simp: in_set_conv_nth)
      then have "ta = ?ta" using only h by blast
      then show "\<not> tk_initialized (tick_in ?s ta x)" using skip(1) h by (auto simp: get)
    qed
    show ?thesis
      unfolding fin using ap sp all_recorded_moves [OF ri ud] all_recorded_moves [OF ro ud] by (simp add: same_holds_def)
  next
    case (cross tick st1 off)
    obtain u l arrays where u: "next_tick_cross_update tick
          (if a_to_b then ?g else wp_fee_growth_global_a w)
          (if a_to_b then wp_fee_growth_global_b w else ?g) infos = Inr u"
      and arr: "sequence_update_tick ?arrays j x ?s u = Inr arrays"
      and st1: "st1 = st\<lparr>sw_liquidity := l, sw_sequence := arrays\<rparr>"
      using cross(3) by (auto simp: crossed_state_def)
    obtain ta' where u': "update_tick ?ta x ?s u = Inr ta'" and arrays: "arrays = ?arrays[j := ta']"
      using arr j by (auto simp: sequence_update_tick_def arrays_get_def and_then_Inr_iff split: if_splits)
    have tick: "tick = tick_in ?s ?ta x" using cross(1) by (simp add: get split: if_splits)
    have fin: "sw_sequence st' = ?arrays[j := ta']" "sw_tick_index st' = ?till" by (simp_all add: cross(5) st1 arrays x1)
    have flip: "fee_outside a_to_b (tick_update default_tick u) = ?g - fee_outside a_to_b (tick_in ?s ?ta x)"
      "fee_outside (\<not> a_to_b) (tick_update default_tick u) = other_growth w a_to_b - fee_outside (\<not> a_to_b) (tick_in ?s ?ta x)"
      using cross_update_fields(4,5) [OF u] by (auto simp: fee_outside_def other_growth_def tick_update_def tick)
    have side: "x \<le> ?mid \<longleftrightarrow> \<not> x \<le> ?till" by simp
    have "ta_start_tick_index ta' = ta_start_tick_index ?ta" by (rule update_tick_ok(2) [OF tok u'])
    then have h: "holds_tick ?s ta' y \<longleftrightarrow> holds_tick ?s ?ta y" for y by (simp add: holds_tick_def)
    have init: "tk_initialized (tick_in ?s ?ta x)" using cross(2) tick by simp
    note rec = all_recorded_crosses [OF ok j u' only init _ _ side other]
    show ?thesis
      unfolding fin using apart_update [OF ap j h] rec [OF ri flip(1)] rec [OF ro flip(2)] sp same_holds_update [OF j h] by simp
  qed
qed

lemma swap_step_growth:
  assumes inv: "swap_inv (wp_tick_spacing w) limit a_to_b st" and run: "swap_running limit st"
    and limit: "price_in_range limit" and r: "swap_step w limit inp a_to_b infos st = Inr st'"
    and ap: "apart (wp_tick_spacing w) (sw_sequence st)"
    and ri: "all_recorded (wp_tick_spacing w) a_to_b B (sw_fee_growth_global_input st) (sw_tick_index st) (sw_sequence st)"
    and ro: "all_recorded (wp_tick_spacing w) (\<not> a_to_b) C (other_growth w a_to_b) (sw_tick_index st) (sw_sequence st)"
  shows "apart (wp_tick_spacing w) (sw_sequence st') \<and> same_holds (wp_tick_spacing w) (sw_sequence st) (sw_sequence st')
    \<and> all_recorded (wp_tick_spacing w) a_to_b
        (\<lambda>y. B y + (if sw_tick_index st < y then sw_fee_growth_global_input st' - sw_fee_growth_global_input st else 0))
        (sw_fee_growth_global_input st') (sw_tick_index st') (sw_sequence st')
    \<and> all_recorded (wp_tick_spacing w) (\<not> a_to_b) C (other_growth w a_to_b) (sw_tick_index st') (sw_sequence st')
    \<and> spanned (wp_tick_spacing w) (sw_sequence st) (sw_tick_index st) (sw_tick_index st')"
proof -
  let ?s = "wp_tick_spacing w" and ?p = "sw_sqrt_price st" and ?t = "sw_tick_index st" and ?arrays = "sw_sequence st"
  have sq: "sequence_ok ?s ?arrays" and tp: "tick_price_ok ?t ?p" using inv by (simp_all add: swap_inv_def)
  show ?thesis
  proof (rule swap_step_stretch [OF inv run limit r quiet_at_rest [OF sq ap]])
    fix j :: usize and x :: i32 and q :: u128 and c :: SwapStepComputation and rem m pf :: u64 and g :: u128 and st2 :: SwapState
    let ?st1 = "st\<lparr>sw_amount_remaining := rem, sw_amount_calculated := m, sw_protocol_fee := pf,
             sw_fee_growth_global_input := g\<rparr>"
    let ?mid = "if a_to_b then x else x - 1"
    let ?B = "\<lambda>y. B y + (if ?t < y then g - sw_fee_growth_global_input st else 0)"
    assume j: "j < length ?arrays" "ta_start_tick_index (?arrays ! j) \<le> x"
        "x < ta_start_tick_index (?arrays ! j) + ticks_in_array ?s"
      and x: "tick_in_range x" "unat q = price_val x" "price_in_range (next_price c)"
      and cm: "if a_to_b then x \<le> ?t \<and> calm (at_rest ?s ?arrays) x ?t else ?t < x \<and> calm (at_rest ?s ?arrays) ?t (x - 1)"
      and np: "if a_to_b then q \<le> next_price c \<and> next_price c \<le> ?p else ?p \<le> next_price c \<and> next_price c \<le> q"
      and st2: "(if next_price c = q then cross_next_tick w a_to_b infos j x ?st1
        else if next_price c \<noteq> ?p then and_then (tick_index_from_sqrt_price (next_price c)) (\<lambda>i. Inr (?st1\<lparr>sw_tick_index := i\<rparr>))
        else Inr ?st1) = Inr st2"
      and st': "st' = st2\<lparr>sw_sqrt_price := next_price c\<rparr>"
    have grown: "all_recorded ?s a_to_b ?B g ?t ?arrays"
      using ri recorded_grows [of ?s a_to_b B "sw_fee_growth_global_input st" ?t _ "g - sw_fee_growth_global_input st"]
      by (simp add: all_recorded_def)
    have ud: "undivided ?s ?t ?mid ta" if ta: "ta \<in> set ?arrays" for ta
      using cm calm_moves(1,2) [OF _ _ ta] by (auto split: if_splits)
    have sp: "spanned ?s ?arrays ?t ?mid" using cm calm_moves(3,4) by (auto split: if_splits)
    have main: "apart ?s (sw_sequence st2) \<and> same_holds ?s ?arrays (sw_sequence st2)
      \<and> all_recorded ?s a_to_b ?B g (sw_tick_index st2) (sw_sequence st2)
      \<and> all_recorded ?s (\<not> a_to_b) C (other_growth w a_to_b) (sw_tick_index st2) (sw_sequence st2)
      \<and> spanned ?s ?arrays ?t (sw_tick_index st2) \<and> sw_fee_growth_global_input st2 = g"
    proof (cases "next_price c = q")
      case True
      then have cr: "cross_next_tick w a_to_b infos j x ?st1 = Inr st2" using st2 by simp
      have fields: "sw_sequence ?st1 = ?arrays" "sw_fee_growth_global_input ?st1 = g" by simp_all
      note c = crossed_growth [OF cr, unfolded fields, OF sq ap j x(1) all_recorded_moves [OF grown ud]
          all_recorded_moves [OF ro ud]]
      show ?thesis using c cross_next_tick_fields(6) [OF cr, unfolded fields, OF sq] spanned_trans [OF sp] by blast
    next
      case no: False
      show ?thesis
      proof (cases "next_price c = ?p")
        case True
        then show ?thesis using st2 no ap grown ro by (auto simp: same_holds_def)
      next
        case moved: False
        obtain i where i: "tick_index_from_sqrt_price (next_price c) = Inr i"
          and fin: "sw_sequence st2 = ?arrays" "sw_tick_index st2 = i" "sw_fee_growth_global_input st2 = g"
          using st2 no moved by (auto simp: and_then_Inr_iff)
        have ne: "unat (next_price c) \<noteq> unat q" using no by (simp add: word_unat_eq_iff)
        have stop: "if a_to_b then price_val x \<le> unat (next_price c) else unat (next_price c) < price_val x"
          using np ne by (auto simp: word_le_nat_alt x(2) [symmetric] split: if_splits)
        have pq: "if a_to_b then next_price c \<le> ?p else ?p \<le> next_price c" using np by (simp split: if_splits)
        have btw: "if a_to_b then x \<le> i \<and> i \<le> ?t else ?t \<le> i \<and> i < x"
          by (rule new_tick_between [OF tp pq moved x(3) i x(1) stop])
        have cm': "if a_to_b then calm (at_rest ?s ?arrays) i ?t \<and> i \<le> ?t else calm (at_rest ?s ?arrays) ?t i \<and> ?t \<le> i"
          using btw cm calm_sub [of _ x ?t i ?t] calm_sub [of _ ?t "x - 1" ?t i] by (auto split: if_splits)
        have ud': "undivided ?s ?t i ta" if ta: "ta \<in> set ?arrays" for ta
          using cm' calm_moves(1,2) [OF _ _ ta] by (auto split: if_splits)
        have "spanned ?s ?arrays ?t i" using cm' calm_moves(3,4) by (auto split: if_splits)
        then show ?thesis
          unfolding fin using ap all_recorded_moves [OF grown ud'] all_recorded_moves [OF ro ud'] by (simp add: same_holds_def)
      qed
    qed
    have "sw_fee_growth_global_input st' = g" "sw_sequence st' = sw_sequence st2" "sw_tick_index st' = sw_tick_index st2"
      using main by (simp_all add: st')
    then show ?thesis using main by (simp only:)
  qed
qed

section \<open>A swap\<close>

text \<open>Growth by tick, what has grown below a tick, and the fees that it promises at the liquidity \<open>L\<close>.\<close>

definition below :: "(i32 \<Rightarrow> nat) \<Rightarrow> i32 \<Rightarrow> nat" where
  "below G y = (\<Sum>z \<in> {MIN_TICK_INDEX - 1..<y}. G z)"

definition promised_total :: "(i32 \<Rightarrow> int) \<Rightarrow> (i32 \<Rightarrow> nat) \<Rightarrow> real" where
  "promised_total L G = (\<Sum>z \<in> {MIN_TICK_INDEX - 1..MAX_TICK_INDEX}. of_int (L z) * real (G z)) / 2 ^ 64"

lemma below_add: "MIN_TICK_INDEX - 1 \<le> c \<Longrightarrow> below (G(c := G c + d)) y = below G y + (if c < y then d else 0)"
proof -
  assume c: "MIN_TICK_INDEX - 1 \<le> c"
  have "below (G(c := G c + d)) y = (\<Sum>z \<in> {MIN_TICK_INDEX - 1..<y}. G z + (if z = c then d else 0))"
    unfolding below_def by (rule sum.cong) simp_all
  then show ?thesis using c by (simp add: sum.distrib below_def)
qed

lemma promised_total_add:
  assumes c: "MIN_TICK_INDEX - 1 \<le> c" "c \<le> MAX_TICK_INDEX"
  shows "promised_total L (G(c := G c + d)) = promised_total L G + of_int (L c) * real d / 2 ^ 64"
proof -
  have "(\<Sum>z \<in> {MIN_TICK_INDEX - 1..MAX_TICK_INDEX}. of_int (L z) * real ((G(c := G c + d)) z))
      = (\<Sum>z \<in> {MIN_TICK_INDEX - 1..MAX_TICK_INDEX}. of_int (L z) * real (G z) + (if z = c then of_int (L c) * real d else 0))"
    by (rule sum.cong) (simp_all add: distrib_left)
  then show ?thesis using c by (simp add: promised_total_def sum.distrib add_divide_distrib)
qed

text \<open>What the ticks hold after part of a swap that began at tick \<open>t0\<close>, with the growth \<open>G\<close> of its own.\<close>

definition growing :: "Whirlpool \<Rightarrow> (i32 \<Rightarrow> int) \<Rightarrow> (i32 \<Rightarrow> u128) \<Rightarrow> (i32 \<Rightarrow> u128) \<Rightarrow> SwapTickSequence \<Rightarrow> bool \<Rightarrow> bool \<Rightarrow> u64
    \<Rightarrow> (i32 \<Rightarrow> nat) \<Rightarrow> SwapState \<Rightarrow> bool" where
  "growing w L B C arrays a_to_b inp amount G st \<longleftrightarrow>
     covered L (promised_total L G) (unat (wp_sqrt_price w)) a_to_b inp amount st
   \<and> apart (wp_tick_spacing w) (sw_sequence st) \<and> same_holds (wp_tick_spacing w) arrays (sw_sequence st)
   \<and> all_recorded (wp_tick_spacing w) a_to_b (\<lambda>y. B y + of_nat (below G y)) (sw_fee_growth_global_input st)
       (sw_tick_index st) (sw_sequence st)
   \<and> all_recorded (wp_tick_spacing w) (\<not> a_to_b) C (other_growth w a_to_b) (sw_tick_index st) (sw_sequence st)
   \<and> spanned (wp_tick_spacing w) arrays (wp_tick_current_index w) (sw_tick_index st)
   \<and> (\<forall>y. elsewhere (wp_tick_spacing w) arrays y \<longrightarrow>
        stored (\<lambda>y. B y + of_nat (below G y)) (sw_fee_growth_global_input st) (sw_tick_index st) y
          = stored B (other_growth w (\<not> a_to_b)) (wp_tick_current_index w) y)"

lemma swap_step_growing:
  assumes inv: "swap_inv (wp_tick_spacing w) limit a_to_b st" and run: "swap_running limit st"
    and limit: "price_in_range limit" and r: "swap_step w limit inp a_to_b infos st = Inr st'"
    and p: "profile L (wp_tick_spacing w) (sw_sequence st)" and on: "uint (sw_liquidity st) = L (sw_tick_index st)"
    and rate: "wp_protocol_fee_rate w \<le> MAX_PROTOCOL_FEE_RATE"
    and g: "growing w L B C arrays a_to_b inp amount G st"
  shows "\<exists>G. growing w L B C arrays a_to_b inp amount G st'"
proof -
  let ?s = "wp_tick_spacing w" and ?t = "sw_tick_index st"
  define d where "d = sw_fee_growth_global_input st' - sw_fee_growth_global_input st"
  define G' where "G' = G(?t := G ?t + unat d)"
  have t: "MIN_TICK_INDEX - 1 \<le> ?t" "?t \<le> MAX_TICK_INDEX" using inv by (simp_all add: swap_inv_def tick_price_ok_def)
  have cov: "covered L (promised_total L G) (unat (wp_sqrt_price w)) a_to_b inp amount st"
    and ap: "apart ?s (sw_sequence st)" and sh: "same_holds ?s arrays (sw_sequence st)"
    and ri: "all_recorded ?s a_to_b (\<lambda>y. B y + of_nat (below G y)) (sw_fee_growth_global_input st) ?t (sw_sequence st)"
    and ro: "all_recorded ?s (\<not> a_to_b) C (other_growth w a_to_b) ?t (sw_sequence st)"
    and sp: "spanned ?s arrays (wp_tick_current_index w) ?t"
    and el: "\<And>y. elsewhere ?s arrays y \<Longrightarrow> stored (\<lambda>y. B y + of_nat (below G y)) (sw_fee_growth_global_input st) ?t y
          = stored B (other_growth w (\<not> a_to_b)) (wp_tick_current_index w) y"
    using g by (simp_all add: growing_def)
  note st = swap_step_growth [OF inv run limit r ap ri ro]
  have "promised d (sw_liquidity st) = of_int (L ?t) * real (unat d) / 2 ^ 64"
    unfolding promised_def on [symmetric] by simp
  then have "promised_total L G' = promised_total L G + promised d (sw_liquidity st)"
    unfolding G'_def by (simp add: promised_total_add [OF t])
  then have cov': "covered L (promised_total L G') (unat (wp_sqrt_price w)) a_to_b inp amount st'"
    using swap_step_covered [OF inv run limit r p on rate cov] by (simp add: d_def)
  have grown: "(\<lambda>y. B y + of_nat (below G y) + (if ?t < y then d else 0)) = (\<lambda>y. B y + of_nat (below G' y))"
    unfolding G'_def below_add [OF t(1)] by (rule ext) simp
  have hold: "same_holds ?s (sw_sequence st) (sw_sequence st')" using st by blast
  have sh': "same_holds ?s arrays (sw_sequence st')" using sh hold by (simp add: same_holds_def)
  have ri': "all_recorded ?s a_to_b (\<lambda>y. B y + of_nat (below G' y)) (sw_fee_growth_global_input st') (sw_tick_index st')
      (sw_sequence st')"
    unfolding grown [symmetric] d_def using st by blast
  have sp': "spanned ?s arrays (wp_tick_current_index w) (sw_tick_index st')"
    using spanned_trans [OF sp] st same_holds_spanned [OF sh] by blast
  have el': "stored (\<lambda>y. B y + of_nat (below G' y)) (sw_fee_growth_global_input st') (sw_tick_index st') y
      = stored B (other_growth w (\<not> a_to_b)) (wp_tick_current_index w) y" if y: "elsewhere ?s arrays y" for y
  proof -
    have "y \<le> ?t \<longleftrightarrow> y \<le> sw_tick_index st'"
      using spanned_elsewhere [OF sp y] spanned_elsewhere [OF sp' y] by simp
    then have "stored (\<lambda>y. B y + of_nat (below G' y)) (sw_fee_growth_global_input st') (sw_tick_index st') y
        = stored (\<lambda>y. B y + of_nat (below G' y)) (sw_fee_growth_global_input st + d) ?t y"
      by (simp add: stored_def d_def)
    then show ?thesis unfolding grown [symmetric] using el [OF y] stored_grows [of "\<lambda>y. B y + of_nat (below G y)" ?t d] by simp
  qed
  have "growing w L B C arrays a_to_b inp amount G' st'"
    unfolding growing_def using cov' st sh' ri' sp' el' by blast
  then show ?thesis by blast
qed

text \<open>The whole swap.\<close>

lemma swap_growth:
  assumes ok: "pool_ok w" "sequence_ok (wp_tick_spacing w) arrays" and rate: "wp_protocol_fee_rate w \<le> MAX_PROTOCOL_FEE_RATE"
    and r: "swap w arrays amount limit inp a_to_b ts = Some (Inr (u, arrays'))"
    and p: "profile L (wp_tick_spacing w) arrays" "uint (wp_liquidity w) = L (wp_tick_current_index w)"
    and ap: "apart (wp_tick_spacing w) arrays"
    and ri: "all_recorded (wp_tick_spacing w) a_to_b B (other_growth w (\<not> a_to_b)) (wp_tick_current_index w) arrays"
    and ro: "all_recorded (wp_tick_spacing w) (\<not> a_to_b) C (other_growth w a_to_b) (wp_tick_current_index w) arrays"
  shows "\<exists>G. pool_gain a_to_b L (unat (wp_sqrt_price w)) (unat (ps_next_sqrt_price u)) + real (unat (ps_next_protocol_fee u))
        + promised_total L G \<le> real (unat (if a_to_b then ps_amount_a u else ps_amount_b u))
    \<and> real (unat (if a_to_b then ps_amount_b u else ps_amount_a u))
        \<le> - pool_gain (\<not> a_to_b) L (unat (wp_sqrt_price w)) (unat (ps_next_sqrt_price u))
    \<and> all_recorded (wp_tick_spacing w) a_to_b (\<lambda>y. B y + of_nat (below G y)) (ps_next_fee_growth_global u)
        (ps_next_tick_index u) arrays'
    \<and> all_recorded (wp_tick_spacing w) (\<not> a_to_b) C (other_growth w a_to_b) (ps_next_tick_index u) arrays'
    \<and> spanned (wp_tick_spacing w) arrays (wp_tick_current_index w) (ps_next_tick_index u)
    \<and> (\<forall>y. elsewhere (wp_tick_spacing w) arrays y \<longrightarrow>
        stored (\<lambda>y. B y + of_nat (below G y)) (ps_next_fee_growth_global u) (ps_next_tick_index u) y
          = stored B (other_growth w (\<not> a_to_b)) (wp_tick_current_index w) y)"
proof -
  let ?p0 = "unat (wp_sqrt_price w)" and ?s = "wp_tick_spacing w"
  obtain infos st where c: "swap_checks w amount limit a_to_b ts = Inr infos"
    and l: "swap_loop w limit inp a_to_b infos (swap_start w arrays amount a_to_b) = Some (Inr st)"
    and u: "u = swap_finish amount inp a_to_b infos st" and arrays': "arrays' = sw_sequence st"
    by (rule swap_Inr [OF ok r], rule that)
  note i = swap_start_inv [OF ok c]
  let ?I = "\<lambda>st. swap_inv ?s limit a_to_b st \<and> profile L ?s (sw_sequence st)
      \<and> uint (sw_liquidity st) = L (sw_tick_index st)" and ?R = "\<lambda>st. \<exists>G. growing w L B C arrays a_to_b inp amount G st"
  have start: "sw_fee_growth_global_input (swap_start w arrays amount a_to_b) = other_growth w (\<not> a_to_b)"
    by (simp add: swap_start_def other_growth_def)
  have "growing w L B C arrays a_to_b inp amount (\<lambda>_. 0) (swap_start w arrays amount a_to_b)"
    using covered_start [of L w a_to_b inp amount arrays] unfolding growing_def start swap_start_fields
    using ap ri ro by (simp add: promised_total_def below_def same_holds_def)
  then have "?I (swap_start w arrays amount a_to_b) \<and> ?R (swap_start w arrays amount a_to_b)"
    using i(1) p unfolding swap_start_fields by blast
  then have "?I st \<and> ?R st"
  proof (rule swap_loop_keeps [OF l, where P = "\<lambda>st. ?I st \<and> ?R st"])
    fix s s' assume run: "swap_running limit s" and step: "swap_step w limit inp a_to_b infos s = Inr s'" and P: "?I s \<and> ?R s"
    then obtain G where G: "growing w L B C arrays a_to_b inp amount G s" by blast
    have I: "swap_inv ?s limit a_to_b s" "profile L ?s (sw_sequence s)" "uint (sw_liquidity s) = L (sw_tick_index s)"
      using P by blast+
    show "?I s' \<and> ?R s'"
      using swap_step_inv(1) [OF I(1) run i(2) step] swap_step_profile [OF I(1) run i(2) step I(2,3)]
        swap_step_growing [OF I(1) run i(2) step I(2,3) rate G] by blast
  qed simp
  then obtain G where G: "growing w L B C arrays a_to_b inp amount G st" by blast
  then have "covered L (promised_total L G) ?p0 a_to_b inp amount st" by (simp add: growing_def)
  note cov = covered_finish [OF this u]
  have fin: "ps_next_fee_growth_global u = sw_fee_growth_global_input st" "ps_next_tick_index u = sw_tick_index st"
    by (simp_all add: u swap_finish_def case_prod_beta)
  show ?thesis
    unfolding fin arrays' using cov G unfolding growing_def by blast
qed

end
