(* ===== verification/Fee_Account.thy ===== *)
theory Fee_Account
  imports Liquidity_Payout Fee_Growth
begin

text \<open>
  What a pool owes in one of its tokens: the worth of all its positions at its price, the fees noted
  in them, the growth since they were last settled times their liquidity, and the protocol's share of
  the fees.  An amount \<open>v\<close> backs the pool when it covers this debt.  Every operation changes the debt
  by no more than the tokens that it moves.
\<close>

section \<open>Sums over the positions\<close>

definition tally :: "(pubkey \<Rightarrow> Position \<Rightarrow> real) \<Rightarrow> positions \<Rightarrow> real" where
  "tally f positions = (\<Sum>q \<in> UNIV. case positions q of None \<Rightarrow> 0 | Some p \<Rightarrow> f q p)"

lemma tally_mono: "(\<And>q p. m q = Some p \<Longrightarrow> f q p \<le> g q p) \<Longrightarrow> tally f m \<le> tally g m"
  unfolding tally_def by (rule sum_mono) (auto split: option.splits)

lemma tally_cong: "(\<And>q p. m q = Some p \<Longrightarrow> f q p = g q p) \<Longrightarrow> tally f m = tally g m"
  unfolding tally_def by (rule sum.cong) (auto split: option.splits)

lemma tally_add: "tally (\<lambda>q p. f q p + g q p) m = tally f m + tally g m"
  unfolding tally_def sum.distrib [symmetric] by (rule sum.cong) (auto split: option.splits)

lemma tally_upd:
  "tally f (m(q := v)) = tally f m - (case m q of None \<Rightarrow> 0 | Some p \<Rightarrow> f q p) + (case v of None \<Rightarrow> 0 | Some p \<Rightarrow> f q p)"
proof -
  let ?g = "\<lambda>m q. case m q of None \<Rightarrow> 0 | Some p \<Rightarrow> f q p"
  have "tally f m' = ?g m' q + (\<Sum>r \<in> UNIV - {q}. ?g m' r)" for m'
    unfolding tally_def by (rule sum.remove) simp_all
  moreover have "(\<Sum>r \<in> UNIV - {q}. ?g (m(q := v)) r) = (\<Sum>r \<in> UNIV - {q}. ?g m r)" by (rule sum.cong) auto
  ultimately show ?thesis by simp
qed

lemma tally_total: "tally (\<lambda>q. f) m = total f m"
  unfolding tally_def total_def by (rule sum.cong) (auto split: option.splits)

section \<open>The debt of a pool\<close>

definition fee_growth :: "bool \<Rightarrow> Whirlpool \<Rightarrow> u128" where
  "fee_growth a w = (if a then wp_fee_growth_global_a w else wp_fee_growth_global_b w)"

definition checkpoint :: "bool \<Rightarrow> Position \<Rightarrow> u128" where
  "checkpoint a p = (if a then pos_fee_growth_checkpoint_a p else pos_fee_growth_checkpoint_b p)"

definition fee_owed :: "bool \<Rightarrow> Position \<Rightarrow> u64" where
  "fee_owed a p = (if a then pos_fee_owed_a p else pos_fee_owed_b p)"

text \<open>The growth \<open>e\<close> of the fees inside a position since it was settled, as a number that does not wrap.\<close>

definition position_debt :: "bool \<Rightarrow> pubkey \<Rightarrow> nat \<Rightarrow> Position \<Rightarrow> nat \<Rightarrow> real" where
  "position_debt a k price p e = (if pos_whirlpool p = k
     then position_worth a price p + real (unat (fee_owed a p)) + real (unat (pos_liquidity p)) * real e / 2 ^ 64 else 0)"

definition growth_known :: "bool \<Rightarrow> pubkey \<Rightarrow> (i32 \<Rightarrow> u128) \<Rightarrow> (pubkey \<Rightarrow> nat) \<Rightarrow> positions \<Rightarrow> bool" where
  "growth_known a k B e positions \<longleftrightarrow> (\<forall>q p. positions q = Some p \<longrightarrow> pos_whirlpool p = k \<longrightarrow> pos_liquidity p \<noteq> 0 \<longrightarrow>
     of_nat (e q) = B (pos_tick_upper_index p) - B (pos_tick_lower_index p) - checkpoint a p)"

definition pool_recorded :: "bool \<Rightarrow> pubkey \<Rightarrow> Whirlpool \<Rightarrow> (i32 \<Rightarrow> u128) \<Rightarrow> tick_arrays \<Rightarrow> bool" where
  "pool_recorded a k w B arrays \<longleftrightarrow> (\<forall>x ta. arrays x = Some ta \<longrightarrow> ta_whirlpool ta = k \<longrightarrow>
     recorded (wp_tick_spacing w) a B (fee_growth a w) (wp_tick_current_index w) ta)"

definition debt :: "bool \<Rightarrow> pubkey \<Rightarrow> Whirlpool \<Rightarrow> (pubkey \<Rightarrow> nat) \<Rightarrow> positions \<Rightarrow> real" where
  "debt a k w e positions = real (unat (protocol_owed a w))
     + tally (\<lambda>q p. position_debt a k (unat (wp_sqrt_price w)) p (e q)) positions"

definition backed :: "bool \<Rightarrow> pubkey \<Rightarrow> Whirlpool \<Rightarrow> positions \<Rightarrow> tick_arrays \<Rightarrow> real \<Rightarrow> bool" where
  "backed a k w positions arrays v \<longleftrightarrow>
     (\<exists>B e. pool_recorded a k w B arrays \<and> growth_known a k B e positions \<and> debt a k w e positions \<le> v)"

lemma backed_mono: "backed a k w positions arrays v \<Longrightarrow> v \<le> v' \<Longrightarrow> backed a k w positions arrays v'"
  unfolding backed_def by (meson order_trans)

section \<open>What does not concern a pool\<close>

lemma backed_cong:
  assumes pos: "\<And>q p. pos_whirlpool p = k \<Longrightarrow> positions' q = Some p \<longleftrightarrow> positions q = Some p"
    and arr: "\<And>x ta. ta_whirlpool ta = k \<Longrightarrow> arrays' x = Some ta \<Longrightarrow> arrays x = Some ta"
    and b: "backed a k w positions arrays v"
  shows "backed a k w positions' arrays' v"
proof -
  have "(case positions' q of None \<Rightarrow> 0 | Some p \<Rightarrow> position_debt a k n p (e q))
      = (case positions q of None \<Rightarrow> 0 | Some p \<Rightarrow> position_debt a k n p (e q))" for q n and e :: "pubkey \<Rightarrow> nat"
    using pos [of _ q] by (auto simp: position_debt_def split: option.splits) metis+
  then have "debt a k w e positions' = debt a k w e positions" for e by (simp add: debt_def tally_def)
  moreover have "growth_known a k B e positions' \<longleftrightarrow> growth_known a k B e positions" for B e
    using pos unfolding growth_known_def by metis
  moreover have "pool_recorded a k w B arrays \<Longrightarrow> pool_recorded a k w B arrays'" for B
    using arr unfolding pool_recorded_def by metis
  ultimately show ?thesis using b unfolding backed_def by metis
qed

text \<open>A change of the pool that concerns neither its price nor its growth.\<close>

lemma backed_pool:
  assumes "backed a k w positions arrays v"
    and "wp_tick_spacing w' = wp_tick_spacing w" "wp_tick_current_index w' = wp_tick_current_index w"
      "wp_sqrt_price w' = wp_sqrt_price w" "fee_growth a w' = fee_growth a w"
    and "v + real (unat (protocol_owed a w')) \<le> v' + real (unat (protocol_owed a w))"
  shows "backed a k w' positions arrays v'"
proof -
  obtain B e where B: "pool_recorded a k w B arrays" "growth_known a k B e positions" "debt a k w e positions \<le> v"
    using assms(1) by (auto simp: backed_def)
  have "debt a k w' e positions = debt a k w e positions - real (unat (protocol_owed a w)) + real (unat (protocol_owed a w'))"
    by (simp add: debt_def assms(4))
  then have "debt a k w' e positions \<le> v'" using B(3) assms(6) by linarith
  moreover have "pool_recorded a k w' B arrays" using B(1) by (simp add: pool_recorded_def assms(2,3,5))
  ultimately show ?thesis using B(2) unfolding backed_def by blast
qed

section \<open>Positions that are opened, paid and closed\<close>

lemma empty_debt: "pos_liquidity p = 0 \<Longrightarrow> fee_owed a p = 0 \<Longrightarrow> position_debt a k n p e = 0"
  by (simp add: position_debt_def position_worth_def)

text \<open>What a position is owed in fees changes.\<close>

lemma backed_paid:
  assumes b: "backed a k w positions arrays v" and p: "positions q = Some p"
    and p': "position_kept p p'" "pos_liquidity p' = pos_liquidity p" "checkpoint a p' = checkpoint a p"
    and v: "pos_whirlpool p = k \<Longrightarrow> v + real (unat (fee_owed a p')) \<le> v' + real (unat (fee_owed a p))"
      "pos_whirlpool p \<noteq> k \<Longrightarrow> v \<le> v'"
  shows "backed a k w (positions(q \<mapsto> p')) arrays v'"
proof -
  obtain B e where B: "pool_recorded a k w B arrays" "growth_known a k B e positions" "debt a k w e positions \<le> v"
    using b by (auto simp: backed_def)
  have same: "pos_whirlpool p' = pos_whirlpool p" "position_worth a n p' = position_worth a n p" for n
    using p'(1,2) by (simp_all add: position_kept_def position_worth_def)
  have "debt a k w e (positions(q \<mapsto> p')) = debt a k w e positions - (if pos_whirlpool p = k then real (unat (fee_owed a p)) else 0)
      + (if pos_whirlpool p = k then real (unat (fee_owed a p')) else 0)"
    unfolding debt_def tally_upd p option.simps position_debt_def same p'(2) by simp
  then have "debt a k w e (positions(q \<mapsto> p')) \<le> v'" using B(3) v by (cases "pos_whirlpool p = k") simp_all
  moreover have "growth_known a k B e (positions(q \<mapsto> p'))"
    using B(2) p p' by (auto simp: growth_known_def position_kept_def)
  ultimately show ?thesis using B(1) unfolding backed_def by blast
qed

lemma backed_opened:
  assumes b: "backed a k w positions arrays v" and p: "positions q = None" "pos_liquidity p = 0" "fee_owed a p = 0"
  shows "backed a k w (positions(q \<mapsto> p)) arrays v"
proof -
  obtain B e where B: "pool_recorded a k w B arrays" "growth_known a k B e positions" "debt a k w e positions \<le> v"
    using b by (auto simp: backed_def)
  have "debt a k w e (positions(q \<mapsto> p)) = debt a k w e positions"
    by (simp add: debt_def tally_upd p(1) empty_debt [OF p(2,3)])
  moreover have "growth_known a k B e (positions(q \<mapsto> p))" using B(2) p(2) by (auto simp: growth_known_def)
  ultimately show ?thesis using B unfolding backed_def by metis
qed

lemma backed_closed:
  assumes b: "backed a k w positions arrays v" and p: "positions q = Some p" "pos_liquidity p = 0" "fee_owed a p = 0"
  shows "backed a k w (positions(q := None)) arrays v"
proof -
  obtain B e where B: "pool_recorded a k w B arrays" "growth_known a k B e positions" "debt a k w e positions \<le> v"
    using b by (auto simp: backed_def)
  have "debt a k w e (positions(q := None)) = debt a k w e positions"
    by (simp add: debt_def tally_upd p(1) empty_debt [OF p(2,3)])
  moreover have "growth_known a k B e (positions(q := None))" using B(2) by (auto simp: growth_known_def)
  ultimately show ?thesis using B unfolding backed_def by metis
qed

section \<open>New accounts\<close>

text \<open>A new tick array has no initialized tick.\<close>

lemma backed_array:
  assumes b: "backed a k w positions arrays v" and new: "\<And>y. holds_tick (wp_tick_spacing w) ta y \<Longrightarrow> \<not> tk_initialized (tick_in (wp_tick_spacing w) ta y)"
  shows "backed a k w positions (arrays(x \<mapsto> ta)) v"
  using b new unfolding backed_def pool_recorded_def by (auto simp: recorded_def)

lemma backed_new_pool:
  assumes "\<And>q p. positions q = Some p \<Longrightarrow> pos_whirlpool p \<noteq> k" "\<And>x ta. arrays x = Some ta \<Longrightarrow> ta_whirlpool ta \<noteq> k"
    and "protocol_owed a w = 0"
  shows "backed a k w positions arrays 0"
proof -
  have "tally (\<lambda>q p. position_debt a k n p (e q)) positions = tally (\<lambda>q p. 0) positions" for n and e :: "pubkey \<Rightarrow> nat"
    by (rule tally_cong) (use assms(1) in \<open>auto simp: position_debt_def\<close>)
  then have "debt a k w e positions = 0" for e
    using assms(3) by (simp add: debt_def tally_def) (rule sum.neutral, auto split: option.splits)
  then show ?thesis
    using assms(1,2) unfolding backed_def pool_recorded_def growth_known_def by (metis order_refl)
qed

section \<open>A swap\<close>

text \<open>What the positions are worth changes by the potential of their liquidity.\<close>

lemma active_total: "active positions k = (\<lambda>t. total (active_share k t) positions)"
  by (rule ext) (simp add: active_def)

lemma worth_gain:
  assumes pos: "\<And>q p. positions q = Some p \<Longrightarrow> pos_whirlpool p = k \<Longrightarrow> tick_in_range (pos_tick_lower_index p)
      \<and> tick_in_range (pos_tick_upper_index p) \<and> pos_tick_lower_index p < pos_tick_upper_index p"
  shows "tally (\<lambda>q p. position_debt a k y p (e q)) positions
    = tally (\<lambda>q p. position_debt a k x p (e q)) positions + pool_gain a (active positions k) x y"
proof -
  let ?g = "\<lambda>p. gain (token_measure a) (\<lambda>t. active_share k t p) x y"
  have "position_debt a k y p (e q) = position_debt a k x p (e q) + ?g p" if q: "positions q = Some p" for q p
  proof (cases "pos_whirlpool p = k")
    case True
    then have "tick_in_range (pos_tick_lower_index p)" "tick_in_range (pos_tick_upper_index p)"
      "pos_tick_lower_index p < pos_tick_upper_index p" using pos [OF q] by simp_all
    from position_gain [OF this, of a k x y] True show ?thesis by (simp add: position_debt_def)
  next
    case False
    then show ?thesis by (simp add: position_debt_def gain_def active_share_def)
  qed
  then have "tally (\<lambda>q p. position_debt a k y p (e q)) positions
      = tally (\<lambda>q p. position_debt a k x p (e q) + ?g p) positions" by (rule tally_cong)
  also have "\<dots> = tally (\<lambda>q p. position_debt a k x p (e q)) positions + total ?g positions"
    unfolding tally_add tally_total ..
  finally show ?thesis unfolding pool_gain_def active_total gain_total .
qed

text \<open>The growth of a swap promises each position its share, and all of them what was promised in total.\<close>

definition growth_in :: "(i32 \<Rightarrow> nat) \<Rightarrow> Position \<Rightarrow> nat" where
  "growth_in G p = (\<Sum>z \<in> {pos_tick_lower_index p..<pos_tick_upper_index p}. G z)"

lemma growth_in_below:
  assumes "tick_in_range (pos_tick_lower_index p)" "pos_tick_lower_index p < pos_tick_upper_index p"
  shows "below G (pos_tick_upper_index p) = below G (pos_tick_lower_index p) + growth_in G p"
proof -
  have "{MIN_TICK_INDEX - 1..<pos_tick_upper_index p}
      = {MIN_TICK_INDEX - 1..<pos_tick_lower_index p} \<union> {pos_tick_lower_index p..<pos_tick_upper_index p}"
    using assms by (auto simp: tick_in_range_def)
  then show ?thesis unfolding below_def growth_in_def by (simp only:) (rule sum.union_disjoint, auto)
qed

lemma share_promised:
  assumes "tick_in_range (pos_tick_lower_index p)" "tick_in_range (pos_tick_upper_index p)" "pos_whirlpool p = k"
  shows "real (unat (pos_liquidity p)) * real (growth_in G p) / 2 ^ 64 = promised_total (\<lambda>t. active_share k t p) G"
proof -
  let ?l = "pos_tick_lower_index p" and ?u = "pos_tick_upper_index p" and ?n = "of_int (uint (pos_liquidity p)) :: real"
  have "(\<Sum>z \<in> {MIN_TICK_INDEX - 1..MAX_TICK_INDEX}. of_int (active_share k z p) * real (G z))
      = (\<Sum>z \<in> {?l..<?u}. of_int (active_share k z p) * real (G z))"
    by (rule sum.mono_neutral_right) (use assms in \<open>auto simp: active_share_def tick_in_range_def\<close>)
  also have "\<dots> = (\<Sum>z \<in> {?l..<?u}. ?n * real (G z))"
    by (rule sum.cong) (use assms(3) in \<open>simp_all add: active_share_def\<close>)
  finally show ?thesis by (simp add: promised_total_def growth_in_def sum_distrib_left)
qed

lemma promised_total_total:
  "promised_total (\<lambda>t. total (g t) m) G = total (\<lambda>p. promised_total (\<lambda>t. g t p) G) m"
proof -
  let ?T = "{MIN_TICK_INDEX - 1..MAX_TICK_INDEX}"
  have "(\<Sum>z \<in> ?T. of_int (total (g z) m) * real (G z))
      = (\<Sum>z \<in> ?T. \<Sum>q \<in> UNIV. case m q of None \<Rightarrow> 0 | Some p \<Rightarrow> of_int (g z p) * real (G z))"
    unfolding total_def of_int_sum sum_distrib_right by (intro sum.cong refl) (simp split: option.splits)
  also have "\<dots> = (\<Sum>q \<in> UNIV. \<Sum>z \<in> ?T. case m q of None \<Rightarrow> 0 | Some p \<Rightarrow> of_int (g z p) * real (G z))"
    by (rule sum.swap)
  finally show ?thesis
    unfolding promised_total_def total_def sum_divide_distrib [symmetric]
    by (simp only:) (auto intro!: sum.cong simp: sum_divide_distrib split: option.splits)
qed

lemma promised_tally:
  assumes pos: "\<And>q p. positions q = Some p \<Longrightarrow> pos_whirlpool p = k \<Longrightarrow> tick_in_range (pos_tick_lower_index p)
      \<and> tick_in_range (pos_tick_upper_index p)"
  shows "tally (\<lambda>q p. position_debt a k n p (e q + growth_in G p)) positions
    = tally (\<lambda>q p. position_debt a k n p (e q)) positions + promised_total (active positions k) G"
proof -
  let ?g = "\<lambda>p. promised_total (\<lambda>t. active_share k t p) G"
  have "position_debt a k n p (e q + growth_in G p) = position_debt a k n p (e q) + ?g p" if q: "positions q = Some p" for q p
  proof (cases "pos_whirlpool p = k")
    case True
    have "real (unat (pos_liquidity p)) * real (e q + growth_in G p) / 2 ^ 64
        = real (unat (pos_liquidity p)) * real (e q) / 2 ^ 64 + ?g p"
      using share_promised [OF _ _ True, of G] pos [OF q True] by (simp only: of_nat_add distrib_left add_divide_distrib)
    then show ?thesis using True by (simp only: position_debt_def if_True refl add.assoc)
  next
    case False
    then show ?thesis by (simp add: position_debt_def promised_total_def active_share_def)
  qed
  then have "tally (\<lambda>q p. position_debt a k n p (e q + growth_in G p)) positions
      = tally (\<lambda>q p. position_debt a k n p (e q) + ?g p) positions" by (rule tally_cong)
  also have "\<dots> = tally (\<lambda>q p. position_debt a k n p (e q)) positions + total ?g positions"
    unfolding tally_add tally_total ..
  finally show ?thesis unfolding active_total promised_total_total .
qed

definition arrays_apart :: "pubkey \<Rightarrow> u16 \<Rightarrow> tick_arrays \<Rightarrow> bool" where
  "arrays_apart k s arrays \<longleftrightarrow> (\<forall>x x' ta tb y. arrays x = Some ta \<longrightarrow> arrays x' = Some tb \<longrightarrow> ta_whirlpool ta = k \<longrightarrow>
     ta_whirlpool tb = k \<longrightarrow> holds_tick s ta y \<longrightarrow> holds_tick s tb y \<longrightarrow> x = x')"

lemma accounted_apart:
  assumes acc: "accounted rt lg" and ok: "ledger_ok lg" and w: "lg_pools lg k = Some w"
  shows "arrays_apart k (wp_tick_spacing w) (lg_arrays lg)"
proof -
  have aa: "arrays_accounted rt (lg_pools lg) (net_total (lg_positions lg)) (gross_total (lg_positions lg)) (lg_arrays lg)"
    and oka: "tick_arrays_ok (lg_pools lg) (lg_arrays lg)"
    using acc ok by (simp_all add: accounted_def ledger_ok_def)
  show ?thesis
    unfolding arrays_apart_def using one_array [OF aa oka] w by metis
qed

lemma position_ranges:
  assumes ok: "ledger_ok lg" and p: "lg_positions lg q = Some p"
  shows "tick_in_range (pos_tick_lower_index p) \<and> tick_in_range (pos_tick_upper_index p)
    \<and> pos_tick_lower_index p < pos_tick_upper_index p"
proof -
  have "tied (lg_pools lg) (pos_whirlpool p) (\<lambda>s. position_ok s p)"
    using ok p by (auto simp: ledger_ok_def positions_ok_def)
  then show ?thesis by (auto simp: tied_def position_ok_def usable_tick_def split: option.splits)
qed

text \<open>The arrays that a swap stores, and those that it leaves alone.\<close>

lemma swapped_recorded:
  assumes arr: "arrays_of m keys = Inr arrays" and keys: "distinct keys" and len: "length arrays' = length arrays"
    and own: "\<forall>ta \<in> set arrays. ta_whirlpool ta = k" and ap: "arrays_apart k s m"
    and old: "\<And>x ta. m x = Some ta \<Longrightarrow> ta_whirlpool ta = k \<Longrightarrow> recorded s a B g cur ta"
    and rec: "all_recorded s a B' g' cur' arrays'"
    and rest: "\<And>y. elsewhere s arrays y \<Longrightarrow> stored B' g' cur' y = stored B g cur y"
    and x: "store_arrays m keys arrays' x = Some ta" and k: "ta_whirlpool ta = k"
  shows "recorded s a B' g' cur' ta"
proof (cases "x \<in> set keys")
  case True
  then obtain i where i: "i < length keys" "keys ! i = x" by (auto simp: in_set_conv_nth)
  have "length arrays = length keys" using arg_cong [OF arr [unfolded arrays_of_Inr_iff], of length] by simp
  then have "ta = arrays' ! i" "i < length arrays'" using x i len store_arrays_nth [OF keys i(1), of arrays' m] by auto
  then show ?thesis using rec by (simp add: all_recorded_def)
next
  case False
  then have mx: "m x = Some ta" using x by (simp add: store_arrays_other)
  have "elsewhere s arrays y" if y: "holds_tick s ta y" for y
  proof -
    have "\<not> holds_tick s tb y" if tb: "tb \<in> set arrays" for tb
    proof
      assume h: "holds_tick s tb y"
      obtain x' where x': "x' \<in> set keys" "m x' = Some tb" using arrays_of_owner [OF arr tb] by blast
      have "x = x'" using ap mx x'(2) k own tb y h unfolding arrays_apart_def by blast
      then show False using x'(1) False by simp
    qed
    then show ?thesis using y by (auto simp: elsewhere_def holds_tick_def)
  qed
  then show ?thesis using old [OF mx k] rest by (simp add: recorded_def)
qed

lemma after_swap_fields:
  assumes w': "w' = update_after_swap w l t pr g infos f a_to_b ts"
  shows "wp_tick_spacing w' = wp_tick_spacing w" "wp_tick_current_index w' = t" "wp_sqrt_price w' = pr"
    "fee_growth a_to_b w' = g" "fee_growth (\<not> a_to_b) w' = fee_growth (\<not> a_to_b) w"
    "protocol_owed a_to_b w' = protocol_owed a_to_b w + f" "protocol_owed (\<not> a_to_b) w' = protocol_owed (\<not> a_to_b) w"
  by (simp_all add: w' update_after_swap_def Let_def fee_growth_def protocol_owed_def)

text \<open>The arrays of a swap do not overlap.\<close>

lemma borrowed_apart:
  assumes arr: "arrays_of m keys = Inr arrays" and keys: "distinct keys" and own: "\<forall>ta \<in> set arrays. ta_whirlpool ta = k"
    and ap: "arrays_apart k s m"
  shows "apart s arrays"
  unfolding apart_def
proof (intro allI impI)
  fix i j y assume i: "i < length arrays" and j: "j < length arrays"
    and h: "holds_tick s (arrays ! i) y" "holds_tick s (arrays ! j) y"
  have klen: "length arrays = length keys" using arg_cong [OF arr [unfolded arrays_of_Inr_iff], of length] by simp
  have at: "m (keys ! n) = Some (arrays ! n)" if "n < length arrays" for n
    using arr [unfolded arrays_of_Inr_iff] that klen by (metis nth_map)
  have "keys ! i = keys ! j" using ap at [OF i] at [OF j] own i j h unfolding arrays_apart_def by (meson nth_mem)
  then show "i = j" using keys i j klen by (simp add: nth_eq_iff_index_eq)
qed

text \<open>The price moves and the growth promises \<open>G\<close>: what the debt gains is what the vault gains.\<close>

lemma backed_trade:
  assumes ranges: "\<And>q p. positions q = Some p \<Longrightarrow> tick_in_range (pos_tick_lower_index p) \<and> tick_in_range (pos_tick_upper_index p)
      \<and> pos_tick_lower_index p < pos_tick_upper_index p"
    and known: "growth_known a k B e positions" and debt: "debt a k w e positions \<le> v"
    and rec: "pool_recorded a k w' (\<lambda>y. B y + of_nat (below G y)) arrays"
    and gain: "pool_gain a (active positions k) (unat (wp_sqrt_price w)) (unat (wp_sqrt_price w')) + real (unat (protocol_owed a w'))
      + promised_total (active positions k) G \<le> real (unat (protocol_owed a w)) + n"
  shows "backed a k w' positions arrays (v + n)"
proof -
  let ?B = "\<lambda>y. B y + of_nat (below G y)" and ?e = "\<lambda>q. e q + (case positions q of None \<Rightarrow> 0 | Some p \<Rightarrow> growth_in G p)"
  let ?L = "active positions k" and ?x = "unat (wp_sqrt_price w)" and ?y = "unat (wp_sqrt_price w')"
  have "growth_known a k ?B ?e positions"
    unfolding growth_known_def
  proof (intro allI impI)
    fix q and p :: Position assume p: "positions q = Some p" "pos_whirlpool p = k" "pos_liquidity p \<noteq> 0"
    have "of_nat (e q) = B (pos_tick_upper_index p) - B (pos_tick_lower_index p) - checkpoint a p"
      using known p unfolding growth_known_def by blast
    then show "of_nat (?e q) = ?B (pos_tick_upper_index p) - ?B (pos_tick_lower_index p) - checkpoint a p"
      using growth_in_below [of p G] ranges [OF p(1)] by (simp add: p(1))
  qed
  moreover have "debt a k w' ?e positions \<le> v + n"
  proof -
    have "debt a k w' ?e positions = real (unat (protocol_owed a w'))
        + tally (\<lambda>q p. position_debt a k ?y p (e q + growth_in G p)) positions"
      unfolding debt_def by (simp cong: tally_cong)
    also have "\<dots> = real (unat (protocol_owed a w'))
        + (tally (\<lambda>q p. position_debt a k ?x p (e q)) positions + pool_gain a ?L ?x ?y + promised_total ?L G)"
      by (subst promised_tally) (use ranges in blast, subst worth_gain [of positions k a ?y e ?x], use ranges in blast, simp)
    finally show ?thesis using debt gain unfolding debt_def by linarith
  qed
  ultimately show ?thesis using rec unfolding backed_def by blast
qed

lemma below_0: "below (\<lambda>_. 0) y = 0" "promised_total L (\<lambda>_. 0) = 0"
  by (simp_all add: below_def promised_total_def)

lemma backed_swap:
  assumes acc: "accounted rt lg" and ok: "ledger_ok lg" and neg: "nets_negatable (lg_positions lg)"
    and w: "lg_pools lg k = Some w" and arr: "arrays_of (lg_arrays lg) keys = Inr arrays"
    and keys: "keys \<noteq> []" "distinct keys" and own: "\<forall>ta \<in> set arrays. ta_whirlpool ta = k"
    and r: "swap w arrays amount limit inp a_to_b ts = Some (Inr (u, arrays'))"
    and w': "w' = update_after_swap w (ps_next_liquidity u) (ps_next_tick_index u) (ps_next_sqrt_price u)
      (ps_next_fee_growth_global u) (ps_next_reward_infos u) (ps_next_protocol_fee u) a_to_b ts"
    and b: "backed a_to_b k w (lg_positions lg) (lg_arrays lg) vin" "backed (\<not> a_to_b) k w (lg_positions lg) (lg_arrays lg) vout"
  shows "backed a_to_b k w' (lg_positions lg) (store_arrays (lg_arrays lg) keys arrays') (vin + real (unat (swap_input a_to_b u)))"
    "backed (\<not> a_to_b) k w' (lg_positions lg) (store_arrays (lg_arrays lg) keys arrays') (vout - real (unat (swap_output a_to_b u)))"
proof -
  let ?ps = "lg_positions lg" and ?s = "wp_tick_spacing w" and ?t = "wp_tick_current_index w" and ?L = "active (lg_positions lg) k"
  let ?x = "unat (wp_sqrt_price w)" and ?y = "unat (ps_next_sqrt_price u)"
  have wok: "pool_ok w" "whirlpool_ok w" using ok w by (auto simp: ledger_ok_def pools_ok_def)
  have rate: "wp_protocol_fee_rate w \<le> MAX_PROTOCOL_FEE_RATE" using wok(2) by (simp add: whirlpool_ok_def)
  note sq = ledger_sequence_ok [OF ok w arr keys(1) own] and prof = accounted_profile [OF acc ok neg w arr own]
  have liq: "uint (wp_liquidity w) = ?L ?t" using acc w by (simp add: accounted_def pools_accounted_def)
  note apart = accounted_apart [OF acc ok w] and ranges = position_ranges [OF ok]
  have len: "length arrays' = length arrays" using arg_cong [OF swap_liquidity [OF r], of length] by simp
  obtain B e where B: "pool_recorded a_to_b k w B (lg_arrays lg)" "growth_known a_to_b k B e ?ps" "debt a_to_b k w e ?ps \<le> vin"
    using b(1) by (auto simp: backed_def)
  obtain C f where C: "pool_recorded (\<not> a_to_b) k w C (lg_arrays lg)" "growth_known (\<not> a_to_b) k C f ?ps"
    "debt (\<not> a_to_b) k w f ?ps \<le> vout" using b(2) by (auto simp: backed_def)
  have og: "other_growth w (\<not> a_to_b) = fee_growth a_to_b w" "other_growth w a_to_b = fee_growth (\<not> a_to_b) w"
    by (auto simp: other_growth_def fee_growth_def)
  have held: "\<exists>x. lg_arrays lg x = Some ta" if "ta \<in> set arrays" for ta using arrays_of_owner [OF arr that] by blast
  have ri: "all_recorded ?s a_to_b B (other_growth w (\<not> a_to_b)) ?t arrays"
    and ro: "all_recorded ?s (\<not> a_to_b) C (other_growth w a_to_b) ?t arrays"
    using B(1) C(1) own held unfolding all_recorded_def pool_recorded_def og by blast+
  obtain G where G: "pool_gain a_to_b ?L ?x ?y + real (unat (ps_next_protocol_fee u)) + promised_total ?L G
        \<le> real (unat (if a_to_b then ps_amount_a u else ps_amount_b u))"
    and out: "real (unat (if a_to_b then ps_amount_b u else ps_amount_a u)) \<le> - pool_gain (\<not> a_to_b) ?L ?x ?y"
    and ri': "all_recorded ?s a_to_b (\<lambda>y. B y + of_nat (below G y)) (ps_next_fee_growth_global u) (ps_next_tick_index u) arrays'"
    and ro': "all_recorded ?s (\<not> a_to_b) C (other_growth w a_to_b) (ps_next_tick_index u) arrays'"
    and sp: "spanned ?s arrays ?t (ps_next_tick_index u)"
    and el: "\<And>y. elsewhere ?s arrays y \<Longrightarrow> stored (\<lambda>y. B y + of_nat (below G y)) (ps_next_fee_growth_global u) (ps_next_tick_index u) y
        = stored B (other_growth w (\<not> a_to_b)) ?t y"
    using swap_growth [OF wok(1) sq rate r prof liq borrowed_apart [OF arr keys(2) own apart] ri ro] by blast
  note fields = after_swap_fields [OF w']
  show "backed a_to_b k w' ?ps (store_arrays (lg_arrays lg) keys arrays') (vin + real (unat (swap_input a_to_b u)))"
  proof (rule backed_trade [OF ranges B(2,3), where G = G])
    show "pool_recorded a_to_b k w' (\<lambda>y. B y + of_nat (below G y)) (store_arrays (lg_arrays lg) keys arrays')"
      unfolding pool_recorded_def fields
      by (intro allI impI, rule swapped_recorded [OF arr keys(2) len own apart _ ri'])
        (use B(1) el in \<open>simp_all add: pool_recorded_def og\<close>)
    have "unat (protocol_owed a_to_b w') \<le> unat (protocol_owed a_to_b w) + unat (ps_next_protocol_fee u)"
      unfolding fields(6) by (simp add: unat_word_ariths(1))
    then have "real (unat (protocol_owed a_to_b w')) \<le> real (unat (protocol_owed a_to_b w)) + real (unat (ps_next_protocol_fee u))"
      unfolding of_nat_add [symmetric] of_nat_le_iff .
    then show "pool_gain a_to_b ?L ?x (unat (wp_sqrt_price w')) + real (unat (protocol_owed a_to_b w')) + promised_total ?L G
        \<le> real (unat (protocol_owed a_to_b w)) + real (unat (swap_input a_to_b u))"
      using G unfolding fields(3) swap_input_def by linarith
  qed
  have same: "stored C g (ps_next_tick_index u) y = stored C g ?t y" if "elsewhere ?s arrays y" for y g
    using spanned_elsewhere [OF sp that] by (simp add: stored_def)
  have same_C: "(\<lambda>y. C y + of_nat (below (\<lambda>_. 0) y)) = C" by (simp add: below_0)
  have "backed (\<not> a_to_b) k w' ?ps (store_arrays (lg_arrays lg) keys arrays') (vout + (- real (unat (swap_output a_to_b u))))"
  proof (rule backed_trade [OF ranges C(2,3), where G = "\<lambda>_. 0"])
    show "pool_recorded (\<not> a_to_b) k w' (\<lambda>y. C y + of_nat (below (\<lambda>_. 0) y)) (store_arrays (lg_arrays lg) keys arrays')"
      unfolding pool_recorded_def fields same_C
      by (intro allI impI, rule swapped_recorded [OF arr keys(2) len own apart _ ro' [unfolded og]])
        (use C(1) same in \<open>simp_all add: pool_recorded_def\<close>)
    show "pool_gain (\<not> a_to_b) ?L ?x (unat (wp_sqrt_price w')) + real (unat (protocol_owed (\<not> a_to_b) w')) + promised_total ?L (\<lambda>_. 0)
        \<le> real (unat (protocol_owed (\<not> a_to_b) w)) + (- real (unat (swap_output a_to_b u)))"
      using out unfolding fields(3,7) below_0 swap_output_def by linarith
  qed
  then show "backed (\<not> a_to_b) k w' ?ps (store_arrays (lg_arrays lg) keys arrays') (vout - real (unat (swap_output a_to_b u)))"
    by simp
qed

end
