(* ===== verification/Fee_Settlement.thy ===== *)
theory Fee_Settlement
  imports Fee_Account
begin

text \<open>
  Settling a position notes in it no more than the growth that was kept for it, and a change of its
  liquidity leaves the growth of every other position alone: ticks that are in use keep what they
  store, and a tick that comes into use starts where the settled position reckons it to be.
\<close>

section \<open>The growth below a tick, as the code reckons it\<close>

definition tick_growth :: "bool \<Rightarrow> u128 \<Rightarrow> i32 \<Rightarrow> i32 \<Rightarrow> Tick \<Rightarrow> u128" where
  "tick_growth a g cur y t = (if tk_initialized t then stored (\<lambda>_. fee_outside a t) g cur y else g)"

lemma stored_twice [simp]: "stored (\<lambda>_. stored B g cur y) g cur y = B y"
  by (simp add: stored_def)

lemma inside_growth:
  "(if a then fst else snd) (next_fee_growths_inside cur ta l tb u ga gb)
    = tick_growth a (if a then ga else gb) cur u tb - tick_growth a (if a then ga else gb) cur l ta"
  by (auto simp: next_fee_growths_inside_def Let_def case_prod_beta tick_growth_def stored_def fee_outside_def)

lemma written_growth:
  assumes ok: "tick_ok t" and u: "next_tick_modify_liquidity_update t y cur ga gb infos d upper = Inr u"
    and init: "tk_initialized (tick_update default_tick u)"
  shows "fee_outside a (tick_update default_tick u)
    = stored (\<lambda>_. tick_growth a (if a then ga else gb) cur y t) (if a then ga else gb) cur y"
proof (cases "d = 0")
  case True
  then have "tick_update default_tick u = t" using u by (auto simp: next_tick_modify_liquidity_update_def)
  then show ?thesis using init by (simp add: tick_growth_def stored_def)
next
  case False
  show ?thesis using u False
  proof (cases rule: modify_liquidity_update_cases)
    case 1
    then show ?thesis using init by (simp add: tick_update_default default_tick_def)
  next
    case (2 g n)
    show ?thesis
    proof (cases "tk_liquidity_gross t = 0")
      case True
      then show ?thesis using 2(9) ok by (auto simp: tick_ok_def tick_growth_def stored_def fee_outside_def tick_update_def)
    next
      case False
      then show ?thesis using 2(8) ok by (auto simp: tick_ok_def tick_growth_def stored_def fee_outside_def tick_update_def)
    qed
  qed
qed

section \<open>A tick is written\<close>

definition pool_arrays :: "pubkey \<Rightarrow> u16 \<Rightarrow> tick_arrays \<Rightarrow> bool" where
  "pool_arrays k s arrays \<longleftrightarrow> arrays_apart k s arrays \<and> (\<forall>x ta. arrays x = Some ta \<longrightarrow> ta_whirlpool ta = k \<longrightarrow> tick_array_ok s ta)"

lemma tick_written:
  assumes arr: "pool_arrays k s arrays" and own: "arrays x0 = Some ta0" "ta_whirlpool ta0 = k"
    and upd: "update_array_tick arrays x0 t s u = Inr arrays'"
    and rec: "\<forall>x ta. arrays x = Some ta \<longrightarrow> ta_whirlpool ta = k \<longrightarrow> recorded s a B g cur ta"
    and new: "tk_initialized (tick_update default_tick u) \<longrightarrow> fee_outside a (tick_update default_tick u) = stored (\<lambda>_. b) g cur t"
  shows "\<forall>x ta'. arrays' x = Some ta' \<longrightarrow> ta_whirlpool ta' = k \<longrightarrow> recorded s a (B(t := b)) g cur ta'"
    "pool_arrays k s arrays'" "arrays x = Some ta \<Longrightarrow> \<exists>ta'. arrays' x = Some ta' \<and> ta_whirlpool ta' = ta_whirlpool ta"
    "ta_whirlpool ta' \<noteq> k \<Longrightarrow> arrays' x = Some ta' \<Longrightarrow> arrays x = Some ta'"
proof -
  have tok: "tick_array_ok s ta0" using arr own by (auto simp: pool_arrays_def)
  obtain tb where up: "update_tick ta0 t s u = Inr tb" and arrays': "arrays' = arrays(x0 \<mapsto> tb)"
    using update_array_tick_Inr [OF upd] own(1) by (metis option.inject)
  then have ht: "holds_tick s ta0 t"
    and tb: "tb = ta0\<lparr>ta_ticks := (ta_ticks ta0)[slot s ta0 t := tick_update default_tick u]\<rparr>"
    by (auto simp: update_tick_eq [OF tok] split: if_splits)
  note ok' = update_tick_ok [OF tok up]
  have len: "slot s ta0 t < length (ta_ticks ta0)" using slot_bounds(2) [OF tok ht] tick_array_okD(3) [OF tok] by simp
  have h: "holds_tick s tb y \<longleftrightarrow> holds_tick s ta0 y" "slot s tb y = slot s ta0 y" for y
    unfolding tb by (simp_all add: update_tick_holds)
  show "arrays x = Some ta \<Longrightarrow> \<exists>ta'. arrays' x = Some ta' \<and> ta_whirlpool ta' = ta_whirlpool ta"
    using own ok'(3) by (auto simp: arrays')
  show "ta_whirlpool ta' \<noteq> k \<Longrightarrow> arrays' x = Some ta' \<Longrightarrow> arrays x = Some ta'"
    using own ok'(3) by (auto simp: arrays' split: if_splits)
  have held: "\<exists>ta. arrays y = Some ta \<and> ta_whirlpool ta = k \<and> (\<forall>z. holds_tick s ta z \<longleftrightarrow> holds_tick s tc z)"
    if "arrays' y = Some tc" "ta_whirlpool tc = k" for y tc
    using that own h by (cases "y = x0") (auto simp: arrays')
  have "arrays_apart k s arrays" using arr by (simp add: pool_arrays_def)
  then have ap': "arrays_apart k s arrays'" unfolding arrays_apart_def using held by metis
  have "tick_array_ok s tc" if "arrays' y = Some tc" "ta_whirlpool tc = k" for y tc
    using that arr ok'(1) by (cases "y = x0") (auto simp: arrays' pool_arrays_def)
  then show "pool_arrays k s arrays'" using ap' by (auto simp: pool_arrays_def)
  have "recorded s a (B(t := b)) g cur ta'" if x: "arrays' x = Some ta'" "ta_whirlpool ta' = k" for x ta'
  proof (cases "x = x0")
    case True
    then have t': "ta' = tb" using x by (simp add: arrays')
    show ?thesis
      unfolding t' recorded_def
    proof (intro allI impI)
      fix y assume y: "holds_tick s tb y" "tk_initialized (tick_in s tb y)"
      show "fee_outside a (tick_in s tb y) = stored (B(t := b)) g cur y"
      proof (cases "y = t")
        case True
        then have "tick_in s tb y = tick_update default_tick u" unfolding h(2) True using len by (simp add: tb)
        then show ?thesis using new y(2) True by (simp add: stored_def)
      next
        case False
        then have "slot s ta0 y \<noteq> slot s ta0 t" using slot_inj [OF tok _ ht] y(1) h(1) by blast
        then have same: "tick_in s tb y = tick_in s ta0 y" unfolding h(2) by (simp add: tb)
        have "recorded s a B g cur ta0" using rec own by blast
        then show ?thesis using same y False h(1) by (simp add: recorded_def stored_def)
      qed
    qed
  next
    case False
    then have old: "arrays x = Some ta'" using x by (simp add: arrays')
    have "\<not> holds_tick s ta' t" using \<open>arrays_apart k s arrays\<close> old x(2) own ht False unfolding arrays_apart_def by blast
    moreover have "recorded s a B g cur ta'" using rec old x(2) by blast
    ultimately show ?thesis by (auto simp: recorded_def stored_def)
  qed
  then show "\<forall>x ta'. arrays' x = Some ta' \<longrightarrow> ta_whirlpool ta' = k \<longrightarrow> recorded s a (B(t := b)) g cur ta'" by blast
qed

section \<open>A position is settled\<close>

lemma earned_le:
  assumes "of_nat e = g"
  shows "real (earned l g) \<le> real (unat l) * real e / 2 ^ 64"
proof -
  have "unat g \<le> e" using assms by (auto simp: unat_of_nat)
  then have "unat l * unat g \<le> unat l * e" by simp
  then have le: "real (unat l * unat g) \<le> real (unat l * e)" by (simp only: of_nat_le_iff)
  have "earned l g \<le> unat l * unat g div 2 ^ 64" by (simp add: earned_def)
  then have "real (earned l g) \<le> real (unat l * unat g div 2 ^ 64)" by (simp only: of_nat_le_iff)
  also have "\<dots> \<le> real (unat l * unat g) / real (2 ^ 64)" by (rule div_real)
  also have "\<dots> \<le> real (unat l * e) / real (2 ^ 64)" using le by (rule divide_right_mono) simp
  finally show ?thesis by (simp only: of_nat_mult of_nat_power of_nat_numeral)
qed

lemma tally_change:
  assumes "positions q = Some p" "\<And>q' p'. q' \<noteq> q \<Longrightarrow> f' q' p' = f q' p'"
  shows "tally f' (positions(q \<mapsto> p')) = tally f positions - f q p + f' q p'"
proof -
  have "tally f' (positions(q := None)) = tally f (positions(q := None))"
    by (rule tally_cong) (use assms(2) in \<open>auto split: if_splits\<close>)
  then show ?thesis
    using tally_upd [of f positions q None] tally_upd [of f' "positions(q := None)" q "Some p'"] assms(1) by simp
qed

lemma settled_known:
  assumes known: "growth_known a k B e positions" and p: "positions q = Some p" "pos_whirlpool p = k"
    and others: "\<And>q' p'. positions q' = Some p' \<Longrightarrow> pos_whirlpool p' = k \<Longrightarrow> pos_liquidity p' \<noteq> 0 \<Longrightarrow>
      B' (pos_tick_upper_index p') = B (pos_tick_upper_index p') \<and> B' (pos_tick_lower_index p') = B (pos_tick_lower_index p')"
    and g: "g = B' (pos_tick_upper_index p) - B' (pos_tick_lower_index p)"
    and p': "position_kept p p'" "checkpoint a p' = g"
      "fee_owed a p' = fee_owed a p + of_nat (earned (pos_liquidity p) (g - checkpoint a p))"
  shows "growth_known a k B' (e(q := 0)) (positions(q \<mapsto> p'))"
    "tally (\<lambda>r p. position_debt a k n p ((e(q := 0)) r)) (positions(q \<mapsto> p'))
      \<le> tally (\<lambda>q p. position_debt a k n p (e q)) positions - position_worth a n p + position_worth a n p'" (is "?new \<le> ?old - _ + _")
proof -
  have k: "pos_whirlpool p' = k" using p p'(1) by (simp add: position_kept_def)
  show "growth_known a k B' (e(q := 0)) (positions(q \<mapsto> p'))"
    unfolding growth_known_def
  proof (intro allI impI)
    fix r and x :: Position assume x: "(positions(q \<mapsto> p')) r = Some x" "pos_whirlpool x = k" "pos_liquidity x \<noteq> 0"
    show "of_nat ((e(q := 0)) r) = B' (pos_tick_upper_index x) - B' (pos_tick_lower_index x) - checkpoint a x"
    proof (cases "r = q")
      case True
      then have "x = p'" using x(1) by simp
      then show ?thesis using True p'(1,2) g by (simp add: position_kept_def)
    next
      case False
      then have "positions r = Some x" using x(1) by simp
      then show ?thesis using known others [of r x] x(2,3) False by (simp add: growth_known_def)
    qed
  qed
  have "real (earned (pos_liquidity p) (g - checkpoint a p)) \<le> real (unat (pos_liquidity p)) * real (e q) / 2 ^ 64"
  proof (cases "pos_liquidity p = 0")
    case False
    have "of_nat (e q) = g - checkpoint a p"
      using known p False others [OF p False] unfolding growth_known_def g by metis
    then show ?thesis by (rule earned_le)
  qed simp
  moreover have "unat (fee_owed a p') \<le> unat (fee_owed a p) + earned (pos_liquidity p) (g - checkpoint a p)"
    unfolding p'(3) by (rule unat_add_of_nat_le)
  then have "real (unat (fee_owed a p')) \<le> real (unat (fee_owed a p)) + real (earned (pos_liquidity p) (g - checkpoint a p))"
    unfolding of_nat_add [symmetric] of_nat_le_iff .
  moreover have "position_debt a k n p' 0 = position_worth a n p' + real (unat (fee_owed a p'))"
    "position_debt a k n p (e q) = position_worth a n p + real (unat (fee_owed a p))
      + real (unat (pos_liquidity p)) * real (e q) / 2 ^ 64"
    using k p(2) by (simp_all add: position_debt_def)
  moreover have "?new = ?old - position_debt a k n p (e q) + position_debt a k n p' 0"
    using tally_change [where positions = positions and q = q and p = p and p' = p' and f = "\<lambda>r p. position_debt a k n p (e r)"
        and f' = "\<lambda>r p. position_debt a k n p ((e(q := 0)) r)"] p(1) by simp
  ultimately show "?new \<le> ?old - position_worth a n p + position_worth a n p'" by linarith
qed

section \<open>A change of liquidity\<close>

text \<open>The two ticks of the position, as they were read and as the growth reckons them.\<close>

lemma read_growth:
  assumes acc: "accounted rt lg" and ok: "ledger_ok lg" and w: "lg_pools lg k = Some w"
    and own: "lg_arrays lg x = Some ta" "ta_whirlpool ta = k"
    and rec: "pool_recorded a k w B (lg_arrays lg)"
    and r: "read_array_tick (wp_tick_spacing w) (lg_arrays lg) (x, y) = Inr t"
  shows "tick_ok t"
    "gross_total (lg_positions lg) k y \<noteq> 0 \<Longrightarrow> tick_growth a (fee_growth a w) (wp_tick_current_index w) y t = B y"
proof -
  let ?s = "wp_tick_spacing w"
  have aa: "arrays_accounted rt (lg_pools lg) (net_total (lg_positions lg)) (gross_total (lg_positions lg)) (lg_arrays lg)"
    and oka: "tick_arrays_ok (lg_pools lg) (lg_arrays lg)" using acc ok by (simp_all add: accounted_def ledger_ok_def)
  have ac: "tick_accounted (net_total (lg_positions lg) k y) (gross_total (lg_positions lg) k y) t"
    by (rule array_tick_accounted [OF aa oka own w r])
  then show "tick_ok t" by (simp add: tick_accounted_def)
  have "tied (lg_pools lg) k (\<lambda>s. tick_array_ok s ta)" using oka own by (auto simp: tick_arrays_ok_def)
  then have tok: "tick_array_ok ?s ta" using w by (simp add: tied_Some)
  have h: "holds_tick ?s ta y" "t = tick_in ?s ta y"
    using r own(1) by (auto simp: read_array_tick_def load_tick_array_def get_tick_eq [OF tok] split: if_splits)
  assume "gross_total (lg_positions lg) k y \<noteq> 0"
  then have init: "tk_initialized t" using ac unfolding tick_accounted_def tick_ok_def by force
  then have "fee_outside a t = stored B (fee_growth a w) (wp_tick_current_index w) y"
    using rec own h by (auto simp: pool_recorded_def recorded_def)
  then show "tick_growth a (fee_growth a w) (wp_tick_current_index w) y t = B y"
    using init by (simp add: tick_growth_def)
qed

text \<open>A tick where a position with liquidity ends is in use.\<close>

lemma ends_in_use:
  assumes "positions q = Some p" "pos_whirlpool p = k" "pos_liquidity p \<noteq> 0"
  shows "gross_total positions k (pos_tick_lower_index p) \<noteq> 0" "gross_total positions k (pos_tick_upper_index p) \<noteq> 0"
proof -
  have "0 < uint (pos_liquidity p)" using assms(3) by (simp add: uint_0_iff order_less_le)
  moreover have "gross_share k y p \<le> gross_total positions k y" for y
    unfolding gross_total_def by (rule total_ge [where m = positions, OF assms(1)]) (simp add: gross_share_def)
  moreover have "gross_share k (pos_tick_lower_index p) p = uint (pos_liquidity p)"
    "gross_share k (pos_tick_upper_index p) p = uint (pos_liquidity p)"
    using assms(2) by (simp_all add: gross_share_def)
  ultimately have "0 < gross_total positions k (pos_tick_lower_index p)" "0 < gross_total positions k (pos_tick_upper_index p)"
    by (metis less_le_trans)+
  then show "gross_total positions k (pos_tick_lower_index p) \<noteq> 0" "gross_total positions k (pos_tick_upper_index p) \<noteq> 0"
    by simp_all
qed

lemma position_update_fields:
  assumes u: "next_position_modify_liquidity_update p d ia ib rs = Inr u" and d: "in_i128 d"
  defines "p' \<equiv> position_update p u"
  shows "position_kept p p'" "uint (pos_liquidity p') = uint (pos_liquidity p) + d"
    "checkpoint a p' = (if a then ia else ib)"
    "fee_owed a p' = fee_owed a p + of_nat (earned (pos_liquidity p) ((if a then ia else ib) - checkpoint a p))"
  using u unfolding next_position_update_Inr_iff [OF d]
  by (simp_all add: p'_def position_update_def position_kept_def checkpoint_def fee_owed_def)

section \<open>What a change of liquidity does to the debt\<close>

text \<open>The growth that the two ticks of a position hold after they are updated.\<close>

lemma settled_growth:
  assumes acc: "accounted rt lg" and ok: "ledger_ok lg" and w: "lg_pools lg k = Some w" and p: "pos_whirlpool p = k"
    and al: "lg_arrays lg al = Some tal" "ta_whirlpool tal = k" and au: "lg_arrays lg au = Some tau" "ta_whirlpool tau = k"
    and rec: "pool_recorded a k w B (lg_arrays lg)"
    and ra: "read_array_tick (wp_tick_spacing w) (lg_arrays lg) (al, pos_tick_lower_index p) = Inr tl'"
    and rb: "read_array_tick (wp_tick_spacing w) (lg_arrays lg) (au, pos_tick_upper_index p) = Inr tu'"
    and B': "B' = B(pos_tick_lower_index p := tick_growth a (fee_growth a w) (wp_tick_current_index w) (pos_tick_lower_index p) tl',
      pos_tick_upper_index p := tick_growth a (fee_growth a w) (wp_tick_current_index w) (pos_tick_upper_index p) tu')"
    and o: "lg_positions lg r = Some x" "pos_whirlpool x = k" "pos_liquidity x \<noteq> 0"
  shows "B' (pos_tick_upper_index x) = B (pos_tick_upper_index x) \<and> B' (pos_tick_lower_index x) = B (pos_tick_lower_index x)"
proof -
  note ends = ends_in_use [where positions = "lg_positions lg", OF o]
  have "B' y = B y" if "gross_total (lg_positions lg) k y \<noteq> 0" for y
    using that read_growth(2) [OF acc ok w al rec ra] read_growth(2) [OF acc ok w au rec rb] unfolding B' fun_upd_apply by metis
  then show ?thesis using ends by blast
qed

lemma rewards_leave:
  "wp_tick_spacing (update_rewards w infos ts) = wp_tick_spacing w"
  "wp_tick_current_index (update_rewards w infos ts) = wp_tick_current_index w"
  "wp_sqrt_price (update_rewards w infos ts) = wp_sqrt_price w"
  "fee_growth a (update_rewards w infos ts) = fee_growth a w"
  "protocol_owed a (update_rewards w infos ts) = protocol_owed a w"
  "wp_tick_spacing (update_rewards_and_liquidity w infos l ts) = wp_tick_spacing w"
  "wp_tick_current_index (update_rewards_and_liquidity w infos l ts) = wp_tick_current_index w"
  "wp_sqrt_price (update_rewards_and_liquidity w infos l ts) = wp_sqrt_price w"
  "fee_growth a (update_rewards_and_liquidity w infos l ts) = fee_growth a w"
  "protocol_owed a (update_rewards_and_liquidity w infos l ts) = protocol_owed a w"
  by (simp_all add: update_rewards_and_liquidity_def update_rewards_def fee_growth_def protocol_owed_def)

lemma settled_debt:
  assumes acc: "accounted rt lg" and ok: "ledger_ok lg" and w: "lg_pools lg k = Some w"
    and p: "lg_positions lg q = Some p" "pos_whirlpool p = k" and d: "in_i128 d"
    and al: "lg_arrays lg al = Some tal" "ta_whirlpool tal = k" and au: "lg_arrays lg au = Some tau" "ta_whirlpool tau = k"
    and B: "pool_recorded a k w B (lg_arrays lg)" "growth_known a k B e (lg_positions lg)"
    and ra: "read_array_tick (wp_tick_spacing w) (lg_arrays lg) (al, pos_tick_lower_index p) = Inr tl'"
    and rb: "read_array_tick (wp_tick_spacing w) (lg_arrays lg) (au, pos_tick_upper_index p) = Inr tu'"
    and mp: "\<And>ia ib. next_fee_growths_inside (wp_tick_current_index w) tl' (pos_tick_lower_index p) tu' (pos_tick_upper_index p)
        (wp_fee_growth_global_a w) (wp_fee_growth_global_b w) = (ia, ib) \<Longrightarrow>
      next_position_modify_liquidity_update p d ia ib (rs ia ib) = Inr u"
    and B': "B' = B(pos_tick_lower_index p := tick_growth a (fee_growth a w) (wp_tick_current_index w) (pos_tick_lower_index p) tl',
      pos_tick_upper_index p := tick_growth a (fee_growth a w) (wp_tick_current_index w) (pos_tick_upper_index p) tu')"
  shows "growth_known a k B' (e(q := 0)) ((lg_positions lg)(q \<mapsto> position_update p u))"
    "tally (\<lambda>r p. position_debt a k n p ((e(q := 0)) r)) ((lg_positions lg)(q \<mapsto> position_update p u))
      \<le> tally (\<lambda>r p. position_debt a k n p (e r)) (lg_positions lg) - position_worth a n p + position_worth a n (position_update p u)"
proof -
  obtain ia ib where i: "next_fee_growths_inside (wp_tick_current_index w) tl' (pos_tick_lower_index p) tu' (pos_tick_upper_index p)
    (wp_fee_growth_global_a w) (wp_fee_growth_global_b w) = (ia, ib)" by (meson surj_pair)
  have lt: "pos_tick_lower_index p < pos_tick_upper_index p" using position_ranges [OF ok p(1)] by blast
  have gi: "(if a then ia else ib) = B' (pos_tick_upper_index p) - B' (pos_tick_lower_index p)"
    using inside_growth [of a "wp_tick_current_index w" tl' "pos_tick_lower_index p" tu' "pos_tick_upper_index p"
        "wp_fee_growth_global_a w" "wp_fee_growth_global_b w"] lt
    by (simp add: i B' fee_growth_def) (simp split: if_splits)
  note others = settled_growth [OF acc ok w p(2) al au B(1) ra rb B']
  note f = position_update_fields [OF mp [OF i] d]
  note known = settled_known [OF B(2) p others gi f(1,3,4)]
  show "growth_known a k B' (e(q := 0)) ((lg_positions lg)(q \<mapsto> position_update p u))" by (rule known(1))
  show "tally (\<lambda>r p. position_debt a k n p ((e(q := 0)) r)) ((lg_positions lg)(q \<mapsto> position_update p u))
      \<le> tally (\<lambda>r p. position_debt a k n p (e r)) (lg_positions lg) - position_worth a n p + position_worth a n (position_update p u)"
    by (rule known(2))
qed

lemma liquidity_changed_backed:
  assumes acc: "accounted rt lg" and ok: "ledger_ok lg" and w: "lg_pools lg k = Some w"
    and p: "lg_positions lg q = Some p" "pos_whirlpool p = k" and d: "in_i128 d"
    and al: "lg_arrays lg al = Some tal" "ta_whirlpool tal = k" and au: "lg_arrays lg au = Some tau" "ta_whirlpool tau = k"
    and m: "calculate_modify_liquidity w p (lg_arrays lg) al au d ts = Inr m"
    and s: "sync_modify_liquidity_values w p (lg_arrays lg) al au m ts = Inr (w', p', arrays)"
    and b: "backed a k w (lg_positions lg) (lg_arrays lg) v"
  shows "backed a k w' ((lg_positions lg)(q \<mapsto> p')) arrays
    (v - position_worth a (unat (wp_sqrt_price w)) p + position_worth a (unat (wp_sqrt_price w)) p')"
proof -
  let ?s = "wp_tick_spacing w" and ?t = "wp_tick_current_index w" and ?g = "fee_growth a w"
  let ?l = "pos_tick_lower_index p" and ?u = "pos_tick_upper_index p"
  have lt: "?l < ?u" using position_ranges [OF ok p(1)] by blast
  obtain B e where B: "pool_recorded a k w B (lg_arrays lg)" "growth_known a k B e (lg_positions lg)"
    "debt a k w e (lg_positions lg) \<le> v" using b by (auto simp: backed_def)
  obtain x y where
    ra: "read_array_tick ?s (lg_arrays lg) (al, ?l) = Inr x" and rb: "read_array_tick ?s (lg_arrays lg) (au, ?u) = Inr y" and
    ma: "next_tick_modify_liquidity_update x ?l ?t (wp_fee_growth_global_a w)
      (wp_fee_growth_global_b w) (ml_reward_infos m) d False = Inr (ml_tick_lower_update m)" and
    mb: "next_tick_modify_liquidity_update y ?u ?t (wp_fee_growth_global_a w)
      (wp_fee_growth_global_b w) (ml_reward_infos m) d True = Inr (ml_tick_upper_update m)" and
    mp: "\<And>ia ib. next_fee_growths_inside ?t x ?l y ?u (wp_fee_growth_global_a w) (wp_fee_growth_global_b w) = (ia, ib) \<Longrightarrow>
       next_position_modify_liquidity_update p d ia ib (next_reward_growths_inside ?t x ?l y ?u (ml_reward_infos m))
         = Inr (ml_position_update m)"
    using m by (cases rule: modify_liquidity_Inr) blast
  obtain arrays1 where
    w1: "update_array_tick (lg_arrays lg) al ?l ?s (ml_tick_lower_update m) = Inr arrays1" and
    w2: "update_array_tick arrays1 au ?u ?s (ml_tick_upper_update m) = Inr arrays" and
    w': "w' = update_rewards_and_liquidity w (ml_reward_infos m) (ml_whirlpool_liquidity m) ts" and
    p': "p' = position_update p (ml_position_update m)"
    by (rule sync_modify_liquidity_Inr [OF s])
  define bl where "bl = tick_growth a ?g ?t ?l x"
  define bu where "bu = tick_growth a ?g ?t ?u y"
  define B' where "B' = B(?l := bl, ?u := bu)"
  have g: "?g = (if a then wp_fee_growth_global_a w else wp_fee_growth_global_b w)" by (simp add: fee_growth_def)
  have oka: "tick_arrays_ok (lg_pools lg) (lg_arrays lg)" using ok by (simp add: ledger_ok_def)
  have "tick_array_ok ?s ta" if "lg_arrays lg z = Some ta" "ta_whirlpool ta = k" for z ta
    using oka that w by (fastforce simp: tick_arrays_ok_def tied_Some)
  then have pa: "pool_arrays k ?s (lg_arrays lg)"
    using accounted_apart [OF acc ok w] by (auto simp: pool_arrays_def)
  have rec: "\<forall>z ta. lg_arrays lg z = Some ta \<longrightarrow> ta_whirlpool ta = k \<longrightarrow> recorded ?s a B ?g ?t ta"
    using B(1) by (simp add: pool_recorded_def)
  have nl: "tk_initialized (tick_update default_tick (ml_tick_lower_update m)) \<longrightarrow>
      fee_outside a (tick_update default_tick (ml_tick_lower_update m)) = stored (\<lambda>_. bl) ?g ?t ?l"
    using written_growth [OF read_growth(1) [OF acc ok w al B(1) ra] ma, of a] by (simp add: g bl_def)
  have nu: "tk_initialized (tick_update default_tick (ml_tick_upper_update m)) \<longrightarrow>
      fee_outside a (tick_update default_tick (ml_tick_upper_update m)) = stored (\<lambda>_. bu) ?g ?t ?u"
    using written_growth [OF read_growth(1) [OF acc ok w au B(1) rb] mb, of a] by (simp add: g bu_def)
  note one = tick_written [OF pa al w1 rec nl]
  obtain tau1 where au1: "arrays1 au = Some tau1" "ta_whirlpool tau1 = k" using one(3) [OF au(1)] au(2) by auto
  note two = tick_written [OF one(2) au1 w2 one(1) nu]
  have same: "wp_tick_spacing w' = ?s" "wp_tick_current_index w' = ?t" "fee_growth a w' = ?g"
    by (simp_all add: w' rewards_leave)
  have rec': "pool_recorded a k w' B' arrays"
    using two(1) unfolding pool_recorded_def B'_def same .
  note known = settled_debt [OF acc ok w p d al au B(1,2) ra rb mp B'_def [unfolded bl_def bu_def], folded p']
  have "debt a k w' (e(q := 0)) ((lg_positions lg)(q \<mapsto> p'))
      = real (unat (protocol_owed a w)) + tally (\<lambda>r p. position_debt a k (unat (wp_sqrt_price w)) p ((e(q := 0)) r)) ((lg_positions lg)(q \<mapsto> p'))"
    by (simp add: debt_def w' rewards_leave)
  also have "\<dots> \<le> debt a k w e (lg_positions lg) - position_worth a (unat (wp_sqrt_price w)) p + position_worth a (unat (wp_sqrt_price w)) p'"
    using known(2) [where n = "unat (wp_sqrt_price w)"] unfolding debt_def by linarith
  also have "\<dots> \<le> v - position_worth a (unat (wp_sqrt_price w)) p + position_worth a (unat (wp_sqrt_price w)) p'"
    using B(3) by linarith
  finally show ?thesis using rec' known(1) unfolding backed_def by blast
qed

text \<open>Settling alone leaves the ticks as they are.\<close>

lemma growths_backed:
  assumes acc: "accounted rt lg" and ok: "ledger_ok lg" and w: "lg_pools lg k = Some w"
    and p: "lg_positions lg q = Some p" "pos_whirlpool p = k"
    and al: "lg_arrays lg al = Some tal" "ta_whirlpool tal = k" and au: "lg_arrays lg au = Some tau" "ta_whirlpool tau = k"
    and c: "calculate_fee_and_reward_growths w p (lg_arrays lg) al au ts = Inr (u, infos)"
    and b: "backed a k w (lg_positions lg) (lg_arrays lg) v"
  shows "backed a k (update_rewards w infos ts) ((lg_positions lg)(q \<mapsto> position_update p u)) (lg_arrays lg) v"
proof -
  let ?n = "unat (wp_sqrt_price w)"
  obtain B e where B: "pool_recorded a k w B (lg_arrays lg)" "growth_known a k B e (lg_positions lg)"
    "debt a k w e (lg_positions lg) \<le> v" using b by (auto simp: backed_def)
  have d: "in_i128 0" by (simp add: in_i128_def)
  obtain m where m: "calculate_modify_liquidity w p (lg_arrays lg) al au 0 ts = Inr m" "ml_position_update m = u"
    using c by (auto simp: calculate_fee_and_reward_growths_def calculate_modify_liquidity_def and_then_Inr_iff)
  obtain x y where
    ra: "read_array_tick (wp_tick_spacing w) (lg_arrays lg) (al, pos_tick_lower_index p) = Inr x" and
    rb: "read_array_tick (wp_tick_spacing w) (lg_arrays lg) (au, pos_tick_upper_index p) = Inr y" and
    l: "pos_liquidity p \<noteq> 0" and
    mp: "\<And>ia ib. next_fee_growths_inside (wp_tick_current_index w) x (pos_tick_lower_index p) y (pos_tick_upper_index p)
        (wp_fee_growth_global_a w) (wp_fee_growth_global_b w) = (ia, ib) \<Longrightarrow>
       next_position_modify_liquidity_update p 0 ia ib (next_reward_growths_inside (wp_tick_current_index w) x
         (pos_tick_lower_index p) y (pos_tick_upper_index p) (ml_reward_infos m)) = Inr u"
    using m by (cases rule: modify_liquidity_Inr) blast
  note ends = ends_in_use [where positions = "lg_positions lg", OF p l]
  have "B = B(pos_tick_lower_index p := tick_growth a (fee_growth a w) (wp_tick_current_index w) (pos_tick_lower_index p) x,
      pos_tick_upper_index p := tick_growth a (fee_growth a w) (wp_tick_current_index w) (pos_tick_upper_index p) y)"
    using read_growth(2) [OF acc ok w al B(1) ra ends(1)] read_growth(2) [OF acc ok w au B(1) rb ends(2)] by simp
  note known = settled_debt [OF acc ok w p d al au B(1,2) ra rb mp this]
  have "position_worth a ?n (position_update p u) = position_worth a ?n p"
    using calculate_growths_Inr [OF c] by (simp add: position_worth_def position_update_def)
  then have "debt a k (update_rewards w infos ts) (e(q := 0)) ((lg_positions lg)(q \<mapsto> position_update p u)) \<le> v"
    using known(2) [where n = ?n] B(3) unfolding debt_def rewards_leave by simp
  moreover have "pool_recorded a k (update_rewards w infos ts) B (lg_arrays lg)"
    using B(1) by (simp add: pool_recorded_def rewards_leave)
  ultimately show ?thesis using known(1) unfolding backed_def by blast
qed

section \<open>The tokens of a deposit and of a withdrawal\<close>

lemma unat_abs_i128:
  assumes "in_i128 d"
  shows "unat (of_int \<bar>d\<bar> :: u128) = nat \<bar>d\<bar>"
proof (rule unat_of_int_u128)
  have "(2 :: int) ^ 127 < 2 ^ 128" by simp
  then show "\<bar>d\<bar> < 2 ^ 128" using assms unfolding in_i128_def by linarith
qed simp

lemma worth_changes:
  assumes k: "position_kept p p'" and l: "uint (pos_liquidity p') = uint (pos_liquidity p) + d" and d: "in_i128 d"
  shows "position_worth a n p' - position_worth a n p
    = (if d < 0 then - 1 else 1) * position_worth a n (p\<lparr>pos_liquidity := of_int \<bar>d\<bar>\<rparr>)"
proof -
  define z where "z = token_measure a (clamp (price_val (pos_tick_lower_index p)) (price_val (pos_tick_upper_index p)) n)
    - token_measure a (price_val (if a then pos_tick_upper_index p else pos_tick_lower_index p))"
  have z: "position_worth a n x = of_int (uint (pos_liquidity x)) * z" if "position_kept p x" for x
    using that by (simp add: z_def position_worth_def position_kept_def Let_def)
  have "uint (of_int \<bar>d\<bar> :: u128) = \<bar>d\<bar>" unfolding uint_nat unat_abs_i128 [OF d] by simp
  then have "position_worth a n (p\<lparr>pos_liquidity := of_int \<bar>d\<bar>\<rparr>) = of_int \<bar>d\<bar> * z"
    using z [of "p\<lparr>pos_liquidity := of_int \<bar>d\<bar>\<rparr>"] by (simp add: position_kept_def)
  moreover have "position_worth a n p' - position_worth a n p = of_int d * z"
    using z [OF k] z [of p] l by (simp add: position_kept_def algebra_simps)
  ultimately show ?thesis by simp
qed

text \<open>What a deposit pays covers the worth that it adds, and a withdrawal takes no more than it ends.\<close>

lemma deltas_cover:
  assumes r: "tick_in_range (pos_tick_lower_index p)" "tick_in_range (pos_tick_upper_index p)"
      "pos_tick_lower_index p < pos_tick_upper_index p"
    and w: "pool_ok w" and d: "in_i128 d" and k: "position_kept p p'"
    and l: "uint (pos_liquidity p') = uint (pos_liquidity p) + d"
    and t: "calculate_liquidity_token_deltas (wp_tick_current_index w) (wp_sqrt_price w) p' d = Inr (x, y)"
  shows "position_worth a (unat (wp_sqrt_price w)) p' - position_worth a (unat (wp_sqrt_price w)) p
    \<le> (if d < 0 then - 1 else 1) * real (unat (if a then x else y))"
proof -
  let ?p = "p\<lparr>pos_liquidity := of_int \<bar>d\<bar>\<rparr>"
  have r': "tick_in_range (pos_tick_lower_index p')" "tick_in_range (pos_tick_upper_index p')"
    using r k by (simp_all add: position_kept_def)
  have "unat (of_int \<bar>d\<bar> :: u128) = nat \<bar>d\<bar>" by (rule unat_abs_i128 [OF d])
  note worth = position_amounts_worth [of ?p "wp_tick_current_index w" "wp_sqrt_price w" a, simplified, OF r, unfolded this]
  note am = liquidity_token_deltas_Inr [OF r' d t]
  have same: "position_amounts up c n (p\<lparr>pos_liquidity := z\<rparr>) m = position_amounts up c n p' m" for up c n z m
    using k by (simp add: position_amounts_def position_kept_def Let_def)
  have "unat (if a then x else y) = side a (position_amounts (d > 0) (wp_tick_current_index w) (unat (wp_sqrt_price w)) p' (nat \<bar>d\<bar>))"
    unfolding am(2) [symmetric] by (simp add: side_def)
  moreover have "tick_price_ok (wp_tick_current_index w) (wp_sqrt_price w)" "price_in_range (wp_sqrt_price w)"
    using w by (simp_all add: pool_ok_def)
  ultimately show ?thesis
    using worth am(1) unfolding worth_changes [OF k l d] same by (cases "d < 0") simp_all
qed

end
