(* ===== verification/Token_Conduct.thy ===== *)
theory Token_Conduct
  imports Instr_Swap
begin

text \<open>
  The token program, as far as the safety of a vault depends on it: an amount leaves an account only
  for the owner or the delegate of the account, a call changes no account but those it names, and a
  new account belongs to the owner it is made for.  This is documented behaviour of the token program
  of the chain; the program itself is a parameter of the model.
\<close>

section \<open>An honest token program\<close>

definition spares :: "'t runtime \<Rightarrow> pubkey set \<Rightarrow> 't \<Rightarrow> 't \<Rightarrow> bool" where
  "spares rt keys tokens tokens' \<longleftrightarrow> (\<forall>x. x \<notin> keys \<longrightarrow> rt_token_account rt tokens' x = rt_token_account rt tokens x)"

definition may_spend :: "'t runtime \<Rightarrow> 't \<Rightarrow> pubkey \<Rightarrow> pubkey \<Rightarrow> bool" where
  "may_spend rt tokens key authority \<longleftrightarrow> (\<exists>t. rt_token_account rt tokens key = Some t
     \<and> (tok_owner t = authority \<or> tok_delegate t = Some authority))"

definition balance :: "'t runtime \<Rightarrow> 't \<Rightarrow> pubkey \<Rightarrow> nat" where
  "balance rt tokens key = (case rt_token_account rt tokens key of None \<Rightarrow> 0 | Some t \<Rightarrow> unat (tok_amount t))"

text \<open>An account that is owned by \<open>k\<close> and has no delegate: only \<open>k\<close> can spend from it.\<close>

definition guarded :: "'t runtime \<Rightarrow> 't \<Rightarrow> pubkey \<Rightarrow> pubkey \<Rightarrow> bool" where
  "guarded rt tokens key k \<longleftrightarrow> (\<exists>t. rt_token_account rt tokens key = Some t \<and> tok_owner t = k \<and> tok_delegate t = None)"

definition honest_transfer :: "'t runtime \<Rightarrow> bool" where
  "honest_transfer rt \<longleftrightarrow> (\<forall>tokens src dst authority amount tokens'.
     rt_transfer rt tokens src dst authority amount = Inr tokens' \<longrightarrow>
     may_spend rt tokens src authority
     \<and> (\<forall>x k. guarded rt tokens x k \<longrightarrow> guarded rt tokens' x k)
     \<and> (\<forall>x. balance rt tokens' x + (if x = src then unat amount else 0)
            = balance rt tokens x + (if x = dst then unat amount else 0)))"

definition honest :: "'t runtime \<Rightarrow> bool" where
  "honest rt \<longleftrightarrow> honest_transfer rt
     \<and> (\<forall>tokens key mint authority amount decimals tokens'.
          rt_burn_checked rt tokens key mint authority amount decimals = Inr tokens' \<longrightarrow>
          may_spend rt tokens key authority \<and> spares rt {key} tokens tokens')
     \<and> (\<forall>tokens key receiver authority tokens'.
          rt_close_account rt tokens key receiver authority = Inr tokens' \<longrightarrow> spares rt {key} tokens tokens')
     \<and> (\<forall>tokens mint key authority amount tokens'.
          rt_mint_to rt tokens mint key authority amount = Inr tokens' \<longrightarrow> spares rt {key} tokens tokens')
     \<and> (\<forall>tokens mint new_authority authority tokens'.
          rt_set_mint_authority rt tokens mint new_authority authority = Inr tokens' \<longrightarrow> spares rt {} tokens tokens')
     \<and> (\<forall>tokens metadata mint authority funder update_authority tokens'.
          rt_create_metadata rt tokens metadata mint authority funder update_authority = Inr tokens' \<longrightarrow>
          spares rt {} tokens tokens')
     \<and> (\<forall>tokens key authority decimals tokens'.
          rt_init_mint rt tokens key authority decimals = Inr tokens' \<longrightarrow> spares rt {} tokens tokens')
     \<and> (\<forall>tokens key mint authority tokens'.
          rt_init_token_account rt tokens key mint authority = Inr tokens' \<longrightarrow>
          spares rt {key} tokens tokens' \<and> guarded rt tokens' key authority)
     \<and> (\<forall>tokens key mint owner tokens'.
          rt_init_associated_token rt tokens key mint owner = Inr tokens' \<longrightarrow> spares rt {key} tokens tokens')"

lemma honest_transferD:
  assumes "honest rt" "rt_transfer rt tokens src dst authority amount = Inr tokens'"
  shows "may_spend rt tokens src authority" "guarded rt tokens x k \<Longrightarrow> guarded rt tokens' x k"
    "balance rt tokens' x + (if x = src then unat amount else 0) = balance rt tokens x + (if x = dst then unat amount else 0)"
proof -
  have "honest_transfer rt" using assms(1) unfolding honest_def by (elim conjE)
  note h = this [unfolded honest_transfer_def, rule_format, OF assms(2)]
  show "may_spend rt tokens src authority" "guarded rt tokens x k \<Longrightarrow> guarded rt tokens' x k"
    "balance rt tokens' x + (if x = src then unat amount else 0) = balance rt tokens x + (if x = dst then unat amount else 0)"
    using h by blast+
qed

lemma honest_burnD:
  assumes "honest rt" "rt_burn_checked rt tokens key mint authority amount decimals = Inr tokens'"
  shows "may_spend rt tokens key authority" "spares rt {key} tokens tokens'"
  using assms unfolding honest_def by metis+

lemma honest_callsD:
  assumes "honest rt"
  shows "rt_close_account rt tokens key receiver authority = Inr tokens' \<Longrightarrow> spares rt {key} tokens tokens'"
    "rt_mint_to rt tokens mint key authority amount = Inr tokens' \<Longrightarrow> spares rt {key} tokens tokens'"
    "rt_set_mint_authority rt tokens mint new_authority authority = Inr tokens' \<Longrightarrow> spares rt {} tokens tokens'"
    "rt_create_metadata rt tokens metadata mint authority funder update_authority = Inr tokens' \<Longrightarrow> spares rt {} tokens tokens'"
    "rt_init_mint rt tokens key authority decimals = Inr tokens' \<Longrightarrow> spares rt {} tokens tokens'"
    "rt_init_token_account rt tokens key mint authority = Inr tokens' \<Longrightarrow> spares rt {key} tokens tokens'"
    "rt_init_token_account rt tokens key mint authority = Inr tokens' \<Longrightarrow> guarded rt tokens' key authority"
    "rt_init_associated_token rt tokens key mint owner = Inr tokens' \<Longrightarrow> spares rt {key} tokens tokens'"
  using assms unfolding honest_def by metis+

lemma guarded_owner: "guarded rt tokens x k \<Longrightarrow> guarded rt tokens x l \<Longrightarrow> k = l"
  by (auto simp: guarded_def)

lemma guarded_spend: "guarded rt tokens x k \<Longrightarrow> may_spend rt tokens x authority \<Longrightarrow> authority = k"
  by (auto simp: guarded_def may_spend_def)

lemma guarded_used: "guarded rt tokens x k \<Longrightarrow> rt_token_account rt tokens x \<noteq> None"
  by (auto simp: guarded_def)

lemma spares_same: "spares rt keys tokens tokens' \<Longrightarrow> x \<notin> keys \<Longrightarrow>
    guarded rt tokens' x k = guarded rt tokens x k \<and> balance rt tokens' x = balance rt tokens x"
  by (simp add: spares_def guarded_def balance_def)

lemma spares_refl [simp]: "spares rt keys tokens tokens"
  by (simp add: spares_def)

lemma spares_trans: "spares rt keys a b \<Longrightarrow> spares rt keys b c \<Longrightarrow> spares rt keys a c"
  by (simp add: spares_def)

lemma spares_mono: "spares rt keys a b \<Longrightarrow> keys \<subseteq> keys' \<Longrightarrow> spares rt keys' a b"
  by (auto simp: spares_def)

section \<open>What is carried into and out of the guarded accounts\<close>

text \<open>
  The accounts guarded for the keys in \<open>P\<close> stay guarded, and each gains at least \<open>f\<close> (which may be
  negative).
\<close>

definition carried :: "'t runtime \<Rightarrow> (pubkey \<Rightarrow> bool) \<Rightarrow> 't \<Rightarrow> 't \<Rightarrow> (pubkey \<Rightarrow> real) \<Rightarrow> bool" where
  "carried rt P tokens tokens' f \<longleftrightarrow> (\<forall>x k. guarded rt tokens x k \<longrightarrow> P k \<longrightarrow>
     guarded rt tokens' x k \<and> real (balance rt tokens x) + f x \<le> real (balance rt tokens' x))"

lemma carried_refl: "carried rt P tokens tokens (\<lambda>_. 0)"
  by (simp add: carried_def)

lemma carried_trans:
  assumes "carried rt P a b f" "carried rt P b c g"
  shows "carried rt P a c (\<lambda>x. f x + g x)"
  unfolding carried_def
proof (intro allI impI)
  fix x k assume "guarded rt a x k" "P k"
  then have "guarded rt b x k" "real (balance rt a x) + f x \<le> real (balance rt b x)"
    "guarded rt c x k" "real (balance rt b x) + g x \<le> real (balance rt c x)"
    using assms unfolding carried_def by blast+
  then show "guarded rt c x k \<and> real (balance rt a x) + (f x + g x) \<le> real (balance rt c x)" by simp
qed

lemma spares_carried:
  assumes "spares rt keys tokens tokens'" "\<And>x k. x \<in> keys \<Longrightarrow> P k \<Longrightarrow> \<not> guarded rt tokens x k"
  shows "carried rt P tokens tokens' (\<lambda>_. 0)"
  unfolding carried_def
proof (intro allI impI)
  fix x k assume "guarded rt tokens x k" "P k"
  then have "x \<notin> keys" using assms(2) by blast
  from spares_same [OF assms(1) this] \<open>guarded rt tokens x k\<close>
  show "guarded rt tokens' x k \<and> real (balance rt tokens x) + 0 \<le> real (balance rt tokens' x)" by simp
qed

text \<open>A payment by a key that guards nothing, and one by a pool.\<close>

lemma deposit_carried:
  assumes h: "honest rt" and t: "rt_transfer rt tokens src dst authority amount = Inr tokens'" and P: "\<not> P authority"
  shows "carried rt P tokens tokens' (\<lambda>x. if x = dst then real (unat amount) else 0)"
proof -
  note t = honest_transferD [OF h t]
  show ?thesis
    unfolding carried_def
  proof (intro allI impI)
    fix x k assume g: "guarded rt tokens x k" "P k"
    then have "x \<noteq> src" using guarded_spend [OF g(1)] t(1) P by blast
    then have "balance rt tokens' x = balance rt tokens x + (if x = dst then unat amount else 0)" using t(3) [of x] by simp
    then show "guarded rt tokens' x k \<and> real (balance rt tokens x) + (if x = dst then real (unat amount) else 0) \<le> real (balance rt tokens' x)"
      using t(2) [OF g(1)] by (simp del: of_nat_unat)
  qed
qed

lemma payment_carried:
  assumes h: "honest rt" and t: "rt_transfer rt tokens src dst authority amount = Inr tokens'"
  shows "carried rt P tokens tokens' (\<lambda>x. if x = src then - real (unat amount) else 0)"
    "guarded rt tokens src k \<Longrightarrow> k = authority"
proof -
  note t = honest_transferD [OF h t]
  show "guarded rt tokens src k \<Longrightarrow> k = authority" using guarded_spend [OF _ t(1)] by blast
  have "balance rt tokens x \<le> balance rt tokens' x + (if x = src then unat amount else 0)" for x
    using t(3) [of x] by linarith
  then have le: "real (balance rt tokens x) \<le> real (balance rt tokens' x + (if x = src then unat amount else 0))" for x
    by (simp only: of_nat_le_iff)
  have "real (balance rt tokens x) + (if x = src then - real (unat amount) else 0) \<le> real (balance rt tokens' x)" for x
    using le [of x] by (cases "x = src") (simp_all del: of_nat_unat)
  then show "carried rt P tokens tokens' (\<lambda>x. if x = src then - real (unat amount) else 0)"
    using t(2) by (simp add: carried_def)
qed

lemma vault_payment:
  "transfer_from_vault_to_owner rt (k, w) src dst amount tokens = Inr tokens' \<Longrightarrow> rt_transfer rt tokens src dst k amount = Inr tokens'"
  by (simp add: transfer_from_vault_to_owner_def and_then_Inr_iff)

text \<open>Both tokens are paid, to two accounts or from two accounts.\<close>

lemma two_deposits:
  assumes h: "honest rt" and P: "\<not> P authority"
    and t: "rt_transfer rt tokens s1 d1 authority x = Inr tokens1" "rt_transfer rt tokens1 s2 d2 authority y = Inr tokens2"
  shows "carried rt P tokens tokens2 (\<lambda>z. (if z = d1 then real (unat x) else 0) + (if z = d2 then real (unat y) else 0))"
  by (rule carried_trans [OF deposit_carried [where P = P, OF h t(1) P] deposit_carried [where P = P, OF h t(2) P]])

lemma payment_foreign:
  assumes "honest rt" "rt_transfer rt tokens src dst k amount = Inr tokens'" "guarded rt tokens z l" "l \<noteq> k"
  shows "z \<noteq> src"
  using payment_carried(2) [OF assms(1,2)] assms(3,4) by blast

lemma two_payments:
  assumes h: "honest rt"
    and t: "rt_transfer rt tokens s1 d1 k x = Inr tokens1" "rt_transfer rt tokens1 s2 d2 k y = Inr tokens2"
  shows "carried rt P tokens tokens2 (\<lambda>z. (if z = s1 then - real (unat x) else 0) + (if z = s2 then - real (unat y) else 0))"
    "guarded rt tokens z l \<Longrightarrow> l \<noteq> k \<Longrightarrow> z \<noteq> s1 \<and> z \<noteq> s2"
proof -
  show "carried rt P tokens tokens2 (\<lambda>z. (if z = s1 then - real (unat x) else 0) + (if z = s2 then - real (unat y) else 0))"
    by (rule carried_trans [OF payment_carried(1) [OF h t(1)] payment_carried(1) [OF h t(2)]])
  assume g: "guarded rt tokens z l" "l \<noteq> k"
  have "guarded rt tokens1 z l" by (rule honest_transferD(2) [OF h t(1) g(1)])
  then show "z \<noteq> s1 \<and> z \<noteq> s2" using payment_foreign [OF h t(1) g] payment_foreign [OF h t(2) _ g(2)] by blast
qed

end
