(* ===== verification/Vault_Solvency.thy ===== *)
theory Vault_Solvency
  imports Fee_Settlement Token_Conduct Ledger_Access
begin

text \<open>
  The vaults of the pools.  A ledger is solvent when each pool has two vaults of its own, which no
  reward is paid from, and what each holds backs what the pool owes in its token.  With an honest
  token program and no pool among the signers, every instruction keeps the ledger solvent.
\<close>

section \<open>Solvency\<close>

definition vault :: "bool \<Rightarrow> Whirlpool \<Rightarrow> pubkey" where
  "vault a w = (if a then wp_token_vault_a w else wp_token_vault_b w)"

definition reward_vaults :: "Whirlpool \<Rightarrow> pubkey set" where
  "reward_vaults w = ri_vault ` set (arr3_list (wp_reward_infos w))"

definition vaults_safe :: "'t runtime \<Rightarrow> 't \<Rightarrow> pubkey \<Rightarrow> Whirlpool \<Rightarrow> bool" where
  "vaults_safe rt tokens k w \<longleftrightarrow> (\<forall>a. guarded rt tokens (vault a w) k \<and> vault a w \<notin> reward_vaults w)
     \<and> vault True w \<noteq> vault False w"

definition solvent :: "'t runtime \<Rightarrow> 't ledger \<Rightarrow> bool" where
  "solvent rt lg \<longleftrightarrow> (\<forall>k w. lg_pools lg k = Some w \<longrightarrow> vaults_safe rt (lg_tokens lg) k w
     \<and> (\<forall>a. backed a k w (lg_positions lg) (lg_arrays lg) (real (balance rt (lg_tokens lg) (vault a w)))))"

lemma solventD:
  assumes "solvent rt lg" "lg_pools lg k = Some w"
  shows "guarded rt (lg_tokens lg) (vault a w) k" "vault a w \<notin> reward_vaults w" "vault True w \<noteq> vault False w"
    "backed a k w (lg_positions lg) (lg_arrays lg) (real (balance rt (lg_tokens lg) (vault a w)))"
  using assms by (auto simp: solvent_def vaults_safe_def)

definition has_pool :: "'t ledger \<Rightarrow> pubkey \<Rightarrow> bool" where
  "has_pool lg k \<longleftrightarrow> lg_pools lg k \<noteq> None"

lemma has_poolI: "lg_pools lg k = Some w \<Longrightarrow> has_pool lg k"
  by (simp add: has_pool_def)

text \<open>A change that concerns one pool.\<close>

lemma solvent_change:
  assumes s: "solvent rt lg" and w: "lg_pools lg k = Some w" and pools: "lg_pools lg' = (lg_pools lg)(k \<mapsto> w')"
    and v: "\<And>a. vault a w' = vault a w" "\<And>a. vault a w \<notin> reward_vaults w'"
    and pos: "\<And>q p. pos_whirlpool p \<noteq> k \<Longrightarrow> lg_positions lg' q = Some p \<longleftrightarrow> lg_positions lg q = Some p"
    and arr: "\<And>x ta. ta_whirlpool ta \<noteq> k \<Longrightarrow> lg_arrays lg' x = Some ta \<Longrightarrow> lg_arrays lg x = Some ta"
    and tok: "carried rt (has_pool lg) (lg_tokens lg) (lg_tokens lg') f"
      "\<And>x l. guarded rt (lg_tokens lg) x l \<Longrightarrow> l \<noteq> k \<Longrightarrow> 0 \<le> f x"
    and own: "\<And>a. backed a k w' (lg_positions lg') (lg_arrays lg') (real (balance rt (lg_tokens lg) (vault a w)) + f (vault a w))"
  shows "solvent rt lg'"
  unfolding solvent_def
proof (intro allI impI)
  fix l x assume x: "lg_pools lg' l = Some x"
  show "vaults_safe rt (lg_tokens lg') l x
    \<and> (\<forall>a. backed a l x (lg_positions lg') (lg_arrays lg') (real (balance rt (lg_tokens lg') (vault a x))))"
  proof (cases "l = k")
    case True
    then have x': "x = w'" using x by (simp add: pools)
    note old = solventD [OF s w]
    have g: "guarded rt (lg_tokens lg') (vault a w) k"
      "real (balance rt (lg_tokens lg) (vault a w)) + f (vault a w) \<le> real (balance rt (lg_tokens lg') (vault a w))" for a
      using tok(1) old(1) has_poolI [OF w] unfolding carried_def by blast+
    have "backed a k w' (lg_positions lg') (lg_arrays lg') (real (balance rt (lg_tokens lg') (vault a w)))" for a
      by (rule backed_mono [OF own g(2)])
    then show ?thesis using old g(1) v unfolding vaults_safe_def True x' by simp
  next
    case False
    then have lx: "lg_pools lg l = Some x" using x by (simp add: pools)
    note old = solventD [OF s lx]
    have g: "guarded rt (lg_tokens lg') (vault a x) l"
      "real (balance rt (lg_tokens lg) (vault a x)) + f (vault a x) \<le> real (balance rt (lg_tokens lg') (vault a x))" for a
      using tok(1) old(1) has_poolI [OF lx] unfolding carried_def by blast+
    have "backed a l x (lg_positions lg') (lg_arrays lg') (real (balance rt (lg_tokens lg') (vault a x)))" for a
    proof (rule backed_mono)
      show "backed a l x (lg_positions lg') (lg_arrays lg') (real (balance rt (lg_tokens lg) (vault a x)))"
        by (rule backed_cong [OF _ _ old(4)]) (use pos arr False in auto)
      show "real (balance rt (lg_tokens lg) (vault a x)) \<le> real (balance rt (lg_tokens lg') (vault a x))"
        using g(2) [of a] tok(2) [OF old(1) False, of a] by linarith
    qed
    then show ?thesis using old(2,3) g(1) unfolding vaults_safe_def by simp
  qed
qed

lemma solvent_same:
  assumes "solvent rt lg" "lg_pools lg' = lg_pools lg" "lg_positions lg' = lg_positions lg" "lg_arrays lg' = lg_arrays lg"
    and "carried rt (has_pool lg) (lg_tokens lg) (lg_tokens lg') (\<lambda>_. 0)"
  shows "solvent rt lg'"
proof -
  have "vaults_safe rt (lg_tokens lg') k w \<and> (\<forall>a. balance rt (lg_tokens lg) (vault a w) \<le> balance rt (lg_tokens lg') (vault a w))"
    if w: "lg_pools lg k = Some w" for k w
    using assms(5) solventD [OF assms(1) w] has_poolI [OF w] unfolding carried_def vaults_safe_def by fastforce
  then show ?thesis
    using assms(1) unfolding solvent_def assms(2-4) by (meson backed_mono of_nat_mono)
qed

section \<open>Instructions that move no tokens\<close>

lemma config_solvent:
  assumes s: "solvent rt lg"
  shows "initialize_config rt tx ic a b c d r lg = Inr lg' \<Longrightarrow> solvent rt lg'"
    "initialize_fee_tier rt tx ift s' r lg = Inr lg' \<Longrightarrow> solvent rt lg'"
    "set_fee_authority tx sfa lg = Inr lg' \<Longrightarrow> solvent rt lg'"
    "set_collect_protocol_fees_authority tx scpfa lg = Inr lg' \<Longrightarrow> solvent rt lg'"
    "set_pool_creator_authority tx spca lg = Inr lg' \<Longrightarrow> solvent rt lg'"
    "set_reward_emissions_super_authority tx sresa lg = Inr lg' \<Longrightarrow> solvent rt lg'"
    "set_default_protocol_fee_rate tx sdpfr r lg = Inr lg' \<Longrightarrow> solvent rt lg'"
    "set_default_fee_rate tx sdfr r lg = Inr lg' \<Longrightarrow> solvent rt lg'"
  by (auto simp: initialize_config_def initialize_fee_tier_def set_fee_authority_def
    set_collect_protocol_fees_authority_def set_pool_creator_authority_def set_reward_emissions_super_authority_def
    set_default_protocol_fee_rate_def set_default_fee_rate_def handler_iffs
    intro!: solvent_same [OF s] carried_refl)

text \<open>A change of the settings of a pool.\<close>

definition debt_kept :: "Whirlpool \<Rightarrow> Whirlpool \<Rightarrow> bool" where
  "debt_kept w w' \<longleftrightarrow> wp_tick_spacing w' = wp_tick_spacing w \<and> wp_tick_current_index w' = wp_tick_current_index w
     \<and> wp_sqrt_price w' = wp_sqrt_price w \<and> (\<forall>a. fee_growth a w' = fee_growth a w \<and> vault a w' = vault a w)"

definition books_kept :: "Whirlpool \<Rightarrow> Whirlpool \<Rightarrow> bool" where
  "books_kept w w' \<longleftrightarrow> debt_kept w w' \<and> (\<forall>a. protocol_owed a w' = protocol_owed a w) \<and> reward_vaults w' = reward_vaults w"

lemma solvent_pool:
  assumes s: "solvent rt lg" and w: "lg_pools lg k = Some w" and k: "debt_kept w w'" and r: "\<And>a. vault a w \<notin> reward_vaults w'"
    and lg': "lg_pools lg' = (lg_pools lg)(k \<mapsto> w')" "lg_positions lg' = lg_positions lg" "lg_arrays lg' = lg_arrays lg"
    and tok: "carried rt (has_pool lg) (lg_tokens lg) (lg_tokens lg') f" "\<And>x l. guarded rt (lg_tokens lg) x l \<Longrightarrow> l \<noteq> k \<Longrightarrow> 0 \<le> f x"
    and owed: "\<And>a. real (unat (protocol_owed a w')) \<le> real (unat (protocol_owed a w)) + f (vault a w)"
  shows "solvent rt lg'"
proof (rule solvent_change [OF s w lg'(1) _ r _ _ tok])
  show "backed a k w' (lg_positions lg') (lg_arrays lg') (real (balance rt (lg_tokens lg) (vault a w)) + f (vault a w))" for a
    unfolding lg'(2,3) by (rule backed_pool [OF solventD(4) [OF s w]]) (use k owed [of a] in \<open>simp_all add: debt_kept_def\<close>)
qed (use k in \<open>simp_all add: debt_kept_def lg'(2,3)\<close>)

lemma settings_vaults:
  "map reward_setting (arr3_list (wp_reward_infos w')) = map reward_setting (arr3_list (wp_reward_infos w)) \<Longrightarrow>
    reward_vaults w' = reward_vaults w"
proof -
  have v: "reward_vaults x = set (map (\<lambda>s. fst (snd s)) (map reward_setting (arr3_list (wp_reward_infos x))))" for x
    by (simp add: reward_vaults_def reward_setting_def comp_def)
  assume "map reward_setting (arr3_list (wp_reward_infos w')) = map reward_setting (arr3_list (wp_reward_infos w))"
  then show ?thesis unfolding v by (simp only:)
qed

lemma update_reward_vaults:
  assumes "arr3_update infos i f = Inr infos'" "\<And>r. ri_vault (f r) = ri_vault r"
  shows "ri_vault ` set (arr3_list infos') = ri_vault ` set (arr3_list infos)"
  using assms by (cases infos; cases infos') (auto simp: arr3_update_def and_then_Inr_iff split: if_splits)

lemma settings_solvent:
  assumes s: "solvent rt lg"
  shows "set_fee_rate tx sfr r lg = Inr lg' \<Longrightarrow> solvent rt lg'"
    "set_protocol_fee_rate tx spfr r lg = Inr lg' \<Longrightarrow> solvent rt lg'"
    "set_enable_flag tx sef b lg = Inr lg' \<Longrightarrow> solvent rt lg'"
    "set_reward_authority tx sra i lg = Inr lg' \<Longrightarrow> solvent rt lg'"
    "set_reward_authority_by_super_authority tx srasa i lg = Inr lg' \<Longrightarrow> solvent rt lg'"
    "set_reward_emissions rt tx sre i e lg = Inr lg' \<Longrightarrow> solvent rt lg'"
proof -
  have *: "solvent rt (lg\<lparr>lg_pools := (lg_pools lg)(k \<mapsto> w')\<rparr>)"
    if "lg_pools lg k = Some w" "books_kept w w'" for k w w'
  proof (rule solvent_pool [OF s that(1), where w' = w' and f = "\<lambda>_. 0"])
    show "real (unat (protocol_owed a w')) \<le> real (unat (protocol_owed a w)) + 0" for a using that(2) by (simp add: books_kept_def)
  qed (use that solventD(2) [OF s that(1)] in \<open>simp_all add: books_kept_def carried_refl\<close>)
  note same = books_kept_def debt_kept_def vault_def fee_growth_def protocol_owed_def
  have k: "update_fee_rate w x = Inr w' \<Longrightarrow> books_kept w w'"
    "update_protocol_fee_rate w x = Inr w' \<Longrightarrow> books_kept w w'"
    "books_kept w (whirlpool_set_enable_flag w y)" for w w' x y
    by (auto simp: same reward_vaults_def update_fee_rate_def update_protocol_fee_rate_def whirlpool_set_enable_flag_def split: if_splits)
  have ra: "books_kept w w'"
    if "update_reward_authority w j key = Inr w'" for w w' j key
    using that by (auto simp: update_reward_authority_def and_then_Inr_iff same reward_vaults_def split: if_splits dest!: update_reward_vaults)
  have re: "books_kept w w'"
    if n: "next_whirlpool_reward_infos w ts = Inr infos" and u: "update_emissions w j infos ts e = Inr w'" for w w' j infos ts
  proof -
    have "reward_vaults (w\<lparr>wp_reward_infos := infos\<rparr>) = reward_vaults w"
      by (rule settings_vaults) (use next_infos_settings [OF n] in simp)
    then show ?thesis
      using u by (auto simp: update_emissions_def update_rewards_def and_then_Inr_iff same reward_vaults_def split: if_splits dest!: update_reward_vaults)
        (metis imageI)+
  qed
  show "set_fee_rate tx sfr r lg = Inr lg' \<Longrightarrow> solvent rt lg'"
    "set_protocol_fee_rate tx spfr r lg = Inr lg' \<Longrightarrow> solvent rt lg'"
    "set_enable_flag tx sef b lg = Inr lg' \<Longrightarrow> solvent rt lg'"
    by (auto simp: set_fee_rate_def set_protocol_fee_rate_def set_enable_flag_def handler_iffs intro!: * intro: k)
  show "set_reward_authority tx sra i lg = Inr lg' \<Longrightarrow> solvent rt lg'"
    "set_reward_authority_by_super_authority tx srasa i lg = Inr lg' \<Longrightarrow> solvent rt lg'"
    by (auto simp: set_reward_authority_def set_reward_authority_by_super_authority_def handler_iffs intro!: * ra)
  show "set_reward_emissions rt tx sre i e lg = Inr lg' \<Longrightarrow> solvent rt lg'"
    by (auto simp: set_reward_emissions_def handler_iffs intro!: * re)
qed

text \<open>A new tick array.\<close>

lemma initialize_tick_array_solvent:
  assumes s: "solvent rt lg" and i: "initialize_tick_array rt tx acc t lg = Inr lg'"
  shows "solvent rt lg'"
proof -
  obtain w ta where w: "lg_pools lg (ita_whirlpool acc) = Some w" and new: "lg_arrays lg (ita_tick_array acc) = None"
    and ta: "tick_array_initialize default_tick_array (ita_whirlpool acc) (wp_tick_spacing w) t = Inr ta"
    and lg': "lg' = lg\<lparr>lg_arrays := (lg_arrays lg)(ita_tick_array acc \<mapsto> ta)\<rparr>"
    using i by (auto simp: initialize_tick_array_def handler_iffs unused_def)
  have ticks: "ta_ticks ta = replicate TICK_ARRAY_SIZE_USIZE default_tick"
    using ta by (auto simp: tick_array_initialize_def default_tick_array_def and_then_Inr_iff split: if_splits)
  note ok = initialized_array_ok [OF ta]
  have "\<not> tk_initialized (tick_in (wp_tick_spacing w) ta y)" if "holds_tick (wp_tick_spacing w) ta y" for y
  proof -
    have "slot (wp_tick_spacing w) ta y < TICK_ARRAY_SIZE_USIZE"
      using slot_bounds(2) [OF ok(2) that] by (simp add: TICK_ARRAY_SIZE_USIZE_def)
    then show ?thesis by (simp add: ticks default_tick_def)
  qed
  then show ?thesis
    unfolding lg'
    by (intro solvent_change [OF s w, where w' = w and f = "\<lambda>_. 0"])
      (use ok(3) solventD [OF s w] w in \<open>auto simp: fun_upd_triv carried_refl intro: backed_array split: if_splits\<close>)
qed

section \<open>New pools and rewards\<close>

lemma create_token_account_tokens:
  assumes "honest rt" "create_token_account rt tx lg key mint authority = Inr lg'"
  obtains tokens where "lg' = lg\<lparr>lg_tokens := tokens\<rparr>" "tx_signer tx key" "rt_token_account rt (lg_tokens lg) key = None"
    "spares rt {key} (lg_tokens lg) tokens" "guarded rt tokens key authority"
  using assms(2) honest_callsD(6,7) [OF assms(1)]
  by (auto simp: create_token_account_def handler_iffs unused_def)

lemma created_carried:
  "spares rt {key} tokens tokens' \<Longrightarrow> rt_token_account rt tokens key = None \<Longrightarrow> carried rt P tokens tokens' (\<lambda>_. 0)"
  by (erule spares_carried) (auto dest: guarded_used)

lemma initialize_pool_solvent:
  assumes h: "honest rt" and s: "solvent rt lg" and ok: "ledger_ok lg" and sg: "\<not> tx_signer tx default_pubkey"
    and i: "initialize_pool rt tx acc bumps ts price lg = Inr lg'"
  shows "solvent rt lg'"
proof -
  let ?k = "ip_whirlpool acc" and ?a = "ip_token_vault_a acc" and ?b = "ip_token_vault_b acc"
  obtain whirlpools_config and fee_tier :: FeeTier and lg1 lg2 w where
    u: "unused rt lg ?k"
    and t1: "create_token_account rt tx (lg\<lparr>lg_pools := (lg_pools lg)(?k \<mapsto> default_whirlpool)\<rparr>) ?a (ip_token_mint_a acc) ?k = Inr lg1"
    and t2: "create_token_account rt tx lg1 ?b (ip_token_mint_b acc) ?k = Inr lg2"
    and w: "whirlpool_initialize default_whirlpool (ip_whirlpools_config acc, whirlpools_config)
      (whirlpool_bump bumps) ts price (ft_default_fee_rate fee_tier) (ip_token_mint_a acc) ?a (ip_token_mint_b acc) ?b = Inr w"
    and lg': "lg2\<lparr>lg_pools := (lg_pools lg2)(?k \<mapsto> w)\<rparr> = lg'"
    using i unfolding initialize_pool_def Let_def handler_iffs sum.inject by blast
  obtain tokens1 where l1: "lg1 = lg\<lparr>lg_pools := (lg_pools lg)(?k \<mapsto> default_whirlpool), lg_tokens := tokens1\<rparr>" "tx_signer tx ?a"
    "rt_token_account rt (lg_tokens lg) ?a = None" "spares rt {?a} (lg_tokens lg) tokens1" "guarded rt tokens1 ?a ?k"
    using create_token_account_tokens [OF h t1] by auto
  obtain tokens2 where l2: "lg2 = lg1\<lparr>lg_tokens := tokens2\<rparr>" "tx_signer tx ?b" "rt_token_account rt tokens1 ?b = None"
    "spares rt {?b} tokens1 tokens2" "guarded rt tokens2 ?b ?k"
    using create_token_account_tokens [OF h t2] l1(1) by auto
  have ne: "?a \<noteq> ?b" using l2(3) guarded_used [OF l1(5)] by auto
  have ga: "guarded rt tokens2 ?a ?k" using spares_same [OF l2(4), of ?a] ne l1(5) by simp
  have f: "vault a w = (if a then ?a else ?b)" "protocol_owed a w = 0" "reward_vaults w = {default_pubkey}" for a
    using w by (auto simp: whirlpool_initialize_def update_fee_rate_def update_protocol_fee_rate_def and_then_Inr_iff
      vault_def protocol_owed_def reward_vaults_def reward_info_new_def split: if_splits)
  have safe: "vaults_safe rt tokens2 ?k w"
    using ga l2(2,5) l1(2) ne sg by (auto simp: vaults_safe_def f)
  have new: "lg_pools lg ?k = None" using u by (simp add: unused_def)
  have lg'': "lg' = lg\<lparr>lg_pools := (lg_pools lg)(?k \<mapsto> w), lg_tokens := tokens2\<rparr>" unfolding lg' [symmetric] l1(1) l2(1) by simp
  have c: "carried rt (has_pool lg) (lg_tokens lg) tokens2 (\<lambda>_. 0)"
    using carried_trans [OF created_carried [OF l1(4,3)] created_carried [OF l2(4,3)]] by simp
  have old: "vaults_safe rt tokens2 l x \<and> (\<forall>a. backed a l x (lg_positions lg) (lg_arrays lg) (real (balance rt tokens2 (vault a x))))"
    if x: "lg_pools lg l = Some x" for l x
  proof -
    have "solvent rt (lg\<lparr>lg_tokens := tokens2\<rparr>)" by (rule solvent_same [OF s]) (simp_all add: c)
    then show ?thesis using x by (simp add: solvent_def)
  qed
  have "backed a ?k w (lg_positions lg) (lg_arrays lg) 0" for a
  proof (rule backed_new_pool)
    show "pos_whirlpool p \<noteq> ?k" if "lg_positions lg q = Some p" for q p
    proof -
      have "tied (lg_pools lg) (pos_whirlpool p) (\<lambda>s. position_ok s p)" using ok that by (auto simp: ledger_ok_def positions_ok_def)
      then show ?thesis using new by (auto simp: tied_def)
    qed
    show "ta_whirlpool ta \<noteq> ?k" if "lg_arrays lg x = Some ta" for x ta
    proof -
      have "tied (lg_pools lg) (ta_whirlpool ta) (\<lambda>s. tick_array_ok s ta)" using ok that by (auto simp: ledger_ok_def tick_arrays_ok_def)
      then show ?thesis using new by (auto simp: tied_def)
    qed
  qed (rule f(2))
  then have "backed a ?k w (lg_positions lg) (lg_arrays lg) (real (balance rt tokens2 (vault a w)))" for a
    by (rule backed_mono) simp
  then show ?thesis using old safe by (auto simp: solvent_def lg'' split: if_splits)
qed

lemma initialize_reward_solvent:
  assumes h: "honest rt" and s: "solvent rt lg" and i: "initialize_reward rt tx acc j lg = Inr lg'"
  shows "solvent rt lg'"
proof -
  let ?k = "ir_whirlpool acc" and ?v = "ir_reward_vault acc"
  obtain w lg1 w' where w: "lg_pools lg ?k = Some w"
    and t: "create_token_account rt tx lg ?v (ir_reward_mint acc) ?k = Inr lg1"
    and w': "whirlpool_initialize_reward w (unat j) (ir_reward_mint acc) ?v = Inr w'"
    and lg': "lg1\<lparr>lg_pools := (lg_pools lg1)(?k \<mapsto> w')\<rparr> = lg'"
    using i unfolding initialize_reward_def handler_iffs sum.inject by blast
  obtain tokens where l1: "lg1 = lg\<lparr>lg_tokens := tokens\<rparr>" "rt_token_account rt (lg_tokens lg) ?v = None"
    "spares rt {?v} (lg_tokens lg) tokens"
    using create_token_account_tokens [OF h t] by auto
  have k: "debt_kept w w'" "protocol_owed a w' = protocol_owed a w" "reward_vaults w' \<subseteq> insert ?v (reward_vaults w)" for a
  proof -
    obtain infos where "arr3_update (wp_reward_infos w) (unat j) (\<lambda>r. r\<lparr>ri_mint := ir_reward_mint acc, ri_vault := ?v\<rparr>) = Inr infos"
      "w' = w\<lparr>wp_reward_infos := infos\<rparr>"
      using w' by (auto simp: whirlpool_initialize_reward_def and_then_Inr_iff split: if_splits option.splits)
    then show "debt_kept w w'" "protocol_owed a w' = protocol_owed a w" "reward_vaults w' \<subseteq> insert ?v (reward_vaults w)"
      by (cases "wp_reward_infos w"; cases infos; auto simp: debt_kept_def fee_growth_def vault_def protocol_owed_def
        reward_vaults_def arr3_update_def and_then_Inr_iff split: if_splits)+
  qed
  show ?thesis
  proof (rule solvent_pool [OF s w k(1), where f = "\<lambda>_. 0"])
    show "vault a w \<notin> reward_vaults w'" for a
      using k(3) solventD(2) [OF s w, of a] guarded_used [OF solventD(1) [OF s w, of a]] l1(2) by auto
  qed (simp_all add: k(2) lg' [symmetric] l1(1) created_carried [OF l1(3,2)])
qed

section \<open>Positions opened and closed\<close>

lemma create_position_tokens:
  assumes h: "honest rt" and c: "create_position_accounts rt tx bump q m ta owner k lg = Inr lg'"
  obtains tokens where "lg' = lg\<lparr>lg_positions := (lg_positions lg)(q \<mapsto> default_position), lg_tokens := tokens\<rparr>"
    "lg_positions lg q = None" "spares rt {ta} (lg_tokens lg) tokens" "rt_token_account rt (lg_tokens lg) ta = None"
proof -
  obtain tokens1 tokens where
    u: "lg_positions lg q = None" "rt_token_account rt tokens1 ta = None"
    and t: "rt_init_mint rt (lg_tokens lg) m k 0 = Inr tokens1" "rt_init_associated_token rt tokens1 ta m owner = Inr tokens"
    and lg': "lg' = lg\<lparr>lg_positions := (lg_positions lg)(q \<mapsto> default_position), lg_tokens := tokens\<rparr>"
    using c by (auto simp: create_position_accounts_def Let_def handler_iffs unused_def)
  note s1 = honest_callsD(5) [OF h t(1)] and s2 = honest_callsD(8) [OF h t(2)]
  have "spares rt {ta} (lg_tokens lg) tokens" by (rule spares_trans [OF spares_mono [OF s1] s2]) simp
  moreover have "rt_token_account rt (lg_tokens lg) ta = None" using s1 u(2) by (simp add: spares_def)
  ultimately show thesis using that [OF lg' u(1)] by blast
qed

lemma minted_spares:
  assumes h: "honest rt"
  shows "mint_position_token_and_remove_authority rt whirlpool m ta tokens = Inr tokens' \<Longrightarrow> spares rt {ta} tokens tokens'"
    "mint_position_token_with_metadata_and_remove_authority rt whirlpool m ta md auth funder tokens = Inr tokens' \<Longrightarrow>
      spares rt {ta} tokens tokens'"
  using honest_callsD(2-4) [OF h]
  by (auto simp: mint_position_token_and_remove_authority_def mint_position_token_with_metadata_and_remove_authority_def
    mint_position_token_def remove_position_token_mint_authority_def handler_iffs spares_def)

lemma position_opened_solvent:
  assumes s: "solvent rt lg" and w: "lg_pools lg k = Some w" and q: "lg_positions lg q = None"
    and p: "position_open default_position k sp m l u = Inr p"
    and t: "spares rt {ta} (lg_tokens lg) tokens" "rt_token_account rt (lg_tokens lg) ta = None"
  shows "solvent rt (lg\<lparr>lg_positions := (lg_positions lg)(q \<mapsto> p), lg_tokens := tokens\<rparr>)"
proof -
  note ok = opened_position_ok [OF p]
  have "pos_fee_owed_a p = 0" "pos_fee_owed_b p = 0"
    using p ok(1) by (auto simp: position_open_eq default_position_def split: if_splits)
  then have owed: "fee_owed a p = 0" for a by (simp add: fee_owed_def)
  show ?thesis
    by (rule solvent_change [OF s w, where w' = w and f = "\<lambda>_. 0"])
      (use w q ok(3) solventD(2,4) [OF s w] in
        \<open>auto simp: fun_upd_triv created_carried [OF t] intro!: backed_opened ok(4) owed\<close>)
qed

lemma open_position_solvent:
  assumes h: "honest rt" and s: "solvent rt lg"
  shows "open_position rt tx op bumps l u lg = Inr lg' \<Longrightarrow> solvent rt lg'"
    "open_position_with_metadata rt tx nft opm mbumps l u lg = Inr lg' \<Longrightarrow> solvent rt lg'"
proof -
  assume "open_position rt tx op bumps l u lg = Inr lg'"
  then obtain w lg1 p tokens where w: "lg_pools lg (op_whirlpool op) = Some w"
    and c: "create_position_accounts rt tx (position_bump bumps) (op_position op) (op_position_mint op)
      (op_position_token_account op) (op_owner op) (op_whirlpool op) lg = Inr lg1"
    and p: "position_open default_position (op_whirlpool op) (wp_tick_spacing w) (op_position_mint op) l u = Inr p"
    and m: "mint_position_token_and_remove_authority rt (op_whirlpool op, w) (op_position_mint op)
      (op_position_token_account op) (lg_tokens lg1) = Inr tokens"
    and lg': "lg' = lg1\<lparr>lg_positions := (lg_positions lg1)(op_position op \<mapsto> p), lg_tokens := tokens\<rparr>"
    by (auto simp: open_position_def require_enabled_def handler_iffs)
  show "solvent rt lg'"
    by (rule create_position_tokens [OF h c])
      (use position_opened_solvent [OF s w _ p spares_trans [OF _ minted_spares(1) [OF h m]]] in \<open>simp add: lg'\<close>)
next
  assume "open_position_with_metadata rt tx nft opm mbumps l u lg = Inr lg'"
  then obtain w lg1 p tokens where w: "lg_pools lg (opm_whirlpool opm) = Some w"
    and c: "create_position_accounts rt tx (with_metadata_position_bump mbumps) (opm_position opm) (opm_position_mint opm)
      (opm_position_token_account opm) (opm_owner opm) (opm_whirlpool opm) lg = Inr lg1"
    and p: "position_open default_position (opm_whirlpool opm) (wp_tick_spacing w) (opm_position_mint opm) l u = Inr p"
    and m: "mint_position_token_with_metadata_and_remove_authority rt (opm_whirlpool opm, w) (opm_position_mint opm)
      (opm_position_token_account opm) (opm_position_metadata_account opm) (opm_metadata_update_auth opm) (opm_funder opm)
      (lg_tokens lg1) = Inr tokens"
    and lg': "lg' = lg1\<lparr>lg_positions := (lg_positions lg1)(opm_position opm \<mapsto> p), lg_tokens := tokens\<rparr>"
    by (auto simp: open_position_with_metadata_def require_enabled_def handler_iffs)
  show "solvent rt lg'"
    by (rule create_position_tokens [OF h c])
      (use position_opened_solvent [OF s w _ p spares_trans [OF _ minted_spares(2) [OF h m]]] in \<open>simp add: lg'\<close>)
qed

lemma empty_fees: "is_position_empty p \<Longrightarrow> pos_liquidity p = 0 \<and> fee_owed a p = 0"
  by (auto simp: is_position_empty_def fee_owed_def)

lemma close_position_solvent:
  assumes h: "honest rt" and s: "solvent rt lg" and sg: "\<And>k. tx_signer tx k \<Longrightarrow> \<not> has_pool lg k"
    and c: "close_position rt tx cp lg = Inr lg'"
  shows "solvent rt lg'"
proof -
  let ?ta = "cp_position_token_account cp" and ?auth = "cp_position_authority cp"
  obtain w p m tokens where w: "lg_pools lg (pos_whirlpool p) = Some w" and p: "lg_positions lg (cp_position cp) = Some p"
    and e: "is_position_empty p" and sgn: "tx_signer tx ?auth"
    and b: "burn_and_close_user_position_token rt ?auth (cp_receiver cp) (cp_position_mint cp, m) ?ta (lg_tokens lg) = Inr tokens"
    and lg': "lg' = lg\<lparr>lg_positions := (lg_positions lg)(cp_position cp := None), lg_tokens := tokens\<rparr>"
    using c by (auto simp: close_position_def require_enabled_def handler_iffs)
  obtain tokens1 where b1: "rt_burn_checked rt (lg_tokens lg) ?ta (cp_position_mint cp) ?auth 1 (mint_decimals m) = Inr tokens1"
    and b2: "rt_close_account rt tokens1 ?ta (cp_receiver cp) ?auth = Inr tokens"
    using b by (auto simp: burn_and_close_user_position_token_def handler_iffs)
  note b1 = honest_burnD [OF h b1] and b2 = honest_callsD(1) [OF h b2]
  have t: "carried rt (has_pool lg) (lg_tokens lg) tokens (\<lambda>_. 0)"
  proof (rule spares_carried [OF spares_trans [OF b1(2) b2]])
    fix x k assume "x \<in> {?ta}" "has_pool lg k"
    then show "\<not> guarded rt (lg_tokens lg) x k" using guarded_spend [OF _ b1(1)] sg sgn by auto
  qed
  show ?thesis
    unfolding lg'
    by (rule solvent_change [OF s w, where w' = w and f = "\<lambda>_. 0"])
      (use w p solventD(2,4) [OF s w] empty_fees [OF e] in \<open>auto simp: fun_upd_triv t intro!: backed_closed [where positions = "lg_positions lg", OF _ p]\<close>)
qed

section \<open>Fees and rewards\<close>

lemma update_fees_and_rewards_solvent:
  assumes s: "solvent rt lg" and acc: "accounted rt lg" and ok: "ledger_ok lg"
    and u: "update_fees_and_rewards tx ufr lg = Inr lg'"
  shows "solvent rt lg'"
proof -
  let ?k = "ufr_whirlpool ufr" and ?al = "ufr_tick_array_lower ufr" and ?au = "ufr_tick_array_upper ufr"
  obtain w p tal tau up infos where w: "lg_pools lg ?k = Some w" and p: "lg_positions lg (ufr_position ufr) = Some p" "pos_whirlpool p = ?k"
    and al: "lg_arrays lg ?al = Some tal" "ta_whirlpool tal = ?k" and au: "lg_arrays lg ?au = Some tau" "ta_whirlpool tau = ?k"
    and c: "calculate_fee_and_reward_growths w p (lg_arrays lg) ?al ?au (of_int (tx_unix_timestamp tx)) = Inr (up, infos)"
    and lg': "lg' = lg\<lparr>lg_pools := (lg_pools lg)(?k \<mapsto> update_rewards w infos (of_int (tx_unix_timestamp tx))),
      lg_positions := (lg_positions lg)(ufr_position ufr \<mapsto> position_update p up)\<rparr>"
    using u by (auto simp: update_fees_and_rewards_def handler_iffs)
  let ?w = "update_rewards w infos (of_int (tx_unix_timestamp tx))"
  have "settings_kept w ?w" by (rule growths_settings [OF c])
  then have v: "reward_vaults ?w = reward_vaults w" by (intro settings_vaults) (simp add: settings_kept_def)
  have v': "vault a ?w = vault a w" for a by (simp add: update_rewards_def vault_def)
  show ?thesis
  proof (rule solvent_change [OF s w, where w' = ?w and f = "\<lambda>_. 0"])
    show "backed a ?k ?w (lg_positions lg') (lg_arrays lg') (real (balance rt (lg_tokens lg) (vault a w)) + 0)" for a
      using growths_backed [OF acc ok w p al au c solventD(4) [OF s w]] by (simp add: lg')
    show "lg_positions lg' q = Some x \<longleftrightarrow> lg_positions lg q = Some x" if "pos_whirlpool x \<noteq> ?k" for q x
      using that p position_kept_updates(1) [of p up] by (auto simp: lg' position_kept_def)
  qed (use solventD(2) [OF s w] in \<open>simp_all add: v v' lg' carried_refl\<close>)
qed

lemma collect_fees_solvent:
  assumes h: "honest rt" and s: "solvent rt lg" and c: "collect_fees rt tx cf lg = Inr lg'"
  shows "solvent rt lg'"
proof -
  let ?k = "cf_whirlpool cf"
  obtain w p tokens1 tokens where w: "lg_pools lg ?k = Some w" and p: "lg_positions lg (cf_position cf) = Some p" "pos_whirlpool p = ?k"
    and v: "cf_token_vault_a cf = wp_token_vault_a w" "cf_token_vault_b cf = wp_token_vault_b w"
    and ta: "transfer_from_vault_to_owner rt (?k, w) (cf_token_vault_a cf) (cf_token_owner_account_a cf) (pos_fee_owed_a p) (lg_tokens lg) = Inr tokens1"
    and tb: "transfer_from_vault_to_owner rt (?k, w) (cf_token_vault_b cf) (cf_token_owner_account_b cf) (pos_fee_owed_b p) tokens1 = Inr tokens"
    and lg': "lg' = lg\<lparr>lg_positions := (lg_positions lg)(cf_position cf \<mapsto> reset_fees_owed p), lg_tokens := tokens\<rparr>"
    using c by (auto simp: collect_fees_def Let_def handler_iffs)
  note pay = two_payments [OF h vault_payment [OF ta] vault_payment [OF tb]]
  note old = solventD [OF s w]
  have kept: "position_kept p (reset_fees_owed p)" by (rule position_kept_updates)
  have moved: "carried rt (has_pool lg) (lg_tokens lg) (lg_tokens lg') (\<lambda>z. (if z = wp_token_vault_a w then - real (unat (pos_fee_owed_a p)) else 0)
      + (if z = wp_token_vault_b w then - real (unat (pos_fee_owed_b p)) else 0))"
    using pay(1) [of "has_pool lg"] by (simp add: lg' v)
  have fields: "lg_positions lg' = (lg_positions lg)(cf_position cf \<mapsto> reset_fees_owed p)" "lg_arrays lg' = lg_arrays lg" by (simp_all add: lg')
  show ?thesis
  proof (rule solvent_change [OF s w _ _ _ _ _ moved, where w' = w])
    show "backed a ?k w (lg_positions lg') (lg_arrays lg') (real (balance rt (lg_tokens lg) (vault a w))
        + ((if vault a w = wp_token_vault_a w then - real (unat (pos_fee_owed_a p)) else 0)
          + (if vault a w = wp_token_vault_b w then - real (unat (pos_fee_owed_b p)) else 0)))" for a
      unfolding fields
      by (rule backed_paid [where p = p, OF old(4) p(1) kept])
        (use old(3) p(2) in \<open>auto simp: reset_fees_owed_def checkpoint_def fee_owed_def vault_def simp del: of_nat_unat\<close>)
  qed (use w p old(2) pay(2) v kept in \<open>auto simp: lg' fun_upd_triv position_kept_def\<close>)
qed

lemma arr3_get_mem: "arr3_get xs i = Inr r \<Longrightarrow> r \<in> set (arr3_list xs)"
  by (cases xs) (auto split: if_splits)

lemma collect_reward_solvent:
  assumes h: "honest rt" and s: "solvent rt lg" and c: "collect_reward rt tx cr i lg = Inr lg'"
  shows "solvent rt lg'"
proof -
  let ?k = "cr_whirlpool cr"
  obtain w p p' r x y tokens where w: "lg_pools lg ?k = Some w" and p: "lg_positions lg (cr_position cr) = Some p" "pos_whirlpool p = ?k"
    and r: "arr3_get (wp_reward_infos w) (unat i) = Inr r" "cr_reward_vault cr = ri_vault r"
    and p': "update_reward_owed p (unat i) y = Inr p'"
    and t: "transfer_from_vault_to_owner rt (?k, w) (cr_reward_vault cr) (cr_reward_owner_account cr) x (lg_tokens lg) = Inr tokens"
    and lg': "lg' = lg\<lparr>lg_positions := (lg_positions lg)(cr_position cr \<mapsto> p'), lg_tokens := tokens\<rparr>"
    using c by (auto simp: collect_reward_def Let_def case_prod_beta handler_iffs)
  note foreign = payment_foreign [OF h vault_payment [OF t]]
  note old = solventD [OF s w]
  have moved: "carried rt (has_pool lg) (lg_tokens lg) (lg_tokens lg') (\<lambda>z. if z = cr_reward_vault cr then - real (unat x) else 0)"
    using payment_carried(1) [where P = "has_pool lg", OF h vault_payment [OF t]] by (simp add: lg')
  have kept: "position_kept p p'" by (rule position_kept_updates(4) [OF p'])
  have rv: "ri_vault r \<in> reward_vaults w" using arr3_get_mem [OF r(1)] by (simp add: reward_vaults_def)
  then have ne: "vault a w \<noteq> ri_vault r" for a using old(2) by metis
  have f: "pos_liquidity p' = pos_liquidity p" "checkpoint a p' = checkpoint a p" "fee_owed a p' = fee_owed a p" for a
    using p' by (auto simp: update_reward_owed_def and_then_Inr_iff checkpoint_def fee_owed_def)
  have fields: "lg_positions lg' = (lg_positions lg)(cr_position cr \<mapsto> p')" "lg_arrays lg' = lg_arrays lg" by (simp_all add: lg')
  show ?thesis
  proof (rule solvent_change [OF s w _ _ _ _ _ moved, where w' = w])
    show "backed a ?k w (lg_positions lg') (lg_arrays lg') (real (balance rt (lg_tokens lg) (vault a w))
        + (if vault a w = cr_reward_vault cr then - real (unat x) else 0))" for a
      unfolding fields
      by (rule backed_paid [where p = p, OF old(4) p(1) kept f(1,2)]) (use ne in \<open>simp_all add: f(3) r(2)\<close>)
  qed (use w p old(2) foreign kept in \<open>auto simp: lg' fun_upd_triv position_kept_def\<close>)
qed

lemma collect_protocol_fees_solvent:
  assumes h: "honest rt" and s: "solvent rt lg" and c: "collect_protocol_fees rt tx cpf lg = Inr lg'"
  shows "solvent rt lg'"
proof -
  let ?k = "cpf_whirlpool cpf"
  obtain w tokens1 tokens where w: "lg_pools lg ?k = Some w"
    and v: "cpf_token_vault_a cpf = wp_token_vault_a w" "cpf_token_vault_b cpf = wp_token_vault_b w"
    and ta: "transfer_from_vault_to_owner rt (?k, w) (cpf_token_vault_a cpf) (cpf_token_destination_a cpf) (wp_protocol_fee_owed_a w) (lg_tokens lg) = Inr tokens1"
    and tb: "transfer_from_vault_to_owner rt (?k, w) (cpf_token_vault_b cpf) (cpf_token_destination_b cpf) (wp_protocol_fee_owed_b w) tokens1 = Inr tokens"
    and lg': "lg' = lg\<lparr>lg_pools := (lg_pools lg)(?k \<mapsto> reset_protocol_fees_owed w), lg_tokens := tokens\<rparr>"
    using c by (auto simp: collect_protocol_fees_def handler_iffs)
  note pay = two_payments [OF h vault_payment [OF ta] vault_payment [OF tb]]
  note old = solventD [OF s w]
  have moved: "carried rt (has_pool lg) (lg_tokens lg) (lg_tokens lg') (\<lambda>z. (if z = wp_token_vault_a w then - real (unat (wp_protocol_fee_owed_a w)) else 0)
      + (if z = wp_token_vault_b w then - real (unat (wp_protocol_fee_owed_b w)) else 0))"
    using pay(1) [of "has_pool lg"] by (simp add: lg' v)
  show ?thesis
  proof (rule solvent_pool [OF s w _ _ _ _ _ moved, where w' = "reset_protocol_fees_owed w"])
    show "real (unat (protocol_owed a (reset_protocol_fees_owed w))) \<le> real (unat (protocol_owed a w))
        + ((if vault a w = wp_token_vault_a w then - real (unat (wp_protocol_fee_owed_a w)) else 0)
          + (if vault a w = wp_token_vault_b w then - real (unat (wp_protocol_fee_owed_b w)) else 0))" for a
      using old(3) by (simp add: reset_protocol_fees_owed_def protocol_owed_def vault_def del: of_nat_unat)
  qed (use old(2) pay(2) v in \<open>auto simp: lg' reset_protocol_fees_owed_def debt_kept_def fee_growth_def vault_def reward_vaults_def\<close>)
qed

section \<open>Deposits and withdrawals\<close>

lemma update_array_foreign:
  assumes u: "update_array_tick arrays a t s u = Inr arrays'" and own: "arrays a = Some ta" "ta_whirlpool ta = k"
  shows "\<exists>ta'. arrays' a = Some ta' \<and> ta_whirlpool ta' = k" "x \<noteq> a \<Longrightarrow> arrays' x = arrays x"
proof -
  obtain ta' where "update_tick ta t s u = Inr ta'" "arrays' = arrays(a \<mapsto> ta')"
    using update_array_tick_Inr [OF u] own(1) by (metis option.inject)
  then show "\<exists>ta'. arrays' a = Some ta' \<and> ta_whirlpool ta' = k" "x \<noteq> a \<Longrightarrow> arrays' x = arrays x"
    using own(2) by (auto simp: update_tick_def and_then_Inr_iff split: if_splits)
qed

lemma liquidity_arrays_foreign:
  assumes s: "sync_modify_liquidity_values w p arrays al au m ts = Inr (w', p', arrays')"
    and al: "arrays al = Some tal" "ta_whirlpool tal = k" and au: "arrays au = Some tau" "ta_whirlpool tau = k"
    and x: "ta_whirlpool ta \<noteq> k" "arrays' x = Some ta"
  shows "arrays x = Some ta"
proof -
  obtain arrays1 where
    w1: "update_array_tick arrays al (pos_tick_lower_index p) (wp_tick_spacing w) (ml_tick_lower_update m) = Inr arrays1" and
    w2: "update_array_tick arrays1 au (pos_tick_upper_index p) (wp_tick_spacing w) (ml_tick_upper_update m) = Inr arrays'"
    by (rule sync_modify_liquidity_Inr [OF s])
  note one = update_array_foreign [OF w1 al]
  obtain tau1 where au1: "arrays1 au = Some tau1" "ta_whirlpool tau1 = k"
    using one(1) one(2) [of au] au by (cases "au = al") auto
  note two = update_array_foreign [OF w2 au1]
  have "x \<noteq> au" using two(1) x by auto
  then have "arrays1 x = Some ta" using two(2) x(2) by simp
  moreover from this have "x \<noteq> al" using one(1) x(1) by auto
  ultimately show ?thesis using one(2) by simp
qed

text \<open>What both instructions do before they move the tokens.\<close>

lemma applied_solvent:
  assumes s: "solvent rt lg" and acc: "accounted rt lg" and ok: "ledger_ok lg"
    and ma: "modify_liquidity_accounts rt tx mla lg = Inr loaded"
    and ap: "apply_liquidity_change tx mla positive liq loaded lg = Inr (lg1, w', x, y)"
    and moved: "carried rt (has_pool lg) (lg_tokens lg) tokens
      (\<lambda>z. (if z = mod_token_vault_a mla then (if positive then 1 else - 1) * real (unat x) else 0)
        + (if z = mod_token_vault_b mla then (if positive then 1 else - 1) * real (unat y) else 0))" (is "carried _ _ _ _ ?f")
    and foreign: "\<And>z l. guarded rt (lg_tokens lg) z l \<Longrightarrow> l \<noteq> mod_whirlpool mla \<Longrightarrow> \<not> positive \<Longrightarrow>
      z \<noteq> mod_token_vault_a mla \<and> z \<noteq> mod_token_vault_b mla"
  shows "solvent rt (lg1\<lparr>lg_tokens := tokens\<rparr>)"
proof -
  let ?k = "mod_whirlpool mla" and ?q = "mod_position mla" and ?al = "mod_tick_array_lower mla" and ?au = "mod_tick_array_upper mla"
  let ?lg' = "lg1\<lparr>lg_tokens := tokens\<rparr>"
  obtain w p ta where l: "loaded = (w, p, ta)" by (cases loaded)
  obtain tal tau where w: "lg_pools lg ?k = Some w" and p: "lg_positions lg ?q = Some p" "pos_whirlpool p = ?k"
    and v: "mod_token_vault_a mla = vault True w" "mod_token_vault_b mla = vault False w"
    and al: "lg_arrays lg ?al = Some tal" "ta_whirlpool tal = ?k" and au: "lg_arrays lg ?au = Some tau" "ta_whirlpool tau = ?k"
    using ma unfolding l modify_liquidity_accounts_def handler_iffs by (auto simp: vault_def)
  obtain d m p' arrays where
    d: "convert_to_liquidity_delta liq positive = Inr d" "liq \<noteq> 0"
    and m: "calculate_modify_liquidity w p (lg_arrays lg) ?al ?au d (of_int (tx_unix_timestamp tx)) = Inr m"
    and sy: "sync_modify_liquidity_values w p (lg_arrays lg) ?al ?au m (of_int (tx_unix_timestamp tx)) = Inr (w', p', arrays)"
    and t: "calculate_liquidity_token_deltas (wp_tick_current_index w') (wp_sqrt_price w') p' d = Inr (x, y)"
    and lg1: "lg1 = lg\<lparr>lg_pools := (lg_pools lg)(?k \<mapsto> w'), lg_positions := (lg_positions lg)(?q \<mapsto> p'), lg_arrays := arrays\<rparr>"
    using ap by (auto simp: l apply_liquidity_change_def handler_iffs require_enabled_def)
  have di: "in_i128 d" by (rule convert_to_liquidity_delta_in_i128 [OF d(1)])
  have neg: "d < 0 \<longleftrightarrow> \<not> positive" using d by (auto simp: convert_to_liquidity_delta_Inr_iff uint_0_iff order_less_le)
  have w'eq: "w' = update_rewards_and_liquidity w (ml_reward_infos m) (ml_whirlpool_liquidity m) (of_int (tx_unix_timestamp tx))"
    "p' = position_update p (ml_position_update m)" by (rule sync_modify_liquidity_Inr [OF sy], simp)+
  have kept: "position_kept p p'" by (simp add: w'eq position_kept_updates)
  have pl: "uint (pos_liquidity p') = uint (pos_liquidity p) + d"
    using modify_liquidity_amounts(1) [OF m di] by (simp add: w'eq position_update_def)
  have wok: "pool_ok w" using ok w by (auto simp: ledger_ok_def pools_ok_def)
  have t: "calculate_liquidity_token_deltas (wp_tick_current_index w) (wp_sqrt_price w) p' d = Inr (x, y)"
    using t by (simp add: w'eq(1) rewards_leave)
  have r: "tick_in_range (pos_tick_lower_index p)" "tick_in_range (pos_tick_upper_index p)" "pos_tick_lower_index p < pos_tick_upper_index p"
    using position_ranges [OF ok p(1)] by blast+
  note cover = deltas_cover [OF r wok di kept pl t, unfolded neg]
  note old = solventD [OF s w]
  have rv: "reward_vaults w' = reward_vaults w"
    by (rule settings_vaults) (use liquidity_settings [OF m sy] in \<open>simp add: settings_kept_def\<close>)
  have va: "vault a w' = vault a w" for a by (simp add: w'eq(1) vault_def update_rewards_and_liquidity_def update_rewards_def)
  have fields: "lg_positions ?lg' = (lg_positions lg)(?q \<mapsto> p')" "lg_arrays ?lg' = arrays" by (simp_all add: lg1)
  show ?thesis
  proof (rule solvent_change [OF s w, where w' = w' and f = ?f])
    show "backed a ?k w' (lg_positions ?lg') (lg_arrays ?lg') (real (balance rt (lg_tokens lg) (vault a w)) + ?f (vault a w))" for a
      unfolding fields
      by (rule backed_mono [OF liquidity_changed_backed [OF acc ok w p di al au m sy old(4)]])
        (use cover [of a] old(3) in \<open>cases a; auto simp: v simp del: of_nat_unat\<close>)
    show "lg_arrays ?lg' z = Some ta \<Longrightarrow> lg_arrays lg z = Some ta" if "ta_whirlpool ta \<noteq> ?k" for z ta
      unfolding fields by (rule liquidity_arrays_foreign [OF sy al au that])
    show "lg_positions ?lg' z = Some a \<longleftrightarrow> lg_positions lg z = Some a" if "pos_whirlpool a \<noteq> ?k" for z a
      unfolding fields using that p kept by (auto simp: position_kept_def)
    show "0 \<le> ?f z" if "guarded rt (lg_tokens lg) z l" "l \<noteq> ?k" for z l
      using foreign [OF that] by (cases positive) (auto simp del: of_nat_unat)
  qed (use old(2) moved in \<open>simp_all add: lg1 rv va\<close>)
qed

lemma liquidity_solvent:
  assumes h: "honest rt" and s: "solvent rt lg" and acc: "accounted rt lg" and ok: "ledger_ok lg"
    and sg: "\<And>k. tx_signer tx k \<Longrightarrow> \<not> has_pool lg k"
  shows "increase_liquidity rt tx mla liq a b lg = Inr lg' \<Longrightarrow> solvent rt lg'"
    "decrease_liquidity rt tx mla liq a b lg = Inr lg' \<Longrightarrow> solvent rt lg'"
proof -
  let ?auth = "mod_position_authority mla"
  have tok: "lg_tokens lg1 = lg_tokens lg" if "apply_liquidity_change tx mla positive liq loaded lg = Inr (lg1, w', x, y)"
    for lg1 loaded w' x y positive
    using that by (cases loaded) (auto simp: apply_liquidity_change_def handler_iffs)
  show "solvent rt lg'" if i: "increase_liquidity rt tx mla liq a b lg = Inr lg'"
  proof -
    obtain w p ta lg1 w' x y tokens1 tokens where ma: "modify_liquidity_accounts rt tx mla lg = Inr (w, p, ta)"
      and ap: "apply_liquidity_change tx mla True liq (w, p, ta) lg = Inr (lg1, w', x, y)"
      and t1: "rt_transfer rt (lg_tokens lg1) (mod_token_owner_account_a mla) (mod_token_vault_a mla) ?auth x = Inr tokens1"
      and t2: "rt_transfer rt tokens1 (mod_token_owner_account_b mla) (mod_token_vault_b mla) ?auth y = Inr tokens"
      and lg': "lg' = lg1\<lparr>lg_tokens := tokens\<rparr>"
      using i by (auto simp: increase_liquidity_def handler_iffs transfer_from_owner_to_vault_def)
    have "tx_signer tx ?auth" using ma unfolding modify_liquidity_accounts_def handler_iffs by blast
    then have "\<not> has_pool lg ?auth" by (rule sg)
    from two_deposits [where P = "has_pool lg", OF h this t1 [unfolded tok [OF ap]] t2]
    show ?thesis unfolding lg' by (intro applied_solvent [OF s acc ok ma ap]) (simp_all cong: if_cong del: of_nat_unat)
  qed
  show "solvent rt lg'" if i: "decrease_liquidity rt tx mla liq a b lg = Inr lg'"
  proof -
    obtain w p ta lg1 w' x y tokens1 tokens where ma: "modify_liquidity_accounts rt tx mla lg = Inr (w, p, ta)"
      and ap: "apply_liquidity_change tx mla False liq (w, p, ta) lg = Inr (lg1, w', x, y)"
      and t1: "transfer_from_vault_to_owner rt (mod_whirlpool mla, w') (mod_token_vault_a mla) (mod_token_owner_account_a mla) x (lg_tokens lg1) = Inr tokens1"
      and t2: "transfer_from_vault_to_owner rt (mod_whirlpool mla, w') (mod_token_vault_b mla) (mod_token_owner_account_b mla) y tokens1 = Inr tokens"
      and lg': "lg' = lg1\<lparr>lg_tokens := tokens\<rparr>"
      using i by (auto simp: decrease_liquidity_def handler_iffs)
    note pay = two_payments [OF h vault_payment [OF t1 [unfolded tok [OF ap]]] vault_payment [OF t2]]
    show ?thesis unfolding lg' by (rule applied_solvent [OF s acc ok ma ap]) (use pay(1) [of "has_pool lg"] pay(2) in \<open>simp_all cong: if_cong del: of_nat_unat\<close>)
  qed
qed

section \<open>Swaps\<close>

lemma store_arrays_foreign:
  assumes arr: "arrays_of m keys = Inr arrays" and keys: "distinct keys" and own: "\<forall>ta \<in> set arrays. ta_whirlpool ta = k"
    and ids: "array_ids arrays' = array_ids arrays" and x: "ta_whirlpool ta \<noteq> k" "store_arrays m keys arrays' x = Some ta"
  shows "m x = Some ta"
proof -
  have len: "length arrays' = length keys"
    using arg_cong [OF ids, of length] arg_cong [OF arr [unfolded arrays_of_Inr_iff], of length] by (simp add: array_ids_def)
  have "x \<notin> set keys"
  proof
    assume "x \<in> set keys"
    then obtain i where i: "i < length keys" "keys ! i = x" by (auto simp: in_set_conv_nth)
    then have "ta \<in> set arrays'" using x(2) store_arrays_nth [OF keys i(1), of arrays' m] len by auto
    then have "(ta_whirlpool ta, ta_start_tick_index ta) \<in> set (array_ids arrays)"
      unfolding ids [symmetric] by (auto simp: array_ids_def)
    then show False using own x(1) by (auto simp: array_ids_def)
  qed
  then show ?thesis using x(2) by (simp add: store_arrays_other)
qed

lemma swapped_solvent:
  assumes h: "honest rt" and s: "solvent rt lg" and acc: "accounted rt lg" and ok: "ledger_ok lg" and neg: "nets_negatable (lg_positions lg)"
    and w: "lg_pools lg k = Some w" and arr: "arrays_of (lg_arrays lg) keys = Inr arrays"
    and keys: "keys \<noteq> []" "distinct keys" and own: "\<forall>ta \<in> set arrays. ta_whirlpool ta = k"
    and r: "swap w arrays amount limit inp a_to_b ts = Some (Inr (u, arrays'))"
    and tr: "update_and_swap_whirlpool rt (k, w) auth oa ob (wp_token_vault_a w) (wp_token_vault_b w) u a_to_b ts (lg_tokens lg) = Inr (w', tokens)"
    and sg: "\<not> has_pool lg auth"
  shows "solvent rt (after_swap lg k w' keys arrays' tokens)"
proof -
  let ?lg' = "after_swap lg k w' keys arrays' tokens" and ?in = "vault a_to_b w" and ?out = "vault (\<not> a_to_b) w"
  let ?f = "\<lambda>z. (if z = ?in then real (unat (swap_input a_to_b u)) else 0) + (if z = ?out then - real (unat (swap_output a_to_b u)) else 0)"
  note w' = update_and_swap_Inr [OF tr] and old = solventD [OF s w]
  have vio: "?in = (if a_to_b then wp_token_vault_a w else wp_token_vault_b w)"
    "?out = (if a_to_b then wp_token_vault_b w else wp_token_vault_a w)" by (auto simp: vault_def)
  obtain tokens1 where
    t1: "rt_transfer rt (lg_tokens lg) (if a_to_b then oa else ob) ?in auth (swap_input a_to_b u) = Inr tokens1" and
    t2: "rt_transfer rt tokens1 ?out (if a_to_b then ob else oa) k (swap_output a_to_b u) = Inr tokens"
    using that unfolding vio by (rule update_and_swap_transfers [OF tr])
  have fields: "lg_pools ?lg' = (lg_pools lg)(k \<mapsto> w')" "lg_positions ?lg' = lg_positions lg"
    "lg_arrays ?lg' = store_arrays (lg_arrays lg) keys arrays'" "lg_tokens ?lg' = tokens" by (simp_all add: after_swap_def)
  have ne: "?in \<noteq> ?out" using old(3) by (cases a_to_b) auto
  have rv: "reward_vaults w' = reward_vaults w"
    by (rule settings_vaults) (use swap_settings_kept [OF r] in \<open>simp add: w' settings_kept_def\<close>)
  have va: "vault a w' = vault a w" for a by (simp add: w' update_after_swap_def Let_def vault_def)
  note b = backed_swap [OF acc ok neg w arr keys own r w' old(4,4)]
  show ?thesis
  proof (rule solvent_change [OF s w fields(1), where f = ?f])
    show "carried rt (has_pool lg) (lg_tokens lg) (lg_tokens ?lg') ?f"
      unfolding fields by (rule carried_trans [OF deposit_carried [where P = "has_pool lg", OF h t1 sg] payment_carried(1) [OF h t2]])
    show "0 \<le> ?f z" if g: "guarded rt (lg_tokens lg) z l" "l \<noteq> k" for z l
      using payment_foreign [OF h t2 honest_transferD(2) [OF h t1 g(1)] g(2)] by (simp del: of_nat_unat)
    show "backed a k w' (lg_positions ?lg') (lg_arrays ?lg') (real (balance rt (lg_tokens lg) (vault a w)) + ?f (vault a w))" for a
      using b ne unfolding fields by (cases "a = a_to_b") (auto simp del: of_nat_unat)
    show "lg_arrays lg z = Some ta" if "ta_whirlpool ta \<noteq> k" "lg_arrays ?lg' z = Some ta" for z ta
      by (rule store_arrays_foreign [OF arr keys(2) own swap_ids [OF r] that(1) that(2) [unfolded fields]])
  qed (use old(2) in \<open>simp_all add: fields rv va\<close>)
qed

lemma swap_solvent:
  assumes h: "honest rt" and s: "solvent rt lg" and acc: "accounted rt lg" and ok: "ledger_ok lg" and neg: "nets_negatable (lg_positions lg)"
    and sg: "\<And>k. tx_signer tx k \<Longrightarrow> \<not> has_pool lg k"
    and c: "swap_instruction rt tx sa amount other limit inp a_to_b lg = Some (Inr lg')"
  shows "solvent rt lg'"
proof (rule swap_instruction_Inr [OF c])
  fix w :: Whirlpool and keys arrays and u :: PostSwapUpdate and arrays' tokens
  let ?w' = "update_after_swap w (ps_next_liquidity u) (ps_next_tick_index u) (ps_next_sqrt_price u)
    (ps_next_fee_growth_global u) (ps_next_reward_infos u) (ps_next_protocol_fee u) a_to_b (of_int (tx_unix_timestamp tx))"
  assume w: "swap_accounts rt tx sa lg = Inr w"
    and keys: "borrow_sequence [] (sa_tick_array_0 sa) (sa_tick_array_1 sa) (sa_tick_array_2 sa) = Inr keys"
    and arr: "arrays_of (lg_arrays lg) keys = Inr arrays"
    and r: "swap w arrays amount limit inp a_to_b (of_int (tx_unix_timestamp tx)) = Some (Inr (u, arrays'))"
    and tr: "update_and_swap_whirlpool rt (sa_whirlpool sa, w) (sa_token_authority sa)
       (sa_token_owner_account_a sa) (sa_token_owner_account_b sa) (sa_token_vault_a sa)
       (sa_token_vault_b sa) u a_to_b (of_int (tx_unix_timestamp tx)) (lg_tokens lg) = Inr (?w', tokens)"
    and lg': "lg' = lg\<lparr>lg_pools := (lg_pools lg)(sa_whirlpool sa \<mapsto> ?w'), lg_arrays := store_arrays (lg_arrays lg) keys arrays', lg_tokens := tokens\<rparr>"
  note b = borrowed_arrays [OF keys arr swap_accounts_Inr(2) [OF w]] and v = swap_vaults [OF w]
  show "solvent rt lg'"
    unfolding lg' after_swap_def [symmetric]
    by (rule swapped_solvent [OF h s acc ok neg swap_accounts_Inr(1) [OF w] arr b r tr [unfolded v] sg [OF v(1)]])
qed

lemma two_hop_solvent:
  assumes h: "honest rt" and s: "solvent rt lg" and ac: "accounted rt lg" and ok: "ledger_ok lg" and neg: "nets_negatable (lg_positions lg)"
    and sg: "\<And>k. tx_signer tx k \<Longrightarrow> \<not> has_pool lg k"
    and c: "two_hop_swap rt tx acc amount other inp d1 d2 l1 l2 lg = Some (Inr lg')"
  shows "solvent rt lg'"
proof (rule two_hop_swap_Inr [OF c])
  fix one two :: Whirlpool and k1 k2 s1 s2 and u1 u2 :: PostSwapUpdate and s1' s2' one' two' tokens1 tokens
  let ?ts = "of_int (tx_unix_timestamp tx) :: u64"
  let ?k = "th_whirlpool_one acc" and ?l = "th_whirlpool_two acc"
  assume p: "two_hop_swap_accounts rt tx acc lg = Inr (one, two)" "?k \<noteq> ?l"
    and k1: "borrow_sequence [] (th_tick_array_one_0 acc) (th_tick_array_one_1 acc) (th_tick_array_one_2 acc) = Inr k1"
    and s1: "arrays_of (lg_arrays lg) k1 = Inr s1"
    and k2: "borrow_sequence k1 (th_tick_array_two_0 acc) (th_tick_array_two_1 acc) (th_tick_array_two_2 acc) = Inr k2"
    and s2: "arrays_of (lg_arrays lg) k2 = Inr s2"
    and u: "two_hop_updates one two s1 s2 amount inp d1 d2 l1 l2 ?ts = Some (Inr ((u1, s1'), (u2, s2')))"
    and w1: "update_and_swap_whirlpool rt (?k, one) (th_token_authority acc)
       (th_token_owner_account_one_a acc) (th_token_owner_account_one_b acc) (th_token_vault_one_a acc)
       (th_token_vault_one_b acc) u1 d1 ?ts (lg_tokens lg) = Inr (one', tokens1)"
    and w2: "update_and_swap_whirlpool rt (?l, two) (th_token_authority acc)
       (th_token_owner_account_two_a acc) (th_token_owner_account_two_b acc) (th_token_vault_two_a acc)
       (th_token_vault_two_b acc) u2 d2 ?ts tokens1 = Inr (two', tokens)"
    and lg': "lg\<lparr>lg_pools := (lg_pools lg)(?k \<mapsto> one', ?l \<mapsto> two'),
        lg_arrays := store_arrays (store_arrays (lg_arrays lg) k1 s1') k2 s2', lg_tokens := tokens\<rparr> = lg'"
  note a = two_hop_swap_accounts_Inr [OF p(1)] and t = two_hop_updates_Inr [OF u] and v = two_hop_vaults [OF p(1)]
  define lg1 where "lg1 = after_swap lg ?k one' k1 s1' tokens1"
  note b1 = borrowed_arrays [OF k1 s1 a(3)] and b2 = borrowed_arrays [OF k2 s2 a(4)]
  have one: "pool_swap lg ?k one' k1 s1'"
    unfolding pool_swap_def update_and_swap_Inr [OF w1] using a(1) s1 t(1) b1 by blast
  have so: "solvent rt lg1"
    unfolding lg1_def by (rule swapped_solvent [OF h s ac ok neg a(1) s1 b1 t(1) w1 [unfolded v(2,3)] sg [OF v(1)]])
  have ac1: "accounted rt lg1" and ok1: "ledger_ok lg1"
    unfolding lg1_def by (rule pool_swap_accounted [OF ac ok neg one], rule ledger_ok_after_swap [OF ok one])
  have neg1: "nets_negatable (lg_positions lg1)" and l2: "lg_pools lg1 ?l = Some two" and tok: "lg_tokens lg1 = tokens1"
    using neg a(2) p(2) by (simp_all add: lg1_def after_swap_def)
  have sg1: "\<not> has_pool lg1 (th_token_authority acc)"
    using sg [OF v(1)] a(1) by (auto simp: has_pool_def lg1_def after_swap_def)
  have "set k2 \<inter> set k1 = {}" using borrow_sequence_Inr(4) [OF k2] .
  then have s2': "arrays_of (lg_arrays lg1) k2 = Inr s2"
    using s2 by (simp add: lg1_def after_swap_def arrays_of_store_other)
  have "lg' = after_swap lg1 ?l two' k2 s2' tokens" by (simp add: lg1_def after_swap_def flip: lg')
  then show "solvent rt lg'"
    using swapped_solvent [OF h so ac1 ok1 neg1 l2 s2' b2 t(2) w2 [folded tok, unfolded v(4,5)] sg1] by simp
qed

section \<open>Every instruction\<close>

theorem process_solvent:
  assumes "honest rt" "solvent rt lg" "accounted rt lg" "ledger_ok lg" "nets_negatable (lg_positions lg)"
    and "\<And>k. tx_signer tx k \<Longrightarrow> \<not> has_pool lg k" "\<not> tx_signer tx default_pubkey"
    and "process rt nft tx ins lg = Some (Inr lg')"
  shows "solvent rt lg'"
  using assms(8)
  by (cases ins) (auto intro: config_solvent [OF assms(2)] settings_solvent [OF assms(2)]
    initialize_pool_solvent [OF assms(1,2,4,7)] initialize_tick_array_solvent [OF assms(2)]
    initialize_reward_solvent [OF assms(1,2)] open_position_solvent [OF assms(1,2)]
    close_position_solvent [OF assms(1,2,6)] liquidity_solvent [OF assms(1-4,6)]
    update_fees_and_rewards_solvent [OF assms(2-4)] collect_fees_solvent [OF assms(1,2)]
    collect_reward_solvent [OF assms(1,2)] collect_protocol_fees_solvent [OF assms(1,2)]
    swap_solvent [OF assms(1-6)] two_hop_solvent [OF assms(1-6)])

end
