(* ===== verification/Vault_Runs.thy ===== *)
theory Vault_Runs
  imports Vault_Solvency
begin

text \<open>
  Runs of the program beside an honest token program.  Every pool is solvent on them; and since the
  liquidity of a position is backed by tokens, of which there are less than 2^64, no net liquidity
  comes near -2^127, so that these runs are tame without a proviso.
\<close>

section \<open>Liquidity costs tokens\<close>

lemma price_gap:
  assumes r: "tick_in_range l" "tick_in_range u" "l < u"
  shows "real (price_val l) * (1 + 48 / 1000000) \<le> real (price_val u)"
proof -
  note a = ln_price_ticks [OF r(1)] and b = ln_price_ticks [OF r(2)]
  have "48 / 1000000 \<le> (1 - 2 / 700) * ln tick_base" using ln_tick_base(1) by simp
  also have "\<dots> \<le> (real_of_int u - real_of_int l - 2 / 700) * ln tick_base"
  proof (rule mult_right_mono)
    have "1 \<le> real_of_int u - real_of_int l" using r(3) by linarith
    then show "1 - 2 / 700 \<le> real_of_int u - real_of_int l - 2 / 700" by simp
    show "0 \<le> ln tick_base" using ln_tick_base(1) by simp
  qed
  also have "\<dots> \<le> ln (price_val u) - ln (price_val l)"
    using a(2) b(1) by (simp add: algebra_simps)
  finally have "ln (1 + 48 / 1000000) \<le> ln (price_val u) - ln (price_val l)"
    using ln_add_one_self_le_self [of "48 / 1000000"] by linarith
  then have "ln (real (price_val l) * (1 + 48 / 1000000)) \<le> ln (price_val u)"
    using a(3) by (subst ln_mult_pos) simp_all
  then show ?thesis using a(3) b(3) by (subst (asm) ln_le_cancel_iff) simp_all
qed

lemma range_measured:
  fixes x y c :: nat
  assumes x: "2 ^ 32 \<le> x" "x \<le> c" "c \<le> y" "y \<le> 2 ^ 97" and gap: "real x * (1 + 48 / 1000000) \<le> real y"
  shows "1 / 2 ^ 50 \<le> (token_measure True c - token_measure True y) + (token_measure False c - token_measure False x)"
proof -
  have pos: "0 < c" "0 < x" "0 < y" using x by (auto intro: less_le_trans [of 0 "2 ^ 32"])
  have m: "0 \<le> token_measure True c - token_measure True y" "0 \<le> token_measure False c - token_measure False x"
    using x pos by (simp_all add: token_measure_def frac_le divide_right_mono)
  have "real (2 ^ 32) \<le> real x" "real y \<le> real (2 ^ 97)" using x(1,4) by (simp_all only: of_nat_le_iff)
  then have xr: "(2 :: real) ^ 32 \<le> real x" and yr: "real y \<le> 2 ^ 97" by (simp_all only: of_nat_power of_nat_numeral)
  show ?thesis
  proof (cases "real x * (1 + 24 / 1000000) \<le> real c")
    case True
    then have "2 ^ 32 * (24 / 1000000) \<le> real c - real x" using xr by (simp add: algebra_simps)
    then have "2 ^ 32 * (24 / 1000000) / 2 ^ 64 \<le> (real c - real x) / 2 ^ 64" by (rule divide_right_mono) simp
    then have "1 / 2 ^ 50 \<le> token_measure False c - token_measure False x"
      by (simp add: token_measure_def diff_divide_distrib)
    then show ?thesis using m(1) by linarith
  next
    case False
    then have "real c * (1 + 23 / 1000000) \<le> real y" using gap by (simp add: algebra_simps)
    then have "real y * (22 / 1000000) \<le> real y - real c" using pos by (simp add: algebra_simps)
    moreover have "real y * real c \<le> real y * 2 ^ 97" using x(3) yr by (intro mult_left_mono) simp_all
    ultimately have "2 ^ 64 * (real y * (22 / 1000000)) / (real y * 2 ^ 97) \<le> 2 ^ 64 * (real y - real c) / (real y * real c)"
      using pos by (intro frac_le) simp_all
    moreover have "2 ^ 64 * (real y - real c) / (real y * real c) = token_measure True c - token_measure True y"
      using pos by (simp add: token_measure_def field_simps)
    moreover have "2 ^ 64 * (real y * (22 / 1000000)) / (real y * 2 ^ 97) = (22 / 1000000) / 2 ^ 33"
      using pos by simp
    ultimately have "1 / 2 ^ 50 \<le> token_measure True c - token_measure True y" by simp
    then show ?thesis using m(2) by linarith
  qed
qed

lemma worth_floor:
  assumes r: "tick_in_range (pos_tick_lower_index p)" "tick_in_range (pos_tick_upper_index p)"
      "pos_tick_lower_index p < pos_tick_upper_index p"
  shows "real (unat (pos_liquidity p)) / 2 ^ 50 \<le> position_worth True n p + position_worth False n p"
proof -
  let ?x = "price_val (pos_tick_lower_index p)" and ?y = "price_val (pos_tick_upper_index p)"
  have lt: "?x < ?y" using price_val_less_iff [OF r(1,2)] r(3) by simp
  have "2 ^ 32 \<le> ?x" "?y \<le> 2 ^ 97"
    using price_val_le_iff [of MIN_TICK_INDEX "pos_tick_lower_index p"] price_val_le_iff [of "pos_tick_upper_index p" MAX_TICK_INDEX]
      r(1,2) price_val_ends
    by (auto simp: tick_in_range_def MIN_SQRT_PRICE_X64_def MAX_SQRT_PRICE_X64_def MIN_TICK_INDEX_def MAX_TICK_INDEX_def)
  from range_measured [OF this(1) _ _ this(2) price_gap [OF r], of "clamp ?x ?y n"] lt
  have "1 / 2 ^ 50 \<le> (token_measure True (clamp ?x ?y n) - token_measure True ?y)
    + (token_measure False (clamp ?x ?y n) - token_measure False ?x)" by (simp add: clamp_def)
  from mult_left_mono [OF this, of "real (unat (pos_liquidity p))"]
  show ?thesis by (simp add: position_worth_def Let_def distrib_left del: of_nat_unat)
qed

section \<open>What a vault backs\<close>

lemma balance_bound: "real (balance rt tokens x) \<le> 2 ^ 64"
proof -
  have "balance rt tokens x \<le> 2 ^ 64"
    using unsigned_less [where 'b = 64 and 'a = nat] by (auto simp: balance_def less_imp_le split: option.splits)
  then have "real (balance rt tokens x) \<le> real (2 ^ 64)" by (simp only: of_nat_le_iff)
  then show ?thesis by (simp only: of_nat_power of_nat_numeral)
qed

text \<open>The debt counts the worth of each position and the fees noted in it.\<close>

lemma backed_covers:
  assumes b: "backed a k w positions arrays v"
    and f: "\<And>q p. positions q = Some p \<Longrightarrow> pos_whirlpool p = k \<Longrightarrow>
      f p \<le> position_worth a (unat (wp_sqrt_price w)) p + real (unat (fee_owed a p))"
    and z: "\<And>p. pos_whirlpool p \<noteq> k \<Longrightarrow> f p \<le> 0"
  shows "total f positions + real (unat (protocol_owed a w)) \<le> v"
proof -
  obtain B e where d: "debt a k w e positions \<le> v" using b by (auto simp: backed_def)
  have "f p \<le> position_debt a k (unat (wp_sqrt_price w)) p (e q)" if q: "positions q = Some p" for q p
  proof (cases "pos_whirlpool p = k")
    case True
    have "0 \<le> real (unat (pos_liquidity p)) * real (e q) / 2 ^ 64" by (simp del: of_nat_unat)
    then show ?thesis using f [OF q True] True unfolding position_debt_def by (simp only: if_True refl)
  qed (use z in \<open>simp add: position_debt_def\<close>)
  then have "tally (\<lambda>q. f) positions \<le> tally (\<lambda>q p. position_debt a k (unat (wp_sqrt_price w)) p (e q)) positions"
    by (rule tally_mono)
  then show ?thesis using d unfolding debt_def tally_total by linarith
qed

lemma solvent_negatable:
  assumes s: "solvent rt lg" and ok: "ledger_ok lg"
  shows "nets_negatable (lg_positions lg)"
  unfolding nets_negatable_def
proof (intro allI)
  fix k t
  let ?ps = "lg_positions lg"
  show "- (2 ^ 127) < net_total ?ps k t"
  proof (cases "lg_pools lg k")
    case None
    have "pos_whirlpool p \<noteq> k" if "?ps q = Some p" for q p
    proof -
      have "tied (lg_pools lg) (pos_whirlpool p) (\<lambda>s. position_ok s p)" using ok that by (auto simp: ledger_ok_def positions_ok_def)
      then show ?thesis using None by (auto simp: tied_def)
    qed
    then have "net_total ?ps k t = 0" unfolding net_total_def by (intro total_0) (simp add: net_share_def)
    then show ?thesis by simp
  next
    case (Some w)
    let ?n = "unat (wp_sqrt_price w)" and ?l = "\<lambda>p. if pos_whirlpool p = k then real (unat (pos_liquidity p)) else 0"
    let ?W = "\<lambda>a p. if pos_whirlpool p = k then position_worth a ?n p else 0"
    have W: "total (?W a) ?ps \<le> 2 ^ 64" for a
      using backed_covers [OF solventD(4) [OF s Some], of "?W a" a] balance_bound [of rt "lg_tokens lg" "vault a w"]
      by (fastforce simp del: of_nat_unat)
    have "?l p / 2 ^ 50 \<le> ?W True p + ?W False p" if "?ps q = Some p" for q p
      using worth_floor [of p ?n] position_ranges [OF ok that] by simp
    then have "total (\<lambda>p. ?l p / 2 ^ 50) ?ps \<le> total (\<lambda>p. ?W True p + ?W False p) ?ps" by (rule total_mono)
    also have "\<dots> = total (?W True) ?ps + total (?W False) ?ps"
      using tally_add [of "\<lambda>q. ?W True" "\<lambda>q. ?W False" ?ps] by (simp only: tally_total)
    also have "\<dots> \<le> 2 ^ 65" using W [of True] W [of False] by simp
    finally have l: "total (\<lambda>p. ?l p / 2 ^ 50) ?ps \<le> 2 ^ 65" .
    have "- (?l p / 2 ^ 50) * 2 ^ 50 \<le> real_of_int (net_share k t p)" for p
    proof -
      have "0 \<le> (unsigned (pos_liquidity p) :: real)" using of_nat_0_le_iff [where 'a = real, of "unat (pos_liquidity p)"]
        by (simp only: of_nat_unat)
      then show ?thesis by (simp add: net_share_def)
    qed
    then have "total (\<lambda>p. - (?l p / 2 ^ 50) * 2 ^ 50) ?ps \<le> real_of_int (net_total ?ps k t)"
      unfolding net_total_def total_real by (intro total_mono)
    moreover have "total (\<lambda>p. - (?l p / 2 ^ 50) * 2 ^ 50) ?ps = - (2 ^ 50 * total (\<lambda>p. ?l p / 2 ^ 50) ?ps)"
      unfolding total_def sum_distrib_left sum_negf [symmetric] by (rule sum.cong) (auto split: option.splits)
    ultimately have "- (2 ^ 115) \<le> real_of_int (net_total ?ps k t)" using l by simp
    then have "real_of_int (- (2 ^ 115)) \<le> real_of_int (net_total ?ps k t)" by simp
    then have "- (2 ^ 115) \<le> net_total ?ps k t" by (simp only: of_int_le_iff)
    then show ?thesis by simp
  qed
qed

section \<open>Runs beside an honest token program\<close>

text \<open>
  A pool signs no transaction, and nobody signs for the default key, the address of the system
  program.  Whatever else is done with the token program leaves the accounts guarded by the pools as
  they are, but may pay into them.
\<close>

definition pool_accounts_kept :: "'t runtime \<Rightarrow> 't ledger \<Rightarrow> 't \<Rightarrow> bool" where
  "pool_accounts_kept rt lg tokens \<longleftrightarrow> (\<forall>x k. lg_pools lg k \<noteq> None \<longrightarrow> guarded rt (lg_tokens lg) x k \<longrightarrow>
     guarded rt tokens x k \<and> balance rt (lg_tokens lg) x \<le> balance rt tokens x)"

inductive secure :: "'t runtime \<Rightarrow> pubkey \<Rightarrow> 't ledger \<Rightarrow> bool" for rt nft where
  start: "lg_configs lg = Map.empty \<Longrightarrow> lg_fee_tiers lg = Map.empty \<Longrightarrow> lg_pools lg = Map.empty \<Longrightarrow>
     lg_positions lg = Map.empty \<Longrightarrow> lg_arrays lg = Map.empty \<Longrightarrow> secure rt nft lg"
| transaction: "secure rt nft lg \<Longrightarrow> (\<forall>k. tx_signer tx k \<longrightarrow> lg_pools lg k = None \<and> k \<noteq> default_pubkey) \<Longrightarrow>
     process rt nft tx ins lg = Some (Inr lg') \<Longrightarrow> secure rt nft lg'"
| outside: "secure rt nft lg \<Longrightarrow> pool_accounts_kept rt lg tokens \<Longrightarrow> secure rt nft (lg\<lparr>lg_tokens := tokens\<rparr>)"

lemma secure_solvent:
  assumes "secure rt nft lg" "honest rt"
  shows "tame rt nft lg \<and> solvent rt lg"
  using assms(1)
proof (induction rule: secure.induct)
  case (start lg)
  then show ?case by (auto intro: tame.start simp: solvent_def)
next
  case (transaction lg tx ins lg')
  have ok: "ledger_ok lg" "accounted rt lg"
    using transaction(4) by (auto intro: reachable_ledger_ok tame_reachable tame_accounted)
  have neg: "nets_negatable (lg_positions lg)" using solvent_negatable transaction(4) ok(1) by blast
  have "solvent rt lg'"
    by (rule process_solvent [OF assms(2) _ ok(2,1) neg _ _ transaction(3)]) (use transaction in \<open>auto simp: has_pool_def\<close>)
  then show ?case using tame.later [OF _ neg step.transaction [OF transaction(3)]] transaction(4) by blast
next
  case (outside lg tokens)
  have neg: "nets_negatable (lg_positions lg)"
    using solvent_negatable outside(3) by (auto intro: reachable_ledger_ok tame_reachable)
  have "solvent rt (lg\<lparr>lg_tokens := tokens\<rparr>)"
    by (rule solvent_same [where lg = lg]) (use outside in \<open>auto simp: carried_def pool_accounts_kept_def has_pool_def\<close>)
  then show ?case using tame.later [OF _ neg step.outside] outside(3) by blast
qed

text \<open>What the program would pay for all positions, what it has noted for them, and its own share.\<close>

definition fees_noted :: "bool \<Rightarrow> pubkey \<Rightarrow> positions \<Rightarrow> int" where
  "fees_noted a k positions = total (\<lambda>p. if pos_whirlpool p = k then uint (fee_owed a p) else 0) positions"

lemma solvent_claims:
  assumes s: "solvent rt lg" and ok: "ledger_ok lg" and w: "lg_pools lg k = Some w"
  shows "claims False a k w (lg_positions lg) + fees_noted a k (lg_positions lg) + uint (protocol_owed a w)
    \<le> int (balance rt (lg_tokens lg) (vault a w))"
proof -
  let ?ps = "lg_positions lg" and ?c = "claim False a k w" and ?g = "\<lambda>p. if pos_whirlpool p = k then uint (fee_owed a p) else 0"
  have wok: "price_in_range (wp_sqrt_price w)" "tick_price_ok (wp_tick_current_index w) (wp_sqrt_price w)"
    using ok w by (auto simp: ledger_ok_def pools_ok_def pool_ok_def)
  have word: "real_of_int (uint x) = real (unat x)" for x :: u64 by simp
  have sum: "total (\<lambda>p. real_of_int (?c p) + real_of_int (?g p)) ?ps = real_of_int (claims False a k w ?ps + fees_noted a k ?ps)"
    using tally_add [of "\<lambda>q p. real_of_int (?c p)" "\<lambda>q p. real_of_int (?g p)" ?ps]
    by (simp only: tally_total claims_def fees_noted_def total_real of_int_add)
  have "total (\<lambda>p. real_of_int (?c p) + real_of_int (?g p)) ?ps + real (unat (protocol_owed a w)) \<le> real (balance rt (lg_tokens lg) (vault a w))"
  proof (rule backed_covers [OF solventD(4) [OF s w]])
    show "real_of_int (?c p) + real_of_int (?g p) \<le> position_worth a (unat (wp_sqrt_price w)) p + real (unat (fee_owed a p))"
      if "?ps q = Some p" "pos_whirlpool p = k" for q p
      using position_amounts_worth(1) [of p "wp_tick_current_index w" "wp_sqrt_price w" a] position_ranges [OF ok that(1)] wok that(2)
      by (simp add: claim_def)
  qed (simp add: claim_def)
  then have "real_of_int (claims False a k w ?ps + fees_noted a k ?ps + uint (protocol_owed a w))
      \<le> real_of_int (int (balance rt (lg_tokens lg) (vault a w)))"
    unfolding sum by simp
  then show ?thesis by (simp only: of_int_le_iff)
qed

end
