(* ===== verification/Liquidity_Withdrawal.thy ===== *)
theory Liquidity_Withdrawal
  imports Liquidity_Account
begin

text \<open>
  On a ledger whose books balance the calculation of a withdrawal cannot fail: the tick arrays of the
  position exist, and no liquidity sinks below zero.
\<close>

section \<open>What is in a position can be taken out\<close>

lemma share_covered:
  assumes "positions q = Some p"
  shows "uint (pos_liquidity p) \<le> gross_total positions (pos_whirlpool p) (pos_tick_lower_index p)"
    "uint (pos_liquidity p) \<le> gross_total positions (pos_whirlpool p) (pos_tick_upper_index p)"
    "pos_tick_lower_index p \<le> t \<Longrightarrow> t < pos_tick_upper_index p \<Longrightarrow>
      uint (pos_liquidity p) \<le> active positions (pos_whirlpool p) t"
  using total_ge [where m = positions, OF assms, of "gross_share (pos_whirlpool p) (pos_tick_lower_index p)"]
    total_ge [where m = positions, OF assms, of "gross_share (pos_whirlpool p) (pos_tick_upper_index p)"]
    total_ge [where m = positions, OF assms, of "active_share (pos_whirlpool p) t"]
  by (simp_all add: share_defs total_defs)

lemma u128_exists: "0 \<le> x \<Longrightarrow> x < 2 ^ 128 \<Longrightarrow> \<exists>v :: u128. uint v = x"
  by (rule exI [of _ "word_of_int x"]) (simp add: uint_word_of_int)

lemma tick_withdrawal_defined:
  assumes t: "tick_accounted net gross t" and a: "0 < a" "a \<le> gross" "gross < 2 ^ 127"
    and net: "\<bar>net + (if upper then a else - a)\<bar> \<le> gross - a"
  shows "\<exists>u. next_tick_modify_liquidity_update t i cur ga gb infos (- a) upper = Inr u"
proof -
  have "in_i128 (- a)" using a by (simp add: in_i128_def)
  moreover obtain v :: u128 where "uint v = gross - a" using u128_exists [of "gross - a"] a by auto
  ultimately have g: "add_liquidity_delta (tk_liquidity_gross t) (- a) = Inr v"
    using t by (simp add: add_liquidity_delta_Inr_iff tick_accounted_def)
  have "in_i128 (net + (if upper then a else - a))" using net a by (auto simp: in_i128_def)
  then have n: "i128_checked (net + (if upper then a else - a)) = Some (net + (if upper then a else - a))"
    by (simp add: i128_checked_def)
  have nt: "tk_liquidity_net t = net" using t by (simp add: tick_accounted_def)
  show ?thesis using a(1) n
    by (cases upper) (simp_all add: next_tick_modify_liquidity_update_def g nt Let_def case_prod_beta ok_or_def)
qed

lemma position_update_defined:
  assumes d: "in_i128 d" and l: "0 \<le> uint (pos_liquidity p) + d" "uint (pos_liquidity p) + d < 2 ^ 128"
  shows "\<exists>u. next_position_modify_liquidity_update p d ia ib rs = Inr u"
proof -
  obtain v :: u128 where v: "uint v = uint (pos_liquidity p) + d" using u128_exists [OF l] by blast
  show ?thesis
    unfolding next_position_update_Inr_iff [OF d]
    by (rule exI [of _ "\<lparr>pu_liquidity = v, pu_fee_growth_checkpoint_a = ia,
        pu_fee_owed_a = pos_fee_owed_a p + of_nat (earned (pos_liquidity p) (ia - pos_fee_growth_checkpoint_a p)),
        pu_fee_growth_checkpoint_b = ib,
        pu_fee_owed_b = pos_fee_owed_b p + of_nat (earned (pos_liquidity p) (ib - pos_fee_growth_checkpoint_b p)),
        pu_reward_infos = arr3_map (settled_reward (pos_liquidity p)) (arr3_map2 Pair rs (pos_reward_infos p))\<rparr>"])
      (simp add: v)
qed

lemma modify_of_ticks_defined:
  assumes "d \<noteq> 0" "next_whirlpool_reward_infos w ts = Inr infos"
    "next_whirlpool_liquidity w (pos_tick_upper_index p) (pos_tick_lower_index p) d = Inr x"
    "next_tick_modify_liquidity_update a l (wp_tick_current_index w) (wp_fee_growth_global_a w)
       (wp_fee_growth_global_b w) infos d False = Inr ul"
    "next_tick_modify_liquidity_update b u (wp_tick_current_index w) (wp_fee_growth_global_a w)
       (wp_fee_growth_global_b w) infos d True = Inr uu"
    and pu: "\<And>ia ib rs. \<exists>pu. next_position_modify_liquidity_update p d ia ib rs = Inr pu"
  shows "\<exists>m. calculate_modify_liquidity_of_ticks w p a b l u d ts = Inr m"
proof -
  let ?inside = "next_fee_growths_inside (wp_tick_current_index w) a l b u (wp_fee_growth_global_a w) (wp_fee_growth_global_b w)"
  obtain pu where "next_position_modify_liquidity_update p d (fst ?inside) (snd ?inside)
      (next_reward_growths_inside (wp_tick_current_index w) a l b u infos) = Inr pu"
    using pu by blast
  then show ?thesis using assms(1-5)
    by (simp add: calculate_modify_liquidity_of_ticks_def case_prod_beta Let_def)
qed

lemma tick_written_defined:
  assumes "arrays a = Some ta" "tick_array_ok s ta" "holds_tick s ta x"
  shows "\<exists>ta'. update_array_tick arrays a x s u = Inr (arrays(a \<mapsto> ta')) \<and> tick_array_ok s ta'
    \<and> ta_start_tick_index ta' = ta_start_tick_index ta"
proof -
  obtain ta' where u: "update_tick ta x s u = Inr ta'" using assms(3) by (simp add: update_tick_eq [OF assms(2)])
  then have "update_array_tick arrays a x s u = Inr (arrays(a \<mapsto> ta'))"
    using assms(1) by (simp add: update_array_tick_def load_tick_array_def)
  then show ?thesis using update_tick_ok(1,2) [OF assms(2) u] by blast
qed

lemma held_array:
  assumes held: "tick_held (lg_arrays lg) k (wp_tick_spacing w) x" and ok: "ledger_ok lg" and acc: "accounted rt lg"
    and w: "lg_pools lg k = Some w"
  obtains a ta where "lg_arrays lg a = Some ta" "ta_whirlpool ta = k" "tick_array_ok (wp_tick_spacing w) ta"
    "holds_tick (wp_tick_spacing w) ta x"
    "read_array_tick (wp_tick_spacing w) (lg_arrays lg) (a, x) = Inr (ta_ticks ta ! slot (wp_tick_spacing w) ta x)"
    "tick_accounted (net_total (lg_positions lg) k x) (gross_total (lg_positions lg) k x)
       (ta_ticks ta ! slot (wp_tick_spacing w) ta x)"
proof -
  obtain a ta where a: "lg_arrays lg a = Some ta" "ta_whirlpool ta = k" "holds_tick (wp_tick_spacing w) ta x"
    using held by (auto simp: tick_held_def)
  have "tied (lg_pools lg) k (\<lambda>s. tick_array_ok s ta)"
    "tied (lg_pools lg) k (\<lambda>s. array_accounted (net_total (lg_positions lg) k) (gross_total (lg_positions lg) k) s ta)"
    using acc ok a by (auto simp: accounted_def arrays_accounted_def ledger_ok_def tick_arrays_ok_def)
  then have t: "tick_array_ok (wp_tick_spacing w) ta"
    "array_accounted (net_total (lg_positions lg) k) (gross_total (lg_positions lg) k) (wp_tick_spacing w) ta"
    by (simp_all add: tied_Some [where pools = "lg_pools lg", OF w])
  show thesis
    by (rule that [OF a(1,2) t(1) a(3)])
      (use a t in \<open>simp_all add: read_array_tick_def load_tick_array_def get_tick_eq array_accounted_def\<close>)
qed

lemma withdrawal_defined:
  assumes acc: "accounted rt lg" and ok: "ledger_ok lg" and w: "lg_pools lg k = Some w"
    and p: "lg_positions lg q = Some p" "pos_whirlpool p = k" and a: "0 < a" "a \<le> uint (pos_liquidity p)"
    and small: "gross_total (lg_positions lg) k (pos_tick_lower_index p) < 2 ^ 127"
      "gross_total (lg_positions lg) k (pos_tick_upper_index p) < 2 ^ 127"
    and ts: "wp_reward_last_updated_timestamp w \<le> ts"
  shows "\<exists>al au tal tau m r. lg_arrays lg al = Some tal \<and> ta_whirlpool tal = k
    \<and> lg_arrays lg au = Some tau \<and> ta_whirlpool tau = k
    \<and> calculate_modify_liquidity w p (lg_arrays lg) al au (- a) ts = Inr m
    \<and> sync_modify_liquidity_values w p (lg_arrays lg) al au m ts = Inr r"
proof -
  let ?s = "wp_tick_spacing w" and ?ps = "lg_positions lg" and ?l = "pos_tick_lower_index p" and ?u = "pos_tick_upper_index p"
  have "tied (lg_pools lg) k (\<lambda>s. position_ok s p)" using ok p by (auto simp: ledger_ok_def positions_ok_def)
  then have lt: "?l < ?u" using w by (simp add: tied_Some position_ok_def)
  have "pos_liquidity p \<noteq> 0" using a by (auto simp: uint_0_iff)
  then have "tied (lg_pools lg) k (\<lambda>s. tick_held (lg_arrays lg) k s ?l \<and> tick_held (lg_arrays lg) k s ?u)"
    using acc p unfolding accounted_def ends_held_def by blast
  then have held: "tick_held (lg_arrays lg) k ?s ?l" "tick_held (lg_arrays lg) k ?s ?u"
    by (simp_all add: tied_Some [where pools = "lg_pools lg", OF w])
  obtain al tal where l: "lg_arrays lg al = Some tal" "ta_whirlpool tal = k" "tick_array_ok ?s tal" "holds_tick ?s tal ?l"
    "read_array_tick ?s (lg_arrays lg) (al, ?l) = Inr (ta_ticks tal ! slot ?s tal ?l)"
    "tick_accounted (net_total ?ps k ?l) (gross_total ?ps k ?l) (ta_ticks tal ! slot ?s tal ?l)"
    by (rule held_array [OF held(1) ok acc w])
  obtain au tau where u: "lg_arrays lg au = Some tau" "ta_whirlpool tau = k" "tick_array_ok ?s tau" "holds_tick ?s tau ?u"
    "read_array_tick ?s (lg_arrays lg) (au, ?u) = Inr (ta_ticks tau ! slot ?s tau ?u)"
    "tick_accounted (net_total ?ps k ?u) (gross_total ?ps k ?u) (ta_ticks tau ! slot ?s tau ?u)"
    by (rule held_array [OF held(2) ok acc w])
  note cov = share_covered [where positions = ?ps, OF p(1), unfolded p(2)]
  have a127: "in_i128 (- a)" using a cov(1) small(1) by (simp add: in_i128_def)
  obtain v :: u128 where v: "uint v = uint (pos_liquidity p) - a"
    using u128_exists [of "uint (pos_liquidity p) - a"] a uint_lt2p [of "pos_liquidity p"] by auto
  define p' where "p' = p\<lparr>pos_liquidity := v\<rparr>"
  have pl: "uint (pos_liquidity p') = uint (pos_liquidity p) + - a" by (simp add: p'_def v)
  note share = share_liquidity [OF _ pl lt]
  have kept: "position_kept p p'" by (simp add: p'_def position_kept_def)
  have "\<bar>net_total ?ps k ?l - a\<bar> \<le> gross_total ?ps k ?l - a" "\<bar>net_total ?ps k ?u + a\<bar> \<le> gross_total ?ps k ?u - a"
    using net_le_gross [of "?ps(q \<mapsto> p')" k ?l] net_le_gross [of "?ps(q \<mapsto> p')" k ?u] p lt
    by (simp_all add: total_defs total_upd share [OF kept])
  then obtain ul uu where
    ul: "next_tick_modify_liquidity_update (ta_ticks tal ! slot ?s tal ?l) ?l (wp_tick_current_index w)
      (wp_fee_growth_global_a w) (wp_fee_growth_global_b w) infos (- a) False = Inr (ul infos)" and
    uu: "next_tick_modify_liquidity_update (ta_ticks tau ! slot ?s tau ?u) ?u (wp_tick_current_index w)
      (wp_fee_growth_global_a w) (wp_fee_growth_global_b w) infos (- a) True = Inr (uu infos)" for infos
    using tick_withdrawal_defined [OF l(6) a(1) order_trans [OF a(2) cov(1)] small(1), of False]
      tick_withdrawal_defined [OF u(6) a(1) order_trans [OF a(2) cov(2)] small(2), of True] by simp metis
  obtain infos where infos: "next_whirlpool_reward_infos w ts = Inr infos"
    using ts by (cases "wp_liquidity w = 0") (auto simp: next_whirlpool_reward_infos_eq not_less [symmetric])
  have "uint (wp_liquidity w) = active ?ps k (wp_tick_current_index w)"
    using acc w by (simp add: accounted_def pools_accounted_def)
  then have "0 \<le> uint (wp_liquidity w) + (if ?l \<le> wp_tick_current_index w \<and> wp_tick_current_index w < ?u then - a else 0)"
    using a(2) cov(3) [of "wp_tick_current_index w"] uint_ge_0 [of "wp_liquidity w"] by (auto simp del: uint_ge_0)
  moreover have "uint (wp_liquidity w) + (if ?l \<le> wp_tick_current_index w \<and> wp_tick_current_index w < ?u then - a else 0) < 2 ^ 128"
    using a(1) uint_lt2p [of "wp_liquidity w"] by simp
  ultimately obtain x :: u128 where "uint x = uint (wp_liquidity w)
      + (if ?l \<le> wp_tick_current_index w \<and> wp_tick_current_index w < ?u then - a else 0)"
    using u128_exists by blast
  then have x: "next_whirlpool_liquidity w ?u ?l (- a) = Inr x" by (simp add: next_whirlpool_liquidity_Inr_iff [OF a127])
  have pu: "\<exists>pu. next_position_modify_liquidity_update p (- a) ia ib rs = Inr pu" for ia ib rs
    by (rule position_update_defined [OF a127]) (use a uint_lt2p [of "pos_liquidity p"] in simp_all)
  have "load_position_ticks w p (lg_arrays lg) al au = Inr (ta_ticks tal ! slot ?s tal ?l, ta_ticks tau ! slot ?s tau ?u)"
    using l(5) u(5) by (simp add: load_position_ticks_Inr_iff)
  moreover obtain m where "calculate_modify_liquidity_of_ticks w p (ta_ticks tal ! slot ?s tal ?l)
      (ta_ticks tau ! slot ?s tau ?u) ?l ?u (- a) ts = Inr m"
    using modify_of_ticks_defined [OF _ infos x ul uu pu] a(1) by auto
  ultimately have m: "calculate_modify_liquidity w p (lg_arrays lg) al au (- a) ts = Inr m"
    by (simp add: calculate_modify_liquidity_def)
  obtain tal' where w1: "update_array_tick (lg_arrays lg) al ?l ?s (ml_tick_lower_update m) = Inr ((lg_arrays lg)(al \<mapsto> tal'))"
    and tal': "tick_array_ok ?s tal'" "ta_start_tick_index tal' = ta_start_tick_index tal"
    using tick_written_defined [where arrays = "lg_arrays lg", OF l(1,3,4)] by blast
  obtain t where "((lg_arrays lg)(al \<mapsto> tal')) au = Some t" "tick_array_ok ?s t" "holds_tick ?s t ?u"
    using u(1,3,4) l(1) tal' by (cases "au = al") (simp_all add: holds_tick_def)
  then obtain arrays where "update_array_tick ((lg_arrays lg)(al \<mapsto> tal')) au ?u ?s (ml_tick_upper_update m) = Inr arrays"
    using tick_written_defined [where arrays = "(lg_arrays lg)(al \<mapsto> tal')"] by metis
  then have "\<exists>r. sync_modify_liquidity_values w p (lg_arrays lg) al au m ts = Inr r"
    using w1 by (simp add: sync_modify_liquidity_values_def Let_def position_update_def)
  then show ?thesis using l(1,2) u(1,2) m by blast
qed

end
