(* ===== verification/Liquidity_Properties.thy ===== *)
theory Liquidity_Properties
  imports Liquidity_Withdrawal Sample_Ledger
begin

text \<open>
  The books of the liquidity on every run of the program, and a run of seven steps on which a
  position is opened, filled and accounted for.
\<close>

section \<open>A deposit\<close>

definition funded :: "sample_tokens ledger" where
  "funded = sample_run_position\<lparr>lg_tokens := (lg_tokens sample_run_position)\<lparr>st_accounts :=
     [Pubkey 2 \<mapsto> sample_account (Pubkey 1) (Pubkey 9) 0, Pubkey 4 \<mapsto> sample_account (Pubkey 3) (Pubkey 9) 0,
      Pubkey 80 \<mapsto> sample_account (Pubkey 1) (Pubkey 85) 10000, Pubkey 81 \<mapsto> sample_account (Pubkey 3) (Pubkey 85) 10000,
      Pubkey 82 \<mapsto> sample_account (Pubkey 51) (Pubkey 85) 1]\<rparr>\<rparr>"

definition deposit_accounts :: ModifyLiquidity where
  "deposit_accounts = \<lparr>mod_whirlpool = Pubkey 9, mod_position_authority = Pubkey 85, mod_position = Pubkey 50,
     mod_position_token_account = Pubkey 82, mod_token_owner_account_a = Pubkey 80,
     mod_token_owner_account_b = Pubkey 81, mod_token_vault_a = Pubkey 2, mod_token_vault_b = Pubkey 4,
     mod_tick_array_lower = Pubkey 70, mod_tick_array_upper = Pubkey 70\<rparr>"

definition deposit_update :: ModifyLiquidityUpdate where
  "deposit_update = \<lparr>ml_whirlpool_liquidity = 1000000,
     ml_tick_lower_update = default_tick_update\<lparr>tu_initialized := True, tu_liquidity_net := 1000000, tu_liquidity_gross := 1000000\<rparr>,
     ml_tick_upper_update = default_tick_update\<lparr>tu_initialized := True, tu_liquidity_net := - 1000000, tu_liquidity_gross := 1000000\<rparr>,
     ml_reward_infos = wp_reward_infos new_pool,
     ml_position_update = default_position_update\<lparr>pu_liquidity := 1000000\<rparr>\<rparr>"

definition deposit_array :: TickArray where
  "deposit_array = (empty_array 0)\<lparr>ta_ticks := (ta_ticks (empty_array 0))
     [0 := tick_update default_tick (ml_tick_lower_update deposit_update),
      2 := tick_update default_tick (ml_tick_upper_update deposit_update)]\<rparr>"

definition deposited :: "sample_tokens ledger" where
  "deposited = funded\<lparr>lg_pools := [Pubkey 9 \<mapsto> new_pool\<lparr>wp_liquidity := 1000000\<rparr>],
     lg_positions := [Pubkey 50 \<mapsto> opened_position\<lparr>pos_liquidity := 1000000\<rparr>],
     lg_arrays := [Pubkey 70 \<mapsto> deposit_array],
     lg_tokens := (lg_tokens funded)\<lparr>st_accounts :=
     [Pubkey 2 \<mapsto> sample_account (Pubkey 1) (Pubkey 9) 6380, Pubkey 4 \<mapsto> sample_account (Pubkey 3) (Pubkey 9) 0,
      Pubkey 80 \<mapsto> sample_account (Pubkey 1) (Pubkey 85) 3620, Pubkey 81 \<mapsto> sample_account (Pubkey 3) (Pubkey 85) 10000,
      Pubkey 82 \<mapsto> sample_account (Pubkey 51) (Pubkey 85) 1]\<rparr>\<rparr>"

lemma funded_fields:
  "lg_pools funded = [Pubkey 9 \<mapsto> new_pool]" "lg_positions funded = [Pubkey 50 \<mapsto> opened_position]"
  "lg_arrays funded = [Pubkey 70 \<mapsto> empty_array 0]"
  by (simp_all add: funded_def sample_run_position_def sample_run_array_def sample_run_def)

lemma deposit_computed:
  "calculate_modify_liquidity new_pool opened_position [Pubkey 70 \<mapsto> empty_array 0] (Pubkey 70) (Pubkey 70) 1000000 0
     = Inr deposit_update"
  by code_simp

lemma deposit_accepted:
  "modify_liquidity_accounts sample_runtime sample_tx deposit_accounts funded
     = Inr (new_pool, opened_position, sample_account (Pubkey 51) (Pubkey 85) 1)"
  by (simp add: modify_liquidity_accounts_def deposit_accounts_def account_def signer_def has_one_def
    raw_constraint_def funded_fields)
    (simp add: sample_runtime_def funded_def sample_account_def opened_position_def new_pool_def default_whirlpool_def empty_array_def)

lemma deposit_array_ok: "tick_array_ok 64 (empty_array 0)"
  using sample_sequence_ok by (simp add: sequence_ok_def)

lemma deposit_written:
  "update_array_tick [Pubkey 70 \<mapsto> empty_array 0] (Pubkey 70) 0 64 u
     = Inr [Pubkey 70 \<mapsto> (empty_array 0)\<lparr>ta_ticks := (ta_ticks (empty_array 0))[0 := tick_update default_tick u]\<rparr>]"
  using update_tick_eq [OF deposit_array_ok, of 0 u]
  by (simp add: update_array_tick_def load_tick_array_def holds_tick_def slot_def empty_array_def ticks_in_array_def
    TICK_ARRAY_SIZE_def tick_in_range_def MIN_TICK_INDEX_def MAX_TICK_INDEX_def)

lemma deposit_written_again:
  "update_array_tick [Pubkey 70 \<mapsto> (empty_array 0)\<lparr>ta_ticks := (ta_ticks (empty_array 0))[0 := t]\<rparr>] (Pubkey 70) 128 64 u
     = Inr [Pubkey 70 \<mapsto> (empty_array 0)\<lparr>ta_ticks := (ta_ticks (empty_array 0))[0 := t, 2 := tick_update default_tick u]\<rparr>]"
proof -
  let ?ta = "(empty_array 0)\<lparr>ta_ticks := (ta_ticks (empty_array 0))[0 := t]\<rparr>"
  have "tick_array_ok 64 ?ta"
    by (simp add: tick_array_ok_def empty_array_def default_tick_array_def ticks_in_array_def TICK_ARRAY_SIZE_def TICK_ARRAY_SIZE_USIZE_def
      default_tick_def tick_in_range_def nth_list_update MIN_TICK_INDEX_def MAX_TICK_INDEX_def)
  from update_tick_eq [OF this, of 128 u] show ?thesis
    by (simp add: update_array_tick_def load_tick_array_def holds_tick_def slot_def empty_array_def ticks_in_array_def
      TICK_ARRAY_SIZE_def tick_in_range_def MIN_TICK_INDEX_def MAX_TICK_INDEX_def)
qed

lemma deposit_stored:
  "sync_modify_liquidity_values new_pool opened_position [Pubkey 70 \<mapsto> empty_array 0] (Pubkey 70) (Pubkey 70) deposit_update 0
     = Inr (new_pool\<lparr>wp_liquidity := 1000000\<rparr>, opened_position\<lparr>pos_liquidity := 1000000\<rparr>, [Pubkey 70 \<mapsto> deposit_array])"
proof -
  have p: "position_update opened_position (ml_position_update deposit_update) = opened_position\<lparr>pos_liquidity := 1000000\<rparr>"
    by (simp add: position_update_def deposit_update_def default_position_update_def opened_position_def default_position_def)
  have w: "update_rewards_and_liquidity new_pool (ml_reward_infos deposit_update) (ml_whirlpool_liquidity deposit_update) 0
      = new_pool\<lparr>wp_liquidity := 1000000\<rparr>"
    by (simp add: update_rewards_and_liquidity_def update_rewards_def deposit_update_def new_pool_def default_whirlpool_def)
  have t: "pos_tick_lower_index (opened_position\<lparr>pos_liquidity := 1000000\<rparr>) = 0"
    "pos_tick_upper_index (opened_position\<lparr>pos_liquidity := 1000000\<rparr>) = 128"
    by (simp_all add: opened_position_def)
  show ?thesis
    by (simp add: sync_modify_liquidity_values_def p w t deposit_written deposit_written_again deposit_array_def)
qed

lemma price_128: "sqrt_price_from_tick_index 128 = Inr 18565175891880433522"
  by (rule price_eq) (simp_all add: tick_in_range_def MIN_TICK_INDEX_def MAX_TICK_INDEX_def price_val_def
    positive_ratio_def positive_factors_def positive_tick_table_def)

lemma price_0: "sqrt_price_from_tick_index 0 = Inr 18446744073709551616"
  by (rule price_eq) (simp_all add: tick_in_range_def MIN_TICK_INDEX_def MAX_TICK_INDEX_def)

lemma deposit_paid:
  "calculate_liquidity_token_deltas 0 18446744073709551616 (opened_position\<lparr>pos_liquidity := 1000000\<rparr>) 1000000 = Inr (6380, 0)"
proof -
  have "get_amount_delta_a 18446744073709551616 18565175891880433522 1000000 True = Inr 6380"
    by (rule get_amount_delta_a_eq) (simp_all add: amount_a_def round_div_def ceil_div_def)
  moreover have "get_amount_delta_b 18446744073709551616 18446744073709551616 1000000 True = Inr 0"
    by (simp add: get_amount_delta_b_Inr_iff amount_b_def round_div_def ceil_div_def)
  ultimately show ?thesis
    by (simp add: calculate_liquidity_token_deltas_def opened_position_def price_0 price_128
      to_i128_id in_i128_def)
qed

lemma deposit_applied:
  "apply_liquidity_change sample_tx deposit_accounts True 1000000
     (new_pool, opened_position, sample_account (Pubkey 51) (Pubkey 85) 1) funded
   = Inr (deposited\<lparr>lg_tokens := lg_tokens funded\<rparr>, new_pool\<lparr>wp_liquidity := 1000000\<rparr>, 6380, 0)"
proof -
  have d: "convert_to_liquidity_delta 1000000 True = Inr 1000000"
    by (simp add: convert_to_liquidity_delta_def)
  have t: "to_timestamp_u64 0 = Inr 0" by (simp add: to_timestamp_u64_def)
  have v: "verify_position_authority sample_tx (sample_account (Pubkey 51) (Pubkey 85) 1) (Pubkey 85) = Inr ()"
    by (simp add: verify_position_authority_def validate_owner_def sample_account_def)
  have k: "mod_tick_array_lower deposit_accounts = Pubkey 70" "mod_tick_array_upper deposit_accounts = Pubkey 70"
    "mod_position_authority deposit_accounts = Pubkey 85" "mod_whirlpool deposit_accounts = Pubkey 9"
    "mod_position deposit_accounts = Pubkey 50"
    by (simp_all add: deposit_accounts_def)
  show ?thesis
    by (simp add: apply_liquidity_change_def k v d t require_enabled_def funded_fields deposit_computed deposit_stored
      deposit_paid) (simp add: deposited_def funded_def)
qed

lemma deposit_processed:
  "process sample_runtime nft sample_tx (Increase_liquidity deposit_accounts 1000000 10000 10000) funded
     = Some (Inr deposited)"
  by (simp add: increase_liquidity_def deposit_accepted deposit_applied transfer_from_owner_to_vault_def)
    (simp add: deposit_accounts_def sample_runtime_def sample_transfer_def deposited_def funded_def sample_account_def fun_upd_twist)

section \<open>The books\<close>

text \<open>
  C3: On every run the books of the liquidity balance: the liquidity of a pool is the sum over
  its positions whose range holds its current tick, and every tick of its tick arrays holds as
  net liquidity what starts there less what ends there and as gross liquidity the sum of both,
  whatever deposits, withdrawals, swaps and routes made up the run. The runs are those on which
  no net liquidity is -2^127, whose negation wraps round, which are all runs beside an honest
  token program (secure_runs_are_tame).
\<close>

theorem liquidity_accounted_for:
  assumes "tame rt nft lg" "lg_pools lg k = Some w"
  shows "uint (wp_liquidity w) = active (lg_positions lg) k (wp_tick_current_index w)
    \<and> (\<forall>a ta t. lg_arrays lg a = Some ta \<longrightarrow> ta_whirlpool ta = k \<longrightarrow> holds_tick (wp_tick_spacing w) ta t \<longrightarrow>
         get_tick ta t (wp_tick_spacing w) = Inr (ta_ticks ta ! slot (wp_tick_spacing w) ta t)
         \<and> tick_accounted (net_total (lg_positions lg) k t) (gross_total (lg_positions lg) k t)
             (ta_ticks ta ! slot (wp_tick_spacing w) ta t))"
proof -
  have acc: "accounted rt lg" and ok: "ledger_ok lg"
    using assms(1) by (auto intro: tame_accounted reachable_ledger_ok tame_reachable)
  have "tick_array_ok (wp_tick_spacing w) ta
      \<and> array_accounted (net_total (lg_positions lg) k) (gross_total (lg_positions lg) k) (wp_tick_spacing w) ta"
    if "lg_arrays lg a = Some ta" "ta_whirlpool ta = k" for a ta
  proof -
    have "tied (lg_pools lg) k (\<lambda>s. tick_array_ok s ta)"
      "tied (lg_pools lg) k (\<lambda>s. array_accounted (net_total (lg_positions lg) k) (gross_total (lg_positions lg) k) s ta)"
      using acc ok that by (auto simp: accounted_def arrays_accounted_def ledger_ok_def tick_arrays_ok_def)
    then show ?thesis by (simp add: tied_Some [where pools = "lg_pools lg", OF assms(2)])
  qed
  then show ?thesis
    using acc assms(2) by (auto simp: accounted_def pools_accounted_def array_accounted_def get_tick_eq)
qed

lemma deposit_tame: "tame sample_runtime nft deposited"
proof -
  have none: "nets_negatable (lg_positions lg)"
    if "\<And>q p. lg_positions lg q = Some p \<Longrightarrow> pos_liquidity p = 0" for lg :: "sample_tokens ledger"
    using total_0 [of "lg_positions lg" "net_share _ _"] share_empty(2) that
    by (simp add: nets_negatable_def net_total_def)
  have start: "tame sample_runtime nft sample_start" by (rule tame.start) (simp_all add: sample_start_def)
  have run: "tame sample_runtime nft sample_run"
    by (rule tame.later [OF tame.later [OF tame.later [OF start _ step.transaction [OF sample_config_created]]
      _ step.transaction [OF sample_fee_tier_created]] _ step.transaction [OF sample_pool_created]])
      (rule none, simp add: sample_start_def)+
  have opened: "tame sample_runtime nft sample_run_position"
    by (rule tame.later [OF tame.later [OF run _ step.transaction [OF sample_array_created]]
      _ step.transaction [OF sample_position_opened]])
      (rule none, simp add: sample_run_array_def sample_run_def sample_start_def)+
  have empty: "pos_liquidity p = 0" if "lg_positions sample_run_position q = Some p" for q p
    using that by (auto simp: sample_run_position_def opened_position_def default_position_def split: if_splits)
  have "tame sample_runtime nft funded"
    unfolding funded_def by (rule tame.later [OF opened none [OF empty] step.outside])
  then show ?thesis
    by (rule tame.later [OF _ none step.transaction [OF deposit_processed]])
      (use empty in \<open>simp add: funded_def\<close>)
qed

theorem liquidity_accounted_for_witness:
  "active (lg_positions deposited) (Pubkey 9) 0 = 1000000 \<and> net_total (lg_positions deposited) (Pubkey 9) 128 = - 1000000"
proof -
  have w: "lg_pools deposited (Pubkey 9) = Some (new_pool\<lparr>wp_liquidity := 1000000\<rparr>)"
    and a: "lg_arrays deposited (Pubkey 70) = Some deposit_array" by (simp_all add: deposited_def)
  have d: "ta_whirlpool deposit_array = Pubkey 9" "holds_tick 64 deposit_array 128"
    "tk_liquidity_net (ta_ticks deposit_array ! slot 64 deposit_array 128) = - 1000000"
    by (simp_all add: deposit_array_def empty_array_def holds_tick_def slot_def ticks_in_array_def TICK_ARRAY_SIZE_def
      tick_in_range_def MIN_TICK_INDEX_def MAX_TICK_INDEX_def tick_update_def deposit_update_def default_tick_array_def
      TICK_ARRAY_SIZE_USIZE_def)
  show ?thesis
    using liquidity_accounted_for [OF deposit_tame w] a d by (fastforce simp: tick_accounted_def)
qed

text \<open>
  C8: What is in a position can be taken out: on every such run, for every amount up to the
  liquidity of a position, there are tick arrays in the ledger with which the calculation of the
  withdrawal succeeds and its result can be stored, if the clock has not run backwards and less
  than 2^127 of liquidity ends at its two ticks.
\<close>

theorem withdrawal_possible:
  assumes "tame rt nft lg" "lg_pools lg k = Some w" "lg_positions lg q = Some p" "pos_whirlpool p = k"
    and "0 < a" "a \<le> uint (pos_liquidity p)" "wp_reward_last_updated_timestamp w \<le> ts"
    and "gross_total (lg_positions lg) k (pos_tick_lower_index p) < 2 ^ 127"
    and "gross_total (lg_positions lg) k (pos_tick_upper_index p) < 2 ^ 127"
  shows "\<exists>al au tal tau m r. lg_arrays lg al = Some tal \<and> ta_whirlpool tal = k
    \<and> lg_arrays lg au = Some tau \<and> ta_whirlpool tau = k
    \<and> calculate_modify_liquidity w p (lg_arrays lg) al au (- a) ts = Inr m
    \<and> sync_modify_liquidity_values w p (lg_arrays lg) al au m ts = Inr r"
  using withdrawal_defined [OF tame_accounted [OF assms(1)] reachable_ledger_ok [OF tame_reachable [OF assms(1)]]
    assms(2-6,8,9,7)] .

theorem withdrawal_possible_witness:
  "\<exists>al au m r. calculate_modify_liquidity (new_pool\<lparr>wp_liquidity := 1000000\<rparr>) (opened_position\<lparr>pos_liquidity := 1000000\<rparr>)
       (lg_arrays deposited) al au (- 400000) 5 = Inr m
    \<and> sync_modify_liquidity_values (new_pool\<lparr>wp_liquidity := 1000000\<rparr>) (opened_position\<lparr>pos_liquidity := 1000000\<rparr>)
       (lg_arrays deposited) al au m 5 = Inr r"
proof -
  have d: "lg_pools deposited (Pubkey 9) = Some (new_pool\<lparr>wp_liquidity := 1000000\<rparr>)"
    "lg_positions deposited (Pubkey 50) = Some (opened_position\<lparr>pos_liquidity := 1000000\<rparr>)"
    "lg_positions deposited = Map.empty(Pubkey 50 \<mapsto> opened_position\<lparr>pos_liquidity := 1000000\<rparr>)"
    by (simp_all add: deposited_def)
  have g: "gross_total (lg_positions deposited) (Pubkey 9) t < 2 ^ 127" for t
    unfolding gross_total_def d(3) total_upd using total_0 [of Map.empty "gross_share (Pubkey 9) t"]
    by (simp add: gross_share_def)
  have f: "pos_whirlpool (opened_position\<lparr>pos_liquidity := 1000000\<rparr>) = Pubkey 9" "(0 :: int) < 400000"
    "400000 \<le> uint (pos_liquidity (opened_position\<lparr>pos_liquidity := 1000000\<rparr>))"
    "wp_reward_last_updated_timestamp (new_pool\<lparr>wp_liquidity := 1000000\<rparr>) \<le> 5"
    by (simp_all add: opened_position_def new_pool_def default_whirlpool_def)
  show ?thesis using withdrawal_possible [OF deposit_tame d(1,2) f g g] by blast
qed

end
