(* ===== verification/Payout_Properties.thy ===== *)
theory Payout_Properties
  imports Liquidity_Payout Liquidity_Properties
begin

text \<open>
  What a swap leaves to the positions of its pool, on every run of the program, and a trade against
  the position of the sample run.
\<close>

section \<open>A trade against one position\<close>

abbreviation filled_pool :: Whirlpool where
  "filled_pool \<equiv> new_pool\<lparr>wp_liquidity := 1000000\<rparr>"

definition trade_accounts :: SwapAccounts where
  "trade_accounts = \<lparr>sa_token_authority = Pubkey 85, sa_whirlpool = Pubkey 9,
     sa_token_owner_account_a = Pubkey 80, sa_token_vault_a = Pubkey 2,
     sa_token_owner_account_b = Pubkey 81, sa_token_vault_b = Pubkey 4,
     sa_tick_array_0 = Pubkey 70, sa_tick_array_1 = Pubkey 70, sa_tick_array_2 = Pubkey 70,
     sa_oracle = Pubkey 60\<rparr>"

definition trade_update :: PostSwapUpdate where
  "trade_update = \<lparr>ps_amount_a = 996, ps_amount_b = 1000, ps_next_liquidity = 1000000,
     ps_next_tick_index = 19, ps_next_sqrt_price = 18465135477551040038,
     ps_next_fee_growth_global = 55340232221128, ps_next_reward_infos = wp_reward_infos new_pool,
     ps_next_protocol_fee = 0\<rparr>"

definition traded_pool :: Whirlpool where
  "traded_pool = update_after_swap filled_pool 1000000 19 18465135477551040038 55340232221128
     (wp_reward_infos new_pool) 0 False 0"

definition traded :: "sample_tokens ledger" where
  "traded = deposited\<lparr>lg_pools := [Pubkey 9 \<mapsto> traded_pool],
     lg_tokens := (lg_tokens deposited)\<lparr>st_accounts :=
     [Pubkey 2 \<mapsto> sample_account (Pubkey 1) (Pubkey 9) 5384, Pubkey 4 \<mapsto> sample_account (Pubkey 3) (Pubkey 9) 1000,
      Pubkey 80 \<mapsto> sample_account (Pubkey 1) (Pubkey 85) 4616, Pubkey 81 \<mapsto> sample_account (Pubkey 3) (Pubkey 85) 9000,
      Pubkey 82 \<mapsto> sample_account (Pubkey 51) (Pubkey 85) 1]\<rparr>\<rparr>"

lemma trade_accepted:
  "swap_accounts sample_runtime sample_tx trade_accounts deposited = Inr filled_pool"
  by (simp add: swap_accounts_def trade_accounts_def signer_def account_def deposited_def
    sample_runtime_def raw_constraint_def address_def has_one_def pda_def sample_account_def deposit_array_def
    empty_array_def new_pool_def default_whirlpool_def)

lemma trade_transfers:
  "update_and_swap_whirlpool sample_runtime (Pubkey 9, filled_pool) (Pubkey 85) (Pubkey 80) (Pubkey 81)
     (Pubkey 2) (Pubkey 4) trade_update False 0 (lg_tokens deposited)
   = Inr (traded_pool, lg_tokens traded)"
  by (simp add: update_and_swap_whirlpool_def perform_swap_def transfer_from_owner_to_vault_def
    transfer_from_vault_to_owner_def signed_by_pool_def whirlpool_seeds_def sample_runtime_def
    sample_transfer_def deposited_def traded_def sample_account_def trade_update_def traded_pool_def
    new_pool_def fun_upd_twist)

lemma trade_search: "get_next_initialized_tick_index [deposit_array] 0 64 False 0 = Inr (0, 128)"
  by code_simp

lemma trade_amounts:
  "get_amount_delta_b 18446744073709551616 18565175891880433522 1000000 True = Inr 6421"
  "get_amount_delta_b 18446744073709551616 18465135477551040038 1000000 True = Inr 997"
  "get_amount_delta_a 18446744073709551616 18465135477551040038 1000000 False = Inr 996"
  "checked_mul_div 1000 997000 1000000 = Inr 997"
  "get_next_sqrt_price 18446744073709551616 1000000 997 True False = Inr 18465135477551040038"
  by code_simp+

lemma trade_compute: "compute_swap 1000 3000 1000000 18446744073709551616 18565175891880433522 True False
    = Inr \<lparr>amount_in = 997, amount_out = 996, next_price = 18465135477551040038, fee_amount = 3\<rparr>"
  by (simp add: compute_swap_def get_amount_fixed_delta_def get_amount_unfixed_delta_def trade_amounts
      FEE_RATE_MUL_VALUE_def try_into_u64_def)

lemma trade_fees: "calculate_fees 3 300 1000000 0 0 = Inr (0, 55340232221128)"
  by code_simp

lemma trade_index: "tick_index_from_sqrt_price 18465135477551040038 = Inr 19"
  by code_simp

lemma trade_checks:
  "swap_checks filled_pool 1000 79226673515401279992447579055 False 0 = Inr (wp_reward_infos new_pool)"
  by code_simp

lemma filled_pool_fields:
  "wp_tick_spacing filled_pool = 64" "wp_fee_rate filled_pool = 3000"
  "wp_protocol_fee_rate filled_pool = 300" "wp_liquidity filled_pool = 1000000"
  "wp_sqrt_price filled_pool = 18446744073709551616" "wp_tick_current_index filled_pool = 0"
  "wp_fee_growth_global_a filled_pool = 0" "wp_fee_growth_global_b filled_pool = 0"
  by (simp_all add: new_pool_def default_whirlpool_def)

lemma trade_swap:
  "swap filled_pool [deposit_array] 1000 79226673515401279992447579055 True False 0
     = Some (Inr (trade_update, [deposit_array]))"
  by (simp add: swap_def trade_checks swap_loop.simps swap_step_def swap_start_def get_next_sqrt_prices_def
      trade_search price_128 trade_compute trade_fees filled_pool_fields del: Whirlpool.simps)
    (simp add: trade_index swap_loop.simps step_amounts_def checked_sub_def checked_add_def swap_finish_def trade_update_def)

lemma trade_processed:
  "process sample_runtime nft sample_tx (Swap trade_accounts 1000 900 79226673515401279992447579055 True False) deposited
     = Some (Inr traded)"
proof -
  have e: "require_enabled filled_pool = Inr ()" by (simp add: require_enabled_def new_pool_def)
  have t: "to_timestamp_u64 0 = Inr 0" by (simp add: to_timestamp_u64_def)
  have k: "borrow_sequence [] (Pubkey 70) (Pubkey 70) (Pubkey 70) = Inr [Pubkey 70]"
    by (simp add: borrow_sequence_def borrow_optional_def)
  have a: "arrays_of (lg_arrays deposited) [Pubkey 70] = Inr [deposit_array]"
    by (simp add: arrays_of_def deposited_def)
  have c: "check_threshold True False 900 trade_update = Inr ()"
    by (simp add: check_threshold_def trade_update_def)
  have st: "store_arrays (lg_arrays deposited) [Pubkey 70] [deposit_array] = lg_arrays deposited"
    by (auto simp: store_arrays_def deposited_def)
  have p: "(lg_pools deposited)(Pubkey 9 \<mapsto> traded_pool) = [Pubkey 9 \<mapsto> traded_pool]"
    by (simp add: deposited_def)
  have l: "deposited\<lparr>lg_pools := [Pubkey 9 \<mapsto> traded_pool], lg_tokens := lg_tokens traded\<rparr> = traded"
    by (simp add: deposited_def traded_def)
  show ?thesis
    unfolding process.simps swap_instruction_def trade_accepted run_then_def
    by (simp add: e t k a c trade_swap trade_transfers st p l trade_accounts_def)
qed

lemma deposited_negatable: "nets_negatable (lg_positions deposited)"
  using total_0 [of Map.empty "net_share k t" for k t]
  by (simp add: nets_negatable_def net_total_def deposited_def total_upd net_share_def)

section \<open>The positions stay payable\<close>

text \<open>
  C5: A swap leaves the positions of its pool payable, whatever ticks it crosses: of each token,
  what closing all positions would pay out at the price it leaves is at most what opening them
  would have cost at the price it found, plus what the trader put in less the fee set aside for
  the protocol, less what the trader took out. The amounts, the price and the fee are those of
  the swap that the code computes on the pool with its tick arrays; the two amounts are what the
  instruction transfers into and out of the vaults of the pool, the price is that of the pool
  afterwards, and the fee is what the pool then owes the protocol more than before, in the token
  that was put in. So no rounding of any step goes against the positions. The costs are those
  that calculate_liquidity_token_deltas computes for the whole liquidity of each position,
  rounded up for opening and down for closing (claim_computed). The runs are those on which no
  net liquidity is -2^127, which are all runs beside an honest token program
  (secure_runs_are_tame).
\<close>

theorem swap_leaves_positions_payable:
  assumes "tame rt nft lg" "nets_negatable (lg_positions lg)"
    and "process rt nft tx (Swap sa amount other limit inp a_to_b) lg = Some (Inr lg')"
  shows "\<exists>w w' u keys arrays arrays' tokens. lg_pools lg (sa_whirlpool sa) = Some w
    \<and> lg_pools lg' (sa_whirlpool sa) = Some w' \<and> lg_positions lg' = lg_positions lg
    \<and> borrow_sequence [] (sa_tick_array_0 sa) (sa_tick_array_1 sa) (sa_tick_array_2 sa) = Inr keys
    \<and> arrays_of (lg_arrays lg) keys = Inr arrays
    \<and> swap w arrays amount limit inp a_to_b (clock tx) = Some (Inr (u, arrays'))
    \<and> wp_sqrt_price w' = ps_next_sqrt_price u \<and> wp_tick_current_index w' = ps_next_tick_index u
    \<and> protocol_owed a_to_b w' = protocol_owed a_to_b w + ps_next_protocol_fee u
    \<and> protocol_owed (\<not> a_to_b) w' = protocol_owed (\<not> a_to_b) w
    \<and> rt_transfer rt (lg_tokens lg)
         (if a_to_b then sa_token_owner_account_a sa else sa_token_owner_account_b sa)
         (if a_to_b then wp_token_vault_a w else wp_token_vault_b w)
         (sa_token_authority sa) (swap_input a_to_b u) = Inr tokens
    \<and> rt_transfer rt tokens
         (if a_to_b then wp_token_vault_b w else wp_token_vault_a w)
         (if a_to_b then sa_token_owner_account_b sa else sa_token_owner_account_a sa)
         (sa_whirlpool sa) (swap_output a_to_b u) = Inr (lg_tokens lg')
    \<and> claims False a_to_b (sa_whirlpool sa) w' (lg_positions lg) + uint (ps_next_protocol_fee u)
        \<le> claims True a_to_b (sa_whirlpool sa) w (lg_positions lg) + uint (swap_input a_to_b u)
    \<and> claims False (\<not> a_to_b) (sa_whirlpool sa) w' (lg_positions lg) + uint (swap_output a_to_b u)
        \<le> claims True (\<not> a_to_b) (sa_whirlpool sa) w (lg_positions lg)"
  using swap_instruction_claims [OF tame_accounted [OF assms(1)] reachable_ledger_ok [OF tame_reachable [OF assms(1)]]
    assms(2) assms(3) [unfolded process.simps]] .

theorem swap_leaves_positions_payable_witness:
  "claims False False (Pubkey 9) traded_pool (lg_positions deposited) + uint (ps_next_protocol_fee trade_update)
     \<le> claims True False (Pubkey 9) filled_pool (lg_positions deposited) + 1000
   \<and> claims False True (Pubkey 9) traded_pool (lg_positions deposited) + 996 \<le> claims True True (Pubkey 9) filled_pool (lg_positions deposited)
   \<and> protocol_owed False traded_pool = protocol_owed False filled_pool + ps_next_protocol_fee trade_update"
proof -
  have k: "lg_pools deposited (Pubkey 9) = Some filled_pool" "lg_pools traded (Pubkey 9) = Some traded_pool"
    "lg_arrays deposited (Pubkey 70) = Some deposit_array"
    by (simp_all add: deposited_def traded_def)
  obtain u arrays arrays' where a: "arrays_of (lg_arrays deposited) [Pubkey 70] = Inr arrays"
    and s: "swap filled_pool arrays 1000 79226673515401279992447579055 True False 0 = Some (Inr (u, arrays'))"
    and o: "protocol_owed False traded_pool = protocol_owed False filled_pool + ps_next_protocol_fee u"
    and c: "claims False False (Pubkey 9) traded_pool (lg_positions deposited) + uint (ps_next_protocol_fee u)
        \<le> claims True False (Pubkey 9) filled_pool (lg_positions deposited) + uint (swap_input False u)"
      "claims False True (Pubkey 9) traded_pool (lg_positions deposited) + uint (swap_output False u)
        \<le> claims True True (Pubkey 9) filled_pool (lg_positions deposited)"
    using swap_leaves_positions_payable [OF deposit_tame deposited_negatable trade_processed]
    by (auto simp: trade_accounts_def k borrow_sequence_def borrow_optional_def)
  have "arrays = [deposit_array]" using a by (simp add: arrays_of_def k)
  then have "u = trade_update" using s by (simp add: trade_swap)
  moreover have "uint (swap_input False trade_update) = 1000" "uint (swap_output False trade_update) = 996"
    by (simp_all add: swap_input_def swap_output_def trade_update_def)
  ultimately show ?thesis using c o by simp
qed

end
