(* ===== verification/Vault_Properties.thy ===== *)
theory Vault_Properties
  imports Vault_Runs Payout_Properties
begin

text \<open>
  The vaults of the pools cover what the pools owe, on every run beside an honest token program; the
  token program of the samples is one, and the sample run such a run.
\<close>

section \<open>The sample run is secure\<close>

lemma sample_honest: "honest sample_runtime"
proof -
  have s: "honest_transfer sample_runtime"
    unfolding honest_transfer_def
  proof (intro allI impI)
    fix tokens src dst authority and amount :: u64 and tokens'
    assume t: "rt_transfer sample_runtime tokens src dst authority amount = Inr tokens'"
    obtain x y where x: "st_accounts tokens src = Some x" "st_accounts tokens dst = Some y" "tok_owner x = authority"
      "amount \<le> tok_amount x" "amount \<le> tok_amount y + amount"
      and t': "tokens' = (if src = dst then tokens else tokens\<lparr>st_accounts := (st_accounts tokens)
        (src \<mapsto> x\<lparr>tok_amount := tok_amount x - amount\<rparr>, dst \<mapsto> y\<lparr>tok_amount := tok_amount y + amount\<rparr>)\<rparr>)"
      using t by (auto simp: sample_runtime_def sample_transfer_def not_less split: option.splits if_splits)
    show "may_spend sample_runtime tokens src authority
      \<and> (\<forall>x k. guarded sample_runtime tokens x k \<longrightarrow> guarded sample_runtime tokens' x k)
      \<and> (\<forall>x. balance sample_runtime tokens' x + (if x = src then unat amount else 0)
          = balance sample_runtime tokens x + (if x = dst then unat amount else 0))"
    proof (intro conjI allI impI)
      show "may_spend sample_runtime tokens src authority" using x by (auto simp: may_spend_def sample_runtime_def)
      show "guarded sample_runtime tokens' z k" if "guarded sample_runtime tokens z k" for z k
        using that x t' by (auto simp: guarded_def sample_runtime_def split: if_splits)
      have u: "unat (tok_amount x - amount) = unat (tok_amount x) - unat amount" "unat (tok_amount y + amount) = unat (tok_amount y) + unat amount"
        "unat amount \<le> unat (tok_amount x)"
        using x(4,5) unat_plus_simple [of amount "tok_amount y"] by (simp_all add: unat_sub word_le_nat_alt ac_simps)
      show "balance sample_runtime tokens' z + (if z = src then unat amount else 0)
          = balance sample_runtime tokens z + (if z = dst then unat amount else 0)" for z
        using x u unfolding t' by (auto simp: balance_def sample_runtime_def)
    qed
  qed
  show ?thesis
    using s
    by (auto simp: honest_def sample_runtime_def sample_open_def sample_mint_to_def spares_def may_spend_def guarded_def
      split: option.splits if_splits)
qed

text \<open>The sample run, up to the trade of \<open>Payout_Properties\<close>.\<close>

lemma sample_secure: "secure sample_runtime nft sample_run_position"
proof -
  have start: "secure sample_runtime nft sample_start" by (rule secure.start) (simp_all add: sample_start_def)
  have "secure sample_runtime nft (sample_start\<lparr>lg_configs := [Pubkey 20 \<mapsto> sample_config]\<rparr>)"
    by (rule secure.transaction [OF start _ sample_config_created]) (simp add: sample_start_def default_pubkey_def)
  then have "secure sample_runtime nft (sample_start\<lparr>lg_configs := [Pubkey 20 \<mapsto> sample_config], lg_fee_tiers := [Pubkey 30 \<mapsto> sample_fee_tier]\<rparr>)"
    by (rule secure.transaction [OF _ _ sample_fee_tier_created]) (simp add: sample_start_def default_pubkey_def)
  then have "secure sample_runtime nft sample_run"
    by (rule secure.transaction [OF _ _ sample_pool_created]) (simp add: sample_start_def default_pubkey_def)
  then have "secure sample_runtime nft sample_run_array"
    by (rule secure.transaction [OF _ _ sample_array_created]) (simp add: sample_run_def default_pubkey_def)
  then show ?thesis
    by (rule secure.transaction [OF _ _ sample_position_opened]) (simp add: sample_run_array_def sample_run_def default_pubkey_def)
qed

lemma traded_secure: "secure sample_runtime nft traded"
proof -
  have pools: "lg_pools sample_run_position = [Pubkey 9 \<mapsto> new_pool]" "lg_pools funded = [Pubkey 9 \<mapsto> new_pool]"
    "lg_pools deposited = [Pubkey 9 \<mapsto> filled_pool]"
    by (simp_all add: sample_run_position_def sample_run_array_def sample_run_def funded_def deposited_def)
  have f: "funded = sample_run_position\<lparr>lg_tokens := lg_tokens funded\<rparr>" by (simp add: funded_def)
  have "secure sample_runtime nft funded"
  proof (subst f, rule secure.outside [OF sample_secure])
    show "pool_accounts_kept sample_runtime sample_run_position (lg_tokens funded)"
      unfolding pool_accounts_kept_def pools
      by (auto simp: guarded_def balance_def sample_runtime_def funded_def sample_run_position_def sample_run_def sample_account_def split: if_splits)
  qed
  then have "secure sample_runtime nft deposited"
    by (rule secure.transaction [OF _ _ deposit_processed]) (simp add: pools default_pubkey_def)
  then show ?thesis
    by (rule secure.transaction [OF _ _ trade_processed]) (simp add: pools default_pubkey_def)
qed

section \<open>The vaults cover what is owed\<close>

text \<open>
  C1: Every pool can pay: on every run beside an honest token program, whatever deposits,
  withdrawals, swaps, routes, settlements and collections made it up, each of the two vaults of
  a pool is an account that only the pool can spend from, and holds at least what closing all
  its positions at once would pay out at its price, with the fees noted in the positions and the
  share of the protocol. On these runs no pool signs a transaction, and the token program, on
  behalf of others, takes nothing from an account that is guarded for a pool.
\<close>

theorem vaults_cover_claims:
  assumes "honest rt" "secure rt nft lg" "lg_pools lg k = Some w"
  shows "guarded rt (lg_tokens lg) (vault a w) k
    \<and> claims False a k w (lg_positions lg) + fees_noted a k (lg_positions lg) + uint (protocol_owed a w)
        \<le> int (balance rt (lg_tokens lg) (vault a w))"
proof -
  have "solvent rt lg" "ledger_ok lg"
    using secure_solvent [OF assms(2,1)] by (auto intro: reachable_ledger_ok tame_reachable)
  then show ?thesis using solvent_claims solventD(1) assms(3) by blast
qed

theorem vaults_cover_claims_witness:
  "claims False True (Pubkey 9) traded_pool (lg_positions traded) + fees_noted True (Pubkey 9) (lg_positions traded) \<le> 5384
   \<and> claims False False (Pubkey 9) traded_pool (lg_positions traded) + fees_noted False (Pubkey 9) (lg_positions traded) \<le> 1000"
proof -
  have w: "lg_pools traded (Pubkey 9) = Some traded_pool" by (simp add: traded_def)
  have f: "protocol_owed a traded_pool = 0" "vault a traded_pool = (if a then Pubkey 2 else Pubkey 4)" for a
    by (simp_all add: protocol_owed_def vault_def traded_pool_def update_after_swap_def Let_def new_pool_def default_whirlpool_def)
  have b: "balance sample_runtime (lg_tokens traded) (Pubkey 2) = 5384" "balance sample_runtime (lg_tokens traded) (Pubkey 4) = 1000"
    by (simp_all add: balance_def sample_runtime_def traded_def sample_account_def)
  show ?thesis
    using vaults_cover_claims [OF sample_honest traded_secure w, of True] vaults_cover_claims [OF sample_honest traded_secure w, of False]
    by (simp add: f b)
qed

text \<open>
  C4: Beside an honest token program the books of the liquidity always balance: the tokens that
  back it, less than 2^64 in a vault, bound the liquidity of a pool, so that on every such run
  no net liquidity comes near -2^127, the one value whose negation wraps round, and the run is
  one of those that liquidity_accounted_for, swap_leaves_positions_payable and
  withdrawal_possible are about.
\<close>

theorem secure_runs_are_tame:
  assumes "honest rt" "secure rt nft lg"
  shows "tame rt nft lg \<and> (\<forall>k t. - (2 ^ 127) < net_total (lg_positions lg) k t)"
  using secure_solvent [OF assms(2,1)] solvent_negatable [of rt lg]
  by (auto simp: nets_negatable_def intro: reachable_ledger_ok tame_reachable)

theorem secure_runs_are_tame_witness: "- (2 ^ 127) < net_total (lg_positions traded) (Pubkey 9) 128"
  using secure_runs_are_tame [OF sample_honest traded_secure] by blast

end
