(* ===== verification/U256_Mul.thy ===== *)
theory U256_Mul
  imports U256_Div
begin

text \<open>
  The schoolbook product \<open>U256Muldiv::mul\<close> of \<open>math/u256_math.rs\<close> computes the product of the
  values modulo \<open>2 ^ 256\<close>: no word is read or written out of bounds, no intermediate value wraps, and
  what the skipped words would hold is a multiple of \<open>2 ^ 256\<close>.
\<close>

lemma set_word:
  "i < 4 \<Longrightarrow> uval (of_items ((items x)[i := v])) + B64 ^ i * word_at x i = uval x + B64 ^ i * unat v"
  using less_4_cases [of i] by (auto simp: uval_word_at word_at_update)

lemma mul_step:
  fixes a b z :: u64 and k :: u128
  assumes "unat k < B64"
  defines "t \<equiv> ucast a * ucast b + ucast z + k"
  shows "unat t = unat a * unat b + unat z + unat k" "unat (hi_u128 t) < B64"
    "unat (lo t) + B64 * unat (hi_u128 t) = unat a * unat b + unat z + unat k"
proof -
  have u: "unat a < B64" "unat b < B64" "unat z < B64" by (rule unat_u64_less)+
  then have "unat a * unat b \<le> (B64 - 1) * (B64 - 1)" by (intro mult_le_mono) simp_all
  then have "unat a * unat b + unat z + unat k < 2 ^ 128" using u assms(1) by simp
  then show t: "unat t = unat a * unat b + unat z + unat k"
    unfolding t_def by (simp add: unat_add_nowrap unat_mult_nowrap unat_ucast_64_128)
  show "unat (hi_u128 t) < B64"
    using unat_u128_less [of t] by (simp add: unat_hi_u128 div_less_iff_less_mult)
  show "unat (lo t) + B64 * unat (hi_u128 t) = unat a * unat b + unat z + unat k"
    unfolding t [symmetric] by (simp add: unat_lo unat_hi_u128)
qed

text \<open>
  A row of the product: the loop over the words from \<open>i\<close> on adds their product with word \<open>j\<close> of the
  second factor and the carry, and leaves the words from \<open>j + m\<close> on alone.
\<close>

lemma past_the_end: "4 \<le> n \<Longrightarrow> (a + B64 ^ n * b) mod 2 ^ 256 = a mod (2 ^ 256 :: nat)"
proof -
  assume "4 \<le> n"
  then obtain c where "n = 4 + c" using le_Suc_ex by blast
  then have "B64 ^ n * b = 2 ^ 256 * (B64 ^ c * b)" by (simp add: power_add)
  then show ?thesis by (simp only: mod_mult_self2)
qed

lemma mul_inner_val:
  assumes "i \<le> m" "m \<le> 4" "j < 4"
  shows "unat k < B64 \<Longrightarrow> \<exists>r' k'. mul_inner x y j [i..<m] r k = Inr (r', k')
    \<and> unat k' < B64
    \<and> (\<forall>l < 4. j + m \<le> l \<longrightarrow> word_at r' l = word_at r l)
    \<and> (uval r' + B64 ^ (j + m) * unat k') mod 2 ^ 256
      = (uval r + B64 ^ (j + i) * (unat k + seg x i (m - i) * word_at y j)) mod 2 ^ 256"
  using assms
proof (induction "m - i" arbitrary: i r k)
  case 0
  then show ?case by simp
next
  case (Suc n)
  then have i: "i < m" and n: "n = m - Suc i" by simp_all
  let ?a = "items x ! i" and ?b = "items y ! j"
  have s: "seg x i (m - i) = word_at x i + B64 * seg x (Suc i) (m - Suc i)"
    using seg_Suc [of i n x] Suc.hyps(2) Suc.prems n by simp
  show ?case
  proof (cases "i + j < 4")
    case False
    have run: "mul_inner x y j [i..<m] r k = mul_inner x y j [Suc i..<m] r k"
      using i False Suc.prems by (simp add: upt_conv_Cons get_word_u128_items NUM_WORDS_def)
    have p: "4 \<le> j + i" "4 \<le> j + Suc i" using False by simp_all
    show ?thesis
      using Suc.hyps(1) [OF n, of k r] i Suc.prems unfolding run past_the_end [OF p(1)] past_the_end [OF p(2)] by simp
  next
    case True
    define t where "t = ucast ?a * ucast ?b + ucast (items r ! (i + j)) + k"
    define r1 where "r1 = of_items ((items r)[i + j := lo t])"
    note t = mul_step [OF Suc.prems(1), of ?a ?b "items r ! (i + j)", folded t_def]
    have run: "mul_inner x y j [i..<m] r k = mul_inner x y j [Suc i..<m] r1 (hi_u128 t)"
      using i True Suc.prems
      by (simp add: upt_conv_Cons get_word_u128_items update_word_items NUM_WORDS_def Let_def t_def r1_def)
    obtain r' k' where IH: "mul_inner x y j [Suc i..<m] r1 (hi_u128 t) = Inr (r', k')" "unat k' < B64"
      "\<forall>l < 4. j + m \<le> l \<longrightarrow> word_at r' l = word_at r1 l"
      "(uval r' + B64 ^ (j + m) * unat k') mod 2 ^ 256
      = (uval r1 + B64 ^ (j + Suc i) * (unat (hi_u128 t) + seg x (Suc i) (m - Suc i) * word_at y j)) mod 2 ^ 256"
      using Suc.hyps(1) [OF n t(2), of r1] Suc_leI [OF i] Suc.prems by blast
    have "uval r1 + B64 ^ (i + j) * word_at r (i + j) = uval r + B64 ^ (i + j) * unat (lo t)"
      unfolding r1_def by (rule set_word [OF True])
    moreover have "B64 ^ (i + j) * (unat (lo t) + B64 * unat (hi_u128 t))
        = B64 ^ (i + j) * (word_at x i * word_at y j + word_at r (i + j) + unat k)"
      unfolding t(3) word_at_def by simp
    ultimately have "uval r1 + B64 ^ (j + Suc i) * unat (hi_u128 t)
        = uval r + B64 ^ (j + i) * (word_at x i * word_at y j + unat k)"
      by (simp add: algebra_simps)
    then have "uval r1 + B64 ^ (j + Suc i) * (unat (hi_u128 t) + seg x (Suc i) (m - Suc i) * word_at y j)
        = uval r + B64 ^ (j + i) * (unat k + seg x i (m - i) * word_at y j)"
      unfolding s by (simp add: algebra_simps)
    moreover have "\<forall>l < 4. j + m \<le> l \<longrightarrow> word_at r' l = word_at r l"
      using IH(3) i True by (simp add: r1_def word_at_update)
    ultimately show ?thesis using IH(1,2,4) unfolding run by metis
  qed
qed

text \<open>The rows from \<open>j\<close> on add the rest of the product.\<close>

lemma mul_outer_val:
  assumes "m \<le> 4" "j \<le> n" "n \<le> 4" "\<And>l. l < 4 \<Longrightarrow> j + m \<le> l \<Longrightarrow> word_at r l = 0"
  shows "\<exists>z. mul_outer x y m [j..<n] r = Inr z
    \<and> uval z = (uval r + B64 ^ j * (seg x 0 m * seg y j (n - j))) mod 2 ^ 256"
  using assms
proof (induction "n - j" arbitrary: j r)
  case 0
  then show ?case using uval_less [of r] by simp
next
  case (Suc d)
  then have j: "j < n" and d: "d = n - Suc j" by simp_all
  obtain r' k' where inner: "mul_inner x y j [0..<m] r 0 = Inr (r', k')" "unat k' < B64"
    "\<And>l. l < 4 \<Longrightarrow> j + m \<le> l \<Longrightarrow> word_at r' l = 0"
    "(uval r' + B64 ^ (j + m) * unat k') mod 2 ^ 256 = (uval r + B64 ^ j * (seg x 0 m * word_at y j)) mod 2 ^ 256"
    using mul_inner_val [of 0 m j 0 x y r] j Suc.prems by auto
  define r1 where "r1 = (if j + m < 4 then of_items ((items r')[j + m := ucast k']) else r')"
  have k: "unat (ucast k' :: u64) = unat k'" using inner(2) by (simp add: unat_ucast_128_64)
  have run: "mul_outer x y m [j..<n] r = mul_outer x y m [Suc j..<n] r1"
    using j by (simp add: upt_conv_Cons inner(1) NUM_WORDS_def update_word_items r1_def)
  have v: "uval r1 mod 2 ^ 256 = (uval r' + B64 ^ (j + m) * unat k') mod 2 ^ 256"
  proof (cases "j + m < 4")
    case True
    then show ?thesis using set_word [OF True, of r' "ucast k'"] inner(3) [OF True] k by (simp add: r1_def)
  next
    case False
    then show ?thesis using past_the_end [of "j + m"] by (simp add: r1_def)
  qed
  have z: "word_at r1 l = 0" if "l < 4" "Suc j + m \<le> l" for l
    using inner(3) that by (simp add: r1_def word_at_update)
  obtain z where z: "mul_outer x y m [Suc j..<n] r1 = Inr z"
    "uval z = (uval r1 + B64 ^ Suc j * (seg x 0 m * seg y (Suc j) (n - Suc j))) mod 2 ^ 256"
    using Suc.hyps(1) [OF d Suc.prems(1) _ Suc.prems(3) z] j by auto
  have "seg y j (n - j) = word_at y j + B64 * seg y (Suc j) (n - Suc j)"
    using seg_Suc [of j d y] Suc.hyps(2) Suc.prems d by simp
  then have "uval r + B64 ^ j * (seg x 0 m * seg y j (n - j))
      = uval r + B64 ^ j * (seg x 0 m * word_at y j) + B64 ^ Suc j * (seg x 0 m * seg y (Suc j) (n - Suc j))"
    by (simp add: algebra_simps)
  then have "uval z = (uval r + B64 ^ j * (seg x 0 m * seg y j (n - j))) mod 2 ^ 256"
    unfolding z(2) by (simp only:) (rule mod_add_cong [OF trans [OF v inner(4)] refl])
  then show ?case unfolding run using z(1) by blast
qed

text \<open>
  C18: The product of two 256-bit integers never panics and is the product of their values
  modulo 2^256: it is exact whenever the product fits.
\<close>

theorem product_correct: "\<exists>z. u256_mul x y = Inr z \<and> uval z = uval x * uval y mod 2 ^ 256"
proof -
  have "word_at (new 0 0) l = 0" if "l < 4" for l
    using less_4_cases [OF that] by (auto simp: word_at_def items_def new_def lo_def hi_def)
  then show ?thesis
    using mul_outer_val [of "num_words x" 0 "num_words y" "new 0 0" x y] num_words_le
    unfolding u256_mul_def uval_seg_num_words [of x] uval_seg_num_words [of y] by simp
qed

end
