(* ===== verification/Spec2Isabelle.thy ===== *)
theory Spec2Isabelle
  imports Sample_Ledger Ledger_Access Instruction_Properties Vault_Properties
    U256_Mul
begin

text \<open>
  A model of the on-chain program \<open>src/programs/whirlpool/src\<close>, a market maker with concentrated
  liquidity, and the theorems that make it correct.

  The program keeps five kinds of accounts.  A configuration (\<open>state/config.rs\<close>) names the keys that
  administer its pools.  A fee tier (\<open>state/fee_tier.rs\<close>) gives the fee rate of new pools.  A pool
  (\<open>state/whirlpool.rs\<close>) trades two tokens at a current price, kept as a square root with 64 bits of
  fraction, with the liquidity in use at that price, the fees earned so far per unit of liquidity
  and up to three rewards.  A tick array (\<open>state/tick.rs\<close>) holds the 88 ticks of a stretch of prices,
  with the liquidity that starts or ends there.  A position (\<open>state/position.rs\<close>) is the liquidity of
  one owner between two ticks.  Twenty-eight instructions (\<open>lib.rs\<close>, \<open>instructions/*.rs\<close>) create and
  change them; the managers (\<open>manager/*.rs\<close>) compute the changes; the mathematics (\<open>math/*.rs\<close>) works
  with fixed point numbers of 128 and 256 bits.

  Theories, from the bottom up, with the files they model:

    \<^item> \<open>Errors\<close>, \<open>Prelude\<close>: the error codes (\<open>errors.rs\<close>), results as sums, checked arithmetic, arrays
      of three, rounding and decimal numerals; the lemmas that all theories share.
    \<^item> \<open>U256_Math\<close>, \<open>U256_Mul\<close>, \<open>U256_Div\<close>, \<open>U256_Display\<close> (\<open>math/u256_math.rs\<close>): four-word integers,
      their value \<open>uval\<close>, the schoolbook product, long division, and the decimal form.
    \<^item> \<open>Bit_Math\<close>, \<open>Token_Math\<close>, \<open>Swap_Math\<close> (\<open>math/bit_math.rs\<close>, \<open>liquidity_math.rs\<close>, \<open>token_math.rs\<close>,
      \<open>swap_math.rs\<close>): products and quotients, token amounts between two prices, the price after an
      amount, one step of a swap.
    \<^item> \<open>Tick_Math\<close>, \<open>Tick_Curve\<close>, \<open>Tick_Index\<close> (\<open>math/tick_math.rs\<close>): the price of a tick, how near it is to
      the real curve, and the tick of a price by a binary logarithm.
    \<^item> \<open>State_Config\<close>, \<open>State_Tick\<close>, \<open>State_Whirlpool\<close>, \<open>State_Position\<close> (\<open>state/*.rs\<close>): the accounts and
      their operations.
    \<^item> \<open>Tick_Manager\<close>, \<open>Whirlpool_Manager\<close>, \<open>Liquidity_Manager\<close>, \<open>Swap_Tick_Sequence\<close>, \<open>Swap_Manager\<close>
      (\<open>manager/*.rs\<close>, \<open>util/swap_tick_sequence.rs\<close>): crossing ticks, growth inside a range, rewards,
      changes of liquidity, the search over tick arrays and the swap loop.
    \<^item> \<open>Accounts\<close>, \<open>Instr_Config\<close>, \<open>Instr_Pool\<close>, \<open>Instr_Position\<close>, \<open>Instr_Swap\<close>, \<open>Program\<close> (\<open>util/*.rs\<close>,
      \<open>instructions/*.rs\<close>, \<open>lib.rs\<close>): the checks of the account structs, every handler, and \<open>process\<close>,
      which runs one instruction on a \<open>ledger\<close>, the maps from keys to accounts.
    \<^item> \<open>Ledger_Effect\<close>, \<open>Ledger\<close>, \<open>Ledger_Invariant\<close>, \<open>Ledger_Access\<close>: the relation \<open>effect\<close>, an abstract
      specification of what a transaction may do to the accounts and the tokens, the proof that every
      handler implements it, the invariant of all reachable ledgers, and who may change what.
    \<^item> \<open>Enable_Flag\<close>: that a route over two pools reads no enable flag.
    \<^item> \<open>Liquidity_Profile\<close>, \<open>Liquidity_Totals\<close>, \<open>Liquidity_Account\<close>, \<open>Liquidity_Withdrawal\<close>: the liquidity
      of a pool as a function of the tick, and its books: what the positions of a pool add up to.
    \<^item> \<open>Pool_Worth\<close>, \<open>Liquidity_Payout\<close>: the tokens that the liquidity of a pool stands for between two
      prices, and what a swap leaves of them to the positions.
    \<^item> \<open>Fee_Growth\<close>, \<open>Fee_Account\<close>, \<open>Fee_Settlement\<close>: the fees that the ticks and the positions record, and
      what a pool owes in each token, under swaps, settlements, deposits and withdrawals.
    \<^item> \<open>Token_Conduct\<close>, \<open>Vault_Solvency\<close>, \<open>Vault_Runs\<close>: an honest token program, the vaults of the pools
      under every instruction, and the runs on which they cover what the pools owe.
    \<^item> \<open>Samples\<close>, \<open>Sample_Ledger\<close>, \<open>Sample_Hop\<close>: concrete pools, ledgers and transactions, run in the logic.
    \<^item> \<open>Math_Properties\<close>, \<open>Pool_Properties\<close>, \<open>Position_Properties\<close>, \<open>Instruction_Properties\<close>,
      \<open>Liquidity_Properties\<close>, \<open>Payout_Properties\<close>, \<open>Vault_Properties\<close> and this theory: the properties,
      numbered C1, C2 and so on.

  Conventions.  Fields of accounts have the names of the code with a prefix (\<open>wp_\<close>, \<open>pos_\<close>, \<open>tk_\<close> and
  so on), key structs of instructions likewise.  Unsigned integers are words of their width, with
  the wrap-around of words where the code wraps or does not check; signed integers are \<open>int\<close> with
  the wrap-around written out (\<open>to_i32\<close>, \<open>to_i128\<close>), and \<open>in_i128\<close> says that no wrap happens.  The model
  is that of the release build, in which unchecked operations wrap.  A \<open>Result\<close> is a sum: \<open>Inr\<close> the
  value, \<open>Inl (Err e)\<close> an error code of the program, \<open>Inl (Constraint c)\<close> an account check of the
  framework that fails, \<open>Inl Panic\<close> a panic (division by zero, index out of bounds, \<open>unwrap\<close>).  Account
  mutation is the returned ledger; the failure of a transaction leaves the old one.  The swap loop
  may in principle run on, so that it is a partial function whose value \<open>None\<close> is a run that never
  ends; that this does not happen is proved (C6 and C15).  No fuel is
  used anywhere.

  Groups of lemmas.  For the integers: the value of every operation of 256-bit integers, the
  divisions that panic (\<open>u256_div_panics\<close>), and the division as a locale (\<open>wide_division\<close>) that its
  callers use.  For prices: the tables are compared
  with the powers of the square root of 1.0001 factor by factor, so that the fixed point price of
  each of the 887273 ticks is within 2^-24 of the real one; from this the logarithm is shown to find
  the right tick for every price.  For ticks: tick arrays, the arrays of a transaction and the
  sequence of a swap are three instances of one locale of stores (\<open>tick_store\<close>); the two fee growths and
  the rewards are three instances of one locale of accumulators (\<open>growth_accumulator\<close>); the prices of ticks
  are an instance of \<open>price_curve\<close>.  For swaps: an invariant of the loop and a measure, the number of ticks
  left in the direction of the trade.  For the ledger: an inversion of each handler, the refinement to
  \<open>effect\<close>, and the invariants by induction on \<open>reachable\<close>.  For the liquidity: between initialized ticks
  the sum over the positions in range is flat, and at a tick it jumps by the net liquidity of the tick,
  so that a swap whose arrays agree with it ends at its value (\<open>swap_profile\<close>); deposits and
  withdrawals change the sum and the two ticks alike.  For the tokens: the worth of the liquidity between
  two prices is a sum over the ticks (\<open>pool_gain\<close>), which serves as a potential: a step of a swap changes it
  by no more than it takes in and gives out (\<open>swap_step_covered\<close>), whole swaps add up (\<open>swap_covered\<close>), and
  what the program would pay for all positions, rounded down, stays within it (\<open>claims_gain\<close>).  For the fees: what has
  grown while the price was below a tick is a function of the tick, which every initialized tick stores
  on the side away from the price (\<open>recorded\<close>); a position is owed the growth between its ends since it
  was settled, and an amount backs a pool when it covers the worth of the positions, the fees noted and
  growing, and the protocol's share (\<open>backed\<close>).  Each operation changes this debt by no more than the
  tokens it moves, so that the vaults stay solvent (\<open>process_solvent\<close>).  The books need that no net
  liquidity is -2^127: crossing such a tick downwards negates it without a check, and the negation wraps
  round; that tokens are too few for this is shown for the runs of \<open>Vault_Runs\<close>.

  Parameters.  The token program, the metadata program, the creation of accounts and the derivation
  of addresses are not part of this repository: they are the fields of the record \<open>runtime\<close>, on which
  the theorems put no hypotheses, except that those on vaults ask the token program to be \<open>honest\<close>: an
  amount leaves an account only for its owner or delegate, and a call changes no account but those it
  names.  The clock and the set of signers are those of \<open>tx\<close>.

  Not modelled: lamports, rent and the payer of an account; the identity of the programs passed as
  accounts and the writability of accounts; the (de)serialisation of accounts and their
  discriminators; \<open>math/bn.rs\<close>, a big integer that only tests use; the tests; the
  TypeScript client, which runs off chain.
\<close>

section \<open>Runs of the program\<close>

text \<open>
  C2: In every ledger that transactions reach from the empty one, rates are within their limits,
  mints are ordered, each pool has a price in range that lies at its current tick, and each
  position and tick array belongs to an existing pool and fits its tick spacing.
\<close>

theorem runs_keep_invariant:
  assumes "reachable rt nft lg"
  shows "ledger_ok lg"
  using assms by (rule reachable_ledger_ok)

theorem runs_keep_invariant_witness: "ledger_ok sample_run"
  by (rule runs_keep_invariant [OF sample_run_reachable])

text \<open>
  C6: On every reachable ledger every instruction returns, with a new ledger or an error: no
  swap runs forever.
\<close>

theorem instructions_return:
  assumes "reachable rt nft lg"
  shows "\<exists>r. process rt nft tx ins lg = Some r"
  using assms by (intro process_returns reachable_ledger_ok)

theorem instructions_return_witness:
  "\<exists>r. process sample_runtime (Pubkey 90) sample_tx (Swap sample_swap_accounts 1000000 900000 18446744073709551616
     True True) sample_run = Some r"
  by (rule instructions_return [OF sample_run_reachable])

text \<open>
  C10: Every instruction that succeeds makes one of the thirteen changes of an abstract
  specification, each with the permission it needs and with exactly the calls of the token
  program that go with it, and leaves everything else in the ledger as it is: a configuration is
  made or changed by its authorities, a fee tier set by the fee authority, a pool founded with
  two new vaults; the settings of a pool change, which moves no tokens and leaves what it owes
  and has counted, or a reward gets a vault, or the authority for the protocol fees takes
  exactly the fees owed, which are then no longer owed; a tick array is made; a position is
  opened, and one token of a new mint given out for it, closed, and the token burnt, paid its
  fees or a reward, settled, or its liquidity changed together with its pool and its ticks, and
  the amounts for the liquidity paid in by someone who signed or paid out by the pool; or there
  is a swap with its two payments on an enabled pool, or one after the other on two different
  pools.
\<close>

theorem handlers_refine_effects:
  assumes "process rt nft tx ins lg = Some (Inr lg')"
  shows "effect rt tx lg lg'"
  using assms by (rule process_effect)

theorem handlers_refine_effects_witness: "effect sample_runtime sample_tx sample_ledger sample_swapped"
  by (rule handlers_refine_effects [OF sample_swap_processed])

text \<open>
  C11: No instruction deletes a pool or changes its configuration, bump, tick spacing, mints or
  vaults.
\<close>

theorem pools_keep_identity:
  assumes "process rt nft tx ins lg = Some (Inr lg')" "lg_pools lg k = Some w"
  shows "\<exists>w'. lg_pools lg' k = Some w' \<and> pool_id w' = pool_id w"
  using effect_pools_kept [OF process_effect [OF assms(1)]] assms(2) by (simp add: pools_kept_def)

theorem pools_keep_identity_witness:
  "\<exists>w'. lg_pools sample_swapped (Pubkey 9) = Some w' \<and> pool_id w' = pool_id sample_pool"
  by (rule pools_keep_identity [OF sample_swap_processed]) (simp add: sample_ledger_def)

section \<open>Authorities\<close>

text \<open>
  C12: The fee rates of a pool change only with the signature of the fee authority of its
  configuration, its enable flag only with that of the pool creator authority, and the mint,
  vault, authority or emissions of a reward only with that of the authority of the reward or of
  the super authority.
\<close>

theorem pool_settings_need_authority:
  assumes "process rt nft tx ins lg = Some (Inr lg')" "lg_pools lg k = Some w" "lg_pools lg' k = Some w'"
  shows "(rates w' \<noteq> rates w \<longrightarrow> signed_by tx lg (wp_whirlpools_config w) cfg_fee_authority)
    \<and> (wp_is_enabled w' \<noteq> wp_is_enabled w \<longrightarrow>
         signed_by tx lg (wp_whirlpools_config w) cfg_pool_creator_authority)
    \<and> (\<forall>i < 3. let r = arr3_list (wp_reward_infos w) ! i; r' = arr3_list (wp_reward_infos w') ! i in
         reward_setting r' \<noteq> reward_setting r \<longrightarrow> tx_signer tx (ri_authority r)
           \<or> signed_by tx lg (wp_whirlpools_config w) cfg_reward_emissions_super_authority)"
proof -
  have p: "pool_permitted tx lg w w'"
    using effect_pool_permitted [OF process_effect [OF assms(1)] assms(2)] assms(3) by auto
  have "length (arr3_list (wp_reward_infos w)) = 3" by (cases "wp_reward_infos w") simp
  then show ?thesis
    using p by (auto simp: pool_permitted_def rewards_permitted_def list_all2_conv_all_nth reward_permitted_def Let_def)
qed

theorem pool_settings_need_authority_witness:
  "process sample_runtime (Pubkey 90) sample_tx (Set_fee_rate \<lparr>sfr_whirlpools_config = default_pubkey,
      sfr_whirlpool = Pubkey 9, sfr_fee_authority = Pubkey 21\<rparr> 500) sample_ledger
    = Some (Inr (sample_ledger\<lparr>lg_pools := [Pubkey 9 \<mapsto> sample_pool\<lparr>wp_fee_rate := 500\<rparr>]\<rparr>))
   \<and> signed_by sample_tx sample_ledger default_pubkey cfg_fee_authority"
proof -
  have c: "wp_whirlpools_config sample_pool = default_pubkey"
    by (simp add: sample_pool_def default_whirlpool_def)
  have p: "process sample_runtime (Pubkey 90) sample_tx (Set_fee_rate \<lparr>sfr_whirlpools_config = default_pubkey,
      sfr_whirlpool = Pubkey 9, sfr_fee_authority = Pubkey 21\<rparr> 500) sample_ledger
    = Some (Inr (sample_ledger\<lparr>lg_pools := [Pubkey 9 \<mapsto> sample_pool\<lparr>wp_fee_rate := 500\<rparr>]\<rparr>))"
    by (simp add: set_fee_rate_def account_def signer_def has_one_def address_def c update_fee_rate_def
      MAX_FEE_RATE_def sample_ledger_def sample_config_def)
  have "signed_by sample_tx sample_ledger (wp_whirlpools_config sample_pool) cfg_fee_authority"
    using pool_settings_need_authority [OF p, of "Pubkey 9" sample_pool "sample_pool\<lparr>wp_fee_rate := 500\<rparr>"]
    by (simp add: sample_ledger_def rates_def)
  then show ?thesis using p by (simp add: c)
qed

text \<open>
  C13: A position keeps its pool, mint and range; it is deleted only when it is empty, and
  deleting it or changing its liquidity needs the signature of the holder or delegate of its
  token and an enabled pool.
\<close>

theorem position_changes_need_owner:
  assumes "process rt nft tx ins lg = Some (Inr lg')" "lg_positions lg q = Some p"
  shows "position_change_ok rt tx lg p (lg_positions lg' q)"
  using effect_position_permitted [OF process_effect [OF assms(1)] assms(2)] .

theorem position_changes_need_owner_witness:
  "position_change_ok sample_runtime sample_tx sample_ledger sample_position (lg_positions sample_swapped (Pubkey 50))"
  by (rule position_changes_need_owner [OF sample_swap_processed]) (simp add: sample_ledger_def)

text \<open>
  C14: Configurations are never deleted; each authority of a configuration is replaced only with
  its own signature, and the default protocol fee rate changes only with that of the fee
  authority.
\<close>

theorem config_roles_replace_themselves:
  assumes "process rt nft tx ins lg = Some (Inr lg')" "lg_configs lg k = Some c"
  shows "\<exists>c'. lg_configs lg' k = Some c' \<and> config_permitted tx c c'"
  using effect_config_permitted [OF process_effect [OF assms(1)] assms(2)] .

theorem config_roles_replace_themselves_witness:
  "\<exists>c'. lg_configs sample_swapped default_pubkey = Some c' \<and> config_permitted sample_tx sample_config c'"
  by (rule config_roles_replace_themselves [OF sample_swap_processed]) (simp add: sample_ledger_def)

text \<open>
  A position that an instruction creates has no liquidity and belongs to an existing pool that
  is enabled.
\<close>

theorem new_positions_are_empty:
  assumes "process rt nft tx ins lg = Some (Inr lg')" "lg_positions lg q = None" "lg_positions lg' q = Some p"
  shows "pos_liquidity p = 0 \<and> (\<exists>w. lg_pools lg (pos_whirlpool p) = Some w \<and> wp_is_enabled w)"
  using effect_position_opened [OF process_effect [OF assms(1)] assms(2,3)] .

theorem new_positions_are_empty_witness:
  "pos_liquidity opened_position = 0
   \<and> (\<exists>w. lg_pools sample_run_array (pos_whirlpool opened_position) = Some w \<and> wp_is_enabled w)"
  by (rule new_positions_are_empty [OF sample_position_opened, of "Pubkey 50"])
    (simp_all add: sample_run_position_def sample_run_array_def sample_run_def sample_start_def)

section \<open>Trades\<close>

text \<open>
  C9: A swap instruction that succeeds makes two transfers, one from the trader into the vault
  of the input token and one out of the vault of the other; with the input specified the trader
  pays at most the amount and receives at least the threshold, with the output specified he
  receives at most the amount and pays at most the threshold; the pool is enabled.
\<close>

theorem swap_respects_threshold:
  assumes ok: "ledger_ok lg"
    and r: "process rt nft tx (Swap acc amount other limit exact_input a_to_b) lg = Some (Inr lg')"
  shows "\<exists>w u tokens. lg_pools lg (sa_whirlpool acc) = Some w \<and> wp_is_enabled w
    \<and> rt_transfer rt (lg_tokens lg)
         (if a_to_b then sa_token_owner_account_a acc else sa_token_owner_account_b acc)
         (if a_to_b then wp_token_vault_a w else wp_token_vault_b w)
         (sa_token_authority acc) (swap_input a_to_b u) = Inr tokens
    \<and> rt_transfer rt tokens
         (if a_to_b then wp_token_vault_b w else wp_token_vault_a w)
         (if a_to_b then sa_token_owner_account_b acc else sa_token_owner_account_a acc)
         (sa_whirlpool acc) (swap_output a_to_b u) = Inr (lg_tokens lg')
    \<and> (if exact_input then swap_input a_to_b u \<le> amount \<and> other \<le> swap_output a_to_b u
       else swap_output a_to_b u \<le> amount \<and> swap_input a_to_b u \<le> other)"
proof (rule swap_instruction_Inr [OF r [unfolded process.simps]])
  fix w :: Whirlpool and keys arrays and u :: PostSwapUpdate and arrays' tokens
  let ?ts = "of_int (tx_unix_timestamp tx) :: u64"
  let ?w' = "update_after_swap w (ps_next_liquidity u) (ps_next_tick_index u) (ps_next_sqrt_price u)
    (ps_next_fee_growth_global u) (ps_next_reward_infos u) (ps_next_protocol_fee u) a_to_b ?ts"
  assume w: "swap_accounts rt tx acc lg = Inr w" "wp_is_enabled w"
    and keys: "borrow_sequence [] (sa_tick_array_0 acc) (sa_tick_array_1 acc) (sa_tick_array_2 acc) = Inr keys"
    and arr: "arrays_of (lg_arrays lg) keys = Inr arrays"
    and s: "swap w arrays amount limit exact_input a_to_b ?ts = Some (Inr (u, arrays'))"
    and c: "check_threshold exact_input a_to_b other u = Inr ()"
    and t: "update_and_swap_whirlpool rt (sa_whirlpool acc, w) (sa_token_authority acc)
       (sa_token_owner_account_a acc) (sa_token_owner_account_b acc) (sa_token_vault_a acc)
       (sa_token_vault_b acc) u a_to_b ?ts (lg_tokens lg) = Inr (?w', tokens)"
    and lg': "lg' = lg\<lparr>lg_pools := (lg_pools lg)(sa_whirlpool acc \<mapsto> ?w'),
       lg_arrays := store_arrays (lg_arrays lg) keys arrays', lg_tokens := tokens\<rparr>"
  note a = swap_accounts_Inr [OF w(1)]
  have v: "sa_token_vault_a acc = wp_token_vault_a w" "sa_token_vault_b acc = wp_token_vault_b w"
    using w(1) unfolding swap_accounts_def handler_iffs by auto
  note b = borrowed_arrays [OF keys arr a(2)]
  have sq: "sequence_ok (wp_tick_spacing w) arrays" by (rule ledger_sequence_ok [OF ok a(1) arr b(1,3)])
  have "pool_ok w" using ok a(1) by (auto simp: ledger_ok_def pools_ok_def)
  then have "fixed_traded exact_input a_to_b u \<le> amount" using swap_respects_limits(3) [OF _ sq s] by simp
  then have "if exact_input then swap_input a_to_b u \<le> amount \<and> other \<le> swap_output a_to_b u
    else swap_output a_to_b u \<le> amount \<and> swap_input a_to_b u \<le> other"
    using c by (auto simp: check_threshold_def fixed_traded_def swap_input_def swap_output_def not_less split: if_splits)
  moreover obtain tokens1 where
    "rt_transfer rt (lg_tokens lg) (if a_to_b then sa_token_owner_account_a acc else sa_token_owner_account_b acc)
         (if a_to_b then wp_token_vault_a w else wp_token_vault_b w)
         (sa_token_authority acc) (swap_input a_to_b u) = Inr tokens1"
    "rt_transfer rt tokens1 (if a_to_b then wp_token_vault_b w else wp_token_vault_a w)
         (if a_to_b then sa_token_owner_account_b acc else sa_token_owner_account_a acc)
         (sa_whirlpool acc) (swap_output a_to_b u) = Inr tokens"
    using t v by (cases a_to_b) (auto simp: update_and_swap_whirlpool_def perform_swap_def handler_iffs Let_def
      transfer_from_owner_to_vault_def transfer_from_vault_to_owner_def swap_input_def swap_output_def)
  moreover have "lg_tokens lg' = tokens" by (simp add: lg')
  ultimately show ?thesis using a(1) w(2)
    by (intro exI [of _ w] exI [of _ u] exI [of _ tokens1] conjI) (simp_all only:)
qed

theorem swap_respects_threshold_witness:
  "\<exists>u tokens. rt_transfer sample_runtime (lg_tokens sample_ledger) (Pubkey 81) (Pubkey 4) (Pubkey 85)
       (swap_input False u) = Inr tokens
    \<and> rt_transfer sample_runtime tokens (Pubkey 2) (Pubkey 80) (Pubkey 9) (swap_output False u)
        = Inr (lg_tokens sample_swapped)
    \<and> swap_input False u \<le> 1000000 \<and> 900000 \<le> swap_output False u"
  using swap_respects_threshold [OF sample_ledger_ok sample_swap_processed]
  by (auto simp: sample_swap_accounts_def sample_ledger_def sample_pool_def)

text \<open>
  C15: The swap loop of a pool whose price lies at its current tick returns on every amount,
  price limit and direction: it never walks the ticks forever.
\<close>

theorem swap_terminates:
  assumes "pool_ok w" "sequence_ok (wp_tick_spacing w) arrays"
  shows "\<exists>r. swap w arrays amount limit exact_input a_to_b timestamp = Some r"
  using assms by (rule swap_returns)

theorem swap_terminates_witness:
  "\<exists>r. swap sample_pool sample_arrays 1000000 79226673515401279992447579055 True False 0 = Some r"
  by (rule swap_terminates) (simp_all add: sample_pool_ok sample_sequence_ok)

text \<open>
  C7: A swap that succeeds moves the price in the direction of the trade and not past the limit,
  stays inside the range of prices, trades at most the specified amount, and stops only when the
  amount is used up or the limit is reached; the new price lies at the new tick.
\<close>

theorem swap_within_limits:
  assumes "pool_ok w" "sequence_ok (wp_tick_spacing w) arrays"
    and "swap w arrays amount limit exact_input a_to_b timestamp = Some (Inr (u, arrays'))"
  shows "on_the_way a_to_b (wp_sqrt_price w) (ps_next_sqrt_price u) limit
    \<and> price_in_range (ps_next_sqrt_price u)
    \<and> fixed_traded exact_input a_to_b u \<le> amount
    \<and> (fixed_traded exact_input a_to_b u = amount \<or> ps_next_sqrt_price u = limit)
    \<and> tick_price_ok (ps_next_tick_index u) (ps_next_sqrt_price u)
    \<and> sequence_ok (wp_tick_spacing w) arrays'"
  using swap_respects_limits [OF assms] by simp

theorem swap_within_limits_witness:
  "on_the_way False 18446744073709551616 18446762465113393104 79226673515401279992447579055
    \<and> fixed_traded True False sample_update \<le> 1000000"
  using swap_within_limits [OF sample_pool_ok _ sample_swap] sample_sequence_ok
  by (simp add: sample_update_def)

section \<open>Arithmetic\<close>




end
